(* ===== verification/Framing.thy ===== *)
theory Framing
  imports Prelude
begin

text \<open>
  Length-prefixed framing (\<open>src/internal/frame/frame.go\<close>): a frame is a 2-byte big-endian
  length followed by that many payload bytes. An \<open>io.Writer\<close> is any function that takes its
  state and the bytes of one \<open>Write\<close> and returns an error or none with its new state; an
  \<open>io.Reader\<close> is the bytes it still delivers and the error it gives after them. The locale
  \<open>framing\<close> states what the users of a framed stream rely on: a written message is read
  back whole, and whatever follows it is left for the next read.
\<close>

section \<open>Readers and writers of the package io\<close>

datatype io_err = EOF | ErrUnexpectedEOF | ErrDeadlineExceeded | ErrClosed | OtherIO string

type_synonym 'w writer = "'w \<Rightarrow> bytes \<Rightarrow> io_err option \<times> 'w"

text \<open>A buffer: every write is appended, none fails.\<close>

definition buffer_write :: "bytes writer" where
  "buffer_write b bs = (None, b @ bs)"

record reader =
  rd_data :: bytes
  rd_end :: io_err

text \<open>
  \<open>io.ReadFull\<close>: all bytes of the buffer, or the reader's own error when it delivered none,
  or \<open>ErrUnexpectedEOF\<close> when it ended after some.
\<close>

definition read_full :: "nat \<Rightarrow> reader \<Rightarrow> (io_err + bytes) \<times> reader" where
  "read_full n r =
     (if n \<le> length (rd_data r)
      then (Inr (take n (rd_data r)), r\<lparr>rd_data := drop n (rd_data r)\<rparr>)
      else (Inl (if rd_data r \<noteq> [] \<and> rd_end r = EOF then ErrUnexpectedEOF else rd_end r),
            r\<lparr>rd_data := []\<rparr>))"

lemma read_full_exact:
  "length bs = n \<Longrightarrow>
   read_full n \<lparr>rd_data = bs @ rest, rd_end = e\<rparr> = (Inr bs, \<lparr>rd_data = rest, rd_end = e\<rparr>)"
  by (auto simp: read_full_def)

section \<open>The frame codec\<close>

definition max_frame_size :: nat where
  "max_frame_size = 65535"

datatype frame_err =
    FrameTooLarge nat
  | WriteHeader io_err
  | WritePayload io_err
  | ReadHeader io_err
  | ReadPayload "16 word" io_err

text \<open>\<open>errors.Is\<close> against an error of the package io: every wrapper passes it through.\<close>

fun frame_err_is :: "frame_err \<Rightarrow> io_err \<Rightarrow> bool" where
  "frame_err_is (FrameTooLarge n) e = False"
| "frame_err_is (WriteHeader e') e = (e' = e)"
| "frame_err_is (WritePayload e') e = (e' = e)"
| "frame_err_is (ReadHeader e') e = (e' = e)"
| "frame_err_is (ReadPayload n e') e = (e' = e)"

definition put_uint16 :: "16 word \<Rightarrow> bytes" where
  "put_uint16 v = [ucast (drop_bit 8 v), ucast v]"

definition get_uint16 :: "bytes \<Rightarrow> 16 word" where
  "get_uint16 b = ucast (b ! 1) OR push_bit 8 (ucast (b ! 0))"

definition write_frame :: "'w writer \<Rightarrow> 'w \<Rightarrow> bytes \<Rightarrow> frame_err option \<times> 'w" where
  "write_frame wr w payload =
     (if length payload > max_frame_size then (Some (FrameTooLarge (length payload)), w)
      else (case wr w (put_uint16 (word_of_nat (length payload))) of
          (Some e, w1) \<Rightarrow> (Some (WriteHeader e), w1)
        | (None, w1) \<Rightarrow>
            (if payload = [] then (None, w1)
             else (case wr w1 payload of
                 (Some e, w2) \<Rightarrow> (Some (WritePayload e), w2)
               | (None, w2) \<Rightarrow> (None, w2)))))"

definition read_frame :: "reader \<Rightarrow> (frame_err + bytes) \<times> reader" where
  "read_frame r =
     (case read_full 2 r of
        (Inl e, r1) \<Rightarrow> (Inl (ReadHeader e), r1)
      | (Inr hdr, r1) \<Rightarrow>
          (let n = get_uint16 hdr
           in if n = 0 then (Inr [], r1)
              else (case read_full (unat n) r1 of
                  (Inl e, r2) \<Rightarrow> (Inl (ReadPayload n e), r2)
                | (Inr payload, r2) \<Rightarrow> (Inr payload, r2))))"

lemma length_put_uint16 [simp]: "length (put_uint16 v) = 2"
  by (simp add: put_uint16_def)

lemma get_put_uint16 [simp]: "get_uint16 (put_uint16 v) = v"
  unfolding get_uint16_def put_uint16_def
  by (rule bit_word_eqI) (auto simp: bit_simps)

lemma put_get_uint16: "put_uint16 (get_uint16 [a, b]) = [a, b]"
  unfolding get_uint16_def put_uint16_def
  by (auto intro!: bit_word_eqI simp: bit_simps) (drule bit_imp_le_length, simp)

text \<open>What a frame looks like on the wire, for a payload that fits.\<close>

definition frame_bytes :: "bytes \<Rightarrow> bytes option" where
  "frame_bytes p =
     (if length p > max_frame_size then None
      else Some (put_uint16 (word_of_nat (length p)) @ p))"

lemma write_frame_buffer:
  "write_frame buffer_write b p =
     (case frame_bytes p of
        None \<Rightarrow> (Some (FrameTooLarge (length p)), b)
      | Some bs \<Rightarrow> (None, b @ bs))"
  by (simp add: write_frame_def frame_bytes_def buffer_write_def)

lemma unat_length_frame: "length p \<le> max_frame_size \<Longrightarrow> unat (word_of_nat (length p) :: 16 word) = length p"
  by (simp add: unat_of_nat max_frame_size_def)

lemma read_frame_frame_bytes:
  assumes "frame_bytes p = Some bs"
  shows "read_frame \<lparr>rd_data = bs @ rest, rd_end = e\<rparr> = (Inr p, \<lparr>rd_data = rest, rd_end = e\<rparr>)"
proof -
  from assms have len: "length p \<le> max_frame_size"
    and bs: "bs = put_uint16 (word_of_nat (length p)) @ p"
    by (auto simp: frame_bytes_def split: if_splits)
  let ?n = "word_of_nat (length p) :: 16 word"
  have un: "unat ?n = length p" using len by (rule unat_length_frame)
  have hdr: "read_full 2 \<lparr>rd_data = bs @ rest, rd_end = e\<rparr>
      = (Inr (put_uint16 ?n), \<lparr>rd_data = p @ rest, rd_end = e\<rparr>)"
    unfolding bs append_assoc by (rule read_full_exact) simp
  show ?thesis
  proof (cases "?n = 0")
    case True
    then have "p = []" using un by simp
    with True hdr show ?thesis by (simp add: read_frame_def)
  next
    case False
    with hdr un show ?thesis
      by (simp add: read_frame_def read_full_exact)
  qed
qed

section \<open>The contract of a framed stream\<close>

text \<open>
  \<open>put m\<close> is the bytes message \<open>m\<close> occupies on the wire (\<open>None\<close> when the writer refuses
  it), \<open>get\<close> reads one message.
\<close>

fun get_many :: "(reader \<Rightarrow> ('e + 'm) \<times> reader) \<Rightarrow> nat \<Rightarrow> reader \<Rightarrow> ('e + 'm list) \<times> reader" where
  "get_many get 0 r = (Inr [], r)"
| "get_many get (Suc n) r =
     (case get r of
        (Inl e, r1) \<Rightarrow> (Inl e, r1)
      | (Inr m, r1) \<Rightarrow>
          (case get_many get n r1 of
             (Inl e, r2) \<Rightarrow> (Inl e, r2)
           | (Inr ms, r2) \<Rightarrow> (Inr (m # ms), r2)))"

fun put_many :: "('m \<Rightarrow> bytes option) \<Rightarrow> 'm list \<Rightarrow> bytes option" where
  "put_many put [] = Some []"
| "put_many put (m # ms) =
     (case put m of
        None \<Rightarrow> None
      | Some bs \<Rightarrow> (case put_many put ms of None \<Rightarrow> None | Some cs \<Rightarrow> Some (bs @ cs)))"

locale framing =
  fixes put :: "'m \<Rightarrow> bytes option"
    and get :: "reader \<Rightarrow> ('e + 'm) \<times> reader"
  assumes put_get: "put m = Some bs \<Longrightarrow>
      get \<lparr>rd_data = bs @ rest, rd_end = e\<rparr> = (Inr m, \<lparr>rd_data = rest, rd_end = e\<rparr>)"
    and put_not_Nil: "put m = Some bs \<Longrightarrow> bs \<noteq> []"
begin

text \<open>A stream of messages is read back message by message, and nothing else is consumed.\<close>

lemma stream_get:
  "put_many put ms = Some bs \<Longrightarrow>
   get_many get (length ms) \<lparr>rd_data = bs @ rest, rd_end = e\<rparr> = (Inr ms, \<lparr>rd_data = rest, rd_end = e\<rparr>)"
proof (induction ms arbitrary: bs)
  case Nil
  then show ?case by simp
next
  case (Cons m ms)
  from Cons.prems obtain b c where b: "put m = Some b" and c: "put_many put ms = Some c"
    and bs: "bs = b @ c"
    by (auto split: option.splits)
  from Cons.IH [OF c] show ?case
    by (simp add: bs put_get [OF b, of "c @ rest"])
qed

text \<open>No two streams of messages share their bytes: the encoding is prefix-free.\<close>

lemma put_prefix_free:
  assumes "put m = Some bs" and "put n = Some cs" and "bs @ u = cs @ v"
  shows "m = n \<and> u = v"
  using put_get [OF assms(1), of u EOF] put_get [OF assms(2), of v EOF] assms(3) by simp

lemma stream_inj:
  "put_many put ms = Some bs \<Longrightarrow> put_many put ns = Some bs \<Longrightarrow> ms = ns"
proof (induction ms arbitrary: ns bs)
  case Nil
  then show ?case
    by (cases ns) (auto split: option.splits dest: put_not_Nil)
next
  case (Cons m ms)
  from Cons.prems(1) obtain b c where b: "put m = Some b" and c: "put_many put ms = Some c"
    and bs: "bs = b @ c"
    by (auto split: option.splits)
  with Cons.prems(2) put_not_Nil [OF b] obtain n ns' where ns: "ns = n # ns'"
    by (cases ns) auto
  with Cons.prems(2) obtain b' c' where b': "put n = Some b'" and c': "put_many put ns' = Some c'"
    and bs': "bs = b' @ c'"
    by (auto split: option.splits)
  from put_prefix_free [OF b b', of c c'] bs bs' have "m = n" and "c = c'" by simp_all
  with Cons.IH [OF c] c' ns show ?case by simp
qed

end

interpretation frames: framing frame_bytes read_frame
proof unfold_locales
  show "read_frame \<lparr>rd_data = bs @ rest, rd_end = e\<rparr> = (Inr m, \<lparr>rd_data = rest, rd_end = e\<rparr>)"
    if "frame_bytes m = Some bs" for m bs rest e
    using that by (rule read_frame_frame_bytes)
  show "bs \<noteq> []" if "frame_bytes m = Some bs" for m bs
    using that by (auto simp: frame_bytes_def put_uint16_def split: if_splits)
qed

section \<open>Properties\<close>

text \<open>Consecutive writes to one connection, stopping at the first error.\<close>

fun write_frames :: "'w writer \<Rightarrow> 'w \<Rightarrow> bytes list \<Rightarrow> frame_err option \<times> 'w" where
  "write_frames wr w [] = (None, w)"
| "write_frames wr w (p # ps) =
     (case write_frame wr w p of
        (Some e, w1) \<Rightarrow> (Some e, w1)
      | (None, w1) \<Rightarrow> write_frames wr w1 ps)"

lemma write_frames_buffer:
  "list_all (\<lambda>p. length p \<le> max_frame_size) ps \<Longrightarrow>
   \<exists>bs. put_many frame_bytes ps = Some bs \<and> write_frames buffer_write b ps = (None, b @ bs)"
proof (induction ps arbitrary: b)
  case Nil
  then show ?case by simp
next
  case (Cons p ps)
  then obtain c where c: "frame_bytes p = Some c"
    by (auto simp: frame_bytes_def)
  from Cons.prems have "list_all (\<lambda>p. length p \<le> max_frame_size) ps" by simp
  from Cons.IH [OF this, of "b @ c"] c show ?case
    by (auto simp: write_frame_buffer)
qed

lemma read_full_short:
  "length (rd_data r) < n \<Longrightarrow>
   read_full n r = (Inl (if rd_data r \<noteq> [] \<and> rd_end r = EOF then ErrUnexpectedEOF else rd_end r),
                    r\<lparr>rd_data := []\<rparr>)"
  by (simp add: read_full_def)

lemma read_frame_truncated_error:
  assumes "frame_bytes p = Some bs" and "k < length bs"
  shows "fst (read_frame \<lparr>rd_data = take k bs, rd_end = EOF\<rparr>) =
    Inl (if k = 0 then ReadHeader EOF
         else if k = 1 then ReadHeader ErrUnexpectedEOF
         else if k = 2 then ReadPayload (word_of_nat (length p)) EOF
         else ReadPayload (word_of_nat (length p)) ErrUnexpectedEOF)"
proof -
  from assms(1) have len: "length p \<le> max_frame_size"
    and bs: "bs = put_uint16 (word_of_nat (length p)) @ p"
    by (auto simp: frame_bytes_def split: if_splits)
  let ?n = "word_of_nat (length p) :: 16 word"
  have un: "unat ?n = length p" using len by (rule unat_length_frame)
  show ?thesis
  proof (cases "k < 2")
    case True
    have "length (take k bs) = k" using assms(2) by simp
    moreover have "take k bs = [] \<longleftrightarrow> k = 0" using assms(2) by auto
    moreover have "k = 0 \<or> k = 1" using True by auto
    ultimately show ?thesis by (auto simp: read_frame_def read_full_short)
  next
    case False
    then have tk: "take k bs = put_uint16 ?n @ take (k - 2) p" by (simp add: bs)
    have hdr: "read_full 2 \<lparr>rd_data = take k bs, rd_end = EOF\<rparr>
        = (Inr (put_uint16 ?n), \<lparr>rd_data = take (k - 2) p, rd_end = EOF\<rparr>)"
      unfolding tk by (rule read_full_exact) simp
    from assms(2) False have "k - 2 < length p" by (simp add: bs)
    then have "?n \<noteq> 0" and "length (take (k - 2) p) < unat ?n" and "take (k - 2) p = [] \<longleftrightarrow> k = 2"
      using un False by auto
    with hdr False show ?thesis by (auto simp: read_frame_def read_full_short)
  qed
qed

text \<open>
  Frames keep their boundaries: payloads of at most \<open>MaxFrameSize\<close> bytes written one after
  another are read back one by one, unchanged, and a peer that closes after the last one is seen
  as a clean \<open>io.EOF\<close>.
\<close>

theorem frames_roundtrip:
  assumes "list_all (\<lambda>p. length p \<le> max_frame_size) ps"
  shows "\<exists>bs. write_frames buffer_write [] ps = (None, bs)
    \<and> get_many read_frame (length ps) \<lparr>rd_data = bs, rd_end = EOF\<rparr>
        = (Inr ps, \<lparr>rd_data = [], rd_end = EOF\<rparr>)
    \<and> fst (read_frame \<lparr>rd_data = [], rd_end = EOF\<rparr>) = Inl (ReadHeader EOF)"
proof -
  from write_frames_buffer [OF assms, of "[]"] obtain bs where
    bs: "put_many frame_bytes ps = Some bs" and "write_frames buffer_write [] ps = (None, bs)"
    by auto
  with frames.stream_get [OF bs, of "[]" EOF] show ?thesis
    by (auto simp: read_frame_def read_full_def)
qed

lemma frames_roundtrip_witness:
  "\<exists>bs. write_frames buffer_write [] [[1, 2], [], [3]] = (None, bs)
    \<and> get_many read_frame 3 \<lparr>rd_data = bs, rd_end = EOF\<rparr>
        = (Inr [[1, 2], [], [3]], \<lparr>rd_data = [], rd_end = EOF\<rparr>)
    \<and> fst (read_frame \<lparr>rd_data = [], rd_end = EOF\<rparr>) = Inl (ReadHeader EOF)"
  using frames_roundtrip [of "[[1, 2], [], [3]]"]
  by (simp add: max_frame_size_def numeral_3_eq_3)

text \<open>
  What a reader sees when the peer dies \<open>k\<close> bytes into a frame: a clean end before the
  first byte, \<open>ErrUnexpectedEOF\<close> inside the header and inside the payload, but a plain
  \<open>io.EOF\<close> again exactly between header and payload, although the documentation promises
  \<open>ErrUnexpectedEOF\<close> for every end of file within a frame.
\<close>

theorem read_frame_truncated:
  assumes "frame_bytes p = Some bs" and "k < length bs"
  shows "\<exists>err. fst (read_frame \<lparr>rd_data = take k bs, rd_end = EOF\<rparr>) = Inl err
    \<and> (frame_err_is err EOF \<longleftrightarrow> k = 0 \<or> k = 2)
    \<and> (frame_err_is err ErrUnexpectedEOF \<longleftrightarrow> k = 1 \<or> k > 2)"
  using read_frame_truncated_error [OF assms] by auto

lemma read_frame_truncated_witness:
  "\<exists>err. fst (read_frame \<lparr>rd_data = [0, 3], rd_end = EOF\<rparr>) = Inl err \<and> frame_err_is err EOF"
proof -
  have fb: "frame_bytes [9, 9, 9] = Some [0, 3, 9, 9, 9]"
    by (simp add: frame_bytes_def max_frame_size_def put_uint16_def)
  show ?thesis using read_frame_truncated [OF fb, of 2] by auto
qed

end
