(* ===== verification/Json.thy ===== *)
theory Json
  imports Prelude
begin

text \<open>
  What the sources use of Go's \<open>encoding/json\<close>: JSON values (a number keeps its literal, as
  the decoder does), the text \<open>json.Marshal\<close> and \<open>json.MarshalIndent\<close> produce, and the
  parser behind \<open>json.Unmarshal\<close>, with the proof that a produced text parses back to its
  value. Strings are byte strings; a literal that is not valid UTF-8 (which Go repairs) is
  outside the model.
\<close>

datatype json =
    JNull
  | JBool bool
  | JNum string
  | JStr string
  | JArr "json list"
  | JObj "(string \<times> json) list"

section \<open>Printing\<close>

abbreviation quote_char :: char where "quote_char \<equiv> CHR 0x22"
abbreviation backslash :: char where "backslash \<equiv> CHR 0x5C"

definition hex_char :: "nat \<Rightarrow> char" where
  "hex_char d = (if d < 10 then char_of (48 + d) else char_of (87 + d))"

definition esc_u :: "nat \<Rightarrow> string" where
  "esc_u n = [backslash, CHR ''u'', CHR ''0'', CHR ''0'', hex_char (n div 16), hex_char (n mod 16)]"

text \<open>\<open>json.Marshal\<close> also escapes the three HTML characters.\<close>

definition esc_char :: "char \<Rightarrow> string" where
  "esc_char c =
     (if c = quote_char then [backslash, quote_char]
      else if c = backslash then [backslash, backslash]
      else if c = CHR 0x08 then [backslash, CHR ''b'']
      else if c = CHR 0x0C then [backslash, CHR ''f'']
      else if c = CHR 0x0A then [backslash, CHR ''n'']
      else if c = CHR 0x0D then [backslash, CHR ''r'']
      else if c = CHR 0x09 then [backslash, CHR ''t'']
      else if (of_char c :: nat) < 32 \<or> c = CHR ''<'' \<or> c = CHR ''>'' \<or> c = CHR ''&''
      then esc_u (of_char c)
      else [c])"

definition json_string :: "string \<Rightarrow> string" where
  "json_string s = [quote_char] @ concat (map esc_char s) @ [quote_char]"

text \<open>
  One printer for both forms: \<open>nl d\<close> is what goes before an element at depth \<open>d\<close> (nothing, or a
  line break and the indentation), \<open>col\<close> what separates a key from its value.
\<close>

fun json_text :: "(nat \<Rightarrow> string) \<Rightarrow> string \<Rightarrow> nat \<Rightarrow> json \<Rightarrow> string" where
  "json_text nl col d JNull = ''null''"
| "json_text nl col d (JBool b) = (if b then ''true'' else ''false'')"
| "json_text nl col d (JNum s) = s"
| "json_text nl col d (JStr s) = json_string s"
| "json_text nl col d (JArr []) = ''[]''"
| "json_text nl col d (JArr (v # vs)) =
     ''['' @ nl (Suc d) @ json_text nl col (Suc d) v
       @ concat (map (\<lambda>w. '','' @ nl (Suc d) @ json_text nl col (Suc d) w) vs) @ nl d @ '']''"
| "json_text nl col d (JObj []) = ''{}''"
| "json_text nl col d (JObj ((k, v) # ms)) =
     ''{'' @ nl (Suc d) @ json_string k @ col @ json_text nl col (Suc d) v
       @ concat (map (\<lambda>(k', w). '','' @ nl (Suc d) @ json_string k' @ col
            @ json_text nl col (Suc d) w) ms) @ nl d @ ''}''"

definition json_marshal :: "json \<Rightarrow> string" where
  "json_marshal j = json_text (\<lambda>_. []) '':'' 0 j"

definition json_indent :: "nat \<Rightarrow> string" where
  "json_indent d = CHR 0x0A # replicate (2 * d) (CHR '' '')"

definition json_marshal_indent :: "json \<Rightarrow> string" where
  "json_marshal_indent j = json_text json_indent '': '' 0 j"

section \<open>Parsing\<close>

definition json_ws :: "char \<Rightarrow> bool" where
  "json_ws c \<longleftrightarrow> c = CHR 0x20 \<or> c = CHR 0x09 \<or> c = CHR 0x0A \<or> c = CHR 0x0D"

definition skip_ws :: "string \<Rightarrow> string" where
  "skip_ws s = dropWhile json_ws s"

definition hex_val :: "char \<Rightarrow> nat option" where
  "hex_val c =
     (let n = of_char c :: nat
      in if 48 \<le> n \<and> n \<le> 57 then Some (n - 48)
         else if 97 \<le> n \<and> n \<le> 102 then Some (n - 87)
         else if 65 \<le> n \<and> n \<le> 70 then Some (n - 55) else None)"

definition hex4 :: "char \<Rightarrow> char \<Rightarrow> char \<Rightarrow> char \<Rightarrow> nat option" where
  "hex4 a b c d =
     (case (hex_val a, hex_val b, hex_val c, hex_val d) of
        (Some w, Some x, Some y, Some z) \<Rightarrow> Some (((w * 16 + x) * 16 + y) * 16 + z)
      | _ \<Rightarrow> None)"

text \<open>The UTF-8 bytes of a code point.\<close>

definition utf8 :: "nat \<Rightarrow> string" where
  "utf8 n =
     (if n < 128 then [char_of n]
      else if n < 2048 then [char_of (192 + n div 64), char_of (128 + n mod 64)]
      else if n < 65536
      then [char_of (224 + n div 4096), char_of (128 + n div 64 mod 64), char_of (128 + n mod 64)]
      else [char_of (240 + n div 262144), char_of (128 + n div 4096 mod 64),
            char_of (128 + n div 64 mod 64), char_of (128 + n mod 64)])"

definition surrogate :: "nat \<Rightarrow> bool" where
  "surrogate n \<longleftrightarrow> 55296 \<le> n \<and> n < 57344"

text \<open>\<open>utf16.DecodeRune\<close>: a high surrogate followed by a low one.\<close>

definition decode_pair :: "nat \<Rightarrow> nat \<Rightarrow> nat option" where
  "decode_pair a b =
     (if 55296 \<le> a \<and> a < 56320 \<and> 56320 \<le> b \<and> b < 57344
      then Some ((a - 55296) * 1024 + (b - 56320) + 65536) else None)"

definition next_u :: "string \<Rightarrow> (nat \<times> string) option" where
  "next_u s =
     (case s of
        x # y # a # b # c # d # r \<Rightarrow>
          (if x = backslash \<and> y = CHR ''u'' then map_option (\<lambda>n. (n, r)) (hex4 a b c d) else None)
      | _ \<Rightarrow> None)"

definition simple_esc :: "char \<Rightarrow> char option" where
  "simple_esc e =
     (if e = quote_char then Some quote_char
      else if e = backslash then Some backslash
      else if e = CHR ''/'' then Some (CHR ''/'')
      else if e = CHR ''b'' then Some (CHR 0x08)
      else if e = CHR ''f'' then Some (CHR 0x0C)
      else if e = CHR ''n'' then Some (CHR 0x0A)
      else if e = CHR ''r'' then Some (CHR 0x0D)
      else if e = CHR ''t'' then Some (CHR 0x09)
      else None)"

text \<open>One escape sequence, after its backslash: the bytes it stands for and the rest.\<close>

definition parse_esc :: "string \<Rightarrow> (string \<times> string) option" where
  "parse_esc s =
     (case s of
        [] \<Rightarrow> None
      | e # r \<Rightarrow>
          (if e = CHR ''u'' then
             (case next_u (backslash # s) of
                None \<Rightarrow> None
              | Some (n, r1) \<Rightarrow>
                  (if surrogate n then
                     (case next_u r1 of
                        None \<Rightarrow> Some (utf8 65533, r1)
                      | Some (m, r2) \<Rightarrow>
                          (case decode_pair n m of
                             None \<Rightarrow> Some (utf8 65533, r1)
                           | Some cp \<Rightarrow> Some (utf8 cp, r2)))
                   else Some (utf8 n, r1)))
           else map_option (\<lambda>c. ([c], r)) (simple_esc e)))"

lemma next_u_length: "next_u s = Some (n, r) \<Longrightarrow> length r < length s"
  by (auto simp: next_u_def split: list.splits if_splits)

lemma parse_esc_length: "parse_esc s = Some (t, r) \<Longrightarrow> length r < length s"
proof -
  assume h: "parse_esc s = Some (t, r)"
  then obtain e s' where s: "s = e # s'" by (cases s) (auto simp: parse_esc_def)
  show ?thesis
  proof (cases "e = CHR ''u''")
    case True
    have n5: "next_u (backslash # s) = Some (n, r1) \<Longrightarrow> length r1 < length s" for n r1
      by (auto simp: next_u_def s split: list.splits if_splits)
    with h True show ?thesis
      by (auto simp: parse_esc_def s split: option.splits if_splits prod.splits
          dest!: next_u_length n5 [unfolded s])
  next
    case False
    with h show ?thesis by (auto simp: parse_esc_def s)
  qed
qed

text \<open>The rest of a string literal, after its opening quote.\<close>

function parse_str :: "string \<Rightarrow> (string \<times> string) option" where
  "parse_str [] = None"
| "parse_str (c # r) =
     (if c = quote_char then Some ([], r)
      else if c = backslash then
        (case parse_esc r of
           None \<Rightarrow> None
         | Some (t, r1) \<Rightarrow> map_option (\<lambda>(u, q). (t @ u, q)) (parse_str r1))
      else if (of_char c :: nat) < 32 then None
      else map_option (\<lambda>(u, q). (c # u, q)) (parse_str r))"
  by pat_completeness auto
termination
  by (relation "measure length") (auto dest!: parse_esc_length)

lemma parse_str_length: "parse_str s = Some (t, r) \<Longrightarrow> length r < length s"
proof (induction s arbitrary: t r rule: parse_str.induct)
  case 1
  then show ?case by simp
next
  case (2 c s)
  then show ?case
    by (fastforce split: if_splits option.splits prod.splits dest: parse_esc_length)
qed

text \<open>A number literal of the JSON grammar: its text and the rest.\<close>

definition span_digits :: "string \<Rightarrow> string \<times> string" where
  "span_digits s = (takeWhile is_digit s, dropWhile is_digit s)"

definition parse_frac :: "string \<Rightarrow> (string \<times> string) option" where
  "parse_frac s =
     (if s \<noteq> [] \<and> hd s = CHR ''.'' then
        (let (ds, r) = span_digits (tl s) in if ds = [] then None else Some (CHR ''.'' # ds, r))
      else Some ([], s))"

definition parse_expo :: "string \<Rightarrow> (string \<times> string) option" where
  "parse_expo s =
     (if s \<noteq> [] \<and> (hd s = CHR ''e'' \<or> hd s = CHR ''E'') then
        (let r = tl s;
             sg = (if r \<noteq> [] \<and> (hd r = CHR ''+'' \<or> hd r = CHR ''-'') then [hd r] else []);
             (ds, r') = span_digits (drop (length sg) r)
         in if ds = [] then None else Some (hd s # sg @ ds, r'))
      else Some ([], s))"

definition parse_intpart :: "string \<Rightarrow> (string \<times> string) option" where
  "parse_intpart s =
     (if s = [] \<or> \<not> is_digit (hd s) then None
      else if hd s = CHR ''0'' then Some (''0'', tl s)
      else Some (span_digits s))"

definition parse_num :: "string \<Rightarrow> (string \<times> string) option" where
  "parse_num s =
     (let sg = (if s \<noteq> [] \<and> hd s = CHR ''-'' then ''-'' else [])
      in case parse_intpart (drop (length sg) s) of
           None \<Rightarrow> None
         | Some (ip, r1) \<Rightarrow>
             (case parse_frac r1 of
                None \<Rightarrow> None
              | Some (fp, r2) \<Rightarrow>
                  (case parse_expo r2 of
                     None \<Rightarrow> None
                   | Some (ep, r3) \<Rightarrow> Some (sg @ ip @ fp @ ep, r3))))"

definition strip_word :: "string \<Rightarrow> string \<Rightarrow> string option" where
  "strip_word w s = (if take (length w) s = w then Some (drop (length w) s) else None)"

text \<open>A scalar that is not a string.\<close>

definition parse_atom :: "string \<Rightarrow> (json \<times> string) option" where
  "parse_atom s =
     (case strip_word ''null'' s of
        Some r \<Rightarrow> Some (JNull, r)
      | None \<Rightarrow>
     (case strip_word ''true'' s of
        Some r \<Rightarrow> Some (JBool True, r)
      | None \<Rightarrow>
     (case strip_word ''false'' s of
        Some r \<Rightarrow> Some (JBool False, r)
      | None \<Rightarrow> map_option (\<lambda>(t, r). (JNum t, r)) (parse_num s))))"

text \<open>
  A key with its colon: the key and the text of the value.
\<close>

definition parse_key :: "string \<Rightarrow> (string \<times> string) option" where
  "parse_key s =
     (case skip_ws s of
        [] \<Rightarrow> None
      | c # r \<Rightarrow>
          (if c \<noteq> quote_char then None
           else (case parse_str r of
               None \<Rightarrow> None
             | Some (k, r1) \<Rightarrow>
                 (case skip_ws r1 of
                    [] \<Rightarrow> None
                  | d # r2 \<Rightarrow> (if d = CHR '':'' then Some (k, r2) else None)))))"

text \<open>
  The parser proper. The first argument is fuel; \<open>parse_value_fuel\<close> below shows that one more
  than the length of the text is always enough.
\<close>

fun parse_value :: "nat \<Rightarrow> string \<Rightarrow> (json \<times> string) option"
  and parse_elems :: "nat \<Rightarrow> string \<Rightarrow> (json list \<times> string) option"
  and parse_members :: "nat \<Rightarrow> string \<Rightarrow> ((string \<times> json) list \<times> string) option"
where
  "parse_value 0 s = None"
| "parse_value (Suc n) s =
     (case skip_ws s of
        [] \<Rightarrow> None
      | c # r \<Rightarrow>
          (if c = CHR ''['' then
             (case skip_ws r of
                [] \<Rightarrow> None
              | d # r1 \<Rightarrow>
                  (if d = CHR '']'' then Some (JArr [], r1)
                   else map_option (\<lambda>(vs, q). (JArr vs, q)) (parse_elems n r)))
           else if c = CHR ''{'' then
             (case skip_ws r of
                [] \<Rightarrow> None
              | d # r1 \<Rightarrow>
                  (if d = CHR ''}'' then Some (JObj [], r1)
                   else map_option (\<lambda>(ms, q). (JObj ms, q)) (parse_members n r)))
           else if c = quote_char then map_option (\<lambda>(t, q). (JStr t, q)) (parse_str r)
           else parse_atom (c # r)))"
| "parse_elems 0 s = None"
| "parse_elems (Suc n) s =
     (case parse_value n s of
        None \<Rightarrow> None
      | Some (v, r) \<Rightarrow>
          (case skip_ws r of
             [] \<Rightarrow> None
           | d # r1 \<Rightarrow>
               (if d = CHR '']'' then Some ([v], r1)
                else if d = CHR '','' then
                  map_option (\<lambda>(vs, q). (v # vs, q)) (parse_elems n r1)
                else None)))"
| "parse_members 0 s = None"
| "parse_members (Suc n) s =
     (case parse_key s of
        None \<Rightarrow> None
      | Some (k, r0) \<Rightarrow>
          (case parse_value n r0 of
             None \<Rightarrow> None
           | Some (v, r) \<Rightarrow>
               (case skip_ws r of
                  [] \<Rightarrow> None
                | d # r1 \<Rightarrow>
                    (if d = CHR ''}'' then Some ([(k, v)], r1)
                     else if d = CHR '','' then
                       map_option (\<lambda>(ms, q). ((k, v) # ms, q)) (parse_members n r1)
                     else None))))"

definition json_parse :: "string \<Rightarrow> json option" where
  "json_parse s =
     (case parse_value (Suc (length s)) s of
        Some (v, r) \<Rightarrow> (if skip_ws r = [] then Some v else None)
      | None \<Rightarrow> None)"

section \<open>The fuel is enough\<close>

lemma skip_ws_length: "length (skip_ws s) \<le> length s"
  by (simp add: skip_ws_def length_dropWhile_le)

lemma skip_ws_Cons_length: "skip_ws s = c # r \<Longrightarrow> length r < length s"
  using skip_ws_length [of s] by simp

lemma parse_key_length: "parse_key s = Some (k, r) \<Longrightarrow> length r < length s"
  by (auto simp: parse_key_def split: list.splits if_splits option.splits
      dest!: skip_ws_Cons_length parse_str_length)

lemma span_digits_length: "span_digits s = (a, b) \<Longrightarrow> length b \<le> length s"
  by (auto simp: span_digits_def length_dropWhile_le)

lemma parse_intpart_length: "parse_intpart s = Some (a, b) \<Longrightarrow> length b < length s"
proof -
  assume h: "parse_intpart s = Some (a, b)"
  then obtain c t where s: "s = c # t" and c: "is_digit c"
    by (cases s) (auto simp: parse_intpart_def split: if_splits)
  have "length (dropWhile is_digit t) \<le> length t" by (rule length_dropWhile_le)
  with h s c show ?thesis by (auto simp: parse_intpart_def span_digits_def split: if_splits)
qed

lemma parse_frac_length: "parse_frac s = Some (a, b) \<Longrightarrow> length b \<le> length s"
  by (cases s)
    (auto simp: parse_frac_def Let_def split: if_splits prod.splits dest!: span_digits_length)

lemma parse_expo_length: "parse_expo s = Some (a, b) \<Longrightarrow> length b \<le> length s"
  by (cases s)
    (auto simp: parse_expo_def Let_def split: if_splits prod.splits dest!: span_digits_length)

lemma parse_num_length: "parse_num s = Some (t, r) \<Longrightarrow> length r < length s"
  by (fastforce simp: parse_num_def Let_def split: if_splits option.splits prod.splits
      dest!: parse_intpart_length parse_frac_length parse_expo_length)

lemma strip_word_length: "strip_word w s = Some r \<Longrightarrow> w \<noteq> [] \<Longrightarrow> length r < length s"
  by (cases s) (auto simp: strip_word_def split: if_splits)

lemma parse_atom_length: "parse_atom s = Some (v, r) \<Longrightarrow> length r < length s"
  by (auto simp: parse_atom_def split: option.splits dest: strip_word_length parse_num_length)

text \<open>
  Every parser consumes text, and any fuel above the number of characters it consumes gives the
  same result.
\<close>

lemma parse_fuel:
  "(parse_value n s = Some (v, r) \<longrightarrow>
      length r < length s \<and> (\<forall>m. length s < m + length r \<longrightarrow> parse_value m s = Some (v, r)))
   \<and> (parse_elems n s = Some (vs, r) \<longrightarrow>
      length r < length s \<and> (\<forall>m. length s < m + length r \<longrightarrow> parse_elems m s = Some (vs, r)))
   \<and> (parse_members n s = Some (ms, r) \<longrightarrow>
      length r < length s \<and> (\<forall>m. length s < m + length r \<longrightarrow> parse_members m s = Some (ms, r)))"
proof (induction n arbitrary: s v vs ms r)
  case 0
  then show ?case by simp
next
  case (Suc n)
  have V: "parse_value n s = Some (v, r) \<Longrightarrow>
      length r < length s \<and> (\<forall>m. length s < m + length r \<longrightarrow> parse_value m s = Some (v, r))"
    and E: "parse_elems n s = Some (vs, r) \<Longrightarrow>
      length r < length s \<and> (\<forall>m. length s < m + length r \<longrightarrow> parse_elems m s = Some (vs, r))"
    and M: "parse_members n s = Some (ms, r) \<Longrightarrow>
      length r < length s \<and> (\<forall>m. length s < m + length r \<longrightarrow> parse_members m s = Some (ms, r))"
    for s v r vs ms
    using Suc.IH by blast+
  have 1: "length r < length s \<and> (\<forall>m. length s < m + length r \<longrightarrow> parse_value m s = Some (v, r))"
    if h: "parse_value (Suc n) s = Some (v, r)"
  proof -
    from h obtain c t where ct: "skip_ws s = c # t" by (auto split: list.splits)
    note lt = skip_ws_Cons_length [OF ct]
    have key: "length r < length s \<and> (\<forall>m. length s < Suc m + length r \<longrightarrow> parse_value (Suc m) s = Some (v, r))"
    proof (cases "c = CHR ''['' \<or> c = CHR ''{''")
      case True
      from h ct True obtain d t1 where dt: "skip_ws t = d # t1"
        by (auto split: list.splits if_splits)
      note lt1 = skip_ws_Cons_length [OF dt]
      from h ct True dt lt lt1 show ?thesis
        by (auto split: if_splits dest!: E M)
    next
      case False
      with h ct lt show ?thesis
        by (auto split: if_splits dest!: parse_str_length parse_atom_length)
    qed
    show ?thesis
    proof (intro conjI allI impI)
      show "length r < length s" using key by blast
      fix m assume "length s < m + length r"
      moreover from this key obtain m' where "m = Suc m'" by (cases m) auto
      ultimately show "parse_value m s = Some (v, r)" using key by simp
    qed
  qed
  have 2: "length r < length s \<and> (\<forall>m. length s < m + length r \<longrightarrow> parse_elems m s = Some (vs, r))"
    if h: "parse_elems (Suc n) s = Some (vs, r)"
  proof -
    from h obtain v r1 d t where v: "parse_value n s = Some (v, r1)" and d: "skip_ws r1 = d # t"
      by (auto split: option.splits list.splits)
    note lv = V [OF v] and ld = skip_ws_Cons_length [OF d]
    have key: "length r < length s \<and> (\<forall>m. length s < Suc m + length r \<longrightarrow> parse_elems (Suc m) s = Some (vs, r))"
      using h v d lv ld by (auto split: if_splits dest!: E)
    show ?thesis
    proof (intro conjI allI impI)
      show "length r < length s" using key by blast
      fix m assume "length s < m + length r"
      moreover from this key obtain m' where "m = Suc m'" by (cases m) auto
      ultimately show "parse_elems m s = Some (vs, r)" using key by simp
    qed
  qed
  have 3: "length r < length s \<and> (\<forall>m. length s < m + length r \<longrightarrow> parse_members m s = Some (ms, r))"
    if h: "parse_members (Suc n) s = Some (ms, r)"
  proof -
    from h obtain k r0 v r1 d t where k: "parse_key s = Some (k, r0)"
      and v: "parse_value n r0 = Some (v, r1)" and d: "skip_ws r1 = d # t"
      by (auto split: option.splits list.splits)
    note lk = parse_key_length [OF k] and lv = V [OF v] and ld = skip_ws_Cons_length [OF d]
    have key: "length r < length s \<and> (\<forall>m. length s < Suc m + length r \<longrightarrow> parse_members (Suc m) s = Some (ms, r))"
      using h k v d lk lv ld by (auto split: if_splits dest!: M)
    show ?thesis
    proof (intro conjI allI impI)
      show "length r < length s" using key by blast
      fix m assume "length s < m + length r"
      moreover from this key obtain m' where "m = Suc m'" by (cases m) auto
      ultimately show "parse_members m s = Some (ms, r)" using key by simp
    qed
  qed
  from 1 2 3 show ?case by blast
qed

lemma parse_value_fuel:
  assumes "parse_value n s = Some (v, r)" and "length s < m"
  shows "parse_value m s = Some (v, r)"
proof -
  from assms(1) have "\<forall>m. length s < m + length r \<longrightarrow> parse_value m s = Some (v, r)"
    using parse_fuel [of n s v r] by blast
  with assms(2) show ?thesis by (meson trans_less_add1)
qed

lemmas parse_simps = parse_value.simps parse_elems.simps parse_members.simps
declare parse_simps [simp del]

text \<open>So \<open>json_parse\<close> accepts a text exactly when some amount of fuel parses it.\<close>

lemma json_parse_iff:
  "json_parse s = Some v \<longleftrightarrow> (\<exists>n r. parse_value n s = Some (v, r) \<and> skip_ws r = [])"
proof
  assume "json_parse s = Some v"
  then show "\<exists>n r. parse_value n s = Some (v, r) \<and> skip_ws r = []"
    by (auto simp: json_parse_def split: option.splits prod.splits if_splits)
next
  assume "\<exists>n r. parse_value n s = Some (v, r) \<and> skip_ws r = []"
  then obtain n r where "parse_value n s = Some (v, r)" and "skip_ws r = []" by blast
  then show "json_parse s = Some v"
    using parse_value_fuel [of n s v r "Suc (length s)"] by (simp add: json_parse_def)
qed

section \<open>A printed value parses back\<close>

text \<open>The values the encoder produces: every number is a printed integer.\<close>

fun json_wf :: "json \<Rightarrow> bool" where
  "json_wf (JNum s) = (\<exists>i. s = int_str i)"
| "json_wf (JArr vs) = list_all json_wf vs"
| "json_wf (JObj ms) = list_all (\<lambda>(k, v). json_wf v) ms"
| "json_wf _ = True"

lemma hex_val_char [simp]: "d < 16 \<Longrightarrow> hex_val (hex_char d) = Some d"
  by (simp add: hex_val_def hex_char_def)

lemma next_u_esc_u: "n < 128 \<Longrightarrow> next_u (esc_u n @ r) = Some (n, r)"
proof -
  assume "n < 128"
  then have "n div 16 < 16" and "n mod 16 < 16" by auto
  moreover have "hex_val (CHR ''0'') = Some 0" by (simp add: hex_val_def)
  ultimately show ?thesis
    by (simp add: next_u_def esc_u_def hex4_def)
qed

lemma parse_str_esc_u: "n < 128 \<Longrightarrow> parse_str (esc_u n @ r) = map_option (\<lambda>(u, q). (char_of n # u, q)) (parse_str r)"
proof -
  assume n: "n < 128"
  obtain t where t: "esc_u n = backslash # t" and tu: "t = CHR ''u'' # tl t"
    by (simp add: esc_u_def)
  have nx: "next_u (backslash # t @ r) = Some (n, r)"
    using next_u_esc_u [OF n, of r] by (simp add: t)
  have "parse_esc (t @ r) = Some ([char_of n], r)"
    using nx n tu by (cases t) (auto simp: parse_esc_def surrogate_def utf8_def)
  then show ?thesis by (simp add: t)
qed

lemma parse_str_esc_char: "parse_str (esc_char c @ r) = map_option (\<lambda>(u, q). (c # u, q)) (parse_str r)"
proof (cases "(of_char c :: nat) < 32 \<or> c = CHR ''<'' \<or> c = CHR ''>'' \<or> c = CHR ''&''")
  case True
  then have "(of_char c :: nat) < 128" by auto
  from parse_str_esc_u [OF this, of r] True show ?thesis
    by (auto simp: esc_char_def parse_esc_def simple_esc_def)
next
  case False
  then show ?thesis
    by (auto simp: esc_char_def parse_esc_def simple_esc_def)
qed

lemma parse_str_concat_esc: "parse_str (concat (map esc_char s) @ quote_char # r) = Some (s, r)"
  by (induction s) (simp_all add: parse_str_esc_char)

lemma parse_json_string: "\<exists>t. json_string s @ r = quote_char # t \<and> parse_str t = Some (s, r)"
  by (simp add: json_string_def parse_str_concat_esc)

text \<open>A printed number ends where a character that cannot continue it begins.\<close>

definition num_stop :: "string \<Rightarrow> bool" where
  "num_stop r \<longleftrightarrow> r = [] \<or> \<not> (is_digit (hd r) \<or> hd r = CHR ''.'' \<or> hd r = CHR ''e'' \<or> hd r = CHR ''E'')"

lemma takeWhile_digits: "list_all is_digit s \<Longrightarrow> num_stop r \<Longrightarrow> takeWhile is_digit (s @ r) = s"
  and dropWhile_digits: "list_all is_digit s \<Longrightarrow> num_stop r \<Longrightarrow> dropWhile is_digit (s @ r) = r"
  by (induction s) (cases r; simp add: num_stop_def)+

lemma parse_intpart_nat:
  assumes "num_stop r"
  shows "parse_intpart (nat_str n @ r) = Some (nat_str n, r)"
proof (cases "n = 0")
  case True
  then show ?thesis by (simp add: parse_intpart_def is_digit_def)
next
  case False
  then have "hd (nat_str n) \<noteq> CHR ''0''" by (simp add: nat_str_hd_zero)
  with assms show ?thesis
    by (simp add: parse_intpart_def span_digits_def nat_str_hd nat_str_digits
        takeWhile_digits dropWhile_digits)
qed

lemma parse_num_int: "num_stop r \<Longrightarrow> parse_num (int_str i @ r) = Some (int_str i, r)"
proof -
  assume r: "num_stop r"
  have fr: "parse_frac r = Some ([], r)" and ex: "parse_expo r = Some ([], r)"
    using r by (auto simp: parse_frac_def parse_expo_def num_stop_def)
  show ?thesis
  proof (cases "i < 0")
    case True
    with r show ?thesis by (simp add: parse_num_def int_str_def parse_intpart_nat fr ex)
  next
    case False
    have "hd (nat_str (nat i)) \<noteq> CHR ''-''"
      using nat_str_hd [of "nat i"] not_digit_sign by metis
    with False r show ?thesis by (simp add: parse_num_def int_str_def parse_intpart_nat fr ex)
  qed
qed

lemma int_str_hd: "is_digit (hd (int_str i)) \<or> hd (int_str i) = CHR ''-''"
  by (simp add: int_str_def nat_str_hd)

lemma int_str_not_Nil [simp]: "int_str i \<noteq> []"
  by (simp add: int_str_def)

lemma parse_atom_int: "num_stop r \<Longrightarrow> parse_atom (int_str i @ r) = Some (JNum (int_str i), r)"
proof -
  assume r: "num_stop r"
  obtain c t where ct: "int_str i = c # t" by (cases "int_str i") auto
  have "is_digit c \<or> c = CHR ''-''" using int_str_hd [of i] by (simp add: ct)
  then have "c \<noteq> CHR ''n''" "c \<noteq> CHR ''t''" "c \<noteq> CHR ''f''" by (auto simp: is_digit_def)
  then show ?thesis
    using parse_num_int [OF r, of i] by (simp add: parse_atom_def strip_word_def ct)
qed

lemma skip_ws_append: "list_all json_ws w \<Longrightarrow> skip_ws (w @ s) = skip_ws s"
  by (induction w) (simp_all add: skip_ws_def)

lemma num_stop_Cons [simp]: "num_stop (CHR '','' # r)" "num_stop (CHR '']'' # r)" "num_stop (CHR ''}'' # r)"
  by (simp_all add: num_stop_def is_digit_def)

lemma num_stop_ws: "list_all json_ws w \<Longrightarrow> num_stop r \<Longrightarrow> num_stop (w @ r)"
  by (cases w) (auto simp: num_stop_def json_ws_def is_digit_def)

text \<open>The first character of a printed value says what it is.\<close>

lemma json_text_Cons:
  "json_wf j \<Longrightarrow> \<exists>c t. json_text nl col d j = c # t \<and> \<not> json_ws c \<and> c \<noteq> CHR '']'' \<and> c \<noteq> CHR ''}''"
proof (cases j)
  case (JNum s)
  assume "json_wf j"
  with JNum obtain i where i: "s = int_str i" by auto
  obtain c t where ct: "int_str i = c # t" by (cases "int_str i") auto
  have "is_digit c \<or> c = CHR ''-''" using int_str_hd [of i] by (simp add: ct)
  then show ?thesis by (auto simp: JNum i ct json_ws_def is_digit_def)
next
  case (JArr vs)
  then show ?thesis by (cases vs) (auto simp: json_ws_def)
next
  case (JObj ms)
  then show ?thesis by (cases ms) (auto simp: json_ws_def)
qed (auto simp: json_ws_def json_string_def)

lemma skip_ws_json_text:
  "list_all json_ws w \<Longrightarrow> json_wf j \<Longrightarrow> skip_ws (w @ json_text nl col d j @ r) = json_text nl col d j @ r"
  using json_text_Cons [of j nl col d] by (auto simp: skip_ws_append) (auto simp: skip_ws_def)

text \<open>Parsers at any sufficient fuel compose.\<close>

lemma parse_elems_fuel: "parse_elems n s = Some (vs, r) \<Longrightarrow> length s < m \<Longrightarrow> parse_elems m s = Some (vs, r)"
  using parse_fuel [of n s _ r vs] by (meson trans_less_add1)

lemma parse_members_fuel: "parse_members n s = Some (ms, r) \<Longrightarrow> length s < m \<Longrightarrow> parse_members m s = Some (ms, r)"
  using parse_fuel [of n s _ r _ ms] by (meson trans_less_add1)

lemma parse_elems_last:
  assumes "parse_value n s = Some (v, r)" and "skip_ws r = CHR '']'' # q"
  shows "\<exists>n. parse_elems n s = Some ([v], q)"
  using assms by (intro exI [of _ "Suc n"]) (simp add: parse_simps)

lemma parse_elems_more:
  assumes "parse_value n s = Some (v, r)" and "skip_ws r = CHR '','' # q"
    and "parse_elems m q = Some (vs, q')"
  shows "\<exists>n. parse_elems n s = Some (v # vs, q')"
proof -
  let ?k = "Suc (length s + length q)"
  have "parse_value ?k s = Some (v, r)" and "parse_elems ?k q = Some (vs, q')"
    using assms by (auto intro: parse_value_fuel parse_elems_fuel)
  with assms(2) show ?thesis by (intro exI [of _ "Suc ?k"]) (simp add: parse_simps)
qed

lemma parse_members_last:
  assumes "parse_key s = Some (k, s')" and "parse_value n s' = Some (v, r)"
    and "skip_ws r = CHR ''}'' # q"
  shows "\<exists>n. parse_members n s = Some ([(k, v)], q)"
  using assms by (intro exI [of _ "Suc n"]) (simp add: parse_simps)

lemma parse_members_more:
  assumes "parse_key s = Some (k, s')" and "parse_value n s' = Some (v, r)"
    and "skip_ws r = CHR '','' # q" and "parse_members m q = Some (ms, q')"
  shows "\<exists>n. parse_members n s = Some ((k, v) # ms, q')"
proof -
  let ?k = "Suc (length s' + length q)"
  have "parse_value ?k s' = Some (v, r)" and "parse_members ?k q = Some (ms, q')"
    using assms by (auto intro: parse_value_fuel parse_members_fuel)
  with assms(1,3) show ?thesis by (intro exI [of _ "Suc ?k"]) (simp add: parse_simps)
qed

lemma parse_key_text:
  assumes "list_all json_ws w"
  shows "parse_key (w @ json_string k @ CHR '':'' # r) = Some (k, r)"
proof -
  have "skip_ws (w @ json_string k @ CHR '':'' # r) = json_string k @ CHR '':'' # r"
    using assms by (simp add: skip_ws_append json_string_def) (simp add: skip_ws_def json_ws_def)
  moreover obtain t where "json_string k @ CHR '':'' # r = quote_char # t"
    and "parse_str t = Some (k, CHR '':'' # r)"
    using parse_json_string by blast
  moreover have "skip_ws (CHR '':'' # r) = CHR '':'' # r" by (simp add: skip_ws_def json_ws_def)
  ultimately show ?thesis by (simp add: parse_key_def)
qed

text \<open>A layout whose line breaks and separators are white space, as both printed forms have.\<close>

definition ws_layout :: "(nat \<Rightarrow> string) \<Rightarrow> string \<Rightarrow> bool" where
  "ws_layout nl col \<longleftrightarrow>
     (\<forall>d. list_all json_ws (nl d)) \<and> (\<exists>w. col = CHR '':'' # w \<and> list_all json_ws w)"

abbreviation text_parses :: "(nat \<Rightarrow> string) \<Rightarrow> string \<Rightarrow> json \<Rightarrow> bool" where
  "text_parses nl col j \<equiv>
     (\<forall>d w r. list_all json_ws w \<longrightarrow> num_stop r \<longrightarrow>
        (\<exists>n. parse_value n (w @ json_text nl col d j @ r) = Some (j, r)))"

lemma elems_text_parses:
  assumes lay: "ws_layout nl col" and "list_all (text_parses nl col) (v # vs)"
  shows "\<exists>n. parse_elems n (nl d @ json_text nl col d v
      @ concat (map (\<lambda>w. '','' @ nl d @ json_text nl col d w) vs) @ nl e @ CHR '']'' # r)
    = Some (v # vs, r)"
  using assms(2)
proof (induction vs arbitrary: v)
  case Nil
  have ws: "list_all json_ws (nl x)" for x using lay by (simp add: ws_layout_def)
  then have stop: "num_stop (nl e @ CHR '']'' # r)" by (simp add: num_stop_ws)
  with Nil ws obtain n where
    "parse_value n (nl d @ json_text nl col d v @ nl e @ CHR '']'' # r) = Some (v, nl e @ CHR '']'' # r)"
    by fastforce
  moreover have "skip_ws (nl e @ CHR '']'' # r) = CHR '']'' # r"
    using ws by (simp add: skip_ws_append) (simp add: skip_ws_def json_ws_def)
  ultimately show ?case using parse_elems_last by fastforce
next
  case (Cons u us)
  have ws: "list_all json_ws (nl x)" for x using lay by (simp add: ws_layout_def)
  let ?rest = "nl d @ json_text nl col d u
      @ concat (map (\<lambda>w. '','' @ nl d @ json_text nl col d w) us) @ nl e @ CHR '']'' # r"
  from Cons.prems ws obtain n where
    "parse_value n (nl d @ json_text nl col d v @ CHR '','' # ?rest) = Some (v, CHR '','' # ?rest)"
    by fastforce
  moreover have "skip_ws (CHR '','' # ?rest) = CHR '','' # ?rest"
    by (simp add: skip_ws_def json_ws_def)
  moreover from Cons obtain m where "parse_elems m ?rest = Some (u # us, r)" by fastforce
  ultimately show ?case using parse_elems_more by fastforce
qed

lemma members_text_parses:
  assumes lay: "ws_layout nl col" and "list_all (\<lambda>(k, v). text_parses nl col v) ((k, v) # ms)"
  shows "\<exists>n. parse_members n (nl d @ json_string k @ col @ json_text nl col d v
      @ concat (map (\<lambda>(k', w). '','' @ nl d @ json_string k' @ col @ json_text nl col d w) ms)
      @ nl e @ CHR ''}'' # r)
    = Some ((k, v) # ms, r)"
  using assms(2)
proof (induction ms arbitrary: k v)
  case Nil
  have ws: "list_all json_ws (nl x)" for x using lay by (simp add: ws_layout_def)
  from lay obtain w where col: "col = CHR '':'' # w" and w: "list_all json_ws w"
    by (auto simp: ws_layout_def)
  have stop: "num_stop (nl e @ CHR ''}'' # r)" using ws by (simp add: num_stop_ws)
  with Nil w obtain n where
    "parse_value n (w @ json_text nl col d v @ nl e @ CHR ''}'' # r) = Some (v, nl e @ CHR ''}'' # r)"
    by fastforce
  moreover have "skip_ws (nl e @ CHR ''}'' # r) = CHR ''}'' # r"
    using ws by (simp add: skip_ws_append) (simp add: skip_ws_def json_ws_def)
  ultimately show ?case
    using parse_members_last [OF parse_key_text [OF ws]] by (fastforce simp: col)
next
  case (Cons m ms)
  obtain k' u where m: "m = (k', u)" by (cases m)
  have ws: "list_all json_ws (nl x)" for x using lay by (simp add: ws_layout_def)
  from lay obtain w where col: "col = CHR '':'' # w" and w: "list_all json_ws w"
    by (auto simp: ws_layout_def)
  let ?rest = "nl d @ json_string k' @ col @ json_text nl col d u
      @ concat (map (\<lambda>(k', w). '','' @ nl d @ json_string k' @ col @ json_text nl col d w) ms)
      @ nl e @ CHR ''}'' # r"
  from Cons.prems w obtain n where
    1: "parse_value n (w @ json_text nl col d v @ CHR '','' # ?rest) = Some (v, CHR '','' # ?rest)"
    by fastforce
  have 2: "skip_ws (CHR '','' # ?rest) = CHR '','' # ?rest"
    by (simp add: skip_ws_def json_ws_def)
  from Cons m obtain i where 3: "parse_members i ?rest = Some ((k', u) # ms, r)" by fastforce
  from parse_members_more [OF parse_key_text [OF ws] 1 2 3, of d k] m show ?case
    by (simp add: col)
qed

theorem json_text_parses:
  assumes lay: "ws_layout nl col"
  shows "json_wf j \<Longrightarrow> text_parses nl col j"
proof (induction j)
  case (JNum s)
  then obtain i where s: "s = int_str i" by auto
  obtain c t where ct: "int_str i = c # t" by (cases "int_str i") auto
  have "is_digit c \<or> c = CHR ''-''" using int_str_hd [of i] by (simp add: ct)
  then have c: "c \<noteq> CHR ''[''" "c \<noteq> CHR ''{''" "c \<noteq> quote_char"
    by (auto simp: is_digit_def)
  show ?case
  proof (intro allI impI)
    fix d :: nat and w r
    assume w: "list_all json_ws w" and r: "num_stop r"
    have "skip_ws (w @ json_text nl col d (JNum s) @ r) = c # t @ r"
      using skip_ws_json_text [OF w JNum, of nl col d r] by (simp add: s ct)
    then have "parse_value (Suc 0) (w @ json_text nl col d (JNum s) @ r) = Some (JNum s, r)"
      using parse_atom_int [OF r, of i] c by (simp add: parse_simps s ct)
    then show "\<exists>n. parse_value n (w @ json_text nl col d (JNum s) @ r) = Some (JNum s, r)" ..
  qed
next
  case (JArr vs)
  show ?case
  proof (intro allI impI)
    fix d :: nat and w r
    assume w: "list_all json_ws w" and r: "num_stop r"
    note sk = skip_ws_json_text [OF w JArr.prems, of nl col d r]
    show "\<exists>n. parse_value n (w @ json_text nl col d (JArr vs) @ r) = Some (JArr vs, r)"
    proof (cases vs)
      case Nil
      then have "parse_value (Suc 0) (w @ json_text nl col d (JArr vs) @ r) = Some (JArr vs, r)"
        using sk by (simp add: parse_simps) (simp add: skip_ws_def json_ws_def)
      then show ?thesis ..
    next
      case (Cons v us)
      let ?body = "nl (Suc d) @ json_text nl col (Suc d) v
        @ concat (map (\<lambda>w. '','' @ nl (Suc d) @ json_text nl col (Suc d) w) us) @ nl d @ CHR '']'' # r"
      have "list_all (text_parses nl col) (v # us)"
        using JArr unfolding Cons by (auto simp: list_all_iff)
      from elems_text_parses [OF lay this] obtain n where n: "parse_elems n ?body = Some (v # us, r)"
        by blast
      have "list_all json_ws (nl (Suc d))" using lay by (simp add: ws_layout_def)
      moreover have "json_wf v" using JArr.prems Cons by simp
      ultimately obtain c t where "skip_ws ?body = c # t" and "c \<noteq> CHR '']''"
        using json_text_Cons [of v nl col "Suc d"] by (auto simp: skip_ws_json_text)
      with n sk have "parse_value (Suc n) (w @ json_text nl col d (JArr vs) @ r) = Some (JArr vs, r)"
        by (simp add: parse_simps Cons)
      then show ?thesis ..
    qed
  qed
next
  case (JObj ms)
  show ?case
  proof (intro allI impI)
    fix d :: nat and w r
    assume w: "list_all json_ws w" and r: "num_stop r"
    note sk = skip_ws_json_text [OF w JObj.prems, of nl col d r]
    show "\<exists>n. parse_value n (w @ json_text nl col d (JObj ms) @ r) = Some (JObj ms, r)"
    proof (cases ms)
      case Nil
      then have "parse_value (Suc 0) (w @ json_text nl col d (JObj ms) @ r) = Some (JObj ms, r)"
        using sk by (simp add: parse_simps) (simp add: skip_ws_def json_ws_def)
      then show ?thesis ..
    next
      case (Cons m us)
      obtain k v where m: "m = (k, v)" by (cases m)
      let ?body = "nl (Suc d) @ json_string k @ col @ json_text nl col (Suc d) v
        @ concat (map (\<lambda>(k', w). '','' @ nl (Suc d) @ json_string k' @ col @ json_text nl col (Suc d) w) us)
        @ nl d @ CHR ''}'' # r"
      have "list_all (\<lambda>(k, v). text_parses nl col v) ((k, v) # us)"
        using JObj unfolding Cons m by (fastforce simp: list_all_iff)
      from members_text_parses [OF lay this] obtain n
        where n: "parse_members n ?body = Some ((k, v) # us, r)" by blast
      have "list_all json_ws (nl (Suc d))" using lay by (simp add: ws_layout_def)
      then have "skip_ws ?body = skip_ws (json_string k @ col @ json_text nl col (Suc d) v
        @ concat (map (\<lambda>(k', w). '','' @ nl (Suc d) @ json_string k' @ col @ json_text nl col (Suc d) w) us)
        @ nl d @ CHR ''}'' # r)"
        by (rule skip_ws_append)
      then obtain t where "skip_ws ?body = quote_char # t"
        by (simp add: json_string_def) (simp add: skip_ws_def json_ws_def)
      with n sk have "parse_value (Suc n) (w @ json_text nl col d (JObj ms) @ r) = Some (JObj ms, r)"
        by (simp add: parse_simps Cons m)
      then show ?thesis ..
    qed
  qed
next
  case JNull
  show ?case
    by (intro allI impI exI [of _ "Suc 0"])
      (simp add: parse_simps skip_ws_append, simp add: skip_ws_def json_ws_def parse_atom_def strip_word_def)
next
  case (JBool b)
  show ?case
    by (intro allI impI exI [of _ "Suc 0"])
      (simp add: parse_simps skip_ws_append, simp add: skip_ws_def json_ws_def parse_atom_def strip_word_def)
next
  case (JStr s)
  show ?case
  proof (intro allI impI exI [of _ "Suc 0"])
    fix d :: nat and w r
    assume w: "list_all json_ws w"
    obtain t where "json_string s @ r = quote_char # t" and "parse_str t = Some (s, r)"
      using parse_json_string by blast
    then show "parse_value (Suc 0) (w @ json_text nl col d (JStr s) @ r) = Some (JStr s, r)"
      using skip_ws_json_text [OF w, of "JStr s" nl col d r] by (simp add: parse_simps)
  qed
qed

lemma json_parse_text:
  assumes "ws_layout nl col" and "json_wf j"
  shows "json_parse (json_text nl col d j) = Some j"
proof -
  from json_text_parses [OF assms] obtain n where "parse_value n (json_text nl col d j @ []) = Some (j, [])"
    by (metis append_Nil list.pred_inject(1) num_stop_def)
  then have "parse_value n (json_text nl col d j) = Some (j, []) \<and> skip_ws [] = []"
    by (simp add: skip_ws_def)
  then show ?thesis unfolding json_parse_iff by blast
qed

lemma json_parse_marshal [simp]: "json_wf j \<Longrightarrow> json_parse (json_marshal j) = Some j"
  unfolding json_marshal_def by (rule json_parse_text) (auto simp: ws_layout_def)

lemma json_parse_marshal_indent [simp]: "json_wf j \<Longrightarrow> json_parse (json_marshal_indent j) = Some j"
  unfolding json_marshal_indent_def
  by (rule json_parse_text) (auto simp: ws_layout_def json_ws_def json_indent_def list_all_iff)

text \<open>Files that end in a line break.\<close>

lemma json_parse_marshal_indent_line [simp]:
  "json_wf j \<Longrightarrow> json_parse (json_marshal_indent j @ [CHR 0x0A]) = Some j"
proof -
  assume j: "json_wf j"
  have "ws_layout json_indent '': ''"
    by (auto simp: ws_layout_def json_ws_def json_indent_def list_all_iff)
  moreover have "num_stop [CHR 0x0A]" by (simp add: num_stop_def is_digit_def)
  ultimately obtain n where "parse_value n ([] @ json_marshal_indent j @ [CHR 0x0A]) = Some (j, [CHR 0x0A])"
    unfolding json_marshal_indent_def using json_text_parses j list.pred_inject(1) by metis
  moreover have "skip_ws [CHR 0x0A] = []" by (simp add: skip_ws_def json_ws_def)
  ultimately show ?thesis unfolding json_parse_iff by auto
qed

section \<open>Decoding into struct fields\<close>

text \<open>
  \<open>json.Unmarshal\<close> into a struct visits the members in order: each one whose key matches the
  field's name (letter case ignored) is stored, so the last one counts; \<open>null\<close> leaves a string
  or a number as it was; a member of the wrong type makes the whole call fail.
\<close>

type_synonym members = "(string \<times> json) list"

fun fold_field :: "(json \<Rightarrow> 'a \<Rightarrow> 'a option) \<Rightarrow> string \<Rightarrow> members \<Rightarrow> 'a \<Rightarrow> 'a option" where
  "fold_field f nm [] a = Some a"
| "fold_field f nm ((k, v) # ms) a =
     (if equal_fold k nm
      then (case f v a of None \<Rightarrow> None | Some b \<Rightarrow> fold_field f nm ms b)
      else fold_field f nm ms a)"

fun set_string :: "json \<Rightarrow> string \<Rightarrow> string option" where
  "set_string (JStr s) a = Some s"
| "set_string JNull a = Some a"
| "set_string _ a = None"

fun set_int :: "json \<Rightarrow> int \<Rightarrow> int option" where
  "set_int (JNum s) a = parse_int64 s"
| "set_int JNull a = Some a"
| "set_int _ a = None"

fun set_bool :: "json \<Rightarrow> bool \<Rightarrow> bool option" where
  "set_bool (JBool b) a = Some b"
| "set_bool JNull a = Some a"
| "set_bool _ a = None"

fun opt_all :: "'a option list \<Rightarrow> 'a list option" where
  "opt_all [] = Some []"
| "opt_all (x # xs) =
     (case x of None \<Rightarrow> None
      | Some a \<Rightarrow> (case opt_all xs of None \<Rightarrow> None | Some as \<Rightarrow> Some (a # as)))"

fun set_strings :: "json \<Rightarrow> string list \<Rightarrow> string list option" where
  "set_strings (JArr vs) a = opt_all (map (\<lambda>v. set_string v []) vs)"
| "set_strings JNull a = Some []"
| "set_strings _ a = None"

text \<open>A list of structs: \<open>null\<close> is the empty one.\<close>

fun set_list :: "(json \<Rightarrow> 'a option) \<Rightarrow> json \<Rightarrow> 'a list \<Rightarrow> 'a list option" where
  "set_list dec (JArr vs) a = opt_all (map dec vs)"
| "set_list dec JNull a = Some []"
| "set_list dec _ a = None"

lemma opt_all_Some: "(\<And>x. x \<in> set xs \<Longrightarrow> f x = Some (g x)) \<Longrightarrow> opt_all (map f xs) = Some (map g xs)"
  by (induction xs) auto

text \<open>A \<open>json.RawMessage\<close> keeps whatever value stands there.\<close>

definition set_raw :: "json \<Rightarrow> json option \<Rightarrow> json option option" where
  "set_raw v a = Some (Some v)"

text \<open>A member written only when its value is not empty (\<open>omitempty\<close>).\<close>

definition opt_member :: "bool \<Rightarrow> string \<Rightarrow> json \<Rightarrow> members" where
  "opt_member b k v = (if b then [(k, v)] else [])"

definition jint :: "int \<Rightarrow> json" where
  "jint i = JNum (int_str i)"

definition jstrs :: "string list \<Rightarrow> json" where
  "jstrs ss = JArr (map JStr ss)"

lemma set_int_jint [simp]: "int64_range i \<Longrightarrow> set_int (jint i) a = Some i"
  by (simp add: jint_def)

lemma opt_all_map_Some [simp]: "opt_all (map (\<lambda>x. Some (f x)) xs) = Some (map f xs)"
  by (induction xs) simp_all

lemma set_strings_jstrs [simp]: "set_strings (jstrs ss) a = Some ss"
  by (simp add: jstrs_def comp_def)

lemma json_wf_jint [simp]: "json_wf (jint i)"
  by (auto simp: jint_def)

lemma json_wf_jstrs [simp]: "json_wf (jstrs ss)"
  by (simp add: jstrs_def list_all_iff)

lemma fold_field_append:
  "fold_field f nm (ms @ ns) a = (case fold_field f nm ms a of None \<Rightarrow> None | Some b \<Rightarrow> fold_field f nm ns b)"
  by (induction f nm ms a rule: fold_field.induct) (auto split: option.splits)

lemma fold_field_opt_member:
  "fold_field f nm (opt_member b k v) a =
     (if b \<and> equal_fold k nm then f v a else Some a)"
  by (simp add: opt_member_def split: option.splits)

lemmas field_simps_json = fold_field_append fold_field_opt_member
lemmas fold_eval = equal_fold_def to_lower_def lower_char_def

end
