(* ===== verification/Protocol.thy ===== *)
theory Protocol
  imports Framing Json
begin

text \<open>
  The tunnel's wire protocol (\<open>src/internal/tunnel/protocol.go\<close>): a frame whose first byte is
  a type tag, followed by a JSON control message or by a raw IP packet. Control messages are
  printed and parsed at the level of bytes, with the model of \<open>encoding/json\<close> of the theory
  Json; integers are Go's 64-bit \<open>int\<close>.
\<close>

section \<open>Frame types and versions\<close>

definition frame_control :: byte where "frame_control = 0x01"
definition frame_data :: byte where "frame_data = 0x02"

datatype frame_type = FrameControl | FrameData

fun frame_tag :: "frame_type \<Rightarrow> byte" where
  "frame_tag FrameControl = frame_control"
| "frame_tag FrameData = frame_data"

definition protocol_version :: int where "protocol_version = 1"
definition min_peer_version :: int where "min_peer_version = 1"

definition peer_compatible :: "int \<Rightarrow> bool" where
  "peer_compatible v \<longleftrightarrow> v = 0 \<or> v \<ge> min_peer_version"

section \<open>Control messages\<close>

definition ctrl_assign_ip :: string where "ctrl_assign_ip = ''assign_ip''"
definition ctrl_keepalive :: string where "ctrl_keepalive = ''keepalive''"
definition ctrl_error :: string where "ctrl_error = ''error''"
definition ctrl_hello :: string where "ctrl_hello = ''hello''"

text \<open>The payload is kept as the JSON value it holds (\<open>json.RawMessage\<close>), \<open>None\<close> when absent.\<close>

record control_message =
  cm_type :: string
  cm_payload :: "json option"

record assign_ip =
  ai_ip :: string
  ai_gateway :: string
  ai_netmask :: string
  ai_mtu :: int
  ai_routes :: "string list"
  ai_dns :: "string list"
  ai_proto :: int
  ai_keepalive_secs :: int

record error_msg =
  em_code :: string
  em_message :: string

record hello =
  he_version :: int

definition zero_control :: control_message where
  "zero_control = \<lparr>cm_type = [], cm_payload = None\<rparr>"

definition zero_assign_ip :: assign_ip where
  "zero_assign_ip = \<lparr>ai_ip = [], ai_gateway = [], ai_netmask = [], ai_mtu = 0, ai_routes = [],
     ai_dns = [], ai_proto = 0, ai_keepalive_secs = 0\<rparr>"

datatype proto_err =
    FrameErr frame_err
  | ErrEmptyFrame
  | ErrUnknownFrameType byte
  | UnmarshalControl
  | WrongType string string
  | UnmarshalPayload

section \<open>Encoding the structs\<close>

definition control_json :: "control_message \<Rightarrow> json" where
  "control_json m =
     JObj ([(''type'', JStr (cm_type m))]
       @ (case cm_payload m of None \<Rightarrow> [] | Some p \<Rightarrow> [(''payload'', p)]))"

definition assign_ip_json :: "assign_ip \<Rightarrow> json" where
  "assign_ip_json a =
     JObj ([(''ip'', JStr (ai_ip a)), (''gateway'', JStr (ai_gateway a)),
            (''netmask'', JStr (ai_netmask a)), (''mtu'', jint (ai_mtu a))]
       @ opt_member (ai_routes a \<noteq> []) ''routes'' (jstrs (ai_routes a))
       @ opt_member (ai_dns a \<noteq> []) ''dns'' (jstrs (ai_dns a))
       @ opt_member (ai_proto a \<noteq> 0) ''proto'' (jint (ai_proto a))
       @ opt_member (ai_keepalive_secs a \<noteq> 0) ''keepalive_secs'' (jint (ai_keepalive_secs a)))"

definition error_msg_json :: "error_msg \<Rightarrow> json" where
  "error_msg_json e = JObj [(''code'', JStr (em_code e)), (''message'', JStr (em_message e))]"

definition hello_json :: "hello \<Rightarrow> json" where
  "hello_json h = JObj [(''version'', jint (he_version h))]"

section \<open>Decoding the structs\<close>

fun control_of_json :: "json \<Rightarrow> control_message option" where
  "control_of_json (JObj ms) =
     (case (fold_field set_string ''type'' ms [], fold_field set_raw ''payload'' ms None) of
        (Some t, Some p) \<Rightarrow> Some \<lparr>cm_type = t, cm_payload = p\<rparr>
      | _ \<Rightarrow> None)"
| "control_of_json JNull = Some zero_control"
| "control_of_json _ = None"

fun assign_ip_of_json :: "json \<Rightarrow> assign_ip option" where
  "assign_ip_of_json (JObj ms) =
     (case (fold_field set_string ''ip'' ms [], fold_field set_string ''gateway'' ms [],
            fold_field set_string ''netmask'' ms [], fold_field set_int ''mtu'' ms 0,
            fold_field set_strings ''routes'' ms [], fold_field set_strings ''dns'' ms [],
            fold_field set_int ''proto'' ms 0, fold_field set_int ''keepalive_secs'' ms 0) of
        (Some i, Some g, Some n, Some m, Some r, Some d, Some p, Some k) \<Rightarrow>
          Some \<lparr>ai_ip = i, ai_gateway = g, ai_netmask = n, ai_mtu = m, ai_routes = r, ai_dns = d,
                ai_proto = p, ai_keepalive_secs = k\<rparr>
      | _ \<Rightarrow> None)"
| "assign_ip_of_json JNull = Some zero_assign_ip"
| "assign_ip_of_json _ = None"

fun error_msg_of_json :: "json \<Rightarrow> error_msg option" where
  "error_msg_of_json (JObj ms) =
     (case (fold_field set_string ''code'' ms [], fold_field set_string ''message'' ms []) of
        (Some c, Some m) \<Rightarrow> Some \<lparr>em_code = c, em_message = m\<rparr>
      | _ \<Rightarrow> None)"
| "error_msg_of_json JNull = Some \<lparr>em_code = [], em_message = []\<rparr>"
| "error_msg_of_json _ = None"

fun hello_of_json :: "json \<Rightarrow> hello option" where
  "hello_of_json (JObj ms) =
     (case fold_field set_int ''version'' ms 0 of
        Some v \<Rightarrow> Some \<lparr>he_version = v\<rparr>
      | None \<Rightarrow> None)"
| "hello_of_json JNull = Some \<lparr>he_version = 0\<rparr>"
| "hello_of_json _ = None"

text \<open>An absent payload is no JSON text at all: unmarshalling it is an error.\<close>

definition of_payload :: "(json \<Rightarrow> 'a option) \<Rightarrow> json option \<Rightarrow> proto_err + 'a" where
  "of_payload f p =
     (case p of
        None \<Rightarrow> Inl UnmarshalPayload
      | Some j \<Rightarrow> (case f j of None \<Rightarrow> Inl UnmarshalPayload | Some a \<Rightarrow> Inr a))"

section \<open>The constructors and parsers of the source\<close>

definition new_assign_ip :: "assign_ip \<Rightarrow> control_message" where
  "new_assign_ip a = \<lparr>cm_type = ctrl_assign_ip, cm_payload = Some (assign_ip_json a)\<rparr>"

definition new_keepalive :: control_message where
  "new_keepalive = \<lparr>cm_type = ctrl_keepalive, cm_payload = None\<rparr>"

definition new_hello :: "int \<Rightarrow> control_message" where
  "new_hello v = \<lparr>cm_type = ctrl_hello, cm_payload = Some (hello_json \<lparr>he_version = v\<rparr>)\<rparr>"

definition new_error :: "string \<Rightarrow> string \<Rightarrow> control_message" where
  "new_error c m =
     \<lparr>cm_type = ctrl_error, cm_payload = Some (error_msg_json \<lparr>em_code = c, em_message = m\<rparr>)\<rparr>"

definition parse_hello :: "control_message \<Rightarrow> proto_err + hello" where
  "parse_hello m =
     (if cm_type m \<noteq> ctrl_hello then Inl (WrongType ctrl_hello (cm_type m))
      else of_payload hello_of_json (cm_payload m))"

definition parse_assign_ip :: "control_message \<Rightarrow> proto_err + assign_ip" where
  "parse_assign_ip m =
     (if cm_type m \<noteq> ctrl_assign_ip then Inl (WrongType ctrl_assign_ip (cm_type m))
      else of_payload assign_ip_of_json (cm_payload m))"

definition parse_error :: "control_message \<Rightarrow> proto_err + error_msg" where
  "parse_error m =
     (if cm_type m \<noteq> ctrl_error then Inl (WrongType ctrl_error (cm_type m))
      else of_payload error_msg_of_json (cm_payload m))"

definition marshal_control :: "control_message \<Rightarrow> bytes" where
  "marshal_control m = string_bytes (json_marshal (control_json m))"

definition decode_control :: "bytes \<Rightarrow> proto_err + control_message" where
  "decode_control body =
     (case json_parse (bytes_string body) of
        None \<Rightarrow> Inl UnmarshalControl
      | Some j \<Rightarrow>
          (case control_of_json j of None \<Rightarrow> Inl UnmarshalControl | Some m \<Rightarrow> Inr m))"

definition write_control :: "'w writer \<Rightarrow> 'w \<Rightarrow> control_message \<Rightarrow> frame_err option \<times> 'w" where
  "write_control wr w m = write_frame wr w (frame_control # marshal_control m)"

definition write_data :: "'w writer \<Rightarrow> 'w \<Rightarrow> bytes \<Rightarrow> frame_err option \<times> 'w" where
  "write_data wr w pkt = write_frame wr w (frame_data # pkt)"

definition read_packet :: "reader \<Rightarrow> (proto_err + frame_type \<times> bytes) \<times> reader" where
  "read_packet r =
     (case read_frame r of
        (Inl e, r1) \<Rightarrow> (Inl (FrameErr e), r1)
      | (Inr [], r1) \<Rightarrow> (Inl ErrEmptyFrame, r1)
      | (Inr (t # body), r1) \<Rightarrow>
          (if t = frame_control then (Inr (FrameControl, body), r1)
           else if t = frame_data then (Inr (FrameData, body), r1)
           else (Inl (ErrUnknownFrameType t), r1)))"

section \<open>The packet stream is a framing\<close>

text \<open>The wire form of a typed frame: what \<open>WriteControl\<close> and \<open>WriteData\<close> hand to \<open>WriteFrame\<close>.\<close>

definition packet_bytes :: "frame_type \<times> bytes \<Rightarrow> bytes option" where
  "packet_bytes p = frame_bytes (frame_tag (fst p) # snd p)"

lemma frame_tag_distinct [simp]: "frame_data \<noteq> frame_control" "frame_control \<noteq> frame_data"
  by (simp_all add: frame_data_def frame_control_def)

lemma read_packet_packet_bytes:
  assumes "packet_bytes p = Some bs"
  shows "read_packet \<lparr>rd_data = bs @ rest, rd_end = e\<rparr> = (Inr p, \<lparr>rd_data = rest, rd_end = e\<rparr>)"
proof -
  obtain t body where p: "p = (t, body)" by (cases p)
  from assms have "frame_bytes (frame_tag t # body) = Some bs" by (simp add: packet_bytes_def p)
  note rf = frames.put_get [OF this, of rest e]
  show ?thesis by (cases t) (use rf in \<open>simp_all add: read_packet_def p\<close>)
qed

interpretation packets: framing packet_bytes read_packet
  by unfold_locales
    (auto simp: read_packet_packet_bytes packet_bytes_def dest: frames.put_not_Nil)

lemma write_control_buffer:
  "write_control buffer_write b m =
     (case packet_bytes (FrameControl, marshal_control m) of
        None \<Rightarrow> (Some (FrameTooLarge (Suc (length (marshal_control m)))), b)
      | Some bs \<Rightarrow> (None, b @ bs))"
  by (simp add: write_control_def write_frame_buffer packet_bytes_def split: option.splits)

lemma write_data_buffer:
  "write_data buffer_write b pkt =
     (case packet_bytes (FrameData, pkt) of
        None \<Rightarrow> (Some (FrameTooLarge (Suc (length pkt))), b)
      | Some bs \<Rightarrow> (None, b @ bs))"
  by (simp add: write_data_def write_frame_buffer packet_bytes_def split: option.splits)

section \<open>Structs survive the wire\<close>

definition control_wf :: "control_message \<Rightarrow> bool" where
  "control_wf m \<longleftrightarrow> (case cm_payload m of None \<Rightarrow> True | Some p \<Rightarrow> json_wf p)"

lemma control_of_json_json [simp]: "control_of_json (control_json m) = Some m"
  by (cases m) (simp add: control_json_def set_raw_def fold_eval split: option.splits)

lemma decode_marshal_control: "control_wf m \<Longrightarrow> decode_control (marshal_control m) = Inr m"
proof -
  assume "control_wf m"
  then have "json_wf (control_json m)"
    by (auto simp: control_wf_def control_json_def split: option.splits)
  then show ?thesis by (simp add: decode_control_def marshal_control_def)
qed

definition assign_ip_wf :: "assign_ip \<Rightarrow> bool" where
  "assign_ip_wf a \<longleftrightarrow>
     int64_range (ai_mtu a) \<and> int64_range (ai_proto a) \<and> int64_range (ai_keepalive_secs a)"

lemma assign_ip_of_json_json: "assign_ip_wf a \<Longrightarrow> assign_ip_of_json (assign_ip_json a) = Some a"
  by (cases a)
    (auto simp: assign_ip_json_def assign_ip_wf_def field_simps_json fold_eval)

lemma parse_new_assign_ip: "assign_ip_wf a \<Longrightarrow> parse_assign_ip (new_assign_ip a) = Inr a"
  by (simp add: parse_assign_ip_def new_assign_ip_def of_payload_def assign_ip_of_json_json)

lemma parse_new_error: "parse_error (new_error c m) = Inr \<lparr>em_code = c, em_message = m\<rparr>"
  by (simp add: parse_error_def new_error_def of_payload_def error_msg_json_def fold_eval)

lemma parse_new_hello: "int64_range v \<Longrightarrow> parse_hello (new_hello v) = Inr \<lparr>he_version = v\<rparr>"
  by (simp add: parse_hello_def new_hello_def of_payload_def hello_json_def fold_eval)

lemma control_wf_new [simp]:
  "control_wf (new_assign_ip a)" "control_wf new_keepalive" "control_wf (new_hello v)"
  "control_wf (new_error c m)"
  by (auto simp: control_wf_def new_assign_ip_def new_keepalive_def new_hello_def new_error_def
      assign_ip_json_def hello_json_def error_msg_json_def opt_member_def)

section \<open>Properties\<close>

text \<open>Everything one side of a connection may send, and how the other side reads it.\<close>

datatype wire_msg = WControl control_message | WData bytes

fun wire_packet :: "wire_msg \<Rightarrow> frame_type \<times> bytes" where
  "wire_packet (WControl m) = (FrameControl, marshal_control m)"
| "wire_packet (WData pkt) = (FrameData, pkt)"

fun write_wire :: "'w writer \<Rightarrow> 'w \<Rightarrow> wire_msg \<Rightarrow> frame_err option \<times> 'w" where
  "write_wire wr w (WControl m) = write_control wr w m"
| "write_wire wr w (WData pkt) = write_data wr w pkt"

fun write_wires :: "'w writer \<Rightarrow> 'w \<Rightarrow> wire_msg list \<Rightarrow> frame_err option \<times> 'w" where
  "write_wires wr w [] = (None, w)"
| "write_wires wr w (m # ms) =
     (case write_wire wr w m of (Some e, w1) \<Rightarrow> (Some e, w1) | (None, w1) \<Rightarrow> write_wires wr w1 ms)"

fun wire_of_packet :: "frame_type \<times> bytes \<Rightarrow> proto_err + wire_msg" where
  "wire_of_packet (FrameControl, body) = rbind (decode_control body) (\<lambda>m. Inr (WControl m))"
| "wire_of_packet (FrameData, body) = Inr (WData body)"

text \<open>A message fits when, with its type byte, it is no longer than a frame may be.\<close>

fun wire_fits :: "wire_msg \<Rightarrow> bool" where
  "wire_fits (WControl m) = (control_wf m \<and> length (marshal_control m) < max_frame_size)"
| "wire_fits (WData pkt) = (length pkt < max_frame_size)"

lemma wire_of_wire_packet: "wire_fits m \<Longrightarrow> wire_of_packet (wire_packet m) = Inr m"
  by (cases m) (simp_all add: decode_marshal_control)

lemma write_wires_buffer:
  "list_all wire_fits ms \<Longrightarrow>
   \<exists>bs. put_many packet_bytes (map wire_packet ms) = Some bs
      \<and> write_wires buffer_write b ms = (None, b @ bs)"
proof (induction ms arbitrary: b)
  case Nil
  then show ?case by simp
next
  case (Cons m ms)
  then obtain c where c: "packet_bytes (wire_packet m) = Some c"
    by (cases m) (auto simp: packet_bytes_def frame_bytes_def)
  then have "write_wire buffer_write b m = (None, b @ c)"
    by (cases m) (simp_all add: write_control_buffer write_data_buffer)
  moreover from Cons.prems have "list_all wire_fits ms" by simp
  from Cons.IH [OF this, of "b @ c"] obtain bs where
    "put_many packet_bytes (map wire_packet ms) = Some bs"
    and "write_wires buffer_write (b @ c) ms = (None, (b @ c) @ bs)" by blast
  ultimately show ?case using c by simp
qed

text \<open>
  (C4) A conversation survives the connection: any sequence of control messages and IP packets
  that fit into frames, written one after another with \<open>WriteControl\<close> and \<open>WriteData\<close>, is read
  back by \<open>ReadPacket\<close> and \<open>DecodeControl\<close> as exactly that sequence, and the bytes after it are
  left for the next read.
\<close>

theorem wire_stream_roundtrip:
  assumes "list_all wire_fits ms"
  shows "\<exists>bs ps. write_wires buffer_write [] ms = (None, bs)
    \<and> get_many read_packet (length ms) \<lparr>rd_data = bs @ rest, rd_end = e\<rparr>
        = (Inr ps, \<lparr>rd_data = rest, rd_end = e\<rparr>)
    \<and> map wire_of_packet ps = map Inr ms"
proof -
  from write_wires_buffer [OF assms, of "[]"] obtain bs where
    bs: "put_many packet_bytes (map wire_packet ms) = Some bs"
    and w: "write_wires buffer_write [] ms = (None, bs)" by auto
  have "map wire_of_packet (map wire_packet ms) = map Inr ms"
    using assms by (auto simp: list_all_iff wire_of_wire_packet)
  with w packets.stream_get [OF bs, of rest e] show ?thesis by auto
qed

lemma wire_stream_roundtrip_witness:
  "\<exists>bs ps. write_wires buffer_write [] [WControl new_keepalive, WData [0x45, 0x00]] = (None, bs)
    \<and> get_many read_packet 2 \<lparr>rd_data = bs @ [7], rd_end = EOF\<rparr>
        = (Inr ps, \<lparr>rd_data = [7], rd_end = EOF\<rparr>)
    \<and> map wire_of_packet ps = [Inr (WControl new_keepalive), Inr (WData [0x45, 0x00])]"
proof -
  have "list_all wire_fits [WControl new_keepalive, WData [0x45, 0x00]]"
    by (simp add: marshal_control_def new_keepalive_def control_json_def control_wf_def
        json_marshal_def json_string_def esc_char_def ctrl_keepalive_def max_frame_size_def)
  from wire_stream_roundtrip [OF this, of "[7]" EOF] show ?thesis
    by (simp add: numeral_2_eq_2)
qed

text \<open>
  The assignment the server announces is the assignment the client installs: for every
  \<open>AssignIP\<close> whose integers are 64-bit and whose message fits a frame, what \<open>NewAssignIP\<close> and
  \<open>WriteControl\<close> put on the wire comes out of \<open>ReadPacket\<close>, \<open>DecodeControl\<close> and
  \<open>ParseAssignIP\<close> field by field unchanged, omitted fields included.
\<close>

theorem assign_ip_over_the_wire:
  assumes "assign_ip_wf a" and "length (marshal_control (new_assign_ip a)) < max_frame_size"
  shows "\<exists>bs body m. write_control buffer_write b (new_assign_ip a) = (None, b @ bs)
    \<and> read_packet \<lparr>rd_data = bs @ rest, rd_end = e\<rparr>
        = (Inr (FrameControl, body), \<lparr>rd_data = rest, rd_end = e\<rparr>)
    \<and> decode_control body = Inr m \<and> parse_assign_ip m = Inr a"
proof -
  from assms(2) obtain bs where
    "packet_bytes (FrameControl, marshal_control (new_assign_ip a)) = Some bs"
    by (auto simp: packet_bytes_def frame_bytes_def)
  then show ?thesis
    using assms(1)
    by (auto simp: write_control_buffer packets.put_get decode_marshal_control parse_new_assign_ip)
qed

definition sample_assign :: assign_ip where
  "sample_assign = \<lparr>ai_ip = ''10.8.0.2'', ai_gateway = ''10.8.0.1'', ai_netmask = ''255.255.255.0'',
     ai_mtu = 1380, ai_routes = [''0.0.0.0/0''], ai_dns = [], ai_proto = 1, ai_keepalive_secs = 0\<rparr>"

lemma assign_ip_over_the_wire_witness:
  "\<exists>bs body m. write_control buffer_write [] (new_assign_ip sample_assign) = (None, bs)
    \<and> read_packet \<lparr>rd_data = bs @ [1], rd_end = EOF\<rparr>
        = (Inr (FrameControl, body), \<lparr>rd_data = [1], rd_end = EOF\<rparr>)
    \<and> decode_control body = Inr m \<and> parse_assign_ip m = Inr sample_assign"
proof -
  have wf: "assign_ip_wf sample_assign"
    by (simp add: assign_ip_wf_def sample_assign_def int64_range_def)
  have "length (marshal_control (new_assign_ip sample_assign)) < max_frame_size"
    by (simp add: marshal_control_def json_marshal_def control_json_def new_assign_ip_def
        assign_ip_json_def sample_assign_def opt_member_def jstrs_def jint_def int_str_def
        nat_str.simps json_string_def esc_char_def ctrl_assign_ip_def max_frame_size_def)
  from assign_ip_over_the_wire [OF wf this, of "[]" "[1]" EOF] show ?thesis by simp
qed

end
