(* ===== verification/Netaddr.thy ===== *)
theory Netaddr
  imports Prelude
begin

text \<open>
  What the sources use of Go's \<open>net\<close> and \<open>net/netip\<close>: IPv4 and IPv6 addresses and prefixes,
  their parsers (\<open>netip.ParseAddr\<close>, \<open>netip.ParsePrefix\<close>, \<open>net.ParseCIDR\<close>, \<open>net.ParseIP\<close>)
  and the splitting and joining of "host:port". An IPv4 address is a 32-bit word, an IPv6
  address a 128-bit word with its zone.
\<close>

type_synonym ipv4 = "32 word"

datatype ip = V4 ipv4 | V6 "128 word" string

definition ipv4_of_octets :: "byte \<Rightarrow> byte \<Rightarrow> byte \<Rightarrow> byte \<Rightarrow> ipv4" where
  "ipv4_of_octets a b c d =
     push_bit 24 (ucast a) OR push_bit 16 (ucast b) OR push_bit 8 (ucast c) OR ucast d"

definition ipv4_octets :: "ipv4 \<Rightarrow> bytes" where
  "ipv4_octets u =
     [ucast (drop_bit 24 u), ucast (drop_bit 16 u), ucast (drop_bit 8 u), ucast u]"

lemma ipv4_octets_of_octets [simp]: "ipv4_octets (ipv4_of_octets a b c d) = [a, b, c, d]"
  unfolding ipv4_octets_def ipv4_of_octets_def
  by (auto intro!: bit_word_eqI simp: bit_simps) (drule bit_imp_le_length, simp)+

lemma ipv4_of_octets_octets:
  "ipv4_of_octets (ucast (drop_bit 24 u)) (ucast (drop_bit 16 u)) (ucast (drop_bit 8 u)) (ucast u) = u"
proof (rule bit_word_eqI)
  fix n assume "n < LENGTH(32)"
  then consider "n < 8" | "8 \<le> n \<and> n < 16" | "16 \<le> n \<and> n < 24" | "24 \<le> n \<and> n < 32"
    by fastforce
  then show "bit (ipv4_of_octets (ucast (drop_bit 24 u)) (ucast (drop_bit 16 u))
      (ucast (drop_bit 8 u)) (ucast u)) n \<longleftrightarrow> bit u n"
    by cases (auto simp: ipv4_of_octets_def bit_simps)
qed

lemma ipv4_octets_nth:
  "ipv4_of_octets (ipv4_octets u ! 0) (ipv4_octets u ! 1) (ipv4_octets u ! 2) (ipv4_octets u ! 3) = u"
  by (simp add: ipv4_octets_def ipv4_of_octets_octets numeral_2_eq_2 numeral_3_eq_3)

lemma ipv4_octets_inject [simp]: "ipv4_octets u = ipv4_octets v \<longleftrightarrow> u = v"
  by (metis ipv4_octets_nth)

section \<open>Addresses\<close>

fun ip_is4 :: "ip \<Rightarrow> bool" where
  "ip_is4 (V4 u) = True"
| "ip_is4 (V6 u z) = False"

fun ip_bitlen :: "ip \<Rightarrow> nat" where
  "ip_bitlen (V4 u) = 32"
| "ip_bitlen (V6 u z) = 128"

text \<open>The IPv4 address inside an IPv4-mapped IPv6 address (\<open>::ffff:a.b.c.d\<close>).\<close>

definition mapped4 :: "128 word \<Rightarrow> ipv4 option" where
  "mapped4 u = (if drop_bit 32 u = 0xFFFF then Some (ucast u) else None)"

text \<open>\<open>netip.Addr.Unmap\<close> and \<open>net.IP.To4\<close>.\<close>

fun ip_unmap :: "ip \<Rightarrow> ip" where
  "ip_unmap (V4 u) = V4 u"
| "ip_unmap (V6 u z) = (case mapped4 u of None \<Rightarrow> V6 u z | Some w \<Rightarrow> V4 w)"

fun ip_to4 :: "ip \<Rightarrow> ipv4 option" where
  "ip_to4 (V4 u) = Some u"
| "ip_to4 (V6 u z) = mapped4 u"

definition parse_octet :: "string \<Rightarrow> nat option" where
  "parse_octet s =
     (case nat_of_str s of
        None \<Rightarrow> None
      | Some n \<Rightarrow> (if n > 255 \<or> (length s > 1 \<and> hd s = CHR ''0'') then None else Some n))"

definition parse_ipv4 :: "string \<Rightarrow> ipv4 option" where
  "parse_ipv4 s =
     (case map parse_octet (split_char (CHR ''.'') s) of
        [Some a, Some b, Some c, Some d] \<Rightarrow>
          Some (ipv4_of_octets (word_of_nat a) (word_of_nat b) (word_of_nat c) (word_of_nat d))
      | _ \<Rightarrow> None)"

definition ipv4_str :: "ipv4 \<Rightarrow> string" where
  "ipv4_str u = join ''.'' (map (\<lambda>b. nat_str (unat b)) (ipv4_octets u))"

type_synonym group = "16 word"

definition hex_digit :: "char \<Rightarrow> group option" where
  "hex_digit c =
     (let n = of_char c :: nat
      in if 48 \<le> n \<and> n \<le> 57 then Some (word_of_nat (n - 48))
         else if 97 \<le> n \<and> n \<le> 102 then Some (word_of_nat (n - 87))
         else if 65 \<le> n \<and> n \<le> 70 then Some (word_of_nat (n - 55)) else None)"

definition is_hex :: "char \<Rightarrow> bool" where
  "is_hex c \<longleftrightarrow> hex_digit c \<noteq> None"

definition hex_num :: "string \<Rightarrow> group" where
  "hex_num s = foldl (\<lambda>a c. 16 * a + (case hex_digit c of None \<Rightarrow> 0 | Some d \<Rightarrow> d)) 0 s"

text \<open>
  The loop of \<open>netip.parseIPv6\<close>: at most \<open>k\<close> more groups, those read so far, and the
  position of the ellipsis.
\<close>

fun ipv6_loop :: "nat \<Rightarrow> string \<Rightarrow> group list \<Rightarrow> nat option \<Rightarrow> (group list \<times> nat option) option" where
  "ipv6_loop 0 s gs el = (if s = [] then Some (gs, el) else None)"
| "ipv6_loop (Suc k) s gs el =
     (let hx = takeWhile is_hex s; rest = dropWhile is_hex s
      in if hx = [] \<or> length hx > 4 then None
         else if rest \<noteq> [] \<and> hd rest = CHR ''.'' then
           (if el = None \<and> length gs \<noteq> 6 \<or> length gs > 6 then None
            else (case parse_ipv4 s of
                None \<Rightarrow> None
              | Some w \<Rightarrow> Some (gs @ [ucast (drop_bit 16 w), ucast w], el)))
         else
           (let gs' = gs @ [hex_num hx]
            in if rest = [] then Some (gs', el)
               else if hd rest \<noteq> CHR '':'' \<or> tl rest = [] then None
               else
                 (let s1 = tl rest
                  in if hd s1 = CHR '':'' then
                       (if el \<noteq> None then None
                        else if tl s1 = [] then Some (gs', Some (length gs'))
                        else ipv6_loop k (tl s1) gs' (Some (length gs')))
                     else ipv6_loop k s1 gs' el)))"

definition ipv6_expand :: "group list \<times> nat option \<Rightarrow> group list option" where
  "ipv6_expand p =
     (case p of
        (gs, None) \<Rightarrow> (if length gs < 8 then None else Some gs)
      | (gs, Some e) \<Rightarrow>
          (if length gs < 8 then Some (take e gs @ replicate (8 - length gs) 0 @ drop e gs) else None))"

definition ipv6_of_groups :: "group list \<Rightarrow> 128 word" where
  "ipv6_of_groups gs = foldl (\<lambda>a g. push_bit 16 a OR ucast g) 0 gs"

text \<open>The text before the first occurrence of a character, and after it.\<close>

definition cut_char :: "char \<Rightarrow> string \<Rightarrow> (string \<times> string) option" where
  "cut_char d s =
     (if d \<in> set s then Some (takeWhile (\<lambda>c. c \<noteq> d) s, tl (dropWhile (\<lambda>c. c \<noteq> d) s)) else None)"

definition parse_ipv6 :: "string \<Rightarrow> ip option" where
  "parse_ipv6 s0 =
     (let (s, zone, bad) =
        (case cut_char (CHR ''%'') s0 of
           None \<Rightarrow> (s0, [], False)
         | Some (a, z) \<Rightarrow> (a, z, z = []))
      in if bad then None
         else
           (let start = (if starts_with s ''::'' then Some (0 :: nat) else None);
                s1 = (if starts_with s ''::'' then drop 2 s else s)
            in if start \<noteq> None \<and> s1 = [] then Some (V6 0 zone)
               else (case ipv6_loop 8 s1 [] start of
                   None \<Rightarrow> None
                 | Some p \<Rightarrow>
                     map_option (\<lambda>gs. V6 (ipv6_of_groups gs) zone) (ipv6_expand p))))"

definition parse_addr :: "string \<Rightarrow> ip option" where
  "parse_addr s =
     (case dropWhile (\<lambda>c. c \<notin> {CHR ''.'', CHR '':'', CHR ''%''}) s of
        [] \<Rightarrow> None
      | c # r \<Rightarrow>
          (if c = CHR ''.'' then map_option V4 (parse_ipv4 s)
           else if c = CHR '':'' then parse_ipv6 s
           else None))"

fun ip_zone :: "ip \<Rightarrow> string" where
  "ip_zone (V4 u) = []"
| "ip_zone (V6 u z) = z"

text \<open>\<open>net.ParseIP\<close>: no zones.\<close>

definition parse_ip :: "string \<Rightarrow> ip option" where
  "parse_ip s =
     (case parse_addr s of
        None \<Rightarrow> None
      | Some a \<Rightarrow> (if ip_zone a \<noteq> [] then None else Some a))"

section \<open>Prefixes\<close>

record prefix =
  pfx_addr :: ip
  pfx_bits :: nat

text \<open>The text before the last occurrence of a character, and after it.\<close>

definition cut_last_char :: "char \<Rightarrow> string \<Rightarrow> (string \<times> string) option" where
  "cut_last_char d s =
     (case cut_char d (rev s) of None \<Rightarrow> None | Some (a, b) \<Rightarrow> Some (rev b, rev a))"

definition parse_prefix :: "string \<Rightarrow> prefix option" where
  "parse_prefix s =
     (case cut_last_char (CHR ''/'') s of
        None \<Rightarrow> None
      | Some (a, b) \<Rightarrow>
          (case parse_addr a of
             None \<Rightarrow> None
           | Some addr \<Rightarrow>
               (if ip_zone addr \<noteq> [] then None
                else if length b > 1 \<and> \<not> (is_digit (hd b) \<and> hd b \<noteq> CHR ''0'') then None
                else (case nat_of_str b of
                    None \<Rightarrow> None
                  | Some n \<Rightarrow>
                      (if n > ip_bitlen addr then None
                       else Some \<lparr>pfx_addr = addr, pfx_bits = n\<rparr>)))))"

text \<open>\<open>net.ParseCIDR\<close>: the address and the length of the mask.\<close>

definition parse_cidr :: "string \<Rightarrow> (ip \<times> nat) option" where
  "parse_cidr s =
     (case cut_char (CHR ''/'') s of
        None \<Rightarrow> None
      | Some (a, b) \<Rightarrow>
          (case parse_ip a of
             None \<Rightarrow> None
           | Some addr \<Rightarrow>
               (case nat_of_str b of
                  None \<Rightarrow> None
                | Some n \<Rightarrow> (if n > ip_bitlen addr then None else Some (addr, n)))))"

definition ipv4_mask :: "nat \<Rightarrow> ipv4" where
  "ipv4_mask ones = NOT (mask (32 - ones))"

section \<open>Host and port\<close>

definition split_host_port :: "string \<Rightarrow> (string \<times> string) option" where
  "split_host_port s =
     (case cut_last_char (CHR '':'') s of
        None \<Rightarrow> None
      | Some (pre, port) \<Rightarrow>
          (if hd s = CHR ''['' then
             (case cut_char (CHR '']'') s of
                None \<Rightarrow> None
              | Some (a, b) \<Rightarrow>
                  (if length a + 1 \<noteq> length pre then None
                   else if CHR ''['' \<in> set (tl s) \<or> CHR '']'' \<in> set b then None
                   else Some (tl a, port)))
           else if CHR '':'' \<in> set pre then None
           else if CHR ''['' \<in> set s \<or> CHR '']'' \<in> set s then None
           else Some (pre, port)))"

definition join_host_port :: "string \<Rightarrow> string \<Rightarrow> string" where
  "join_host_port host port =
     (if CHR '':'' \<in> set host then ''['' @ host @ '']:'' @ port else host @ '':'' @ port)"

section \<open>Round trips\<close>

lemma dot_not_digit: "\<not> is_digit (CHR ''.'')"
  by (simp add: is_digit_def)

lemma dot_notin_nat_str: "CHR ''.'' \<notin> set (nat_str n)"
  using nat_str_digits [of n] dot_not_digit by (auto simp: list_all_iff)

lemma parse_octet_nat_str: "n < 256 \<Longrightarrow> parse_octet (nat_str n) = Some n"
proof -
  assume n: "n < 256"
  have "length (nat_str n) > 1 \<Longrightarrow> n \<noteq> 0" by (cases n) simp_all
  then have "\<not> (length (nat_str n) > 1 \<and> hd (nat_str n) = CHR ''0'')"
    by (auto simp: nat_str_hd_zero)
  with n show ?thesis by (simp add: parse_octet_def)
qed

lemma unat_byte_less: "unat (b :: byte) < 256"
  using unsigned_less [of b, where 'a = nat] by simp

lemma parse_ipv4_str [simp]: "parse_ipv4 (ipv4_str u) = Some u"
proof -
  obtain a b c d where abcd: "ipv4_octets u = [a, b, c, d]" by (simp add: ipv4_octets_def)
  then have "ipv4_str u = nat_str (unat a) @ CHR ''.'' # nat_str (unat b) @ CHR ''.''
      # nat_str (unat c) @ CHR ''.'' # nat_str (unat d)"
    by (simp add: ipv4_str_def)
  then have "split_char (CHR ''.'') (ipv4_str u)
      = [nat_str (unat a), nat_str (unat b), nat_str (unat c), nat_str (unat d)]"
    by (simp add: split_char_append split_char_single dot_notin_nat_str)
  moreover have "ipv4_of_octets a b c d = u"
    using ipv4_octets_nth [of u] by (simp add: abcd numeral_2_eq_2 numeral_3_eq_3)
  ultimately show ?thesis
    by (simp add: parse_ipv4_def parse_octet_nat_str unat_byte_less)
qed

lemma parse_addr_ipv4_str [simp]: "parse_addr (ipv4_str u) = Some (V4 u)"
proof -
  obtain a b c d where abcd: "ipv4_octets u = [a, b, c, d]" by (simp add: ipv4_octets_def)
  let ?stop = "\<lambda>c. c \<notin> {CHR ''.'', CHR '':'', CHR ''%''}"
  have "?stop x" if "is_digit x" for x using that by (auto simp: is_digit_def)
  then have "dropWhile ?stop (nat_str (unat a) @ CHR ''.'' # t) = CHR ''.'' # t" for t
    using nat_str_digits [of "unat a"] by (subst dropWhile_append2) (auto simp: list_all_iff)
  moreover obtain t where t: "ipv4_str u = nat_str (unat a) @ CHR ''.'' # t"
    by (simp add: ipv4_str_def abcd)
  ultimately show ?thesis
    using parse_ipv4_str [of u] by (simp add: parse_addr_def t del: parse_ipv4_str)
qed

lemma cut_char_append: "d \<notin> set a \<Longrightarrow> cut_char d (a @ d # b) = Some (a, b)"
  by (induction a) (auto simp: cut_char_def)

lemma cut_last_char_append: "d \<notin> set b \<Longrightarrow> cut_last_char d (a @ d # b) = Some (a, b)"
  using cut_char_append [of d "rev b" "rev a"] by (simp add: cut_last_char_def)

definition plain_host :: "string \<Rightarrow> bool" where
  "plain_host h \<longleftrightarrow> CHR ''['' \<notin> set h \<and> CHR '']'' \<notin> set h"

lemma split_join_host_port:
  assumes h: "plain_host host" and p: "plain_host port" "CHR '':'' \<notin> set port"
  shows "split_host_port (join_host_port host port) = Some (host, port)"
proof (cases "CHR '':'' \<in> set host")
  case True
  let ?s = "(CHR ''['' # host @ [CHR '']'']) @ CHR '':'' # port"
  have "join_host_port host port = ?s" using True by (simp add: join_host_port_def)
  moreover have "cut_last_char (CHR '':'') ?s = Some (CHR ''['' # host @ [CHR '']''], port)"
    using p(2) by (rule cut_last_char_append)
  moreover have "cut_char (CHR '']'') ((CHR ''['' # host) @ CHR '']'' # CHR '':'' # port)
      = Some (CHR ''['' # host, CHR '':'' # port)"
    by (rule cut_char_append) (use h in \<open>auto simp: plain_host_def\<close>)
  ultimately show ?thesis
    using h p by (simp add: split_host_port_def plain_host_def)
next
  case False
  then have "cut_last_char (CHR '':'') (join_host_port host port) = Some (host, port)"
    using p(2) by (simp add: join_host_port_def cut_last_char_append)
  moreover have "hd (join_host_port host port) \<noteq> CHR ''[''"
    using False h by (cases host) (auto simp: join_host_port_def plain_host_def)
  ultimately show ?thesis
    using False h p by (simp add: split_host_port_def plain_host_def join_host_port_def)
qed

end
