(* ===== verification/Ipalloc.thy ===== *)
theory Ipalloc
  imports Netaddr
begin

text \<open>
  The address pool of the server (\<open>src/internal/ipalloc/ipalloc.go\<close>): IPv4 addresses of one
  CIDR block handed out to client identities. An address is the 32-bit word \<open>ipToUint32\<close> makes
  of its bytes; the mutex makes every operation atomic, so an operation is a function from the
  pool to its result and the new pool. The locale \<open>address_pool\<close> is what the server relies on.
\<close>

record pool =
  addrs :: "ipv4 list"
  free :: "ipv4 set"
  byClient :: "string \<rightharpoonup> ipv4"

datatype ipalloc_err =
    ErrParseCIDR string
  | ErrNotIPv4 string
  | ErrNoHosts string
  | ErrReservedNotIPv4 ip
  | ErrReservedOutside ip
  | ErrNothingLeft
  | ErrPoolExhausted
  | ErrAlreadyAllocated

definition ip_to_uint32 :: "bytes \<Rightarrow> ipv4" where
  "ip_to_uint32 bs =
     push_bit 24 (ucast (bs ! 0)) OR push_bit 16 (ucast (bs ! 1)) OR push_bit 8 (ucast (bs ! 2))
       OR ucast (bs ! 3)"

definition uint32_to_ip :: "ipv4 \<Rightarrow> bytes" where
  "uint32_to_ip u = [ucast (drop_bit 24 u), ucast (drop_bit 16 u), ucast (drop_bit 8 u), ucast u]"

lemma ip_to_uint32_to_ip [simp]: "ip_to_uint32 (uint32_to_ip u) = u"
  using ipv4_octets_nth [of u]
  by (simp add: ip_to_uint32_def uint32_to_ip_def ipv4_octets_def ipv4_of_octets_def)

section \<open>The operations\<close>

lemma unat_succ_less: "unat u < unat b \<Longrightarrow> unat (u + 1) = unat u + 1" for u b :: ipv4
  using unsigned_less [of b, where 'a = nat] by (simp add: unat_word_ariths)

text \<open>The loop over the candidates: \<open>for u := base + 1; u < broadcast; u++\<close>.\<close>

function addr_range :: "ipv4 \<Rightarrow> ipv4 \<Rightarrow> ipv4 list" where
  "addr_range u b = (if u < b then u # addr_range (u + 1) b else [])"
  by pat_completeness auto
termination
proof (relation "measure (\<lambda>(u, b). unat b - unat u)")
  show "wf (measure (\<lambda>(u :: ipv4, b :: ipv4). unat b - unat u))" by simp
next
  fix u b :: ipv4
  assume "u < b"
  then have "unat u < unat b" by (simp add: word_less_nat_alt)
  moreover from this have "unat (u + 1) = unat u + 1" by (rule unat_succ_less)
  ultimately show "((u + 1, b), (u, b)) \<in> measure (\<lambda>(u, b). unat b - unat u)" by simp
qed

declare addr_range.simps [simp del]

text \<open>The addresses the caller reserves, checked in order.\<close>

fun reserve_all :: "ipv4 \<Rightarrow> ipv4 \<Rightarrow> ip list \<Rightarrow> ipv4 set \<Rightarrow> ipalloc_err + ipv4 set" where
  "reserve_all base broadcast [] res = Inr res"
| "reserve_all base broadcast (r # rs) res =
     (case ip_to4 r of
        None \<Rightarrow> Inl (ErrReservedNotIPv4 r)
      | Some u \<Rightarrow>
          (if u < base \<or> u > broadcast then Inl (ErrReservedOutside r)
           else reserve_all base broadcast rs (insert u res)))"

definition cidr_base :: "ipv4 \<Rightarrow> nat \<Rightarrow> ipv4" where
  "cidr_base u ones = u AND ipv4_mask ones"

definition cidr_broadcast :: "ipv4 \<Rightarrow> nat \<Rightarrow> ipv4" where
  "cidr_broadcast base ones = base + push_bit (32 - ones) 1 - 1"

definition pool_new :: "string \<Rightarrow> ip list \<Rightarrow> ipalloc_err + pool" where
  "pool_new cidr reserve =
     (case parse_cidr cidr of
        None \<Rightarrow> Inl (ErrParseCIDR cidr)
      | Some (V6 u z, n) \<Rightarrow> Inl (ErrNotIPv4 cidr)
      | Some (V4 u, ones) \<Rightarrow>
          (if ones \<ge> 31 then Inl (ErrNoHosts cidr)
           else
             (let base = cidr_base u ones; broadcast = cidr_broadcast base ones
              in rbind (reserve_all base broadcast reserve {base, broadcast})
                   (\<lambda>reserved.
                      (let as = filter (\<lambda>u. u \<notin> reserved) (addr_range (base + 1) broadcast)
                       in if as = [] then Inl ErrNothingLeft
                          else Inr \<lparr>addrs = as, free = set as, byClient = Map.empty\<rparr>)))))"

definition pool_allocate :: "pool \<Rightarrow> string \<Rightarrow> (ipalloc_err + ipv4) \<times> pool" where
  "pool_allocate p cid =
     (if byClient p cid \<noteq> None then (Inl ErrAlreadyAllocated, p)
      else (case find (\<lambda>a. a \<in> free p) (addrs p) of
          None \<Rightarrow> (Inl ErrPoolExhausted, p)
        | Some a \<Rightarrow>
            (Inr a, p\<lparr>free := free p - {a}, byClient := (byClient p)(cid \<mapsto> a)\<rparr>)))"

definition pool_release :: "pool \<Rightarrow> string \<Rightarrow> pool" where
  "pool_release p cid =
     (case byClient p cid of
        None \<Rightarrow> p
      | Some a \<Rightarrow> p\<lparr>byClient := (byClient p)(cid := None), free := insert a (free p)\<rparr>)"

definition pool_in_use :: "pool \<Rightarrow> nat" where
  "pool_in_use p = card (dom (byClient p))"

section \<open>The invariant\<close>

definition pool_inv :: "pool \<Rightarrow> bool" where
  "pool_inv p \<longleftrightarrow>
     sorted (addrs p) \<and> distinct (addrs p) \<and> finite (dom (byClient p))
     \<and> set (addrs p) = free p \<union> ran (byClient p) \<and> free p \<inter> ran (byClient p) = {}
     \<and> inj_on (byClient p) (dom (byClient p))"

lemma addr_range_props:
  "sorted (addr_range u b) \<and> distinct (addr_range u b) \<and> set (addr_range u b) = {x. u \<le> x \<and> x < b}"
proof (induction u b rule: addr_range.induct)
  case (1 u b)
  show ?case
  proof (cases "u < b")
    case True
    then have "unat (u + 1) = unat u + 1"
      using unat_succ_less by (simp add: word_less_nat_alt)
    then have inc: "u + 1 \<le> x \<longleftrightarrow> u < x" for x
      by (simp add: word_le_nat_alt word_less_nat_alt Suc_le_eq)
    have eq: "addr_range u b = u # addr_range (u + 1) b"
      using True by (subst addr_range.simps) (rule if_P)
    have set: "set (addr_range (u + 1) b) = {x. u < x \<and> x < b}"
      using 1 [OF True] by (simp only: inc)
    have "{x. u \<le> x \<and> x < b} = insert u {x. u < x \<and> x < b}"
      using True by (auto simp: order.strict_iff_order)
    then have "set (u # addr_range (u + 1) b) = {x. u \<le> x \<and> x < b}"
      by (simp only: list.set set)
    moreover have "\<forall>x \<in> set (addr_range (u + 1) b). u \<le> x" and "u \<notin> set (addr_range (u + 1) b)"
      unfolding set by auto
    ultimately show ?thesis
      using 1 [OF True] unfolding eq by (simp only: sorted_simps distinct.simps simp_thms)
  next
    case False
    then have "addr_range u b = []" by (subst addr_range.simps) simp
    with False show ?thesis by auto
  qed
qed

lemma pool_new_inv [keeps]: "pool_new cidr reserve = Inr p \<Longrightarrow> pool_inv p"
  by (auto simp: pool_new_def Let_def rbind_Inr_iff pool_inv_def addr_range_props sorted_wrt_filter
      split: option.splits ip.splits if_splits prod.splits)

lemma pool_allocate_Inr:
  assumes "pool_allocate p c = (Inr a, p')"
  shows "byClient p c = None \<and> a \<in> free p \<and> a \<in> set (addrs p)
    \<and> p' = p\<lparr>free := free p - {a}, byClient := (byClient p)(c \<mapsto> a)\<rparr>"
  using assms by (auto simp: pool_allocate_def find_Some_iff split: if_splits option.splits)

lemma pool_allocate_Inl: "pool_allocate p c = (Inl e, p') \<Longrightarrow> p' = p"
  by (auto simp: pool_allocate_def split: if_splits option.splits)

lemma pool_allocate_inv [keeps]:
  assumes "pool_inv p" and "pool_allocate p c = (Inr a, p')"
  shows "pool_inv p'"
proof -
  from pool_allocate_Inr [OF assms(2)] have c: "byClient p c = None" and a: "a \<in> free p"
    and p': "p' = p\<lparr>free := free p - {a}, byClient := (byClient p)(c \<mapsto> a)\<rparr>" by blast+
  have ran: "ran ((byClient p)(c \<mapsto> a)) = insert a (ran (byClient p))"
    using c by (rule ran_map_upd)
  have new: "a \<notin> ran (byClient p)" using assms(1) a by (auto simp: pool_inv_def)
  then have "byClient p d \<noteq> Some a" for d by (auto dest: ranI)
  then have "inj_on ((byClient p)(c \<mapsto> a)) (insert c (dom (byClient p)))"
    using assms(1) c by (auto simp: pool_inv_def inj_on_def)
  with ran new show ?thesis
    using assms(1) a unfolding p' pool_inv_def by auto
qed

lemma ran_delete:
  assumes "inj_on m (dom m)" and "m c = Some a"
  shows "ran (m(c := None)) = ran m - {a}"
proof (intro set_eqI iffI)
  fix b assume "b \<in> ran (m(c := None))"
  then obtain d where d: "d \<noteq> c" "m d = Some b" by (auto simp: ran_def split: if_splits)
  with inj_onD [OF assms(1), of d c] assms(2) have "b \<noteq> a" by auto
  with d show "b \<in> ran m - {a}" by (auto intro: ranI)
next
  fix b assume "b \<in> ran m - {a}"
  then obtain d where "m d = Some b" "b \<noteq> a" by (auto simp: ran_def)
  with assms(2) have "(m(c := None)) d = Some b" by auto
  then show "b \<in> ran (m(c := None))" by (rule ranI)
qed

lemma pool_release_inv [keeps]: "pool_inv p \<Longrightarrow> pool_inv (pool_release p c)"
proof (cases "byClient p c")
  case None
  assume "pool_inv p"
  with None show ?thesis by (simp add: pool_release_def)
next
  case (Some a)
  assume inv: "pool_inv p"
  then have inj: "inj_on (byClient p) (dom (byClient p))" by (simp add: pool_inv_def)
  then have "inj_on ((byClient p)(c := None)) (dom (byClient p) - {c})"
    by (auto simp: inj_on_def)
  moreover from Some have "a \<in> ran (byClient p)" by (rule ranI)
  ultimately show ?thesis
    using inv Some ran_delete [OF inj Some] by (auto simp: pool_release_def pool_inv_def)
qed

lemma byClient_release [simp]: "byClient (pool_release p c) = (byClient p)(c := None)"
  by (auto simp: pool_release_def split: option.splits)

lemma addrs_release [simp]: "addrs (pool_release p c) = addrs p"
  by (auto simp: pool_release_def split: option.splits)

section \<open>The contract of an address pool\<close>

text \<open>
  What a server needs of its pool: an identity holds at most one address, an address at most one
  identity, a failed allocation changes nothing, and only a release gives an address back.
\<close>

locale address_pool =
  fixes alloc :: "'p \<Rightarrow> string \<Rightarrow> ('e + 'a) \<times> 'p"
    and rel :: "'p \<Rightarrow> string \<Rightarrow> 'p"
    and held :: "'p \<Rightarrow> string \<rightharpoonup> 'a"
    and inv :: "'p \<Rightarrow> bool"
  assumes alloc_new: "alloc p c = (Inr a, p') \<Longrightarrow> held p c = None \<and> held p' = (held p)(c \<mapsto> a)"
    and alloc_inv: "inv p \<Longrightarrow> alloc p c = (Inr a, p') \<Longrightarrow> inv p'"
    and alloc_err: "alloc p c = (Inl e, p') \<Longrightarrow> p' = p"
    and rel_held: "held (rel p c) = (held p)(c := None)"
    and rel_inv: "inv p \<Longrightarrow> inv (rel p c)"
    and held_inj: "inv p \<Longrightarrow> held p c = Some a \<Longrightarrow> held p d = Some a \<Longrightarrow> c = d"
begin

text \<open>An identity that holds an address is refused, and nothing changes.\<close>

lemma alloc_refused: "held p c = Some b \<Longrightarrow> \<exists>e. alloc p c = (Inl e, p)"
  by (metis alloc_err alloc_new old.sum.exhaust option.distinct(1) surj_pair)

text \<open>A new address is nobody else's, and the others keep theirs.\<close>

lemma alloc_exclusive:
  assumes "inv p" and "alloc p c = (Inr a, p')" and "d \<noteq> c"
  shows "held p' d = held p d \<and> held p d \<noteq> Some a"
proof -
  from assms(2) have h: "held p' = (held p)(c \<mapsto> a)" by (blast dest: alloc_new)
  have "held p d \<noteq> Some a"
  proof
    assume "held p d = Some a"
    with h assms(3) have "held p' d = Some a" and "held p' c = Some a" by simp_all
    with held_inj [OF alloc_inv [OF assms(1,2)]] assms(3) show False by blast
  qed
  with h assms(3) show ?thesis by simp
qed

text \<open>Releasing and allocating again is possible for an identity at any time.\<close>

lemma rel_others: "d \<noteq> c \<Longrightarrow> held (rel p c) d = held p d"
  and rel_self [simp]: "held (rel p c) c = None"
  by (simp_all add: rel_held)

end

interpretation ippool: address_pool pool_allocate pool_release byClient pool_inv
proof unfold_locales
  show "byClient p c = None \<and> byClient p' = (byClient p)(c \<mapsto> a)"
    if "pool_allocate p c = (Inr a, p')" for p c a p'
    using pool_allocate_Inr [OF that] by simp
  show "c = d" if "pool_inv p" "byClient p c = Some a" "byClient p d = Some a" for p c a d
    using that by (auto simp: pool_inv_def inj_on_def dom_def)
qed (auto intro: keeps dest: pool_allocate_Inl)

section \<open>Properties\<close>

datatype pool_op = Allocate string | Release string

fun pool_step :: "pool \<Rightarrow> pool_op \<Rightarrow> pool" where
  "pool_step p (Allocate c) = snd (pool_allocate p c)"
| "pool_step p (Release c) = pool_release p c"

fun pool_run :: "pool \<Rightarrow> pool_op list \<Rightarrow> pool" where
  "pool_run p [] = p"
| "pool_run p (x # xs) = pool_run (pool_step p x) xs"

lemma pool_step_inv [keeps]: "pool_inv p \<Longrightarrow> pool_inv (pool_step p x)"
proof (cases x)
  case (Allocate c)
  assume inv: "pool_inv p"
  show ?thesis
  proof (cases "pool_allocate p c")
    case (Pair r p')
    with inv Allocate show ?thesis
      by (cases r) (auto dest: pool_allocate_Inl ippool.alloc_inv)
  qed
next
  case (Release c)
  assume "pool_inv p"
  with Release show ?thesis by (simp add: pool_release_inv)
qed

lemma pool_run_inv [keeps]: "pool_inv p \<Longrightarrow> pool_inv (pool_run p xs)"
  by (induction xs arbitrary: p) (auto intro: keeps)

lemma addrs_step [simp]: "addrs (pool_step p x) = addrs p"
proof (cases x)
  case (Allocate c)
  then show ?thesis by (auto simp: pool_allocate_def split: option.splits)
next
  case (Release c)
  then show ?thesis by simp
qed

lemma addrs_run [simp]: "addrs (pool_run p xs) = addrs p"
  by (induction xs arbitrary: p) simp_all

text \<open>What \<open>New\<close> puts into the pool: the addresses strictly between network and broadcast
  address that are not reserved.\<close>

lemma reserve_all_Inr:
  "reserve_all base broadcast rs res = Inr out \<Longrightarrow>
   out = res \<union> {u. \<exists>r \<in> set rs. ip_to4 r = Some u}"
  by (induction rs arbitrary: res) (auto split: option.splits if_splits)

lemma pool_new_addrs:
  assumes "pool_new cidr reserve = Inr p" and "parse_cidr cidr = Some (V4 u, ones)"
  shows "set (addrs p) =
    {a. cidr_base u ones + 1 \<le> a \<and> a < cidr_broadcast (cidr_base u ones) ones
      \<and> a \<noteq> cidr_base u ones \<and> (\<forall>r \<in> set reserve. ip_to4 r \<noteq> Some a)}"
  using assms
  by (auto simp: pool_new_def Let_def rbind_Inr_iff addr_range_props dest!: reserve_all_Inr
      split: if_splits)

lemma find_lowest:
  assumes "sorted xs" and "S \<subseteq> set xs"
  shows "find (\<lambda>a. a \<in> S) xs = (if S = {} then None else Some (Min S))"
  using assms
proof (induction xs)
  case (Cons x xs)
  show ?case
  proof (cases "x \<in> S")
    case True
    have "finite S" using Cons.prems(2) by (rule finite_subset) simp
    moreover have "\<forall>y \<in> S. x \<le> y" using Cons.prems by auto
    ultimately have "Min S = x" using True by (simp add: Min_eqI)
    with True show ?thesis by auto
  next
    case False
    with Cons.prems have "S \<subseteq> set xs" by auto
    with Cons.IH Cons.prems(1) False show ?thesis by simp
  qed
qed simp

lemma cidr_base_not_max:
  assumes "ones < 32"
  shows "cidr_base u ones \<noteq> - 1"
proof
  assume "cidr_base u ones = - 1"
  then have "bit (cidr_base u ones) 0 = bit (- 1 :: ipv4) 0" by (rule arg_cong)
  with assms show False by (simp add: cidr_base_def ipv4_mask_def bit_simps)
qed

lemma pool_new_ones:
  "pool_new cidr reserve = Inr p \<Longrightarrow> parse_cidr cidr = Some (V4 u, ones) \<Longrightarrow> ones < 31"
  by (auto simp: pool_new_def split: if_splits)

lemma cidr_below_max:
  fixes a b :: ipv4
  assumes "b + 1 \<le> a" and "a < c" and "a \<noteq> b" and "b \<noteq> - 1"
  shows "b < a"
proof -
  have "b + 1 \<noteq> 0" using assms(4) by (simp add: eq_neg_iff_add_eq_0)
  then have "unat (b + 1) = unat b + 1"
    by (metis Suc_eq_plus1 add.commute unatSuc)
  with assms(1) show ?thesis by (simp add: word_le_nat_alt word_less_nat_alt)
qed

text \<open>A pool of two addresses, for the witnesses.\<close>

lemma sample_cidr: "parse_cidr ''10.8.0.0/29'' = Some (V4 0x0A080000, 29)"
  by code_simp

lemma sample_pool:
  "pool_new ''10.8.0.0/29'' [V4 0x0A080001, V4 0x0A080004, V4 0x0A080005, V4 0x0A080006]
   = Inr \<lparr>addrs = [0x0A080002, 0x0A080003], free = {0x0A080002, 0x0A080003}, byClient = Map.empty\<rparr>"
proof -
  have "cidr_base 0x0A080000 29 = 0x0A080000"
    by (simp add: cidr_base_def ipv4_mask_def mask_eq_exp_minus_1)
  moreover have "cidr_broadcast 0x0A080000 29 = 0x0A080007" by (simp add: cidr_broadcast_def)
  moreover have "addr_range (0x0A080000 + 1) 0x0A080007 = [0x0A080001, 0x0A080002, 0x0A080003,
      0x0A080004, 0x0A080005, 0x0A080006]" by (simp add: addr_range.simps)
  ultimately show ?thesis
    unfolding pool_new_def sample_cidr option.case prod.case ip.case Let_def by simp
qed

text \<open>(C2) Exclusive addresses. However clients allocate and release, starting from the pool that
  \<open>New\<close> builds over the network \<open>u/ones\<close>: no two identities hold the same address, and every
  address held lies strictly between the network and the broadcast address and is none of the
  reserved ones (in particular not the gateway).\<close>

theorem pool_exclusive:
  assumes "pool_new cidr reserve = Inr p" and "parse_cidr cidr = Some (V4 u, ones)"
    and "byClient (pool_run p ops) c = Some a"
  shows "cidr_base u ones < a \<and> a < cidr_broadcast (cidr_base u ones) ones
    \<and> (\<forall>r. ip_to4 r = Some a \<longrightarrow> r \<notin> set reserve)
    \<and> (\<forall>d. byClient (pool_run p ops) d = Some a \<longrightarrow> d = c)"
proof -
  have inv: "pool_inv (pool_run p ops)" using assms(1) by (auto intro: keeps)
  from assms(3) have "a \<in> ran (byClient (pool_run p ops))" by (rule ranI)
  with inv have "a \<in> set (addrs p)" by (auto simp: pool_inv_def)
  with pool_new_addrs [OF assms(1,2)]
  have a: "cidr_base u ones + 1 \<le> a" "a < cidr_broadcast (cidr_base u ones) ones"
    "a \<noteq> cidr_base u ones" "\<forall>r \<in> set reserve. ip_to4 r \<noteq> Some a" by blast+
  have "cidr_base u ones \<noteq> - 1"
    by (rule cidr_base_not_max) (use pool_new_ones [OF assms(1,2)] in simp)
  with a have "cidr_base u ones < a" by (blast intro: cidr_below_max)
  with a show ?thesis using ippool.held_inj [OF inv _ assms(3)] by blast
qed

theorem pool_exclusive_witness:
  "byClient (pool_run
      \<lparr>addrs = [0x0A080002, 0x0A080003], free = {0x0A080002, 0x0A080003}, byClient = Map.empty\<rparr>
      [Allocate ''alice'', Allocate ''bob'', Release ''alice'', Allocate ''carol'']) ''carol''
    = Some 0x0A080002 \<and> (0x0A080000 :: ipv4) < 0x0A080002"
proof -
  define p :: pool where "p = \<lparr>addrs = [0x0A080002, 0x0A080003],
    free = {0x0A080002, 0x0A080003}, byClient = Map.empty\<rparr>"
  define ops where "ops = [Allocate ''alice'', Allocate ''bob'', Release ''alice'', Allocate ''carol'']"
  have "pool_new ''10.8.0.0/29'' [V4 0x0A080001, V4 0x0A080004, V4 0x0A080005, V4 0x0A080006] = Inr p"
    unfolding p_def by (rule sample_pool)
  moreover have "parse_cidr ''10.8.0.0/29'' = Some (V4 0x0A080000, 29)" by (rule sample_cidr)
  moreover have "byClient (pool_run p ops) ''carol'' = Some 0x0A080002"
    unfolding p_def ops_def by (simp add: pool_allocate_def pool_release_def)
  moreover have "cidr_base 0x0A080000 29 = 0x0A080000"
    by (simp add: cidr_base_def ipv4_mask_def mask_eq_exp_minus_1)
  ultimately show ?thesis
    using pool_exclusive [of "''10.8.0.0/29''"
        "[V4 0x0A080001, V4 0x0A080004, V4 0x0A080005, V4 0x0A080006]" p "0x0A080000" 29 ops
        "''carol''" "0x0A080002"]
    unfolding p_def ops_def by simp
qed

text \<open>Allocation from any reachable pool: an identity that holds an address is refused, the
  others get the lowest free address, and \<open>ErrPoolExhausted\<close> is the answer exactly when every
  address of the pool is held.\<close>

theorem pool_allocate_lowest:
  assumes "pool_new cidr reserve = Inr p0" and "p = pool_run p0 ops"
  shows "fst (pool_allocate p c) =
    (if byClient p c \<noteq> None then Inl ErrAlreadyAllocated
     else if set (addrs p0) = ran (byClient p) then Inl ErrPoolExhausted
     else Inr (Min (set (addrs p0) - ran (byClient p))))"
proof -
  have inv: "pool_inv p" using assms by (auto intro: keeps)
  have addrs: "addrs p = addrs p0" using assms(2) by simp
  from inv have free: "free p = set (addrs p0) - ran (byClient p)"
    by (auto simp: pool_inv_def addrs)
  from inv have sub: "ran (byClient p) \<subseteq> set (addrs p0)" and srt: "sorted (addrs p)"
    by (auto simp: pool_inv_def addrs)
  have "find (\<lambda>a. a \<in> free p) (addrs p)
    = (if free p = {} then None else Some (Min (free p)))"
    using find_lowest [OF srt, of "free p"] free by (simp add: addrs)
  with sub show ?thesis unfolding pool_allocate_def free by auto
qed

theorem pool_allocate_lowest_witness:
  "fst (pool_allocate (pool_run
      \<lparr>addrs = [0x0A080002, 0x0A080003], free = {0x0A080002, 0x0A080003}, byClient = Map.empty\<rparr>
      [Allocate ''alice'', Allocate ''bob'']) ''carol'') = Inl ErrPoolExhausted"
proof -
  define p :: pool where "p = \<lparr>addrs = [0x0A080002, 0x0A080003],
    free = {0x0A080002, 0x0A080003}, byClient = Map.empty\<rparr>"
  define q where "q = pool_run p [Allocate ''alice'', Allocate ''bob'']"
  have new: "pool_new ''10.8.0.0/29''
      [V4 0x0A080001, V4 0x0A080004, V4 0x0A080005, V4 0x0A080006] = Inr p"
    unfolding p_def by (rule sample_pool)
  have q: "byClient q = [''alice'' \<mapsto> 0x0A080002, ''bob'' \<mapsto> 0x0A080003]"
    unfolding q_def p_def by (simp add: pool_allocate_def)
  then have "set (addrs p) = ran (byClient q)" unfolding p_def by (simp add: ran_map_upd insert_commute)
  with pool_allocate_lowest [OF new q_def, of "''carol''"] q
  show ?thesis unfolding q_def p_def by simp
qed

end
