(* ===== verification/Limiter.thy ===== *)
theory Limiter
  imports Netaddr "HOL-Library.Multiset"
begin

text \<open>
  The connection limiter of the server (\<open>src/internal/tunnel/server/limiter.go\<close>). Each operation
  runs under the mutex, so it is a function of the limiter. A slot that is released after a failed
  handshake is kept until a timer fires: \<open>limiter_release\<close> says whether it counts down now or
  leaves a timer behind. \<open>lim_run\<close> adds what surrounds a limiter while a server runs: the release
  functions handed out (each with its \<open>sync.Once\<close>) and the timers that have not fired.
\<close>

record limiter =
  maxPerIP :: int
  maxTotal :: int
  failPenalty :: int
  total :: int
  perIP :: "string \<rightharpoonup> int"

definition new_conn_limiter :: "int \<Rightarrow> int \<Rightarrow> int \<Rightarrow> limiter" where
  "new_conn_limiter per tot pen =
     \<lparr>maxPerIP = per, maxTotal = tot, failPenalty = pen, total = 0, perIP = Map.empty\<rparr>"

text \<open>The source address of a connection: the host of \<open>host:port\<close>, or the address as it is.\<close>

definition host :: "string option \<Rightarrow> string" where
  "host addr =
     (case addr of
        None \<Rightarrow> []
      | Some a \<Rightarrow> (case split_host_port a of Some (h, p) \<Rightarrow> h | None \<Rightarrow> a))"

text \<open>Reading a Go map: an absent key counts as 0.\<close>

definition per_ip :: "limiter \<Rightarrow> string \<Rightarrow> int" where
  "per_ip l ip = (case perIP l ip of None \<Rightarrow> 0 | Some n \<Rightarrow> n)"

definition limiter_acquire :: "limiter \<Rightarrow> string \<Rightarrow> limiter option" where
  "limiter_acquire l ip =
     (if maxTotal l > 0 \<and> total l \<ge> maxTotal l then None
      else if maxPerIP l > 0 \<and> per_ip l ip \<ge> maxPerIP l then None
      else Some (l\<lparr>total := total l + 1, perIP := (perIP l)(ip \<mapsto> per_ip l ip + 1)\<rparr>))"

definition limiter_dec :: "limiter \<Rightarrow> string \<Rightarrow> limiter" where
  "limiter_dec l ip =
     (let n = per_ip l ip - 1
      in l\<lparr>total := total l - 1,
           perIP := (if n \<le> 0 then (perIP l)(ip := None) else (perIP l)(ip \<mapsto> n))\<rparr>)"

definition throttle_active :: "limiter \<Rightarrow> bool" where
  "throttle_active l \<longleftrightarrow> maxPerIP l > 0 \<and> maxTotal l > 0 \<and> failPenalty l > 0"

text \<open>The new limiter, and whether a timer was started that will count down later.\<close>

definition limiter_release :: "limiter \<Rightarrow> string \<Rightarrow> bool \<Rightarrow> limiter \<times> bool" where
  "limiter_release l ip penalize =
     (if penalize \<and> throttle_active l then (l, True) else (limiter_dec l ip, False))"

section \<open>A running limiter\<close>

text \<open>\<open>slots\<close> lists the release functions returned so far: the address, and whether the function
  has been called (the \<open>sync.Once\<close>).\<close>

record lim_run =
  lim :: limiter
  slots :: "(string \<times> bool) list"
  timers :: "string multiset"

definition lim_start :: "int \<Rightarrow> int \<Rightarrow> int \<Rightarrow> lim_run" where
  "lim_start per tot pen = \<lparr>lim = new_conn_limiter per tot pen, slots = [], timers = {#}\<rparr>"

datatype lim_op = Acquire string | ReleaseSlot nat bool | TimerFires string

fun lim_step :: "lim_run \<Rightarrow> lim_op \<Rightarrow> lim_run" where
  "lim_step r (Acquire ip) =
     (case limiter_acquire (lim r) ip of
        None \<Rightarrow> r
      | Some l \<Rightarrow> r\<lparr>lim := l, slots := slots r @ [(ip, False)]\<rparr>)"
| "lim_step r (ReleaseSlot k penalize) =
     (if k < length (slots r) \<and> \<not> snd (slots r ! k)
      then (let ip = fst (slots r ! k)
            in case limiter_release (lim r) ip penalize of
                 (l, delayed) \<Rightarrow>
                   r\<lparr>lim := l, slots := (slots r)[k := (ip, True)],
                     timers := (if delayed then add_mset ip (timers r) else timers r)\<rparr>)
      else r)"
| "lim_step r (TimerFires ip) =
     (if ip \<in># timers r
      then r\<lparr>lim := limiter_dec (lim r) ip, timers := timers r - {#ip#}\<rparr>
      else r)"

fun lim_steps :: "lim_run \<Rightarrow> lim_op list \<Rightarrow> lim_run" where
  "lim_steps r [] = r"
| "lim_steps r (x # xs) = lim_steps (lim_step r x) xs"

text \<open>The addresses of the slots in use: the release functions not yet called, and the timers.\<close>

definition held_slots :: "(string \<times> bool) list \<Rightarrow> string multiset" where
  "held_slots sl = mset (map fst (filter (\<lambda>s. \<not> snd s) sl))"

definition in_flight :: "lim_run \<Rightarrow> string multiset" where
  "in_flight r = held_slots (slots r) + timers r"

section \<open>The invariant\<close>

text \<open>The two counters count the slots in use, and stay within the two limits.\<close>

definition counts :: "limiter \<Rightarrow> string multiset \<Rightarrow> bool" where
  "counts l M \<longleftrightarrow>
     total l = int (size M)
     \<and> perIP l = (\<lambda>ip. if ip \<in># M then Some (int (count M ip)) else None)"

definition within_limits :: "limiter \<Rightarrow> string multiset \<Rightarrow> bool" where
  "within_limits l M \<longleftrightarrow>
     (maxTotal l > 0 \<longrightarrow> int (size M) \<le> maxTotal l)
     \<and> (maxPerIP l > 0 \<longrightarrow> (\<forall>ip. int (count M ip) \<le> maxPerIP l))"

definition lim_inv :: "lim_run \<Rightarrow> bool" where
  "lim_inv r \<longleftrightarrow> counts (lim r) (in_flight r) \<and> within_limits (lim r) (in_flight r)"

lemma counts_per_ip: "counts l M \<Longrightarrow> per_ip l ip = int (count M ip)"
  by (simp add: counts_def per_ip_def not_in_iff)

lemma acquire_counts:
  assumes "counts l M" and "within_limits l M" and "limiter_acquire l ip = Some l'"
  shows "counts l' (add_mset ip M) \<and> within_limits l' (add_mset ip M)"
proof -
  note c = counts_per_ip [OF assms(1)]
  from assms(3) have l': "l' = l\<lparr>total := total l + 1, perIP := (perIP l)(ip \<mapsto> per_ip l ip + 1)\<rparr>"
    and lim: "\<not> (maxTotal l > 0 \<and> total l \<ge> maxTotal l)"
      "\<not> (maxPerIP l > 0 \<and> per_ip l ip \<ge> maxPerIP l)"
    by (auto simp: limiter_acquire_def split: if_splits)
  have "counts l' (add_mset ip M)"
    using assms(1) c unfolding l' counts_def by auto
  moreover have "within_limits l' (add_mset ip M)"
    using assms(1,2) lim c unfolding l' within_limits_def counts_def by auto
  ultimately show ?thesis by blast
qed

lemma limiter_dec_limits [simp]:
  "maxTotal (limiter_dec l ip) = maxTotal l" "maxPerIP (limiter_dec l ip) = maxPerIP l"
  "failPenalty (limiter_dec l ip) = failPenalty l"
  by (simp_all add: limiter_dec_def Let_def)

lemma within_limits_remove:
  assumes "within_limits l (add_mset ip N)"
  shows "within_limits l N"
  unfolding within_limits_def
proof (intro conjI impI allI)
  assume "maxTotal l > 0"
  with assms show "int (size N) \<le> maxTotal l" by (simp add: within_limits_def)
next
  fix x
  assume "maxPerIP l > 0"
  with assms have "int (count (add_mset ip N) x) \<le> maxPerIP l" by (simp add: within_limits_def)
  then show "int (count N x) \<le> maxPerIP l" by (simp split: if_splits)
qed

lemma within_limits_cong:
  "maxTotal l' = maxTotal l \<Longrightarrow> maxPerIP l' = maxPerIP l \<Longrightarrow> within_limits l' M = within_limits l M"
  by (simp add: within_limits_def)

lemma dec_counts:
  assumes "counts l M" and "within_limits l M" and "ip \<in># M"
  shows "counts (limiter_dec l ip) (M - {#ip#}) \<and> within_limits (limiter_dec l ip) (M - {#ip#})"
proof -
  note c = counts_per_ip [OF assms(1)]
  from assms(3) obtain N where M: "M = add_mset ip N" by (metis insert_DiffM)
  have "perIP (limiter_dec l ip) x = (if x \<in># N then Some (int (count N x)) else None)" for x
    using assms(1) c [of ip] unfolding M counts_def limiter_dec_def Let_def
    by (simp add: not_in_iff)
  moreover have "total (limiter_dec l ip) = int (size N)"
    using assms(1) unfolding M counts_def limiter_dec_def Let_def by simp
  ultimately have "counts (limiter_dec l ip) N" unfolding counts_def by blast
  moreover have "within_limits (limiter_dec l ip) N"
    using within_limits_remove [of l ip N] assms(2) within_limits_cong [of "limiter_dec l ip" l]
    by (simp add: M)
  ultimately show ?thesis by (simp add: M)
qed

lemma held_slots_append [simp]: "held_slots (sl @ [(ip, False)]) = add_mset ip (held_slots sl)"
  by (simp add: held_slots_def)

lemma held_slots_release:
  "k < length sl \<Longrightarrow> sl ! k = (ip, False) \<Longrightarrow>
   held_slots sl = add_mset ip (held_slots (sl[k := (ip, True)]))"
proof (induction sl arbitrary: k)
  case (Cons s sl)
  then show ?case by (cases k) (auto simp: held_slots_def)
qed simp

lemma lim_step_inv [keeps]:
  assumes "lim_inv r"
  shows "lim_inv (lim_step r x)"
proof -
  from assms have c: "counts (lim r) (in_flight r)" and w: "within_limits (lim r) (in_flight r)"
    by (auto simp: lim_inv_def)
  show ?thesis
  proof (cases x)
    case (Acquire ip)
    show ?thesis
    proof (cases "limiter_acquire (lim r) ip")
      case None
      with assms Acquire show ?thesis by simp
    next
      case (Some l)
      with acquire_counts [OF c w Some] Acquire show ?thesis
        by (simp add: lim_inv_def in_flight_def)
    qed
  next
    case (ReleaseSlot k pen)
    show ?thesis
    proof (cases "k < length (slots r) \<and> \<not> snd (slots r ! k)")
      case False
      with assms ReleaseSlot show ?thesis by (simp only: lim_step.simps if_False)
    next
      case True
      then obtain ip where ip: "slots r ! k = (ip, False)" by (cases "slots r ! k") auto
      have fl: "in_flight r = add_mset ip (held_slots ((slots r)[k := (ip, True)]) + timers r)"
        using held_slots_release [OF _ ip] True by (simp add: in_flight_def)
      then have "ip \<in># in_flight r" by simp
      from dec_counts [OF c w this, unfolded fl] c [unfolded fl] w [unfolded fl] show ?thesis
        using True ip ReleaseSlot by (simp add: lim_inv_def limiter_release_def in_flight_def)
    qed
  next
    case (TimerFires ip)
    show ?thesis
    proof (cases "ip \<in># timers r")
      case False
      with assms TimerFires show ?thesis by simp
    next
      case True
      then obtain N where N: "timers r = add_mset ip N" by (metis insert_DiffM)
      then have "ip \<in># in_flight r" by (simp add: in_flight_def)
      from dec_counts [OF c w this] show ?thesis
        using True TimerFires N by (simp add: lim_inv_def in_flight_def)
    qed
  qed
qed

lemma lim_steps_inv [keeps]: "lim_inv r \<Longrightarrow> lim_inv (lim_steps r xs)"
  by (induction xs arbitrary: r) (auto intro: keeps)

lemma lim_start_inv [keeps]: "lim_inv (lim_start per tot pen)"
  by (simp add: lim_inv_def lim_start_def new_conn_limiter_def counts_def within_limits_def
      in_flight_def held_slots_def)

lemma limiter_acquire_limits:
  "limiter_acquire l ip = Some l' \<Longrightarrow>
   maxTotal l' = maxTotal l \<and> maxPerIP l' = maxPerIP l \<and> failPenalty l' = failPenalty l"
  by (auto simp: limiter_acquire_def split: if_splits)

lemma lim_step_limits:
  "maxTotal (lim (lim_step r x)) = maxTotal (lim r) \<and> maxPerIP (lim (lim_step r x)) = maxPerIP (lim r)
   \<and> failPenalty (lim (lim_step r x)) = failPenalty (lim r)"
  by (cases x)
    (auto simp: limiter_release_def Let_def dest: limiter_acquire_limits split: option.splits)

lemma lim_steps_limits [simp]:
  "maxTotal (lim (lim_steps r xs)) = maxTotal (lim r)"
  "maxPerIP (lim (lim_steps r xs)) = maxPerIP (lim r)"
  "failPenalty (lim (lim_steps r xs)) = failPenalty (lim r)"
  by (induction xs arbitrary: r) (simp_all add: lim_step_limits)

lemma lim_start_limits [simp]:
  "maxTotal (lim (lim_start per tot pen)) = tot" "maxPerIP (lim (lim_start per tot pen)) = per"
  "failPenalty (lim (lim_start per tot pen)) = pen"
  by (simp_all add: lim_start_def new_conn_limiter_def)

section \<open>Properties\<close>

lemma card_set_mset_le_size: "card (set_mset M) \<le> size M"
  by (induction M) (auto simp: card_insert_if)

text \<open>(C34) The caps hold at every moment of a server's life: whatever connections are admitted,
  released (with or without the penalty, and any number of times) and timed out, the number of slots
  in use never exceeds the global cap, no address exceeds its own cap, and the table of addresses
  never has more entries than the global cap, so it cannot grow with the attackers' addresses.\<close>

theorem limiter_bounds:
  assumes "0 < tot" and "0 < per"
  shows "int (size (in_flight (lim_steps (lim_start per tot pen) ops))) \<le> tot
    \<and> int (count (in_flight (lim_steps (lim_start per tot pen) ops)) ip) \<le> per
    \<and> int (card (dom (perIP (lim (lim_steps (lim_start per tot pen) ops))))) \<le> tot"
proof -
  define r where "r = lim_steps (lim_start per tot pen) ops"
  have inv: "lim_inv r" unfolding r_def by (auto intro: keeps)
  have limits: "maxTotal (lim r) = tot" "maxPerIP (lim r) = per" unfolding r_def by simp_all
  from inv limits assms have w: "int (size (in_flight r)) \<le> tot" "int (count (in_flight r) ip) \<le> per"
    by (auto simp: lim_inv_def within_limits_def)
  from inv have "dom (perIP (lim r)) = set_mset (in_flight r)"
    by (auto simp: lim_inv_def counts_def dom_def)
  then have "card (dom (perIP (lim r))) \<le> size (in_flight r)"
    by (simp add: card_set_mset_le_size)
  with w show ?thesis unfolding r_def [symmetric] by linarith
qed

theorem limiter_bounds_witness:
  "int (size (in_flight (lim_steps (lim_start 1 2 5)
      [Acquire ''a'', Acquire ''a'', ReleaseSlot 0 True, Acquire ''b'', Acquire ''c'']))) \<le> 2"
  using limiter_bounds [of 2 1 5 "[Acquire ''a'', Acquire ''a'', ReleaseSlot 0 True, Acquire ''b'',
    Acquire ''c'']"] by simp

text \<open>Who is admitted: a connection gets a slot exactly when fewer slots than the global cap and
  fewer slots of its address than the address cap are in use, a cap of 0 or less being no cap. The
  slots in use include those of failed handshakes whose penalty has not passed, which is what
  throttles fast retries.\<close>

theorem limiter_admits:
  "(\<exists>l. limiter_acquire (lim (lim_steps (lim_start per tot pen) ops)) ip = Some l) =
    ((tot \<le> 0 \<or> int (size (in_flight (lim_steps (lim_start per tot pen) ops))) < tot)
     \<and> (per \<le> 0 \<or> int (count (in_flight (lim_steps (lim_start per tot pen) ops)) ip) < per))"
proof -
  have "lim_inv (lim_steps (lim_start per tot pen) ops)" by (auto intro: keeps)
  then have c: "counts (lim (lim_steps (lim_start per tot pen) ops))
      (in_flight (lim_steps (lim_start per tot pen) ops))"
    by (simp add: lim_inv_def)
  show ?thesis
    unfolding limiter_acquire_def counts_per_ip [OF c] using c by (auto simp: counts_def)
qed

text \<open>No slot is lost: once every connection has released its slot and the timers have fired,
  the limiter is the one the server started with.\<close>

theorem limiter_no_leak:
  assumes "\<forall>s \<in> set (slots (lim_steps (lim_start per tot pen) ops)). snd s"
    and "timers (lim_steps (lim_start per tot pen) ops) = {#}"
  shows "lim (lim_steps (lim_start per tot pen) ops) = new_conn_limiter per tot pen"
proof -
  define r where "r = lim_steps (lim_start per tot pen) ops"
  have "lim_inv r" unfolding r_def by (auto intro: keeps)
  moreover have "in_flight r = {#}"
    using assms unfolding r_def [symmetric] by (simp add: in_flight_def held_slots_def filter_False)
  ultimately have "total (lim r) = 0" and "perIP (lim r) = Map.empty"
    by (auto simp: lim_inv_def counts_def)
  moreover have "maxTotal (lim r) = tot" "maxPerIP (lim r) = per" "failPenalty (lim r) = pen"
    unfolding r_def by simp_all
  ultimately show ?thesis unfolding r_def [symmetric] new_conn_limiter_def by simp
qed

theorem limiter_no_leak_witness:
  "lim (lim_steps (lim_start 2 4 5)
      [Acquire ''a'', ReleaseSlot 0 True, Acquire ''b'', ReleaseSlot 1 False, TimerFires ''a''])
   = new_conn_limiter 2 4 5"
  by (rule limiter_no_leak)
    (simp_all add: lim_start_def new_conn_limiter_def limiter_acquire_def limiter_release_def
      per_ip_def throttle_active_def Let_def)

end
