(* ===== verification/Session.thy ===== *)
theory Session
  imports Ipalloc Protocol
begin

text \<open>
  Sessions and the registry of the server (\<open>src/internal/tunnel/server/session.go\<close>). A Go pointer to
  a session is its number \<open>s_id\<close> together with the fields that never change; the queue of outbound
  packets, which does change, is kept outside. The locale \<open>session_index\<close> is what the admission path
  and the packet router rely on.
\<close>

record session =
  s_id :: nat
  s_cn :: string
  s_ip :: ipv4

definition session_write_buffer_depth :: nat where
  "session_write_buffer_depth = 64"

text \<open>A send on the buffered channel that does not block.\<close>

definition enqueue :: "bytes list \<Rightarrow> bytes \<Rightarrow> bool \<times> bytes list" where
  "enqueue q pkt = (if length q < session_write_buffer_depth then (True, q @ [pkt]) else (False, q))"

record registry =
  byCN :: "string \<rightharpoonup> session"
  byIPv4 :: "ipv4 \<rightharpoonup> session"

definition new_registry :: registry where
  "new_registry = \<lparr>byCN = Map.empty, byIPv4 = Map.empty\<rparr>"

definition registry_add :: "registry \<Rightarrow> session \<Rightarrow> registry" where
  "registry_add r s =
     r\<lparr>byCN := (byCN r)(s_cn s \<mapsto> s), byIPv4 := (byIPv4 r)(s_ip s \<mapsto> s)\<rparr>"

definition registry_remove :: "registry \<Rightarrow> session \<Rightarrow> registry" where
  "registry_remove r s =
     (case byCN r (s_cn s) of
        None \<Rightarrow> r
      | Some current \<Rightarrow>
          (if current = s
           then r\<lparr>byCN := (byCN r)(s_cn s := None), byIPv4 := (byIPv4 r)(s_ip s := None)\<rparr>
           else r))"

definition registry_by_cn :: "registry \<Rightarrow> string \<Rightarrow> session option" where
  "registry_by_cn r cn = byCN r cn"

definition registry_by_ipv4 :: "registry \<Rightarrow> ip \<Rightarrow> session option" where
  "registry_by_ipv4 r a = (case ip_to4 a of None \<Rightarrow> None | Some u \<Rightarrow> byIPv4 r u)"

definition registry_snapshot :: "registry \<Rightarrow> session set" where
  "registry_snapshot r = ran (byCN r)"

section \<open>The invariant\<close>

lemma Some_unique: "x = Some a \<Longrightarrow> x = Some b \<Longrightarrow> a = b"
  by simp

text \<open>The two indexes hold the same sessions, each under its own name and its own address.\<close>

definition reg_inv :: "registry \<Rightarrow> bool" where
  "reg_inv r \<longleftrightarrow>
     (\<forall>c s. byCN r c = Some s \<longrightarrow> s_cn s = c \<and> byIPv4 r (s_ip s) = Some s)
     \<and> (\<forall>a s. byIPv4 r a = Some s \<longrightarrow> s_ip s = a \<and> byCN r (s_cn s) = Some s)"

lemma reg_invI:
  "(\<And>c s. byCN r c = Some s \<Longrightarrow> s_cn s = c \<and> byIPv4 r (s_ip s) = Some s) \<Longrightarrow>
   (\<And>a s. byIPv4 r a = Some s \<Longrightarrow> s_ip s = a \<and> byCN r (s_cn s) = Some s) \<Longrightarrow> reg_inv r"
  by (simp add: reg_inv_def)

lemma reg_cnD: "reg_inv r \<Longrightarrow> byCN r c = Some s \<Longrightarrow> s_cn s = c \<and> byIPv4 r (s_ip s) = Some s"
  by (simp add: reg_inv_def)

lemma reg_ipD: "reg_inv r \<Longrightarrow> byIPv4 r a = Some s \<Longrightarrow> s_ip s = a \<and> byCN r (s_cn s) = Some s"
  by (simp add: reg_inv_def)

lemma reg_inv_new [keeps]: "reg_inv new_registry"
  by (simp add: reg_inv_def new_registry_def)

lemma reg_inv_add [keeps]:
  assumes "reg_inv r" and "byCN r (s_cn s) = None" and "byIPv4 r (s_ip s) = None"
  shows "reg_inv (registry_add r s)"
proof (rule reg_invI)
  fix c t assume t: "byCN (registry_add r s) c = Some t"
  show "s_cn t = c \<and> byIPv4 (registry_add r s) (s_ip t) = Some t"
  proof (cases "c = s_cn s")
    case False
    with t have "byCN r c = Some t" by (simp add: registry_add_def)
    with assms reg_cnD [OF assms(1) this] show ?thesis
      by (cases "s_ip t = s_ip s") (simp_all add: registry_add_def)
  qed (use t in \<open>simp add: registry_add_def\<close>)
next
  fix a t assume t: "byIPv4 (registry_add r s) a = Some t"
  show "s_ip t = a \<and> byCN (registry_add r s) (s_cn t) = Some t"
  proof (cases "a = s_ip s")
    case False
    with t have "byIPv4 r a = Some t" by (simp add: registry_add_def)
    with assms reg_ipD [OF assms(1) this] show ?thesis
      by (cases "s_cn t = s_cn s") (simp_all add: registry_add_def)
  qed (use t in \<open>simp add: registry_add_def\<close>)
qed

lemma registry_remove_cases:
  "registry_remove r s =
   (if byCN r (s_cn s) = Some s
    then r\<lparr>byCN := (byCN r)(s_cn s := None), byIPv4 := (byIPv4 r)(s_ip s := None)\<rparr> else r)"
  by (simp add: registry_remove_def split: option.split)

lemma reg_inv_remove [keeps]:
  assumes "reg_inv r"
  shows "reg_inv (registry_remove r s)"
proof (cases "byCN r (s_cn s) = Some s")
  case False
  with assms show ?thesis by (simp add: registry_remove_cases)
next
  case True
  then have r': "registry_remove r s =
      r\<lparr>byCN := (byCN r)(s_cn s := None), byIPv4 := (byIPv4 r)(s_ip s := None)\<rparr>"
    by (simp add: registry_remove_cases)
  from reg_cnD [OF assms True] have ip: "byIPv4 r (s_ip s) = Some s" by simp
  show ?thesis
  proof (rule reg_invI)
    fix c t assume "byCN (registry_remove r s) c = Some t"
    then have c: "c \<noteq> s_cn s" and t: "byCN r c = Some t" by (auto simp: r' split: if_splits)
    from reg_cnD [OF assms t] c ip show "s_cn t = c \<and> byIPv4 (registry_remove r s) (s_ip t) = Some t"
      by (auto simp: r')
  next
    fix a t assume "byIPv4 (registry_remove r s) a = Some t"
    then have a: "a \<noteq> s_ip s" and t: "byIPv4 r a = Some t" by (auto simp: r' split: if_splits)
    from reg_ipD [OF assms t] a True show "s_ip t = a \<and> byCN (registry_remove r s) (s_cn t) = Some t"
      by (auto simp: r')
  qed
qed

section \<open>The contract of an index of sessions\<close>

locale session_index =
  fixes add :: "'r \<Rightarrow> session \<Rightarrow> 'r"
    and remove :: "'r \<Rightarrow> session \<Rightarrow> 'r"
    and by_cn :: "'r \<Rightarrow> string \<rightharpoonup> session"
    and by_ip :: "'r \<Rightarrow> ipv4 \<rightharpoonup> session"
    and inv :: "'r \<Rightarrow> bool"
  assumes cn_add: "by_cn (add r s) = (by_cn r)(s_cn s \<mapsto> s)"
    and inv_add: "inv r \<Longrightarrow> by_cn r (s_cn s) = None \<Longrightarrow> by_ip r (s_ip s) = None \<Longrightarrow> inv (add r s)"
    and cn_remove: "by_cn (remove r s) =
      (if by_cn r (s_cn s) = Some s then (by_cn r)(s_cn s := None) else by_cn r)"
    and inv_remove: "inv r \<Longrightarrow> inv (remove r s)"
    and indexes: "inv r \<Longrightarrow> by_ip r a = Some s \<longleftrightarrow> by_cn r (s_cn s) = Some s \<and> s_ip s = a"
    and cn_named: "inv r \<Longrightarrow> by_cn r c = Some s \<Longrightarrow> s_cn s = c"
begin

text \<open>Two registered sessions with one address, or with one name, are the same session.\<close>

lemma unique:
  assumes "inv r" and "by_cn r c = Some s" and "by_cn r d = Some t" and "s_ip s = s_ip t"
  shows "s = t"
proof -
  from assms(1,2) have "by_ip r (s_ip s) = Some s"
    using indexes [OF assms(1)] cn_named [OF assms(1,2)] by simp
  moreover from assms(1,3) have "by_ip r (s_ip t) = Some t"
    using indexes [OF assms(1)] cn_named [OF assms(1,3)] by simp
  ultimately show ?thesis unfolding assms(4) by (rule Some_unique)
qed

text \<open>A session that has been replaced under its name can no longer remove anything.\<close>

lemma stale_remove: "by_cn r (s_cn s) \<noteq> Some s \<Longrightarrow> by_cn (remove r s) = by_cn r"
  by (simp add: cn_remove)

text \<open>Adding and removing a session leaves the others where they are.\<close>

lemma add_remove: "by_cn r (s_cn s) = None \<Longrightarrow> by_cn (remove (add r s) s) = by_cn r"
  by (simp add: cn_remove cn_add fun_upd_idem)

end

interpretation sreg: session_index registry_add registry_remove byCN byIPv4 reg_inv
proof unfold_locales
  show "byIPv4 r a = Some s \<longleftrightarrow> byCN r (s_cn s) = Some s \<and> s_ip s = a" if "reg_inv r" for r a s
    using reg_cnD [OF that, of "s_cn s" s] reg_ipD [OF that, of a s] by auto
  show "s_cn s = c" if "reg_inv r" "byCN r c = Some s" for r c s
    using reg_cnD [OF that] by simp
  show "byCN (registry_remove r s)
      = (if byCN r (s_cn s) = Some s then (byCN r)(s_cn s := None) else byCN r)" for r s
    by (simp add: registry_remove_cases)
qed (simp_all add: reg_inv_add reg_inv_remove, simp add: registry_add_def)

end
