(* ===== verification/Datapath.thy ===== *)
theory Datapath
  imports Session
begin

text \<open>
  The packet paths of the server (\<open>ipframe.go\<close>, \<open>router.go\<close> and the session goroutines of
  \<open>server.go\<close>, all under \<open>src/internal/tunnel/server/\<close>): the checks on an IPv4 header, the
  reader of the TUN device that fans packets out to sessions, the reader of a client connection with
  its anti-spoofing, isolation and size checks, and the only writer of that connection. What other
  goroutines do in between (the registry changing, a queue being drained) is an argument of the
  loops.
\<close>

section \<open>The IPv4 header\<close>

datatype ipframe_err = ErrShortPacket | ErrPacketNotIPv4 | ErrMalformedIPv4

definition parse_ipv4_src_dst :: "bytes \<Rightarrow> ipframe_err + ipv4 \<times> ipv4" where
  "parse_ipv4_src_dst pkt =
     (if length pkt < 20 then Inl ErrShortPacket
      else if drop_bit 4 (pkt ! 0) \<noteq> 4 then Inl ErrPacketNotIPv4
      else
        (let ihl = unat (pkt ! 0 AND 0x0f) * 4;
             totalLen = push_bit 8 (unat (pkt ! 2)) OR unat (pkt ! 3)
         in if ihl < 20 \<or> ihl > length pkt \<or> totalLen < ihl \<or> totalLen > length pkt
            then Inl ErrMalformedIPv4
            else Inr (ipv4_of_octets (pkt ! 12) (pkt ! 13) (pkt ! 14) (pkt ! 15),
                      ipv4_of_octets (pkt ! 16) (pkt ! 17) (pkt ! 18) (pkt ! 19))))"

text \<open>A packet as a host sends it: \<open>ihl\<close> words of header, the length field, the addresses.\<close>

definition ipv4_packet :: "nat \<Rightarrow> bytes \<Rightarrow> ipv4 \<Rightarrow> ipv4 \<Rightarrow> bytes \<Rightarrow> bytes" where
  "ipv4_packet ihl mid src dst rest =
     [0x40 OR word_of_nat ihl, 0] @ put_uint16 (word_of_nat (20 + length rest)) @ mid
       @ ipv4_octets src @ ipv4_octets dst @ rest"

lemma put_uint16_value:
  "push_bit 8 (unat (put_uint16 v ! 0)) OR unat (put_uint16 v ! 1) = unat v"
proof -
  have "(push_bit 8 (unat (ucast (drop_bit 8 v) :: byte)) OR unat (ucast v :: byte) :: nat) = unat v"
    by (rule bit_eqI) (auto simp: bit_simps unsigned_ucast_eq bit_take_bit_iff
        dest: bit_imp_le_length)
  then show ?thesis by (simp add: put_uint16_def)
qed

section \<open>From the TUN device to the sessions\<close>

type_synonym queues = "nat \<Rightarrow> bytes list"

definition route_packet :: "registry \<Rightarrow> queues \<Rightarrow> bytes \<Rightarrow> queues" where
  "route_packet reg qs pkt =
     (case parse_ipv4_src_dst pkt of
        Inl e \<Rightarrow> qs
      | Inr (src, dst) \<Rightarrow>
          (case registry_by_ipv4 reg (V4 dst) of
             None \<Rightarrow> qs
           | Some sess \<Rightarrow> qs(s_id sess := snd (enqueue (qs (s_id sess)) pkt))))"

text \<open>What the loop meets: the server closing, a read with the registry at that moment, a failed
  read, and, between its turns, a session writer taking a packet.\<close>

datatype tun_event = ServerClosed | TunRead bytes registry | TunReadFails io_err | WriterTakes nat

fun run_tun_reader :: "queues \<Rightarrow> tun_event list \<Rightarrow> queues" where
  "run_tun_reader qs [] = qs"
| "run_tun_reader qs (ServerClosed # es) = qs"
| "run_tun_reader qs (TunReadFails e # es) = qs"
| "run_tun_reader qs (TunRead bs reg # es) =
     run_tun_reader (if bs = [] then qs else route_packet reg qs bs) es"
| "run_tun_reader qs (WriterTakes i # es) = run_tun_reader (qs(i := tl (qs i))) es"

section \<open>From a client connection to the TUN device\<close>

definition outdated_text :: "int \<Rightarrow> string" where
  "outdated_text v =
     ''client protocol version '' @ int_str v @ '' is too old; please update the app''"

text \<open>\<open>None\<close>: the session goes on; otherwise the message the writer has to send before it ends.\<close>

definition admit_hello :: "control_message \<Rightarrow> control_message option" where
  "admit_hello msg =
     (case parse_hello msg of
        Inl e \<Rightarrow> None
      | Inr h \<Rightarrow>
          (if \<not> peer_compatible (he_version h)
           then Some (new_error ''outdated_client'' (outdated_text (he_version h)))
           else None))"

datatype reader_verdict = GoOn | ToTun bytes | Rejected control_message

definition session_frame :: "int \<Rightarrow> session \<Rightarrow> registry \<Rightarrow> frame_type \<Rightarrow> bytes \<Rightarrow> reader_verdict" where
  "session_frame mtu sess reg ty body =
     (case ty of
        FrameControl \<Rightarrow>
          (case decode_control body of
             Inl e \<Rightarrow> GoOn
           | Inr msg \<Rightarrow>
               (if cm_type msg = ctrl_keepalive then GoOn
                else if cm_type msg = ctrl_hello
                then (case admit_hello msg of None \<Rightarrow> GoOn | Some em \<Rightarrow> Rejected em)
                else GoOn))
      | FrameData \<Rightarrow>
          (case parse_ipv4_src_dst body of
             Inl e \<Rightarrow> GoOn
           | Inr (src, dst) \<Rightarrow>
               (if src \<noteq> s_ip sess then GoOn
                else
                  (case registry_by_ipv4 reg (V4 dst) of
                     Some other \<Rightarrow>
                       (if other \<noteq> sess then GoOn
                        else if int (length body) > mtu then GoOn else ToTun body)
                   | None \<Rightarrow> (if int (length body) > mtu then GoOn else ToTun body)))))"

lemma read_full_length: "read_full n r = (x, r') \<Longrightarrow> length (rd_data r') \<le> length (rd_data r)"
  by (auto simp: read_full_def split: if_splits)

lemma read_frame_length:
  "read_frame r = (Inr bs, r') \<Longrightarrow> length (rd_data r') < length (rd_data r)"
  by (auto simp: read_frame_def read_full_def Let_def split: if_splits sum.splits prod.splits)

lemma read_packet_length:
  "read_packet r = (Inr p, r') \<Longrightarrow> length (rd_data r') < length (rd_data r)"
  by (auto simp: read_packet_def dest: read_frame_length
      split: if_splits sum.splits prod.splits list.splits)

datatype reader_end = ReadFailed proto_err | SessionRejected control_message | TunWriteFailed

text \<open>The loop: \<open>regs n\<close> is the registry when frame \<open>n\<close> is handled, \<open>tunw n\<close> whether the write of
  that frame to the device succeeds. The packets written come out with the number of their frame.\<close>

function session_reader ::
    "int \<Rightarrow> session \<Rightarrow> (nat \<Rightarrow> registry) \<Rightarrow> (nat \<Rightarrow> bool) \<Rightarrow> nat \<Rightarrow> reader
     \<Rightarrow> (nat \<times> bytes) list \<times> reader_end" where
  "session_reader mtu sess regs tunw n r =
     (case read_packet r of
        (Inl e, r') \<Rightarrow> ([], ReadFailed e)
      | (Inr (ty, body), r') \<Rightarrow>
          (case session_frame mtu sess (regs n) ty body of
             GoOn \<Rightarrow> session_reader mtu sess regs tunw (Suc n) r'
           | Rejected em \<Rightarrow> ([], SessionRejected em)
           | ToTun pkt \<Rightarrow>
               (if tunw n
                then (case session_reader mtu sess regs tunw (Suc n) r' of
                        (ps, e) \<Rightarrow> ((n, pkt) # ps, e))
                else ([], TunWriteFailed))))"
  by pat_completeness auto
termination
  by (relation "measure (\<lambda>(mtu, sess, regs, tunw, n, r). length (rd_data r))")
    (auto dest!: read_packet_length [OF sym])

declare session_reader.simps [simp del]

section \<open>The only writer of a connection\<close>

text \<open>The cases of the \<open>select\<close>, in the order in which they become ready.\<close>

datatype writer_event = SessionClosed | RejectWith control_message | Tick | Outbound bytes

text \<open>The writer's state afterwards, and whether it closed the session itself. A ticker only exists
  when the keepalive is on.\<close>

fun session_writer :: "int \<Rightarrow> 'w writer \<Rightarrow> 'w \<Rightarrow> writer_event list \<Rightarrow> 'w \<times> bool" where
  "session_writer ka wr w [] = (w, False)"
| "session_writer ka wr w (SessionClosed # es) = (w, False)"
| "session_writer ka wr w (RejectWith msg # es) = (snd (write_control wr w msg), True)"
| "session_writer ka wr w (Tick # es) =
     (if ka > 0
      then (case write_control wr w new_keepalive of
              (Some e, w1) \<Rightarrow> (w1, True)
            | (None, w1) \<Rightarrow> session_writer ka wr w1 es)
      else session_writer ka wr w es)"
| "session_writer ka wr w (Outbound pkt # es) =
     (case write_data wr w pkt of
        (Some e, w1) \<Rightarrow> (w1, True)
      | (None, w1) \<Rightarrow> session_writer ka wr w1 es)"

section \<open>Properties\<close>

lemma ipv4_octets_length [simp]: "length (ipv4_octets u) = 4"
  by (simp add: ipv4_octets_def)

lemma first_octet:
  assumes "n < 16"
  shows "drop_bit 4 (0x40 OR word_of_nat n :: byte) = 4"
    and "unat ((0x40 OR word_of_nat n) AND 0x0f :: byte) = n"
proof -
  from assms have "n \<in> set [0..<16]" by simp
  then have "drop_bit 4 (0x40 OR word_of_nat n :: byte) = 4
    \<and> unat ((0x40 OR word_of_nat n) AND 0x0f :: byte) = n"
    by (simp add: upt_rec) (elim disjE; simp)
  then show "drop_bit 4 (0x40 OR word_of_nat n :: byte) = 4"
    and "unat ((0x40 OR word_of_nat n) AND 0x0f :: byte) = n" by simp_all
qed

text \<open>Headers are read where they are: a packet with \<open>ihl\<close> words of header, whose length field
  says how long header and payload are, gives its source and destination address, whatever options
  it carries and whatever padding follows it.\<close>

theorem ipv4_header_roundtrip:
  assumes "5 \<le> ihl" and "ihl \<le> 15" and "length mid = 8"
    and "4 * ihl \<le> 20 + length rest" and "20 + length rest < 65536"
  shows "parse_ipv4_src_dst (ipv4_packet ihl mid src dst rest @ padding) = Inr (src, dst)"
proof -
  obtain m0 m1 m2 m3 m4 m5 m6 m7 where mid: "mid = [m0, m1, m2, m3, m4, m5, m6, m7]"
    using assms(3) by (auto simp: length_Suc_conv eval_nat_numeral)
  define len :: "16 word" where "len = word_of_nat (20 + length rest)"
  from assms(5) have len: "unat len = 20 + length rest" unfolding len_def unat_of_nat by simp
  define pkt where "pkt = ipv4_packet ihl mid src dst rest @ padding"
  have pkt: "pkt = [0x40 OR word_of_nat ihl, 0, put_uint16 len ! 0, put_uint16 len ! 1,
      m0, m1, m2, m3, m4, m5, m6, m7,
      ipv4_octets src ! 0, ipv4_octets src ! 1, ipv4_octets src ! 2, ipv4_octets src ! 3,
      ipv4_octets dst ! 0, ipv4_octets dst ! 1, ipv4_octets dst ! 2, ipv4_octets dst ! 3]
      @ rest @ padding"
    unfolding pkt_def ipv4_packet_def mid len_def by (simp add: put_uint16_def ipv4_octets_def)
  have n: "pkt ! 0 = 0x40 OR word_of_nat ihl" "pkt ! 2 = put_uint16 len ! 0"
    "pkt ! 3 = put_uint16 len ! 1" "length pkt = 20 + length rest + length padding"
    "pkt ! 12 = ipv4_octets src ! 0" "pkt ! 13 = ipv4_octets src ! 1"
    "pkt ! 14 = ipv4_octets src ! 2" "pkt ! 15 = ipv4_octets src ! 3"
    "pkt ! 16 = ipv4_octets dst ! 0" "pkt ! 17 = ipv4_octets dst ! 1"
    "pkt ! 18 = ipv4_octets dst ! 2" "pkt ! 19 = ipv4_octets dst ! 3"
    unfolding pkt by simp_all
  have ihl: "ihl < 16" using assms(2) by simp
  show ?thesis
    unfolding pkt_def [symmetric] parse_ipv4_src_dst_def Let_def n put_uint16_value len
      first_octet [OF ihl] ipv4_octets_nth
    using assms by simp
qed

theorem ipv4_header_roundtrip_witness:
  "parse_ipv4_src_dst (ipv4_packet 5 [0, 0, 0, 0, 64, 17, 0, 0] 0x0A080002 0x08080808 [1, 2] @ [0])
    = Inr (0x0A080002, 0x08080808)"
  by (rule ipv4_header_roundtrip) simp_all

text \<open>What the TUN reader may put into the queue of session \<open>i\<close>: packets for the address that a
  registry, at the time of the read, gives to that session.\<close>

definition routed_to :: "registry set \<Rightarrow> nat \<Rightarrow> bytes \<Rightarrow> bool" where
  "routed_to regs i pkt \<longleftrightarrow>
     (\<exists>reg \<in> regs. \<exists>src dst sess. parse_ipv4_src_dst pkt = Inr (src, dst)
        \<and> byIPv4 reg dst = Some sess \<and> s_id sess = i)"

definition queues_ok :: "registry set \<Rightarrow> queues \<Rightarrow> bool" where
  "queues_ok regs qs \<longleftrightarrow>
     (\<forall>i. length (qs i) \<le> session_write_buffer_depth \<and> (\<forall>pkt \<in> set (qs i). routed_to regs i pkt))"

lemma queues_ok_route:
  assumes "queues_ok regs qs" and "reg \<in> regs"
  shows "queues_ok regs (route_packet reg qs pkt)"
proof (cases "parse_ipv4_src_dst pkt")
  case (Inl e)
  with assms(1) show ?thesis by (simp add: route_packet_def)
next
  case (Inr sd)
  then obtain src dst where p: "parse_ipv4_src_dst pkt = Inr (src, dst)" by (cases sd) auto
  show ?thesis
  proof (cases "byIPv4 reg dst")
    case None
    with p assms(1) show ?thesis by (simp add: route_packet_def registry_by_ipv4_def)
  next
    case (Some sess)
    then have "routed_to regs (s_id sess) pkt" using p assms(2) by (auto simp: routed_to_def)
    then show ?thesis
      using assms(1) p Some
      by (auto simp: route_packet_def registry_by_ipv4_def queues_ok_def enqueue_def)
  qed
qed

lemma in_set_tlD: "x \<in> set (tl xs) \<Longrightarrow> x \<in> set xs"
  by (cases xs) simp_all

lemma queues_ok_takes: "queues_ok regs qs \<Longrightarrow> queues_ok regs (qs(i := tl (qs i)))"
  by (auto simp: queues_ok_def dest: in_set_tlD intro: order.trans [OF diff_le_self])

fun event_registries :: "tun_event list \<Rightarrow> registry set" where
  "event_registries [] = {}"
| "event_registries (TunRead bs reg # es) = insert reg (event_registries es)"
| "event_registries (e # es) = event_registries es"

lemma run_tun_reader_ok:
  "queues_ok regs qs \<Longrightarrow> event_registries es \<subseteq> regs \<Longrightarrow> queues_ok regs (run_tun_reader qs es)"
  by (induction qs es rule: run_tun_reader.induct) (auto simp: queues_ok_route queues_ok_takes)

text \<open>The router: whatever is read from the TUN device, and whatever the registry is at each
  read, a session's queue only ever holds IPv4 packets addressed to the tunnel address registered
  for that session, and never more than its 64 places.\<close>

theorem router_delivers_to_owner:
  "length (run_tun_reader (\<lambda>i. []) es i) \<le> session_write_buffer_depth
   \<and> set (run_tun_reader (\<lambda>i. []) es i) \<subseteq> {pkt. routed_to (event_registries es) i pkt}"
  using run_tun_reader_ok [of "event_registries es" "\<lambda>i. []" es] by (auto simp: queues_ok_def)

lemma session_frame_ToTun:
  "session_frame mtu sess reg ty body = ToTun pkt \<longleftrightarrow>
   ty = FrameData \<and> pkt = body
   \<and> (\<exists>dst. parse_ipv4_src_dst body = Inr (s_ip sess, dst)
        \<and> (byIPv4 reg dst = None \<or> byIPv4 reg dst = Some sess) \<and> int (length body) \<le> mtu)"
  by (cases ty)
    (auto simp: session_frame_def registry_by_ipv4_def split: sum.splits option.splits if_splits)

text \<open>(C3) The trust boundary: every packet the reader of a client connection hands to the TUN device,
  whatever bytes the client sends, is an IPv4 packet with consistent lengths that carries the
  session's own address as its source, is addressed to no other session registered at that moment,
  and is no longer than the MTU.\<close>

theorem client_packets_checked:
  assumes "(k, pkt) \<in> set (fst (session_reader mtu sess regs tunw n r))"
  shows "\<exists>dst. parse_ipv4_src_dst pkt = Inr (s_ip sess, dst)
    \<and> (byIPv4 (regs k) dst = None \<or> byIPv4 (regs k) dst = Some sess)
    \<and> int (length pkt) \<le> mtu"
  using assms
proof (induction mtu sess regs tunw n r rule: session_reader.induct)
  case (1 mtu sess regs tunw n r)
  obtain x r' where rp: "read_packet r = (x, r')" by (cases "read_packet r") auto
  show ?case
  proof (cases x)
    case (Inl e)
    with 1(3) rp show ?thesis by (simp add: session_reader.simps [of _ _ _ _ _ r])
  next
    case (Inr tb)
    then obtain ty body where x: "x = Inr (ty, body)" by (cases tb) auto
    note unf = session_reader.simps [of mtu sess regs tunw n r, unfolded rp x]
    show ?thesis
    proof (cases "session_frame mtu sess (regs n) ty body")
      case GoOn
      with 1(3) have "(k, pkt) \<in> set (fst (session_reader mtu sess regs tunw (Suc n) r'))"
        by (simp add: unf)
      with 1(1) [OF rp [unfolded x, symmetric] refl refl GoOn] show ?thesis by blast
    next
      case (Rejected em)
      with 1(3) show ?thesis by (simp add: unf)
    next
      case (ToTun p)
      with 1(3) have t: "tunw n"
        and "k = n \<and> pkt = p \<or> (k, pkt) \<in> set (fst (session_reader mtu sess regs tunw (Suc n) r'))"
        by (auto simp: unf split: if_splits prod.splits)
      then show ?thesis
      proof (elim disjE conjE)
        assume "k = n" and "pkt = p"
        with ToTun show ?thesis by (simp add: session_frame_ToTun)
      next
        assume "(k, pkt) \<in> set (fst (session_reader mtu sess regs tunw (Suc n) r'))"
        with 1(2) [OF rp [unfolded x, symmetric] refl refl ToTun t] show ?thesis by blast
      qed
    qed
  qed
qed

definition sample_session :: session where
  "sample_session = \<lparr>s_id = 7, s_cn = ''alice'', s_ip = 0x0A080002\<rparr>"

definition sample_packet :: bytes where
  "sample_packet = ipv4_packet 5 [0, 0, 0, 0, 64, 17, 0, 0] 0x0A080002 0x08080808 [1]"

lemma sample_packet_parsed: "parse_ipv4_src_dst sample_packet = Inr (0x0A080002, 0x08080808)"
  by code_simp

theorem client_packets_checked_witness:
  "\<exists>dst. parse_ipv4_src_dst sample_packet = Inr (s_ip sample_session, dst)"
proof -
  obtain bs where bs: "packet_bytes (FrameData, sample_packet) = Some bs"
    by (auto simp: packet_bytes_def frame_bytes_def sample_packet_def ipv4_packet_def
        max_frame_size_def)
  have "session_frame 1380 sample_session new_registry FrameData sample_packet = ToTun sample_packet"
    using sample_packet_parsed
    by (simp add: session_frame_ToTun sample_session_def new_registry_def)
      (simp add: sample_packet_def ipv4_packet_def)
  then have "(0, sample_packet) \<in> set (fst (session_reader 1380 sample_session (\<lambda>n. new_registry)
      (\<lambda>n. True) 0 \<lparr>rd_data = bs, rd_end = EOF\<rparr>))"
    using packets.put_get [OF bs, of "[]" EOF]
    by (subst session_reader.simps) (simp split: prod.split)
  from client_packets_checked [OF this] show ?thesis by blast
qed

text \<open>The frames of a client that sends data packets and control messages other than a hello.\<close>

fun plain_msg :: "wire_msg \<Rightarrow> bool" where
  "plain_msg (WControl m) = (cm_type m \<noteq> ctrl_hello)"
| "plain_msg (WData pkt) = True"

definition allowed :: "int \<Rightarrow> session \<Rightarrow> registry \<Rightarrow> bytes \<Rightarrow> bool" where
  "allowed mtu sess reg pkt \<longleftrightarrow> session_frame mtu sess reg FrameData pkt = ToTun pkt"

fun data_packets :: "wire_msg list \<Rightarrow> bytes list" where
  "data_packets [] = []"
| "data_packets (WData pkt # ms) = pkt # data_packets ms"
| "data_packets (WControl m # ms) = data_packets ms"

lemma session_frame_data:
  "session_frame mtu sess reg FrameData pkt =
   (if allowed mtu sess reg pkt then ToTun pkt else GoOn)"
  unfolding allowed_def session_frame_def
  by (auto split: sum.splits option.splits)

lemma session_frame_plain:
  "wire_fits (WControl m) \<Longrightarrow> cm_type m \<noteq> ctrl_hello \<Longrightarrow>
   session_frame mtu sess reg FrameControl (marshal_control m) = GoOn"
  by (simp add: session_frame_def decode_marshal_control)

lemma session_reader_step:
  assumes "packet_bytes (ty, body) = Some c"
  shows "session_reader mtu sess regs tunw n \<lparr>rd_data = c @ bs, rd_end = e\<rparr> =
    (case session_frame mtu sess (regs n) ty body of
       GoOn \<Rightarrow> session_reader mtu sess regs tunw (Suc n) \<lparr>rd_data = bs, rd_end = e\<rparr>
     | Rejected em \<Rightarrow> ([], SessionRejected em)
     | ToTun pkt \<Rightarrow>
         (if tunw n
          then (case session_reader mtu sess regs tunw (Suc n) \<lparr>rd_data = bs, rd_end = e\<rparr> of
                  (ps, f) \<Rightarrow> ((n, pkt) # ps, f))
          else ([], TunWriteFailed)))"
  by (subst session_reader.simps) (simp add: packets.put_get [OF assms])

lemma session_reader_end:
  "session_reader mtu sess regs tunw n \<lparr>rd_data = [], rd_end = EOF\<rparr>
   = ([], ReadFailed (FrameErr (ReadHeader EOF)))"
  by (subst session_reader.simps) (simp add: read_packet_def read_frame_def read_full_def)

text \<open>Nothing legitimate is lost on the way in: when a client sends data packets interleaved with
  keepalives and other control messages, the TUN device gets exactly those packets that pass the
  checks, each once and in the order in which they were sent, and the session ends when the
  connection does.\<close>

theorem client_packets_forwarded:
  assumes "list_all wire_fits ms" and "list_all plain_msg ms"
    and "put_many packet_bytes (map wire_packet ms) = Some bs"
  shows "map snd (fst
      (session_reader mtu sess (\<lambda>k. reg) (\<lambda>k. True) n \<lparr>rd_data = bs, rd_end = EOF\<rparr>))
      = filter (allowed mtu sess reg) (data_packets ms)
    \<and> snd (session_reader mtu sess (\<lambda>k. reg) (\<lambda>k. True) n \<lparr>rd_data = bs, rd_end = EOF\<rparr>)
      = ReadFailed (FrameErr (ReadHeader EOF))"
  using assms
proof (induction ms arbitrary: bs n)
  case Nil
  then show ?case by (simp add: session_reader_end)
next
  case (Cons m ms)
  from Cons.prems(3) obtain c d where c: "packet_bytes (wire_packet m) = Some c"
    and d: "put_many packet_bytes (map wire_packet ms) = Some d" and bs: "bs = c @ d"
    by (auto split: option.splits)
  have IH: "map snd (fst
      (session_reader mtu sess (\<lambda>k. reg) (\<lambda>k. True) (Suc n) \<lparr>rd_data = d, rd_end = EOF\<rparr>))
      = filter (allowed mtu sess reg) (data_packets ms)
    \<and> snd (session_reader mtu sess (\<lambda>k. reg) (\<lambda>k. True) (Suc n) \<lparr>rd_data = d, rd_end = EOF\<rparr>)
      = ReadFailed (FrameErr (ReadHeader EOF))"
    by (rule Cons.IH) (use Cons.prems d in simp_all)
  show ?case
  proof (cases m)
    case (WControl cm)
    then show ?thesis
      using Cons.prems c IH
      by (simp add: bs session_reader_step session_frame_plain del: wire_fits.simps)
  next
    case (WData pkt)
    with c have "packet_bytes (FrameData, pkt) = Some c" by simp
    from session_reader_step [OF this] IH WData show ?thesis
      by (auto simp: bs session_frame_data split: prod.splits)
  qed
qed

theorem client_packets_forwarded_witness:
  "\<exists>bs. put_many packet_bytes (map wire_packet [WControl new_keepalive, WData sample_packet]) = Some bs
    \<and> map snd (fst (session_reader 1380 sample_session (\<lambda>k. new_registry) (\<lambda>k. True) 0
        \<lparr>rd_data = bs, rd_end = EOF\<rparr>)) = [sample_packet]"
proof -
  have fits: "list_all wire_fits [WControl new_keepalive, WData sample_packet]"
    by (simp add: marshal_control_def new_keepalive_def control_json_def control_wf_def
        json_marshal_def json_string_def esc_char_def ctrl_keepalive_def max_frame_size_def
        sample_packet_def ipv4_packet_def)
  from write_wires_buffer [OF this] obtain bs where
    bs: "put_many packet_bytes (map wire_packet [WControl new_keepalive, WData sample_packet]) = Some bs"
    by blast
  have plain: "list_all plain_msg [WControl new_keepalive, WData sample_packet]"
    by (simp add: new_keepalive_def ctrl_keepalive_def ctrl_hello_def)
  have "allowed 1380 sample_session new_registry sample_packet"
    using sample_packet_parsed
    by (simp add: allowed_def session_frame_ToTun sample_session_def new_registry_def)
      (simp add: sample_packet_def ipv4_packet_def)
  with client_packets_forwarded [OF fits plain bs, of 1380 sample_session new_registry 0] bs
  show ?thesis by (auto simp: map_prod_def split: prod.splits)
qed

text \<open>What the events of the writer put on the wire.\<close>

fun writer_msgs :: "int \<Rightarrow> writer_event list \<Rightarrow> wire_msg list" where
  "writer_msgs ka [] = []"
| "writer_msgs ka (SessionClosed # es) = []"
| "writer_msgs ka (RejectWith m # es) = [WControl m]"
| "writer_msgs ka (Tick # es) =
     (if ka > 0 then WControl new_keepalive # writer_msgs ka es else writer_msgs ka es)"
| "writer_msgs ka (Outbound p # es) = WData p # writer_msgs ka es"

text \<open>One writer, whole frames: whatever order queue, ticker and rejection become ready in, the
  bytes on the connection are read back by the client as exactly those messages, one frame each,
  never interleaved; a rejection is the last of them and closes the session.\<close>

theorem session_writer_stream:
  assumes "list_all wire_fits (writer_msgs ka es)"
  shows "\<exists>bs ps. fst (session_writer ka buffer_write b es) = b @ bs
    \<and> get_many read_packet (length (writer_msgs ka es)) \<lparr>rd_data = bs @ rest, rd_end = e\<rparr>
        = (Inr ps, \<lparr>rd_data = rest, rd_end = e\<rparr>)
    \<and> map wire_of_packet ps = map Inr (writer_msgs ka es)"
proof -
  have w: "fst (session_writer ka buffer_write b es)
      = snd (write_wires buffer_write b (writer_msgs ka es))"
    using assms
  proof (induction ka "buffer_write" b es rule: session_writer.induct)
    case (3 ka w m es)
    then show ?case by (simp split: prod.split option.split)
  qed (auto split: prod.splits option.splits)
  from write_wires_buffer [OF assms, of b] obtain bs where
    bs: "put_many packet_bytes (map wire_packet (writer_msgs ka es)) = Some bs"
    and "write_wires buffer_write b (writer_msgs ka es) = (None, b @ bs)" by auto
  with w have "fst (session_writer ka buffer_write b es) = b @ bs" by simp
  moreover have "map wire_of_packet (map wire_packet (writer_msgs ka es)) = map Inr (writer_msgs ka es)"
    using assms by (auto simp: list_all_iff wire_of_wire_packet)
  ultimately show ?thesis using packets.stream_get [OF bs, of rest e] by auto
qed

theorem session_writer_stream_witness:
  "\<exists>bs ps. fst (session_writer 5 buffer_write [] [Outbound [0x45], Tick, SessionClosed]) = bs
    \<and> get_many read_packet 2 \<lparr>rd_data = bs, rd_end = EOF\<rparr>
        = (Inr ps, \<lparr>rd_data = [], rd_end = EOF\<rparr>)
    \<and> map wire_of_packet ps = [Inr (WData [0x45]), Inr (WControl new_keepalive)]"
proof -
  have "list_all wire_fits (writer_msgs 5 [Outbound [0x45], Tick, SessionClosed])"
    by (simp add: marshal_control_def new_keepalive_def control_json_def control_wf_def
        json_marshal_def json_string_def esc_char_def ctrl_keepalive_def max_frame_size_def)
  from session_writer_stream [OF this, of "[]" "[]" EOF] show ?thesis
    by (simp add: numeral_2_eq_2 del: session_writer.simps)
qed

end
