(* ===== verification/Server.thy ===== *)
theory Server
  imports Datapath Limiter
begin

text \<open>
  The server (\<open>src/internal/tunnel/server/server.go\<close>): its construction, the message it admits a
  client with, and the life of its connections. Every connection runs \<open>handleConn\<close> in a goroutine of
  its own; the shared limiter, pool and registry are protected by mutexes, so the goroutines
  interleave at the calls of those operations. A connection is a number, its place in \<open>handleConn\<close>
  a \<open>phase\<close>, and \<open>srv_step\<close> relates the server before and after one such call of one connection
  (or of a timer, or of \<open>shutdown\<close>). Which connection moves next is not determined.
\<close>

section \<open>Configuration\<close>

record server_config =
  sc_subnet :: string
  sc_gateway :: string
  sc_netmask :: string
  sc_mtu :: int
  sc_keepalive :: int
  sc_handshake_timeout :: int
  sc_max_per_ip :: int
  sc_max_conns :: int
  sc_push_routes :: "string list"
  sc_push_dns :: "string list"

definition second :: int where "second = 1000000000"
definition default_handshake_timeout :: int where "default_handshake_timeout = 10 * second"
definition failed_handshake_penalty :: int where "failed_handshake_penalty = 2 * second"

datatype 'e server_err =
    NilTun
  | TlsError 'e
  | InvalidGateway string
  | BuildIpPool ipalloc_err

text \<open>
  The state the connections share: limiter, pool and registry; the phase of every connection; the
  sessions whose \<open>close\<close> has been called and those whose \<open>Done\<close> channel is closed; and whether the
  server is shutting down (its context is cancelled).
\<close>

datatype phase =
    Idle
  | Handshaking nat
  | Admitting nat string
  | Waiting nat string session
  | Allocating nat string
  | Adding nat string ipv4
  | Assigning nat session
  | Running nat session
  | Removing nat session
  | Releasing nat session
  | Finishing nat session
  | Leaving nat bool
  | Gone

record server =
  limits :: lim_run
  pool :: pool
  registry :: registry
  phases :: "nat \<Rightarrow> phase"
  closed :: "session set"
  finished :: "session set"
  stopping :: bool

definition server_new ::
    "(server_config \<Rightarrow> 'e + 't) \<Rightarrow> server_config \<Rightarrow> bool \<Rightarrow> 'e server_err + server_config \<times> server" where
  "server_new load_tls cfg dev =
     (if \<not> dev then Inl NilTun
      else case load_tls cfg of
        Inl e \<Rightarrow> Inl (TlsError e)
      | Inr tls \<Rightarrow>
          (case parse_ip (sc_gateway cfg) of
             None \<Rightarrow> Inl (InvalidGateway (sc_gateway cfg))
           | Some gw \<Rightarrow>
               (if ip_to4 gw = None then Inl (InvalidGateway (sc_gateway cfg))
                else
                  (case pool_new (sc_subnet cfg) [gw] of
                     Inl e \<Rightarrow> Inl (BuildIpPool e)
                   | Inr p \<Rightarrow>
                       Inr (if sc_handshake_timeout cfg \<le> 0
                            then cfg\<lparr>sc_handshake_timeout := default_handshake_timeout\<rparr> else cfg,
                            \<lparr>limits = lim_start (sc_max_per_ip cfg) (sc_max_conns cfg)
                                        failed_handshake_penalty,
                             pool = p, registry = new_registry, phases = (\<lambda>c. Idle),
                             closed = {}, finished = {}, stopping = False\<rparr>)))))"

text \<open>The interval the server advertises: whole seconds, rounded up.\<close>

definition keepalive_secs :: "int \<Rightarrow> int" where
  "keepalive_secs ka = (if ka > 0 then (ka + second - 1) div second else 0)"

definition assign_for :: "server_config \<Rightarrow> ipv4 \<Rightarrow> assign_ip" where
  "assign_for cfg a =
     \<lparr>ai_ip = ipv4_str a, ai_gateway = sc_gateway cfg, ai_netmask = sc_netmask cfg,
      ai_mtu = sc_mtu cfg, ai_routes = sc_push_routes cfg, ai_dns = sc_push_dns cfg,
      ai_proto = protocol_version, ai_keepalive_secs = keepalive_secs (sc_keepalive cfg)\<rparr>"

section \<open>The steps of the connections\<close>

definition goto :: "server \<Rightarrow> nat \<Rightarrow> phase \<Rightarrow> server" where
  "goto s c p = s\<lparr>phases := (phases s)(c := p)\<rparr>"

inductive srv_step :: "server \<Rightarrow> server \<Rightarrow> bool" where
  accept: "phases s c = Idle \<Longrightarrow> limiter_acquire (lim (limits s)) h = Some l \<Longrightarrow>
    srv_step s (goto (s\<lparr>limits := lim_step (limits s) (Acquire h)\<rparr>) c
      (Handshaking (length (slots (limits s)))))"
| reject: "phases s c = Idle \<Longrightarrow> limiter_acquire (lim (limits s)) h = None \<Longrightarrow>
    srv_step s (goto s c Gone)"
| handshake_fails: "phases s c = Handshaking k \<Longrightarrow> srv_step s (goto s c (Leaving k False))"
| no_certificate: "phases s c = Handshaking k \<Longrightarrow> srv_step s (goto s c (Leaving k True))"
| empty_cn: "phases s c = Handshaking k \<Longrightarrow> trim_space raw = [] \<Longrightarrow>
    srv_step s (goto s c (Leaving k True))"
| handshake_ok: "phases s c = Handshaking k \<Longrightarrow> trim_space raw = cn \<Longrightarrow> cn \<noteq> [] \<Longrightarrow>
    srv_step s (goto s c (Admitting k cn))"
| no_previous: "phases s c = Admitting k cn \<Longrightarrow> registry_by_cn (registry s) cn = None \<Longrightarrow>
    srv_step s (goto s c (Allocating k cn))"
| kick: "phases s c = Admitting k cn \<Longrightarrow> registry_by_cn (registry s) cn = Some prev \<Longrightarrow>
    srv_step s (goto (s\<lparr>closed := insert prev (closed s)\<rparr>) c (Waiting k cn prev))"
| previous_done: "phases s c = Waiting k cn prev \<Longrightarrow> prev \<in> finished s \<Longrightarrow>
    srv_step s (goto s c (Allocating k cn))"
| kick_timeout: "phases s c = Waiting k cn prev \<Longrightarrow> srv_step s (goto s c (Allocating k cn))"
| allocated: "phases s c = Allocating k cn \<Longrightarrow> pool_allocate (pool s) cn = (Inr a, p) \<Longrightarrow>
    srv_step s (goto (s\<lparr>pool := p\<rparr>) c (Adding k cn a))"
| refused: "phases s c = Allocating k cn \<Longrightarrow> pool_allocate (pool s) cn = (Inl e, p) \<Longrightarrow>
    srv_step s (goto (s\<lparr>pool := p\<rparr>) c (Leaving k True))"
| added: "phases s c = Adding k cn a \<Longrightarrow> sess = \<lparr>s_id = c, s_cn = cn, s_ip = a\<rparr> \<Longrightarrow>
    srv_step s (goto (s\<lparr>registry := registry_add (registry s) sess\<rparr>) c (Assigning k sess))"
| assigned: "phases s c = Assigning k sess \<Longrightarrow> srv_step s (goto s c (Running k sess))"
| assign_fails: "phases s c = Assigning k sess \<Longrightarrow> srv_step s (goto s c (Removing k sess))"
| ended: "phases s c = Running k sess \<Longrightarrow>
    srv_step s (goto (s\<lparr>closed := insert sess (closed s)\<rparr>) c (Removing k sess))"
| removed: "phases s c = Removing k sess \<Longrightarrow>
    srv_step s (goto (s\<lparr>registry := registry_remove (registry s) sess\<rparr>) c (Releasing k sess))"
| released: "phases s c = Releasing k sess \<Longrightarrow>
    srv_step s (goto (s\<lparr>pool := pool_release (pool s) (s_cn sess)\<rparr>) c (Finishing k sess))"
| finish: "phases s c = Finishing k sess \<Longrightarrow>
    srv_step s (goto (s\<lparr>finished := insert sess (finished s)\<rparr>) c (Leaving k True))"
| leave: "phases s c = Leaving k hs \<Longrightarrow>
    srv_step s (goto (s\<lparr>limits := lim_step (limits s) (ReleaseSlot k (\<not> hs \<and> \<not> stopping s))\<rparr>) c Gone)"
| timer: "srv_step s (s\<lparr>limits := lim_step (limits s) (TimerFires h)\<rparr>)"
| shutdown: "srv_step s (s\<lparr>stopping := True, closed := closed s \<union> registry_snapshot (registry s)\<rparr>)"

inductive_cases srv_stepE: "srv_step s t"

text \<open>The same steps as a function: a move names the connection and what its goroutine meets.\<close>

datatype handshake = HsFails | HsNoCertificate | HsCommonName string

datatype move =
    Accept nat string
  | Handshake nat handshake
  | LookUp nat
  | PreviousDone nat
  | KickTimeout nat
  | AllocateIp nat
  | AddSession nat
  | SendAssign nat bool
  | EndSession nat
  | RemoveSession nat
  | ReleaseIp nat
  | CloseDone nat
  | Leave nat
  | PenaltyTimer string
  | Shutdown

fun srv_move :: "server \<Rightarrow> move \<Rightarrow> server option" where
  "srv_move s (Accept c h) =
     (case phases s c of
        Idle \<Rightarrow>
          Some (case limiter_acquire (lim (limits s)) h of
                  None \<Rightarrow> goto s c Gone
                | Some l \<Rightarrow>
                    goto (s\<lparr>limits := lim_step (limits s) (Acquire h)\<rparr>) c
                      (Handshaking (length (slots (limits s)))))
      | _ \<Rightarrow> None)"
| "srv_move s (Handshake c hs) =
     (case phases s c of
        Handshaking k \<Rightarrow>
          Some (case hs of
                  HsFails \<Rightarrow> goto s c (Leaving k False)
                | HsNoCertificate \<Rightarrow> goto s c (Leaving k True)
                | HsCommonName raw \<Rightarrow>
                    goto s c (if trim_space raw = [] then Leaving k True
                              else Admitting k (trim_space raw)))
      | _ \<Rightarrow> None)"
| "srv_move s (LookUp c) =
     (case phases s c of
        Admitting k cn \<Rightarrow>
          Some (case registry_by_cn (registry s) cn of
                  None \<Rightarrow> goto s c (Allocating k cn)
                | Some prev \<Rightarrow>
                    goto (s\<lparr>closed := insert prev (closed s)\<rparr>) c (Waiting k cn prev))
      | _ \<Rightarrow> None)"
| "srv_move s (PreviousDone c) =
     (case phases s c of
        Waiting k cn prev \<Rightarrow> (if prev \<in> finished s then Some (goto s c (Allocating k cn)) else None)
      | _ \<Rightarrow> None)"
| "srv_move s (KickTimeout c) =
     (case phases s c of Waiting k cn prev \<Rightarrow> Some (goto s c (Allocating k cn)) | _ \<Rightarrow> None)"
| "srv_move s (AllocateIp c) =
     (case phases s c of
        Allocating k cn \<Rightarrow>
          Some (case pool_allocate (pool s) cn of
                  (Inl e, p) \<Rightarrow> goto (s\<lparr>pool := p\<rparr>) c (Leaving k True)
                | (Inr a, p) \<Rightarrow> goto (s\<lparr>pool := p\<rparr>) c (Adding k cn a))
      | _ \<Rightarrow> None)"
| "srv_move s (AddSession c) =
     (case phases s c of
        Adding k cn a \<Rightarrow>
          (let sess = \<lparr>s_id = c, s_cn = cn, s_ip = a\<rparr>
           in Some (goto (s\<lparr>registry := registry_add (registry s) sess\<rparr>) c (Assigning k sess)))
      | _ \<Rightarrow> None)"
| "srv_move s (SendAssign c sent) =
     (case phases s c of
        Assigning k sess \<Rightarrow> Some (goto s c (if sent then Running k sess else Removing k sess))
      | _ \<Rightarrow> None)"
| "srv_move s (EndSession c) =
     (case phases s c of
        Running k sess \<Rightarrow> Some (goto (s\<lparr>closed := insert sess (closed s)\<rparr>) c (Removing k sess))
      | _ \<Rightarrow> None)"
| "srv_move s (RemoveSession c) =
     (case phases s c of
        Removing k sess \<Rightarrow>
          Some (goto (s\<lparr>registry := registry_remove (registry s) sess\<rparr>) c (Releasing k sess))
      | _ \<Rightarrow> None)"
| "srv_move s (ReleaseIp c) =
     (case phases s c of
        Releasing k sess \<Rightarrow>
          Some (goto (s\<lparr>pool := pool_release (pool s) (s_cn sess)\<rparr>) c (Finishing k sess))
      | _ \<Rightarrow> None)"
| "srv_move s (CloseDone c) =
     (case phases s c of
        Finishing k sess \<Rightarrow>
          Some (goto (s\<lparr>finished := insert sess (finished s)\<rparr>) c (Leaving k True))
      | _ \<Rightarrow> None)"
| "srv_move s (Leave c) =
     (case phases s c of
        Leaving k hs \<Rightarrow>
          Some (goto (s\<lparr>limits := lim_step (limits s) (ReleaseSlot k (\<not> hs \<and> \<not> stopping s))\<rparr>) c Gone)
      | _ \<Rightarrow> None)"
| "srv_move s (PenaltyTimer h) = Some (s\<lparr>limits := lim_step (limits s) (TimerFires h)\<rparr>)"
| "srv_move s Shutdown =
     Some (s\<lparr>stopping := True, closed := closed s \<union> registry_snapshot (registry s)\<rparr>)"

fun srv_moves :: "server \<Rightarrow> move list \<Rightarrow> server option" where
  "srv_moves s [] = Some s"
| "srv_moves s (m # ms) = (case srv_move s m of None \<Rightarrow> None | Some t \<Rightarrow> srv_moves t ms)"

lemma srv_move_step: "srv_move s m = Some t \<Longrightarrow> srv_step s t"
  by (cases m)
    (auto simp: Let_def simp del: lim_step.simps intro: srv_step.intros
      split: phase.splits handshake.splits option.splits sum.splits prod.splits if_splits)

lemma srv_step_move: "srv_step s t \<Longrightarrow> \<exists>m. srv_move s m = Some t"
proof (induction rule: srv_step.induct)
  case (accept s c h l)
  then show ?case by (intro exI [of _ "Accept c h"]) (simp del: lim_step.simps)
next
  case (reject s c h)
  then show ?case by (intro exI [of _ "Accept c h"]) simp
next
  case (handshake_fails s c k)
  then show ?case by (intro exI [of _ "Handshake c HsFails"]) simp
next
  case (no_certificate s c k)
  then show ?case by (intro exI [of _ "Handshake c HsNoCertificate"]) simp
next
  case (empty_cn s c k raw)
  then show ?case by (intro exI [of _ "Handshake c (HsCommonName raw)"]) simp
next
  case (handshake_ok s c k raw cn)
  then show ?case by (intro exI [of _ "Handshake c (HsCommonName raw)"]) simp
next
  case (no_previous s c k cn)
  then show ?case by (intro exI [of _ "LookUp c"]) simp
next
  case (kick s c k cn prev)
  then show ?case by (intro exI [of _ "LookUp c"]) simp
next
  case (previous_done s c k cn prev)
  then show ?case by (intro exI [of _ "PreviousDone c"]) simp
next
  case (kick_timeout s c k cn prev)
  then show ?case by (intro exI [of _ "KickTimeout c"]) simp
next
  case (allocated s c k cn a p)
  then show ?case by (intro exI [of _ "AllocateIp c"]) simp
next
  case (refused s c k cn e p)
  then show ?case by (intro exI [of _ "AllocateIp c"]) simp
next
  case (added s c k cn a sess)
  then show ?case by (intro exI [of _ "AddSession c"]) (simp add: Let_def)
next
  case (assigned s c k sess)
  then show ?case by (intro exI [of _ "SendAssign c True"]) simp
next
  case (assign_fails s c k sess)
  then show ?case by (intro exI [of _ "SendAssign c False"]) simp
next
  case (ended s c k sess)
  then show ?case by (intro exI [of _ "EndSession c"]) simp
next
  case (removed s c k sess)
  then show ?case by (intro exI [of _ "RemoveSession c"]) simp
next
  case (released s c k sess)
  then show ?case by (intro exI [of _ "ReleaseIp c"]) simp
next
  case (finish s c k sess)
  then show ?case by (intro exI [of _ "CloseDone c"]) simp
next
  case (leave s c k hs)
  then show ?case by (intro exI [of _ "Leave c"]) (simp del: lim_step.simps)
next
  case (timer s h)
  then show ?case by (intro exI [of _ "PenaltyTimer h"]) (simp del: lim_step.simps)
next
  case (shutdown s)
  then show ?case by (intro exI [of _ Shutdown]) simp
qed

lemma srv_moves_reach: "srv_moves s ms = Some t \<Longrightarrow> srv_step\<^sup>*\<^sup>* s t"
  by (induction ms arbitrary: s)
    (auto split: option.splits dest: srv_move_step intro: converse_rtranclp_into_rtranclp)

section \<open>What the connections hold\<close>

text \<open>\<open>tracks f m\<close>: the map \<open>m\<close> holds exactly what some connection claims under \<open>f\<close>, and no two
  connections claim the same key.\<close>

definition tracks :: "(nat \<Rightarrow> ('k \<times> 'v) option) \<Rightarrow> ('k \<rightharpoonup> 'v) \<Rightarrow> bool" where
  "tracks f m \<longleftrightarrow>
     (\<forall>k v. m k = Some v \<longleftrightarrow> (\<exists>c. f c = Some (k, v)))
     \<and> (\<forall>c d k v w. f c = Some (k, v) \<longrightarrow> f d = Some (k, w) \<longrightarrow> c = d)"

lemma tracks_claim: "tracks f m \<Longrightarrow> f c = Some (k, v) \<Longrightarrow> m k = Some v"
  by (auto simp: tracks_def)

lemma tracks_claimed: "tracks f m \<Longrightarrow> m k = Some v \<Longrightarrow> \<exists>c. f c = Some (k, v)"
  by (simp add: tracks_def)

lemma tracks_unique: "tracks f m \<Longrightarrow> f c = Some (k, v) \<Longrightarrow> f d = Some (k, w) \<Longrightarrow> c = d"
  by (simp add: tracks_def)

lemma tracksI:
  "(\<And>k v. m k = Some v \<longleftrightarrow> (\<exists>c. f c = Some (k, v))) \<Longrightarrow>
   (\<And>c d k v w. f c = Some (k, v) \<Longrightarrow> f d = Some (k, w) \<Longrightarrow> c = d) \<Longrightarrow> tracks f m"
  by (simp add: tracks_def)

lemma tracks_iff: "tracks f m \<Longrightarrow> m k = Some v \<longleftrightarrow> (\<exists>c. f c = Some (k, v))"
  by (simp add: tracks_def)

lemma tracks_add:
  assumes "tracks f m" and "f c = None" and "m k = None"
  shows "tracks (f(c := Some (k, v))) (m(k \<mapsto> v))"
proof -
  have free: "f d \<noteq> Some (k, w)" for d w
    using tracks_claim [OF assms(1), of d k w] assms(3) by auto
  have upd: "(f(c := Some (k, v))) d = Some (k', v') \<longleftrightarrow>
      (if k' = k then d = c \<and> v' = v else f d = Some (k', v'))" for d k' v'
    using free [of d v'] assms(2) by (cases "d = c") auto
  show ?thesis
  proof (rule tracksI)
    show "(m(k \<mapsto> v)) k' = Some v' \<longleftrightarrow> (\<exists>d. (f(c := Some (k, v))) d = Some (k', v'))" for k' v'
      unfolding upd using tracks_iff [OF assms(1), of k' v'] by (cases "k' = k") auto
    show "d = e" if "(f(c := Some (k, v))) d = Some (k', v')"
      "(f(c := Some (k, v))) e = Some (k', w')" for d e k' v' w'
      using that tracks_unique [OF assms(1), of d k' v' e w'] unfolding upd
      by (simp split: if_splits)
  qed
qed

lemma tracks_drop:
  assumes "tracks f m" and "f c = Some (k, v)"
  shows "tracks (f(c := None)) (m(k := None))"
proof -
  have only: "d = c" if "f d = Some (k, w)" for d w
    using tracks_unique [OF assms(1) that assms(2)] .
  have upd: "(f(c := None)) d = Some (k', v') \<longleftrightarrow> (k' \<noteq> k \<and> f d = Some (k', v'))" for d k' v'
    using only [of d v'] assms(2) by (cases "d = c") auto
  show ?thesis
  proof (rule tracksI)
    show "(m(k := None)) k' = Some v' \<longleftrightarrow> (\<exists>d. (f(c := None)) d = Some (k', v'))" for k' v'
      unfolding upd using tracks_iff [OF assms(1), of k' v'] by (cases "k' = k") auto
    show "d = e" if "(f(c := None)) d = Some (k', v')" "(f(c := None)) e = Some (k', w')"
      for d e k' v' w'
      using that tracks_unique [OF assms(1), of d k' v' e w'] unfolding upd by simp
  qed
qed

lemma tracks_same: "tracks f m \<Longrightarrow> f c = x \<Longrightarrow> tracks (f(c := x)) m"
  by (simp add: fun_upd_idem)

text \<open>The claims of a phase: the address of an identity, the registry entry, the limiter slot.\<close>

fun holds :: "phase \<Rightarrow> (string \<times> ipv4) option" where
  "holds (Adding k cn a) = Some (cn, a)"
| "holds (Assigning k s) = Some (s_cn s, s_ip s)"
| "holds (Running k s) = Some (s_cn s, s_ip s)"
| "holds (Removing k s) = Some (s_cn s, s_ip s)"
| "holds (Releasing k s) = Some (s_cn s, s_ip s)"
| "holds p = None"

fun registered :: "phase \<Rightarrow> (string \<times> session) option" where
  "registered (Assigning k s) = Some (s_cn s, s)"
| "registered (Running k s) = Some (s_cn s, s)"
| "registered (Removing k s) = Some (s_cn s, s)"
| "registered p = None"

fun slot_of :: "phase \<Rightarrow> (nat \<times> unit) option" where
  "slot_of Idle = None"
| "slot_of Gone = None"
| "slot_of (Handshaking k) = Some (k, ())"
| "slot_of (Admitting k cn) = Some (k, ())"
| "slot_of (Waiting k cn s) = Some (k, ())"
| "slot_of (Allocating k cn) = Some (k, ())"
| "slot_of (Adding k cn a) = Some (k, ())"
| "slot_of (Assigning k s) = Some (k, ())"
| "slot_of (Running k s) = Some (k, ())"
| "slot_of (Removing k s) = Some (k, ())"
| "slot_of (Releasing k s) = Some (k, ())"
| "slot_of (Finishing k s) = Some (k, ())"
| "slot_of (Leaving k hs) = Some (k, ())"

fun own_session :: "phase \<Rightarrow> session option" where
  "own_session (Assigning k s) = Some s"
| "own_session (Running k s) = Some s"
| "own_session (Removing k s) = Some s"
| "own_session (Releasing k s) = Some s"
| "own_session (Finishing k s) = Some s"
| "own_session p = None"

fun started :: "phase \<Rightarrow> bool" where
  "started (Leaving k hs) = True"
| "started Gone = True"
| "started p = (own_session p \<noteq> None)"

definition slot_map :: "(string \<times> bool) list \<Rightarrow> nat \<rightharpoonup> unit" where
  "slot_map sl k = (if k < length sl \<and> \<not> snd (sl ! k) then Some () else None)"

text \<open>The invariant: the pool tracks who holds an address, the registry who is registered, and the
  limiter who has a slot; a finished session is one whose connection has passed its teardown.\<close>

definition srv_inv :: "server \<Rightarrow> bool" where
  "srv_inv s \<longleftrightarrow>
     pool_inv (pool s) \<and> reg_inv (registry s) \<and> lim_inv (limits s)
     \<and> tracks (holds \<circ> phases s) (byClient (pool s))
     \<and> tracks (registered \<circ> phases s) (byCN (registry s))
     \<and> tracks (slot_of \<circ> phases s) (slot_map (slots (limits s)))
     \<and> (\<forall>c t. own_session (phases s c) = Some t \<longrightarrow> s_id t = c)
     \<and> (\<forall>t \<in> finished s. phases s (s_id t) = Gone \<or> (\<exists>k hs. phases s (s_id t) = Leaving k hs))"

lemma slot_map_acquire [simp]:
  "slot_map (sl @ [(h, False)]) = (slot_map sl)(length sl \<mapsto> ())"
  by (auto simp: slot_map_def nth_append)

lemma slot_map_release:
  "k < length sl \<Longrightarrow> slot_map (sl[k := (h, True)]) = (slot_map sl)(k := None)"
  by (auto simp: slot_map_def nth_list_update)

lemma slot_map_fresh [simp]: "slot_map sl (length sl) = None"
  by (simp add: slot_map_def)

lemma goto_simps [simp]:
  "phases (goto s c p) = (phases s)(c := p)" "pool (goto s c p) = pool s"
  "registry (goto s c p) = registry s" "limits (goto s c p) = limits s"
  "closed (goto s c p) = closed s" "finished (goto s c p) = finished s"
  "stopping (goto s c p) = stopping s"
  by (simp_all add: goto_def)

lemma registered_holds:
  "registered p = Some (cn, t) \<Longrightarrow> holds p = Some (cn, s_ip t) \<and> cn = s_cn t"
  by (cases p) auto

lemma slot_of_claim: "slot_of p = Some (k, u) \<longleftrightarrow> slot_of p = Some (k, ())"
  by simp

lemma srv_invD:
  assumes "srv_inv s"
  shows "pool_inv (pool s)" and "reg_inv (registry s)" and "lim_inv (limits s)"
    and "tracks (holds \<circ> phases s) (byClient (pool s))"
    and "tracks (registered \<circ> phases s) (byCN (registry s))"
    and "tracks (slot_of \<circ> phases s) (slot_map (slots (limits s)))"
    and "own_session (phases s c) = Some t \<Longrightarrow> s_id t = c"
    and "u \<in> finished s \<Longrightarrow> phases s (s_id u) = Gone \<or> (\<exists>k hs. phases s (s_id u) = Leaving k hs)"
  using assms unfolding srv_inv_def by blast+

text \<open>When a session is about to be added, its name and its address are not registered: what the
  comment of \<open>Registry.Add\<close> asks of its caller.\<close>

lemma add_is_fresh:
  assumes "srv_inv s" and "phases s c = Adding k cn a"
  shows "byCN (registry s) cn = None \<and> byIPv4 (registry s) a = None"
proof -
  note inv = srv_invD [OF assms(1)]
  have mine: "(holds \<circ> phases s) c = Some (cn, a)" using assms(2) by simp
  have no_cn: "byCN (registry s) cn \<noteq> Some t" for t
  proof
    assume "byCN (registry s) cn = Some t"
    then obtain d where d: "(registered \<circ> phases s) d = Some (cn, t)"
      using tracks_claimed [OF inv(5)] by blast
    then have "(holds \<circ> phases s) d = Some (cn, s_ip t)" by (simp add: registered_holds)
    then have "d = c" using tracks_unique [OF inv(4) _ mine] by blast
    with d assms(2) show False by simp
  qed
  have "byIPv4 (registry s) a \<noteq> Some t" for t
  proof
    assume "byIPv4 (registry s) a = Some t"
    then have ip: "s_ip t = a" and "byCN (registry s) (s_cn t) = Some t"
      using reg_ipD [OF inv(2)] by blast+
    then obtain d where "(registered \<circ> phases s) d = Some (s_cn t, t)"
      using tracks_claimed [OF inv(5)] by blast
    then have "(holds \<circ> phases s) d = Some (s_cn t, a)" using ip by (simp add: registered_holds)
    then have "byClient (pool s) (s_cn t) = Some a" by (rule tracks_claim [OF inv(4)])
    moreover have "byClient (pool s) cn = Some a" using mine by (rule tracks_claim [OF inv(4)])
    ultimately have "s_cn t = cn" by (rule ippool.held_inj [OF inv(1)])
    with no_cn [of t] \<open>byCN (registry s) (s_cn t) = Some t\<close> show False by simp
  qed
  with no_cn show ?thesis by (meson not_Some_eq)
qed

lemma step_pool_inv:
  assumes "srv_inv s" and "srv_step s t"
  shows "pool_inv (pool t)"
  using assms(2) srv_invD(1) [OF assms(1)]
  by cases (auto intro: keeps dest: pool_allocate_Inl)

lemma step_holds:
  assumes "srv_inv s" and "srv_step s t"
  shows "tracks (holds \<circ> phases t) (byClient (pool t))"
  using assms(2)
proof cases
  case (allocated c k cn a p)
  with pool_allocate_Inr [OF this(3)] srv_invD(4) [OF assms(1)] show ?thesis
    by (simp add: fun_upd_comp tracks_add)
next
  case (refused c k cn e p)
  with pool_allocate_Inl [OF this(3)] srv_invD(4) [OF assms(1)] show ?thesis
    by (simp add: fun_upd_comp tracks_same)
next
  case (released c k sess)
  with srv_invD(4) [OF assms(1)] show ?thesis by (simp add: fun_upd_comp tracks_drop)
qed (use srv_invD(4) [OF assms(1)] in \<open>simp_all add: fun_upd_comp tracks_same\<close>)

lemma step_registered:
  assumes "srv_inv s" and "srv_step s t"
  shows "reg_inv (registry t) \<and> tracks (registered \<circ> phases t) (byCN (registry t))"
  using assms(2)
proof cases
  case (added c k cn a sess)
  with add_is_fresh [OF assms(1) this(2)] srv_invD(2,5) [OF assms(1)] show ?thesis
    by (simp add: fun_upd_comp tracks_add sreg.cn_add sreg.inv_add)
next
  case (removed c k sess)
  then have "(registered \<circ> phases s) c = Some (s_cn sess, sess)" by simp
  note drop = tracks_drop [OF srv_invD(5) [OF assms(1)] this]
  from tracks_claim [OF srv_invD(5) [OF assms(1)] \<open>(registered \<circ> phases s) c = _\<close>]
    srv_invD(2) [OF assms(1)] removed
  show ?thesis by (simp add: fun_upd_comp sreg.cn_remove sreg.inv_remove drop)
qed (use srv_invD(2,5) [OF assms(1)] in \<open>simp_all add: fun_upd_comp tracks_same\<close>)

lemma step_slots:
  assumes "srv_inv s" and "srv_step s t"
  shows "tracks (slot_of \<circ> phases t) (slot_map (slots (limits t)))"
  using assms(2)
proof cases
  case (accept c h l)
  with srv_invD(6) [OF assms(1)] show ?thesis by (simp add: fun_upd_comp tracks_add)
next
  case (leave c k hs)
  then have claim: "(slot_of \<circ> phases s) c = Some (k, ())" by simp
  from tracks_claim [OF srv_invD(6) [OF assms(1)] this]
  have k: "k < length (slots (limits s))" "\<not> snd (slots (limits s) ! k)"
    by (auto simp: slot_map_def split: if_splits)
  then have "slots (lim_step (limits s) (ReleaseSlot k p))
      = (slots (limits s))[k := (fst (slots (limits s) ! k), True)]" for p
    by (simp add: Let_def split: prod.split)
  with leave k show ?thesis
    by (simp add: fun_upd_comp slot_map_release tracks_drop [OF srv_invD(6) [OF assms(1)] claim]
        del: lim_step.simps)
qed (use srv_invD(6) [OF assms(1)] in \<open>simp_all add: fun_upd_comp tracks_same\<close>)

lemma step_sessions:
  assumes "srv_inv s" and "srv_step s t"
  shows "(\<forall>c u. own_session (phases t c) = Some u \<longrightarrow> s_id u = c)
    \<and> (\<forall>u \<in> finished t. phases t (s_id u) = Gone \<or> (\<exists>k hs. phases t (s_id u) = Leaving k hs))"
  using assms(2) srv_invD(7) [OF assms(1)] srv_invD(8) [OF assms(1)]
  by cases (fastforce split: if_splits)+

lemma srv_step_inv [keeps]:
  assumes "srv_inv s" and "srv_step s t"
  shows "srv_inv t"
proof -
  have "lim_inv (limits t)"
    using assms(2) srv_invD(3) [OF assms(1)] by cases (auto intro: keeps simp del: lim_step.simps)
  with step_pool_inv [OF assms] step_holds [OF assms] step_registered [OF assms]
    step_slots [OF assms] step_sessions [OF assms]
  show ?thesis unfolding srv_inv_def by blast
qed

section \<open>From the start\<close>

lemma server_new_Inr:
  assumes "server_new load_tls cfg dev = Inr (cfg', s)"
  shows "\<exists>gw p. parse_ip (sc_gateway cfg) = Some gw \<and> pool_new (sc_subnet cfg) [gw] = Inr p
    \<and> s = \<lparr>limits = lim_start (sc_max_per_ip cfg) (sc_max_conns cfg) failed_handshake_penalty,
          pool = p, registry = new_registry, phases = (\<lambda>c. Idle), closed = {}, finished = {},
          stopping = False\<rparr>"
  using assms unfolding server_new_def
  by (auto split: if_splits sum.splits option.splits)

lemma server_new_inv [keeps]:
  assumes "server_new load_tls cfg dev = Inr (cfg', s)"
  shows "srv_inv s"
proof -
  from server_new_Inr [OF assms] obtain gw p where p: "pool_new (sc_subnet cfg) [gw] = Inr p"
    and s: "s = \<lparr>limits = lim_start (sc_max_per_ip cfg) (sc_max_conns cfg) failed_handshake_penalty,
      pool = p, registry = new_registry, phases = (\<lambda>c. Idle), closed = {}, finished = {},
      stopping = False\<rparr>" by blast
  from p have "byClient p = Map.empty"
    by (auto simp: pool_new_def Let_def rbind_Inr_iff split: option.splits ip.splits prod.splits if_splits)
  then show ?thesis
    unfolding srv_inv_def s
    by (auto simp: tracks_def slot_map_def lim_start_def new_registry_def
        intro: pool_new_inv [OF p] lim_start_inv [unfolded lim_start_def]
          reg_inv_new [unfolded new_registry_def])
qed

lemma reachable_inv [keeps]: "srv_step\<^sup>*\<^sup>* s t \<Longrightarrow> srv_inv s \<Longrightarrow> srv_inv t"
  by (induction rule: rtranclp_induct) (auto intro: srv_step_inv)

lemma registered_at:
  assumes "srv_inv s" and "byIPv4 (registry s) a = Some t"
  shows "byClient (pool s) (s_cn t) = Some a \<and> registered (phases s (s_id t)) = Some (s_cn t, t)"
proof -
  note inv = srv_invD [OF assms(1)]
  from reg_ipD [OF inv(2) assms(2)] have ip: "s_ip t = a"
    and "byCN (registry s) (s_cn t) = Some t" by simp_all
  then obtain d where d: "(registered \<circ> phases s) d = Some (s_cn t, t)"
    using tracks_claimed [OF inv(5)] by blast
  then have "(holds \<circ> phases s) d = Some (s_cn t, a)" using ip by (simp add: registered_holds)
  then have "byClient (pool s) (s_cn t) = Some a" by (rule tracks_claim [OF inv(4)])
  moreover have "s_id t = d"
  proof (rule inv(7))
    show "own_session (phases s d) = Some t" using d by (cases "phases s d") auto
  qed
  ultimately show ?thesis using d by simp
qed

text \<open>A server with one address to give, for the witnesses.\<close>

definition sample_config :: server_config where
  "sample_config = \<lparr>sc_subnet = ''10.8.0.0/30'', sc_gateway = ''10.8.0.1'',
     sc_netmask = ''255.255.255.252'', sc_mtu = 1380, sc_keepalive = 15 * second,
     sc_handshake_timeout = 5 * second, sc_max_per_ip = 4, sc_max_conns = 100,
     sc_push_routes = [''0.0.0.0/0''], sc_push_dns = []\<rparr>"

definition sample_server :: server where
  "sample_server = \<lparr>limits = lim_start 4 100 failed_handshake_penalty,
     pool = \<lparr>addrs = [0x0A080002], free = {0x0A080002}, byClient = Map.empty\<rparr>,
     registry = new_registry, phases = (\<lambda>c. Idle), closed = {}, finished = {}, stopping = False\<rparr>"

definition sample_tls :: "server_config \<Rightarrow> string + unit" where
  "sample_tls cfg = Inr ()"

lemma sample_server_new: "server_new sample_tls sample_config True = Inr (sample_config, sample_server)"
proof -
  have cidr: "parse_cidr ''10.8.0.0/30'' = Some (V4 0x0A080000, 30)" by code_simp
  have gw: "parse_ip ''10.8.0.1'' = Some (V4 0x0A080001)" by code_simp
  have "cidr_base 0x0A080000 30 = 0x0A080000"
    by (simp add: cidr_base_def ipv4_mask_def mask_eq_exp_minus_1)
  moreover have "cidr_broadcast 0x0A080000 30 = 0x0A080003" by (simp add: cidr_broadcast_def)
  moreover have "addr_range (0x0A080000 + 1) 0x0A080003 = [0x0A080001, 0x0A080002]"
    by (simp add: addr_range.simps)
  ultimately have "pool_new ''10.8.0.0/30'' [V4 0x0A080001]
      = Inr \<lparr>addrs = [0x0A080002], free = {0x0A080002}, byClient = Map.empty\<rparr>"
    unfolding pool_new_def cidr option.case prod.case ip.case Let_def by simp
  with gw show ?thesis
    by (simp add: server_new_def sample_tls_def sample_config_def sample_server_def second_def)
qed

lemma limiter_acquire_free:
  "total l < maxTotal l \<Longrightarrow> per_ip l h < maxPerIP l \<Longrightarrow>
   limiter_acquire l h = Some (l\<lparr>total := total l + 1, perIP := (perIP l)(h \<mapsto> per_ip l h + 1)\<rparr>)"
  by (simp add: limiter_acquire_def)

lemmas sample_eval = sample_server_def lim_start_def new_conn_limiter_def limiter_acquire_def
  per_ip_def registry_by_cn_def new_registry_def pool_allocate_def registry_add_def
  registry_remove_cases pool_release_def goto_def Let_def limiter_release_def limiter_dec_def
  trim_space_def is_space_def

text \<open>With no connection between acceptance and its end nothing is held.\<close>

lemma nothing_left:
  assumes "srv_inv s" and "\<forall>c. phases s c = Idle \<or> phases s c = Gone"
  shows "byClient (pool s) = Map.empty \<and> byCN (registry s) = Map.empty
    \<and> byIPv4 (registry s) = Map.empty \<and> in_flight (limits s) = timers (limits s)"
proof -
  note inv = srv_invD [OF assms(1)]
  have none: "(holds \<circ> phases s) c = None" "(registered \<circ> phases s) c = None"
    "(slot_of \<circ> phases s) c = None" for c
    using assms(2) [rule_format, of c] by auto
  have cn: "byCN (registry s) = Map.empty"
    using tracks_claimed [OF inv(5)] none(2) by (metis not_Some_eq option.distinct(1) ext)
  moreover have "byClient (pool s) = Map.empty"
    using tracks_claimed [OF inv(4)] none(1) by (metis not_Some_eq option.distinct(1) ext)
  moreover have "byIPv4 (registry s) = Map.empty"
    using reg_ipD [OF inv(2)] cn by (metis not_Some_eq option.distinct(1) ext)
  moreover have "\<forall>x \<in> set (slots (limits s)). snd x"
  proof
    fix x assume "x \<in> set (slots (limits s))"
    then obtain k where k: "k < length (slots (limits s))" "x = slots (limits s) ! k"
      by (auto simp: in_set_conv_nth)
    have "slot_map (slots (limits s)) k \<noteq> Some ()"
      using tracks_claimed [OF inv(6), of k] none(3) by auto
    with k show "snd x" by (auto simp: slot_map_def split: if_splits)
  qed
  then have "held_slots (slots (limits s)) = {#}" by (simp add: held_slots_def filter_False)
  ultimately show ?thesis by (simp add: in_flight_def)
qed

section \<open>Properties\<close>

text \<open>(C1) Routing is safe under every interleaving: in any state the server can reach, the session a
  destination address leads to is the session of a connection between \<open>Add\<close> and \<open>Remove\<close>, and
  that address is the one the pool has assigned to its identity.\<close>

theorem routes_to_address_holder:
  assumes "server_new load_tls cfg dev = Inr (cfg', s0)" and "srv_step\<^sup>*\<^sup>* s0 s"
    and "byIPv4 (registry s) a = Some t"
  shows "byClient (pool s) (s_cn t) = Some a
    \<and> (\<exists>k. phases s (s_id t) \<in> {Assigning k t, Running k t, Removing k t})"
proof -
  have "srv_inv s" using assms(1,2) by (blast intro: keeps)
  from registered_at [OF this assms(3)] show ?thesis
    by (cases "phases s (s_id t)") auto
qed

theorem routes_to_address_holder_witness:
  "\<exists>s. srv_moves sample_server [Accept 0 ''h'', Handshake 0 (HsCommonName ''alice''), LookUp 0,
      AllocateIp 0, AddSession 0] = Some s \<and> byClient (pool s) ''alice'' = Some 0x0A080002"
proof -
  obtain s where s: "srv_moves sample_server [Accept 0 ''h'', Handshake 0 (HsCommonName ''alice''),
      LookUp 0, AllocateIp 0, AddSession 0] = Some s"
    and "byIPv4 (registry s) 0x0A080002 = Some \<lparr>s_id = 0, s_cn = ''alice'', s_ip = 0x0A080002\<rparr>"
    by (simp add: sample_eval)
  from routes_to_address_holder [OF sample_server_new srv_moves_reach [OF s] this(2)] s
  show ?thesis by auto
qed

text \<open>The precondition of \<open>Registry.Add\<close>: whenever a connection is about to add its session, no
  session with its name and none with its address is registered, even after a kick that timed
  out.\<close>

theorem add_precondition:
  assumes "server_new load_tls cfg dev = Inr (cfg', s0)" and "srv_step\<^sup>*\<^sup>* s0 s"
    and "phases s c = Adding k cn a"
  shows "registry_by_cn (registry s) cn = None \<and> registry_by_ipv4 (registry s) (V4 a) = None"
proof -
  have "srv_inv s" using assms(1,2) by (blast intro: keeps)
  from add_is_fresh [OF this assms(3)] show ?thesis
    by (simp add: registry_by_cn_def registry_by_ipv4_def)
qed

theorem add_precondition_witness:
  "\<exists>s. srv_moves sample_server [Accept 0 ''h'', Handshake 0 (HsCommonName ''alice''), LookUp 0,
      AllocateIp 0] = Some s \<and> registry_by_cn (registry s) ''alice'' = None"
proof -
  obtain s where s: "srv_moves sample_server [Accept 0 ''h'', Handshake 0 (HsCommonName ''alice''),
      LookUp 0, AllocateIp 0] = Some s" and "phases s 0 = Adding 0 ''alice'' 0x0A080002"
    by (simp add: sample_eval)
  from add_precondition [OF sample_server_new srv_moves_reach [OF s] this(2)] s
  show ?thesis by auto
qed

lemma timers_empty_limiter:
  assumes "lim_inv r" and "in_flight r = timers r" and "mset hs = timers r"
  shows "lim_inv (lim_steps r (map TimerFires hs)) \<and> in_flight (lim_steps r (map TimerFires hs)) = {#}"
  using assms
proof (induction hs arbitrary: r)
  case (Cons h hs)
  let ?r = "lim_step r (TimerFires h)"
  from Cons.prems(3) have h: "h \<in># timers r" by (metis list.set_intros(1) set_mset_mset)
  then have "slots ?r = slots r" "timers ?r = timers r - {#h#}" by simp_all
  moreover from Cons.prems(3) have "mset hs = timers r - {#h#}" by (metis add_mset_remove_trivial mset.simps(2))
  ultimately have "in_flight ?r = timers ?r" "mset hs = timers ?r"
    using Cons.prems(2) by (simp_all add: in_flight_def)
  from Cons.IH [OF lim_step_inv [OF Cons.prems(1)] this] show ?case
    by (simp only: list.map lim_steps.simps)
qed simp

text \<open>(C5) Nothing leaks: when every connection that was accepted has left \<open>handleConn\<close>, however it
  left, no identity holds an address and no session is registered; what the limiter still counts, in total and
  for each address, are the penalty timers of failed handshakes that have not fired, and when they have
  fired it counts nothing.\<close>

theorem teardown_complete:
  assumes "server_new load_tls cfg dev = Inr (cfg', s0)" and "srv_step\<^sup>*\<^sup>* s0 s"
    and "\<forall>c. phases s c = Idle \<or> phases s c = Gone"
  shows "byClient (pool s) = Map.empty \<and> byCN (registry s) = Map.empty
    \<and> byIPv4 (registry s) = Map.empty
    \<and> in_flight (limits s) = timers (limits s)
    \<and> total (lim (limits s)) = int (size (timers (limits s)))
    \<and> (\<forall>h. perIP (lim (limits s)) h =
          (if h \<in># timers (limits s) then Some (int (count (timers (limits s)) h)) else None))
    \<and> (\<forall>hs. mset hs = timers (limits s) \<longrightarrow>
          total (lim (lim_steps (limits s) (map TimerFires hs))) = 0
          \<and> perIP (lim (lim_steps (limits s) (map TimerFires hs))) = Map.empty)"
proof -
  have inv: "srv_inv s" using assms(1,2) by (blast intro: keeps)
  note left = nothing_left [OF inv assms(3)]
  have lim: "lim_inv (limits s)" using srv_invD(3) [OF inv] .
  then have "counts (lim (limits s)) (timers (limits s))" using left by (simp add: lim_inv_def)
  moreover have "total (lim (lim_steps (limits s) (map TimerFires hs))) = 0
      \<and> perIP (lim (lim_steps (limits s) (map TimerFires hs))) = Map.empty"
    if "mset hs = timers (limits s)" for hs
    using timers_empty_limiter [OF lim _ that] left by (auto simp: lim_inv_def counts_def)
  ultimately show ?thesis using left by (auto simp: counts_def)
qed

theorem teardown_complete_witness:
  "\<exists>s. srv_moves sample_server [Accept 0 ''h'', Handshake 0 (HsCommonName ''alice''), LookUp 0,
      AllocateIp 0, AddSession 0, SendAssign 0 False, RemoveSession 0, ReleaseIp 0, CloseDone 0,
      Leave 0] = Some s \<and> byClient (pool s) = Map.empty"
proof -
  obtain s where s: "srv_moves sample_server [Accept 0 ''h'', Handshake 0 (HsCommonName ''alice''),
      LookUp 0, AllocateIp 0, AddSession 0, SendAssign 0 False, RemoveSession 0, ReleaseIp 0,
      CloseDone 0, Leave 0] = Some s"
    and "\<forall>c. phases s c = Idle \<or> phases s c = Gone"
    by (simp add: sample_eval)
  from teardown_complete [OF sample_server_new srv_moves_reach [OF s] this(2)] s
  show ?thesis by auto
qed

text \<open>What \<open>Done\<close> promises: once the \<open>Done\<close> channel of a session is closed, the session is not
  registered any more and its connection holds no address, so a reconnect that waited for it is
  not stopped by it.\<close>

theorem done_means_released:
  assumes "server_new load_tls cfg dev = Inr (cfg', s0)" and "srv_step\<^sup>*\<^sup>* s0 s"
    and "t \<in> finished s"
  shows "registry_by_cn (registry s) (s_cn t) \<noteq> Some t \<and> holds (phases s (s_id t)) = None"
proof -
  have inv: "srv_inv s" using assms(1,2) by (blast intro: keeps)
  have ph: "phases s (s_id t) = Gone \<or> (\<exists>k hs. phases s (s_id t) = Leaving k hs)"
    using srv_invD(8) [OF inv assms(3)] .
  have "byCN (registry s) (s_cn t) \<noteq> Some t"
  proof
    assume "byCN (registry s) (s_cn t) = Some t"
    then have "byIPv4 (registry s) (s_ip t) = Some t"
      using reg_cnD [OF srv_invD(2) [OF inv]] by blast
    with registered_at [OF inv this] ph show False by auto
  qed
  with ph show ?thesis by (auto simp: registry_by_cn_def)
qed

theorem done_means_released_witness:
  "\<exists>s. srv_moves sample_server [Accept 0 ''h'', Handshake 0 (HsCommonName ''alice''), LookUp 0,
      AllocateIp 0, AddSession 0, SendAssign 0 True, EndSession 0, RemoveSession 0, ReleaseIp 0,
      CloseDone 0] = Some s \<and> holds (phases s 0) = None"
proof -
  obtain s where s: "srv_moves sample_server [Accept 0 ''h'', Handshake 0 (HsCommonName ''alice''),
      LookUp 0, AllocateIp 0, AddSession 0, SendAssign 0 True, EndSession 0, RemoveSession 0,
      ReleaseIp 0, CloseDone 0] = Some s"
    and "\<lparr>s_id = 0, s_cn = ''alice'', s_ip = 0x0A080002\<rparr> \<in> finished s"
    by (simp add: sample_eval)
  from done_means_released [OF sample_server_new srv_moves_reach [OF s] this(2)] s
  show ?thesis by auto
qed

text \<open>A kick that times out does not admit the client: as long as another connection still holds
  the address of that identity, the only way on from the allocation is the refusal \<open>no_ip\<close>.\<close>

theorem slow_teardown_refused:
  assumes "server_new load_tls cfg dev = Inr (cfg', s0)" and "srv_step\<^sup>*\<^sup>* s0 s"
    and "phases s c = Allocating k cn" and "holds (phases s d) = Some (cn, a)"
  shows "pool_allocate (pool s) cn = (Inl ErrAlreadyAllocated, pool s)
    \<and> {phases t c |t. srv_step s t} \<subseteq> {Allocating k cn, Leaving k True}"
proof -
  have "srv_inv s" using assms(1,2) by (blast intro: keeps)
  from tracks_claim [OF srv_invD(4) [OF this], of d cn a] assms(4)
  have "byClient (pool s) cn = Some a" by simp
  then have al: "pool_allocate (pool s) cn = (Inl ErrAlreadyAllocated, pool s)"
    by (simp add: pool_allocate_def)
  have "phases t c = Allocating k cn \<or> phases t c = Leaving k True" if "srv_step s t" for t
    using that assms(3) al by cases auto
  with al show ?thesis by blast
qed

theorem slow_teardown_refused_witness:
  "\<exists>s. srv_moves sample_server [Accept 0 ''h'', Handshake 0 (HsCommonName ''alice''), LookUp 0,
      AllocateIp 0, AddSession 0, SendAssign 0 True, Accept 1 ''h'',
      Handshake 1 (HsCommonName ''alice''), LookUp 1, KickTimeout 1] = Some s
    \<and> fst (pool_allocate (pool s) ''alice'') = Inl ErrAlreadyAllocated"
proof -
  obtain s where s: "srv_moves sample_server [Accept 0 ''h'', Handshake 0 (HsCommonName ''alice''),
      LookUp 0, AllocateIp 0, AddSession 0, SendAssign 0 True, Accept 1 ''h'',
      Handshake 1 (HsCommonName ''alice''), LookUp 1, KickTimeout 1] = Some s"
    and "phases s 1 = Allocating 1 ''alice''" and "holds (phases s 0) = Some (''alice'', 0x0A080002)"
    by (simp add: sample_eval)
  from slow_teardown_refused [OF sample_server_new srv_moves_reach [OF s] this(2,3)] s
  show ?thesis by auto
qed

text \<open>How many calls a connection is away from its end.\<close>

fun rank :: "phase \<Rightarrow> nat" where
  "rank Idle = 12"
| "rank (Handshaking k) = 11"
| "rank (Admitting k cn) = 10"
| "rank (Waiting k cn s) = 9"
| "rank (Allocating k cn) = 8"
| "rank (Adding k cn a) = 7"
| "rank (Assigning k s) = 6"
| "rank (Running k s) = 5"
| "rank (Removing k s) = 4"
| "rank (Releasing k s) = 3"
| "rank (Finishing k s) = 2"
| "rank (Leaving k hs) = 1"
| "rank Gone = 0"

lemma move_possible:
  assumes "phases s c \<noteq> Gone"
  shows "\<exists>t. srv_step s t \<and> rank (phases t c) < rank (phases s c)"
proof (cases "phases s c")
  case Idle
  then show ?thesis
    by (cases "limiter_acquire (lim (limits s)) []") (fastforce intro: srv_step.accept srv_step.reject)+
next
  case (Handshaking k)
  then show ?thesis by (fastforce intro: srv_step.handshake_fails)
next
  case (Admitting k cn)
  then show ?thesis
    by (cases "registry_by_cn (registry s) cn") (fastforce intro: srv_step.no_previous srv_step.kick)+
next
  case (Waiting k cn prev)
  then show ?thesis by (fastforce intro: srv_step.kick_timeout)
next
  case (Allocating k cn)
  obtain r p where "pool_allocate (pool s) cn = (r, p)" by fastforce
  with Allocating show ?thesis
    by (cases r) (fastforce intro: srv_step.allocated srv_step.refused)+
next
  case (Adding k cn a)
  then show ?thesis by (fastforce intro: srv_step.added)
next
  case (Assigning k sess)
  then show ?thesis by (fastforce intro: srv_step.assigned)
next
  case (Running k sess)
  then show ?thesis by (fastforce intro: srv_step.ended)
next
  case (Removing k sess)
  then show ?thesis by (fastforce intro: srv_step.removed)
next
  case (Releasing k sess)
  then show ?thesis by (fastforce intro: srv_step.released)
next
  case (Finishing k sess)
  then show ?thesis by (fastforce intro: srv_step.finish)
next
  case (Leaving k hs)
  then show ?thesis by (fastforce intro: srv_step.leave simp del: lim_step.simps)
next
  case Gone
  with assms show ?thesis by simp
qed

text \<open>No connection gets stuck and none goes round: in every state a connection that has not left
  has a step that takes it further, and any step of the server either leaves a connection where it
  is or takes it strictly closer to its end.\<close>

theorem connections_progress:
  "((\<exists>t. srv_step s t \<and> rank (phases t c) < rank (phases s c)) \<or> phases s c = Gone)
   \<and> {phases t c |t. srv_step s t} \<subseteq> {p. p = phases s c \<or> rank p < rank (phases s c)}"
proof -
  have "phases t c = phases s c \<or> rank (phases t c) < rank (phases s c)" if "srv_step s t" for t
    using that by cases auto
  with move_possible show ?thesis by blast
qed

text \<open>The keepalive interval announced to clients: 0 exactly when keepalives are off, and otherwise
  at least one second, never less than the interval and less than one second more.\<close>

theorem keepalive_secs_bounds:
  "(keepalive_secs ka = 0 \<longleftrightarrow> ka \<le> 0)
   \<and> (ka \<le> 0 \<or> (1 \<le> keepalive_secs ka \<and> ka \<le> keepalive_secs ka * second
        \<and> keepalive_secs ka * second < ka + second))"
  unfolding keepalive_secs_def second_def by (auto; presburger)

text \<open>A server that starts has a gateway no client can be given: its pool hands out neither the
  gateway nor an address outside the subnet, all connections start idle, and its handshake timeout
  is positive whatever the configuration says.\<close>

theorem server_new_sound:
  assumes "server_new load_tls cfg dev = Inr (cfg', s)"
  shows "0 < sc_handshake_timeout cfg'
    \<and> (\<exists>gw g u ones. parse_ip (sc_gateway cfg) = Some gw \<and> ip_to4 gw = Some g
        \<and> parse_cidr (sc_subnet cfg) = Some (V4 u, ones) \<and> g \<notin> set (addrs (pool s))
        \<and> set (addrs (pool s)) \<subseteq> {cidr_base u ones <..< cidr_broadcast (cidr_base u ones) ones})"
proof -
  from server_new_Inr [OF assms] obtain gw p where gw: "parse_ip (sc_gateway cfg) = Some gw"
    and p: "pool_new (sc_subnet cfg) [gw] = Inr p" and s: "pool s = p" by auto
  from gw assms obtain g where g: "ip_to4 gw = Some g"
    unfolding server_new_def by (auto split: if_splits sum.splits)
  from p obtain u ones where cidr: "parse_cidr (sc_subnet cfg) = Some (V4 u, ones)"
    by (auto simp: pool_new_def split: option.splits prod.splits ip.splits)
  have base: "cidr_base u ones \<noteq> - 1"
    by (rule cidr_base_not_max) (use pool_new_ones [OF p cidr] in simp)
  have "cidr_base u ones < a \<and> a < cidr_broadcast (cidr_base u ones) ones \<and> a \<noteq> g"
    if "a \<in> set (addrs p)" for a
    using that pool_new_addrs [OF p cidr] g cidr_below_max [OF _ _ _ base] by auto
  moreover have "0 < sc_handshake_timeout cfg'"
    using assms unfolding server_new_def default_handshake_timeout_def second_def
    by (auto split: if_splits sum.splits option.splits)
  ultimately show ?thesis using gw g cidr s by fastforce
qed

theorem server_new_sound_witness:
  "0x0A080001 \<notin> set (addrs (pool sample_server)) \<and> 0 < sc_handshake_timeout sample_config"
  using server_new_sound [OF sample_server_new] by (auto simp: sample_server_def)

end
