(* ===== verification/Endpoints.thy ===== *)
theory Endpoints
  imports Netaddr
begin

text \<open>
  The addresses of a node (\<open>src/internal/tunnel/client/endpoints.go\<close>): how a client builds the list
  it walks, and the ring that remembers where it is. The ring runs under its mutex, so its
  operations are functions of the ring. \<open>Endpoint.Server\<close> is \<open>ep_server\<close>, and so on.
\<close>

record endpoint =
  ep_server :: string
  ep_server_name :: string
  ep_label :: string

definition endpoint_string :: "endpoint \<Rightarrow> string" where
  "endpoint_string e =
     (if ep_label e \<noteq> [] then ep_server e @ '' ('' @ ep_label e @ '')'' else ep_server e)"

datatype endpoint_err = EmptyServer | EmptyAddress | NoServerName string

definition normalize_endpoint :: "endpoint \<Rightarrow> endpoint_err + endpoint" where
  "normalize_endpoint ep =
     (if ep_server ep = [] then Inl EmptyAddress
      else if ep_server_name ep = [] then
        (case split_host_port (ep_server ep) of
           None \<Rightarrow> Inl (NoServerName (ep_server ep))
         | Some (h, p) \<Rightarrow>
             (if h = [] then Inl (NoServerName (ep_server ep))
              else Inr (ep\<lparr>ep_server_name := h\<rparr>)))
      else Inr ep)"

definition normalize_endpoints ::
    "endpoint list \<Rightarrow> string \<Rightarrow> string \<Rightarrow> endpoint_err + endpoint list" where
  "normalize_endpoints eps server server_name =
     (if eps = [] then
        (if server = [] then Inl EmptyServer
         else rtraverse normalize_endpoint
                [\<lparr>ep_server = server, ep_server_name = server_name, ep_label = []\<rparr>])
      else rtraverse normalize_endpoint eps)"

section \<open>The ring\<close>

record ring =
  eps :: "endpoint list"
  idx :: nat
  tried :: nat

text \<open>The first endpoint that satisfies a test, and the top of the list when none does.\<close>

fun first_index :: "('a \<Rightarrow> bool) \<Rightarrow> 'a list \<Rightarrow> nat option" where
  "first_index f [] = None"
| "first_index f (x # xs) = (if f x then Some 0 else map_option Suc (first_index f xs))"

definition new_endpoint_ring :: "endpoint list \<Rightarrow> string \<Rightarrow> ring" where
  "new_endpoint_ring es preferred =
     \<lparr>eps = es,
      idx = (case first_index (\<lambda>ep. preferred \<noteq> [] \<and> ep_server ep = preferred) es of
               None \<Rightarrow> 0 | Some i \<Rightarrow> i),
      tried = 0\<rparr>"

definition ring_current :: "ring \<Rightarrow> endpoint" where
  "ring_current r = eps r ! idx r"

definition ring_advance :: "ring \<Rightarrow> bool \<times> ring" where
  "ring_advance r =
     (let r1 = (if length (eps r) > 1 then r\<lparr>idx := (idx r + 1) mod length (eps r)\<rparr> else r);
          r2 = r1\<lparr>tried := tried r1 + 1\<rparr>
      in if tried r2 \<ge> length (eps r2) then (True, r2\<lparr>tried := 0\<rparr>) else (False, r2))"

definition ring_succeeded :: "ring \<Rightarrow> endpoint \<times> ring" where
  "ring_succeeded r = (eps r ! idx r, r\<lparr>tried := 0\<rparr>)"

text \<open>The invariant: the index is in the list, and fewer endpoints than the list has have failed since
  the last success.\<close>

definition ring_ok :: "ring \<Rightarrow> bool" where
  "ring_ok r \<longleftrightarrow> idx r < length (eps r) \<and> tried r < length (eps r)"

lemma first_index_Some: "first_index f xs = Some i \<Longrightarrow> i < length xs \<and> f (xs ! i)"
  by (induction xs arbitrary: i) (auto split: if_splits)

lemma first_index_None: "first_index f xs = None \<longleftrightarrow> (\<forall>x \<in> set xs. \<not> f x)"
  by (induction xs) auto

lemma ring_ok_new [keeps]: "es \<noteq> [] \<Longrightarrow> ring_ok (new_endpoint_ring es p)"
  by (auto simp: ring_ok_def new_endpoint_ring_def split: option.splits dest: first_index_Some)

lemma ring_ok_advance [keeps]: "ring_ok r \<Longrightarrow> ring_ok (snd (ring_advance r))"
  by (auto simp: ring_ok_def ring_advance_def Let_def intro!: mod_less_divisor)

lemma ring_ok_succeeded [keeps]: "ring_ok r \<Longrightarrow> ring_ok (snd (ring_succeeded r))"
  by (auto simp: ring_ok_def ring_succeeded_def)

lemma eps_advance [simp]: "eps (snd (ring_advance r)) = eps r"
  by (simp add: ring_advance_def Let_def)

lemma eps_succeeded [simp]: "eps (snd (ring_succeeded r)) = eps r"
  by (simp add: ring_succeeded_def)

text \<open>On a ring that is in order, one advance is a rotation by one.\<close>

lemma ring_advance_ok:
  assumes "ring_ok r"
  shows "ring_advance r =
    (let n = length (eps r)
     in (tried r + 1 = n, r\<lparr>idx := (idx r + 1) mod n, tried := (tried r + 1) mod n\<rparr>))"
proof (cases "length (eps r) > 1")
  case True
  with assms show ?thesis
    by (cases "tried r + 1 = length (eps r)") (auto simp: ring_advance_def ring_ok_def Let_def)
next
  case False
  with assms have "length (eps r) = 1" "idx r = 0" "tried r = 0" by (auto simp: ring_ok_def)
  then show ?thesis by (simp add: ring_advance_def Let_def)
qed

text \<open>The endpoints dialled and the answers of \<open>advance\<close> over \<open>n\<close> failures in a row.\<close>

fun ring_failures :: "nat \<Rightarrow> ring \<Rightarrow> (endpoint \<times> bool) list \<times> ring" where
  "ring_failures 0 r = ([], r)"
| "ring_failures (Suc n) r =
     (case ring_advance r of
        (cycled, r1) \<Rightarrow>
          (case ring_failures n r1 of (xs, r2) \<Rightarrow> ((ring_current r, cycled) # xs, r2)))"

lemma ring_failures_run:
  assumes "ring_ok r" and "n + tried r \<le> length (eps r)"
  shows "ring_failures n r =
    (map (\<lambda>i. (eps r ! ((idx r + i) mod length (eps r)), tried r + i + 1 = length (eps r))) [0..<n],
     r\<lparr>idx := (idx r + n) mod length (eps r), tried := (tried r + n) mod length (eps r)\<rparr>)"
  using assms
proof (induction n arbitrary: r)
  case 0
  then show ?case by (simp add: ring_ok_def)
next
  case (Suc n)
  let ?n = "length (eps r)"
  define r1 where "r1 = snd (ring_advance r)"
  have adv: "ring_advance r = (tried r + 1 = ?n, r1)"
    and r1: "r1 = r\<lparr>idx := (idx r + 1) mod ?n, tried := (tried r + 1) mod ?n\<rparr>"
    unfolding r1_def by (simp_all add: ring_advance_ok [OF Suc.prems(1)] Let_def)
  have ok: "ring_ok r1" unfolding r1_def by (rule ring_ok_advance [OF Suc.prems(1)])
  have cur: "ring_current r = eps r ! (idx r mod ?n)"
    using Suc.prems(1) by (simp add: ring_current_def ring_ok_def)
  show ?case
  proof (cases n)
    case 0
    with adv r1 cur show ?thesis by simp
  next
    case (Suc m)
    then have t: "Suc (tried r) mod ?n = Suc (tried r)" using Suc.prems(2) by simp
    have "n + tried r1 \<le> length (eps r1)" using Suc.prems(2) t by (simp add: r1)
    from Suc.IH [OF ok this] adv show ?thesis
      unfolding map_upt_Suc by (simp add: r1 t cur mod_simps add.commute add.left_commute del: upt_Suc)
  qed
qed

section \<open>Properties\<close>

text \<open>One full turn of the ring: from a fresh start or a success, as many failures in a row as the
  profile has endpoints dial every endpoint once, in the order of the list beginning with the
  current one; only the last of them reports a full cycle, and the ring is back where it was.\<close>

theorem ring_full_turn:
  assumes "ring_ok r" and "tried r = 0"
  shows "fst (ring_failures (length (eps r)) r) =
      zip (rotate (idx r) (eps r)) (replicate (length (eps r) - 1) False @ [True])
    \<and> snd (ring_failures (length (eps r)) r) = r"
proof -
  let ?n = "length (eps r)"
  have n: "0 < ?n" "idx r < ?n" using assms(1) by (auto simp: ring_ok_def)
  have run: "ring_failures ?n r =
      (map (\<lambda>i. (eps r ! ((idx r + i) mod ?n), i + 1 = ?n)) [0..<?n], r)"
    using ring_failures_run [OF assms(1), of ?n] assms(2) n by simp
  have "map (\<lambda>i. (eps r ! ((idx r + i) mod ?n), i + 1 = ?n)) [0..<?n] =
      zip (rotate (idx r) (eps r)) (replicate (?n - 1) False @ [True])"
    by (rule nth_equalityI) (use n in \<open>auto simp: nth_rotate nth_append add.commute\<close>)
  with run show ?thesis by simp
qed

definition sample_endpoints :: "endpoint list" where
  "sample_endpoints =
     [\<lparr>ep_server = ''a:1'', ep_server_name = ''a'', ep_label = []\<rparr>,
      \<lparr>ep_server = ''b:1'', ep_server_name = ''b'', ep_label = ''backup''\<rparr>]"

theorem ring_full_turn_witness:
  "map snd (fst (ring_failures 2 (new_endpoint_ring sample_endpoints ''b:1''))) = [False, True]"
proof -
  have "ring_ok (new_endpoint_ring sample_endpoints ''b:1'')"
    by (rule ring_ok_new) (simp add: sample_endpoints_def)
  moreover have "tried (new_endpoint_ring sample_endpoints ''b:1'') = 0"
    by (simp add: new_endpoint_ring_def)
  moreover have "length (eps (new_endpoint_ring sample_endpoints ''b:1'')) = 2"
    by (simp add: new_endpoint_ring_def sample_endpoints_def)
  ultimately show ?thesis
    using ring_full_turn [of "new_endpoint_ring sample_endpoints ''b:1''"]
    by (simp add: numeral_2_eq_2)
qed

text \<open>After a success the ring does not stay: with more than one endpoint, the attempt that follows
  the end of a working session dials the endpoint after the one that worked, and the one that worked
  comes back only after all the others.\<close>

theorem success_then_failure_moves_on:
  assumes "ring_ok r" and "1 < length (eps r)"
  shows "idx (snd (ring_advance (snd (ring_succeeded r)))) \<noteq> idx r
    \<and> \<not> fst (ring_advance (snd (ring_succeeded r)))
    \<and> idx (snd (ring_failures (length (eps r)) (snd (ring_succeeded r)))) = idx r"
proof -
  let ?s = "snd (ring_succeeded r)" and ?n = "length (eps r)"
  have ok: "ring_ok ?s" using assms(1) by (rule ring_ok_succeeded)
  have s: "idx ?s = idx r" "tried ?s = 0" "eps ?s = eps r" by (simp_all add: ring_succeeded_def)
  have "(idx r + 1) mod ?n \<noteq> idx r"
  proof
    assume "(idx r + 1) mod ?n = idx r"
    with assms show False by (cases "idx r + 1 = ?n") (auto simp: ring_ok_def)
  qed
  moreover have "ring_advance ?s = (1 = ?n, ?s\<lparr>idx := (idx r + 1) mod ?n, tried := 1 mod ?n\<rparr>)"
    using ring_advance_ok [OF ok] by (simp add: s Let_def)
  moreover have "idx (snd (ring_failures ?n ?s)) = idx r"
    using ring_failures_run [OF ok, of ?n] assms(1) by (simp add: s ring_ok_def)
  ultimately show ?thesis using assms(2) by simp
qed

theorem success_then_failure_moves_on_witness:
  "idx (snd (ring_advance (snd (ring_succeeded (new_endpoint_ring sample_endpoints []))))) \<noteq> 0"
proof -
  have "ring_ok (new_endpoint_ring sample_endpoints [])"
    by (rule ring_ok_new) (simp add: sample_endpoints_def)
  moreover have "1 < length (eps (new_endpoint_ring sample_endpoints []))"
    by (simp add: new_endpoint_ring_def sample_endpoints_def)
  ultimately show ?thesis
    using success_then_failure_moves_on [of "new_endpoint_ring sample_endpoints []"]
    by (simp add: new_endpoint_ring_def sample_endpoints_def)
qed

text \<open>A normalised list is one the client can walk: it is not empty, keeps the addresses and labels
  in their order, and every entry has an address and a name to verify the certificate against.\<close>

theorem normalize_endpoints_usable:
  assumes "normalize_endpoints es server name = Inr out"
  shows "out \<noteq> [] \<and> map ep_server out = (if es = [] then [server] else map ep_server es)
    \<and> list_all (\<lambda>e. ep_server e \<noteq> [] \<and> ep_server_name e \<noteq> []) out"
proof -
  have one: "normalize_endpoint e = Inr e' \<Longrightarrow>
      ep_server e' = ep_server e \<and> ep_server e' \<noteq> [] \<and> ep_server_name e' \<noteq> []" for e e'
    by (auto simp: normalize_endpoint_def split: if_splits option.splits)
  have many: "list_all2 (\<lambda>e e'. normalize_endpoint e = Inr e') xs ys \<Longrightarrow>
      map ep_server ys = map ep_server xs
      \<and> list_all (\<lambda>e. ep_server e \<noteq> [] \<and> ep_server_name e \<noteq> []) ys" for xs ys
    by (induction rule: list_all2_induct) (auto dest: one)
  show ?thesis
  proof (cases "es = []")
    case True
    with assms have "list_all2 (\<lambda>e e'. normalize_endpoint e = Inr e')
        [\<lparr>ep_server = server, ep_server_name = name, ep_label = []\<rparr>] out"
      by (auto simp: normalize_endpoints_def rtraverse_Inr_iff simp del: rtraverse.simps split: if_splits)
    with many [OF this] True show ?thesis by auto
  next
    case False
    with assms have "list_all2 (\<lambda>e e'. normalize_endpoint e = Inr e') es out"
      by (simp add: normalize_endpoints_def rtraverse_Inr_iff)
    with many [OF this] False show ?thesis by auto
  qed
qed

theorem normalize_endpoints_usable_witness:
  "list_all (\<lambda>e. ep_server e \<noteq> [] \<and> ep_server_name e \<noteq> []) sample_endpoints"
proof -
  have "normalize_endpoints sample_endpoints [] [] = Inr sample_endpoints"
    by (simp add: normalize_endpoints_def normalize_endpoint_def sample_endpoints_def)
  from normalize_endpoints_usable [OF this] show ?thesis by blast
qed

end
