(* ===== verification/Reconnect.thy ===== *)
theory Reconnect
  imports Endpoints
begin

text \<open>
  The reconnect loop of the client (\<open>src/internal/tunnel/client/reconnect.go\<close>, sentinels of
  \<open>errors.go\<close>): how a failed attempt is classified, how long the loop waits, and when it gives up.
  An attempt, that is a call of \<open>connectOnce\<close>, is one \<open>round\<close> of the loop: what it returned, how long
  it held, and what the loop sees of the context and of the TUN poller on the way to the next one.
  Durations are \<open>int64\<close> nanoseconds; \<open>wrap64\<close> is the wrap-around of their arithmetic.
\<close>

section \<open>Errors\<close>

datatype sentinel = ErrFatalAuth | ErrFatalServer | ErrFatalConfig | ErrSuspectedAuth

datatype cert_type =
    CertificateVerificationError
  | UnknownAuthorityError
  | CertificateInvalidError
  | HostnameError

text \<open>An error as the loop sees it: the sentinels and certificate errors it wraps, and its text.\<close>

record go_error =
  e_is :: "sentinel set"
  e_as :: "cert_type set"
  e_text :: string

fun sentinel_text :: "sentinel \<Rightarrow> string" where
  "sentinel_text ErrFatalAuth = ''client: tls authentication failed''"
| "sentinel_text ErrFatalServer = ''client: server reported error''"
| "sentinel_text ErrFatalConfig = ''client: TUN configuration failed''"
| "sentinel_text ErrSuspectedAuth = ''client: suspected auth failure (unverified TLS alert)''"

text \<open>\<open>fmt.Errorf("%w: %v", sentinel, err)\<close>: only the sentinel stays visible to \<open>errors.Is\<close>.\<close>

definition wrap_error :: "sentinel \<Rightarrow> string \<Rightarrow> go_error" where
  "wrap_error s text = \<lparr>e_is = {s}, e_as = {}, e_text = sentinel_text s @ '': '' @ text\<rparr>"

definition plain_error :: "string \<Rightarrow> go_error" where
  "plain_error text = \<lparr>e_is = {}, e_as = {}, e_text = text\<rparr>"

definition is_fatal :: "go_error \<Rightarrow> bool" where
  "is_fatal e \<longleftrightarrow> ErrFatalAuth \<in> e_is e \<or> ErrFatalServer \<in> e_is e \<or> ErrFatalConfig \<in> e_is e"

definition is_local_cert_error :: "go_error \<Rightarrow> bool" where
  "is_local_cert_error e \<longleftrightarrow>
     CertificateVerificationError \<in> e_as e \<or> UnknownAuthorityError \<in> e_as e
     \<or> CertificateInvalidError \<in> e_as e \<or> HostnameError \<in> e_as e
     \<or> contains (e_text e) ''certificate signed by unknown authority''
     \<or> contains (e_text e) ''tls: failed to verify certificate''"

definition is_remote_cert_alert :: "go_error \<Rightarrow> bool" where
  "is_remote_cert_alert e \<longleftrightarrow>
     contains (e_text e) ''bad certificate'' \<or> contains (e_text e) ''unknown certificate authority''
     \<or> contains (e_text e) ''certificate required''"

definition classify_connect_error :: "go_error \<Rightarrow> go_error" where
  "classify_connect_error e =
     (if is_local_cert_error e then wrap_error ErrFatalAuth (e_text e)
      else if is_remote_cert_alert e then wrap_error ErrSuspectedAuth (e_text e)
      else e)"

definition suspected_auth_limit :: nat where "suspected_auth_limit = 5"

definition suspected_auth_exit :: "go_error \<Rightarrow> nat \<Rightarrow> nat \<times> bool" where
  "suspected_auth_exit e streak =
     (if ErrSuspectedAuth \<notin> e_is e then (0, False)
      else (streak + 1, streak + 1 \<ge> suspected_auth_limit))"

definition device_gone :: "string \<Rightarrow> go_error" where
  "device_gone cause = wrap_error ErrFatalConfig (''TUN device read: '' @ cause)"

section \<open>Backoff\<close>

definition wrap64 :: "int \<Rightarrow> int" where
  "wrap64 i = sint (word_of_int i :: 64 word)"

definition max_shift :: int where "max_shift = 30"

text \<open>\<open>rnd n\<close> is what \<open>rand.Int63n(n)\<close> returns.\<close>

definition backoff :: "(int \<Rightarrow> int) \<Rightarrow> int \<Rightarrow> int \<Rightarrow> int \<Rightarrow> int" where
  "backoff rnd minD maxD attempt =
     (let n = (if attempt < 0 then 0 else if attempt > max_shift then max_shift else attempt);
          base = wrap64 (minD * 2 ^ nat n);
          ceiling = (if wrap64 (maxD - minD) < 0 then 0 else wrap64 (maxD - minD));
          base' = (if base \<le> 0 \<or> base > ceiling then ceiling else base);
          jitter = (if minD > 0 then rnd minD else 0);
          d = wrap64 (base' + jitter);
          d' = (if d < minD then minD else d)
      in if d' > maxD then maxD else d')"

section \<open>The loop\<close>

definition reconnect_reset_after :: int where "reconnect_reset_after = 30 * 1000000000"

datatype wait_end = WaitOver | WaitCancelled | WaitDeviceDied string

record round =
  device_before :: "string option"
  reached :: bool
  outcome :: "go_error option"
  held :: int
  cancelled_after :: bool
  cancelled_late :: bool
  wait_ends :: wait_end

record loop_state =
  l_attempt :: int
  l_suspected :: nat
  l_ring :: ring

datatype loop_event = EmitConnecting | Dial endpoint | EmitReconnecting | Wait int

text \<open>One turn of the loop: what it reports, and its state for the next turn or its result.\<close>

definition reconnect_turn ::
    "(int \<Rightarrow> int) \<Rightarrow> int \<Rightarrow> int \<Rightarrow> loop_state \<Rightarrow> round \<Rightarrow> loop_event list \<times> (loop_state + go_error option)" where
  "reconnect_turn rnd minD maxD s r =
     (case device_before r of
        Some cause \<Rightarrow> ([], Inr (Some (device_gone cause)))
      | None \<Rightarrow>
          (let ring1 = (if reached r then snd (ring_succeeded (l_ring s)) else l_ring s);
               log = [EmitConnecting, Dial (ring_current (l_ring s))]
           in case outcome r of
                None \<Rightarrow> (log, Inr None)
              | Some e \<Rightarrow>
                  (if cancelled_after r then (log, Inr None)
                   else if is_fatal e then (log, Inr (Some e))
                   else
                     (case suspected_auth_exit e (l_suspected s) of
                        (susp, True) \<Rightarrow> (log, Inr (Some e))
                      | (susp, False) \<Rightarrow>
                          (let att = (if held r \<ge> reconnect_reset_after then 0 else l_attempt s)
                           in case ring_advance ring1 of
                                (False, ring2) \<Rightarrow>
                                  (if cancelled_late r then (log, Inr None)
                                   else (log @ [EmitReconnecting],
                                         Inl \<lparr>l_attempt = att, l_suspected = susp, l_ring = ring2\<rparr>))
                              | (True, ring2) \<Rightarrow>
                                  (if cancelled_late r then (log, Inr None)
                                   else
                                     (let d = backoff rnd minD maxD att;
                                          log' = log @ [EmitReconnecting, Wait d]
                                      in case wait_ends r of
                                           WaitCancelled \<Rightarrow> (log', Inr None)
                                         | WaitDeviceDied cause \<Rightarrow> (log', Inr (Some (device_gone cause)))
                                         | WaitOver \<Rightarrow>
                                             (log', Inl \<lparr>l_attempt = att + 1, l_suspected = susp,
                                                         l_ring = ring2\<rparr>))))))))"

fun reconnect_loop ::
    "(int \<Rightarrow> int) \<Rightarrow> int \<Rightarrow> int \<Rightarrow> loop_state \<Rightarrow> round list
     \<Rightarrow> loop_event list \<times> (loop_state + go_error option)" where
  "reconnect_loop rnd minD maxD s [] = ([], Inl s)"
| "reconnect_loop rnd minD maxD s (r # rs) =
     (case reconnect_turn rnd minD maxD s r of
        (log, Inr res) \<Rightarrow> (log, Inr res)
      | (log, Inl s') \<Rightarrow>
          (case reconnect_loop rnd minD maxD s' rs of (log', res) \<Rightarrow> (log @ log', res)))"

definition loop_start :: "ring \<Rightarrow> loop_state" where
  "loop_start r = \<lparr>l_attempt = 0, l_suspected = 0, l_ring = r\<rparr>"

section \<open>Backoff: properties\<close>

lemma wrap64_id: "- (2 ^ 63) \<le> i \<Longrightarrow> i < 2 ^ 63 \<Longrightarrow> wrap64 i = i"
  unfolding wrap64_def by (simp add: signed_of_int signed_take_bit_int_eq_self)

text \<open>The wait stays in its interval: whatever the attempt, the wrap-around of the shift and the
  random number, the backoff lies between the configured minimum and maximum, and for a minimum below
  2^33 ns (8.5 s) and a maximum of at least twice the minimum it is exactly the doubled minimum, held
  below the maximum minus the minimum, plus the full jitter: clients that wait out a long outage keep
  their jitter.\<close>

theorem backoff_value:
  assumes "0 < minD" and "minD \<le> maxD" and "maxD < 2 ^ 63" and "0 \<le> rnd minD" and "rnd minD < minD"
  shows "minD \<le> backoff rnd minD maxD k \<and> backoff rnd minD maxD k \<le> maxD
    \<and> (minD < 2 ^ 33 \<and> 2 * minD \<le> maxD \<longrightarrow>
        backoff rnd minD maxD k =
          min (minD * 2 ^ nat (min (max k 0) 30)) (maxD - minD) + rnd minD)"
proof -
  define n where "n = nat (min (max k 0) 30)"
  have nk: "nat (if k < 0 then 0 else if k > max_shift then max_shift else k) = n"
    by (auto simp: n_def max_shift_def)
  have ceil: "wrap64 (maxD - minD) = maxD - minD" using assms by (intro wrap64_id) auto
  have exact: "backoff rnd minD maxD k = min (minD * 2 ^ n) (maxD - minD) + rnd minD"
    if small: "minD < 2 ^ 33" and wide: "2 * minD \<le> maxD"
  proof -
    define B where "B = minD * 2 ^ n"
    have "n \<le> 30" by (simp add: n_def)
    then have "(2::int) ^ n \<le> 2 ^ 30" by (intro power_increasing) auto
    then have "B \<le> (2 ^ 33 - 1) * 2 ^ 30"
      unfolding B_def using small assms(1) by (intro mult_mono) auto
    then have up: "B < 2 ^ 63" by (rule le_less_trans) simp
    have ge: "minD \<le> B" unfolding B_def using assms(1) by simp
    have base: "wrap64 B = B" using up ge assms(1) by (intro wrap64_id) auto
    have sum: "wrap64 (min B (maxD - minD) + rnd minD) = min B (maxD - minD) + rnd minD"
      using assms wide ge by (intro wrap64_id) auto
    show ?thesis
      unfolding backoff_def Let_def nk ceil B_def [symmetric] base
      using sum assms wide ge by (auto simp: min_def)
  qed
  moreover have "minD \<le> backoff rnd minD maxD k \<and> backoff rnd minD maxD k \<le> maxD"
    using assms(2) unfolding backoff_def Let_def by auto
  ultimately show ?thesis unfolding n_def by blast
qed

theorem backoff_value_witness:
  "backoff (\<lambda>n. 7) 1000000000 60000000000 3 = 8000000007"
  using backoff_value [of 1000000000 60000000000 "\<lambda>n. 7" 3] by simp

text \<open>The cap on the shift does not exclude the overflow it is there for: with a minimum of
  2^34 + 1 ns the shift by 30 wraps to a small positive number, which passes the test for overflow,
  and the wait drops back to the minimum although the attempt before waited nearly the maximum.\<close>

theorem backoff_overflow_not_caught:
  "backoff (\<lambda>n. 0) (2 ^ 34 + 1) (2 ^ 36) 30 = 2 ^ 34 + 1
   \<and> backoff (\<lambda>n. 0) (2 ^ 34 + 1) (2 ^ 36) 29 = 2 ^ 36 - (2 ^ 34 + 1)"
  by code_simp

section \<open>Giving up\<close>

text \<open>Only our own verifier ends the loop at once: an error that wraps no sentinel is classified as
  fatal exactly when it is a rejection by the local verifier; a certificate alert from the wire, which
  anybody can forge, is only suspected, and every other error passes unchanged.\<close>

theorem classify_connect_error_sound:
  assumes "e_is e = {}"
  shows "is_fatal (classify_connect_error e) = is_local_cert_error e
    \<and> (ErrSuspectedAuth \<in> e_is (classify_connect_error e)) =
        (is_remote_cert_alert e \<and> \<not> is_local_cert_error e)
    \<and> (is_local_cert_error e \<or> is_remote_cert_alert e \<or> classify_connect_error e = e)"
  using assms by (simp add: classify_connect_error_def is_fatal_def wrap_error_def)

theorem classify_connect_error_sound_witness:
  "\<not> is_fatal (classify_connect_error (plain_error ''remote error: tls: bad certificate''))"
proof -
  have "\<not> is_local_cert_error (plain_error ''remote error: tls: bad certificate'')"
    by (simp add: is_local_cert_error_def plain_error_def starts_with_def)
  then show ?thesis
    using classify_connect_error_sound [of "plain_error ''remote error: tls: bad certificate''"]
    by (simp add: plain_error_def)
qed

text \<open>The rounds that failed with a certificate alert.\<close>

definition alert_round :: "round \<Rightarrow> bool" where
  "alert_round r \<longleftrightarrow> (\<exists>e. outcome r = Some e \<and> ErrSuspectedAuth \<in> e_is e)"

lemma device_gone_fatal [simp]: "is_fatal (device_gone c)"
  by (simp add: device_gone_def wrap_error_def is_fatal_def)

lemma reconnect_turn_exit:
  assumes "reconnect_turn rnd minD maxD s r = (log, Inr (Some e))"
  shows "is_fatal e \<or> alert_round r \<and> Suc (l_suspected s) \<ge> suspected_auth_limit"
  using assms unfolding reconnect_turn_def Let_def suspected_auth_exit_def alert_round_def
  by (auto split: option.splits if_splits prod.splits bool.splits wait_end.splits)

lemma reconnect_turn_streak:
  assumes "reconnect_turn rnd minD maxD s r = (log, Inl s')"
  shows "l_suspected s' = (if alert_round r then Suc (l_suspected s) else 0)"
  using assms unfolding reconnect_turn_def Let_def suspected_auth_exit_def alert_round_def
  by (auto split: option.splits if_splits prod.splits bool.splits wait_end.splits)

text \<open>The last \<open>n\<close> of a list of rounds all failed with an alert.\<close>

definition alert_suffix :: "nat \<Rightarrow> round list \<Rightarrow> bool" where
  "alert_suffix n rs \<longleftrightarrow> n \<le> length rs \<and> list_all alert_round (drop (length rs - n) rs)"

lemma alert_suffix_mono:
  assumes "alert_suffix m rs" and "n \<le> m"
  shows "alert_suffix n rs"
proof -
  have all: "list_all alert_round (drop k xs)" if "list_all alert_round xs" for k xs
    using that by (auto simp: list_all_iff dest: in_set_dropD)
  have "drop (length rs - n) rs = drop (m - n) (drop (length rs - m) rs)"
    using assms by (simp add: alert_suffix_def)
  with all assms show ?thesis unfolding alert_suffix_def by (metis order.trans)
qed

lemma alert_suffix_snoc:
  "alert_suffix n rs \<Longrightarrow> alert_round r \<Longrightarrow> alert_suffix (Suc n) (rs @ [r])"
  by (simp add: alert_suffix_def)

lemma reconnect_loop_exit:
  assumes "reconnect_loop rnd minD maxD s rs = (log, Inr (Some e))" and "alert_suffix (l_suspected s) past"
  shows "is_fatal e \<or> (\<exists>k \<le> length rs. alert_suffix suspected_auth_limit (past @ take k rs))"
  using assms
proof (induction rs arbitrary: s log past)
  case (Cons r rs)
  obtain log1 res where t: "reconnect_turn rnd minD maxD s r = (log1, res)" by fastforce
  show ?case
  proof (cases res)
    case (Inr x)
    with t Cons.prems(1) have "reconnect_turn rnd minD maxD s r = (log1, Inr (Some e))" by simp
    from reconnect_turn_exit [OF this] show ?thesis
    proof
      assume a: "alert_round r \<and> Suc (l_suspected s) \<ge> suspected_auth_limit"
      with alert_suffix_snoc [OF Cons.prems(2)] have "alert_suffix (Suc (l_suspected s)) (past @ [r])"
        by blast
      with a have "alert_suffix suspected_auth_limit (past @ take 1 (r # rs))"
        using alert_suffix_mono by simp
      then show ?thesis by (intro disjI2 exI [of _ 1]) simp
    qed simp
  next
    case (Inl s')
    with t have s': "reconnect_turn rnd minD maxD s r = (log1, Inl s')" by simp
    have "alert_suffix (l_suspected s') (past @ [r])"
      using reconnect_turn_streak [OF s'] alert_suffix_snoc [OF Cons.prems(2)]
      by (auto simp: alert_suffix_def)
    moreover obtain log2 where "reconnect_loop rnd minD maxD s' rs = (log2, Inr (Some e))"
      using Cons.prems(1) s' by (auto split: prod.splits)
    ultimately have "is_fatal e \<or> (\<exists>k \<le> length rs. alert_suffix suspected_auth_limit ((past @ [r]) @ take k rs))"
      by (intro Cons.IH)
    then show ?thesis by (auto intro: exI [of _ "Suc _"])
  qed
qed simp

text \<open>When the client gives up: the loop returns an error only if the error is fatal (our verifier's
  rejection, an error message of the server, a failed configuration, a dead TUN device) or if five
  attempts in a row ended with a certificate alert; no run of other failures ends it.\<close>

theorem reconnect_gives_up:
  assumes "reconnect_loop rnd minD maxD (loop_start ring) rs = (log, Inr (Some e))"
  shows "is_fatal e \<or> (\<exists>k \<le> length rs. alert_suffix 5 (take k rs))"
proof -
  have "alert_suffix (l_suspected (loop_start ring)) []"
    by (simp add: alert_suffix_def loop_start_def)
  from reconnect_loop_exit [OF assms this] show ?thesis by (simp add: suspected_auth_limit_def)
qed

definition sample_alert :: round where
  "sample_alert = \<lparr>device_before = None, reached = False,
     outcome = Some (classify_connect_error (plain_error ''remote error: tls: bad certificate'')),
     held = 0, cancelled_after = False, cancelled_late = False, wait_ends = WaitOver\<rparr>"

definition sample_refused :: round where
  "sample_refused = \<lparr>device_before = None, reached = False,
     outcome = Some (wrap_error ErrFatalServer ''no_ip''),
     held = 0, cancelled_after = False, cancelled_late = False, wait_ends = WaitOver\<rparr>"

theorem reconnect_gives_up_witness:
  "snd (reconnect_loop (\<lambda>n. 0) 1 60 (loop_start (new_endpoint_ring sample_endpoints []))
      [sample_refused]) = Inr (Some (wrap_error ErrFatalServer ''no_ip''))
   \<and> (is_fatal (wrap_error ErrFatalServer ''no_ip'')
      \<or> (\<exists>k \<le> 1. alert_suffix 5 (take k [sample_refused])))"
proof -
  obtain log where "reconnect_loop (\<lambda>n. 0) 1 60 (loop_start (new_endpoint_ring sample_endpoints []))
      [sample_refused] = (log, Inr (Some (wrap_error ErrFatalServer ''no_ip'')))"
    by (simp add: reconnect_turn_def sample_refused_def is_fatal_def wrap_error_def Let_def)
  with reconnect_gives_up [OF this] show ?thesis by simp
qed

text \<open>A round that failed in a way that says nothing about the client: no cancellation, a live device, an
  error that is neither fatal nor an alert.\<close>

definition retryable_round :: "round \<Rightarrow> bool" where
  "retryable_round r \<longleftrightarrow>
     device_before r = None \<and> \<not> cancelled_after r \<and> \<not> cancelled_late r \<and> wait_ends r = WaitOver
     \<and> (\<exists>e. outcome r = Some e \<and> \<not> is_fatal e \<and> ErrSuspectedAuth \<notin> e_is e)"

fun dials :: "loop_event list \<Rightarrow> endpoint list" where
  "dials [] = []"
| "dials (Dial ep # es) = ep # dials es"
| "dials (e # es) = dials es"

fun waits :: "loop_event list \<Rightarrow> int list" where
  "waits [] = []"
| "waits (Wait d # es) = d # waits es"
| "waits (e # es) = waits es"

lemma dials_append [simp]: "dials (xs @ ys) = dials xs @ dials ys"
  by (induction xs rule: dials.induct) simp_all

lemma waits_append [simp]: "waits (xs @ ys) = waits xs @ waits ys"
  by (induction xs rule: waits.induct) simp_all

lemma reconnect_turn_retryable:
  assumes "retryable_round r" and "\<not> reached r"
  shows "\<exists>s' d. reconnect_turn rnd minD maxD s r =
      ([EmitConnecting, Dial (ring_current (l_ring s)), EmitReconnecting]
        @ (if fst (ring_advance (l_ring s)) then [Wait d] else []), Inl s')
    \<and> l_ring s' = snd (ring_advance (l_ring s))"
  using assms unfolding retryable_round_def reconnect_turn_def Let_def suspected_auth_exit_def
  by (cases "ring_advance (l_ring s)"; cases "fst (ring_advance (l_ring s))")
    (auto split: bool.splits)

lemma reconnect_loop_retryable:
  assumes "list_all (\<lambda>r. retryable_round r \<and> \<not> reached r) rs" and "ring_ok (l_ring s)"
  shows "\<exists>log s'. reconnect_loop rnd minD maxD s rs = (log, Inl s')
    \<and> dials log = map (\<lambda>i. eps (l_ring s) ! ((idx (l_ring s) + i) mod length (eps (l_ring s))))
        [0..<length rs]
    \<and> length (waits log) = (tried (l_ring s) + length rs) div length (eps (l_ring s))"
  using assms
proof (induction rs arbitrary: s)
  case Nil
  then show ?case by (simp add: ring_ok_def)
next
  case (Cons r rs)
  let ?n = "length (eps (l_ring s))"
  from Cons.prems(1) obtain s' d where t: "reconnect_turn rnd minD maxD s r =
      ([EmitConnecting, Dial (ring_current (l_ring s)), EmitReconnecting]
        @ (if fst (ring_advance (l_ring s)) then [Wait d] else []), Inl s')"
    and s': "l_ring s' = snd (ring_advance (l_ring s))"
    using reconnect_turn_retryable [of r rnd minD maxD s] by auto
  have adv: "fst (ring_advance (l_ring s)) = (Suc (tried (l_ring s)) = ?n)"
    "idx (l_ring s') = Suc (idx (l_ring s)) mod ?n"
    "tried (l_ring s') = Suc (tried (l_ring s)) mod ?n"
    "eps (l_ring s') = eps (l_ring s)"
    unfolding s' ring_advance_ok [OF Cons.prems(2)] by (simp_all add: Let_def)
  from Cons.prems(1) have rest: "list_all (\<lambda>r. retryable_round r \<and> \<not> reached r) rs" by simp
  have ok: "ring_ok (l_ring s')" unfolding s' using Cons.prems(2) by (rule ring_ok_advance)
  from Cons.IH [OF rest ok] obtain log s'' where
    l: "reconnect_loop rnd minD maxD s' rs = (log, Inl s'')"
    and d: "dials log = map (\<lambda>i. eps (l_ring s) ! ((Suc (idx (l_ring s)) mod ?n + i) mod ?n))
      [0..<length rs]"
    and w: "length (waits log) = (Suc (tried (l_ring s)) mod ?n + length rs) div ?n"
    unfolding adv by blast
  have n: "tried (l_ring s) < ?n" "idx (l_ring s) < ?n" using Cons.prems(2) by (auto simp: ring_ok_def)
  have "(if Suc (tried (l_ring s)) = ?n then 1 else 0) + (Suc (tried (l_ring s)) mod ?n + length rs) div ?n
      = (tried (l_ring s) + Suc (length rs)) div ?n"
  proof (cases "Suc (tried (l_ring s)) = ?n")
    case True
    then have eq: "tried (l_ring s) + Suc (length rs) = length rs + ?n" by simp
    have "?n \<noteq> 0" using True by linarith
    then show ?thesis unfolding eq div_add_self2 [OF \<open>?n \<noteq> 0\<close>] using True by simp
  next
    case False
    with n have "Suc (tried (l_ring s)) mod ?n = Suc (tried (l_ring s))" by simp
    with False show ?thesis by simp
  qed
  moreover have "ring_current (l_ring s) = eps (l_ring s) ! (idx (l_ring s) mod ?n)"
    using n by (simp add: ring_current_def)
  ultimately show ?case
    unfolding length_Cons map_upt_Suc
    using t l d w
    by (cases "Suc (tried (l_ring s)) = ?n") (simp_all add: adv(1) mod_add_left_eq)
qed

lemma backoff_range: "min minD maxD \<le> backoff rnd minD maxD k \<and> backoff rnd minD maxD k \<le> maxD"
  by (auto simp: backoff_def Let_def)

lemma turn_waits: "w \<in> set (waits (fst (reconnect_turn rnd minD maxD s r))) \<Longrightarrow> min minD maxD \<le> w \<and> w \<le> maxD"
  using backoff_range [of minD maxD rnd] unfolding reconnect_turn_def Let_def
  by (auto split: option.splits if_splits prod.splits bool.splits wait_end.splits)

lemma loop_waits:
  "w \<in> set (waits (fst (reconnect_loop rnd minD maxD s rs))) \<Longrightarrow> min minD maxD \<le> w \<and> w \<le> maxD"
proof (induction rs arbitrary: s)
  case (Cons r rs)
  obtain log res where t: "reconnect_turn rnd minD maxD s r = (log, res)" by fastforce
  have w: "w \<in> set (waits log) \<Longrightarrow> ?case" using turn_waits [of w rnd minD maxD s r] t by simp
  show ?case
  proof (cases res)
    case (Inl s')
    obtain log' res' where "reconnect_loop rnd minD maxD s' rs = (log', res')" by fastforce
    with Cons.prems Cons.IH [of s'] w t Inl show ?thesis by auto
  next
    case (Inr x)
    with Cons.prems w t show ?thesis by simp
  qed
qed simp

text \<open>(C40) Persistence and pacing: as long as attempts fail before a session is reached and in ways that say nothing
  about the client, the loop goes on for ever; it dials the endpoints in turn from where it stands, and waits once
  per full round of the list, not once per attempt, each time between the configured minimum and maximum (the
  maximum, should it be the smaller).\<close>

theorem reconnect_keeps_trying:
  assumes "list_all (\<lambda>r. retryable_round r \<and> \<not> reached r) rs" and "es \<noteq> []"
  shows "\<exists>log s'. reconnect_loop rnd minD maxD (loop_start (new_endpoint_ring es pref)) rs = (log, Inl s')
    \<and> dials log = map (\<lambda>i. es ! ((idx (new_endpoint_ring es pref) + i) mod length es)) [0..<length rs]
    \<and> length (waits log) = length rs div length es
    \<and> (\<forall>w \<in> set (waits log). min minD maxD \<le> w \<and> w \<le> maxD)"
proof -
  have "ring_ok (l_ring (loop_start (new_endpoint_ring es pref)))"
    using assms(2) by (simp add: loop_start_def ring_ok_new)
  from reconnect_loop_retryable [OF assms(1) this, of rnd minD maxD]
  have "\<exists>log s'. reconnect_loop rnd minD maxD (loop_start (new_endpoint_ring es pref)) rs = (log, Inl s')
    \<and> dials log = map (\<lambda>i. es ! ((idx (new_endpoint_ring es pref) + i) mod length es)) [0..<length rs]
    \<and> length (waits log) = length rs div length es"
    by (simp add: loop_start_def new_endpoint_ring_def)
  then obtain log s' where
    l: "reconnect_loop rnd minD maxD (loop_start (new_endpoint_ring es pref)) rs = (log, Inl s')"
    and "dials log = map (\<lambda>i. es ! ((idx (new_endpoint_ring es pref) + i) mod length es)) [0..<length rs]"
    and "length (waits log) = length rs div length es" by blast
  moreover have "min minD maxD \<le> w \<and> w \<le> maxD" if "w \<in> set (waits log)" for w
    using loop_waits [of w rnd minD maxD "loop_start (new_endpoint_ring es pref)" rs] that l by simp
  ultimately show ?thesis by blast
qed

definition sample_timeout :: round where
  "sample_timeout = \<lparr>device_before = None, reached = False, outcome = Some (plain_error ''i/o timeout''),
     held = 0, cancelled_after = False, cancelled_late = False, wait_ends = WaitOver\<rparr>"

theorem reconnect_keeps_trying_witness:
  "\<exists>log s'. reconnect_loop (\<lambda>n. 0) 1 60 (loop_start (new_endpoint_ring sample_endpoints []))
      [sample_timeout, sample_timeout, sample_timeout] = (log, Inl s')
    \<and> map ep_server (dials log) = [''a:1'', ''b:1'', ''a:1''] \<and> length (waits log) = 1"
proof -
  have "list_all (\<lambda>r. retryable_round r \<and> \<not> reached r) [sample_timeout, sample_timeout, sample_timeout]"
    by (simp add: retryable_round_def sample_timeout_def plain_error_def is_fatal_def)
  moreover have "sample_endpoints \<noteq> []" by (simp add: sample_endpoints_def)
  ultimately obtain log s' where
    "reconnect_loop (\<lambda>n. 0) 1 60 (loop_start (new_endpoint_ring sample_endpoints []))
      [sample_timeout, sample_timeout, sample_timeout] = (log, Inl s')"
    and d: "dials log = map (\<lambda>i. sample_endpoints ! ((idx (new_endpoint_ring sample_endpoints []) + i)
      mod length sample_endpoints)) [0..<length [sample_timeout, sample_timeout, sample_timeout]]"
    and w: "length (waits log) =
      length [sample_timeout, sample_timeout, sample_timeout] div length sample_endpoints"
    using reconnect_keeps_trying by blast
  moreover have "map ep_server (dials log) = [''a:1'', ''b:1'', ''a:1'']"
    unfolding d by (simp add: sample_endpoints_def new_endpoint_ring_def upt_rec)
  moreover have "length (waits log) = 1" unfolding w by (simp add: sample_endpoints_def flip: numeral_3_eq_3 numeral_2_eq_2)
  ultimately show ?thesis by (intro exI conjI)
qed

end
