(* ===== verification/Route.thy ===== *)
theory Route
  imports Netaddr
begin

text \<open>
  The route manager of the client (\<open>src/internal/route/route.go\<close>): the pin-hole to the server, the
  pushed routes, their rollback, and the refresh of the pin-hole before a reconnect. The operating
  system is behind the Go interface \<open>Runner\<close>; its three calls are functions of the state \<open>'s\<close> of the
  system, given as a record. The manager never looks at the table. What is relied on is stated over a
  \<open>view\<close> of the system, the set of rows it keeps: \<open>lawful\<close> lets a delete fail with the route still
  there (\<open>v_stuck\<close>) and take other routes along (\<open>v_hit\<close>); \<open>exclusive\<close> is what a system adds that
  keeps one route for a destination. \<open>RouteTools\<close> derives both for the three runners of the client
  from the documented behaviour of the tools they call.
\<close>

section \<open>The operating system\<close>

record 's runner =
  default_gateway :: "'s \<Rightarrow> (string + ip) \<times> 's"
  add_route :: "prefix \<Rightarrow> ip \<Rightarrow> string \<Rightarrow> 's \<Rightarrow> string option \<times> 's"
  del_route :: "prefix \<Rightarrow> ip \<Rightarrow> string \<Rightarrow> 's \<Rightarrow> string option \<times> 's"

section \<open>The manager\<close>

record installed_key =
  k_prefix :: prefix
  k_gw :: ip
  k_iface :: string

record manager =
  m_iface :: string
  m_tunGW :: "ip option"
  m_server :: "ip option"
  m_pinholeGW :: "ip option"
  m_installed :: "installed_key list"

datatype route_err =
    ServerNotSet
  | TunGatewayNotSet
  | ServerNotIPv4 ip
  | TunGatewayNotIPv4 ip
  | QueryGateway string
  | InstallPinhole string
  | ParsePush string
  | InstallPush prefix string
  | RefreshGateway string
  | GatewayIsTunnel ip
  | ErrPinholeLost string
  | InvalidServer

definition new_manager :: "string \<Rightarrow> ip option \<Rightarrow> ip option \<Rightarrow> manager" where
  "new_manager i gw srv =
     \<lparr>m_iface = i, m_tunGW = gw, m_server = srv, m_pinholeGW = None, m_installed = []\<rparr>"

definition pinhole_of :: "ip \<Rightarrow> prefix" where
  "pinhole_of a = \<lparr>pfx_addr = a, pfx_bits = ip_bitlen a\<rparr>"

definition expand_default :: "prefix \<Rightarrow> prefix list" where
  "expand_default p =
     (if pfx_bits p \<noteq> 0 \<or> \<not> ip_is4 (pfx_addr p) then [p]
      else [\<lparr>pfx_addr = V4 0, pfx_bits = 1\<rparr>, \<lparr>pfx_addr = V4 0x80000000, pfx_bits = 1\<rparr>])"

definition add_one ::
    "'s runner \<Rightarrow> prefix \<Rightarrow> ip \<Rightarrow> string \<Rightarrow> manager \<Rightarrow> 's \<Rightarrow> string option \<times> manager \<times> 's" where
  "add_one R p gw i m s =
     (case add_route R p gw i s of
        (Some e, s') \<Rightarrow> (Some e, m, s')
      | (None, s') \<Rightarrow>
          (None, m\<lparr>m_installed := m_installed m @ [\<lparr>k_prefix = p, k_gw = gw, k_iface = i\<rparr>]\<rparr>, s'))"

text \<open>The deletes of \<open>rollback\<close>, last installed first; a failure is only logged.\<close>

fun delete_all :: "'s runner \<Rightarrow> installed_key list \<Rightarrow> 's \<Rightarrow> 's" where
  "delete_all R [] s = s"
| "delete_all R (k # ks) s = delete_all R ks (snd (del_route R (k_prefix k) (k_gw k) (k_iface k) s))"

definition rollback :: "'s runner \<Rightarrow> manager \<Rightarrow> 's \<Rightarrow> manager \<times> 's" where
  "rollback R m s = (m\<lparr>m_installed := []\<rparr>, delete_all R (rev (m_installed m)) s)"

text \<open>The routes of one pushed prefix, and all pushed prefixes.\<close>

fun install_prefixes ::
    "'s runner \<Rightarrow> ip \<Rightarrow> prefix list \<Rightarrow> manager \<Rightarrow> 's \<Rightarrow> route_err option \<times> manager \<times> 's" where
  "install_prefixes R gw [] m s = (None, m, s)"
| "install_prefixes R gw (p # ps) m s =
     (case add_one R p gw (m_iface m) m s of
        (Some e, m1, s1) \<Rightarrow>
          (case rollback R m1 s1 of (m2, s2) \<Rightarrow> (Some (InstallPush p e), m2, s2))
      | (None, m1, s1) \<Rightarrow> install_prefixes R gw ps m1 s1)"

fun install_pushed ::
    "'s runner \<Rightarrow> ip \<Rightarrow> string list \<Rightarrow> manager \<Rightarrow> 's \<Rightarrow> route_err option \<times> manager \<times> 's" where
  "install_pushed R gw [] m s = (None, m, s)"
| "install_pushed R gw (raw # raws) m s =
     (case parse_prefix raw of
        None \<Rightarrow> (case rollback R m s of (m1, s1) \<Rightarrow> (Some (ParsePush raw), m1, s1))
      | Some p \<Rightarrow>
          (if \<not> ip_is4 (pfx_addr p) then install_pushed R gw raws m s
           else (case install_prefixes R gw (expand_default p) m s of
                   (Some e, m1, s1) \<Rightarrow> (Some e, m1, s1)
                 | (None, m1, s1) \<Rightarrow> install_pushed R gw raws m1 s1)))"

definition route_install ::
    "'s runner \<Rightarrow> string list \<Rightarrow> manager \<Rightarrow> 's \<Rightarrow> route_err option \<times> manager \<times> 's" where
  "route_install R cidrs m s =
     (case (m_server m, m_tunGW m) of
        (None, _) \<Rightarrow> (Some ServerNotSet, m, s)
      | (Some srv, None) \<Rightarrow> (Some TunGatewayNotSet, m, s)
      | (Some srv, Some tun) \<Rightarrow>
          (if \<not> ip_is4 srv then (Some (ServerNotIPv4 srv), m, s)
           else if \<not> ip_is4 tun then (Some (TunGatewayNotIPv4 tun), m, s)
           else
             (case default_gateway R s of
                (Inl e, s1) \<Rightarrow> (Some (QueryGateway e), m, s1)
              | (Inr gw, s1) \<Rightarrow>
                  (case add_one R (pinhole_of srv) gw [] (m\<lparr>m_pinholeGW := Some gw\<rparr>) s1 of
                     (Some e, m2, s2) \<Rightarrow> (Some (InstallPinhole e), m2, s2)
                   | (None, m2, s2) \<Rightarrow> install_pushed R tun cidrs m2 s2))))"

definition route_remove :: "'s runner \<Rightarrow> manager \<Rightarrow> 's \<Rightarrow> manager \<times> 's" where
  "route_remove R m s = rollback R m s"

text \<open>The first rollback record for the pin-hole gets the new gateway; without one, one is added.\<close>

fun update_record :: "prefix \<Rightarrow> ip \<Rightarrow> installed_key list \<Rightarrow> installed_key list" where
  "update_record p gw [] = [\<lparr>k_prefix = p, k_gw = gw, k_iface = []\<rparr>]"
| "update_record p gw (k # ks) =
     (if k_prefix k = p then k\<lparr>k_gw := gw\<rparr> # ks else k # update_record p gw ks)"

definition refresh_server_pinhole ::
    "'s runner \<Rightarrow> manager \<Rightarrow> 's \<Rightarrow> route_err option \<times> manager \<times> 's" where
  "refresh_server_pinhole R m s =
     (case m_server m of
        None \<Rightarrow> (Some ServerNotSet, m, s)
      | Some srv \<Rightarrow>
          (case default_gateway R s of
             (Inl e, s1) \<Rightarrow> (Some (RefreshGateway e), m, s1)
           | (Inr gw, s1) \<Rightarrow>
               (if m_tunGW m = Some gw then (Some (GatewayIsTunnel gw), m, s1)
                else
                  (let s2 = (case m_pinholeGW m of
                               None \<Rightarrow> s1
                             | Some old \<Rightarrow> snd (del_route R (pinhole_of srv) old [] s1))
                   in case add_route R (pinhole_of srv) gw [] s2 of
                        (Some e, s3) \<Rightarrow> (Some (ErrPinholeLost e), m, s3)
                      | (None, s3) \<Rightarrow>
                          (None,
                           m\<lparr>m_pinholeGW := Some gw,
                             m_installed := update_record (pinhole_of srv) gw (m_installed m)\<rparr>,
                           s3)))))"

definition forget_installed :: "prefix \<Rightarrow> manager \<Rightarrow> manager" where
  "forget_installed p m = m\<lparr>m_installed := filter (\<lambda>k. k_prefix k \<noteq> p) (m_installed m)\<rparr>"

definition pin_server ::
    "'s runner \<Rightarrow> ip option \<Rightarrow> manager \<Rightarrow> 's \<Rightarrow> route_err option \<times> manager \<times> 's" where
  "pin_server R server m s =
     (case server of
        None \<Rightarrow> (Some InvalidServer, m, s)
      | Some srv \<Rightarrow>
          (if m_server m \<noteq> Some srv
           then
             (case (case (m_server m, m_pinholeGW m) of
                      (Some old, Some gw) \<Rightarrow>
                        (forget_installed (pinhole_of old) m,
                         snd (del_route R (pinhole_of old) gw [] s))
                    | _ \<Rightarrow> (m, s)) of
                (m1, s1) \<Rightarrow>
                  refresh_server_pinhole R (m1\<lparr>m_server := Some srv, m_pinholeGW := None\<rparr>) s1)
           else refresh_server_pinhole R m s))"

section \<open>The system seen from the manager\<close>

text \<open>
  What a system keeps: the rows of its table, the row a request asks for, which rows the delete of a row
  may take along, the rows whose delete may be refused while they are there, and the destination of a
  row.
\<close>

record ('s, 'r, 'd) view =
  v_tab :: "'s \<Rightarrow> 'r set"
  v_row :: "installed_key \<Rightarrow> 'r"
  v_hit :: "'r \<Rightarrow> 'r \<Rightarrow> bool"
  v_stuck :: "'r set"
  v_dst :: "'r \<Rightarrow> 'd"

definition the_key :: "prefix \<Rightarrow> ip \<Rightarrow> string \<Rightarrow> installed_key" where
  "the_key p gw i = \<lparr>k_prefix = p, k_gw = gw, k_iface = i\<rparr>"

lemma the_key_simps [simp]:
  "k_prefix (the_key p gw i) = p" "k_gw (the_key p gw i) = gw" "k_iface (the_key p gw i) = i"
  "the_key (k_prefix k) (k_gw k) (k_iface k) = k"
  by (simp_all add: the_key_def)

text \<open>
  Asking for the gateway leaves the table alone. An add that succeeds puts in a row that was not there, one
  that fails leaves the table alone. A delete only takes rows out, those that its row may take along;
  afterwards its row is gone, unless the call failed and the row is one of the stuck ones.
\<close>

definition lawful :: "('s, 'r, 'd) view \<Rightarrow> 's runner \<Rightarrow> bool" where
  "lawful V R \<longleftrightarrow>
     (\<forall>s x s'. default_gateway R s = (x, s') \<longrightarrow> v_tab V s' = v_tab V s)
     \<and> (\<forall>p gw i s s'. add_route R p gw i s = (None, s') \<longrightarrow>
          v_row V (the_key p gw i) \<notin> v_tab V s \<and> v_tab V s' = insert (v_row V (the_key p gw i)) (v_tab V s))
     \<and> (\<forall>p gw i s e s'. add_route R p gw i s = (Some e, s') \<longrightarrow> v_tab V s' = v_tab V s)
     \<and> (\<forall>p gw i s x s'. del_route R p gw i s = (x, s') \<longrightarrow>
          v_tab V s' \<subseteq> v_tab V s \<and> (\<forall>r \<in> v_tab V s - v_tab V s'. v_hit V (v_row V (the_key p gw i)) r)
          \<and> (v_row V (the_key p gw i) \<in> v_tab V s' \<longrightarrow> x \<noteq> None \<and> v_row V (the_key p gw i) \<in> v_stuck V))"

text \<open>One route per destination: a second one is refused, and a delete takes nothing with another
  destination along. The destination is one of the prefix.\<close>

definition exclusive :: "('s, 'r, 'd) view \<Rightarrow> 's runner \<Rightarrow> bool" where
  "exclusive V R \<longleftrightarrow>
     (\<forall>p gw i s s'. add_route R p gw i s = (None, s') \<longrightarrow>
        (\<forall>r \<in> v_tab V s. v_dst V r \<noteq> v_dst V (v_row V (the_key p gw i))))
     \<and> (\<forall>r r'. v_hit V r r' \<longrightarrow> v_dst V r' = v_dst V r)
     \<and> (\<forall>j k. k_prefix j = k_prefix k \<longrightarrow> v_dst V (v_row V j) = v_dst V (v_row V k))"

lemma lawful_gateway: "lawful V R \<Longrightarrow> default_gateway R s = (x, s') \<Longrightarrow> v_tab V s' = v_tab V s"
  unfolding lawful_def by metis

lemma lawful_add: "lawful V R \<Longrightarrow> add_route R p gw i s = (None, s') \<Longrightarrow>
    v_row V (the_key p gw i) \<notin> v_tab V s \<and> v_tab V s' = insert (v_row V (the_key p gw i)) (v_tab V s)"
  unfolding lawful_def by metis

lemma lawful_add_err: "lawful V R \<Longrightarrow> add_route R p gw i s = (Some e, s') \<Longrightarrow> v_tab V s' = v_tab V s"
  unfolding lawful_def by metis

lemma lawful_del:
  assumes "lawful V R" and "snd (del_route R p gw i s) = s'"
  shows "v_tab V s' \<subseteq> v_tab V s"
    and "r \<in> v_tab V s \<Longrightarrow> r \<notin> v_tab V s' \<Longrightarrow> v_hit V (v_row V (the_key p gw i)) r"
    and "v_row V (the_key p gw i) \<in> v_tab V s' \<Longrightarrow> v_row V (the_key p gw i) \<in> v_stuck V"
proof -
  obtain x where "del_route R p gw i s = (x, s')" using assms(2) by (metis prod.collapse)
  with assms(1) show "v_tab V s' \<subseteq> v_tab V s"
    and "r \<in> v_tab V s \<Longrightarrow> r \<notin> v_tab V s' \<Longrightarrow> v_hit V (v_row V (the_key p gw i)) r"
    and "v_row V (the_key p gw i) \<in> v_tab V s' \<Longrightarrow> v_row V (the_key p gw i) \<in> v_stuck V"
    unfolding lawful_def by blast+
qed

lemma exclusive_add: "exclusive V R \<Longrightarrow> add_route R p gw i s = (None, s') \<Longrightarrow> r \<in> v_tab V s \<Longrightarrow>
    v_dst V r \<noteq> v_dst V (v_row V (the_key p gw i))"
  unfolding exclusive_def by blast

lemma exclusive_hit: "exclusive V R \<Longrightarrow> v_hit V r r' \<Longrightarrow> v_dst V r' = v_dst V r"
  unfolding exclusive_def by blast

lemma exclusive_prefix:
  "exclusive V R \<Longrightarrow> k_prefix j = k_prefix k \<Longrightarrow> v_dst V (v_row V j) = v_dst V (v_row V k)"
  unfolding exclusive_def by blast

text \<open>The deletes of a rollback together.\<close>

lemma delete_all_table:
  assumes "lawful V R"
  shows "v_tab V (delete_all R ks s) \<subseteq> v_tab V s"
    and "\<forall>r \<in> v_tab V s - v_tab V (delete_all R ks s). \<exists>k \<in> set ks. v_hit V (v_row V k) r"
    and "\<forall>k \<in> set ks. v_row V k \<in> v_tab V (delete_all R ks s) \<longrightarrow> v_row V k \<in> v_stuck V"
proof (induction ks arbitrary: s)
  case (Cons k ks)
  note del = lawful_del [OF assms refl, where p = "k_prefix k" and gw = "k_gw k" and i = "k_iface k", simplified]
  { case (1 s) show ?case using Cons.IH(1) del(1) [of s] by force }
  { case (2 s) show ?case using Cons.IH(1,2) [of "snd (del_route R (k_prefix k) (k_gw k) (k_iface k) s)"] del(2) [of _ s]
      by (auto 4 3) }
  { case (3 s) show ?case using Cons.IH(1,3) [of "snd (del_route R (k_prefix k) (k_gw k) (k_iface k) s)"] del(3) [of s]
      by auto }
qed simp_all

section \<open>Installing\<close>

definition keys_via :: "ip \<Rightarrow> string \<Rightarrow> prefix list \<Rightarrow> installed_key list" where
  "keys_via gw i ps = map (\<lambda>p. the_key p gw i) ps"

text \<open>The routes a push asks for: the IPv4 prefixes, the default route in its two halves.\<close>

definition pushed_prefixes :: "string list \<Rightarrow> prefix list" where
  "pushed_prefixes raws =
     concat (map expand_default (filter (\<lambda>p. ip_is4 (pfx_addr p)) (List.map_filter parse_prefix raws)))"

text \<open>What an installation may have left behind when it fails with records \<open>ks\<close>: the manager has no records,
  and the system is the one after the deletes of those records.\<close>

definition rolled_back ::
    "'s runner \<Rightarrow> (installed_key list \<Rightarrow> 's \<Rightarrow> bool) \<Rightarrow> installed_key set \<Rightarrow> manager \<Rightarrow> 's \<Rightarrow> bool" where
  "rolled_back R P K m' s' \<longleftrightarrow> m_installed m' = []
     \<and> (\<exists>ks s1. P ks s1 \<and> set ks \<subseteq> K \<and> s' = delete_all R (rev ks) s1)"

lemma rolled_back_mono: "rolled_back R P K m s \<Longrightarrow> K \<subseteq> K' \<Longrightarrow> rolled_back R P K' m s"
  unfolding rolled_back_def by blast

text \<open>A condition on records and system that every add keeps, failed ones too, holds at the end of an installation or
  before its rollback.\<close>

definition add_keeps :: "'s runner \<Rightarrow> (installed_key list \<Rightarrow> 's \<Rightarrow> bool) \<Rightarrow> bool" where
  "add_keeps R P \<longleftrightarrow>
     (\<forall>ks p gw i s s'. P ks s \<longrightarrow> add_route R p gw i s = (None, s') \<longrightarrow> P (ks @ [the_key p gw i]) s')
     \<and> (\<forall>ks p gw i s e s'. P ks s \<longrightarrow> add_route R p gw i s = (Some e, s') \<longrightarrow> P ks s')"

definition install_post ::
    "'s runner \<Rightarrow> (installed_key list \<Rightarrow> 's \<Rightarrow> bool) \<Rightarrow> manager \<Rightarrow> installed_key list \<Rightarrow>
     route_err option \<Rightarrow> manager \<Rightarrow> 's \<Rightarrow> bool" where
  "install_post R P m ks res m' s' \<longleftrightarrow>
     (case res of
        Some e \<Rightarrow> rolled_back R P (set (m_installed m @ ks)) m' s'
      | None \<Rightarrow> P (m_installed m') s' \<and> m' = m\<lparr>m_installed := m_installed m @ ks\<rparr>)"

lemma add_one_cases:
  assumes "add_keeps R P" and "P (m_installed m) s" and "add_one R p gw i m s = (x, m', s')"
  shows "P (m_installed m') s'
    \<and> m' = (if x = None then m\<lparr>m_installed := m_installed m @ [the_key p gw i]\<rparr> else m)"
proof -
  obtain y t where a: "add_route R p gw i s = (y, t)" by fastforce
  show ?thesis
  proof (cases y)
    case None
    with a assms show ?thesis by (auto simp: add_one_def add_keeps_def the_key_def)
  next
    case (Some e)
    with a have "P (m_installed m) t" using assms(1,2) unfolding add_keeps_def by blast
    with a Some assms(3) show ?thesis by (auto simp: add_one_def)
  qed
qed

lemma rollback_post:
  assumes "P (m_installed m) s" and "rollback R m s = (m', s')" and "set (m_installed m) \<subseteq> K"
  shows "rolled_back R P K m' s'"
  using assms unfolding rolled_back_def by (auto simp: rollback_def)

lemma install_prefixes_post:
  assumes "add_keeps R P" and "P (m_installed m) s" and "install_prefixes R gw ps m s = (res, m', s')"
  shows "install_post R P m (keys_via gw (m_iface m) ps) res m' s'"
  using assms(2,3)
proof (induction ps arbitrary: m s)
  case Nil
  then show ?case by (auto simp: install_post_def keys_via_def)
next
  case (Cons p ps)
  obtain x m1 s1 where a: "add_one R p gw (m_iface m) m s = (x, m1, s1)" by (metis prod_cases3)
  note step = add_one_cases [OF assms(1) Cons.prems(1) a]
  show ?case
  proof (cases x)
    case (Some e)
    obtain m2 s2 where rb: "rollback R m1 s1 = (m2, s2)" by fastforce
    with Cons.prems(2) a Some have "res = Some (InstallPush p e)" "m' = m2" "s' = s2" by simp_all
    with rollback_post [of P, OF conjunct1 [OF step] rb] step Some show ?thesis
      by (simp add: install_post_def)
  next
    case None
    from Cons.IH [OF conjunct1 [OF step]] Cons.prems(2) a None
    have "install_post R P m1 (keys_via gw (m_iface m1) ps) res m' s'" by simp
    with step None show ?thesis by (cases res) (auto simp: install_post_def keys_via_def)
  qed
qed

lemma install_pushed_post:
  assumes "add_keeps R P" and "P (m_installed m) s" and "install_pushed R gw raws m s = (res, m', s')"
  shows "install_post R P m (keys_via gw (m_iface m) (pushed_prefixes raws)) res m' s'"
  using assms(2,3)
proof (induction raws arbitrary: m s)
  case Nil
  then show ?case by (auto simp: install_post_def keys_via_def pushed_prefixes_def map_filter_simps)
next
  case (Cons raw raws)
  show ?case
  proof (cases "parse_prefix raw")
    case None
    with Cons.prems show ?thesis
      by (auto simp: install_post_def split: prod.splits intro!: rollback_post [of P])
  next
    case (Some p)
    show ?thesis
    proof (cases "ip_is4 (pfx_addr p)")
      case False
      with Cons.IH [OF Cons.prems(1)] Cons.prems(2) Some show ?thesis
        by (simp add: pushed_prefixes_def map_filter_simps)
    next
      case True
      obtain x m1 s1 where a: "install_prefixes R gw (expand_default p) m s = (x, m1, s1)"
        by (metis prod_cases3)
      from install_prefixes_post [OF assms(1) Cons.prems(1) a]
      have post: "install_post R P m (keys_via gw (m_iface m) (expand_default p)) x m1 s1" .
      have pp: "pushed_prefixes (raw # raws) = expand_default p @ pushed_prefixes raws"
        using Some True by (simp add: pushed_prefixes_def map_filter_simps)
      show ?thesis
      proof (cases x)
        case (Some e)
        with post a Cons.prems(2) True \<open>parse_prefix raw = Some p\<close> show ?thesis
          by (auto simp: install_post_def pp keys_via_def elim: rolled_back_mono)
      next
        case None
        with post have m1: "P (m_installed m1) s1"
          "m1 = m\<lparr>m_installed := m_installed m @ keys_via gw (m_iface m) (expand_default p)\<rparr>"
          by (auto simp: install_post_def)
        from Cons.IH [OF m1(1)] Cons.prems(2) a None True Some
        have "install_post R P m1 (keys_via gw (m_iface m1) (pushed_prefixes raws)) res m' s'" by simp
        with m1(2) show ?thesis by (cases res) (auto simp: install_post_def pp keys_via_def)
      qed
    qed
  qed
qed

text \<open>The routes an installation is after, in the order of their installation: the pin-hole through the present gateway and the
  pushed ones through the tunnel.\<close>

definition wanted_routes ::
    "'s runner \<Rightarrow> 's \<Rightarrow> string \<Rightarrow> ip option \<Rightarrow> ip option \<Rightarrow> string list \<Rightarrow> installed_key list" where
  "wanted_routes R s i tun srv cidrs =
     (case (srv, tun, fst (default_gateway R s)) of
        (Some a, Some g, Inr gw) \<Rightarrow> the_key (pinhole_of a) gw [] # keys_via g i (pushed_prefixes cidrs)
      | _ \<Rightarrow> [])"

lemma route_install_post:
  assumes "add_keeps R P" and "P [] s" and "P [] (snd (default_gateway R s))"
    and "route_install R cidrs (new_manager i tun srv) s = (res, m, s')"
  shows "(\<exists>e. res = Some e \<and> rolled_back R P (set (wanted_routes R s i tun srv cidrs)) m s')
    \<or> (\<exists>a g gw. res = None \<and> srv = Some a \<and> tun = Some g \<and> fst (default_gateway R s) = Inr gw
        \<and> m = \<lparr>m_iface = i, m_tunGW = tun, m_server = srv, m_pinholeGW = Some gw,
              m_installed = wanted_routes R s i tun srv cidrs\<rparr>
        \<and> P (m_installed m) s')"
proof (cases "\<exists>a g gw s1. srv = Some a \<and> tun = Some g \<and> ip_is4 a \<and> ip_is4 g
    \<and> default_gateway R s = (Inr gw, s1)")
  case False
  have none: "rolled_back R P K m t" if "m_installed m = []" and "t = s \<or> t = snd (default_gateway R s)" for t K
    using that assms(2,3) unfolding rolled_back_def
    by (intro conjI exI [of _ "[]"] exI [of _ t]) auto
  from False assms(4) have "res \<noteq> None" "m_installed m = []" "s' = s \<or> s' = snd (default_gateway R s)"
    by (auto simp: route_install_def new_manager_def split: option.splits if_splits prod.splits sum.splits)
  with none show ?thesis by blast
next
  case True
  then obtain a g gw s1 where ag: "srv = Some a" "tun = Some g" "ip_is4 a" "ip_is4 g"
    and gw: "default_gateway R s = (Inr gw, s1)" by blast
  define m0 where "m0 = (new_manager i tun srv)\<lparr>m_pinholeGW := Some gw\<rparr>"
  have P0: "P (m_installed m0) s1" using assms(3) gw by (simp add: m0_def new_manager_def)
  have w: "wanted_routes R s i tun srv cidrs = the_key (pinhole_of a) gw [] # keys_via g i (pushed_prefixes cidrs)"
    using ag gw by (simp add: wanted_routes_def)
  obtain x m2 s2 where ad: "add_one R (pinhole_of a) gw [] m0 s1 = (x, m2, s2)" by (metis prod_cases3)
  note step = add_one_cases [OF assms(1) P0 ad]
  show ?thesis
  proof (cases x)
    case (Some e)
    with assms(4) ag gw ad have "res \<noteq> None" "m = m2" "s' = s2"
      by (auto simp: route_install_def new_manager_def m0_def)
    moreover from step Some have "m_installed m2 = []" and "P [] s2" by (auto simp: m0_def new_manager_def)
    ultimately show ?thesis
      unfolding rolled_back_def by (auto intro!: exI [of _ "[]"] exI [of _ s2])
  next
    case None
    with step have m2: "m2 = m0\<lparr>m_installed := [the_key (pinhole_of a) gw []]\<rparr>"
      by (auto simp: m0_def new_manager_def)
    have "install_pushed R g cidrs m2 s2 = (res, m, s')"
      using assms(4) ag gw ad None by (simp add: route_install_def new_manager_def m0_def)
    from install_pushed_post [OF assms(1) conjunct1 [OF step] this]
    have "install_post R P m2 (keys_via g i (pushed_prefixes cidrs)) res m s'"
      by (simp add: m2 m0_def new_manager_def)
    then show ?thesis
      using ag gw unfolding w by (cases res) (auto simp: install_post_def m2 m0_def new_manager_def)
  qed
qed

text \<open>During an installation on a lawful system the table is the one before it and the rows of the records.\<close>

definition in_place :: "('s, 'r, 'd) view \<Rightarrow> 'r set \<Rightarrow> installed_key list \<Rightarrow> 's \<Rightarrow> bool" where
  "in_place V base ks s \<longleftrightarrow> distinct (map (v_row V) ks) \<and> v_row V ` set ks \<inter> base = {}
     \<and> v_tab V s = base \<union> v_row V ` set ks"

lemma in_place_nil: "in_place V (v_tab V s) [] s" "v_tab V s' = v_tab V s \<Longrightarrow> in_place V (v_tab V s) [] s'"
  by (simp_all add: in_place_def)

lemma add_keeps_in_place:
  assumes "lawful V R"
  shows "add_keeps R (in_place V base)"
  using lawful_add [OF assms] lawful_add_err [OF assms] unfolding add_keeps_def in_place_def by fastforce

text \<open>What a failed installation leaves: of its own rows only stuck ones, and of the old ones at most those are missing that
  a delete of its own rows took along.\<close>

definition route_undone :: "('s, 'r, 'd) view \<Rightarrow> installed_key set \<Rightarrow> 'r set \<Rightarrow> 'r set \<Rightarrow> bool" where
  "route_undone V K base t \<longleftrightarrow>
     (\<forall>r \<in> t - base. r \<in> v_stuck V \<and> r \<in> v_row V ` K)
     \<and> (\<forall>r \<in> base - t. \<exists>k \<in> K. v_row V k \<notin> base \<and> v_hit V (v_row V k) r)"

lemma rolled_back_undone:
  assumes "lawful V R" and "rolled_back R (in_place V base) K m s'"
  shows "route_undone V K base (v_tab V s')"
proof -
  obtain ks s1 where ks: "in_place V base ks s1" "set ks \<subseteq> K" "s' = delete_all R (rev ks) s1"
    using assms(2) by (auto simp: rolled_back_def)
  note del = delete_all_table [OF assms(1), where ks = "rev ks" and s = s1, folded ks(3)]
  from ks(1) have t1: "v_tab V s1 = v_tab V s1 \<inter> base \<union> v_row V ` set ks" "base \<subseteq> v_tab V s1"
    "v_tab V s1 \<subseteq> base \<union> v_row V ` set ks" and new: "\<And>k. k \<in> set ks \<Longrightarrow> v_row V k \<notin> base"
    by (auto simp: in_place_def)
  have "r \<in> v_stuck V \<and> r \<in> v_row V ` K" if "r \<in> v_tab V s' - base" for r
  proof -
    from that del(1) t1(3) obtain k where "k \<in> set ks" "r = v_row V k" by blast
    with del(3) that ks(2) show ?thesis by auto
  qed
  moreover have "\<exists>k \<in> K. v_row V k \<notin> base \<and> v_hit V (v_row V k) r" if "r \<in> base - v_tab V s'" for r
  proof -
    from that t1(2) del(2) obtain k where "k \<in> set ks" "v_hit V (v_row V k) r" by auto
    with new ks(2) show ?thesis by blast
  qed
  ultimately show ?thesis by (simp add: route_undone_def)
qed

lemma install_on_lawful:
  assumes "lawful V R" and "route_install R cidrs (new_manager i tun srv) s = (res, m, s')"
  shows "(\<exists>e. res = Some e \<and> m_installed m = []
        \<and> route_undone V (set (wanted_routes R s i tun srv cidrs)) (v_tab V s) (v_tab V s'))
    \<or> (res = None \<and> (\<exists>a g gw. srv = Some a \<and> tun = Some g \<and> fst (default_gateway R s) = Inr gw)
        \<and> m_installed m = wanted_routes R s i tun srv cidrs \<and> in_place V (v_tab V s) (m_installed m) s')"
proof -
  have "v_tab V (snd (default_gateway R s)) = v_tab V s"
    using lawful_gateway [OF assms(1)] by (metis prod.collapse)
  from route_install_post [OF add_keeps_in_place [OF assms(1)] in_place_nil(1) in_place_nil(2) [OF this] assms(2)]
  show ?thesis
  proof (elim disjE exE conjE)
    fix e assume "res = Some e" and r: "rolled_back R (in_place V (v_tab V s)) (set (wanted_routes R s i tun srv cidrs)) m s'"
    with rolled_back_undone [OF assms(1) r] show ?thesis by (simp add: rolled_back_def)
  qed simp
qed

section \<open>What a manager owns on a system with one route per destination\<close>

text \<open>
  \<open>base\<close> is the table without the manager. The destinations of the records differ, and \<open>base\<close> has none of them;
  \<open>base\<close> is in the table, and what else is there is the row of a record or stuck; the row of a record
  is in the table, except that the pin-hole, after a refresh that lost it, may be gone.
\<close>

definition pinhole_key :: "manager \<Rightarrow> installed_key option" where
  "pinhole_key m =
     (case (m_server m, m_pinholeGW m) of
        (Some srv, Some gw) \<Rightarrow> Some (the_key (pinhole_of srv) gw [])
      | _ \<Rightarrow> None)"

abbreviation key_dst :: "('s, 'r, 'd) view \<Rightarrow> installed_key \<Rightarrow> 'd" where
  "key_dst V k \<equiv> v_dst V (v_row V k)"

definition dst_apart :: "('s, 'r, 'd) view \<Rightarrow> 'r set \<Rightarrow> installed_key list \<Rightarrow> bool" where
  "dst_apart V base ks \<longleftrightarrow> distinct (map (key_dst V) ks)
     \<and> (\<forall>k \<in> set ks. \<forall>r \<in> base. v_dst V r \<noteq> key_dst V k)"

definition owns :: "('s, 'r, 'd) view \<Rightarrow> 'r set \<Rightarrow> manager \<Rightarrow> 'r set \<Rightarrow> bool" where
  "owns V base m t \<longleftrightarrow>
     dst_apart V base (m_installed m)
     \<and> (\<forall>k \<in> set (m_installed m). v_row V k \<in> t \<or> pinhole_key m = Some k)
     \<and> base \<subseteq> t \<and> t \<subseteq> base \<union> v_row V ` set (m_installed m) \<union> v_stuck V
     \<and> (\<forall>k. pinhole_key m = Some k \<longrightarrow> k \<in> set (m_installed m))"

lemma ownsI:
  "dst_apart V base (m_installed m) \<Longrightarrow>
   (\<And>k. k \<in> set (m_installed m) \<Longrightarrow> v_row V k \<in> t \<or> pinhole_key m = Some k) \<Longrightarrow>
   base \<subseteq> t \<Longrightarrow> t \<subseteq> base \<union> v_row V ` set (m_installed m) \<union> v_stuck V \<Longrightarrow>
   (\<And>k. pinhole_key m = Some k \<Longrightarrow> k \<in> set (m_installed m)) \<Longrightarrow> owns V base m t"
  by (simp add: owns_def)

lemma ownsD:
  assumes "owns V base m t"
  shows "dst_apart V base (m_installed m)"
    and "k \<in> set (m_installed m) \<Longrightarrow> v_row V k \<in> t \<or> pinhole_key m = Some k"
    and "base \<subseteq> t" and "t \<subseteq> base \<union> v_row V ` set (m_installed m) \<union> v_stuck V"
    and "pinhole_key m = Some k \<Longrightarrow> k \<in> set (m_installed m)"
  using assms by (auto simp: owns_def)

lemma apart_same:
  assumes "dst_apart V base ks" and "j \<in> set ks" and "k \<in> set ks" and "key_dst V j = key_dst V k"
  shows "j = k"
  using assms by (auto simp: dst_apart_def distinct_map dest: inj_onD)

lemma apart_base: "dst_apart V base ks \<Longrightarrow> k \<in> set ks \<Longrightarrow> r \<in> base \<Longrightarrow> v_dst V r \<noteq> key_dst V k"
  by (auto simp: dst_apart_def)

lemma apart_filter: "dst_apart V base ks \<Longrightarrow> dst_apart V base (filter P ks)"
  by (simp add: dst_apart_def distinct_map_filter)

text \<open>The manager leaves the table of before, but for stuck rows.\<close>

definition given_back :: "('s, 'r, 'd) view \<Rightarrow> 'r set \<Rightarrow> 'r set \<Rightarrow> bool" where
  "given_back V base t \<longleftrightarrow> base \<subseteq> t \<and> t \<subseteq> base \<union> v_stuck V"

lemma delete_all_given_back:
  assumes "lawful V R" and "exclusive V R" and "dst_apart V base ks" and "base \<subseteq> v_tab V s"
    and "v_tab V s \<subseteq> base \<union> v_row V ` set ks \<union> v_stuck V"
  shows "given_back V base (v_tab V (delete_all R (rev ks) s))"
proof -
  note del = delete_all_table [OF assms(1), where ks = "rev ks" and s = s]
  have "r \<in> v_tab V (delete_all R (rev ks) s)" if "r \<in> base" for r
  proof (rule ccontr)
    assume "r \<notin> v_tab V (delete_all R (rev ks) s)"
    with that assms(4) del(2) obtain k where k: "k \<in> set ks" "v_hit V (v_row V k) r" by auto
    from apart_base [OF assms(3) k(1) that] exclusive_hit [OF assms(2) k(2)] show False by simp
  qed
  moreover have "v_tab V (delete_all R (rev ks) s) \<subseteq> base \<union> v_stuck V"
    using del(1,3) assms(5) by fastforce
  ultimately show ?thesis by (auto simp: given_back_def)
qed

lemma rollback_restores:
  assumes "lawful V R" and "exclusive V R" and "owns V base m (v_tab V s)" and "rollback R m s = (m', s')"
  shows "given_back V base (v_tab V s') \<and> m_installed m' = []"
  using assms(4) delete_all_given_back [OF assms(1,2) ownsD(1,3,4) [OF assms(3)]]
  by (auto simp: rollback_def)

text \<open>Installing from a table that has the one of before and stuck rows of earlier installations.\<close>

definition held_apart :: "('s, 'r, 'd) view \<Rightarrow> 'r set \<Rightarrow> installed_key list \<Rightarrow> 's \<Rightarrow> bool" where
  "held_apart V base ks s \<longleftrightarrow> dst_apart V base ks \<and> base \<subseteq> v_tab V s \<and> v_row V ` set ks \<subseteq> v_tab V s
     \<and> v_tab V s \<subseteq> base \<union> v_row V ` set ks \<union> v_stuck V"

lemma add_keeps_apart:
  assumes "lawful V R" and "exclusive V R"
  shows "add_keeps R (held_apart V base)"
proof -
  have "held_apart V base (ks @ [the_key p gw i]) s'"
    if h: "held_apart V base ks s" and a: "add_route R p gw i s = (None, s')" for ks p gw i s s'
  proof -
    have ne: "v_dst V r \<noteq> key_dst V (the_key p gw i)" if "r \<in> v_tab V s" for r
      using exclusive_add [OF assms(2) a that] .
    have "key_dst V (the_key p gw i) \<notin> key_dst V ` set ks"
      using h ne unfolding held_apart_def by fastforce
    with h ne show ?thesis
      using lawful_add [OF assms(1) a] unfolding held_apart_def dst_apart_def by auto
  qed
  moreover have "held_apart V base ks s'"
    if "held_apart V base ks s" and "add_route R p gw i s = (Some e, s')" for ks p gw i s e s'
    using that lawful_add_err [OF assms(1) that(2)] by (simp add: held_apart_def)
  ultimately show ?thesis unfolding add_keeps_def by blast
qed

lemma route_install_owns:
  assumes "lawful V R" and "exclusive V R" and "given_back V base (v_tab V s)"
    and "route_install R cidrs (new_manager i tun srv) s = (res, m, s')"
  shows "if res = None then owns V base m (v_tab V s') else given_back V base (v_tab V s')"
proof -
  have "v_tab V (snd (default_gateway R s)) = v_tab V s"
    using lawful_gateway [OF assms(1)] by (metis prod.collapse)
  with assms(3) have nil: "held_apart V base [] s" "held_apart V base [] (snd (default_gateway R s))"
    by (auto simp: held_apart_def given_back_def dst_apart_def)
  from route_install_post [OF add_keeps_apart [OF assms(1,2)] nil assms(4)] show ?thesis
  proof (elim disjE exE conjE)
    fix e assume e: "res = Some e"
      and "rolled_back R (held_apart V base) (set (wanted_routes R s i tun srv cidrs)) m s'"
    then obtain ks s1 where "held_apart V base ks s1" "s' = delete_all R (rev ks) s1"
      by (auto simp: rolled_back_def)
    with delete_all_given_back [OF assms(1,2)] e show ?thesis by (auto simp: held_apart_def)
  next
    fix a g gw
    assume res: "res = None" "srv = Some a" "tun = Some g" "fst (default_gateway R s) = Inr gw"
      and m: "m = \<lparr>m_iface = i, m_tunGW = tun, m_server = srv, m_pinholeGW = Some gw,
        m_installed = wanted_routes R s i tun srv cidrs\<rparr>"
      and h: "held_apart V base (m_installed m) s'"
    have "k \<in> set (m_installed m)" if "pinhole_key m = Some k" for k
      using that by (auto simp: m res pinhole_key_def wanted_routes_def)
    with h res(1) show ?thesis unfolding held_apart_def by (auto intro!: ownsI)
  qed
qed

section \<open>Refreshing the pin-hole\<close>

lemma update_record_new:
  "p \<notin> k_prefix ` set ks \<Longrightarrow> update_record p gw ks = ks @ [the_key p gw []]"
  by (induction ks) (auto simp: the_key_def)

lemma distinct_key: "distinct (map f xs) \<Longrightarrow> x \<in> set xs \<Longrightarrow> y \<in> set xs \<Longrightarrow> f x = f y \<Longrightarrow> x = y"
  by (auto simp: distinct_map dest: inj_onD)

lemma update_record_old:
  assumes "distinct (map k_prefix ks)" and "k \<in> set ks" and "k_prefix k = p"
  shows "map k_prefix (update_record p gw ks) = map k_prefix ks
    \<and> set (update_record p gw ks) = insert (k\<lparr>k_gw := gw\<rparr>) (set ks - {k})"
  using assms
proof (induction ks)
  case (Cons j ks)
  show ?case
  proof (cases "k_prefix j = p")
    case True
    with Cons.prems have "j = k" by (auto dest: map_of_is_SomeI simp: image_iff)
    with Cons.prems True show ?thesis by auto
  next
    case False
    with Cons.prems have "k \<in> set ks" "j \<noteq> k" by auto
    with Cons.IH [OF _ this(1)] Cons.prems False show ?thesis by auto
  qed
qed simp

lemma update_record_dsts:
  "exclusive V R \<Longrightarrow> p \<in> k_prefix ` set ks \<Longrightarrow>
   map (key_dst V) (update_record p gw ks) = map (key_dst V) ks"
  by (induction ks) (auto intro!: exclusive_prefix)

lemma apart_prefixes:
  assumes "exclusive V R" and "dst_apart V base ks"
  shows "distinct (map k_prefix ks)"
  using assms(2) exclusive_prefix [OF assms(1)] unfolding dst_apart_def distinct_map inj_on_def by metis

lemma apart_cong_dsts: "map (key_dst V) ks = map (key_dst V) ks' \<Longrightarrow> dst_apart V base ks = dst_apart V base ks'"
proof -
  assume a: "map (key_dst V) ks = map (key_dst V) ks'"
  then have "key_dst V ` set ks = key_dst V ` set ks'" by (metis list.set_map)
  with a show ?thesis unfolding dst_apart_def by (metis (no_types, lifting) imageE imageI)
qed

text \<open>The delete of the pin-hole that is on record.\<close>

lemma delete_pinhole:
  assumes law: "lawful V R" "exclusive V R" and own: "owns V base m t" and t: "t = v_tab V s"
    and key: "pinhole_key m = Some (the_key p old [])"
    and s': "s' = snd (del_route R p old [] s)"
  shows "base \<subseteq> v_tab V s'" and "v_tab V s' \<subseteq> t"
    and "v_row V (the_key p old []) \<in> v_tab V s' \<Longrightarrow> v_row V (the_key p old []) \<in> v_stuck V"
    and "k \<in> set (m_installed m) \<Longrightarrow> k \<noteq> the_key p old [] \<Longrightarrow> v_row V k \<in> v_tab V s'"
proof -
  note del = lawful_del [OF law(1) s' [symmetric]]
  note dst_apart = ownsD(1) [OF own]
  have mem: "the_key p old [] \<in> set (m_installed m)" using ownsD(5) [OF own key] .
  show "v_tab V s' \<subseteq> t" using del(1) by (simp add: t)
  show "v_row V (the_key p old []) \<in> v_tab V s' \<Longrightarrow> v_row V (the_key p old []) \<in> v_stuck V"
    by (rule del(3))
  have keep: "r \<in> v_tab V s'" if "r \<in> t" "v_dst V r \<noteq> key_dst V (the_key p old [])" for r
    using that del(2) [of r] exclusive_hit [OF law(2)] by (auto simp: t)
  show "base \<subseteq> v_tab V s'" using keep ownsD(3) [OF own] apart_base [OF dst_apart mem] by blast
  show "v_row V k \<in> v_tab V s'" if k: "k \<in> set (m_installed m)" "k \<noteq> the_key p old []"
  proof (rule keep)
    show "v_row V k \<in> t" using ownsD(2) [OF own k(1)] key k(2) by auto
    show "key_dst V k \<noteq> key_dst V (the_key p old [])" using apart_same [OF dst_apart k(1) mem] k(2) by blast
  qed
qed

text \<open>After the old pin-hole is deleted, or was not there: adding the new one and recording it.\<close>

lemma repin_owns:
  assumes law: "lawful V R" "exclusive V R" and own: "owns V base m (v_tab V s)"
    and srv: "m_server m = Some srv" and ad: "add_route R (pinhole_of srv) gw [] s = (None, s')"
    and m': "m' = m\<lparr>m_pinholeGW := Some gw,
      m_installed := update_record (pinhole_of srv) gw (m_installed m)\<rparr>"
  shows "owns V base m' (v_tab V s')"
proof -
  let ?p = "pinhole_of srv" and ?k = "the_key (pinhole_of srv) gw []"
  have add: "v_tab V s' = insert (v_row V ?k) (v_tab V s)" using lawful_add [OF law(1) ad] by simp
  have free: "v_dst V r \<noteq> key_dst V ?k" if "r \<in> v_tab V s" for r using exclusive_add [OF law(2) ad that] .
  have key': "pinhole_key m' = Some ?k" using srv by (simp add: m' pinhole_key_def)
  note dst_apart = ownsD(1) [OF own]
  have old: "pinhole_key m = Some k" if "k \<in> set (m_installed m)" "k_prefix k = ?p" for k
    using ownsD(2) [OF own that(1)] free [of "v_row V k"] exclusive_prefix [OF law(2), of k ?k] that(2) by auto
  show ?thesis
  proof (cases "?p \<in> k_prefix ` set (m_installed m)")
    case False
    then have m'k: "m_installed m' = m_installed m @ [?k]" by (simp add: m' update_record_new)
    have here: "v_row V k \<in> v_tab V s" if "k \<in> set (m_installed m)" for k
      using ownsD(2) [OF own that]
    proof
      assume "pinhole_key m = Some k"
      then have "k_prefix k = ?p" using srv by (auto simp: pinhole_key_def split: option.splits)
      with False that show ?thesis by force
    qed
    have "dst_apart V base (m_installed m')"
      using dst_apart free here ownsD(3) [OF own] unfolding m'k dst_apart_def by force
    then show ?thesis
      using here ownsD(3,4) [OF own] by (intro ownsI) (auto simp: m'k add key')
  next
    case True
    then obtain k where k: "k \<in> set (m_installed m)" "k_prefix k = ?p" by auto
    from old [OF k] have pk: "pinhole_key m = Some k" .
    then have upd: "k\<lparr>k_gw := gw\<rparr> = ?k"
      using srv by (auto simp: pinhole_key_def the_key_def split: option.splits)
    have set': "set (m_installed m') = insert ?k (set (m_installed m) - {k})"
      using update_record_old [OF apart_prefixes [OF law(2) dst_apart] k, of gw] by (simp add: m' upd)
    have "dst_apart V base (m_installed m')"
      using dst_apart apart_cong_dsts [OF update_record_dsts [OF law(2) True]] by (simp add: m')
    moreover have "v_row V k \<notin> v_tab V s"
      using free [of "v_row V k"] exclusive_prefix [OF law(2), of k ?k] k(2) by auto
    ultimately show ?thesis
      using ownsD(2,3,4) [OF own] pk
      by (intro ownsI) (auto simp: set' add key')
  qed
qed

lemma refresh_owns:
  assumes law: "lawful V R" "exclusive V R" and own: "owns V base m (v_tab V s)"
    and ref: "refresh_server_pinhole R m s = (res, m', s')"
  shows "owns V base m' (v_tab V s')"
proof (cases "\<exists>srv gw s1. m_server m = Some srv \<and> default_gateway R s = (Inr gw, s1) \<and> m_tunGW m \<noteq> Some gw")
  case False
  then show ?thesis
    using ref own lawful_gateway [OF law(1)]
    by (auto simp: refresh_server_pinhole_def split: option.splits prod.splits sum.splits if_splits)
next
  case True
  then obtain srv gw s1 where srv: "m_server m = Some srv" and gw: "default_gateway R s = (Inr gw, s1)"
    and ne: "m_tunGW m \<noteq> Some gw" by blast
  have own1: "owns V base m (v_tab V s1)" using own lawful_gateway [OF law(1) gw] by simp
  define s2 where "s2 = (case m_pinholeGW m of None \<Rightarrow> s1
    | Some old \<Rightarrow> snd (del_route R (pinhole_of srv) old [] s1))"
  have own2: "owns V base m (v_tab V s2)"
  proof (cases "m_pinholeGW m")
    case None
    with own1 show ?thesis by (simp add: s2_def)
  next
    case (Some old)
    then have key: "pinhole_key m = Some (the_key (pinhole_of srv) old [])"
      and s2: "s2 = snd (del_route R (pinhole_of srv) old [] s1)"
      using srv by (simp_all add: pinhole_key_def s2_def)
    note del = delete_pinhole [OF law own1 refl key s2]
    show ?thesis
      using del(1,2,4) ownsD(4,5) [OF own1] key by (intro ownsI [OF ownsD(1) [OF own1]]) auto
  qed
  obtain x s3 where ad: "add_route R (pinhole_of srv) gw [] s2 = (x, s3)" by fastforce
  show ?thesis
  proof (cases x)
    case (Some e)
    with lawful_add_err [OF law(1) ad [unfolded Some]] own2 ref srv gw ne ad show ?thesis
      by (auto simp: refresh_server_pinhole_def s2_def [symmetric] Let_def)
  next
    case None
    with ref srv gw ne ad repin_owns [OF law own2 srv ad [unfolded None] refl] show ?thesis
      by (auto simp: refresh_server_pinhole_def s2_def [symmetric] Let_def)
  qed
qed

lemma pin_server_owns:
  assumes law: "lawful V R" "exclusive V R" and own: "owns V base m (v_tab V s)"
    and pin: "pin_server R server m s = (res, m', s')"
  shows "owns V base m' (v_tab V s')"
proof (cases "\<exists>srv. server = Some srv \<and> m_server m \<noteq> Some srv")
  case False
  then have "refresh_server_pinhole R m s = (res, m', s') \<or> m' = m \<and> s' = s"
    using pin by (auto simp: pin_server_def split: option.splits)
  with refresh_owns [OF law own] own show ?thesis by auto
next
  case True
  then obtain srv where srv: "server = Some srv" "m_server m \<noteq> Some srv" by blast
  obtain m1 s1 where ms: "(case (m_server m, m_pinholeGW m) of
      (Some old, Some gw) \<Rightarrow>
        (forget_installed (pinhole_of old) m, snd (del_route R (pinhole_of old) gw [] s))
    | _ \<Rightarrow> (m, s)) = (m1, s1)" by fastforce
  let ?m = "m1\<lparr>m_server := Some srv, m_pinholeGW := None\<rparr>"
  have own1: "owns V base ?m (v_tab V s1)"
  proof (cases "pinhole_key m")
    case None
    with ms have "m1 = m" "s1 = s" by (auto simp: pinhole_key_def split: option.splits)
    with ownsD [OF own] None show ?thesis by (auto intro!: ownsI simp: pinhole_key_def)
  next
    case (Some k)
    then obtain old gw where og: "m_server m = Some old" "m_pinholeGW m = Some gw"
      and k: "k = the_key (pinhole_of old) gw []"
      by (auto simp: pinhole_key_def split: option.splits)
    from ms og have m1: "m1 = forget_installed (pinhole_of old) m"
      and s1: "s1 = snd (del_route R (pinhole_of old) gw [] s)" by simp_all
    note del = delete_pinhole [OF law own refl Some [unfolded k] s1]
    note dst_apart = ownsD(1) [OF own]
    have mem: "k \<in> set (m_installed m)" using ownsD(5) [OF own Some] .
    have "k_prefix j \<noteq> pinhole_of old \<longleftrightarrow> j \<noteq> k" if "j \<in> set (m_installed m)" for j
      using distinct_key [OF apart_prefixes [OF law(2) dst_apart] that mem] by (auto simp: k)
    then have set1: "set (m_installed m1) = set (m_installed m) - {k}"
      by (auto simp: m1 forget_installed_def)
    have "dst_apart V base (m_installed m1)"
      using dst_apart by (simp add: m1 forget_installed_def apart_filter)
    moreover have "v_tab V s1 \<subseteq> base \<union> v_row V ` set (m_installed m1) \<union> v_stuck V"
      using del(2,3) ownsD(4) [OF own] unfolding set1 k by blast
    ultimately show ?thesis
      using del(1,4) by (intro ownsI) (auto simp: set1 k pinhole_key_def)
  qed
  from srv pin ms have "refresh_server_pinhole R ?m s1 = (res, m', s')" by (simp add: pin_server_def)
  with refresh_owns [OF law own1] show ?thesis .
qed

section \<open>A routing table that is a map\<close>

text \<open>For examples: one route per prefix, nothing is stuck.\<close>

type_synonym table = "prefix \<rightharpoonup> ip \<times> string"

definition table_runner :: "(table \<times> ip) runner" where
  "table_runner =
     \<lparr>default_gateway = (\<lambda>s. (Inr (snd s), s)),
      add_route = (\<lambda>p gw i s.
        (if fst s p = None then (None, ((fst s)(p \<mapsto> (gw, i)), snd s)) else (Some ''File exists'', s))),
      del_route = (\<lambda>p gw i s.
        (if fst s p = Some (gw, i) then (None, ((fst s)(p := None), snd s))
         else (Some ''No such process'', s)))\<rparr>"

definition table_view :: "(table \<times> ip, installed_key, prefix) view" where
  "table_view = \<lparr>v_tab = (\<lambda>s. {k. fst s (k_prefix k) = Some (k_gw k, k_iface k)}),
     v_row = (\<lambda>k. k), v_hit = (=), v_stuck = {}, v_dst = k_prefix\<rparr>"

lemma table_runner_laws: "lawful table_view table_runner" "exclusive table_view table_runner"
  by (auto simp: lawful_def exclusive_def table_runner_def table_view_def the_key_def split: if_splits)

section \<open>Properties\<close>

datatype pin_op = Pin "ip option" | Refresh

fun pin_step :: "'s runner \<Rightarrow> manager \<times> 's \<Rightarrow> pin_op \<Rightarrow> manager \<times> 's" where
  "pin_step R (m, s) (Pin server) = snd (pin_server R server m s)"
| "pin_step R (m, s) Refresh = snd (refresh_server_pinhole R m s)"

lemma pin_step_owns:
  assumes "lawful V R" "exclusive V R" and "owns V base (fst ms) (v_tab V (snd ms))"
  shows "owns V base (fst (pin_step R ms x)) (v_tab V (snd (pin_step R ms x)))"
proof (cases ms)
  case (Pair m s)
  show ?thesis
  proof (cases x)
    case (Pin server)
    obtain res m' s' where "pin_server R server m s = (res, m', s')" by (metis prod_cases3)
    with pin_server_owns [OF assms(1,2) _ this] assms(3) Pair Pin show ?thesis by simp
  next
    case Refresh
    obtain res m' s' where "refresh_server_pinhole R m s = (res, m', s')" by (metis prod_cases3)
    with refresh_owns [OF assms(1,2) _ this] assms(3) Pair Refresh show ?thesis by simp
  qed
qed

text \<open>Disconnecting gives the routing table back, on a system with one route per destination: after a
  successful installation, however often the pin-hole was refreshed or moved to another server, and
  however often that failed, half-way included, \<open>Remove\<close> leaves the table of before the
  installation, and at most stuck rows with it.\<close>

theorem remove_restores_table:
  assumes "lawful V R" "exclusive V R"
    and "route_install R cidrs (new_manager i tun srv) s = (None, m, s1)"
    and "foldl (pin_step R) (m, s1) ops = (m2, s2)"
  shows "given_back V (v_tab V s) (v_tab V (snd (route_remove R m2 s2)))
    \<and> m_installed (fst (route_remove R m2 s2)) = []"
proof -
  have "owns V (v_tab V s) m (v_tab V s1)"
    using route_install_owns [OF assms(1,2) _ assms(3)] by (simp add: given_back_def)
  then have "owns V (v_tab V s) (fst (foldl (pin_step R) (m, s1) ops)) (v_tab V (snd (foldl (pin_step R) (m, s1) ops)))"
    by (induction ops rule: rev_induct) (simp_all add: pin_step_owns [OF assms(1,2)])
  then have own: "owns V (v_tab V s) m2 (v_tab V s2)" by (simp add: assms(4))
  obtain m3 s3 where rb: "rollback R m2 s2 = (m3, s3)" by fastforce
  from rollback_restores [OF assms(1,2) own this] rb show ?thesis by (simp add: route_remove_def)
qed

theorem remove_restores_table_witness:
  "\<exists>m s1 m2 s2. route_install table_runner [''10.0.0.0/8''] (new_manager ''tun0'' (Some (V4 1)) (Some (V4 2)))
      (Map.empty, V4 9) = (None, m, s1)
    \<and> foldl (pin_step table_runner) (m, s1) [Refresh, Pin (Some (V4 3))] = (m2, s2)
    \<and> v_tab table_view (snd (route_remove table_runner m2 s2)) = {}"
proof -
  have p: "parse_prefix ''10.0.0.0/8'' = Some \<lparr>pfx_addr = V4 0x0A000000, pfx_bits = 8\<rparr>" by code_simp
  obtain m s1 where r: "route_install table_runner [''10.0.0.0/8''] (new_manager ''tun0'' (Some (V4 1)) (Some (V4 2)))
      (Map.empty, V4 9) = (None, m, s1)"
    by (simp add: route_install_def new_manager_def table_runner_def add_one_def p expand_default_def
        pinhole_of_def)
  obtain m2 s2 where f: "foldl (pin_step table_runner) (m, s1) [Refresh, Pin (Some (V4 3))] = (m2, s2)"
    by (metis surj_pair)
  from remove_restores_table [OF table_runner_laws r f]
  have "v_tab table_view (snd (route_remove table_runner m2 s2)) = {}"
    by (simp add: given_back_def table_view_def)
  with r f show ?thesis by blast
qed

text \<open>A pin-hole that was pinned is there: when \<open>PinServer\<close> reports success, the host route to that
  server is in the table, through the gateway that is the default one now and is not the tunnel, and
  is recorded for removal.\<close>

theorem pin_server_pins:
  assumes "lawful V R" and "pin_server R (Some srv) m s = (None, m', s')"
  shows "\<exists>gw. v_row V (the_key (pinhole_of srv) gw []) \<in> v_tab V s' \<and> m_tunGW m' \<noteq> Some gw
    \<and> m_server m' = Some srv \<and> m_pinholeGW m' = Some gw
    \<and> pinhole_of srv \<in> k_prefix ` set (m_installed m')"
proof -
  have upd: "p \<in> k_prefix ` set (update_record p gw ks)" for p gw ks
    by (induction ks) auto
  have ref: "\<exists>gw. v_row V (the_key (pinhole_of srv) gw []) \<in> v_tab V t' \<and> m_tunGW n' \<noteq> Some gw
    \<and> m_server n' = Some srv \<and> m_pinholeGW n' = Some gw
    \<and> pinhole_of srv \<in> k_prefix ` set (m_installed n')"
    if "refresh_server_pinhole R n t = (None, n', t')" and "m_server n = Some srv" for n n' t t'
    using that upd unfolding refresh_server_pinhole_def Let_def
    by (auto split: prod.splits sum.splits if_splits option.splits dest!: lawful_add [OF assms(1)])
  show ?thesis
  proof (cases "m_server m = Some srv")
    case True
    with assms(2) ref show ?thesis by (simp add: pin_server_def)
  next
    case False
    obtain m1 s1 where "(case (m_server m, m_pinholeGW m) of
        (Some old, Some gw) \<Rightarrow>
          (forget_installed (pinhole_of old) m, snd (del_route R (pinhole_of old) gw [] s))
      | _ \<Rightarrow> (m, s)) = (m1, s1)" by fastforce
    with assms(2) False have
      "refresh_server_pinhole R (m1\<lparr>m_server := Some srv, m_pinholeGW := None\<rparr>) s1 = (None, m', s')"
      by (simp add: pin_server_def)
    from ref [OF this] show ?thesis by simp
  qed
qed

theorem pin_server_pins_witness:
  "\<exists>m' s'. pin_server table_runner (Some (V4 3)) (new_manager ''tun0'' (Some (V4 1)) (Some (V4 2)))
      (Map.empty, V4 9) = (None, m', s') \<and> the_key (pinhole_of (V4 3)) (V4 9) [] \<in> v_tab table_view s'"
proof -
  obtain m' s' where p: "pin_server table_runner (Some (V4 3)) (new_manager ''tun0'' (Some (V4 1)) (Some (V4 2)))
      (Map.empty, V4 9) = (None, m', s')"
    by (simp add: pin_server_def refresh_server_pinhole_def new_manager_def table_runner_def)
  have "m_pinholeGW m' = Some (V4 9)"
    using p by (auto simp: pin_server_def refresh_server_pinhole_def new_manager_def table_runner_def)
  with pin_server_pins [OF table_runner_laws(1) p] p show ?thesis by (auto simp: table_view_def)
qed

end
