(* ===== verification/Guards.thy ===== *)
theory Guards
  imports Netaddr
begin

text \<open>
  Leak protection and resolver configuration: the facades \<open>src/internal/firewall/firewall.go\<close> and
  \<open>src/internal/dns/dns.go\<close>. Both own one enable/remove life cycle over a platform runner, which is
  a record of functions of the system state \<open>'s\<close>; both refuse a second enable and stay enabled when the
  removal fails. The locale \<open>guard\<close> is that shared contract.
\<close>

record fw_config =
  fw_server :: ip
  fw_tun :: string
  fw_allow_lan :: bool

record 's fw_runner =
  fw_enable :: "fw_config \<Rightarrow> 's \<Rightarrow> string option \<times> 's"
  fw_restore :: "'s \<Rightarrow> string option \<times> 's"

record 's dns_runner =
  dns_set :: "string list \<Rightarrow> string \<Rightarrow> 's \<Rightarrow> string option \<times> 's"
  dns_restore :: "'s \<Rightarrow> string option \<times> 's"

text \<open>The state of a manager: whether its settings are applied.\<close>

type_synonym applied = bool

datatype guard_err = CalledTwice | NoValidResolver | RunnerFailed string

definition firewall_enable ::
    "'s fw_runner \<Rightarrow> fw_config \<Rightarrow> applied \<Rightarrow> 's \<Rightarrow> guard_err option \<times> applied \<times> 's" where
  "firewall_enable R cfg a s =
     (if a then (Some CalledTwice, a, s)
      else (case fw_enable R cfg s of
              (Some e, s1) \<Rightarrow> (Some (RunnerFailed e), a, s1)
            | (None, s1) \<Rightarrow> (None, True, s1)))"

definition firewall_remove :: "'s fw_runner \<Rightarrow> applied \<Rightarrow> 's \<Rightarrow> applied \<times> 's" where
  "firewall_remove R a s =
     (if \<not> a then (a, s)
      else (case fw_restore R s of (Some e, s1) \<Rightarrow> (a, s1) | (None, s1) \<Rightarrow> (False, s1)))"

text \<open>Only what parses as a bare IP address survives, trimmed.\<close>

definition valid_ips :: "string list \<Rightarrow> string list" where
  "valid_ips servers = filter (\<lambda>s. parse_ip s \<noteq> None) (map trim_space servers)"

definition dns_apply ::
    "'s dns_runner \<Rightarrow> string \<Rightarrow> string list \<Rightarrow> applied \<Rightarrow> 's \<Rightarrow> guard_err option \<times> applied \<times> 's" where
  "dns_apply R iface servers a s =
     (if servers = [] then (None, a, s)
      else if a then (Some CalledTwice, a, s)
      else if valid_ips servers = [] then (Some NoValidResolver, a, s)
      else (case dns_set R (valid_ips servers) iface s of
              (Some e, s1) \<Rightarrow> (Some (RunnerFailed e), a, s1)
            | (None, s1) \<Rightarrow> (None, True, s1)))"

definition dns_remove :: "'s dns_runner \<Rightarrow> applied \<Rightarrow> 's \<Rightarrow> applied \<times> 's" where
  "dns_remove R a s =
     (if \<not> a then (a, s)
      else (case dns_restore R s of (Some e, s1) \<Rightarrow> (a, s1) | (None, s1) \<Rightarrow> (False, s1)))"

section \<open>The contract\<close>

text \<open>
  \<open>enable\<close> and \<open>remove\<close> are the manager's calls, \<open>undo\<close> is the runner's call that takes the settings
  back, and \<open>wanted\<close> says for which arguments there is anything to enable.
\<close>

locale guard =
  fixes wanted :: "'c \<Rightarrow> bool"
    and enable :: "'c \<Rightarrow> bool \<Rightarrow> 's \<Rightarrow> 'e option \<times> bool \<times> 's"
    and remove :: "bool \<Rightarrow> 's \<Rightarrow> bool \<times> 's"
    and undo :: "'s \<Rightarrow> string option \<times> 's"
  assumes enable_applied: "wanted c \<Longrightarrow> enable c True s = (res, a, s') \<Longrightarrow> res \<noteq> None \<and> a \<and> s' = s"
    and enable_failed: "wanted c \<Longrightarrow> enable c False s = (Some e, a, s') \<Longrightarrow> \<not> a"
    and enable_done: "wanted c \<Longrightarrow> enable c False s = (None, a, s') \<Longrightarrow> a"
    and enable_unwanted: "\<not> wanted c \<Longrightarrow> enable c b s = (None, b, s)"
    and remove_idle: "remove False s = (False, s)"
    and remove_undoes: "remove True s = (fst (undo s) \<noteq> None, snd (undo s))"
begin

text \<open>Settings once applied stay recorded as applied until a removal succeeds.\<close>

lemma enable_keeps: "enable c True s = (res, a, s') \<Longrightarrow> a \<and> s' = s"
  by (cases "wanted c") (auto dest: enable_applied simp: enable_unwanted)

text \<open>Enabling and removing with a runner that undoes its work leaves the system as it was.\<close>

lemma enable_remove:
  assumes "wanted c" and "enable c False s = (None, a, s1)" and "undo s1 = (None, s)"
  shows "remove a s1 = (False, s)"
  using enable_done [OF assms(1,2)] assms(3) by (simp add: remove_undoes)

lemma remove_twice: "\<not> fst (remove b s) \<Longrightarrow> remove (fst (remove b s)) s' = (False, s')"
  by (simp add: remove_idle)

end

interpretation fw: guard "\<lambda>c. True" "firewall_enable R" "firewall_remove R" "fw_restore R" for R
  by unfold_locales (auto simp: firewall_enable_def firewall_remove_def split: prod.splits option.splits)

interpretation dnsm: guard "\<lambda>ss. ss \<noteq> []" "dns_apply R i" "dns_remove R" "dns_restore R" for R i
  by unfold_locales
    (auto simp: dns_apply_def dns_remove_def split: prod.splits option.splits if_splits)

section \<open>Properties\<close>

text \<open>What reaches the resolver configuration: whatever the server pushes, the runner is only ever
  given a list that is not empty and whose entries parse as bare IP addresses, without surrounding
  space; and a push without one is an error that does not reach the runner.\<close>

theorem dns_push_filtered:
  assumes "servers \<noteq> []" and "\<not> a"
  shows "if valid_ips servers = [] then dns_apply R i servers a s = (Some NoValidResolver, a, s)
    else (\<exists>ss. ss = valid_ips servers \<and> list_all (\<lambda>x. parse_ip x \<noteq> None) ss
      \<and> dns_apply R i servers a s =
        (case dns_set R ss i s of
           (Some e, s1) \<Rightarrow> (Some (RunnerFailed e), False, s1) | (None, s1) \<Rightarrow> (None, True, s1)))"
proof -
  have "list_all (\<lambda>x. parse_ip x \<noteq> None) (valid_ips servers)"
    by (auto simp: valid_ips_def list_all_iff)
  then show ?thesis using assms by (simp add: dns_apply_def)
qed

theorem dns_push_filtered_witness:
  "dns_apply R ''tun0'' [''empty''] False s = (Some NoValidResolver, False, s)"
proof -
  have "parse_ip (trim_space ''empty'') = None" by code_simp
  then have "valid_ips [''empty''] = []" by (simp add: valid_ips_def)
  with dns_push_filtered [of "[''empty'']" False R "''tun0''" s] show ?thesis by simp
qed

end
