(* ===== verification/Client.thy ===== *)
theory Client
  imports Reconnect Route Guards Protocol
begin

text \<open>
  The client (\<open>src/internal/tunnel/client/client.go\<close>): its construction, one connection attempt from
  name resolution to the running session, the reader of a session, and the teardown of \<open>Run\<close>. What
  the attempt asks of the machine is an \<open>env\<close>: the route, firewall and resolver runners, the call that
  configures the TUN device, the resolver, and the TLS dialer with what the connection it returns
  will deliver. The reconnect loop around the attempts is the theory \<open>Reconnect\<close>.
\<close>

section \<open>Construction\<close>

record client_config =
  cc_server :: string
  cc_server_name :: string
  cc_endpoints :: "endpoint list"
  cc_preferred :: string
  cc_ca_file :: string
  cc_cert_file :: string
  cc_key_file :: string
  cc_ca_pem :: string
  cc_cert_pem :: string
  cc_key_pem :: string
  cc_keepalive :: int
  cc_reconnect_min :: int
  cc_reconnect_max :: int
  cc_handshake_timeout :: int
  cc_allow_insecure_leak :: bool

datatype 'e client_new_err =
    ClientNilTun
  | ClientEndpoint endpoint_err
  | PartialPem
  | FilesRequired
  | MinAboveMax int int
  | ClientTls 'e

definition btoi :: "bool \<Rightarrow> nat" where
  "btoi b = (if b then 1 else 0)"

text \<open>\<open>load\<close> builds the TLS configuration, from memory or from files; the endpoint ring comes out
  beside the completed configuration.\<close>

definition client_new ::
    "(client_config \<Rightarrow> bool \<Rightarrow> 'e + 't) \<Rightarrow> client_config \<Rightarrow> bool \<Rightarrow>
     'e client_new_err + client_config \<times> 't \<times> ring" where
  "client_new load cfg dev =
     (if \<not> dev then Inl ClientNilTun
      else case normalize_endpoints (cc_endpoints cfg) (cc_server cfg) (cc_server_name cfg) of
        Inl e \<Rightarrow> Inl (ClientEndpoint e)
      | Inr es \<Rightarrow>
          (let cfg1 = cfg\<lparr>cc_server := ep_server (hd es), cc_server_name := ep_server_name (hd es)\<rparr>;
               npem = btoi (cc_ca_pem cfg \<noteq> []) + btoi (cc_cert_pem cfg \<noteq> []) + btoi (cc_key_pem cfg \<noteq> []);
               inline = npem > 0
           in if inline \<and> npem \<noteq> 3 then Inl PartialPem
              else if \<not> inline \<and> (cc_ca_file cfg = [] \<or> cc_cert_file cfg = [] \<or> cc_key_file cfg = [])
              then Inl FilesRequired
              else
                (let mn = (if cc_reconnect_min cfg \<le> 0 then 1000000000 else cc_reconnect_min cfg);
                     mx = (if cc_reconnect_max cfg \<le> 0 then 60000000000 else cc_reconnect_max cfg)
                 in if mn > mx then Inl (MinAboveMax mn mx)
                    else
                      (let cfg2 = cfg1\<lparr>cc_reconnect_min := mn, cc_reconnect_max := mx,
                             cc_handshake_timeout := (if cc_handshake_timeout cfg \<le> 0 then 10000000000
                                                      else cc_handshake_timeout cfg)\<rparr>
                       in case load cfg2 inline of
                            Inl e \<Rightarrow> Inl (ClientTls e)
                          | Inr tls \<Rightarrow>
                              Inr (cfg2\<lparr>cc_ca_pem := [], cc_cert_pem := [], cc_key_pem := []\<rparr>, tls,
                                   new_endpoint_ring es (cc_preferred cfg))))))"

section \<open>What the machine does\<close>

text \<open>A dialled connection: its remote address, the bytes that will arrive, the outcome of sending the
  hello, and how the session ends for a given read-idle timeout.\<close>

record conn =
  cn_remote :: "ip option"
  cn_reader :: reader
  cn_hello :: "go_error option"
  cn_session :: "int \<Rightarrow> go_error option"

record 's env =
  os_routes :: "'s runner"
  os_fw :: "'s fw_runner"
  os_dns :: "'s dns_runner"
  os_configure :: "string \<Rightarrow> string \<Rightarrow> string \<Rightarrow> int \<Rightarrow> 's \<Rightarrow> string option \<times> 's"
  os_lookup :: "string \<Rightarrow> ip list option"
  os_dial :: "ip \<Rightarrow> string \<Rightarrow> string \<Rightarrow> go_error + conn"
  os_read_error :: "proto_err \<Rightarrow> go_error"
  dev_name :: string
  dev_mtu :: int

text \<open>What a client remembers across attempts.\<close>

record client =
  configuredIP :: string
  c_routes :: "manager option"
  c_resolvers :: "applied option"
  c_leakguard :: "applied option"
  leakguardOff :: bool
  pinnedServerIP :: "ip option"

definition fresh_client :: client where
  "fresh_client = \<lparr>configuredIP = [], c_routes = None, c_resolvers = None, c_leakguard = None,
     leakguardOff = False, pinnedServerIP = None\<rparr>"

datatype setup_err =
    ConfigureFailed string
  | Reassigned string string
  | LeakNoServerIP
  | LeakEnable guard_err
  | BadTunGateway string
  | RemoteNotIP
  | RoutesFailed route_err
  | DnsFailed guard_err

datatype connect_err =
    BadServerAddress string
  | ResolveFailed string
  | NoAddresses string
  | DialFailed go_error
  | FirstRead go_error
  | NotControlFrame
  | DecodeFailed proto_err
  | BadErrorMessage proto_err
  | ServerError string string
  | UnexpectedControl string
  | BadAssignIP proto_err
  | ServerOutdated int
  | HelloFailed go_error
  | SetupFailed setup_err
  | SessionEnded go_error

text \<open>The sentinels \<open>errors.Is\<close> finds in the error of an attempt.\<close>

fun connect_is :: "connect_err \<Rightarrow> sentinel set" where
  "connect_is (DialFailed e) = e_is (classify_connect_error e)"
| "connect_is (FirstRead e) = e_is (classify_connect_error e)"
| "connect_is (HelloFailed e) = e_is (classify_connect_error e)"
| "connect_is (ServerError c m) = {ErrFatalServer}"
| "connect_is (ServerOutdated v) = {ErrFatalServer}"
| "connect_is (SetupFailed e) = {ErrFatalConfig}"
| "connect_is (SessionEnded e) = e_is e"
| "connect_is e = {}"

section \<open>The steps of an attempt\<close>

definition resolve_server :: "(string \<Rightarrow> ip list option) \<Rightarrow> string \<Rightarrow> connect_err + ip \<times> string" where
  "resolve_server lookup server =
     (case split_host_port server of
        None \<Rightarrow> Inl (BadServerAddress server)
      | Some (h, port) \<Rightarrow>
          (case parse_addr h of
             Some a \<Rightarrow> Inr (ip_unmap a, port)
           | None \<Rightarrow>
               (case lookup h of
                  None \<Rightarrow> Inl (ResolveFailed h)
                | Some ips \<Rightarrow>
                    (case find ip_is4 (map ip_unmap ips) of
                       Some a \<Rightarrow> Inr (a, port)
                     | None \<Rightarrow>
                         (case ips of
                            [] \<Rightarrow> Inl (NoAddresses h)
                          | a # as \<Rightarrow> Inr (ip_unmap a, port))))))"

definition effective_mtu :: "int \<Rightarrow> int \<Rightarrow> int" where
  "effective_mtu dev pushed = (if pushed > 0 \<and> pushed < dev then pushed else dev)"

definition max_advertised_keepalive_secs :: int where
  "max_advertised_keepalive_secs = 3600"

definition read_idle_timeout :: "client_config \<Rightarrow> assign_ip \<Rightarrow> int" where
  "read_idle_timeout cfg a =
     (if ai_keepalive_secs a > 0
      then wrap64 (wrap64 (3 * min (ai_keepalive_secs a) max_advertised_keepalive_secs) * 1000000000)
      else if cc_keepalive cfg > 0 then wrap64 (3 * cc_keepalive cfg)
      else 0)"

definition is_full_tunnel :: "string list \<Rightarrow> bool" where
  "is_full_tunnel routes \<longleftrightarrow>
     list_ex (\<lambda>raw. case parse_prefix raw of Some p \<Rightarrow> pfx_bits p = 0 | None \<Rightarrow> False) routes"

definition ensure_configured ::
    "'s env \<Rightarrow> assign_ip \<Rightarrow> client \<Rightarrow> 's \<Rightarrow> setup_err option \<times> client \<times> 's" where
  "ensure_configured E a c s =
     (if configuredIP c = [] then
        (case os_configure E (ai_ip a) (ai_netmask a) (ai_gateway a)
                (effective_mtu (dev_mtu E) (ai_mtu a)) s of
           (Some e, s1) \<Rightarrow> (Some (ConfigureFailed e), c, s1)
         | (None, s1) \<Rightarrow> (None, c\<lparr>configuredIP := ai_ip a\<rparr>, s1))
      else if configuredIP c \<noteq> ai_ip a then (Some (Reassigned (configuredIP c) (ai_ip a)), c, s)
      else (None, c, s))"

definition leak_unavailable ::
    "client_config \<Rightarrow> setup_err \<Rightarrow> client \<Rightarrow> 's \<Rightarrow> setup_err option \<times> client \<times> 's" where
  "leak_unavailable cfg e c s =
     (if cc_allow_insecure_leak cfg then (None, c\<lparr>leakguardOff := True\<rparr>, s) else (Some e, c, s))"

definition session_fw :: "'s env \<Rightarrow> ip \<Rightarrow> fw_config" where
  "session_fw E srv = \<lparr>fw_server = srv, fw_tun = dev_name E, fw_allow_lan = True\<rparr>"

definition ensure_leak_protection ::
    "'s env \<Rightarrow> client_config \<Rightarrow> assign_ip \<Rightarrow> ip option \<Rightarrow> client \<Rightarrow> 's
     \<Rightarrow> setup_err option \<times> client \<times> 's" where
  "ensure_leak_protection E cfg a remote c s =
     (if c_leakguard c \<noteq> None \<or> leakguardOff c then (None, c, s)
      else if \<not> is_full_tunnel (ai_routes a) then (None, c, s)
      else case remote of
        None \<Rightarrow> leak_unavailable cfg LeakNoServerIP c s
      | Some srv \<Rightarrow>
          (case firewall_enable (os_fw E) (session_fw E (ip_unmap srv)) False s of
             (Some e, ap, s1) \<Rightarrow> leak_unavailable cfg (LeakEnable e) c s1
           | (None, ap, s1) \<Rightarrow> (None, c\<lparr>c_leakguard := Some ap\<rparr>, s1)))"

definition ensure_routes ::
    "'s env \<Rightarrow> assign_ip \<Rightarrow> ip option \<Rightarrow> client \<Rightarrow> 's \<Rightarrow> setup_err option \<times> client \<times> 's" where
  "ensure_routes E a remote c s =
     (if c_routes c \<noteq> None then (None, c, s)
      else if ai_routes a = [] then (None, c, s)
      else case parse_addr (ai_gateway a) of
        None \<Rightarrow> (Some (BadTunGateway (ai_gateway a)), c, s)
      | Some gw \<Rightarrow>
          (case remote of
             None \<Rightarrow> (Some RemoteNotIP, c, s)
           | Some srv \<Rightarrow>
               (case route_install (os_routes E) (ai_routes a)
                       (new_manager (dev_name E) (Some gw) (Some (ip_unmap srv))) s of
                  (Some e, m, s1) \<Rightarrow> (Some (RoutesFailed e), c, s1)
                | (None, m, s1) \<Rightarrow> (None, c\<lparr>c_routes := Some m\<rparr>, s1))))"

definition ensure_dns :: "'s env \<Rightarrow> assign_ip \<Rightarrow> client \<Rightarrow> 's \<Rightarrow> setup_err option \<times> client \<times> 's" where
  "ensure_dns E a c s =
     (if c_resolvers c \<noteq> None then (None, c, s)
      else if ai_dns a = [] then (None, c, s)
      else case dns_apply (os_dns E) (dev_name E) (ai_dns a) False s of
        (Some e, ap, s1) \<Rightarrow> (Some (DnsFailed e), c, s1)
      | (None, ap, s1) \<Rightarrow> (None, c\<lparr>c_resolvers := Some ap\<rparr>, s1))"

text \<open>The four steps that bring the tunnel up, in their order; the first error ends them.\<close>

definition bring_up ::
    "'s env \<Rightarrow> client_config \<Rightarrow> assign_ip \<Rightarrow> ip option \<Rightarrow> client \<Rightarrow> 's
     \<Rightarrow> setup_err option \<times> client \<times> 's" where
  "bring_up E cfg a remote c s =
     (case ensure_configured E a c s of
        (Some e, c1, s1) \<Rightarrow> (Some e, c1, s1)
      | (None, c1, s1) \<Rightarrow>
          (case ensure_leak_protection E cfg a remote c1 s1 of
             (Some e, c2, s2) \<Rightarrow> (Some e, c2, s2)
           | (None, c2, s2) \<Rightarrow>
               (case ensure_routes E a remote c2 s2 of
                  (Some e, c3, s3) \<Rightarrow> (Some e, c3, s3)
                | (None, c3, s3) \<Rightarrow> ensure_dns E a c3 s3)))"

text \<open>Re-pointing pin-hole and kill-switch before a dial.\<close>

definition prepare_path :: "'s env \<Rightarrow> ip \<Rightarrow> client \<Rightarrow> 's \<Rightarrow> client \<times> 's" where
  "prepare_path E srv c s =
     (case (case c_routes c of
              None \<Rightarrow> (c, s)
            | Some m \<Rightarrow>
                (case pin_server (os_routes E) (Some srv) m s of
                   (res, m1, s1) \<Rightarrow> (c\<lparr>c_routes := Some m1\<rparr>, s1))) of
        (c1, s1) \<Rightarrow>
          (case (case (c_leakguard c1, pinnedServerIP c1) of
                   (Some ap, Some old) \<Rightarrow>
                     (if srv \<noteq> old
                      then (case firewall_remove (os_fw E) ap s1 of
                              (ap2, s2) \<Rightarrow>
                                (case firewall_enable (os_fw E) (session_fw E srv) ap2 s2 of
                                   (Some e, ap3, s3) \<Rightarrow>
                                     (c1\<lparr>leakguardOff := True, c_leakguard := None\<rparr>, s3)
                                 | (None, ap3, s3) \<Rightarrow> (c1\<lparr>c_leakguard := Some ap3\<rparr>, s3)))
                      else (c1, s1))
                 | _ \<Rightarrow> (c1, s1)) of
             (c2, s2) \<Rightarrow> (c2\<lparr>pinnedServerIP := Some srv\<rparr>, s2)))"

text \<open>The first frame: an assignment, or the reason why there is none.\<close>

definition first_frame :: "(proto_err \<Rightarrow> go_error) \<Rightarrow> reader \<Rightarrow> (connect_err + assign_ip) \<times> reader" where
  "first_frame err r =
     (case read_packet r of
        (Inl e, r1) \<Rightarrow> (Inl (FirstRead (err e)), r1)
      | (Inr (ty, body), r1) \<Rightarrow>
          (if ty \<noteq> FrameControl then (Inl NotControlFrame, r1)
           else (case decode_control body of
                   Inl e \<Rightarrow> (Inl (DecodeFailed e), r1)
                 | Inr msg \<Rightarrow>
                     (if cm_type msg = ctrl_error then
                        (case parse_error msg of
                           Inl e \<Rightarrow> (Inl (BadErrorMessage e), r1)
                         | Inr em \<Rightarrow> (Inl (ServerError (em_code em) (em_message em)), r1))
                      else if cm_type msg \<noteq> ctrl_assign_ip then (Inl (UnexpectedControl (cm_type msg)), r1)
                      else (case parse_assign_ip msg of
                              Inl e \<Rightarrow> (Inl (BadAssignIP e), r1)
                            | Inr a \<Rightarrow>
                                (if \<not> peer_compatible (ai_proto a)
                                 then (Inl (ServerOutdated (ai_proto a)), r1)
                                 else (Inr a, r1)))))))"

text \<open>The attempt: its error, whether the endpoint proved to work, whether the tunnel came up, and what
  is left behind.\<close>

record 's attempt =
  at_err :: "connect_err option"
  at_reached :: bool
  at_connected :: bool
  at_client :: client
  at_sys :: 's

definition connect_once :: "'s env \<Rightarrow> client_config \<Rightarrow> endpoint \<Rightarrow> client \<Rightarrow> 's \<Rightarrow> 's attempt" where
  "connect_once E cfg ep c s =
     (let fail = (\<lambda>e reached c s. \<lparr>at_err = Some e, at_reached = reached, at_connected = False,
                                   at_client = c, at_sys = s\<rparr>)
      in case resolve_server (os_lookup E) (ep_server ep) of
           Inl e \<Rightarrow> fail e False c s
         | Inr (srv, port) \<Rightarrow>
             (case prepare_path E srv c s of
                (c1, s1) \<Rightarrow>
                  (case os_dial E srv port (ep_server_name ep) of
                     Inl e \<Rightarrow> fail (DialFailed e) False c1 s1
                   | Inr cn \<Rightarrow>
                       (case first_frame (os_read_error E) (cn_reader cn) of
                          (Inl e, r1) \<Rightarrow> fail e False c1 s1
                        | (Inr a, r1) \<Rightarrow>
                            (case cn_hello cn of
                               Some e \<Rightarrow> fail (HelloFailed e) False c1 s1
                             | None \<Rightarrow>
                                 (case bring_up E cfg a (cn_remote cn) c1 s1 of
                                    (Some e, c2, s2) \<Rightarrow> fail (SetupFailed e) True c2 s2
                                  | (None, c2, s2) \<Rightarrow>
                                      \<lparr>at_err = map_option SessionEnded
                                                  (cn_session cn (read_idle_timeout cfg a)),
                                       at_reached = True, at_connected = True,
                                       at_client = c2, at_sys = s2\<rparr>))))))"

section \<open>The end of Run\<close>

definition run_teardown :: "'s env \<Rightarrow> client \<Rightarrow> 's \<Rightarrow> client \<times> 's" where
  "run_teardown E c s =
     (let s1 = (case c_resolvers c of None \<Rightarrow> s | Some ap \<Rightarrow> snd (dns_remove (os_dns E) ap s));
          s2 = (case c_routes c of None \<Rightarrow> s1 | Some m \<Rightarrow> snd (route_remove (os_routes E) m s1));
          s3 = (case c_leakguard c of None \<Rightarrow> s2 | Some ap \<Rightarrow> snd (firewall_remove (os_fw E) ap s2))
      in (c\<lparr>c_routes := None, c_resolvers := None, c_leakguard := None\<rparr>, s3))"

section \<open>The reader of a session\<close>

text \<open>What the next read brings: a frame, with whether a write of its body to the device would work, or
  an error, with whether the session was cancelled by then.\<close>

datatype server_read = Got frame_type bytes bool | Failed io_err bool

datatype reader_exit =
    CleanExit
  | DeadLink int
  | ReadError io_err
  | DeviceWriteError
  | ServerSaid error_msg
  | StillReading bool

fun conn_reader :: "int \<Rightarrow> bool \<Rightarrow> server_read list \<Rightarrow> bytes list \<times> reader_exit" where
  "conn_reader idle armed [] = ([], StillReading armed)"
| "conn_reader idle armed (Failed e cancelled # rs) =
     ([], if cancelled then CleanExit
          else if armed \<and> e = ErrDeadlineExceeded then DeadLink idle
          else ReadError e)"
| "conn_reader idle armed (Got FrameData body written # rs) =
     (if written then (case conn_reader idle armed rs of (ps, x) \<Rightarrow> (body # ps, x))
      else ([], DeviceWriteError))"
| "conn_reader idle armed (Got FrameControl body written # rs) =
     (case decode_control body of
        Inl e \<Rightarrow> conn_reader idle armed rs
      | Inr msg \<Rightarrow>
          (if cm_type msg = ctrl_keepalive then conn_reader idle (armed \<or> idle > 0) rs
           else if cm_type msg = ctrl_error
           then ([], ServerSaid (case parse_error msg of
                                   Inr em \<Rightarrow> em | Inl e \<Rightarrow> \<lparr>em_code = [], em_message = []\<rparr>))
           else conn_reader idle armed rs))"

text \<open>A frame that decodes to a keepalive.\<close>

fun is_keepalive :: "server_read \<Rightarrow> bool" where
  "is_keepalive (Got FrameControl body written) =
     (case decode_control body of Inl e \<Rightarrow> False | Inr m \<Rightarrow> cm_type m = ctrl_keepalive)"
| "is_keepalive r = False"

lemma conn_reader_dead:
  "snd (conn_reader idle armed rs) = DeadLink d \<Longrightarrow>
   d = idle \<and> (armed \<or> idle > 0 \<and> (\<exists>r \<in> set rs. is_keepalive r))"
  by (induction idle armed rs rule: conn_reader.induct)
    (auto split: if_splits sum.splits prod.splits)

section \<open>Properties\<close>

text \<open>The dead-link check cannot hurt an old server: a session is only ended for silence after the
  server has sent a keepalive on that session, and only when a read-idle timeout is set.\<close>

theorem dead_link_only_after_keepalive:
  assumes "snd (conn_reader idle False rs) = DeadLink d"
  shows "d = idle \<and> 0 < idle \<and> (\<exists>r. r \<in> set rs \<and> is_keepalive r)"
  using conn_reader_dead [OF assms] by blast

theorem dead_link_only_after_keepalive_witness:
  "\<exists>r. is_keepalive r \<and> snd (conn_reader 5 False [r, Failed ErrDeadlineExceeded False]) = DeadLink 5"
proof -
  define r where "r = Got FrameControl (marshal_control new_keepalive) True"
  have "decode_control (marshal_control new_keepalive) = Inr new_keepalive"
    by (simp add: decode_marshal_control)
  then have "snd (conn_reader 5 False [r, Failed ErrDeadlineExceeded False]) = DeadLink 5"
    by (simp add: r_def new_keepalive_def)
  with dead_link_only_after_keepalive [OF this] show ?thesis by auto
qed

text \<open>The read-idle timeout derived from the server's announcement: three times the announced
  interval up to an hour, computed without wrap-around whatever number the server sends, so between
  3 seconds and 3 hours; the local interval counts only when the server announces none.\<close>

theorem read_idle_timeout_bounds:
  assumes "0 < ai_keepalive_secs a"
  shows "read_idle_timeout cfg a = 3 * min (ai_keepalive_secs a) 3600 * 1000000000
    \<and> 3000000000 \<le> read_idle_timeout cfg a \<and> read_idle_timeout cfg a \<le> 10800000000000"
proof -
  define k where "k = min (ai_keepalive_secs a) 3600"
  have k: "1 \<le> k" "k \<le> 3600" using assms by (auto simp: k_def)
  have "wrap64 (3 * k) = 3 * k" using k by (intro wrap64_id) auto
  moreover have "wrap64 (3 * k * 1000000000) = 3 * k * 1000000000" using k by (intro wrap64_id) auto
  ultimately have "read_idle_timeout cfg a = 3 * k * 1000000000"
    using assms by (simp add: read_idle_timeout_def max_advertised_keepalive_secs_def k_def)
  with k show ?thesis by (simp add: k_def)
qed

theorem read_idle_timeout_bounds_witness:
  "read_idle_timeout cfg (zero_assign_ip\<lparr>ai_keepalive_secs := 2 ^ 62\<rparr>) = 10800000000000"
  using read_idle_timeout_bounds [of "zero_assign_ip\<lparr>ai_keepalive_secs := 2 ^ 62\<rparr>" cfg] by simp

lemma ensure_configured_guard:
  "ensure_configured E a c s = (r, c', s') \<Longrightarrow> c_leakguard c' = c_leakguard c \<and> leakguardOff c' = leakguardOff c"
  by (auto simp: ensure_configured_def split: if_splits prod.splits option.splits)

lemma firewall_enabled: "firewall_enable R cfg False s = (None, ap, s') \<Longrightarrow> ap"
  by (rule fw.enable_done [OF TrueI])

lemma ensure_leak_guard:
  assumes "ensure_leak_protection E cfg a remote c s = (None, c', s')"
    and "is_full_tunnel (ai_routes a)" and "\<not> cc_allow_insecure_leak cfg" and "\<not> leakguardOff c"
    and "c_leakguard c \<in> {None, Some True}"
  shows "c_leakguard c' = Some True \<and> \<not> leakguardOff c'"
  using assms
  by (auto simp: ensure_leak_protection_def leak_unavailable_def split: if_splits option.splits prod.splits
      dest: firewall_enabled)

lemma ensure_routes_guard:
  "ensure_routes E a remote c s = (r, c', s') \<Longrightarrow> c_leakguard c' = c_leakguard c \<and> leakguardOff c' = leakguardOff c"
  by (auto simp: ensure_routes_def split: if_splits prod.splits option.splits)

lemma ensure_dns_guard:
  "ensure_dns E a c s = (r, c', s') \<Longrightarrow> c_leakguard c' = c_leakguard c \<and> leakguardOff c' = leakguardOff c
    \<and> c_routes c' = c_routes c"
  by (auto simp: ensure_dns_def split: if_splits prod.splits option.splits)

text \<open>(C8) Fail-closed: a client that was not told to accept leaks, and has not lost its guard before,
  brings a full tunnel up only with leak protection enabled; when protection fails, the attempt fails
  and the routes are not touched.\<close>

theorem full_tunnel_fail_closed:
  assumes "bring_up E cfg a remote c s = (res, c', s')"
    and "is_full_tunnel (ai_routes a)" and "\<not> cc_allow_insecure_leak cfg" and "\<not> leakguardOff c"
    and "c_leakguard c \<in> {None, Some True}"
  shows "(res = None \<longrightarrow> c_leakguard c' = Some True)
    \<and> (c_leakguard c' = Some True \<or> c_routes c' = c_routes c)"
proof -
  obtain r1 c1 s1 where 1: "ensure_configured E a c s = (r1, c1, s1)" by (metis prod_cases3)
  have c1: "c_leakguard c1 = c_leakguard c" "leakguardOff c1 = leakguardOff c"
    using ensure_configured_guard [OF 1] by simp_all
  have "c_routes c1 = c_routes c"
    using 1 by (auto simp: ensure_configured_def split: if_splits prod.splits option.splits)
  note c1 = c1 this
  show ?thesis
  proof (cases r1)
    case (Some e)
    with 1 assms(1) c1 show ?thesis by (auto simp: bring_up_def)
  next
    case None
    obtain r2 c2 s2 where 2: "ensure_leak_protection E cfg a remote c1 s1 = (r2, c2, s2)"
      by (metis prod_cases3)
    have c2: "c_routes c2 = c_routes c1"
      using 2 by (auto simp: ensure_leak_protection_def leak_unavailable_def
          split: if_splits prod.splits option.splits)
    show ?thesis
    proof (cases r2)
      case (Some e)
      with 1 2 None assms(1) c1 c2 show ?thesis by (auto simp: bring_up_def)
    next
      case None2: None
      have g2: "c_leakguard c2 = Some True"
        using ensure_leak_guard [OF 2 [unfolded None2] assms(2,3)] c1 assms(4,5) by simp
      obtain r3 c3 s3 where 3: "ensure_routes E a remote c2 s2 = (r3, c3, s3)" by (metis prod_cases3)
      have "c_leakguard c' = Some True"
        using assms(1) 1 2 3 None None2 g2 ensure_routes_guard [OF 3]
        by (cases r3) (auto simp: bring_up_def dest: ensure_dns_guard)
      then show ?thesis by simp
    qed
  qed
qed

text \<open>A machine for the witnesses: its routing table, its default gateway, and whether its firewall
  accepts rules. The last component says whether the kill-switch is loaded.\<close>

type_synonym machine = "(table \<times> ip) \<times> bool \<times> bool"

definition lift_runner :: "(table \<times> ip) runner \<Rightarrow> machine runner" where
  "lift_runner R =
     \<lparr>default_gateway = (\<lambda>s. case default_gateway R (fst s) of (x, t) \<Rightarrow> (x, (t, snd s))),
      add_route = (\<lambda>p gw i s. case add_route R p gw i (fst s) of (x, t) \<Rightarrow> (x, (t, snd s))),
      del_route = (\<lambda>p gw i s. case del_route R p gw i (fst s) of (x, t) \<Rightarrow> (x, (t, snd s)))\<rparr>"

definition test_env :: "machine env" where
  "test_env =
     \<lparr>os_routes = lift_runner table_runner,
      os_fw = \<lparr>fw_enable = (\<lambda>cfg s. if fst (snd s) then (None, (fst s, True, True))
                                    else (Some ''nft failed'', s)),
               fw_restore = (\<lambda>s. (None, (fst s, fst (snd s), False)))\<rparr>,
      os_dns = \<lparr>dns_set = (\<lambda>ss i s. (None, s)), dns_restore = (\<lambda>s. (None, s))\<rparr>,
      os_configure = (\<lambda>a m g mtu s. (None, s)),
      os_lookup = (\<lambda>h. None),
      os_dial = (\<lambda>a p n. Inl (plain_error ''connection refused'')),
      os_read_error = (\<lambda>e. plain_error ''read''),
      dev_name = ''tun0'', dev_mtu = 1380\<rparr>"

definition test_assign :: assign_ip where
  "test_assign = zero_assign_ip\<lparr>ai_ip := ''10.8.0.2'', ai_gateway := ''10.8.0.1'', ai_mtu := 1380,
     ai_routes := [''0.0.0.0/0'']\<rparr>"

definition test_config :: client_config where
  "test_config = \<lparr>cc_server = ''vpn:1'', cc_server_name = ''vpn'', cc_endpoints = [], cc_preferred = [],
     cc_ca_file = ''ca'', cc_cert_file = ''crt'', cc_key_file = ''key'', cc_ca_pem = [], cc_cert_pem = [],
     cc_key_pem = [], cc_keepalive = 0, cc_reconnect_min = 1, cc_reconnect_max = 60,
     cc_handshake_timeout = 10, cc_allow_insecure_leak = False\<rparr>"

lemma test_full_tunnel: "is_full_tunnel (ai_routes test_assign)"
  by code_simp

lemma test_parsed:
  "parse_prefix ''0.0.0.0/0'' = Some \<lparr>pfx_addr = V4 0, pfx_bits = 0\<rparr>"
  "parse_addr ''10.8.0.1'' = Some (V4 0x0A080001)"
  by code_simp+

theorem full_tunnel_fail_closed_witness:
  "\<exists>e c' s'. bring_up test_env test_config test_assign (Some (V4 7)) fresh_client
      ((Map.empty, V4 9), False, False) = (Some e, c', s') \<and> c_routes c' = None"
proof -
  obtain e c' s' where b: "bring_up test_env test_config test_assign (Some (V4 7)) fresh_client
      ((Map.empty, V4 9), False, False) = (Some e, c', s')" and g: "c_leakguard c' = None"
    using test_full_tunnel
    by (simp add: bring_up_def ensure_configured_def ensure_leak_protection_def leak_unavailable_def
        fresh_client_def test_config_def test_env_def firewall_enable_def session_fw_def)
  have "\<not> cc_allow_insecure_leak test_config" "\<not> leakguardOff fresh_client"
    "c_leakguard fresh_client \<in> {None, Some True}" "c_routes fresh_client = None"
    by (simp_all add: test_config_def fresh_client_def)
  with full_tunnel_fail_closed [OF b test_full_tunnel] g have "c_routes c' = None" by auto
  with b show ?thesis by blast
qed

text \<open>A re-point that fails turns the guard off for good: when the server has moved and the
  kill-switch cannot be loaded for its new address, \<open>preparePath\<close> drops the guard, and the next
  attempt brings the full tunnel up without leak protection and without an error, whatever the
  configuration says about accepting leaks.\<close>

theorem repoint_failure_opens_leak:
  assumes "c_leakguard c = Some ap" and "pinnedServerIP c = Some old" and "srv \<noteq> old"
    and "c_routes c \<noteq> None" and "configuredIP c = ai_ip a" and "ai_ip a \<noteq> []" and "ai_dns a = []"
    and "\<And>t. fst (fw_enable (os_fw E) (session_fw E srv) t) \<noteq> None"
    and "prepare_path E srv c s = (c1, s1)"
  shows "bring_up E cfg a remote c1 s1 = (None, c1, s1) \<and> c_leakguard c1 = None"
proof -
  have fails: "\<exists>e ap' t'. firewall_enable (os_fw E) (session_fw E srv) ap t = (Some e, ap', t')" for ap t
    using assms(8) [of t] by (cases "fw_enable (os_fw E) (session_fw E srv) t")
      (auto simp: firewall_enable_def)
  from assms(4) obtain m where m: "c_routes c = Some m" by blast
  obtain res m1 t1 where pin: "pin_server (os_routes E) (Some srv) m s = (res, m1, t1)"
    by (metis prod_cases3)
  obtain ap2 t2 where rem: "firewall_remove (os_fw E) ap t1 = (ap2, t2)" by fastforce
  obtain e ap3 t3 where "firewall_enable (os_fw E) (session_fw E srv) ap2 t2 = (Some e, ap3, t3)"
    using fails by blast
  with assms(1-3,9) m pin rem have c1: "c1 = c\<lparr>c_routes := Some m1, leakguardOff := True,
      c_leakguard := None, pinnedServerIP := Some srv\<rparr>"
    by (simp add: prepare_path_def)
  then show ?thesis
    using assms(5-7)
    by (simp add: bring_up_def ensure_configured_def ensure_leak_protection_def ensure_routes_def
        ensure_dns_def)
qed

definition broken_fw_env :: "machine env" where
  "broken_fw_env = test_env\<lparr>os_fw := \<lparr>fw_enable = (\<lambda>cfg s. (Some ''nft failed'', s)),
     fw_restore = (\<lambda>s. (None, s))\<rparr>\<rparr>"

definition connected_client :: client where
  "connected_client = fresh_client\<lparr>configuredIP := ''10.8.0.2'',
     c_routes := Some (new_manager ''tun0'' (Some (V4 1)) (Some (V4 7))), c_leakguard := Some True,
     pinnedServerIP := Some (V4 7)\<rparr>"

theorem repoint_failure_opens_leak_witness:
  "\<exists>c1 s1. prepare_path broken_fw_env (V4 8) connected_client ((Map.empty, V4 9), True, True) = (c1, s1)
    \<and> bring_up broken_fw_env test_config test_assign None c1 s1 = (None, c1, s1)
    \<and> is_full_tunnel (ai_routes test_assign) \<and> c_leakguard c1 = None
    \<and> \<not> cc_allow_insecure_leak test_config"
proof -
  obtain c1 s1 where p:
    "prepare_path broken_fw_env (V4 8) connected_client ((Map.empty, V4 9), True, True) = (c1, s1)"
    by (metis surj_pair)
  have "bring_up broken_fw_env test_config test_assign None c1 s1 = (None, c1, s1) \<and> c_leakguard c1 = None"
    by (rule repoint_failure_opens_leak [OF _ _ _ _ _ _ _ _ p, of True "V4 7"])
      (simp_all add: connected_client_def test_assign_def zero_assign_ip_def broken_fw_env_def)
  with p test_full_tunnel show ?thesis by (auto simp: test_config_def)
qed

section \<open>The routing table over the life of a client\<close>

text \<open>The runners of firewall and resolver and the configuration of the device leave the gateway routes
  alone, and the route runner is a lawful one of a system with one route per destination.\<close>

definition neutral :: "('s, 'r, 'd) view \<Rightarrow> 's env \<Rightarrow> bool" where
  "neutral V E \<longleftrightarrow> lawful V (os_routes E) \<and> exclusive V (os_routes E)
     \<and> (\<forall>cfg s. v_tab V (snd (fw_enable (os_fw E) cfg s)) = v_tab V s)
     \<and> (\<forall>s. v_tab V (snd (fw_restore (os_fw E) s)) = v_tab V s)
     \<and> (\<forall>ss i s. v_tab V (snd (dns_set (os_dns E) ss i s)) = v_tab V s)
     \<and> (\<forall>s. v_tab V (snd (dns_restore (os_dns E) s)) = v_tab V s)
     \<and> (\<forall>a m g mtu s. v_tab V (snd (os_configure E a m g mtu s)) = v_tab V s)"

definition client_ok :: "('s, 'r, 'd) view \<Rightarrow> 'r set \<Rightarrow> client \<Rightarrow> 's \<Rightarrow> bool" where
  "client_ok V base c s \<longleftrightarrow>
     (case c_routes c of None \<Rightarrow> given_back V base (v_tab V s) | Some m \<Rightarrow> owns V base m (v_tab V s))"

lemma firewall_enable_tab:
  assumes "neutral V E" and "firewall_enable (os_fw E) cfg a s = (r, a', s')"
  shows "v_tab V s' = v_tab V s"
proof (cases "fw_enable (os_fw E) cfg s")
  case (Pair x t)
  have "v_tab V (snd (fw_enable (os_fw E) cfg s)) = v_tab V s" using assms(1) by (simp add: neutral_def)
  with assms(2) Pair show ?thesis by (cases x) (auto simp: firewall_enable_def split: if_splits)
qed

lemma firewall_remove_tab:
  assumes "neutral V E"
  shows "v_tab V (snd (firewall_remove (os_fw E) a s)) = v_tab V s"
proof (cases "fw_restore (os_fw E) s")
  case (Pair x t)
  have "v_tab V (snd (fw_restore (os_fw E) s)) = v_tab V s" using assms by (simp add: neutral_def)
  with Pair show ?thesis by (cases x) (auto simp: firewall_remove_def)
qed

lemma dns_remove_tab:
  assumes "neutral V E"
  shows "v_tab V (snd (dns_remove (os_dns E) a s)) = v_tab V s"
proof (cases "dns_restore (os_dns E) s")
  case (Pair x t)
  have "v_tab V (snd (dns_restore (os_dns E) s)) = v_tab V s" using assms by (simp add: neutral_def)
  with Pair show ?thesis by (cases x) (auto simp: dns_remove_def)
qed

lemma dns_apply_tab:
  assumes "neutral V E" and "dns_apply (os_dns E) i ss a s = (r, a', s')"
  shows "v_tab V s' = v_tab V s"
proof (cases "dns_set (os_dns E) (valid_ips ss) i s")
  case (Pair x t)
  have "v_tab V (snd (dns_set (os_dns E) (valid_ips ss) i s)) = v_tab V s"
    using assms(1) by (simp add: neutral_def)
  with assms(2) Pair show ?thesis by (cases x) (auto simp: dns_apply_def split: if_splits)
qed

lemma client_ok_same:
  "client_ok V base c s \<Longrightarrow> c_routes c' = c_routes c \<Longrightarrow> v_tab V s' = v_tab V s \<Longrightarrow> client_ok V base c' s'"
  by (cases "c_routes c") (simp_all add: client_ok_def)

lemma ensure_configured_ok:
  assumes "neutral V E" and "client_ok V base c s" and "ensure_configured E a c s = (r, c', s')"
  shows "client_ok V base c' s'"
proof (rule client_ok_same [OF assms(2)])
  let ?conf = "os_configure E (ai_ip a) (ai_netmask a) (ai_gateway a) (effective_mtu (dev_mtu E) (ai_mtu a)) s"
  have "v_tab V (snd ?conf) = v_tab V s" using assms(1) by (simp add: neutral_def)
  with assms(3) show "c_routes c' = c_routes c" and "v_tab V s' = v_tab V s"
    by (cases ?conf; auto simp: ensure_configured_def split: if_splits option.splits)+
qed

lemma ensure_leak_ok:
  assumes "neutral V E" and "client_ok V base c s"
    and "ensure_leak_protection E cfg a remote c s = (r, c', s')"
  shows "client_ok V base c' s'"
  using assms(3)
  by (intro client_ok_same [OF assms(2)])
    (auto simp: ensure_leak_protection_def leak_unavailable_def
      split: if_splits option.splits prod.splits dest: firewall_enable_tab [OF assms(1)])

lemma ensure_routes_ok:
  assumes "neutral V E" and "client_ok V base c s" and "ensure_routes E a remote c s = (r, c', s')"
  shows "client_ok V base c' s'"
proof -
  have law: "lawful V (os_routes E)" "exclusive V (os_routes E)" using assms(1) by (simp_all add: neutral_def)
  show ?thesis
    using assms(2,3) route_install_owns [OF law]
    by (fastforce simp: ensure_routes_def client_ok_def split: if_splits option.splits prod.splits)
qed

lemma ensure_dns_ok:
  assumes "neutral V E" and "client_ok V base c s" and "ensure_dns E a c s = (r, c', s')"
  shows "client_ok V base c' s'"
  using assms(3)
  by (intro client_ok_same [OF assms(2)])
    (auto simp: ensure_dns_def split: if_splits option.splits prod.splits
      dest: dns_apply_tab [OF assms(1)])

lemma bring_up_ok:
  assumes "neutral V E" and "client_ok V base c s" and "bring_up E cfg a remote c s = (r, c', s')"
  shows "client_ok V base c' s'"
proof -
  obtain r1 c1 s1 where 1: "ensure_configured E a c s = (r1, c1, s1)" by (metis prod_cases3)
  obtain r2 c2 s2 where 2: "ensure_leak_protection E cfg a remote c1 s1 = (r2, c2, s2)"
    by (metis prod_cases3)
  obtain r3 c3 s3 where 3: "ensure_routes E a remote c2 s2 = (r3, c3, s3)" by (metis prod_cases3)
  note ok1 = ensure_configured_ok [OF assms(1,2) 1]
  note ok2 = ensure_leak_ok [OF assms(1) ok1 2]
  note ok3 = ensure_routes_ok [OF assms(1) ok2 3]
  from assms(3) 1 2 3 ok1 ok2 ok3 show ?thesis
    by (cases r1; cases r2; cases r3)
      (auto simp: bring_up_def intro: ensure_dns_ok [OF assms(1) ok3])
qed

lemma prepare_path_ok:
  assumes "neutral V E" and "client_ok V base c s" and "prepare_path E srv c s = (c', s')"
  shows "client_ok V base c' s'"
proof -
  have law: "lawful V (os_routes E)" "exclusive V (os_routes E)" using assms(1) by (simp_all add: neutral_def)
  obtain c1 s1 where 1: "(case c_routes c of None \<Rightarrow> (c, s)
      | Some m \<Rightarrow> (case pin_server (os_routes E) (Some srv) m s of
          (res, m1, s1) \<Rightarrow> (c\<lparr>c_routes := Some m1\<rparr>, s1))) = (c1, s1)" by fastforce
  have ok1: "client_ok V base c1 s1"
  proof (cases "c_routes c")
    case None
    with 1 assms(2) show ?thesis by simp
  next
    case (Some m)
    obtain res m1 t1 where p: "pin_server (os_routes E) (Some srv) m s = (res, m1, t1)"
      by (metis prod_cases3)
    from assms(2) Some have "owns V base m (v_tab V s)" by (simp add: client_ok_def)
    from pin_server_owns [OF law this p] 1 Some p show ?thesis by (auto simp: client_ok_def)
  qed
  show ?thesis
  proof (cases "\<exists>ap old. c_leakguard c1 = Some ap \<and> pinnedServerIP c1 = Some old \<and> srv \<noteq> old")
    case False
    with assms(3) 1 have "c' = c1\<lparr>pinnedServerIP := Some srv\<rparr> \<and> s' = s1"
      by (auto simp: prepare_path_def split: option.splits)
    with ok1 show ?thesis by (auto intro: client_ok_same)
  next
    case True
    then obtain ap old where g: "c_leakguard c1 = Some ap" "pinnedServerIP c1 = Some old" "srv \<noteq> old"
      by blast
    obtain ap2 s2 where r: "firewall_remove (os_fw E) ap s1 = (ap2, s2)" by fastforce
    obtain x ap3 s3 where e: "firewall_enable (os_fw E) (session_fw E srv) ap2 s2 = (x, ap3, s3)"
      by (metis prod_cases3)
    have "v_tab V s3 = v_tab V s1"
      using firewall_remove_tab [OF assms(1), of ap s1] firewall_enable_tab [OF assms(1) e] r by simp
    moreover have "c_routes c' = c_routes c1 \<and> s' = s3"
      using assms(3) 1 g r e by (cases x) (auto simp: prepare_path_def)
    ultimately show ?thesis using ok1 by (auto intro: client_ok_same)
  qed
qed

lemma connect_once_ok:
  assumes "neutral V E" and "client_ok V base c s"
  shows "client_ok V base (at_client (connect_once E cfg ep c s)) (at_sys (connect_once E cfg ep c s))"
proof (cases "resolve_server (os_lookup E) (ep_server ep)")
  case (Inl e)
  with assms(2) show ?thesis by (simp add: connect_once_def Let_def)
next
  case (Inr sp)
  then obtain srv port where sp: "resolve_server (os_lookup E) (ep_server ep) = Inr (srv, port)"
    by (cases sp) auto
  obtain c1 s1 where p: "prepare_path E srv c s = (c1, s1)" by fastforce
  note ok1 = prepare_path_ok [OF assms p]
  show ?thesis
    using ok1 sp p bring_up_ok [OF assms(1) ok1]
    unfolding connect_once_def Let_def
    by (auto split: sum.splits prod.splits option.splits)
qed

definition attempt_step ::
    "client_config \<Rightarrow> client \<times> 's \<Rightarrow> 's env \<times> endpoint \<Rightarrow> client \<times> 's" where
  "attempt_step cfg cs x =
     (let at = connect_once (fst x) cfg (snd x) (fst cs) (snd cs) in (at_client at, at_sys at))"

text \<open>The teardown of \<open>Run\<close> after any sequence of attempts.\<close>

lemma attempts_ok:
  assumes "list_all (\<lambda>x. neutral V (fst x)) ats" and "foldl (attempt_step cfg) (fresh_client, s0) ats = (c, s)"
  shows "client_ok V (v_tab V s0) c s"
proof -
  have "client_ok V (v_tab V s0) (fst (foldl (attempt_step cfg) (fresh_client, s0) ats))
      (snd (foldl (attempt_step cfg) (fresh_client, s0) ats))"
    using assms(1)
  proof (induction ats rule: rev_induct)
    case Nil
    then show ?case by (simp add: client_ok_def fresh_client_def given_back_def)
  next
    case (snoc x xs)
    then show ?case by (simp add: attempt_step_def Let_def connect_once_ok)
  qed
  then show ?thesis by (simp add: assms(2))
qed

lemma teardown_gives_back:
  assumes "neutral V E" and "client_ok V base c s"
  shows "given_back V base (v_tab V (snd (run_teardown E c s)))"
proof -
  define s1 where "s1 = (case c_resolvers c of None \<Rightarrow> s | Some ap \<Rightarrow> snd (dns_remove (os_dns E) ap s))"
  define s2 where "s2 = (case c_routes c of None \<Rightarrow> s1 | Some m \<Rightarrow> snd (route_remove (os_routes E) m s1))"
  have t1: "v_tab V s1 = v_tab V s"
    unfolding s1_def by (auto simp: dns_remove_tab [OF assms(1)] split: option.splits)
  have "given_back V base (v_tab V s2)"
  proof (cases "c_routes c")
    case None
    with assms(2) t1 show ?thesis by (simp add: s2_def client_ok_def)
  next
    case (Some m)
    with assms(2) t1 have own: "owns V base m (v_tab V s1)" by (simp add: client_ok_def)
    obtain m' s' where rb: "rollback (os_routes E) m s1 = (m', s')" by fastforce
    have "lawful V (os_routes E)" "exclusive V (os_routes E)" using assms(1) by (simp_all add: neutral_def)
    from rollback_restores [OF this own rb] Some rb show ?thesis by (simp add: s2_def route_remove_def)
  qed
  moreover have "v_tab V (snd (run_teardown E c s)) = v_tab V s2"
    unfolding run_teardown_def Let_def s1_def [symmetric] s2_def [symmetric]
    by (auto simp: firewall_remove_tab [OF assms(1)] split: option.splits)
  ultimately show ?thesis by simp
qed

end
