(* ===== verification/Pumps.thy ===== *)
theory Pumps
  imports Client
begin

text \<open>
  The goroutines of a session of the client (\<open>src/internal/tunnel/client/client.go\<close>): the poller of the
  TUN device that outlives sessions, the outbound pump and the keepalive ticker that share the
  connection through \<open>connWriter\<close>, the reader, and \<open>runSession\<close>, which waits for the first of them to end
  and takes the session down. Each runs in steps of its own: taking from a channel, taking the
  writer's mutex and setting the deadline, each of the two writes of a frame. What the connection
  and the device answer is left to the step, except that a connection that failed a write fails every later
  one, as \<open>crypto/tls\<close> promises.
\<close>

section \<open>State\<close>

definition outbound_buffer_depth :: nat where "outbound_buffer_depth = 64"
definition write_timeout :: int where "write_timeout = 30 * 1000000000"

text \<open>Who writes, and where a writer is: between messages, waiting for the mutex, holding it before the
  header, or between header and payload of a frame; or it has returned, with its error.\<close>

datatype producer = PumpSide | TickSide

datatype writer_at =
    Absent
  | Idle
  | Wants wire_msg
  | AtHeader wire_msg
  | AtPayload wire_msg
  | Returned "io_err option"

datatype write_deadline = NotSet | Ahead | Passed

datatype session_exit =
    PumpEnded "io_err option"
  | TickEnded "io_err option"
  | ReaderEnded reader_exit
  | DeviceGone string
  | ContextDone

text \<open>\<open>se_sent\<close> and \<open>se_taken\<close> are history: the frames written completely, and the packets the queue took from the
  device, those it held at the start included.\<close>

record session_state =
  se_queue :: "bytes list"
  se_dev_dead :: "string option"
  se_polling :: bool
  se_parent :: bool
  se_ctx :: bool
  se_lock :: "producer option"
  se_pump :: writer_at
  se_tick :: writer_at
  se_reader :: "reader_exit option"
  se_deadline :: write_deadline
  se_broken :: bool
  se_wire :: bytes
  se_first :: "session_exit option"
  se_torn :: bool
  se_sent :: "wire_msg list"
  se_taken :: "bytes list"

definition session_start :: "int \<Rightarrow> bytes list \<Rightarrow> session_state" where
  "session_start keepalive queue =
     \<lparr>se_queue = queue, se_dev_dead = None, se_polling = True, se_parent = False, se_ctx = False,
      se_lock = None, se_pump = Idle, se_tick = (if keepalive > 0 then Idle else Absent), se_reader = None,
      se_deadline = NotSet, se_broken = False, se_wire = [], se_first = None, se_torn = False,
      se_sent = [], se_taken = queue\<rparr>"

fun at_of :: "session_state \<Rightarrow> producer \<Rightarrow> writer_at" where
  "at_of s PumpSide = se_pump s"
| "at_of s TickSide = se_tick s"

fun move_to :: "producer \<Rightarrow> writer_at \<Rightarrow> session_state \<Rightarrow> session_state" where
  "move_to PumpSide x s = s\<lparr>se_pump := x\<rparr>"
| "move_to TickSide x s = s\<lparr>se_tick := x\<rparr>"

text \<open>The payload \<open>WriteControl\<close> and \<open>WriteData\<close> hand to \<open>WriteFrame\<close>, and the header of its frame.\<close>

definition frame_payload :: "wire_msg \<Rightarrow> bytes" where
  "frame_payload m = frame_tag (fst (wire_packet m)) # snd (wire_packet m)"

definition frame_header :: "wire_msg \<Rightarrow> bytes" where
  "frame_header m = put_uint16 (word_of_nat (length (frame_payload m)))"

section \<open>Steps\<close>

text \<open>The poller: a packet, which a full queue drops; an error, reported once unless the client is stopping;
  and the check of the context after a packet.\<close>

inductive poll_step :: "session_state \<Rightarrow> session_state \<Rightarrow> bool" where
  poll_packet: "se_polling s \<Longrightarrow> pkt \<noteq> [] \<Longrightarrow> length (se_queue s) < outbound_buffer_depth \<Longrightarrow>
    poll_step s (s\<lparr>se_queue := se_queue s @ [pkt], se_taken := se_taken s @ [pkt]\<rparr>)"
| poll_drop: "se_polling s \<Longrightarrow> length (se_queue s) \<ge> outbound_buffer_depth \<Longrightarrow> poll_step s s"
| poll_quit: "se_polling s \<Longrightarrow> se_parent s \<Longrightarrow> poll_step s (s\<lparr>se_polling := False\<rparr>)"
| poll_error: "se_polling s \<Longrightarrow> \<not> se_parent s \<Longrightarrow>
    poll_step s (s\<lparr>se_polling := False,
      se_dev_dead := (case se_dev_dead s of None \<Rightarrow> Some e | Some d \<Rightarrow> Some d)\<rparr>)"

text \<open>Pump and ticker up to \<open>connWriter.write\<close>: when both are ready, the context and the channel, either may be
  chosen.\<close>

inductive source_step :: "session_state \<Rightarrow> session_state \<Rightarrow> bool" where
  pump_take: "se_pump s = Idle \<Longrightarrow> se_queue s = pkt # q \<Longrightarrow>
    source_step s (s\<lparr>se_pump := Wants (WData pkt), se_queue := q\<rparr>)"
| tick_fire: "se_tick s = Idle \<Longrightarrow> source_step s (s\<lparr>se_tick := Wants (WControl new_keepalive)\<rparr>)"
| source_done: "at_of s p = Idle \<Longrightarrow> se_ctx s \<Longrightarrow> source_step s (move_to p (Returned None) s)"

text \<open>\<open>connWriter.write\<close> and the two writes of \<open>WriteFrame\<close>: the mutex is held from the deadline to the end of the
  frame. A write that fails may have put a part of its bytes on the wire.\<close>

inductive write_step :: "session_state \<Rightarrow> session_state \<Rightarrow> bool" where
  lock_ok: "at_of s p = Wants m \<Longrightarrow> se_lock s = None \<Longrightarrow>
    write_step s (move_to p (AtHeader m) (s\<lparr>se_lock := Some p, se_deadline := Ahead\<rparr>))"
| lock_fail: "at_of s p = Wants m \<Longrightarrow> se_lock s = None \<Longrightarrow>
    write_step s (move_to p (Returned (Some e)) s)"
| too_large: "at_of s p = AtHeader m \<Longrightarrow> length (frame_payload m) > max_frame_size \<Longrightarrow>
    write_step s (move_to p (Returned (Some e)) (s\<lparr>se_lock := None\<rparr>))"
| header_ok: "at_of s p = AtHeader m \<Longrightarrow> length (frame_payload m) \<le> max_frame_size \<Longrightarrow> \<not> se_broken s \<Longrightarrow>
    write_step s (move_to p (AtPayload m) (s\<lparr>se_wire := se_wire s @ frame_header m\<rparr>))"
| header_fail: "at_of s p = AtHeader m \<Longrightarrow> length (frame_payload m) \<le> max_frame_size \<Longrightarrow>
    k < length (frame_header m) \<Longrightarrow> (se_broken s \<Longrightarrow> k = 0) \<Longrightarrow>
    write_step s (move_to p (Returned (Some e))
      (s\<lparr>se_wire := se_wire s @ take k (frame_header m), se_broken := True, se_lock := None\<rparr>))"
| payload_ok: "at_of s p = AtPayload m \<Longrightarrow> \<not> se_broken s \<Longrightarrow>
    write_step s (move_to p Idle
      (s\<lparr>se_wire := se_wire s @ frame_payload m, se_sent := se_sent s @ [m], se_lock := None\<rparr>))"
| payload_fail: "at_of s p = AtPayload m \<Longrightarrow> k < length (frame_payload m) \<Longrightarrow>
    write_step s (move_to p (Returned (Some e))
      (s\<lparr>se_wire := se_wire s @ take k (frame_payload m), se_broken := True, se_lock := None\<rparr>))"

text \<open>\<open>runSession\<close>: the first event ends the wait, whichever is chosen among those that are ready; then the
  context is cancelled, and then both deadlines are put into the past. The reader returns what
  \<open>conn_reader\<close> says, cleanly only if the session is cancelled.\<close>

inductive end_step :: "session_state \<Rightarrow> session_state \<Rightarrow> bool" where
  parent_cancel: "end_step s (s\<lparr>se_parent := True, se_ctx := True\<rparr>)"
| reader_end: "se_reader s = None \<Longrightarrow> (\<forall>a. x \<noteq> StillReading a) \<Longrightarrow> (x = CleanExit \<Longrightarrow> se_ctx s) \<Longrightarrow>
    end_step s (s\<lparr>se_reader := Some x\<rparr>)"
| first_pump: "se_first s = None \<Longrightarrow> se_pump s = Returned r \<Longrightarrow>
    end_step s (s\<lparr>se_first := Some (PumpEnded r), se_ctx := True\<rparr>)"
| first_tick: "se_first s = None \<Longrightarrow> se_tick s = Returned r \<Longrightarrow>
    end_step s (s\<lparr>se_first := Some (TickEnded r), se_ctx := True\<rparr>)"
| first_reader: "se_first s = None \<Longrightarrow> se_reader s = Some x \<Longrightarrow>
    end_step s (s\<lparr>se_first := Some (ReaderEnded x), se_ctx := True\<rparr>)"
| first_device: "se_first s = None \<Longrightarrow> se_dev_dead s = Some e \<Longrightarrow>
    end_step s (s\<lparr>se_first := Some (DeviceGone e), se_dev_dead := None, se_ctx := True\<rparr>)"
| first_context: "se_first s = None \<Longrightarrow> se_parent s \<Longrightarrow>
    end_step s (s\<lparr>se_first := Some ContextDone, se_ctx := True\<rparr>)"
| past_deadline: "se_first s \<noteq> None \<Longrightarrow> \<not> se_torn s \<Longrightarrow>
    end_step s (s\<lparr>se_torn := True, se_deadline := Passed\<rparr>)"

definition session_step :: "session_state \<Rightarrow> session_state \<Rightarrow> bool" where
  "session_step s s' \<longleftrightarrow> poll_step s s' \<or> source_step s s' \<or> write_step s s' \<or> end_step s s'"

text \<open>What the session reports to the reconnect loop: nothing for a stop, a fatal error for a dead device.\<close>

fun session_error :: "session_exit \<Rightarrow> sentinel set option" where
  "session_error ContextDone = None"
| "session_error (PumpEnded r) = map_option (\<lambda>e. {}) r"
| "session_error (TickEnded r) = map_option (\<lambda>e. {}) r"
| "session_error (ReaderEnded CleanExit) = None"
| "session_error (ReaderEnded (ServerSaid m)) = Some {ErrFatalServer}"
| "session_error (ReaderEnded x) = Some {}"
| "session_error (DeviceGone e) = Some {ErrFatalConfig}"

section \<open>Invariants\<close>

fun holding :: "writer_at \<Rightarrow> bool" where
  "holding (AtHeader m) = True"
| "holding (AtPayload m) = True"
| "holding x = False"

fun message_at :: "writer_at \<Rightarrow> wire_msg option" where
  "message_at (Wants m) = Some m"
| "message_at (AtHeader m) = Some m"
| "message_at (AtPayload m) = Some m"
| "message_at x = None"

fun data_of :: "wire_msg list \<Rightarrow> bytes list" where
  "data_of [] = []"
| "data_of (WData p # ms) = p # data_of ms"
| "data_of (WControl m # ms) = data_of ms"

lemma data_of_append [simp]: "data_of (ms @ ns) = data_of ms @ data_of ns"
  by (induction ms rule: data_of.induct) simp_all

definition fits_frame :: "wire_msg \<Rightarrow> bool" where
  "fits_frame m \<longleftrightarrow> length (frame_payload m) \<le> max_frame_size"

text \<open>The header that is on the wire without its payload.\<close>

fun begun_at :: "writer_at \<Rightarrow> bytes" where
  "begun_at (AtPayload m) = frame_header m"
| "begun_at x = []"

definition begun :: "session_state \<Rightarrow> bytes" where
  "begun s = begun_at (se_pump s) @ begun_at (se_tick s)"

lemma begun_at_free: "\<not> holding x \<Longrightarrow> begun_at x = []"
  by (cases x) simp_all

definition lock_inv :: "session_state \<Rightarrow> bool" where
  "lock_inv s \<longleftrightarrow> (\<forall>p. holding (at_of s p) \<longleftrightarrow> se_lock s = Some p)
     \<and> (\<forall>p m. at_of s p = AtPayload m \<longrightarrow> fits_frame m)
     \<and> (\<forall>m. message_at (se_pump s) = Some m \<longrightarrow> (\<exists>d. m = WData d))
     \<and> (\<forall>m. message_at (se_tick s) = Some m \<longrightarrow> m = WControl new_keepalive)"

definition wire_inv :: "session_state \<Rightarrow> bool" where
  "wire_inv s \<longleftrightarrow>
     (\<exists>part. se_wire s = concat (map (\<lambda>m. frame_header m @ frame_payload m) (se_sent s)) @ part
        \<and> (se_broken s \<or> part = begun s))
     \<and> (\<forall>m \<in> set (se_sent s). fits_frame m \<and> (m = WControl new_keepalive \<or> (\<exists>d. m = WData d)))"

definition queue_inv :: "session_state \<Rightarrow> bool" where
  "queue_inv s \<longleftrightarrow>
     (\<exists>lost. se_taken s = data_of (se_sent s) @ lost @ data_of (case message_at (se_pump s) of None \<Rightarrow> [] | Some m \<Rightarrow> [m]) @ se_queue s
        \<and> length lost \<le> 1 \<and> (lost \<noteq> [] \<longrightarrow> (\<exists>r. se_pump s = Returned r)))"

lemma all_producers: "(\<forall>p. P p) \<longleftrightarrow> P PumpSide \<and> P TickSide"
  by (metis producer.exhaust)

lemma move_to_frame [simp]:
  "se_queue (move_to p x s) = se_queue s" "se_wire (move_to p x s) = se_wire s" "se_sent (move_to p x s) = se_sent s"
  "se_lock (move_to p x s) = se_lock s" "se_broken (move_to p x s) = se_broken s" "se_taken (move_to p x s) = se_taken s"
  "se_polling (move_to p x s) = se_polling s" "se_parent (move_to p x s) = se_parent s" "se_first (move_to p x s) = se_first s"
  "se_dev_dead (move_to p x s) = se_dev_dead s"
  by (cases p; simp)+

lemma lock_inv_step:
  assumes "session_step s s'" and "lock_inv s"
  shows "lock_inv s'"
  using assms(1) unfolding session_step_def
proof (elim disjE)
  assume "poll_step s s'"
  then show ?thesis using assms(2) by cases (auto simp: lock_inv_def all_producers)
next
  assume "source_step s s'"
  then show ?thesis using assms(2)
  proof cases
    case (source_done p)
    with assms(2) show ?thesis by (cases p) (auto simp: lock_inv_def all_producers)
  qed (auto simp: lock_inv_def all_producers)
next
  assume "end_step s s'"
  then show ?thesis using assms(2) by cases (auto simp: lock_inv_def all_producers)
next
  assume "write_step s s'"
  then show ?thesis
  proof cases
    case (lock_ok p m)
    with assms(2) show ?thesis by (cases p) (auto simp: lock_inv_def all_producers)
  next
    case (lock_fail p m e)
    with assms(2) show ?thesis by (cases p) (auto simp: lock_inv_def all_producers)
  next
    case (too_large p m e)
    with assms(2) show ?thesis by (cases p) (auto simp: lock_inv_def all_producers)
  next
    case (header_ok p m)
    with assms(2) show ?thesis by (cases p) (auto simp: lock_inv_def all_producers fits_frame_def)
  next
    case (header_fail p m k e)
    with assms(2) show ?thesis by (cases p) (auto simp: lock_inv_def all_producers)
  next
    case (payload_ok p m)
    with assms(2) show ?thesis by (cases p) (auto simp: lock_inv_def all_producers)
  next
    case (payload_fail p m k e)
    with assms(2) show ?thesis by (cases p) (auto simp: lock_inv_def all_producers)
  qed
qed

lemma wire_inv_same:
  assumes "wire_inv s" and "se_wire s' = se_wire s" and "se_sent s' = se_sent s" and "se_broken s' = se_broken s"
    and "begun s' = begun s"
  shows "wire_inv s'"
  using assms by (simp add: wire_inv_def)

lemma wire_inv_broken:
  assumes "wire_inv s" and "se_wire s' = se_wire s @ bs" and "se_sent s' = se_sent s" and "se_broken s'"
  shows "wire_inv s'"
  using assms by (auto simp: wire_inv_def)

text \<open>The holder of the mutex is alone with the wire.\<close>

lemma begun_holder:
  assumes "lock_inv s" and "holding (at_of s p)"
  shows "begun s = begun_at (at_of s p)"
proof -
  from assms have h: "holding (at_of s q) \<longleftrightarrow> q = p" for q by (auto simp: lock_inv_def)
  show ?thesis
  proof (cases p)
    case PumpSide
    with h [of TickSide] show ?thesis by (simp add: begun_def begun_at_free)
  next
    case TickSide
    with h [of PumpSide] show ?thesis by (simp add: begun_def begun_at_free)
  qed
qed

lemma begun_moved:
  assumes "lock_inv s" and "holding (at_of s p)" and t: "se_pump t = se_pump s" "se_tick t = se_tick s"
  shows "begun (move_to p x t) = begun_at x"
proof -
  from assms have h: "holding (at_of s q) \<longleftrightarrow> q = p" for q by (auto simp: lock_inv_def)
  show ?thesis
  proof (cases p)
    case PumpSide
    with h [of TickSide] t show ?thesis by (simp add: begun_def begun_at_free)
  next
    case TickSide
    with h [of PumpSide] t show ?thesis by (simp add: begun_def begun_at_free)
  qed
qed

lemma wire_inv_step:
  assumes "session_step s s'" and "lock_inv s" and "wire_inv s"
  shows "wire_inv s'"
  using assms(1) unfolding session_step_def
proof (elim disjE)
  assume "poll_step s s'"
  then show ?thesis using assms(3) by cases (auto intro!: wire_inv_same [OF assms(3)] simp: begun_def)
next
  assume "end_step s s'"
  then show ?thesis by cases (auto intro!: wire_inv_same [OF assms(3)] simp: begun_def)
next
  assume "source_step s s'"
  then show ?thesis
  proof cases
    case (source_done p)
    then show ?thesis by (cases p) (auto intro!: wire_inv_same [OF assms(3)] simp: begun_def)
  qed (auto intro!: wire_inv_same [OF assms(3)] simp: begun_def)
next
  assume "write_step s s'"
  then show ?thesis
  proof cases
    case (lock_ok p m)
    then show ?thesis by (cases p) (auto intro!: wire_inv_same [OF assms(3)] simp: begun_def)
  next
    case (lock_fail p m e)
    then show ?thesis by (cases p) (auto intro!: wire_inv_same [OF assms(3)] simp: begun_def)
  next
    case (too_large p m e)
    then show ?thesis by (cases p) (auto intro!: wire_inv_same [OF assms(3)] simp: begun_def)
  next
    case (header_ok p m)
    have h: "holding (at_of s p)" using header_ok by simp
    have "begun s' = frame_header m" unfolding header_ok(1) using begun_moved [OF assms(2) h] by simp
    moreover have "begun s = []" using begun_holder [OF assms(2) h] header_ok(2) by simp
    ultimately show ?thesis using assms(3) header_ok by (auto simp: wire_inv_def)
  next
    case (header_fail p m k e)
    then show ?thesis by (intro wire_inv_broken [OF assms(3)]) simp_all
  next
    case (payload_ok p m)
    have h: "holding (at_of s p)" using payload_ok by simp
    have "begun s' = []" unfolding payload_ok(1) using begun_moved [OF assms(2) h] by simp
    moreover have "begun s = frame_header m" using begun_holder [OF assms(2) h] payload_ok(2) by simp
    moreover have "fits_frame m" using assms(2) payload_ok(2) by (auto simp: lock_inv_def)
    moreover have "m = WControl new_keepalive \<or> (\<exists>d. m = WData d)"
      using assms(2) payload_ok(2) by (cases p) (auto simp: lock_inv_def)
    ultimately show ?thesis using assms(3) payload_ok by (auto simp: wire_inv_def)
  next
    case (payload_fail p m k e)
    then show ?thesis by (intro wire_inv_broken [OF assms(3)]) simp_all
  qed
qed

lemma queue_inv_step:
  assumes "session_step s s'" and "lock_inv s" and "queue_inv s"
  shows "queue_inv s'"
  using assms(1) unfolding session_step_def
proof (elim disjE)
  assume "poll_step s s'"
  then show ?thesis using assms(3) by cases (auto simp: queue_inv_def)
next
  assume "end_step s s'"
  then show ?thesis using assms(3) by cases (auto simp: queue_inv_def)
next
  assume "source_step s s'"
  then show ?thesis
  proof cases
    case (source_done p)
    with assms(3) show ?thesis by (cases p) (auto simp: queue_inv_def)
  qed (use assms(3) in \<open>auto simp: queue_inv_def\<close>)
next
  assume "write_step s s'"
  then show ?thesis
  proof cases
    case (lock_ok p m)
    with assms(3) show ?thesis by (cases p) (auto simp: queue_inv_def)
  next
    case (lock_fail p m e)
    with assms(2,3) show ?thesis by (cases p) (auto simp: queue_inv_def lock_inv_def)
  next
    case (too_large p m e)
    with assms(2,3) show ?thesis by (cases p) (auto simp: queue_inv_def lock_inv_def)
  next
    case (header_ok p m)
    with assms(3) show ?thesis by (cases p) (auto simp: queue_inv_def)
  next
    case (header_fail p m k e)
    with assms(2,3) show ?thesis by (cases p) (auto simp: queue_inv_def lock_inv_def)
  next
    case (payload_ok p m)
    with assms(2,3) show ?thesis by (cases p) (auto simp: queue_inv_def lock_inv_def)
  next
    case (payload_fail p m k e)
    with assms(2,3) show ?thesis by (cases p) (auto simp: queue_inv_def lock_inv_def)
  qed
qed

definition session_runs :: "session_state \<Rightarrow> session_state \<Rightarrow> bool" where
  "session_runs = session_step\<^sup>*\<^sup>*"

lemma start_inv: "lock_inv (session_start ka q)" "wire_inv (session_start ka q)" "queue_inv (session_start ka q)"
  by (auto simp: session_start_def lock_inv_def wire_inv_def queue_inv_def begun_def all_producers)

lemma session_inv:
  assumes "session_runs (session_start ka q) s"
  shows "lock_inv s \<and> wire_inv s \<and> queue_inv s"
  using assms unfolding session_runs_def
proof (induction rule: rtranclp_induct)
  case (step y z)
  then show ?case using lock_inv_step wire_inv_step queue_inv_step by blast
qed (simp add: start_inv)

lemma keepalive_fits: "wire_fits (WControl new_keepalive)"
  by (simp add: marshal_control_def new_keepalive_def control_json_def control_wf_def max_frame_size_def
      ctrl_keepalive_def json_marshal_def opt_member_def json_string_def esc_char_def string_bytes_def)

lemma sent_bytes:
  assumes "\<forall>m \<in> set ms. fits_frame m \<and> (m = WControl new_keepalive \<or> (\<exists>d. m = WData d))"
  shows "put_many packet_bytes (map wire_packet ms) = Some (concat (map (\<lambda>m. frame_header m @ frame_payload m) ms))
    \<and> list_all wire_fits ms"
  using assms
proof (induction ms)
  case (Cons m ms)
  then have "packet_bytes (wire_packet m) = Some (frame_header m @ frame_payload m)"
    by (simp add: packet_bytes_def frame_bytes_def fits_frame_def frame_payload_def frame_header_def)
  moreover have "wire_fits m"
    using Cons.prems keepalive_fits by (auto simp: fits_frame_def frame_payload_def)
  ultimately show ?case using Cons by simp
qed simp

section \<open>Properties\<close>

text \<open>(C12) The stream a session writes: however poller, pump, ticker, reader and the end of the session interleave and
  wherever writes fail, the server reads back from the connection exactly the frames that were written, one by
  one and never mixed, and nothing is left over unless a frame is being written or a write has failed; the
  packets among them are packets the queue of the session took, in its order, and at most one that the queue took is
  neither among them nor still queued: the one that is being written, or that failed. A packet that finds the queue
  full is dropped by the poller before that, any number of them.\<close>

theorem session_stream_whole:
  assumes "session_runs (session_start ka q) s"
  shows "\<exists>ps rest. get_many read_packet (length (se_sent s)) \<lparr>rd_data = se_wire s, rd_end = e\<rparr>
      = (Inr ps, \<lparr>rd_data = rest, rd_end = e\<rparr>)
    \<and> map wire_of_packet ps = map Inr (se_sent s)
    \<and> (rest = [] \<or> se_broken s \<or> se_lock s \<noteq> None)
    \<and> (\<exists>lost. se_taken s = data_of (se_sent s) @ lost @ se_queue s \<and> length lost \<le> 1)"
proof -
  from session_inv [OF assms] have l: "lock_inv s" and w: "wire_inv s" and t: "queue_inv s" by simp_all
  from w obtain part where wire: "se_wire s = concat (map (\<lambda>m. frame_header m @ frame_payload m) (se_sent s)) @ part"
    and part: "se_broken s \<or> part = begun s"
    and f: "\<forall>m \<in> set (se_sent s). fits_frame m \<and> (m = WControl new_keepalive \<or> (\<exists>d. m = WData d))"
    unfolding wire_inv_def by blast
  from sent_bytes [OF f] have b: "put_many packet_bytes (map wire_packet (se_sent s))
      = Some (concat (map (\<lambda>m. frame_header m @ frame_payload m) (se_sent s)))"
    and fits: "list_all wire_fits (se_sent s)" by simp_all
  have "map wire_of_packet (map wire_packet (se_sent s)) = map Inr (se_sent s)"
    using fits by (auto simp: list_all_iff wire_of_wire_packet)
  moreover have "get_many read_packet (length (se_sent s)) \<lparr>rd_data = se_wire s, rd_end = e\<rparr>
      = (Inr (map wire_packet (se_sent s)), \<lparr>rd_data = part, rd_end = e\<rparr>)"
    using packets.stream_get [OF b, of part e] wire by simp
  moreover have "part = [] \<or> se_broken s \<or> se_lock s \<noteq> None"
  proof (cases "se_lock s")
    case None
    with l have "\<not> holding (at_of s p)" for p by (simp add: lock_inv_def)
    from this [of PumpSide] this [of TickSide] have "begun s = []" by (simp add: begun_def begun_at_free)
    with part show ?thesis by blast
  qed simp
  moreover have "\<exists>lost. se_taken s = data_of (se_sent s) @ lost @ se_queue s \<and> length lost \<le> 1"
  proof -
    from t obtain lost where lost: "se_taken s = data_of (se_sent s) @ lost
        @ data_of (case message_at (se_pump s) of None \<Rightarrow> [] | Some m \<Rightarrow> [m]) @ se_queue s" "length lost \<le> 1"
      "lost \<noteq> [] \<longrightarrow> (\<exists>r. se_pump s = Returned r)" unfolding queue_inv_def by blast
    show ?thesis
    proof (cases "message_at (se_pump s)")
      case None
      with lost show ?thesis by auto
    next
      case (Some m)
      with l obtain d where "m = WData d" by (auto simp: lock_inv_def)
      with Some lost show ?thesis by (intro exI [of _ "[d]"]) auto
    qed
  qed
  ultimately show ?thesis by blast
qed

theorem session_stream_whole_witness:
  "\<exists>s ps rest. session_runs (session_start 0 [[0x45]]) s
    \<and> get_many read_packet 1 \<lparr>rd_data = se_wire s, rd_end = EOF\<rparr> = (Inr ps, \<lparr>rd_data = rest, rd_end = EOF\<rparr>)
    \<and> map wire_of_packet ps = [Inr (WData [0x45])] \<and> rest = []"
proof -
  let ?m = "WData [0x45]"
  let ?s0 = "session_start 0 [[0x45]]"
  let ?s1 = "?s0\<lparr>se_pump := Wants ?m, se_queue := []\<rparr>"
  let ?s2 = "move_to PumpSide (AtHeader ?m) (?s1\<lparr>se_lock := Some PumpSide, se_deadline := Ahead\<rparr>)"
  let ?s3 = "move_to PumpSide (AtPayload ?m) (?s2\<lparr>se_wire := se_wire ?s2 @ frame_header ?m\<rparr>)"
  let ?s4 = "move_to PumpSide Idle (?s3\<lparr>se_wire := se_wire ?s3 @ frame_payload ?m, se_sent := se_sent ?s3 @ [?m], se_lock := None\<rparr>)"
  have "session_step ?s0 ?s1" unfolding session_step_def
    using pump_take [of ?s0 "[0x45]" "[]"] by (simp add: session_start_def)
  moreover have "session_step ?s1 ?s2" unfolding session_step_def
    using lock_ok [of ?s1 PumpSide ?m] by (simp add: session_start_def)
  moreover have "session_step ?s2 ?s3" unfolding session_step_def
    using header_ok [of ?s2 PumpSide ?m] by (simp add: session_start_def frame_payload_def max_frame_size_def)
  moreover have "session_step ?s3 ?s4" unfolding session_step_def
    using payload_ok [of ?s3 PumpSide ?m] by (simp add: session_start_def)
  ultimately have r: "session_runs ?s0 ?s4" unfolding session_runs_def
    by (meson converse_rtranclp_into_rtranclp rtranclp.rtrancl_refl)
  have "se_sent ?s4 = [?m]" "\<not> se_broken ?s4" "se_lock ?s4 = None" by (simp_all add: session_start_def)
  with r obtain s where s: "session_runs ?s0 s" and f: "se_sent s = [?m]" "\<not> se_broken s" "se_lock s = None" by blast
  have n: "length (se_sent s) = 1" "map Inr (se_sent s) = [Inr ?m]" by (simp_all add: f)
  from session_stream_whole [OF s, of EOF, unfolded n] obtain ps rest where
    "get_many read_packet 1 \<lparr>rd_data = se_wire s, rd_end = EOF\<rparr> = (Inr ps, \<lparr>rd_data = rest, rd_end = EOF\<rparr>)"
    "map wire_of_packet ps = [Inr ?m]" "rest = []" using f(2,3) by auto
  with s show ?thesis by (intro exI [of _ s] exI [of _ ps] exI [of _ rest]) simp
qed

text \<open>(C13) A dead device does not go unnoticed: once the poller has stopped on an error while the client was not
  being stopped, the session has ended with that error, which is fatal, or its end is ready to be
  chosen, or the session has ended for another reason and the error is kept for the reconnect loop.\<close>

theorem dead_device_noticed:
  assumes "session_runs (session_start ka q) s" and "\<not> se_polling s" and "\<not> se_parent s"
  shows "(\<exists>e. se_first s = Some (DeviceGone e) \<and> session_error (DeviceGone e) = Some {ErrFatalConfig})
    \<or> (\<exists>e. se_dev_dead s = Some e
        \<and> (se_first s \<noteq> None \<or> session_step s (s\<lparr>se_first := Some (DeviceGone e), se_dev_dead := None, se_ctx := True\<rparr>)))"
proof -
  have inv: "se_polling s \<or> se_parent s \<or> se_dev_dead s \<noteq> None \<or> (\<exists>e. se_first s = Some (DeviceGone e))"
    using assms(1) unfolding session_runs_def
  proof (induction rule: rtranclp_induct)
    case base
    then show ?case by (simp add: session_start_def)
  next
    case (step y z)
    then show ?case unfolding session_step_def
      by (auto elim!: poll_step.cases source_step.cases write_step.cases end_step.cases split: option.splits)
  qed
  show ?thesis
  proof (cases "\<exists>e. se_first s = Some (DeviceGone e)")
    case True
    then show ?thesis by auto
  next
    case False
    with inv assms(2,3) obtain e where e: "se_dev_dead s = Some e" by auto
    have "session_step s (s\<lparr>se_first := Some (DeviceGone e), se_dev_dead := None, se_ctx := True\<rparr>)" if "se_first s = None"
      unfolding session_step_def using first_device [OF that e] by simp
    with e show ?thesis by blast
  qed
qed

theorem dead_device_noticed_witness:
  "\<exists>s. session_runs (session_start 5 []) s \<and> se_dev_dead s = Some ''EIO''
    \<and> session_step s (s\<lparr>se_first := Some (DeviceGone ''EIO''), se_dev_dead := None, se_ctx := True\<rparr>)"
proof -
  let ?s0 = "session_start 5 []"
  let ?s1 = "?s0\<lparr>se_polling := False, se_dev_dead := Some ''EIO''\<rparr>"
  have "session_step ?s0 ?s1" unfolding session_step_def
    using poll_error [of ?s0 "''EIO''"] by (simp add: session_start_def)
  then have r: "session_runs ?s0 ?s1" unfolding session_runs_def by blast
  have f: "se_first ?s1 = None" "se_dev_dead ?s1 = Some ''EIO''" by (simp_all add: session_start_def)
  have "\<not> se_polling ?s1" "\<not> se_parent ?s1" by (simp_all add: session_start_def)
  from dead_device_noticed [OF r this] r show ?thesis unfolding f by (metis f(2) option.distinct(1) option.inject)
qed

text \<open>The past deadline does not hold: after \<open>runSession\<close> has cancelled the session and put the deadlines
  into the past to unpark the writers, the pump can still take a packet, and \<open>connWriter.write\<close> puts the
  deadline thirty seconds ahead again before it writes; if the server has stopped reading, the end of the session
  waits for that write.\<close>

theorem teardown_deadline_overwritten:
  "\<exists>s m. session_runs (session_start ka [[0x45]]) s \<and> se_torn s \<and> se_ctx s \<and> se_first s = Some ContextDone
    \<and> se_deadline s = Ahead \<and> se_pump s = AtPayload m"
proof -
  let ?s0 = "session_start ka [[0x45]]"
  let ?s1 = "?s0\<lparr>se_parent := True, se_ctx := True\<rparr>"
  let ?s2 = "?s1\<lparr>se_first := Some ContextDone, se_ctx := True\<rparr>"
  let ?s3 = "?s2\<lparr>se_torn := True, se_deadline := Passed\<rparr>"
  let ?m = "WData [0x45]"
  let ?s4 = "?s3\<lparr>se_pump := Wants ?m, se_queue := []\<rparr>"
  let ?s5 = "move_to PumpSide (AtHeader ?m) (?s4\<lparr>se_lock := Some PumpSide, se_deadline := Ahead\<rparr>)"
  let ?s6 = "move_to PumpSide (AtPayload ?m) (?s5\<lparr>se_wire := se_wire ?s5 @ frame_header ?m\<rparr>)"
  have "session_step ?s0 ?s1" unfolding session_step_def using parent_cancel by blast
  moreover have "session_step ?s1 ?s2" unfolding session_step_def
    using first_context [of ?s1] by (simp add: session_start_def)
  moreover have "session_step ?s2 ?s3" unfolding session_step_def
    using past_deadline [of ?s2] by (simp add: session_start_def)
  moreover have "session_step ?s3 ?s4" unfolding session_step_def
    using pump_take [of ?s3 "[0x45]" "[]"] by (simp add: session_start_def)
  moreover have "session_step ?s4 ?s5" unfolding session_step_def
    using lock_ok [of ?s4 PumpSide ?m] by (simp add: session_start_def)
  moreover have "session_step ?s5 ?s6" unfolding session_step_def
    using header_ok [of ?s5 PumpSide ?m] by (simp add: session_start_def frame_payload_def max_frame_size_def)
  ultimately have "session_runs ?s0 ?s6" unfolding session_runs_def
    by (meson converse_rtranclp_into_rtranclp rtranclp.rtrancl_refl)
  moreover have "se_torn ?s6 \<and> se_ctx ?s6 \<and> se_first ?s6 = Some ContextDone \<and> se_deadline ?s6 = Ahead \<and> se_pump ?s6 = AtPayload ?m"
    by simp
  ultimately show ?thesis by blast
qed

end
