(* ===== verification/Files.thy ===== *)
theory Files
  imports Json
begin

text \<open>
  Small JSON files on disk, as the stores of revocations, invites and clients keep them: read whole,
  decoded, changed and replaced by a rename, so that a write either happens or leaves the old file.
  A file is the text it holds, \<open>None\<close> when there is none; what the operating system answers to the
  lock, the read and the write is an argument. The text of a point in time (\<open>time.Time\<close> as JSON) is
  given by a codec. The locale \<open>json_file\<close> is what the stores rely on.
\<close>

type_synonym disk_file = "string option"

record file_io =
  io_lock :: "string option"
  io_read :: "string option"
  io_write :: "string option"

definition io_fine :: file_io where
  "io_fine = \<lparr>io_lock = None, io_read = None, io_write = None\<rparr>"

datatype file_err =
    LockFailed string
  | NotExist
  | ReadFails string
  | FileTooLarge
  | ParseFailed
  | WriteFailed string

definition load_json :: "nat \<Rightarrow> (json \<Rightarrow> 'a option) \<Rightarrow> 'a \<Rightarrow> file_io \<Rightarrow> disk_file \<Rightarrow> file_err + 'a" where
  "load_json limit dec emp io f =
     (case f of
        None \<Rightarrow> Inl NotExist
      | Some text \<Rightarrow>
          (case io_read io of
             Some e \<Rightarrow> Inl (ReadFails e)
           | None \<Rightarrow>
               (if length text > limit then Inl FileTooLarge
                else if text = [] then Inr emp
                else case json_parse text of
                  None \<Rightarrow> Inl ParseFailed
                | Some j \<Rightarrow> (case dec j of None \<Rightarrow> Inl ParseFailed | Some x \<Rightarrow> Inr x))))"

text \<open>A missing file is an empty one.\<close>

definition load_or_empty :: "nat \<Rightarrow> (json \<Rightarrow> 'a option) \<Rightarrow> 'a \<Rightarrow> file_io \<Rightarrow> disk_file \<Rightarrow> file_err + 'a" where
  "load_or_empty limit dec emp io f =
     (case load_json limit dec emp io f of
        Inl e \<Rightarrow> (if e = NotExist then Inr emp else Inl e)
      | Inr x \<Rightarrow> Inr x)"

definition save_json :: "('a \<Rightarrow> json) \<Rightarrow> file_io \<Rightarrow> 'a \<Rightarrow> disk_file \<Rightarrow> file_err option \<times> disk_file" where
  "save_json enc io x f =
     (case io_write io of
        Some e \<Rightarrow> (Some (WriteFailed e), f)
      | None \<Rightarrow> (None, Some (json_marshal_indent (enc x))))"

section \<open>Times\<close>

record time_codec =
  tc_text :: "int \<Rightarrow> string"
  tc_parse :: "string \<Rightarrow> int option"

definition codec_ok :: "time_codec \<Rightarrow> bool" where
  "codec_ok tc \<longleftrightarrow> (\<forall>t. tc_parse tc (tc_text tc t) = Some t)"

text \<open>The zero \<open>time.Time\<close> (1 January of year 1, UTC), in nanoseconds from the Unix epoch.\<close>

definition zero_time :: int where
  "zero_time = - 62135596800 * 1000000000"

text \<open>A codec that computes: decimal numbers.\<close>

definition no_codec :: time_codec where
  "no_codec = \<lparr>tc_text = int_str,
     tc_parse = (\<lambda>s. if s \<noteq> [] \<and> hd s = CHR ''-'' then map_option (\<lambda>n. - int n) (nat_of_str (tl s))
                     else map_option int (nat_of_str s))\<rparr>"

lemma no_codec_ok: "codec_ok no_codec"
proof -
  have "hd (nat_str n) \<noteq> CHR ''-''" for n
    using nat_str_hd [of n] not_digit_sign by metis
  then show ?thesis by (simp add: codec_ok_def no_codec_def int_str_def)
qed

lemma no_codec_texts:
  "tc_text no_codec 5 = ''5''" "tc_text no_codec 3 = ''3''" "tc_text no_codec 1 = ''1''"
  "tc_text no_codec zero_time = ''-62135596800000000000''"
  by (simp_all add: no_codec_def int_str_def nat_str.simps digit_char_def zero_time_def char_of_def bit_numeral_rec bit_0)

fun set_time :: "time_codec \<Rightarrow> json \<Rightarrow> int \<Rightarrow> int option" where
  "set_time tc (JStr s) a = tc_parse tc s"
| "set_time tc JNull a = Some a"
| "set_time tc _ a = None"

lemma json_parse_Nil: "json_parse [] = None"
  by code_simp

section \<open>The contract\<close>

locale json_file =
  fixes enc :: "'a \<Rightarrow> json"
    and dec :: "json \<Rightarrow> 'a option"
    and good :: "'a \<Rightarrow> bool"
  assumes dec_enc: "good x \<Longrightarrow> dec (enc x) = Some x"
    and enc_wf: "json_wf (enc x)"
begin

text \<open>What was saved is loaded, and nothing else can be.\<close>

lemma load_saved:
  assumes "save_json enc io x f = (None, f')" and "io_read io' = None"
    and "length (json_marshal_indent (enc x)) \<le> limit" and "good x"
  shows "load_or_empty limit dec emp io' f' = Inr x"
proof -
  from assms(1) have f': "f' = Some (json_marshal_indent (enc x))"
    by (simp add: save_json_def split: option.splits)
  have p: "json_parse (json_marshal_indent (enc x)) = Some (enc x)" using enc_wf by simp
  then have "json_marshal_indent (enc x) \<noteq> []" using json_parse_Nil by auto
  with p assms(2-4) show ?thesis
    by (simp add: load_or_empty_def load_json_def f' dec_enc)
qed

lemma load_saved_cases:
  assumes "save_json enc io x f = (None, f')" and "good x"
  shows "load_or_empty limit dec emp io' f' = Inr x \<or> (\<exists>e. load_or_empty limit dec emp io' f' = Inl e)"
proof (cases "io_read io' = None \<and> length (json_marshal_indent (enc x)) \<le> limit")
  case True
  with load_saved [OF assms(1) _ _ assms(2)] show ?thesis by blast
next
  case False
  with assms(1) show ?thesis
    by (auto simp: load_or_empty_def load_json_def save_json_def split: option.splits)
qed

text \<open>A file that holds \<open>x\<close>, or none when \<open>x\<close> is the empty value: whatever can be loaded from it is \<open>x\<close>.\<close>

definition holds :: "'a \<Rightarrow> 'a \<Rightarrow> disk_file \<Rightarrow> bool" where
  "holds emp x f \<longleftrightarrow> (f = None \<and> x = emp) \<or> f = Some (json_marshal_indent (enc x))"

lemma load_holds:
  "holds emp x f \<Longrightarrow> good x \<Longrightarrow> load_or_empty limit dec emp io f = Inr y \<Longrightarrow> y = x"
  using enc_wf [of x]
  by (auto simp: holds_def load_or_empty_def load_json_def dec_enc dest: arg_cong [of _ _ json_parse]
      split: option.splits if_splits sum.splits) (metis json_parse_marshal_indent json_parse_Nil option.distinct(1))+

lemma load_json_holds:
  "holds emp x f \<Longrightarrow> good x \<Longrightarrow> load_json limit dec emp io f = Inr y \<Longrightarrow> y = x"
  using load_holds [of emp x f limit io y] by (simp add: load_or_empty_def)

lemma save_holds: "save_json enc io x f = (None, f') \<Longrightarrow> holds emp x f'"
  by (auto simp: save_json_def holds_def split: option.splits)

lemma save_failed: "save_json enc io x f = (Some e, f') \<Longrightarrow> f' = f"
  by (auto simp: save_json_def split: option.splits)

end

section \<open>Hexadecimal numbers\<close>

definition hex_digit :: "nat \<Rightarrow> char" where
  "hex_digit n = (if n < 10 then char_of (48 + n) else char_of (87 + n))"

fun hex_str :: "nat \<Rightarrow> string" where
  "hex_str n = (if n < 16 then [hex_digit n] else hex_str (n div 16) @ [hex_digit (n mod 16)])"

declare hex_str.simps [simp del]

lemma hex_digit_inject:
  assumes "hex_digit m = hex_digit n" and "m < 16" and "n < 16"
  shows "m = n"
proof -
  have "(of_char (hex_digit k) :: nat) = (if k < 10 then 48 + k else 87 + k)" if "k < 16" for k
    using that by (simp add: hex_digit_def)
  from this [OF assms(2)] this [OF assms(3)] assms(1)
  have "(if m < 10 then 48 + m else 87 + m) = (if n < 10 then 48 + n else 87 + n)" by metis
  with assms(2,3) show ?thesis by (simp split: if_splits)
qed

lemma hex_str_inject [simp]: "hex_str m = hex_str n \<longleftrightarrow> m = n"
proof
  show "hex_str m = hex_str n \<Longrightarrow> m = n"
  proof (induction m arbitrary: n rule: hex_str.induct)
    case (1 m)
    have ne: "hex_str k \<noteq> []" for k by (subst hex_str.simps) simp
    have m: "hex_str m = (if m < 16 then [hex_digit m] else hex_str (m div 16) @ [hex_digit (m mod 16)])"
      and n: "hex_str n = (if n < 16 then [hex_digit n] else hex_str (n div 16) @ [hex_digit (n mod 16)])"
      by (rule hex_str.simps)+
    show ?case
    proof (cases "m < 16")
      case True
      with 1(2) m n ne ne [symmetric] show ?thesis by (auto split: if_splits intro: hex_digit_inject)
    next
      case False
      with 1(2) m n ne ne [symmetric] have "\<not> n < 16" by (auto split: if_splits)
      with False 1(2) m n have "hex_str (m div 16) = hex_str (n div 16)"
        and "hex_digit (m mod 16) = hex_digit (n mod 16)" by simp_all
      with 1(1) [OF False] have "m div 16 = n div 16" and "m mod 16 = n mod 16"
        by (auto intro: hex_digit_inject)
      then show ?thesis by (metis div_mult_mod_eq)
    qed
  qed
qed simp

end
