(* ===== verification/Revoke.thy ===== *)
theory Revoke
  imports Files
begin

text \<open>
  The deny-list of revoked client certificates (\<open>src/internal/revoke/revoke.go\<close>): the \<open>Store\<close> the
  operator's tools change, and the \<open>Checker\<close> with which the server enforces it. Every operation of
  the store runs under a mutex and a file lock, so it is a function of the file. A serial number is an
  integer; its key in the file is the hexadecimal text.
\<close>

record entry =
  en_serial :: string
  en_name :: string
  en_revoked_at :: int

definition max_revoked_bytes :: nat where
  "max_revoked_bytes = 8 * 2 ^ 20"

text \<open>\<open>big.Int.Text(16)\<close>.\<close>

definition serial_hex :: "int \<Rightarrow> string" where
  "serial_hex serial = (if serial < 0 then ''-'' @ hex_str (nat (- serial)) else hex_str (nat serial))"

lemma serial_hex_inject [simp]: "serial_hex m = serial_hex n \<longleftrightarrow> m = n"
proof -
  have d: "hd (hex_str k) \<noteq> CHR ''-'' \<and> hex_str k \<noteq> []" for k
  proof (induction k rule: hex_str.induct)
    case (1 k)
    have "hex_digit k \<noteq> CHR ''-''" if "k < 16" for k
      using that by (auto simp: hex_digit_def dest: arg_cong [of _ _ "of_char :: char \<Rightarrow> nat"])
    with 1 show ?case by (subst (1 2) hex_str.simps) (auto simp: hd_append)
  qed
  show ?thesis
    using d [of "nat m"] d [of "nat n"] by (auto simp: serial_hex_def nat_eq_iff dest: arg_cong [of _ _ hd])
qed

section \<open>The file\<close>

definition entry_json :: "time_codec \<Rightarrow> entry \<Rightarrow> json" where
  "entry_json tc e =
     JObj [(''serial'', JStr (en_serial e)), (''name'', JStr (en_name e)),
           (''revokedAt'', JStr (tc_text tc (en_revoked_at e)))]"

definition revoked_json :: "time_codec \<Rightarrow> entry list \<Rightarrow> json" where
  "revoked_json tc es = JObj [(''revoked'', JArr (map (entry_json tc) es))]"

fun entry_of_json :: "time_codec \<Rightarrow> json \<Rightarrow> entry option" where
  "entry_of_json tc (JObj ms) =
     (case (fold_field set_string ''serial'' ms [], fold_field set_string ''name'' ms [],
            fold_field (set_time tc) ''revokedAt'' ms zero_time) of
        (Some s, Some n, Some t) \<Rightarrow> Some \<lparr>en_serial = s, en_name = n, en_revoked_at = t\<rparr>
      | _ \<Rightarrow> None)"
| "entry_of_json tc JNull = Some \<lparr>en_serial = [], en_name = [], en_revoked_at = zero_time\<rparr>"
| "entry_of_json tc _ = None"

fun revoked_of_json :: "time_codec \<Rightarrow> json \<Rightarrow> entry list option" where
  "revoked_of_json tc (JObj ms) = fold_field (set_list (entry_of_json tc)) ''revoked'' ms []"
| "revoked_of_json tc JNull = Some []"
| "revoked_of_json tc _ = None"

lemma entry_of_json_json: "codec_ok tc \<Longrightarrow> entry_of_json tc (entry_json tc e) = Some e"
  by (cases e) (simp add: entry_json_def fold_eval codec_ok_def)

lemma revoked_of_json_json: "codec_ok tc \<Longrightarrow> revoked_of_json tc (revoked_json tc es) = Some es"
  using opt_all_Some [of "map (entry_json tc) es" "entry_of_json tc"]
  by (simp add: revoked_json_def fold_eval comp_def entry_of_json_json opt_all_map_Some [of id, simplified])

lemma revoked_json_wf: "json_wf (revoked_json tc es)"
  by (simp add: revoked_json_def entry_json_def list_all_iff)

interpretation rvk: json_file "revoked_json tc" "revoked_of_json tc" "\<lambda>x. codec_ok tc" for tc
  by unfold_locales (auto simp: revoked_of_json_json revoked_json_wf)

definition load_revoked :: "time_codec \<Rightarrow> file_io \<Rightarrow> disk_file \<Rightarrow> file_err + entry list" where
  "load_revoked tc io f = load_json max_revoked_bytes (revoked_of_json tc) [] io f"

definition load_revoked_or_empty :: "time_codec \<Rightarrow> file_io \<Rightarrow> disk_file \<Rightarrow> file_err + entry list" where
  "load_revoked_or_empty tc io f = load_or_empty max_revoked_bytes (revoked_of_json tc) [] io f"

definition save_revoked ::
    "time_codec \<Rightarrow> file_io \<Rightarrow> entry list \<Rightarrow> disk_file \<Rightarrow> file_err option \<times> disk_file" where
  "save_revoked tc io es f = save_json (revoked_json tc) io es f"

section \<open>The store\<close>

definition store_add ::
    "time_codec \<Rightarrow> file_io \<Rightarrow> int \<Rightarrow> int \<Rightarrow> string \<Rightarrow> disk_file \<Rightarrow> (file_err + bool) \<times> disk_file" where
  "store_add tc io now serial nm f =
     (case io_lock io of
        Some e \<Rightarrow> (Inl (LockFailed e), f)
      | None \<Rightarrow>
          (case load_revoked_or_empty tc io f of
             Inl e \<Rightarrow> (Inl e, f)
           | Inr es \<Rightarrow>
               (if list_ex (\<lambda>e. en_serial e = serial_hex serial) es then (Inr False, f)
                else (case save_revoked tc io
                          (es @ [\<lparr>en_serial = serial_hex serial, en_name = nm, en_revoked_at = now\<rparr>]) f of
                        (Some e, f') \<Rightarrow> (Inl e, f')
                      | (None, f') \<Rightarrow> (Inr True, f')))))"

definition store_remove_serial ::
    "time_codec \<Rightarrow> file_io \<Rightarrow> int \<Rightarrow> disk_file \<Rightarrow> (file_err + bool) \<times> disk_file" where
  "store_remove_serial tc io serial f =
     (case io_lock io of
        Some e \<Rightarrow> (Inl (LockFailed e), f)
      | None \<Rightarrow>
          (case load_revoked_or_empty tc io f of
             Inl e \<Rightarrow> (Inl e, f)
           | Inr es \<Rightarrow>
               (let kept = filter (\<lambda>e. en_serial e \<noteq> serial_hex serial) es
                in if length kept = length es then (Inr False, f)
                   else (case save_revoked tc io kept f of
                           (Some e, f') \<Rightarrow> (Inl e, f')
                         | (None, f') \<Rightarrow> (Inr True, f')))))"

definition store_remove ::
    "time_codec \<Rightarrow> file_io \<Rightarrow> string \<Rightarrow> disk_file \<Rightarrow> (file_err + nat) \<times> disk_file" where
  "store_remove tc io nm f =
     (case io_lock io of
        Some e \<Rightarrow> (Inl (LockFailed e), f)
      | None \<Rightarrow>
          (case load_revoked_or_empty tc io f of
             Inl e \<Rightarrow> (Inl e, f)
           | Inr es \<Rightarrow>
               (let kept = filter (\<lambda>e. en_name e \<noteq> nm) es; removed = length es - length kept
                in if removed = 0 then (Inr 0, f)
                   else (case save_revoked tc io kept f of
                           (Some e, f') \<Rightarrow> (Inl e, f')
                         | (None, f') \<Rightarrow> (Inr removed, f')))))"

definition store_list :: "time_codec \<Rightarrow> file_io \<Rightarrow> disk_file \<Rightarrow> file_err + entry list" where
  "store_list tc io f = load_revoked_or_empty tc io f"

section \<open>The checker\<close>

text \<open>\<open>ck_set\<close> is \<open>nil\<close> (\<open>None\<close>) until the first successful read; the zero stamp is \<open>None\<close>.\<close>

record checker =
  ck_path :: string
  ck_mtime :: "int option"
  ck_size :: nat
  ck_set :: "string set option"

definition new_checker :: "string \<Rightarrow> checker" where
  "new_checker path = \<lparr>ck_path = path, ck_mtime = None, ck_size = 0, ck_set = None\<rparr>"

definition mtime_granularity_window :: int where
  "mtime_granularity_window = 2 * 1000000000"

definition recently_modified :: "int \<Rightarrow> int \<Rightarrow> bool" where
  "recently_modified now mtime \<longleftrightarrow> now - mtime < mtime_granularity_window"

datatype stat = StatNotExist | StatError string | StatOk int nat

datatype check_err = StatFailed string | LoadFailed file_err

text \<open>One check: what \<open>os.Stat\<close> said, and what reading the file would give.\<close>

definition is_revoked ::
    "int \<Rightarrow> stat \<Rightarrow> (file_err + entry list) \<Rightarrow> int \<Rightarrow> checker \<Rightarrow> (check_err + bool) \<times> checker" where
  "is_revoked now st content serial c =
     (if ck_path c = [] then (Inr False, c)
      else
        (let answer = (\<lambda>c. (Inr (case ck_set c of None \<Rightarrow> False | Some S \<Rightarrow> serial_hex serial \<in> S), c))
         in case st of
              StatNotExist \<Rightarrow> answer (c\<lparr>ck_mtime := None, ck_size := 0\<rparr>)
            | StatError e \<Rightarrow> (Inl (StatFailed e), c)
            | StatOk mt sz \<Rightarrow>
                (if ck_set c = None \<or> ck_mtime c \<noteq> Some mt \<or> sz \<noteq> ck_size c \<or> recently_modified now mt
                 then (case content of
                         Inl e \<Rightarrow>
                           (if e = NotExist then answer (c\<lparr>ck_mtime := None, ck_size := 0\<rparr>)
                            else (Inl (LoadFailed e), c))
                       | Inr es \<Rightarrow>
                           answer (c\<lparr>ck_set := Some (en_serial ` set es), ck_mtime := Some mt,
                                     ck_size := sz\<rparr>))
                 else answer c)))"

section \<open>Properties\<close>

text \<open>The store's view of a file, when it can be read.\<close>

lemma store_add_cases:
  assumes "store_add tc io now serial nm f = (res, f')" and "load_revoked_or_empty tc io f = Inr es"
  shows "(res = Inr False \<and> f' = f \<and> (\<exists>e. e \<in> set es \<and> en_serial e = serial_hex serial))
    \<or> (res = Inr True \<and> save_revoked tc io
          (es @ [\<lparr>en_serial = serial_hex serial, en_name = nm, en_revoked_at = now\<rparr>]) f = (None, f'))
    \<or> (\<exists>e. res = Inl e \<and> f' = f)"
  using assms rvk.save_failed
  unfolding store_add_def save_revoked_def
  by (auto simp: list_ex_iff split: option.splits if_splits prod.splits)

lemma save_revoked_loads:
  assumes "save_revoked tc io es f = (None, f')" and "io_read io' = None"
    and "length (json_marshal_indent (revoked_json tc es)) \<le> max_revoked_bytes" and "codec_ok tc"
  shows "load_revoked_or_empty tc io' f' = Inr es"
  using assms(1) unfolding save_revoked_def load_revoked_or_empty_def
  by (rule rvk.load_saved [OF _ assms(2-4)])

text \<open>The store adds exactly what it is asked to: on a file it can read, \<open>Add\<close> either reports the
  serial as already revoked and leaves the file alone, or reports success and the file holds the old
  entries in their order followed by the new one, or reports an error and the file is the old one.\<close>

theorem store_add_spec:
  assumes "codec_ok tc" and "load_revoked_or_empty tc io f = Inr es"
    and "store_add tc io now serial nm f = (res, f')" and "io_read io' = None"
    and "length (json_marshal_indent (revoked_json tc
      (es @ [\<lparr>en_serial = serial_hex serial, en_name = nm, en_revoked_at = now\<rparr>]))) \<le> max_revoked_bytes"
  shows "(res = Inr False \<and> f' = f \<and> serial_hex serial \<in> en_serial ` set es)
    \<or> (res = Inr True \<and> load_revoked_or_empty tc io' f' =
          Inr (es @ [\<lparr>en_serial = serial_hex serial, en_name = nm, en_revoked_at = now\<rparr>]))
    \<or> (\<not> ok res \<and> f' = f)"
  using store_add_cases [OF assms(3,2)] save_revoked_loads [OF _ assms(4,5,1)]
  by (auto intro: rev_image_eqI)

lemma sample_size:
  "length (json_marshal_indent (revoked_json no_codec
    [\<lparr>en_serial = ''ff'', en_name = ''eve'', en_revoked_at = 5\<rparr>])) \<le> max_revoked_bytes"
by (simp add: revoked_json_def entry_json_def json_marshal_indent_def json_indent_def
      json_string_def esc_char_def max_revoked_bytes_def no_codec_texts)

theorem store_add_spec_witness:
  "\<exists>f'. store_add no_codec io_fine 5 255 ''eve'' None = (Inr True, f')
    \<and> load_revoked_or_empty no_codec io_fine f'
      = Inr [\<lparr>en_serial = ''ff'', en_name = ''eve'', en_revoked_at = 5\<rparr>]"
proof -
  have ff: "serial_hex 255 = ''ff''" by code_simp
  have l: "load_revoked_or_empty no_codec io_fine None = Inr []"
    by (simp add: load_revoked_or_empty_def load_or_empty_def load_json_def)
  obtain f' where a: "store_add no_codec io_fine 5 255 ''eve'' None = (Inr True, f')"
    using l by (simp add: store_add_def save_revoked_def save_json_def io_fine_def)
  have "length (json_marshal_indent (revoked_json no_codec
      ([] @ [\<lparr>en_serial = serial_hex 255, en_name = ''eve'', en_revoked_at = 5\<rparr>]))) \<le> max_revoked_bytes"
    using sample_size by (simp add: ff)
  from store_add_spec [OF no_codec_ok l a _ this, of io_fine] a show ?thesis
    by (auto simp: io_fine_def ff)
qed

text \<open>(C9) A revocation takes effect without a restart: once \<open>Add\<close> has returned for a serial, new or
  known, a check that finds the file changed, or changed recently, rejects that serial, whatever the
  checker had cached before.\<close>

theorem revocation_enforced:
  assumes "codec_ok tc" and "load_revoked_or_empty tc io f = Inr es"
    and "store_add tc io now serial nm f = (Inr b, f')" and "io_read io' = None" and "io_read io = None"
    and "length (json_marshal_indent (revoked_json tc
      (es @ [\<lparr>en_serial = serial_hex serial, en_name = nm, en_revoked_at = now\<rparr>]))) \<le> max_revoked_bytes"
    and "ck_path c \<noteq> []"
    and "ck_set c = None \<or> ck_mtime c \<noteq> Some mt \<or> sz \<noteq> ck_size c \<or> recently_modified t mt"
  shows "fst (is_revoked t (StatOk mt sz) (load_revoked tc io' f') serial c) = Inr True"
proof -
  have "\<exists>es'. load_revoked tc io' f' = Inr es' \<and> serial_hex serial \<in> en_serial ` set es'"
    using store_add_cases [OF assms(3,2)]
  proof (elim disjE)
    assume h: "Inr b = Inr False \<and> f' = f \<and> (\<exists>e. e \<in> set es \<and> en_serial e = serial_hex serial)"
    then have "es \<noteq> []" by auto
    with assms(2,4,5) have "load_revoked tc io' f = Inr es"
      by (auto simp: load_revoked_or_empty_def load_revoked_def load_or_empty_def load_json_def
          split: sum.splits if_splits option.splits)
    with h show ?thesis by (auto intro: rev_image_eqI)
  next
    assume h: "Inr b = Inr True \<and> save_revoked tc io
        (es @ [\<lparr>en_serial = serial_hex serial, en_name = nm, en_revoked_at = now\<rparr>]) f = (None, f')"
    then have "load_revoked_or_empty tc io' f' =
        Inr (es @ [\<lparr>en_serial = serial_hex serial, en_name = nm, en_revoked_at = now\<rparr>])"
      using save_revoked_loads [OF _ assms(4,6,1)] by blast
    moreover from h have "f' \<noteq> None" by (auto simp: save_revoked_def save_json_def split: option.splits)
    ultimately show ?thesis
      by (auto simp: load_revoked_or_empty_def load_revoked_def load_or_empty_def load_json_def
          split: sum.splits if_splits option.splits)
  qed (use assms(3) in auto)
  then show ?thesis using assms(7,8) by (auto simp: is_revoked_def Let_def)
qed

theorem revocation_enforced_witness:
  "\<exists>f'. store_add no_codec io_fine 5 255 ''eve'' None = (Inr True, f')
    \<and> fst (is_revoked 100 (StatOk 100 7) (load_revoked no_codec io_fine f') 255 (new_checker ''revoked.json''))
      = Inr True"
proof -
  have l: "load_revoked_or_empty no_codec io_fine None = Inr []"
    by (simp add: load_revoked_or_empty_def load_or_empty_def load_json_def)
  obtain f' where a: "store_add no_codec io_fine 5 255 ''eve'' None = (Inr True, f')"
    using l by (simp add: store_add_def save_revoked_def save_json_def io_fine_def)
  have ff: "serial_hex 255 = ''ff''" by code_simp
  have "length (json_marshal_indent (revoked_json no_codec
      ([] @ [\<lparr>en_serial = serial_hex 255, en_name = ''eve'', en_revoked_at = 5\<rparr>]))) \<le> max_revoked_bytes"
    using sample_size by (simp add: ff)
  from revocation_enforced [OF no_codec_ok l a _ _ this, of io_fine "new_checker ''revoked.json''" 100 7 100] a
  show ?thesis by (simp add: io_fine_def new_checker_def)
qed

text \<open>A series of checks of one serial, each with what the file system shows then.\<close>

fun check_run ::
    "int \<Rightarrow> (int \<times> stat \<times> (file_err + entry list)) list \<Rightarrow> checker \<Rightarrow> (check_err + bool) list" where
  "check_run serial [] c = []"
| "check_run serial ((now, st, content) # obs) c =
     (case is_revoked now st content serial c of (r, c') \<Rightarrow> r # check_run serial obs c')"

definition enforced :: "checker \<Rightarrow> int \<Rightarrow> bool" where
  "enforced c serial \<longleftrightarrow>
     ck_path c \<noteq> [] \<and> (\<exists>S. ck_set c = Some S \<and> serial_hex serial \<in> S)"

lemma is_revoked_keeps:
  assumes "enforced c serial"
    and "\<And>es. content = Inr es \<Longrightarrow> serial_hex serial \<in> en_serial ` set es"
    and "is_revoked now st content serial c = (r, c')"
  shows "r \<noteq> Inr False \<and> enforced c' serial"
  using assms unfolding is_revoked_def enforced_def Let_def
  by (auto split: stat.splits sum.splits if_splits)

text \<open>The checker never fails open: once a serial is enforced, no deletion of the file, no error of
  the file system, no race between stat and read and no stale stamp makes a check admit it, as long as
  every version of the file that can be read lists it; each check rejects the client, as revoked or
  with an error.\<close>

theorem revocation_never_dropped:
  assumes "enforced c serial"
    and "\<And>now st es. (now, st, Inr es) \<in> set obs \<Longrightarrow> serial_hex serial \<in> en_serial ` set es"
  shows "Inr False \<notin> set (check_run serial obs c)"
  using assms
proof (induction serial obs c rule: check_run.induct)
  case (2 serial now st content obs c)
  obtain r c' where r: "is_revoked now st content serial c = (r, c')" by fastforce
  have "\<And>es. content = Inr es \<Longrightarrow> serial_hex serial \<in> en_serial ` set es"
    by (rule 2(3) [of now st]) simp
  from is_revoked_keeps [OF 2(2) this r] have "r \<noteq> Inr False" "enforced c' serial" by simp_all
  with 2(1) [OF r [symmetric]] 2(3) r show ?case by auto
qed simp

theorem revocation_never_dropped_witness:
  "Inr False \<notin> set (check_run 255
      [(0, StatNotExist, Inl NotExist), (1, StatError ''io'', Inl NotExist), (2, StatOk 9 9, Inl NotExist)]
      \<lparr>ck_path = ''revoked.json'', ck_mtime = Some 1, ck_size = 3, ck_set = Some {serial_hex 255}\<rparr>)"
  by (rule revocation_never_dropped) (auto simp: enforced_def)

end
