(* ===== verification/Invite.thy ===== *)
theory Invite
  imports Files
begin

text \<open>
  One-time invites (\<open>src/internal/invite/store.go\<close>): tokens that are minted for a client name, live for
  a while, and are redeemed once. Every operation runs under a mutex and a file lock, so it is a
  function of the file; the clock, the random value and what the file system answers are arguments.
\<close>

section \<open>Grants and tokens\<close>

type_synonym grant = string

definition grant_profile :: grant where "grant_profile = ''profile''"
definition grant_vless :: grant where "grant_vless = ''vless''"
definition grant_both :: grant where "grant_both = ''both''"

definition parse_grant :: "string \<Rightarrow> grant option" where
  "parse_grant s =
     (let t = to_lower (trim_space s)
      in if t = [] \<or> t = grant_profile then Some grant_profile
         else if t = grant_vless then Some grant_vless
         else if t = grant_both then Some grant_both
         else None)"

definition covers_profile :: "grant \<Rightarrow> bool" where
  "covers_profile g \<longleftrightarrow> g = grant_profile \<or> g = grant_both \<or> g = []"

definition covers_vless :: "grant \<Rightarrow> bool" where
  "covers_vless g \<longleftrightarrow> g = grant_vless \<or> g = grant_both"

record token =
  tk_value :: string
  tk_client :: string
  tk_grant :: grant
  tk_used :: bool
  tk_used_by :: string
  tk_created :: int
  tk_used_at :: int

definition token_grants :: "token \<Rightarrow> grant" where
  "token_grants t = (if tk_grant t = [] then grant_profile else tk_grant t)"

definition default_invite_ttl :: int where
  "default_invite_ttl = 7 * 24 * 3600 * 1000000000"

definition max_store_bytes :: nat where
  "max_store_bytes = 4 * 2 ^ 20"

section \<open>The file\<close>

text \<open>\<open>omitempty\<close> has no effect on a struct, so \<open>usedAt\<close> is always written.\<close>

definition token_json :: "time_codec \<Rightarrow> token \<Rightarrow> json" where
  "token_json tc t =
     JObj ([(''value'', JStr (tk_value t)), (''clientName'', JStr (tk_client t))]
       @ opt_member (tk_grant t \<noteq> []) ''grant'' (JStr (tk_grant t))
       @ [(''used'', JBool (tk_used t))]
       @ opt_member (tk_used_by t \<noteq> []) ''usedBy'' (JStr (tk_used_by t))
       @ [(''created'', JStr (tc_text tc (tk_created t))), (''usedAt'', JStr (tc_text tc (tk_used_at t)))])"

definition tokens_json :: "time_codec \<Rightarrow> token list \<Rightarrow> json" where
  "tokens_json tc ts = JObj [(''tokens'', JArr (map (token_json tc) ts))]"

definition zero_token :: token where
  "zero_token = \<lparr>tk_value = [], tk_client = [], tk_grant = [], tk_used = False, tk_used_by = [],
     tk_created = zero_time, tk_used_at = zero_time\<rparr>"

fun token_of_json :: "time_codec \<Rightarrow> json \<Rightarrow> token option" where
  "token_of_json tc (JObj ms) =
     (case (fold_field set_string ''value'' ms [], fold_field set_string ''clientName'' ms [],
            fold_field set_string ''grant'' ms [], fold_field set_bool ''used'' ms False,
            fold_field set_string ''usedBy'' ms [], fold_field (set_time tc) ''created'' ms zero_time,
            fold_field (set_time tc) ''usedAt'' ms zero_time) of
        (Some v, Some n, Some g, Some u, Some b, Some c, Some a) \<Rightarrow>
          Some \<lparr>tk_value = v, tk_client = n, tk_grant = g, tk_used = u, tk_used_by = b,
                tk_created = c, tk_used_at = a\<rparr>
      | _ \<Rightarrow> None)"
| "token_of_json tc JNull = Some zero_token"
| "token_of_json tc _ = None"

fun tokens_of_json :: "time_codec \<Rightarrow> json \<Rightarrow> token list option" where
  "tokens_of_json tc (JObj ms) = fold_field (set_list (token_of_json tc)) ''tokens'' ms []"
| "tokens_of_json tc JNull = Some []"
| "tokens_of_json tc _ = None"

lemma token_of_json_json: "codec_ok tc \<Longrightarrow> token_of_json tc (token_json tc t) = Some t"
  by (cases t) (auto simp: token_json_def field_simps_json fold_eval codec_ok_def)

lemma tokens_of_json_json: "codec_ok tc \<Longrightarrow> tokens_of_json tc (tokens_json tc ts) = Some ts"
  using opt_all_Some [of "map (token_json tc) ts" "token_of_json tc"]
  by (simp add: tokens_json_def fold_eval comp_def token_of_json_json opt_all_map_Some [of id, simplified])

lemma tokens_json_wf: "json_wf (tokens_json tc ts)"
  by (auto simp: tokens_json_def token_json_def opt_member_def list_all_iff)

interpretation inv: json_file "tokens_json tc" "tokens_of_json tc" "\<lambda>x. codec_ok tc" for tc
  by unfold_locales (auto simp: tokens_of_json_json tokens_json_wf)

definition load_tokens :: "time_codec \<Rightarrow> file_io \<Rightarrow> disk_file \<Rightarrow> file_err + token list" where
  "load_tokens tc io f = load_or_empty max_store_bytes (tokens_of_json tc) [] io f"

definition save_tokens ::
    "time_codec \<Rightarrow> file_io \<Rightarrow> token list \<Rightarrow> disk_file \<Rightarrow> file_err option \<times> disk_file" where
  "save_tokens tc io ts f = save_json (tokens_json tc) io ts f"

section \<open>Expiry\<close>

definition token_expired :: "int \<Rightarrow> int \<Rightarrow> int \<Rightarrow> bool" where
  "token_expired created ttl now \<longleftrightarrow> ttl > 0 \<and> \<not> created + ttl > now"

definition prune_expired :: "token list \<Rightarrow> int \<Rightarrow> int \<Rightarrow> token list" where
  "prune_expired ts ttl now =
     (if ttl \<le> 0 then ts
      else filter (\<lambda>t. \<not> (\<not> tk_used t \<and> token_expired (tk_created t) ttl now)) ts)"

section \<open>The operations\<close>

datatype invite_err =
    InviteNotFound
  | ClientNameRequired
  | RandomFailed string
  | InviteStore file_err

definition generate_invite ::
    "time_codec \<Rightarrow> file_io \<Rightarrow> int \<Rightarrow> int \<Rightarrow> string + string \<Rightarrow> string \<Rightarrow> grant \<Rightarrow> disk_file
     \<Rightarrow> (invite_err + token) \<times> disk_file" where
  "generate_invite tc io ttl now rand client g f =
     (if client = [] then (Inl ClientNameRequired, f)
      else case rand of
        Inl e \<Rightarrow> (Inl (RandomFailed e), f)
      | Inr v \<Rightarrow>
          (case io_lock io of
             Some e \<Rightarrow> (Inl (InviteStore (LockFailed e)), f)
           | None \<Rightarrow>
               (case load_tokens tc io f of
                  Inl e \<Rightarrow> (Inl (InviteStore e), f)
                | Inr ts \<Rightarrow>
                    (let tok = \<lparr>tk_value = v, tk_client = client,
                                tk_grant = (if g = [] then grant_profile else g), tk_used = False,
                                tk_used_by = [], tk_created = now, tk_used_at = zero_time\<rparr>
                     in case save_tokens tc io (prune_expired ts ttl now @ [tok]) f of
                          (Some e, f') \<Rightarrow> (Inl (InviteStore e), f')
                        | (None, f') \<Rightarrow> (Inr tok, f')))))"

definition list_invites :: "time_codec \<Rightarrow> file_io \<Rightarrow> disk_file \<Rightarrow> invite_err + token list" where
  "list_invites tc io f =
     (case io_lock io of
        Some e \<Rightarrow> Inl (InviteStore (LockFailed e))
      | None \<Rightarrow>
          (case load_tokens tc io f of Inl e \<Rightarrow> Inl (InviteStore e) | Inr ts \<Rightarrow> Inr ts))"

text \<open>The loop over the tokens: the first one that is unspent, alive and has the value is marked.\<close>

fun redeem_scan ::
    "int \<Rightarrow> int \<Rightarrow> string \<Rightarrow> string \<Rightarrow> token list \<Rightarrow> (token \<times> token list) option" where
  "redeem_scan ttl now v by [] = None"
| "redeem_scan ttl now v by (t # ts) =
     (if \<not> (tk_used t \<or> token_expired (tk_created t) ttl now) \<and> tk_value t = v
      then (let t' = t\<lparr>tk_used := True, tk_used_by := by, tk_used_at := now\<rparr> in Some (t', t' # ts))
      else (case redeem_scan ttl now v by ts of
              None \<Rightarrow> None
            | Some (r, ts') \<Rightarrow> Some (r, t # ts')))"

definition redeem_invite ::
    "time_codec \<Rightarrow> file_io \<Rightarrow> int \<Rightarrow> int \<Rightarrow> string \<Rightarrow> string \<Rightarrow> disk_file
     \<Rightarrow> (invite_err + token) \<times> disk_file" where
  "redeem_invite tc io ttl now v by f =
     (if v = [] then (Inl InviteNotFound, f)
      else case io_lock io of
        Some e \<Rightarrow> (Inl (InviteStore (LockFailed e)), f)
      | None \<Rightarrow>
          (case load_tokens tc io f of
             Inl e \<Rightarrow> (Inl (InviteStore e), f)
           | Inr ts \<Rightarrow>
               (case redeem_scan ttl now v by ts of
                  None \<Rightarrow> (Inl InviteNotFound, f)
                | Some (r, ts') \<Rightarrow>
                    (case save_tokens tc io ts' f of
                       (Some e, f') \<Rightarrow> (Inl (InviteStore e), f')
                     | (None, f') \<Rightarrow> (Inr (r\<lparr>tk_value := []\<rparr>), f')))))"

section \<open>Lemmas\<close>

definition redeemable :: "int \<Rightarrow> int \<Rightarrow> string \<Rightarrow> token \<Rightarrow> bool" where
  "redeemable ttl now v t \<longleftrightarrow> \<not> tk_used t \<and> \<not> token_expired (tk_created t) ttl now \<and> tk_value t = v"

definition spend :: "string \<Rightarrow> int \<Rightarrow> token \<Rightarrow> token" where
  "spend by now t = t\<lparr>tk_used := True, tk_used_by := by, tk_used_at := now\<rparr>"

lemma redeem_scan_None:
  "redeem_scan ttl now v by ts = None \<longleftrightarrow> (\<forall>t \<in> set ts. \<not> redeemable ttl now v t)"
  by (induction ts) (auto simp: redeemable_def Let_def split: option.splits)

lemma redeem_scan_Some:
  assumes "redeem_scan ttl now v by ts = Some (r, ts')"
  shows "\<exists>i < length ts. redeemable ttl now v (ts ! i) \<and> (\<forall>j < i. \<not> redeemable ttl now v (ts ! j))
    \<and> r = spend by now (ts ! i) \<and> ts' = ts[i := r]"
  using assms
proof (induction ts arbitrary: ts')
  case (Cons t ts)
  show ?case
  proof (cases "redeemable ttl now v t")
    case True
    with Cons.prems show ?thesis
      by (intro exI [of _ 0]) (auto simp: redeemable_def spend_def Let_def)
  next
    case False
    with Cons.prems obtain us where us: "redeem_scan ttl now v by ts = Some (r, us)" "ts' = t # us"
      by (auto simp: redeemable_def split: if_splits option.splits)
    from Cons.IH [OF us(1)] obtain i where "i < length ts" "redeemable ttl now v (ts ! i)"
      "\<forall>j < i. \<not> redeemable ttl now v (ts ! j)" "r = spend by now (ts ! i)" "us = ts[i := r]" by blast
    with False us(2) show ?thesis by (intro exI [of _ "Suc i"]) (auto simp: less_Suc_eq_0_disj)
  qed
qed simp

text \<open>The tokens with a value that are still unspent.\<close>

definition available :: "string \<Rightarrow> token list \<Rightarrow> nat" where
  "available v ts = length (filter (\<lambda>t. \<not> tk_used t \<and> tk_value t = v) ts)"

lemma available_append [simp]: "available v (ts @ us) = available v ts + available v us"
  by (simp add: available_def)

lemma available_prune: "available v (prune_expired ts ttl now) \<le> available v ts"
proof -
  have "available v (filter P ts) \<le> available v ts" for P
    by (induction ts) (auto simp: available_def)
  then show ?thesis by (simp add: prune_expired_def)
qed

lemma available_scan:
  "redeem_scan ttl now w by ts = Some (r, ts') \<Longrightarrow>
   available v ts = available v ts' + (if v = w then 1 else 0)"
proof (induction ts arbitrary: ts')
  case (Cons t ts)
  then show ?case
    by (cases "redeem_scan ttl now w by ts") (auto simp: available_def Let_def split: if_splits)
qed simp

definition live :: "time_codec \<Rightarrow> string \<Rightarrow> disk_file \<Rightarrow> nat" where
  "live tc v f = (case load_tokens tc io_fine f of Inl e \<Rightarrow> 0 | Inr ts \<Rightarrow> available v ts)"

lemma load_tokens_live: "load_tokens tc io f = Inr ts \<Longrightarrow> live tc v f = available v ts"
  by (auto simp: live_def load_tokens_def load_or_empty_def load_json_def io_fine_def
      split: option.splits sum.splits if_splits)

lemma save_tokens_live:
  assumes "save_tokens tc io ts f = (None, f')" and "codec_ok tc"
  shows "live tc v f' \<le> available v ts"
  using inv.load_saved_cases [OF assms(1) [unfolded save_tokens_def] assms(2),
      of max_store_bytes "[]" io_fine]
  by (auto simp: live_def load_tokens_def)

lemmas save_tokens_failed = inv.save_failed [folded save_tokens_def]

lemma generate_live:
  assumes "generate_invite tc io ttl now rand client g f = (res, f')" and "codec_ok tc"
  shows "live tc v f' \<le> live tc v f + (case res of Inl e \<Rightarrow> 0 | Inr t \<Rightarrow> if tk_value t = v then 1 else 0)"
proof (cases res)
  case (Inl e)
  with assms(1) have "f' = f"
    by (auto simp: generate_invite_def Let_def split: if_splits sum.splits option.splits prod.splits
        dest: save_tokens_failed)
  with Inl show ?thesis by simp
next
  case (Inr tok)
  with assms(1) obtain ts where ts: "load_tokens tc io f = Inr ts"
    and s: "save_tokens tc io (prune_expired ts ttl now @ [tok]) f = (None, f')"
    by (auto simp: generate_invite_def Let_def split: if_splits sum.splits option.splits prod.splits)
  have "live tc v f' \<le> available v (prune_expired ts ttl now) + available v [tok]"
    using save_tokens_live [OF s assms(2), of v] by simp
  also have "\<dots> \<le> available v ts + (if tk_value tok = v then 1 else 0)"
    using available_prune [of v ts ttl now] by (auto simp: available_def)
  finally show ?thesis using load_tokens_live [OF ts, of v] Inr by simp
qed

lemma redeem_cases:
  assumes "redeem_invite tc io ttl now w by f = (res, f')"
  obtains (error) e where "res = Inl e" "f' = f"
  | (redeemed) ts r ts' where "load_tokens tc io f = Inr ts" "redeem_scan ttl now w by ts = Some (r, ts')"
      "save_tokens tc io ts' f = (None, f')" "res = Inr (r\<lparr>tk_value := []\<rparr>)"
  using assms that
  by (auto simp: redeem_invite_def split: if_splits sum.splits option.splits prod.splits
      dest: save_tokens_failed)

lemma redeem_live:
  assumes "redeem_invite tc io ttl now w by f = (res, f')" and "codec_ok tc"
  shows "live tc v f' + (if ok res \<and> v = w then 1 else 0) \<le> live tc v f"
  using assms(1)
proof (cases rule: redeem_cases)
  case (error e)
  then show ?thesis by simp
next
  case (redeemed ts r ts')
  with save_tokens_live [OF redeemed(3) assms(2), of v] load_tokens_live [OF redeemed(1), of v]
    available_scan [OF redeemed(2), of v]
  show ?thesis by auto
qed

section \<open>Properties\<close>

text \<open>What clients and operators do with a store over time, and what came of it.\<close>

datatype invite_op =
    CallGenerate file_io int int "string + string" string grant
  | CallRedeem file_io int int string string

datatype invite_event = Issued string | Spent string

fun invite_call :: "time_codec \<Rightarrow> invite_op \<Rightarrow> disk_file \<Rightarrow> invite_event list \<times> disk_file" where
  "invite_call tc (CallGenerate io ttl now rand client g) f =
     (case generate_invite tc io ttl now rand client g f of
        (Inl e, f') \<Rightarrow> ([], f') | (Inr t, f') \<Rightarrow> ([Issued (tk_value t)], f'))"
| "invite_call tc (CallRedeem io ttl now v by) f =
     (case redeem_invite tc io ttl now v by f of
        (Inl e, f') \<Rightarrow> ([], f') | (Inr t, f') \<Rightarrow> ([Spent v], f'))"

fun invite_log :: "time_codec \<Rightarrow> invite_op list \<Rightarrow> disk_file \<Rightarrow> invite_event list" where
  "invite_log tc [] f = []"
| "invite_log tc (x # xs) f = (case invite_call tc x f of (es, f') \<Rightarrow> es @ invite_log tc xs f')"

lemma invite_call_live:
  assumes "invite_call tc x f = (es, f')" and "codec_ok tc"
  shows "count_list es (Spent v) + live tc v f' \<le> live tc v f + count_list es (Issued v)"
proof (cases x)
  case (CallGenerate io ttl now rand client g)
  obtain res f1 where g: "generate_invite tc io ttl now rand client g f = (res, f1)" by fastforce
  from generate_live [OF g assms(2), of v] assms(1) CallGenerate g show ?thesis
    by (auto split: sum.splits)
next
  case (CallRedeem io ttl now w by')
  obtain res f1 where r: "redeem_invite tc io ttl now w by' f = (res, f1)" by fastforce
  from redeem_live [OF r assms(2), of v] assms(1) CallRedeem r show ?thesis
    by (auto split: sum.splits if_splits)
qed

text \<open>(C10) Single use: over any sequence of \<open>Generate\<close> and \<open>Redeem\<close> calls, by any number of processes
  with their own clocks and lifetimes, with locks, reads and writes that may fail at any point, a
  value is redeemed at most as often as it was minted, counting the unspent tokens the file held to
  begin with. No failure in between, and no pruning, brings a spent token back.\<close>

theorem invite_single_use:
  assumes "codec_ok tc"
  shows "count_list (invite_log tc calls f) (Spent v)
    \<le> live tc v f + count_list (invite_log tc calls f) (Issued v)"
proof (induction calls arbitrary: f)
  case (Cons x xs)
  obtain es f' where c: "invite_call tc x f = (es, f')" by fastforce
  from invite_call_live [OF c assms, of v] Cons.IH [of f'] c show ?case by simp
qed simp

theorem invite_single_use_witness:
  "let calls = [CallGenerate io_fine 10 0 (Inr ''k7'') ''bob'' [], CallRedeem io_fine 10 5 ''k7'' ''@bob'',
                CallRedeem io_fine 10 6 ''k7'' ''@eve'']
   in count_list (invite_log no_codec calls None) (Spent ''k7'')
      \<le> live no_codec ''k7'' None + count_list (invite_log no_codec calls None) (Issued ''k7'')"
  unfolding Let_def by (rule invite_single_use [OF no_codec_ok])

lemma redeem_invite_spec':
  assumes "io_lock io = None" and "load_tokens tc io f = Inr ts" and "v \<noteq> []"
    and "redeem_invite tc io ttl now v by f = (res, f')"
  shows "(res = Inl InviteNotFound \<and> f' = f \<and> (\<forall>t \<in> set ts. \<not> redeemable ttl now v t))
    \<or> (\<exists>i < length ts. redeemable ttl now v (ts ! i) \<and> (\<forall>j < i. \<not> redeemable ttl now v (ts ! j))
        \<and> (if io_write io = None
           then res = Inr ((spend by now (ts ! i))\<lparr>tk_value := []\<rparr>)
             \<and> f' = Some (json_marshal_indent (tokens_json tc (ts[i := spend by now (ts ! i)])))
           else (\<exists>e. res = Inl (InviteStore (WriteFailed e))) \<and> f' = f))"
proof (cases "redeem_scan ttl now v by ts")
  case None
  with assms show ?thesis by (auto simp: redeem_invite_def redeem_scan_None)
next
  case (Some p)
  obtain r ts' where p: "p = (r, ts')" by fastforce
  from redeem_scan_Some [OF Some [unfolded p]] obtain i
    where i: "i < length ts" "redeemable ttl now v (ts ! i)" "\<forall>j < i. \<not> redeemable ttl now v (ts ! j)"
      "r = spend by now (ts ! i)" "ts' = ts[i := r]" by blast
  from assms Some p i(4,5) have "if io_write io = None
      then res = Inr ((spend by now (ts ! i))\<lparr>tk_value := []\<rparr>)
        \<and> f' = Some (json_marshal_indent (tokens_json tc (ts[i := spend by now (ts ! i)])))
      else (\<exists>e. res = Inl (InviteStore (WriteFailed e))) \<and> f' = f"
    by (auto simp: redeem_invite_def save_tokens_def save_json_def split: option.splits)
  with i(1-3) show ?thesis by blast
qed

text \<open>What \<open>Redeem\<close> does on a store it can read: it refuses exactly when no token with the value is
  unspent and alive; otherwise it takes the first such token, writes the list back with that token
  marked, dated and attributed and every other one unchanged, and returns the marked token without
  its value; and when the write fails the file is the old one, so the token stays redeemable.\<close>

theorem redeem_invite_spec:
  assumes "io_lock io = None" and "load_tokens tc io f = Inr ts" and "v \<noteq> []"
    and "redeem_invite tc io ttl now v by f = (res, f')"
  shows "(res = Inl InviteNotFound \<and> f' = f \<and> (\<forall>t \<in> set ts. \<not> redeemable ttl now v t))
    \<or> (\<exists>i < length ts. redeemable ttl now v (ts ! i) \<and> (\<forall>j < i. \<not> redeemable ttl now v (ts ! j))
        \<and> (if io_write io = None
           then res = Inr ((spend by now (ts ! i))\<lparr>tk_value := []\<rparr>)
             \<and> f' = Some (json_marshal_indent (tokens_json tc (ts[i := spend by now (ts ! i)])))
           else (\<exists>e. res = Inl (InviteStore (WriteFailed e))) \<and> f' = f))"
  using assms by (rule redeem_invite_spec')

definition sample_token :: token where
  "sample_token = \<lparr>tk_value = ''k7'', tk_client = ''bob'', tk_grant = ''both'', tk_used = False,
     tk_used_by = [], tk_created = 3, tk_used_at = 1\<rparr>"

lemma sample_store:
  "load_tokens no_codec io_fine (Some (json_marshal_indent (tokens_json no_codec [sample_token])))
     = Inr [sample_token]"
proof -
  have "length (json_marshal_indent (tokens_json no_codec [sample_token])) \<le> max_store_bytes"
    by (simp add: tokens_json_def token_json_def opt_member_def sample_token_def no_codec_texts json_marshal_indent_def
        json_indent_def json_string_def esc_char_def max_store_bytes_def)
  from inv.load_saved [OF _ _ this no_codec_ok, of io_fine] show ?thesis
    by (simp add: load_tokens_def save_json_def io_fine_def)
qed

theorem redeem_invite_spec_witness:
  "fst (redeem_invite no_codec io_fine 10 5 ''k7'' ''@bob''
      (Some (json_marshal_indent (tokens_json no_codec [sample_token]))))
    = Inr \<lparr>tk_value = [], tk_client = ''bob'', tk_grant = ''both'', tk_used = True, tk_used_by = ''@bob'',
        tk_created = 3, tk_used_at = 5\<rparr>"
proof -
  obtain res f' where r: "redeem_invite no_codec io_fine 10 5 ''k7'' ''@bob''
      (Some (json_marshal_indent (tokens_json no_codec [sample_token]))) = (res, f')" by fastforce
  from redeem_invite_spec [OF _ sample_store _ r] r show ?thesis
    by (auto simp: io_fine_def redeemable_def sample_token_def token_expired_def spend_def)
qed

text \<open>The life of an invite: a token that was minted at \<open>now\<close> with a value not in the store can be
  redeemed, by whoever presents the value, exactly until its lifetime is over, and yields the client
  name and the grant it was minted with (a profile when none was given); from the instant the
  lifetime is reached it is refused.\<close>

theorem invite_lifetime:
  assumes "codec_ok tc" and "load_tokens tc io f = Inr ts" and "v \<notin> tk_value ` set ts" and "v \<noteq> []"
    and "generate_invite tc io ttl now (Inr v) client g f = (Inr tok, f')"
    and "length (json_marshal_indent (tokens_json tc (prune_expired ts ttl now @ [tok]))) \<le> max_store_bytes"
  shows "fst (redeem_invite tc io_fine ttl' now' v by f') =
    (if ttl' > 0 \<and> now' \<ge> now + ttl' then Inl InviteNotFound
     else Inr \<lparr>tk_value = [], tk_client = client, tk_grant = (if g = [] then grant_profile else g),
               tk_used = True, tk_used_by = by, tk_created = now, tk_used_at = now'\<rparr>)"
proof -
  let ?us = "prune_expired ts ttl now"
  have tok: "tok = \<lparr>tk_value = v, tk_client = client, tk_grant = (if g = [] then grant_profile else g),
      tk_used = False, tk_used_by = [], tk_created = now, tk_used_at = zero_time\<rparr>"
    and s: "save_tokens tc io (?us @ [tok]) f = (None, f')"
    using assms(2,5)
    by (auto simp: generate_invite_def Let_def split: if_splits sum.splits option.splits prod.splits)
  have l: "load_tokens tc io_fine f' = Inr (?us @ [tok])"
    using inv.load_saved [OF s [unfolded save_tokens_def] _ assms(6,1), of io_fine]
    by (simp add: load_tokens_def io_fine_def)
  have old: "\<not> redeemable ttl' now' v t" if "t \<in> set ?us" for t
    using that assms(3) by (auto simp: redeemable_def prune_expired_def split: if_splits)
  have new: "redeemable ttl' now' v tok \<longleftrightarrow> \<not> (ttl' > 0 \<and> now' \<ge> now + ttl')"
    by (auto simp: redeemable_def tok token_expired_def)
  obtain res f2 where r: "redeem_invite tc io_fine ttl' now' v by f' = (res, f2)" by fastforce
  have at: "i = length ?us" if "i < length (?us @ [tok])" "redeemable ttl' now' v ((?us @ [tok]) ! i)" for i
    using that old [OF nth_mem] by (fastforce simp: nth_append split: if_splits)
  from redeem_invite_spec' [OF _ l assms(4) r]
  have cases: "(res = Inl InviteNotFound \<and> (\<forall>t \<in> set (?us @ [tok]). \<not> redeemable ttl' now' v t))
    \<or> (\<exists>i < length (?us @ [tok]). redeemable ttl' now' v ((?us @ [tok]) ! i)
        \<and> res = Inr ((spend by now' ((?us @ [tok]) ! i))\<lparr>tk_value := []\<rparr>))"
    unfolding io_fine_def by simp blast
  show ?thesis
  proof (cases "redeemable ttl' now' v tok")
    case True
    with cases obtain i where "i < length (?us @ [tok])" "redeemable ttl' now' v ((?us @ [tok]) ! i)"
      and res: "res = Inr ((spend by now' ((?us @ [tok]) ! i))\<lparr>tk_value := []\<rparr>)" by auto
    then have i: "i = length ?us" by (rule_tac at)
    from True new r show ?thesis unfolding res i by (simp add: spend_def tok)
  next
    case False
    with cases at have "res = Inl InviteNotFound" by (metis nth_append_length)
    with False new r show ?thesis by simp
  qed
qed

theorem invite_lifetime_witness:
  "\<exists>tok f'. generate_invite no_codec io_fine 10 3 (Inr ''k7'') ''bob'' [] None = (Inr tok, f')
    \<and> ok (fst (redeem_invite no_codec io_fine 10 12 ''k7'' ''@bob'' f'))
    \<and> fst (redeem_invite no_codec io_fine 10 13 ''k7'' ''@bob'' f') = Inl InviteNotFound"
proof -
  have l: "load_tokens no_codec io_fine None = Inr []"
    by (simp add: load_tokens_def load_or_empty_def load_json_def)
  obtain tok f' where g: "generate_invite no_codec io_fine 10 3 (Inr ''k7'') ''bob'' [] None = (Inr tok, f')"
    and tok: "tok = \<lparr>tk_value = ''k7'', tk_client = ''bob'', tk_grant = grant_profile, tk_used = False,
      tk_used_by = [], tk_created = 3, tk_used_at = zero_time\<rparr>"
    using l by (simp add: generate_invite_def Let_def save_tokens_def save_json_def io_fine_def)
  have sz: "length (json_marshal_indent (tokens_json no_codec (prune_expired [] 10 3 @ [tok])))
      \<le> max_store_bytes"
    by (simp add: tokens_json_def token_json_def opt_member_def tok no_codec_texts json_marshal_indent_def
        json_indent_def json_string_def esc_char_def max_store_bytes_def prune_expired_def grant_profile_def)
  note life = invite_lifetime [OF no_codec_ok l _ _ g sz, of 10 _ "''@bob''"]
  from life [of 12] life [of 13] g show ?thesis by auto
qed

end
