(* ===== verification/Profile.thy ===== *)
theory Profile
  imports Json Endpoints
begin

text \<open>
  Client profiles (\<open>src/internal/profile/profile.go\<close>): the checks a set of credentials and addresses
  has to pass, and the one-file bundle (\<open>.vpnio\<close>) they are handed out in, in its two versions. What
  \<open>crypto/x509\<close> and \<open>crypto/tls\<close> say of the PEM texts is the record \<open>x509_lib\<close>: the pool of the CA
  text, the matching pair, the parsed certificates and the verification of the chain.
\<close>

section \<open>Endpoints\<close>

record paddr =
  pe_server :: string
  pe_server_name :: string
  pe_label :: string

definition paddr_string :: "paddr \<Rightarrow> string" where
  "paddr_string e =
     (if pe_label e \<noteq> [] then pe_server e @ '' ('' @ pe_label e @ '')'' else pe_server e)"

datatype profile_err =
    NoEndpoints
  | BadAddress nat string
  | HostRequired nat string
  | BadPort nat string
  | ListedTwice nat string
  | NoCaCertificates
  | KeyPairMismatch string
  | LeafUnparsable string
  | IntermediateUnparsable string
  | NotYetValid int
  | CertExpired int
  | NotSigned string
  | ProfileFile string string
  | BundleUnparsable
  | MixedVersions
  | Inconsistent string string
  | UnsupportedVersion int

text \<open>The loop, with the number of the endpoint and the addresses seen so far.\<close>

fun validate_from :: "nat \<Rightarrow> string set \<Rightarrow> paddr list \<Rightarrow> profile_err + paddr list" where
  "validate_from i seen [] = Inr []"
| "validate_from i seen (ep # es) =
     (case split_host_port (pe_server ep) of
        None \<Rightarrow> Inl (BadAddress i (pe_server ep))
      | Some (h, port) \<Rightarrow>
          (if h = [] then Inl (HostRequired i (pe_server ep))
           else if (case parse_int64 port of None \<Rightarrow> True | Some p \<Rightarrow> p < 1 \<or> p > 65535)
           then Inl (BadPort i (pe_server ep))
           else
             (let ep1 = (if pe_server_name ep = [] then ep\<lparr>pe_server_name := h\<rparr> else ep);
                  key = pe_server ep1 @ ''|'' @ pe_server_name ep1
              in if key \<in> seen then Inl (ListedTwice i (pe_server ep1))
                 else rbind (validate_from (i + 1) (insert key seen) es) (\<lambda>out. Inr (ep1 # out)))))"

definition validate_endpoints :: "paddr list \<Rightarrow> profile_err + paddr list" where
  "validate_endpoints es = (if es = [] then Inl NoEndpoints else validate_from 1 {} es)"

section \<open>Credentials\<close>

record cert =
  crt_cn :: string
  crt_not_before :: int
  crt_not_after :: int
  crt_der :: string

record 'p x509_lib =
  x_ca_pool :: "string \<Rightarrow> 'p option"
  x_key_pair :: "string \<Rightarrow> string \<Rightarrow> string + string \<times> string list"
  x_parse :: "string \<Rightarrow> string + cert"
  x_verify :: "'p \<Rightarrow> cert list \<Rightarrow> int \<Rightarrow> cert \<Rightarrow> string option"

record profile =
  pf_server :: string
  pf_server_name :: string
  pf_endpoints :: "paddr list"
  pf_ca :: string
  pf_cert :: string
  pf_key :: string
  pf_cn :: string
  pf_not_after :: int

definition load_pem_endpoints ::
    "'p x509_lib \<Rightarrow> int \<Rightarrow> string \<Rightarrow> string \<Rightarrow> string \<Rightarrow> paddr list \<Rightarrow> profile_err + profile" where
  "load_pem_endpoints L now ca cert key endpoints =
     (case validate_endpoints endpoints of
        Inl e \<Rightarrow> Inl e
      | Inr es \<Rightarrow>
          (case x_ca_pool L ca of
             None \<Rightarrow> Inl NoCaCertificates
           | Some pool \<Rightarrow>
               (case x_key_pair L cert key of
                  Inl e \<Rightarrow> Inl (KeyPairMismatch e)
                | Inr (leaf_der, rest) \<Rightarrow>
                    (case x_parse L leaf_der of
                       Inl e \<Rightarrow> Inl (LeafUnparsable e)
                     | Inr leaf \<Rightarrow>
                         (case rtraverse (x_parse L) rest of
                            Inl e \<Rightarrow> Inl (IntermediateUnparsable e)
                          | Inr intermediates \<Rightarrow>
                              (if now < crt_not_before leaf then Inl (NotYetValid (crt_not_before leaf))
                               else if now > crt_not_after leaf then Inl (CertExpired (crt_not_after leaf))
                               else case x_verify L pool intermediates now leaf of
                                 Some e \<Rightarrow> Inl (NotSigned e)
                               | None \<Rightarrow>
                                   Inr \<lparr>pf_server = pe_server (hd es),
                                        pf_server_name = pe_server_name (hd es),
                                        pf_endpoints = es, pf_ca = ca, pf_cert = cert, pf_key = key,
                                        pf_cn = crt_cn leaf, pf_not_after = crt_not_after leaf\<rparr>))))))"

definition load_pem ::
    "'p x509_lib \<Rightarrow> int \<Rightarrow> string \<Rightarrow> string \<Rightarrow> string \<Rightarrow> string \<Rightarrow> string \<Rightarrow> profile_err + profile" where
  "load_pem L now ca cert key server server_name =
     load_pem_endpoints L now ca cert key
       [\<lparr>pe_server = server, pe_server_name = server_name, pe_label = []\<rparr>]"

text \<open>\<open>Load\<close>: \<open>read\<close> is \<open>os.ReadFile\<close>.\<close>

record profile_files =
  ff_ca :: string
  ff_cert :: string
  ff_key :: string
  ff_server :: string
  ff_server_name :: string

definition load_files ::
    "(string \<Rightarrow> string + string) \<Rightarrow> 'p x509_lib \<Rightarrow> int \<Rightarrow> profile_files \<Rightarrow> profile_err + profile" where
  "load_files read L now f =
     (case read (ff_ca f) of
        Inl e \<Rightarrow> Inl (ProfileFile (ff_ca f) e)
      | Inr ca \<Rightarrow>
          (case read (ff_cert f) of
             Inl e \<Rightarrow> Inl (ProfileFile (ff_cert f) e)
           | Inr cert \<Rightarrow>
               (case read (ff_key f) of
                  Inl e \<Rightarrow> Inl (ProfileFile (ff_key f) e)
                | Inr key \<Rightarrow> load_pem L now ca cert key (ff_server f) (ff_server_name f))))"

section \<open>Bundles\<close>

definition bundle_version_single :: int where "bundle_version_single = 1"
definition bundle_version_list :: int where "bundle_version_list = 2"

record bundle_file =
  bu_version :: int
  bu_server :: string
  bu_server_name :: string
  bu_endpoints :: "paddr list"
  bu_ca :: string
  bu_cert :: string
  bu_key :: string

definition paddr_json :: "paddr \<Rightarrow> json" where
  "paddr_json e =
     JObj ([(''server'', JStr (pe_server e))]
       @ opt_member (pe_server_name e \<noteq> []) ''serverName'' (JStr (pe_server_name e))
       @ opt_member (pe_label e \<noteq> []) ''label'' (JStr (pe_label e)))"

definition bundle_json :: "bundle_file \<Rightarrow> json" where
  "bundle_json b =
     JObj ([(''version'', jint (bu_version b))]
       @ opt_member (bu_server b \<noteq> []) ''server'' (JStr (bu_server b))
       @ opt_member (bu_server_name b \<noteq> []) ''serverName'' (JStr (bu_server_name b))
       @ opt_member (bu_endpoints b \<noteq> []) ''endpoints'' (JArr (map paddr_json (bu_endpoints b)))
       @ [(''ca'', JStr (bu_ca b)), (''cert'', JStr (bu_cert b)), (''key'', JStr (bu_key b))])"

fun paddr_of_json :: "json \<Rightarrow> paddr option" where
  "paddr_of_json (JObj ms) =
     (case (fold_field set_string ''server'' ms [], fold_field set_string ''serverName'' ms [],
            fold_field set_string ''label'' ms []) of
        (Some s, Some n, Some l) \<Rightarrow> Some \<lparr>pe_server = s, pe_server_name = n, pe_label = l\<rparr>
      | _ \<Rightarrow> None)"
| "paddr_of_json JNull = Some \<lparr>pe_server = [], pe_server_name = [], pe_label = []\<rparr>"
| "paddr_of_json _ = None"

fun bundle_of_json :: "json \<Rightarrow> bundle_file option" where
  "bundle_of_json (JObj ms) =
     (case (fold_field set_int ''version'' ms 0, fold_field set_string ''server'' ms [],
            fold_field set_string ''serverName'' ms [],
            fold_field (set_list paddr_of_json) ''endpoints'' ms [],
            fold_field set_string ''ca'' ms [], fold_field set_string ''cert'' ms [],
            fold_field set_string ''key'' ms []) of
        (Some v, Some s, Some n, Some es, Some ca, Some c, Some k) \<Rightarrow>
          Some \<lparr>bu_version = v, bu_server = s, bu_server_name = n, bu_endpoints = es,
                bu_ca = ca, bu_cert = c, bu_key = k\<rparr>
      | _ \<Rightarrow> None)"
| "bundle_of_json JNull = Some \<lparr>bu_version = 0, bu_server = [], bu_server_name = [], bu_endpoints = [],
     bu_ca = [], bu_cert = [], bu_key = []\<rparr>"
| "bundle_of_json _ = None"

definition bundle_for :: "paddr list \<Rightarrow> profile \<Rightarrow> bundle_file" where
  "bundle_for endpoints p =
     (let b = \<lparr>bu_version = 0, bu_server = [], bu_server_name = [], bu_endpoints = [],
               bu_ca = pf_ca p, bu_cert = pf_cert p, bu_key = pf_key p\<rparr>
      in if length (pf_endpoints p) = 1 \<and> pe_label (pf_endpoints p ! 0) = []
         then b\<lparr>bu_version := bundle_version_single, bu_server := pe_server (pf_endpoints p ! 0),
                bu_server_name := (if pe_server_name (endpoints ! 0) \<noteq> []
                                   then pe_server_name (pf_endpoints p ! 0) else [])\<rparr>
         else b\<lparr>bu_version := bundle_version_list, bu_endpoints := pf_endpoints p\<rparr>)"

definition marshal_bundle_endpoints ::
    "'p x509_lib \<Rightarrow> int \<Rightarrow> string \<Rightarrow> string \<Rightarrow> string \<Rightarrow> paddr list \<Rightarrow> profile_err + string" where
  "marshal_bundle_endpoints L now ca cert key endpoints =
     (case load_pem_endpoints L now ca cert key endpoints of
        Inl e \<Rightarrow> Inl e
      | Inr p \<Rightarrow> Inr (json_marshal_indent (bundle_json (bundle_for endpoints p))))"

definition marshal_bundle ::
    "'p x509_lib \<Rightarrow> int \<Rightarrow> string \<Rightarrow> string \<Rightarrow> string \<Rightarrow> string \<Rightarrow> string \<Rightarrow> profile_err + string" where
  "marshal_bundle L now ca cert key server server_name =
     marshal_bundle_endpoints L now ca cert key
       [\<lparr>pe_server = server, pe_server_name = server_name, pe_label = []\<rparr>]"

definition profile_of_bundle :: "'p x509_lib \<Rightarrow> int \<Rightarrow> bundle_file \<Rightarrow> profile_err + profile" where
  "profile_of_bundle L now b =
     (if bu_version b = bundle_version_single then
        (if bu_endpoints b \<noteq> [] then Inl MixedVersions
         else load_pem L now (bu_ca b) (bu_cert b) (bu_key b) (bu_server b) (bu_server_name b))
      else if bu_version b = bundle_version_list then
        (let es = bu_endpoints b
         in if bu_server b \<noteq> [] \<and> es \<noteq> [] \<and> pe_server (hd es) \<noteq> bu_server b
            then Inl (Inconsistent (bu_server b) (pe_server (hd es)))
            else
              (let es1 = (if bu_server b \<noteq> [] \<and> es = []
                           then [\<lparr>pe_server = bu_server b, pe_server_name = bu_server_name b,
                                  pe_label = []\<rparr>]
                           else es)
               in if es1 = [] then Inl NoEndpoints
                  else load_pem_endpoints L now (bu_ca b) (bu_cert b) (bu_key b) es1))
      else Inl (UnsupportedVersion (bu_version b)))"

definition parse_bundle :: "'p x509_lib \<Rightarrow> int \<Rightarrow> string \<Rightarrow> profile_err + profile" where
  "parse_bundle L now text =
     (case json_parse text of
        None \<Rightarrow> Inl BundleUnparsable
      | Some j \<Rightarrow>
          (case bundle_of_json j of None \<Rightarrow> Inl BundleUnparsable | Some b \<Rightarrow> profile_of_bundle L now b))"

section \<open>Lemmas\<close>

definition endpoint_key :: "paddr \<Rightarrow> string" where
  "endpoint_key e = pe_server e @ ''|'' @ pe_server_name e"

text \<open>An endpoint as validation leaves it.\<close>

definition dialable :: "paddr \<Rightarrow> bool" where
  "dialable e \<longleftrightarrow> pe_server_name e \<noteq> [] \<and>
     (\<exists>h port p. split_host_port (pe_server e) = Some (h, port) \<and> h \<noteq> [] \<and>
        parse_int64 port = Some p \<and> 1 \<le> p \<and> p \<le> 65535)"

lemma validate_from_Cons:
  assumes "validate_from i seen (e # es) = Inr out"
  shows "\<exists>e' out'. out = e' # out' \<and> dialable e' \<and> endpoint_key e' \<notin> seen
    \<and> pe_server e' = pe_server e \<and> pe_label e' = pe_label e
    \<and> (pe_server_name e \<noteq> [] \<longrightarrow> e' = e)
    \<and> validate_from (i + 1) (insert (endpoint_key e') seen) es = Inr out'"
proof -
  obtain h port where sp: "split_host_port (pe_server e) = Some (h, port)"
    using assms by (cases "split_host_port (pe_server e)") auto
  obtain n where h: "h \<noteq> []" "parse_int64 port = Some n" "1 \<le> n" "n \<le> 65535"
    using assms sp by (auto split: if_splits option.splits)
  define e' where "e' = (if pe_server_name e = [] then e\<lparr>pe_server_name := h\<rparr> else e)"
  from assms sp h have "endpoint_key e' \<notin> seen"
    and r: "rbind (validate_from (i + 1) (insert (endpoint_key e') seen) es) (\<lambda>out. Inr (e' # out)) = Inr out"
    by (auto simp: e'_def endpoint_key_def Let_def split: if_splits)
  moreover have "dialable e'" using sp h by (auto simp: e'_def dialable_def)
  moreover have "pe_server e' = pe_server e \<and> pe_label e' = pe_label e"
    "pe_server_name e \<noteq> [] \<longrightarrow> e' = e" by (simp_all add: e'_def)
  ultimately show ?thesis by (cases "validate_from (i + 1) (insert (endpoint_key e') seen) es") auto
qed

lemma validate_from_sound:
  "validate_from i seen es = Inr out \<Longrightarrow>
   list_all dialable out \<and> map pe_server out = map pe_server es \<and> map pe_label out = map pe_label es
   \<and> distinct (map endpoint_key out) \<and> endpoint_key ` set out \<inter> seen = {}"
proof (induction es arbitrary: i seen out)
  case (Cons e es)
  from validate_from_Cons [OF Cons.prems] obtain e' out' where
    o: "out = e' # out'" "dialable e'" "endpoint_key e' \<notin> seen" "pe_server e' = pe_server e"
      "pe_label e' = pe_label e"
    and r: "validate_from (i + 1) (insert (endpoint_key e') seen) es = Inr out'" by blast
  from Cons.IH [OF r] o show ?case by auto
qed simp

lemma validate_from_idem:
  assumes "list_all dialable es" and "distinct (map endpoint_key es)" and "endpoint_key ` set es \<inter> seen = {}"
  shows "validate_from i seen es = Inr es"
  using assms
proof (induction es arbitrary: i seen)
  case (Cons e es)
  from Cons.prems have "endpoint_key ` set es \<inter> insert (endpoint_key e) seen = {}" by auto
  with Cons.IH [of "insert (endpoint_key e) seen" "i + 1"] Cons.prems
  have "validate_from (i + 1) (insert (endpoint_key e) seen) es = Inr es" by simp
  moreover from Cons.prems obtain h port n where "split_host_port (pe_server e) = Some (h, port)" "h \<noteq> []"
    "parse_int64 port = Some n" "1 \<le> n" "n \<le> 65535" "pe_server_name e \<noteq> []" by (auto simp: dialable_def)
  moreover from Cons.prems have "endpoint_key e \<notin> seen" by simp
  ultimately show ?case by (simp add: endpoint_key_def Let_def)
qed simp

lemma validate_endpoints_sound:
  assumes "validate_endpoints es = Inr out"
  shows "out \<noteq> [] \<and> list_all dialable out \<and> map pe_server out = map pe_server es
    \<and> map pe_label out = map pe_label es \<and> distinct (map endpoint_key out)
    \<and> validate_endpoints out = Inr out"
proof -
  from assms have ne: "es \<noteq> []" and v: "validate_from 1 {} es = Inr out"
    by (auto simp: validate_endpoints_def split: if_splits)
  from validate_from_sound [OF v] have *: "list_all dialable out" "map pe_server out = map pe_server es"
    "map pe_label out = map pe_label es" "distinct (map endpoint_key out)" by simp_all
  moreover from *(2) ne have "out \<noteq> []" by auto
  moreover have "validate_from 1 {} out = Inr out" using validate_from_idem * by simp
  ultimately show ?thesis by (simp add: validate_endpoints_def)
qed

text \<open>What loading depends on of the endpoints is what validation makes of them.\<close>

lemma load_pem_endpoints_cong:
  "validate_endpoints es = validate_endpoints es' \<Longrightarrow>
   load_pem_endpoints L now ca cert key es = load_pem_endpoints L now ca cert key es'"
  by (simp add: load_pem_endpoints_def)

lemma load_pem_endpoints_Inr:
  assumes "load_pem_endpoints L now ca cert key es = Inr p"
  shows "validate_endpoints es = Inr (pf_endpoints p) \<and> pf_ca p = ca \<and> pf_cert p = cert \<and> pf_key p = key
    \<and> pf_server p = pe_server (hd (pf_endpoints p))
    \<and> pf_server_name p = pe_server_name (hd (pf_endpoints p))"
  using assms
  by (auto simp: load_pem_endpoints_def split: sum.splits option.splits prod.splits if_splits)

lemma paddr_of_json_json: "paddr_of_json (paddr_json e) = Some e"
  by (cases e) (auto simp: paddr_json_def field_simps_json fold_eval)

lemma bundle_of_json_json: "int64_range (bu_version b) \<Longrightarrow> bundle_of_json (bundle_json b) = Some b"
  using opt_all_Some [of "map paddr_json (bu_endpoints b)" paddr_of_json]
  by (cases b) (auto simp: bundle_json_def field_simps_json fold_eval jint_def comp_def paddr_of_json_json
      opt_all_map_Some [of id, simplified])

lemma bundle_json_wf: "json_wf (bundle_json b)"
  by (auto simp: bundle_json_def paddr_json_def opt_member_def jint_def list_all_iff)

text \<open>The bundle that is written for a list of endpoints reads as that list.\<close>

lemma profile_of_bundle_for:
  assumes "load_pem_endpoints L now ca cert key es = Inr p"
  shows "profile_of_bundle L now' (bundle_for es p) = load_pem_endpoints L now' ca cert key es"
proof -
  let ?out = "pf_endpoints p"
  from load_pem_endpoints_Inr [OF assms]
  have v: "validate_endpoints es = Inr ?out" and creds: "pf_ca p = ca" "pf_cert p = cert" "pf_key p = key"
    by simp_all
  note out = validate_endpoints_sound [OF v]
  show ?thesis
  proof (cases "length ?out = 1 \<and> pe_label (?out ! 0) = []")
    case True
    with out obtain e where es: "es = [e]" by (metis length_0_conv length_Suc_conv length_map One_nat_def)
    with v have "validate_from 1 {} (e # []) = Inr ?out" by (simp add: validate_endpoints_def)
    from validate_from_Cons [OF this] obtain e' where e': "?out = [e']" "pe_server e' = pe_server e"
      "pe_label e' = pe_label e" "pe_server_name e \<noteq> [] \<longrightarrow> e' = e" by auto
    with True es creds show ?thesis
      by (cases e) (auto simp: bundle_for_def profile_of_bundle_def bundle_version_single_def load_pem_def
          Let_def)
  next
    case False
    have b: "bundle_for es p = \<lparr>bu_version = 2, bu_server = [], bu_server_name = [],
        bu_endpoints = ?out, bu_ca = ca, bu_cert = cert, bu_key = key\<rparr>"
      unfolding bundle_for_def Let_def if_not_P [OF False] by (simp add: bundle_version_list_def creds)
    from out v load_pem_endpoints_cong [of ?out es L now' ca cert key] show ?thesis
      by (simp add: b profile_of_bundle_def bundle_version_single_def bundle_version_list_def)
  qed
qed

lemma bundle_for_version:
  "bu_version (bundle_for es p) = 1 \<or> bu_version (bundle_for es p) = 2"
  by (simp add: bundle_for_def bundle_version_single_def bundle_version_list_def Let_def)

text \<open>What was written is read back, whenever and by whomever.\<close>

lemma parse_marshalled:
  assumes "marshal_bundle_endpoints L now ca cert key es = Inr b"
  shows "parse_bundle L now' b = load_pem_endpoints L now' ca cert key es"
proof -
  from assms obtain p where p: "load_pem_endpoints L now ca cert key es = Inr p"
    and tx: "b = json_marshal_indent (bundle_json (bundle_for es p))"
    by (auto simp: marshal_bundle_endpoints_def split: sum.splits)
  have "json_parse b = Some (bundle_json (bundle_for es p))" using tx bundle_json_wf by simp
  moreover have "int64_range (bu_version (bundle_for es p))"
    using bundle_for_version [of es p] by (auto simp: int64_range_def)
  ultimately show ?thesis
    using bundle_of_json_json profile_of_bundle_for [OF p, of now'] by (simp add: parse_bundle_def)
qed

section \<open>Properties\<close>

text \<open>(C22) A bundle is its inputs: if \<open>MarshalBundleEndpoints\<close> writes a file, then importing that file,
  now or at any later time, yields exactly what loading the original credentials and endpoints would
  yield at that time: the same profile, labels, order and SNI included, or the same complaint (an
  expired certificate, say). And the file has version 1 exactly when there is one endpoint, without
  a label, so that older apps can read every file that does not need version 2.\<close>

theorem bundle_roundtrip:
  assumes "marshal_bundle_endpoints L now ca cert key es = Inr text"
  shows "parse_bundle L now' text = load_pem_endpoints L now' ca cert key es \<and>
    (\<exists>b. json_parse text = Some (bundle_json b) \<and>
      (if length es = 1 \<and> pe_label (hd es) = [] then bu_version b = 1 else bu_version b = 2))"
proof -
  from assms obtain p where p: "load_pem_endpoints L now ca cert key es = Inr p"
    and tx: "text = json_marshal_indent (bundle_json (bundle_for es p))"
    by (auto simp: marshal_bundle_endpoints_def split: sum.splits)
  have j: "json_parse text = Some (bundle_json (bundle_for es p))" using tx bundle_json_wf by simp
  have "parse_bundle L now' text = load_pem_endpoints L now' ca cert key es"
    using assms by (rule parse_marshalled)
  moreover have "if length es = 1 \<and> pe_label (hd es) = [] then bu_version (bundle_for es p) = 1
      else bu_version (bundle_for es p) = 2"
  proof -
    from load_pem_endpoints_Inr [OF p] have "validate_endpoints es = Inr (pf_endpoints p)" by simp
    from validate_endpoints_sound [OF this]
    have "map pe_label (pf_endpoints p) = map pe_label es" and "length (pf_endpoints p) = length es"
      and "pf_endpoints p \<noteq> []" by (simp, metis length_map, simp)
    then have "pe_label (pf_endpoints p ! 0) = pe_label (hd es)"
      by (metis hd_conv_nth hd_map length_0_conv)
    with \<open>length (pf_endpoints p) = length es\<close> show ?thesis
      by (simp add: bundle_for_def bundle_version_single_def bundle_version_list_def Let_def)
  qed
  ultimately show ?thesis using j by blast
qed

definition sample_x509 :: "string x509_lib" where
  "sample_x509 =
     \<lparr>x_ca_pool = (\<lambda>pem. if pem = ''CA'' then Some pem else None),
      x_key_pair = (\<lambda>c k. if c = ''C'' \<and> k = ''K'' then Inr (''leaf'', []) else Inl ''mismatch''),
      x_parse = (\<lambda>der. Inr \<lparr>crt_cn = ''bob'', crt_not_before = 0, crt_not_after = 9, crt_der = der\<rparr>),
      x_verify = (\<lambda>pool ints now leaf. None)\<rparr>"

definition sample_addr :: paddr where
  "sample_addr = \<lparr>pe_server = ''vpn.io:8443'', pe_server_name = [], pe_label = []\<rparr>"

lemma sample_valid: "validate_endpoints [sample_addr] = Inr [sample_addr\<lparr>pe_server_name := ''vpn.io''\<rparr>]"
  by code_simp

theorem bundle_roundtrip_witness:
  "\<exists>text. marshal_bundle_endpoints sample_x509 4 ''CA'' ''C'' ''K'' [sample_addr] = Inr text
    \<and> parse_bundle sample_x509 5 text = load_pem_endpoints sample_x509 5 ''CA'' ''C'' ''K'' [sample_addr]
    \<and> ok (parse_bundle sample_x509 5 text)
    \<and> parse_bundle sample_x509 10 text = Inl (CertExpired 9)"
proof -
  have l: "load_pem_endpoints sample_x509 t ''CA'' ''C'' ''K'' [sample_addr] =
      (if t < 0 then Inl (NotYetValid 0) else if t > 9 then Inl (CertExpired 9)
       else Inr \<lparr>pf_server = ''vpn.io:8443'', pf_server_name = ''vpn.io'',
         pf_endpoints = [sample_addr\<lparr>pe_server_name := ''vpn.io''\<rparr>], pf_ca = ''CA'', pf_cert = ''C'',
         pf_key = ''K'', pf_cn = ''bob'', pf_not_after = 9\<rparr>)" for t
    by (simp add: load_pem_endpoints_def sample_valid sample_x509_def) (simp add: sample_addr_def)
  then obtain b where t: "marshal_bundle_endpoints sample_x509 4 ''CA'' ''C'' ''K'' [sample_addr] = Inr b"
    by (simp add: marshal_bundle_endpoints_def)
  from bundle_roundtrip [OF t, of 5] bundle_roundtrip [OF t, of 10] t l [of 5] l [of 10] show ?thesis by auto
qed

end
