(* ===== verification/Watchdog.thy ===== *)
theory Watchdog
  imports Files
begin

text \<open>
  The watchdog (\<open>src/internal/watchdog/watchdog.go\<close>): it polls the health endpoint of a server and
  tells the operator when the answer changes. A message is a value of \<open>message\<close>, and \<open>message_text\<close> is
  what \<open>Notify\<close> is called with. The clock and what the HTTP client returns are arguments. Then the
  alerts are compared with a definition that looks at the whole history of polls.
\<close>

section \<open>Configuration\<close>

record report =
  rp_live :: bool
  rp_ready :: bool
  rp_not_ready :: "string list"
  rp_warnings :: "string list"
  rp_sessions :: int
  rp_cert_days :: int

record watch_config =
  wc_url :: string
  wc_interval :: int
  wc_timeout :: int
  wc_failures :: int
  wc_repeat :: int

definition default_interval :: int where "default_interval = 60 * 1000000000"
definition default_poll_timeout :: int where "default_poll_timeout = 10 * 1000000000"
definition default_failures_before_alert :: int where "default_failures_before_alert = 3"
definition default_warning_repeat :: int where "default_warning_repeat = 24 * 3600 * 1000000000"
definition max_body_bytes :: nat where "max_body_bytes = 64 * 2 ^ 10"

record watcher =
  w_cfg :: watch_config
  w_failures :: int
  w_alerted :: bool
  w_last_warning :: string
  w_last_warning_at :: int

datatype watch_err = NoUrl | NoNotify

definition new_watcher :: "watch_config \<Rightarrow> bool \<Rightarrow> watch_err + watcher" where
  "new_watcher cfg notify =
     (if wc_url cfg = [] then Inl NoUrl
      else if \<not> notify then Inl NoNotify
      else Inr
        \<lparr>w_cfg = cfg\<lparr>wc_interval := (if wc_interval cfg \<le> 0 then default_interval else wc_interval cfg),
           wc_timeout := (if wc_timeout cfg \<le> 0 then default_poll_timeout else wc_timeout cfg),
           wc_failures := (if wc_failures cfg \<le> 0 then default_failures_before_alert else wc_failures cfg),
           wc_repeat := (if wc_repeat cfg \<le> 0 then default_warning_repeat else wc_repeat cfg)\<rparr>,
         w_failures = 0, w_alerted = False, w_last_warning = [], w_last_warning_at = zero_time\<rparr>)"

section \<open>Observations and messages\<close>

record observation =
  ob_report :: report
  ob_err :: "string option"

datatype message =
    Down string int string
  | Back int
  | Attention string

definition nl :: string where "nl = [CHR 0x0A]"

fun message_text :: "message \<Rightarrow> string" where
  "message_text (Down reason n url) =
     [CHR 0xF0, CHR 0x9F, CHR 0x94, CHR 0xB4] @ '' vpn-server is not serving clients.'' @ nl @ nl @ reason
     @ nl @ nl @ ''('' @ int_str n @ '' checks in a row; watching '' @ url @ '')''"
| "message_text (Back n) =
     [CHR 0xF0, CHR 0x9F, CHR 0x9F, CHR 0xA2] @ '' vpn-server is back '' @ [CHR 0xE2, CHR 0x80, CHR 0x94]
     @ '' accepting clients again ('' @ int_str n @ '' session(s) connected).''"
| "message_text (Attention t) =
     [CHR 0xF0, CHR 0x9F, CHR 0x9F, CHR 0xA1] @ '' vpn-server needs attention soon.'' @ nl @ nl @ t"

text \<open>The reason when an observation counts as trouble.\<close>

definition classify :: "observation \<Rightarrow> string option" where
  "classify ob =
     (case ob_err ob of
        Some e \<Rightarrow> Some (''The node did not answer its health check: '' @ e)
      | None \<Rightarrow>
          (if \<not> rp_ready (ob_report ob)
           then Some (if rp_not_ready (ob_report ob) \<noteq> [] then join nl (rp_not_ready (ob_report ob))
                      else ''The node reports it is not ready, without saying why.'')
           else None))"

text \<open>\<open>time.Time.Sub\<close> saturates.\<close>

definition time_sub :: "int \<Rightarrow> int \<Rightarrow> int" where
  "time_sub a b = max (- (2 ^ 63)) (min (2 ^ 63 - 1) (a - b))"

definition maybe_warn :: "int \<Rightarrow> report \<Rightarrow> watcher \<Rightarrow> message list \<times> watcher" where
  "maybe_warn now rep w =
     (if rp_warnings rep = [] then ([], w\<lparr>w_last_warning := []\<rparr>)
      else
        (let t = join nl (rp_warnings rep)
         in if t = w_last_warning w \<and> time_sub now (w_last_warning_at w) < wc_repeat (w_cfg w) then ([], w)
            else ([Attention t], w\<lparr>w_last_warning := t, w_last_warning_at := now\<rparr>)))"

definition observe :: "int \<Rightarrow> observation \<Rightarrow> watcher \<Rightarrow> message list \<times> watcher" where
  "observe now ob w =
     (case classify ob of
        Some reason \<Rightarrow>
          (let w1 = w\<lparr>w_failures := w_failures w + 1\<rparr>
           in if \<not> w_alerted w1 \<and> w_failures w1 \<ge> wc_failures (w_cfg w1)
              then ([Down reason (w_failures w1) (wc_url (w_cfg w1))], w1\<lparr>w_alerted := True\<rparr>)
              else ([], w1))
      | None \<Rightarrow>
          (let (m1, w1) = (if w_alerted w then ([Back (rp_sessions (ob_report ob))], w\<lparr>w_alerted := False\<rparr>)
                           else ([], w));
               (m2, w2) = maybe_warn now (ob_report ob) (w1\<lparr>w_failures := 0\<rparr>)
           in (m1 @ m2, w2)))"

text \<open>\<open>Run\<close>: one observation per tick.\<close>

fun watch_run :: "(int \<times> observation) list \<Rightarrow> watcher \<Rightarrow> message list \<times> watcher" where
  "watch_run [] w = ([], w)"
| "watch_run ((now, ob) # rest) w =
     (case observe now ob w of (m, w1) \<Rightarrow> (case watch_run rest w1 of (ms, w2) \<Rightarrow> (m @ ms, w2)))"

section \<open>Polling\<close>

text \<open>The answer of the HTTP client: no response, or a status code with its text and a body that can be
  read or not. \<open>json_error\<close> is the text of a decoding error.\<close>

datatype http_result =
    HttpFailed string
  | HttpResponse nat string "string + string"

definition zero_report :: report where
  "zero_report = \<lparr>rp_live = False, rp_ready = False, rp_not_ready = [], rp_warnings = [],
     rp_sessions = 0, rp_cert_days = 0\<rparr>"

fun report_of_json :: "json \<Rightarrow> report option" where
  "report_of_json (JObj ms) =
     (case (fold_field set_bool ''live'' ms False, fold_field set_bool ''ready'' ms False,
            fold_field set_strings ''notReady'' ms [], fold_field set_strings ''warnings'' ms [],
            fold_field set_int ''sessions'' ms 0, fold_field set_int ''certExpiresInDays'' ms 0) of
        (Some l, Some r, Some n, Some w, Some s, Some c) \<Rightarrow>
          Some \<lparr>rp_live = l, rp_ready = r, rp_not_ready = n, rp_warnings = w, rp_sessions = s,
                rp_cert_days = c\<rparr>
      | _ \<Rightarrow> None)"
| "report_of_json JNull = Some zero_report"
| "report_of_json _ = None"

definition obs_failed :: "string \<Rightarrow> observation" where
  "obs_failed e = \<lparr>ob_report = zero_report, ob_err = Some e\<rparr>"

definition poll :: "(string \<Rightarrow> string) \<Rightarrow> string \<Rightarrow> http_result \<Rightarrow> observation" where
  "poll json_error url res =
     (case res of
        HttpFailed e \<Rightarrow> obs_failed e
      | HttpResponse code status body \<Rightarrow>
          (case body of
             Inl e \<Rightarrow> obs_failed (''read response: '' @ e)
           | Inr full \<Rightarrow>
               (let b = take max_body_bytes full
                in if code \<noteq> 200 \<and> code \<noteq> 503
                   then obs_failed (''unexpected status '' @ status @ '' from '' @ url)
                   else case Option.bind (json_parse b) report_of_json of
                     None \<Rightarrow> obs_failed
                       (''health endpoint returned something that is not a health report: '' @ json_error b)
                   | Some rep \<Rightarrow> \<lparr>ob_report = rep, ob_err = None\<rparr>)))"

section \<open>The alerts as a function of the history\<close>

definition bad :: "observation \<Rightarrow> bool" where
  "bad ob \<longleftrightarrow> classify ob \<noteq> None"

text \<open>How many polls in a row were bad, up to now.\<close>

definition bad_run :: "observation list \<Rightarrow> nat" where
  "bad_run obs = length (takeWhile bad (rev obs))"

lemma bad_run_snoc [simp]: "bad_run (obs @ [ob]) = (if bad ob then Suc (bad_run obs) else 0)"
  by (simp add: bad_run_def)

text \<open>What the operator should hear of the last poll: an alert when the run of bad polls reaches the
  limit, and never again during that run; the recovery when a good poll ends a run that long.\<close>

definition due_alert :: "watch_config \<Rightarrow> observation list \<Rightarrow> observation \<Rightarrow> message list" where
  "due_alert cfg hist ob =
     (case classify ob of
        Some reason \<Rightarrow>
          (if int (bad_run (hist @ [ob])) = wc_failures cfg
           then [Down reason (wc_failures cfg) (wc_url cfg)] else [])
      | None \<Rightarrow> (if int (bad_run hist) \<ge> wc_failures cfg then [Back (rp_sessions (ob_report ob))] else []))"

fun due_alerts :: "watch_config \<Rightarrow> observation list \<Rightarrow> observation list \<Rightarrow> message list" where
  "due_alerts cfg hist [] = []"
| "due_alerts cfg hist (ob # obs) = due_alert cfg hist ob @ due_alerts cfg (hist @ [ob]) obs"

fun is_alert :: "message \<Rightarrow> bool" where
  "is_alert (Attention t) = False"
| "is_alert m = True"

text \<open>The state stands for the history.\<close>

definition stands_for :: "watch_config \<Rightarrow> observation list \<Rightarrow> watcher \<Rightarrow> bool" where
  "stands_for cfg hist w \<longleftrightarrow> w_cfg w = cfg \<and> wc_failures cfg > 0 \<and> w_failures w = int (bad_run hist)
     \<and> (w_alerted w \<longleftrightarrow> int (bad_run hist) \<ge> wc_failures cfg)"

lemma maybe_warn_keeps:
  "maybe_warn now rep w = (m, w') \<Longrightarrow>
   w_cfg w' = w_cfg w \<and> w_failures w' = w_failures w \<and> w_alerted w' = w_alerted w \<and> filter is_alert m = []"
  by (auto simp: maybe_warn_def Let_def split: if_splits)

lemma observe_stands_for:
  assumes "stands_for cfg hist w" and "observe now ob w = (m, w')"
  shows "filter is_alert m = due_alert cfg hist ob \<and> stands_for cfg (hist @ [ob]) w'"
proof (cases "classify ob")
  case None
  obtain m2 w2 where mw: "maybe_warn now (ob_report ob)
      ((if w_alerted w then w\<lparr>w_alerted := False\<rparr> else w)\<lparr>w_failures := 0\<rparr>) = (m2, w2)" by fastforce
  from maybe_warn_keeps [OF mw] assms None mw show ?thesis
    by (auto simp: observe_def due_alert_def stands_for_def bad_def split: if_splits)
next
  case (Some reason)
  with assms show ?thesis
    by (auto simp: observe_def due_alert_def stands_for_def bad_def Let_def split: if_splits)
qed

lemma watch_run_stands_for:
  "stands_for cfg hist w \<Longrightarrow> filter is_alert (fst (watch_run obs w)) = due_alerts cfg hist (map snd obs)"
proof (induction obs w arbitrary: hist rule: watch_run.induct)
  case (2 now ob rest w)
  obtain m w1 where o: "observe now ob w = (m, w1)" by fastforce
  from observe_stands_for [OF 2(2) o] 2(1) [OF o [symmetric]] o show ?case
    by (auto split: prod.splits)
qed simp

section \<open>Properties\<close>

text \<open>(C33) Alerts on change: over any series of polls, the outage alerts and recoveries that a new
  watcher sends are exactly those the history calls for. One alert when the run of consecutive bad
  polls reaches the configured length, nothing more however long the outage lasts, one recovery
  when a good poll ends an outage that was announced, none for a blip that was not.\<close>

theorem watchdog_alerts:
  assumes "new_watcher cfg notify = Inr w"
  shows "filter is_alert (fst (watch_run obs w)) = due_alerts (w_cfg w) [] (map snd obs)"
proof (rule watch_run_stands_for)
  from assms show "stands_for (w_cfg w) [] w"
    by (auto simp: new_watcher_def stands_for_def bad_run_def default_failures_before_alert_def
        split: if_splits)
qed

definition sample_watch :: watch_config where
  "sample_watch = \<lparr>wc_url = ''http://n/readyz'', wc_interval = 0, wc_timeout = 0, wc_failures = 2, wc_repeat = 0\<rparr>"

definition good_poll :: observation where
  "good_poll = \<lparr>ob_report = zero_report\<lparr>rp_ready := True, rp_sessions := 4\<rparr>, ob_err = None\<rparr>"

theorem watchdog_alerts_witness:
  "\<exists>w. new_watcher sample_watch True = Inr w
    \<and> filter is_alert (fst (watch_run (map (Pair 0)
        [obs_failed ''x'', good_poll, obs_failed ''x'', obs_failed ''y'', obs_failed ''z'', good_poll]) w))
      = [Down (''The node did not answer its health check: y'') 2 ''http://n/readyz'', Back 4]"
proof -
  obtain w where w: "new_watcher sample_watch True = Inr w"
    by (simp add: new_watcher_def sample_watch_def)
  then have c: "wc_failures (w_cfg w) = 2" "wc_url (w_cfg w) = ''http://n/readyz''"
    by (auto simp: new_watcher_def sample_watch_def)
  from watchdog_alerts [OF w, of "map (Pair 0)
      [obs_failed ''x'', good_poll, obs_failed ''x'', obs_failed ''y'', obs_failed ''z'', good_poll]"] w
  show ?thesis
    by (auto simp: due_alert_def c classify_def obs_failed_def good_poll_def bad_run_def bad_def zero_report_def)
qed

text \<open>A good poll after an announced outage can send two messages: the recovery and a warning.\<close>

theorem observe_sends_two:
  "\<exists>w. new_watcher sample_watch True = Inr w \<and>
    length (fst (observe 0 (good_poll\<lparr>ob_report := (ob_report good_poll)\<lparr>rp_warnings := [''cert'']\<rparr>\<rparr>)
      (snd (watch_run (map (Pair 0) [obs_failed ''x'', obs_failed ''x'']) w)))) = 2"
  by (simp add: new_watcher_def sample_watch_def observe_def maybe_warn_def classify_def good_poll_def
      zero_report_def obs_failed_def Let_def)

end
