(* ===== verification/Base64.thy ===== *)
theory Base64
  imports Json
begin

text \<open>
  What the sources use of \<open>encoding/base64\<close>: the padded standard encoding, in which \<open>encoding/json\<close>
  writes and reads byte slices. The decoder skips line breaks and does not look at the unused bits of
  the last group, as Go's does.
\<close>

definition b64_alphabet :: string where
  "b64_alphabet = ''ABCDEFGHIJKLMNOPQRSTUVWXYZabcdefghijklmnopqrstuvwxyz0123456789+/''"

definition b64_char :: "nat \<Rightarrow> char" where
  "b64_char n = b64_alphabet ! (n mod 64)"

fun index_of :: "'a \<Rightarrow> 'a list \<Rightarrow> nat option" where
  "index_of x [] = None"
| "index_of x (y # ys) = (if x = y then Some 0 else map_option Suc (index_of x ys))"

definition b64_val :: "char \<Rightarrow> nat option" where
  "b64_val c = index_of c b64_alphabet"

abbreviation code :: "char \<Rightarrow> nat" where
  "code c \<equiv> of_char c"

abbreviation pad_char :: char where
  "pad_char \<equiv> CHR ''=''"

fun b64_encode :: "string \<Rightarrow> string" where
  "b64_encode [] = []"
| "b64_encode [a] = [b64_char (code a div 4), b64_char (code a mod 4 * 16), pad_char, pad_char]"
| "b64_encode [a, b] =
     [b64_char (code a div 4), b64_char (code a mod 4 * 16 + code b div 16),
      b64_char (code b mod 16 * 4), pad_char]"
| "b64_encode (a # b # c # r) =
     b64_char (code a div 4) # b64_char (code a mod 4 * 16 + code b div 16)
     # b64_char (code b mod 16 * 4 + code c div 64) # b64_char (code c mod 64) # b64_encode r"

fun b64_quads :: "string \<Rightarrow> string option" where
  "b64_quads [] = Some []"
| "b64_quads (w # x # y # z # r) =
     (case (b64_val w, b64_val x) of
        (Some i, Some j) \<Rightarrow>
          (let a = char_of (i * 4 + j div 16) in
           if y = pad_char then (if z = pad_char \<and> r = [] then Some [a] else None)
           else
             (case b64_val y of
                None \<Rightarrow> None
              | Some k \<Rightarrow>
                  (let b = char_of (j mod 16 * 16 + k div 4) in
                   if z = pad_char then (if r = [] then Some [a, b] else None)
                   else
                     (case b64_val z of
                        None \<Rightarrow> None
                      | Some l \<Rightarrow>
                          (case b64_quads r of
                             None \<Rightarrow> None
                           | Some bs \<Rightarrow> Some (a # b # char_of (k mod 4 * 64 + l) # bs))))))
      | _ \<Rightarrow> None)"
| "b64_quads _ = None"

definition b64_decode :: "string \<Rightarrow> string option" where
  "b64_decode s = b64_quads (filter (\<lambda>c. c \<noteq> CHR 0x0A \<and> c \<noteq> CHR 0x0D) s)"

lemma index_of_nth: "distinct xs \<Longrightarrow> i < length xs \<Longrightarrow> index_of (xs ! i) xs = Some i"
proof (induction xs arbitrary: i)
  case (Cons x xs)
  then show ?case by (cases i) auto
qed simp

lemma b64_alphabet_props:
  "distinct b64_alphabet" "length b64_alphabet = 64" "pad_char \<notin> set b64_alphabet"
  "CHR 0x0A \<notin> set b64_alphabet" "CHR 0x0D \<notin> set b64_alphabet"
  by (simp_all add: b64_alphabet_def)

lemma b64_char_in [simp]: "b64_char n \<in> set b64_alphabet"
  unfolding b64_char_def by (rule nth_mem) (simp add: b64_alphabet_props)

lemma b64_val_char [simp]: "b64_val (b64_char n) = Some (n mod 64)"
  unfolding b64_char_def b64_val_def by (rule index_of_nth) (simp_all add: b64_alphabet_props)

lemma b64_char_not [simp]:
  "b64_char n \<noteq> pad_char" "b64_char n \<noteq> CHR 0x0A" "b64_char n \<noteq> CHR 0x0D"
  using b64_char_in [of n] b64_alphabet_props by metis+

lemma code_less [simp]: "code c < 256"
  by simp

lemma b64_parts:
  assumes "a < 256" and "b < 256" and "c < (256 :: nat)"
  shows "a div 4 mod 64 = a div 4" "(a mod 4 * 16 + b div 16) mod 64 = a mod 4 * 16 + b div 16"
    "a mod 4 * 16 mod 64 = a mod 4 * 16" "b mod 16 * 4 mod 64 = b mod 16 * 4"
    "(b mod 16 * 4 + c div 64) mod 64 = b mod 16 * 4 + c div 64"
    "a div 4 * 4 + (a mod 4 * 16 + b div 16) div 16 = a"
    "a div 4 * 4 + a mod 4 * 16 div 16 = a"
    "(a mod 4 * 16 + b div 16) mod 16 * 16 + (b mod 16 * 4 + c div 64) div 4 = b"
    "(a mod 4 * 16 + b div 16) mod 16 * 16 + b mod 16 * 4 div 4 = b"
    "(b mod 16 * 4 + c div 64) mod 4 * 64 + c mod 64 = c"
proof -
  obtain a1 a0 where a: "a = 4 * a1 + a0" "a0 < 4" by (metis mult_div_mod_eq mod_less_divisor zero_less_numeral)
  obtain b1 b0 where b: "b = 16 * b1 + b0" "b0 < 16" by (metis mult_div_mod_eq mod_less_divisor zero_less_numeral)
  obtain c1 c0 where c: "c = 64 * c1 + c0" "c0 < 64" by (metis mult_div_mod_eq mod_less_divisor zero_less_numeral)
  from a b c assms have lt: "a1 < 64" "b1 < 16" "c1 < 4" by simp_all
  have d: "a div 4 = a1" "a mod 4 = a0" "b div 16 = b1" "b mod 16 = b0" "c div 64 = c1" "c mod 64 = c0"
    using a b c by simp_all
  have e: "(a0 * 16 + b1) div 16 = a0" "(a0 * 16 + b1) mod 16 = b1" "(b0 * 4 + c1) div 4 = b0"
    "(b0 * 4 + c1) mod 4 = c1" using lt by simp_all
  show "a div 4 mod 64 = a div 4" "(a mod 4 * 16 + b div 16) mod 64 = a mod 4 * 16 + b div 16"
    "a mod 4 * 16 mod 64 = a mod 4 * 16" "b mod 16 * 4 mod 64 = b mod 16 * 4"
    "(b mod 16 * 4 + c div 64) mod 64 = b mod 16 * 4 + c div 64"
    "a div 4 * 4 + (a mod 4 * 16 + b div 16) div 16 = a"
    "a div 4 * 4 + a mod 4 * 16 div 16 = a"
    "(a mod 4 * 16 + b div 16) mod 16 * 16 + (b mod 16 * 4 + c div 64) div 4 = b"
    "(a mod 4 * 16 + b div 16) mod 16 * 16 + b mod 16 * 4 div 4 = b"
    "(b mod 16 * 4 + c div 64) mod 4 * 64 + c mod 64 = c"
    unfolding d e using a b c lt by simp_all
qed

lemma b64_quads_encode: "b64_quads (b64_encode s) = Some s"
proof (induction s rule: b64_encode.induct)
  case (2 a)
  then show ?case using b64_parts [of "code a" 0 0] by simp
next
  case (3 a b)
  then show ?case using b64_parts [of "code a" "code b" 0] by simp
next
  case (4 a b c r)
  then show ?case using b64_parts [of "code a" "code b" "code c"] by simp
qed simp

lemma b64_encode_no_break: "filter (\<lambda>c. c \<noteq> CHR 0x0A \<and> c \<noteq> CHR 0x0D) (b64_encode s) = b64_encode s"
  by (induction s rule: b64_encode.induct) simp_all

lemma b64_decode_encode [simp]: "b64_decode (b64_encode s) = Some s"
  by (simp add: b64_decode_def b64_encode_no_break b64_quads_encode)

text \<open>A byte slice in JSON: base64 text, \<open>null\<close> for the empty one, or an array of numbers.\<close>

definition jbytes :: "string \<Rightarrow> json" where
  "jbytes b = (if b = [] then JNull else JStr (b64_encode b))"

fun set_byte :: "json \<Rightarrow> char option" where
  "set_byte (JNum s) =
     (case nat_of_str s of None \<Rightarrow> None | Some n \<Rightarrow> if n < 256 then Some (char_of n) else None)"
| "set_byte JNull = Some (char_of (0 :: nat))"
| "set_byte _ = None"

fun set_bytes :: "json \<Rightarrow> string \<Rightarrow> string option" where
  "set_bytes (JStr s) a = b64_decode s"
| "set_bytes JNull a = Some []"
| "set_bytes (JArr vs) a = opt_all (map set_byte vs)"
| "set_bytes _ a = None"

lemma set_bytes_jbytes [simp]: "set_bytes (jbytes b) a = Some b"
  by (simp add: jbytes_def)

lemma jbytes_wf [simp]: "json_wf (jbytes b)"
  by (simp add: jbytes_def)

section \<open>The raw URL encoding\<close>

text \<open>\<open>base64.RawURLEncoding\<close>: two other characters, and no padding.\<close>

definition b64u_alphabet :: string where
  "b64u_alphabet = ''ABCDEFGHIJKLMNOPQRSTUVWXYZabcdefghijklmnopqrstuvwxyz0123456789-_''"

definition b64u_char :: "nat \<Rightarrow> char" where
  "b64u_char n = b64u_alphabet ! (n mod 64)"

definition b64u_val :: "char \<Rightarrow> nat option" where
  "b64u_val c = index_of c b64u_alphabet"

fun b64u_encode :: "string \<Rightarrow> string" where
  "b64u_encode [] = []"
| "b64u_encode [a] = [b64u_char (code a div 4), b64u_char (code a mod 4 * 16)]"
| "b64u_encode [a, b] =
     [b64u_char (code a div 4), b64u_char (code a mod 4 * 16 + code b div 16),
      b64u_char (code b mod 16 * 4)]"
| "b64u_encode (a # b # c # r) =
     b64u_char (code a div 4) # b64u_char (code a mod 4 * 16 + code b div 16)
     # b64u_char (code b mod 16 * 4 + code c div 64) # b64u_char (code c mod 64) # b64u_encode r"

fun b64u_quads :: "string \<Rightarrow> string option" where
  "b64u_quads [] = Some []"
| "b64u_quads [w, x] =
     (case (b64u_val w, b64u_val x) of
        (Some i, Some j) \<Rightarrow> Some [char_of (i * 4 + j div 16)] | _ \<Rightarrow> None)"
| "b64u_quads [w, x, y] =
     (case (b64u_val w, b64u_val x, b64u_val y) of
        (Some i, Some j, Some k) \<Rightarrow> Some [char_of (i * 4 + j div 16), char_of (j mod 16 * 16 + k div 4)]
      | _ \<Rightarrow> None)"
| "b64u_quads (w # x # y # z # r) =
     (case (b64u_val w, b64u_val x, b64u_val y, b64u_val z, b64u_quads r) of
        (Some i, Some j, Some k, Some l, Some bs) \<Rightarrow>
          Some (char_of (i * 4 + j div 16) # char_of (j mod 16 * 16 + k div 4) # char_of (k mod 4 * 64 + l) # bs)
      | _ \<Rightarrow> None)"
| "b64u_quads _ = None"

definition b64u_decode :: "string \<Rightarrow> string option" where
  "b64u_decode s = b64u_quads (filter (\<lambda>c. c \<noteq> CHR 0x0A \<and> c \<noteq> CHR 0x0D) s)"

lemma b64u_alphabet_props:
  "distinct b64u_alphabet" "length b64u_alphabet = 64"
  "CHR 0x0A \<notin> set b64u_alphabet" "CHR 0x0D \<notin> set b64u_alphabet"
  by (simp_all add: b64u_alphabet_def)

lemma b64u_char_in [simp]: "b64u_char n \<in> set b64u_alphabet"
  unfolding b64u_char_def by (rule nth_mem) (simp add: b64u_alphabet_props)

lemma b64u_val_char [simp]: "b64u_val (b64u_char n) = Some (n mod 64)"
  unfolding b64u_char_def b64u_val_def by (rule index_of_nth) (simp_all add: b64u_alphabet_props)

lemma b64u_char_not [simp]: "b64u_char n \<noteq> CHR 0x0A" "b64u_char n \<noteq> CHR 0x0D"
  using b64u_char_in [of n] b64u_alphabet_props by metis+

lemma b64u_quads_encode: "b64u_quads (b64u_encode s) = Some s"
proof (induction s rule: b64u_encode.induct)
  case (2 a)
  note p = b64_parts [of "code a" "code a" "code a", OF code_less code_less code_less]
  show ?case
    by (simp only: b64u_encode.simps b64u_quads.simps b64u_val_char p prod.case option.case char_of_char)
next
  case (3 a b)
  note p = b64_parts [of "code a" "code b" "code a", OF code_less code_less code_less]
  show ?case
    by (simp only: b64u_encode.simps b64u_quads.simps b64u_val_char p prod.case option.case char_of_char)
next
  case (4 a b c r)
  note p = b64_parts [of "code a" "code b" "code c", OF code_less code_less code_less]
  show ?case
    by (simp only: b64u_encode.simps b64u_quads.simps b64u_val_char p 4 mod_mod_trivial prod.case option.case char_of_char)
qed simp

lemma b64u_decode_encode [simp]: "b64u_decode (b64u_encode s) = Some s"
proof -
  have "filter (\<lambda>c. c \<noteq> CHR 0x0A \<and> c \<noteq> CHR 0x0D) (b64u_encode s) = b64u_encode s"
    by (induction s rule: b64u_encode.induct) simp_all
  then show ?thesis by (simp add: b64u_decode_def b64u_quads_encode)
qed

end
