(* ===== verification/Ipc.thy ===== *)
theory Ipc
  imports Framing Base64
begin

text \<open>
  The control protocol between the front-end and the helper daemon (\<open>src/internal/ipc/protocol.go\<close>,
  \<open>server.go\<close>, \<open>client.go\<close>, \<open>policy.go\<close>): one request and one response per connection, each a JSON
  envelope in one frame. The handler of the daemon is a record of functions of the daemon's state;
  the texts of decoding errors and of \<open>%q\<close>, which belong to the standard library, are parameters.
\<close>

section \<open>Messages\<close>

definition ipc_version :: int where "ipc_version = 1"
definition cmd_connect :: string where "cmd_connect = ''connect''"
definition cmd_disconnect :: string where "cmd_disconnect = ''disconnect''"
definition cmd_status :: string where "cmd_status = ''status''"

record ipc_request =
  rq_command :: string
  rq_payload :: "json option"
  rq_version :: int

record ipc_response =
  rs_ok :: bool
  rs_error :: string
  rs_payload :: "json option"

record ipc_addr =
  ia_server :: string
  ia_server_name :: string
  ia_label :: string

record connect_request =
  cr_server :: string
  cr_server_name :: string
  cr_endpoints :: "ipc_addr list"
  cr_preferred :: string
  cr_ca :: string
  cr_cert :: string
  cr_key :: string
  cr_mtu :: int
  cr_tun_name :: string

record status_response =
  st_state :: string
  st_server :: string
  st_since :: int
  st_last_error :: string

text \<open>A \<open>json.RawMessage\<close> with \<open>omitempty\<close>: the member is there when there is a message.\<close>

definition raw_member :: "string \<Rightarrow> json option \<Rightarrow> members" where
  "raw_member k p = (case p of None \<Rightarrow> [] | Some j \<Rightarrow> [(k, j)])"

definition request_json :: "ipc_request \<Rightarrow> json" where
  "request_json r =
     JObj ([(''command'', JStr (rq_command r))] @ raw_member ''payload'' (rq_payload r)
       @ opt_member (rq_version r \<noteq> 0) ''version'' (jint (rq_version r)))"

definition response_json :: "ipc_response \<Rightarrow> json" where
  "response_json r =
     JObj ([(''ok'', JBool (rs_ok r))] @ opt_member (rs_error r \<noteq> []) ''error'' (JStr (rs_error r))
       @ raw_member ''payload'' (rs_payload r))"

definition ipc_addr_json :: "ipc_addr \<Rightarrow> json" where
  "ipc_addr_json e =
     JObj ([(''server'', JStr (ia_server e))]
       @ opt_member (ia_server_name e \<noteq> []) ''server_name'' (JStr (ia_server_name e))
       @ opt_member (ia_label e \<noteq> []) ''label'' (JStr (ia_label e)))"

definition connect_request_json :: "connect_request \<Rightarrow> json" where
  "connect_request_json c =
     JObj ([(''server'', JStr (cr_server c))]
       @ opt_member (cr_server_name c \<noteq> []) ''server_name'' (JStr (cr_server_name c))
       @ opt_member (cr_endpoints c \<noteq> []) ''endpoints'' (JArr (map ipc_addr_json (cr_endpoints c)))
       @ opt_member (cr_preferred c \<noteq> []) ''preferred_endpoint'' (JStr (cr_preferred c))
       @ [(''ca_cert_pem'', jbytes (cr_ca c)), (''cert_pem'', jbytes (cr_cert c)),
          (''key_pem'', jbytes (cr_key c))]
       @ opt_member (cr_mtu c \<noteq> 0) ''mtu'' (jint (cr_mtu c))
       @ opt_member (cr_tun_name c \<noteq> []) ''tun_name'' (JStr (cr_tun_name c)))"

definition status_json :: "status_response \<Rightarrow> json" where
  "status_json s =
     JObj ([(''state'', JStr (st_state s))]
       @ opt_member (st_server s \<noteq> []) ''server'' (JStr (st_server s))
       @ opt_member (st_since s \<noteq> 0) ''since_unix'' (jint (st_since s))
       @ opt_member (st_last_error s \<noteq> []) ''last_error'' (JStr (st_last_error s)))"

fun request_of_json :: "json \<Rightarrow> ipc_request option" where
  "request_of_json (JObj ms) =
     (case (fold_field set_string ''command'' ms [], fold_field set_raw ''payload'' ms None,
            fold_field set_int ''version'' ms 0) of
        (Some c, Some p, Some v) \<Rightarrow> Some \<lparr>rq_command = c, rq_payload = p, rq_version = v\<rparr>
      | _ \<Rightarrow> None)"
| "request_of_json JNull = Some \<lparr>rq_command = [], rq_payload = None, rq_version = 0\<rparr>"
| "request_of_json _ = None"

fun response_of_json :: "json \<Rightarrow> ipc_response option" where
  "response_of_json (JObj ms) =
     (case (fold_field set_bool ''ok'' ms False, fold_field set_string ''error'' ms [],
            fold_field set_raw ''payload'' ms None) of
        (Some k, Some e, Some p) \<Rightarrow> Some \<lparr>rs_ok = k, rs_error = e, rs_payload = p\<rparr>
      | _ \<Rightarrow> None)"
| "response_of_json JNull = Some \<lparr>rs_ok = False, rs_error = [], rs_payload = None\<rparr>"
| "response_of_json _ = None"

fun ipc_addr_of_json :: "json \<Rightarrow> ipc_addr option" where
  "ipc_addr_of_json (JObj ms) =
     (case (fold_field set_string ''server'' ms [], fold_field set_string ''server_name'' ms [],
            fold_field set_string ''label'' ms []) of
        (Some s, Some n, Some l) \<Rightarrow> Some \<lparr>ia_server = s, ia_server_name = n, ia_label = l\<rparr>
      | _ \<Rightarrow> None)"
| "ipc_addr_of_json JNull = Some \<lparr>ia_server = [], ia_server_name = [], ia_label = []\<rparr>"
| "ipc_addr_of_json _ = None"

definition zero_connect_request :: connect_request where
  "zero_connect_request = \<lparr>cr_server = [], cr_server_name = [], cr_endpoints = [], cr_preferred = [],
     cr_ca = [], cr_cert = [], cr_key = [], cr_mtu = 0, cr_tun_name = []\<rparr>"

fun connect_request_of_json :: "json \<Rightarrow> connect_request option" where
  "connect_request_of_json (JObj ms) =
     (case (fold_field set_string ''server'' ms [], fold_field set_string ''server_name'' ms [],
            fold_field (set_list ipc_addr_of_json) ''endpoints'' ms [],
            fold_field set_string ''preferred_endpoint'' ms [],
            fold_field set_bytes ''ca_cert_pem'' ms [], fold_field set_bytes ''cert_pem'' ms [],
            fold_field set_bytes ''key_pem'' ms [], fold_field set_int ''mtu'' ms 0,
            fold_field set_string ''tun_name'' ms []) of
        (Some s, Some n, Some es, Some p, Some ca, Some c, Some k, Some m, Some t) \<Rightarrow>
          Some \<lparr>cr_server = s, cr_server_name = n, cr_endpoints = es, cr_preferred = p,
                cr_ca = ca, cr_cert = c, cr_key = k, cr_mtu = m, cr_tun_name = t\<rparr>
      | _ \<Rightarrow> None)"
| "connect_request_of_json JNull = Some zero_connect_request"
| "connect_request_of_json _ = None"

fun status_of_json :: "json \<Rightarrow> status_response option" where
  "status_of_json (JObj ms) =
     (case (fold_field set_string ''state'' ms [], fold_field set_string ''server'' ms [],
            fold_field set_int ''since_unix'' ms 0, fold_field set_string ''last_error'' ms []) of
        (Some a, Some b, Some c, Some d) \<Rightarrow>
          Some \<lparr>st_state = a, st_server = b, st_since = c, st_last_error = d\<rparr>
      | _ \<Rightarrow> None)"
| "status_of_json JNull = Some \<lparr>st_state = [], st_server = [], st_since = 0, st_last_error = []\<rparr>"
| "status_of_json _ = None"

lemma fold_field_raw_member:
  "fold_field f nm (raw_member k p) a =
     (case p of None \<Rightarrow> Some a | Some j \<Rightarrow> if equal_fold k nm then f j a else Some a)"
  by (simp add: raw_member_def split: option.splits)

lemma request_of_json_json: "int64_range (rq_version r) \<Longrightarrow> request_of_json (request_json r) = Some r"
  by (cases r) (auto simp: request_json_def field_simps_json fold_field_raw_member fold_eval jint_def
      set_raw_def split: option.splits)

lemma response_of_json_json: "response_of_json (response_json r) = Some r"
  by (cases r) (auto simp: response_json_def field_simps_json fold_field_raw_member fold_eval
      set_raw_def split: option.splits)

lemma ipc_addr_of_json_json: "ipc_addr_of_json (ipc_addr_json e) = Some e"
  by (cases e) (auto simp: ipc_addr_json_def field_simps_json fold_eval)

lemma connect_request_of_json_json:
  "int64_range (cr_mtu c) \<Longrightarrow> connect_request_of_json (connect_request_json c) = Some c"
  using opt_all_Some [of "map ipc_addr_json (cr_endpoints c)" ipc_addr_of_json]
  by (cases c) (auto simp: connect_request_json_def field_simps_json fold_eval jint_def comp_def
      ipc_addr_of_json_json opt_all_map_Some [of id, simplified])

lemma status_of_json_json: "int64_range (st_since s) \<Longrightarrow> status_of_json (status_json s) = Some s"
  by (cases s) (auto simp: status_json_def field_simps_json fold_eval jint_def)

lemma jint_wf [simp]: "json_wf (jint i)"
  by (auto simp: jint_def)

lemma connect_request_json_wf: "json_wf (connect_request_json c)"
  by (auto simp: connect_request_json_def ipc_addr_json_def opt_member_def list_all_iff)

lemma status_json_wf: "json_wf (status_json s)"
  by (auto simp: status_json_def opt_member_def)

lemma request_json_wf: "pred_option json_wf (rq_payload r) \<Longrightarrow> json_wf (request_json r)"
  by (auto simp: request_json_def raw_member_def opt_member_def split: option.splits)

lemma response_json_wf: "pred_option json_wf (rs_payload r) \<Longrightarrow> json_wf (response_json r)"
  by (auto simp: response_json_def raw_member_def opt_member_def split: option.splits)

section \<open>The wire\<close>

datatype ipc_err =
    IpcTooLarge nat
  | IpcFrame frame_err
  | IpcUnmarshal

definition write_json :: "'w writer \<Rightarrow> 'w \<Rightarrow> json \<Rightarrow> ipc_err option \<times> 'w" where
  "write_json wr w j =
     (let b = string_bytes (json_marshal j)
      in if length b > max_frame_size then (Some (IpcTooLarge (length b)), w)
         else (case write_frame wr w b of
                 (Some e, w1) \<Rightarrow> (Some (IpcFrame e), w1) | (None, w1) \<Rightarrow> (None, w1)))"

definition read_json :: "(json \<Rightarrow> 'a option) \<Rightarrow> reader \<Rightarrow> (ipc_err + 'a) \<times> reader" where
  "read_json dec r =
     (case read_frame r of
        (Inl e, r1) \<Rightarrow> (Inl (IpcFrame e), r1)
      | (Inr b, r1) \<Rightarrow>
          (case Option.bind (json_parse (bytes_string b)) dec of
             None \<Rightarrow> (Inl IpcUnmarshal, r1) | Some x \<Rightarrow> (Inr x, r1)))"

definition write_request :: "'w writer \<Rightarrow> 'w \<Rightarrow> ipc_request \<Rightarrow> ipc_err option \<times> 'w" where
  "write_request wr w r = write_json wr w (request_json r)"

definition read_request :: "reader \<Rightarrow> (ipc_err + ipc_request) \<times> reader" where
  "read_request = read_json request_of_json"

definition write_response :: "'w writer \<Rightarrow> 'w \<Rightarrow> ipc_response \<Rightarrow> ipc_err option \<times> 'w" where
  "write_response wr w r = write_json wr w (response_json r)"

definition read_response :: "reader \<Rightarrow> (ipc_err + ipc_response) \<times> reader" where
  "read_response = read_json response_of_json"

lemma write_read_json:
  assumes "write_json buffer_write [] j = (None, bs)" and "json_wf j" and "dec j = Some x"
  shows "read_json dec \<lparr>rd_data = bs @ rest, rd_end = e\<rparr> = (Inr x, \<lparr>rd_data = rest, rd_end = e\<rparr>)"
proof -
  from assms(1) have "frame_bytes (string_bytes (json_marshal j)) = Some bs"
    by (auto simp: write_json_def write_frame_buffer Let_def split: if_splits option.splits prod.splits)
  from frames.put_get [OF this, of rest e] assms(2,3) show ?thesis by (simp add: read_json_def)
qed

section \<open>Who may ask\<close>

record policy =
  allow_uid :: "nat list"
  allow_gid :: "nat list"

definition policy_allow :: "policy \<Rightarrow> nat \<Rightarrow> nat \<Rightarrow> bool" where
  "policy_allow p uid gid \<longleftrightarrow>
     uid = 0 \<or> list_ex (\<lambda>u. u = uid) (allow_uid p) \<or> list_ex (\<lambda>g. g = gid) (allow_gid p)"

section \<open>The server\<close>

record 's ipc_handler =
  h_connect :: "connect_request \<Rightarrow> 's \<Rightarrow> string option \<times> 's"
  h_disconnect :: "'s \<Rightarrow> string option \<times> 's"
  h_status :: "'s \<Rightarrow> status_response"

record ipc_texts =
  tx_decode :: "json option \<Rightarrow> string"
  tx_quote :: "string \<Rightarrow> string"

definition err_response :: "string \<Rightarrow> ipc_response" where
  "err_response e = \<lparr>rs_ok = False, rs_error = e, rs_payload = None\<rparr>"

definition ok_response :: ipc_response where
  "ok_response = \<lparr>rs_ok = True, rs_error = [], rs_payload = None\<rparr>"

definition dispatch :: "ipc_texts \<Rightarrow> 's ipc_handler \<Rightarrow> ipc_request \<Rightarrow> 's \<Rightarrow> ipc_response \<times> 's" where
  "dispatch T H rq s =
     (if rq_version rq > ipc_version
      then (err_response (''the vpn.io helper (IPC v'' @ int_str ipc_version @ '') is older than the app (v''
              @ int_str (rq_version rq) @ ''); update or restart the helper''), s)
      else if rq_command rq = cmd_connect then
        (case Option.bind (rq_payload rq) connect_request_of_json of
           None \<Rightarrow> (err_response (''decode connect payload: '' @ tx_decode T (rq_payload rq)), s)
         | Some cr \<Rightarrow>
             (case h_connect H cr s of
                (Some e, s1) \<Rightarrow> (err_response e, s1) | (None, s1) \<Rightarrow> (ok_response, s1)))
      else if rq_command rq = cmd_disconnect then
        (case h_disconnect H s of
           (Some e, s1) \<Rightarrow> (err_response e, s1) | (None, s1) \<Rightarrow> (ok_response, s1))
      else if rq_command rq = cmd_status then
        (ok_response\<lparr>rs_payload := Some (status_json (h_status H s))\<rparr>, s)
      else (err_response (''unknown command '' @ tx_quote T (rq_command rq)), s))"

text \<open>One connection: what the server writes back. A response that does not fit is not sent.\<close>

definition not_authorized :: ipc_response where
  "not_authorized = err_response ''not authorized to control the tunnel''"

definition ipc_handle ::
    "ipc_texts \<Rightarrow> 's ipc_handler \<Rightarrow> bool \<Rightarrow> reader \<Rightarrow> 's \<Rightarrow> bytes \<times> 's" where
  "ipc_handle T H authorized r s =
     (case fst (read_request r) of
        Inl e \<Rightarrow> ([], s)
      | Inr rq \<Rightarrow>
          (if \<not> authorized then (snd (write_response buffer_write [] not_authorized), s)
           else (case dispatch T H rq s of
                   (resp, s1) \<Rightarrow> (snd (write_response buffer_write [] resp), s1))))"

section \<open>The client\<close>

datatype ipc_do_err =
    DialControl string
  | SendRequest ipc_err
  | ReadResponse ipc_err

text \<open>\<open>peer\<close> takes the bytes of the request and gives what can be read back.\<close>

definition ipc_do ::
    "string option \<Rightarrow> (bytes \<Rightarrow> 's \<Rightarrow> reader \<times> 's) \<Rightarrow> ipc_request \<Rightarrow> 's
     \<Rightarrow> (ipc_do_err + ipc_response) \<times> 's" where
  "ipc_do dial peer rq s =
     (case dial of
        Some e \<Rightarrow> (Inl (DialControl e), s)
      | None \<Rightarrow>
          (case write_request buffer_write [] (rq\<lparr>rq_version := ipc_version\<rparr>) of
             (Some e, bs) \<Rightarrow> (Inl (SendRequest e), s)
           | (None, bs) \<Rightarrow>
               (case peer bs s of
                  (r, s1) \<Rightarrow>
                    (case fst (read_response r) of
                       Inl e \<Rightarrow> (Inl (ReadResponse e), s1) | Inr resp \<Rightarrow> (Inr resp, s1)))))"

definition daemon_peer ::
    "ipc_texts \<Rightarrow> 's ipc_handler \<Rightarrow> bool \<Rightarrow> bytes \<Rightarrow> 's \<Rightarrow> reader \<times> 's" where
  "daemon_peer T H authorized bs s =
     (case ipc_handle T H authorized \<lparr>rd_data = bs, rd_end = EOF\<rparr> s of
        (out, s1) \<Rightarrow> (\<lparr>rd_data = out, rd_end = EOF\<rparr>, s1))"

section \<open>The accept loop\<close>

definition millisecond :: int where "millisecond = 1000000"
definition max_accept_failures :: nat where "max_accept_failures = 10"

definition next_accept_delay :: "int \<Rightarrow> int" where
  "next_accept_delay d =
     (if d = 0 then 5 * millisecond
      else if d * 2 > 1000 * millisecond then 1000 * millisecond else d * 2)"

text \<open>What \<open>Accept\<close> returns: a connection, or an error, with whether the context is cancelled by then
  or while the loop waits.\<close>

datatype accept_event = Accepted | AcceptError bool bool

datatype serve_exit = ServeClean | ServeGaveUp nat | Serving

text \<open>The loop: the waits it makes, and how it ends.\<close>

fun serve :: "accept_event list \<Rightarrow> nat \<Rightarrow> int \<Rightarrow> int list \<times> serve_exit" where
  "serve [] fails delay = ([], Serving)"
| "serve (Accepted # es) fails delay = serve es 0 0"
| "serve (AcceptError cancelled cancelled_waiting # es) fails delay =
     (if cancelled then ([], ServeClean)
      else if fails + 1 \<ge> max_accept_failures then ([], ServeGaveUp (fails + 1))
      else
        (let d = next_accept_delay delay
         in if cancelled_waiting then ([d], ServeClean)
            else (case serve es (fails + 1) d of (ds, x) \<Rightarrow> (d # ds, x))))"

section \<open>Properties\<close>

lemma write_json_fits:
  "length (json_marshal j) \<le> max_frame_size \<Longrightarrow> \<exists>bs. write_json buffer_write [] j = (None, bs)"
  by (simp add: write_json_def write_frame_buffer frame_bytes_def)

lemma dispatch_payload_wf: "dispatch T H rq s = (resp, s') \<Longrightarrow> pred_option json_wf (rs_payload resp)"
  by (auto simp: dispatch_def err_response_def ok_response_def status_json_wf
      split: if_splits option.splits prod.splits)

lemma ipc_do_dispatch:
  assumes "pred_option json_wf (rq_payload rq)"
    and "length (json_marshal (request_json (rq\<lparr>rq_version := ipc_version\<rparr>))) \<le> max_frame_size"
    and "dispatch T H (rq\<lparr>rq_version := ipc_version\<rparr>) s = (resp, s')"
    and "length (json_marshal (response_json resp)) \<le> max_frame_size"
  shows "ipc_do None (daemon_peer T H True) rq s = (Inr resp, s')"
proof -
  let ?rq = "rq\<lparr>rq_version := ipc_version\<rparr>"
  from write_json_fits [OF assms(2)] obtain bs where bs: "write_json buffer_write [] (request_json ?rq) = (None, bs)" ..
  from write_json_fits [OF assms(4)] obtain out where out: "write_json buffer_write [] (response_json resp) = (None, out)" ..
  have "read_request \<lparr>rd_data = bs @ [], rd_end = EOF\<rparr> = (Inr ?rq, \<lparr>rd_data = [], rd_end = EOF\<rparr>)"
    unfolding read_request_def
    by (rule write_read_json [OF bs]) (use assms(1) in \<open>auto intro!: request_json_wf request_of_json_json
        simp: ipc_version_def int64_range_def\<close>)
  moreover have "read_response \<lparr>rd_data = out @ [], rd_end = EOF\<rparr> = (Inr resp, \<lparr>rd_data = [], rd_end = EOF\<rparr>)"
    unfolding read_response_def
    by (rule write_read_json [OF out]) (simp_all add: response_json_wf dispatch_payload_wf [OF assms(3)]
        response_of_json_json)
  ultimately show ?thesis using bs out assms(3)
    by (simp add: ipc_do_def daemon_peer_def ipc_handle_def write_request_def write_response_def)
qed

text \<open>The control connection is transparent: when request and response fit into a frame, what
  \<open>ipc.Do\<close> returns, and what becomes of the daemon's state, is what the daemon's dispatcher does on
  the very request, stamped with the version: two JSON round trips, base64 credentials and the
  framing included.\<close>

theorem ipc_transparent:
  assumes "pred_option json_wf (rq_payload rq)"
    and "length (json_marshal (request_json (rq\<lparr>rq_version := ipc_version\<rparr>))) \<le> max_frame_size"
    and "dispatch T H (rq\<lparr>rq_version := ipc_version\<rparr>) s = (resp, s')"
    and "length (json_marshal (response_json resp)) \<le> max_frame_size"
  shows "ipc_do None (daemon_peer T H True) rq s = (Inr resp, s')"
  using assms by (rule ipc_do_dispatch)

definition sample_handler :: "nat ipc_handler" where
  "sample_handler =
     \<lparr>h_connect = (\<lambda>cr n. (if cr_server cr = [] then Some ''server address required'' else None, n + 1)),
      h_disconnect = (\<lambda>n. (None, 0)),
      h_status = (\<lambda>n. \<lparr>st_state = ''connected'', st_server = ''a:1'', st_since = 7, st_last_error = []\<rparr>)\<rparr>"

definition sample_texts :: ipc_texts where
  "sample_texts = \<lparr>tx_decode = (\<lambda>p. ''unexpected end''), tx_quote = (\<lambda>s. s)\<rparr>"

theorem ipc_transparent_witness:
  "ipc_do None (daemon_peer sample_texts sample_handler True)
      \<lparr>rq_command = cmd_status, rq_payload = None, rq_version = 0\<rparr> 3
    = (Inr \<lparr>rs_ok = True, rs_error = [], rs_payload = Some (status_json
        \<lparr>st_state = ''connected'', st_server = ''a:1'', st_since = 7, st_last_error = []\<rparr>)\<rparr>, 3)"
proof (rule ipc_transparent)
  have j: "json_marshal (jint n) = int_str n" for n
    by (simp add: json_marshal_def jint_def)
  show "length (json_marshal (request_json (\<lparr>rq_command = cmd_status, rq_payload = None,
      rq_version = 0\<rparr>\<lparr>rq_version := ipc_version\<rparr>))) \<le> max_frame_size"
    by (simp add: request_json_def raw_member_def opt_member_def ipc_version_def cmd_status_def
        json_marshal_def jint_def json_string_def esc_char_def max_frame_size_def int_str_def nat_str.simps)
  show "length (json_marshal (response_json \<lparr>rs_ok = True, rs_error = [], rs_payload = Some (status_json
        \<lparr>st_state = ''connected'', st_server = ''a:1'', st_since = 7, st_last_error = []\<rparr>)\<rparr>)) \<le> max_frame_size"
    by (simp add: response_json_def status_json_def raw_member_def opt_member_def
        json_marshal_def jint_def json_string_def esc_char_def max_frame_size_def int_str_def nat_str.simps)
qed (simp_all add: dispatch_def ipc_version_def cmd_status_def cmd_connect_def cmd_disconnect_def
    sample_handler_def ok_response_def)

text \<open>Nobody but an authorised peer reaches the daemon's state.\<close>

lemma ipc_unauthorized: "snd (ipc_handle T H False r s) = s"
  by (simp add: ipc_handle_def split: sum.splits)

lemma next_accept_delay_bounds:
  "d = 0 \<or> 5 * millisecond \<le> d \<and> d \<le> 1000 * millisecond \<Longrightarrow>
   5 * millisecond \<le> next_accept_delay d \<and> next_accept_delay d \<le> 1000 * millisecond"
  by (auto simp: next_accept_delay_def millisecond_def)

lemma serve_waits:
  "d = 0 \<or> 5 * millisecond \<le> d \<and> d \<le> 1000 * millisecond \<Longrightarrow>
   \<forall>w \<in> set (fst (serve es n d)). 5 * millisecond \<le> w \<and> w \<le> 1000 * millisecond"
proof (induction es n d rule: serve.induct)
  case (3 c cw es n d)
  note nb = next_accept_delay_bounds [OF 3(2)]
  show ?case
  proof (cases "\<not> c \<and> \<not> n + 1 \<ge> max_accept_failures \<and> \<not> cw")
    case True
    with 3(1) nb have "\<forall>w \<in> set (fst (serve es (n + 1) (next_accept_delay d))).
        5 * millisecond \<le> w \<and> w \<le> 1000 * millisecond" by auto
    with True nb show ?thesis by (auto simp: Let_def split: prod.splits)
  next
    case False
    with nb show ?thesis by (auto simp: Let_def)
  qed
qed simp_all

lemma serve_gave_up:
  "snd (serve es n d) = ServeGaveUp k \<Longrightarrow> n < max_accept_failures \<Longrightarrow>
   k = max_accept_failures \<and> (\<exists>pre run post. es = pre @ run @ post \<and> Accepted \<notin> set run
     \<and> (length run = max_accept_failures \<or> pre = [] \<and> length run + n = max_accept_failures))"
proof (induction es n d rule: serve.induct)
  case (2 es n d)
  then have "k = max_accept_failures" and "\<exists>pre run post. es = pre @ run @ post \<and> Accepted \<notin> set run
     \<and> (length run = max_accept_failures \<or> pre = [] \<and> length run + 0 = max_accept_failures)"
    by (simp_all add: max_accept_failures_def)
  then show ?case by (metis append_Cons add_0_right)
next
  case (3 c cw es n d)
  show ?case
  proof (cases "n + 1 \<ge> max_accept_failures")
    case True
    with 3(2,3) have "k = max_accept_failures" and "length [AcceptError c cw] + n = max_accept_failures"
      by (auto split: if_splits)
    then show ?thesis by (intro conjI exI [of _ "[]"] exI [of _ "[AcceptError c cw]"] exI [of _ es]) auto
  next
    case False
    with 3(2) have "\<not> c" "\<not> cw" "snd (serve es (n + 1) (next_accept_delay d)) = ServeGaveUp k"
      by (auto simp: Let_def split: if_splits prod.splits)
    with 3(1) False have k: "k = max_accept_failures" and "\<exists>pre run post. es = pre @ run @ post \<and> Accepted \<notin> set run
     \<and> (length run = max_accept_failures \<or> pre = [] \<and> length run + (n + 1) = max_accept_failures)"
      by simp_all
    then obtain pre run post where es: "es = pre @ run @ post" "Accepted \<notin> set run"
      and l: "length run = max_accept_failures \<or> pre = [] \<and> length run + (n + 1) = max_accept_failures"
      by blast
    show ?thesis
    proof (cases "length run = max_accept_failures")
      case True
      with es k show ?thesis by (intro conjI exI [of _ "AcceptError c cw # pre"] exI [of _ run] exI [of _ post]) auto
    next
      case False
      with l have "pre = []" "length (AcceptError c cw # run) + n = max_accept_failures" by auto
      with es k show ?thesis
        by (intro conjI exI [of _ "[]"] exI [of _ "AcceptError c cw # run"] exI [of _ post]) auto
    qed
  qed
qed simp

text \<open>The control plane survives its listener: the accept loop gives up only after ten errors in a
  row with no accepted connection in between, and it waits between 5 milliseconds and one second
  after every error before.\<close>

theorem serve_persistent:
  assumes "snd (serve es 0 0) = ServeGaveUp k"
  shows "k = max_accept_failures
    \<and> (\<exists>pre run post. es = pre @ run @ post \<and> length run = max_accept_failures \<and> Accepted \<notin> set run)
    \<and> list_all (\<lambda>w. 5 * millisecond \<le> w \<and> w \<le> 1000 * millisecond) (fst (serve es 0 0))"
proof -
  have "(0 :: nat) < max_accept_failures" by (simp add: max_accept_failures_def)
  from serve_gave_up [OF assms this] have "k = max_accept_failures"
    "\<exists>pre run post. es = pre @ run @ post \<and> length run = max_accept_failures \<and> Accepted \<notin> set run" by auto
  with serve_waits [of 0 es 0] show ?thesis by (simp add: list_all_iff)
qed

theorem serve_persistent_witness:
  "snd (serve (Accepted # replicate 10 (AcceptError False False)) 0 0) = ServeGaveUp 10
   \<and> fst (serve (Accepted # replicate 10 (AcceptError False False)) 0 0)
     = map (\<lambda>n. n * millisecond) [5, 10, 20, 40, 80, 160, 320, 640, 1000]
   \<and> list_all (\<lambda>w. 5 * millisecond \<le> w \<and> w \<le> 1000 * millisecond)
       (fst (serve (Accepted # replicate 10 (AcceptError False False)) 0 0))"
proof -
  have e: "serve (Accepted # replicate 10 (AcceptError False False)) 0 0 =
      (map (\<lambda>n. n * millisecond) [5, 10, 20, 40, 80, 160, 320, 640, 1000], ServeGaveUp 10)"
    by (simp add: eval_nat_numeral max_accept_failures_def next_accept_delay_def millisecond_def Let_def)
  with serve_persistent [of "Accepted # replicate 10 (AcceptError False False)" 10] show ?thesis by simp
qed

end
