(* ===== verification/Helper.thy ===== *)
theory Helper
  imports Client Ipc Files
begin

text \<open>
  The tunnel controller of the helper daemon (\<open>src/internal/helper/controller.go\<close>): it owns one tunnel
  session at a time. Every method and every callback runs under its mutex, so each is a function of
  the controller; the goroutine of a session interleaves with them as events. Sessions are numbered
  in the order they are started, and the controller's state carries what happens outside it: where
  the goroutine of each session is, which contexts are cancelled, which \<open>done\<close> channels are closed
  and which TUN devices are open.
\<close>

section \<open>State\<close>

definition default_mtu :: int where "default_mtu = 1380"

datatype tunnel_state = Disconnected | Connecting | Connected | Reconnecting | TunnelFailed

fun state_text :: "tunnel_state \<Rightarrow> string" where
  "state_text Disconnected = ''disconnected''"
| "state_text Connecting = ''connecting''"
| "state_text Connected = ''connected''"
| "state_text Reconnecting = ''reconnecting''"
| "state_text TunnelFailed = ''failed''"

datatype session_phase = NotStarted | EngineUp | EngineDown "string option" | SessionOver

record controller =
  ct_active :: bool
  ct_cancel :: "nat option"
  ct_done :: "nat option"
  ct_state :: tunnel_state
  ct_server :: string
  ct_since :: int
  ct_last_err :: string
  ct_sessions :: nat
  ct_phase :: "nat \<Rightarrow> session_phase"
  ct_cancelled :: "nat set"
  ct_closed :: "nat set"
  ct_devices :: "nat set"

definition new_controller :: controller where
  "new_controller =
     \<lparr>ct_active = False, ct_cancel = None, ct_done = None, ct_state = Disconnected, ct_server = [],
      ct_since = zero_time, ct_last_err = [], ct_sessions = 0, ct_phase = (\<lambda>n. NotStarted),
      ct_cancelled = {}, ct_closed = {}, ct_devices = {}\<rparr>"

definition set_state :: "int \<Rightarrow> tunnel_state \<Rightarrow> controller \<Rightarrow> controller" where
  "set_state now s c = (if ct_state c = s then c else c\<lparr>ct_state := s, ct_since := now\<rparr>)"

section \<open>Connect\<close>

definition engine_endpoint :: "ipc_addr \<Rightarrow> endpoint" where
  "engine_endpoint e =
     \<lparr>ep_server = ia_server e, ep_server_name = ia_server_name e, ep_label = ia_label e\<rparr>"

definition engine_config :: "connect_request \<Rightarrow> client_config" where
  "engine_config r =
     \<lparr>cc_server = cr_server r, cc_server_name = cr_server_name r,
      cc_endpoints = map engine_endpoint (cr_endpoints r), cc_preferred = cr_preferred r,
      cc_ca_file = [], cc_cert_file = [], cc_key_file = [],
      cc_ca_pem = cr_ca r, cc_cert_pem = cr_cert r, cc_key_pem = cr_key r,
      cc_keepalive = 0, cc_reconnect_min = 0, cc_reconnect_max = 0, cc_handshake_timeout = 0,
      cc_allow_insecure_leak = False\<rparr>"

datatype 'e helper_err =
    AlreadyConnected
  | ServerRequired
  | CredentialsRequired
  | OpenTunFailed string
  | InitClient "'e client_new_err"

text \<open>\<open>open_tun\<close> is \<open>tun.Open\<close>; \<open>load\<close> is what \<open>client.New\<close> builds its TLS configuration with.\<close>

definition helper_connect ::
    "(client_config \<Rightarrow> bool \<Rightarrow> 'e + 't) \<Rightarrow> (string \<Rightarrow> int \<Rightarrow> string option) \<Rightarrow> int \<Rightarrow> connect_request
     \<Rightarrow> controller \<Rightarrow> ('e helper_err + client_config \<times> 't \<times> ring) \<times> controller" where
  "helper_connect load open_tun now r c =
     (if ct_active c then (Inl AlreadyConnected, c)
      else if cr_server r = [] then (Inl ServerRequired, c)
      else if cr_ca r = [] \<or> cr_cert r = [] \<or> cr_key r = [] then (Inl CredentialsRequired, c)
      else
        (case open_tun (cr_tun_name r) (if cr_mtu r \<le> 0 then default_mtu else cr_mtu r) of
           Some e \<Rightarrow> (Inl (OpenTunFailed e), c)
         | None \<Rightarrow>
             (case client_new load (engine_config r) True of
                Inl e \<Rightarrow> (Inl (InitClient e), c)
              | Inr eng \<Rightarrow>
                  (let n = ct_sessions c
                   in (Inr eng,
                       set_state now Connecting
                         (c\<lparr>ct_active := True, ct_cancel := Some n, ct_done := Some n,
                            ct_server := cr_server r, ct_last_err := [], ct_sessions := n + 1,
                            ct_phase := (ct_phase c)(n := EngineUp),
                            ct_devices := insert n (ct_devices c)\<rparr>))))))"

section \<open>The session's goroutine and the other methods\<close>

text \<open>The engine's callbacks.\<close>

datatype engine_state = StConnecting | StConnected | StReconnecting

fun controller_state :: "engine_state \<Rightarrow> tunnel_state" where
  "controller_state StConnecting = Connecting"
| "controller_state StConnected = Connected"
| "controller_state StReconnecting = Reconnecting"

definition on_engine_state :: "int \<Rightarrow> engine_state \<Rightarrow> controller \<Rightarrow> controller" where
  "on_engine_state now s c = (if \<not> ct_active c then c else set_state now (controller_state s) c)"

definition on_engine_endpoint :: "string \<Rightarrow> controller \<Rightarrow> controller" where
  "on_engine_endpoint server c = c\<lparr>ct_server := server\<rparr>"

text \<open>\<open>run\<close> after the engine returned: the device is closed before the lock is taken.\<close>

definition session_end :: "int \<Rightarrow> nat \<Rightarrow> string option \<Rightarrow> controller \<Rightarrow> controller" where
  "session_end now n err c =
     (let c1 = c\<lparr>ct_active := False, ct_cancel := None, ct_done := None\<rparr>;
          c2 = (case err of
                  Some e \<Rightarrow>
                    (if n \<notin> ct_cancelled c then set_state now TunnelFailed (c1\<lparr>ct_last_err := e\<rparr>)
                     else set_state now Disconnected c1)
                | None \<Rightarrow> set_state now Disconnected c1)
      in c2\<lparr>ct_closed := insert n (ct_closed c2), ct_phase := (ct_phase c2)(n := SessionOver)\<rparr>)"

text \<open>\<open>Disconnect\<close> cancels the session it finds and then waits for that session's \<open>done\<close> channel: the
  first part, with the session to wait for.\<close>

definition helper_disconnect :: "controller \<Rightarrow> nat option \<times> controller" where
  "helper_disconnect c =
     (case ct_cancel c of
        None \<Rightarrow> (None, c)
      | Some n \<Rightarrow> (ct_done c, c\<lparr>ct_cancelled := insert n (ct_cancelled c)\<rparr>))"

definition helper_status :: "controller \<Rightarrow> status_response" where
  "helper_status c =
     \<lparr>st_state = state_text (ct_state c), st_server = ct_server c,
      st_since = (if ct_since c = zero_time then 0 else ct_since c div 1000000000),
      st_last_error = ct_last_err c\<rparr>"

section \<open>The controller's life\<close>

datatype ctl_event =
    ConnectCall connect_request int
  | DisconnectCall
  | EngineState nat engine_state int
  | EngineEndpoint nat string
  | EngineReturns nat "string option"
  | SessionEnds nat int

text \<open>An event of a session can happen only where its goroutine is.\<close>

fun ctl_step ::
    "(client_config \<Rightarrow> bool \<Rightarrow> 'e + 't) \<Rightarrow> (string \<Rightarrow> int \<Rightarrow> string option) \<Rightarrow> ctl_event
     \<Rightarrow> controller \<Rightarrow> controller option" where
  "ctl_step load open_tun (ConnectCall r now) c = Some (snd (helper_connect load open_tun now r c))"
| "ctl_step load open_tun DisconnectCall c = Some (snd (helper_disconnect c))"
| "ctl_step load open_tun (EngineState n s now) c =
     (if ct_phase c n = EngineUp then Some (on_engine_state now s c) else None)"
| "ctl_step load open_tun (EngineEndpoint n server) c =
     (if ct_phase c n = EngineUp then Some (on_engine_endpoint server c) else None)"
| "ctl_step load open_tun (EngineReturns n err) c =
     (if ct_phase c n = EngineUp
      then Some (c\<lparr>ct_phase := (ct_phase c)(n := EngineDown err), ct_devices := ct_devices c - {n}\<rparr>)
      else None)"
| "ctl_step load open_tun (SessionEnds n now) c =
     (case ct_phase c n of EngineDown err \<Rightarrow> Some (session_end now n err c) | _ \<Rightarrow> None)"

fun ctl_run ::
    "(client_config \<Rightarrow> bool \<Rightarrow> 'e + 't) \<Rightarrow> (string \<Rightarrow> int \<Rightarrow> string option) \<Rightarrow> ctl_event list
     \<Rightarrow> controller \<Rightarrow> controller option" where
  "ctl_run load open_tun [] c = Some c"
| "ctl_run load open_tun (e # es) c =
     (case ctl_step load open_tun e c of None \<Rightarrow> None | Some c1 \<Rightarrow> ctl_run load open_tun es c1)"

section \<open>Invariant\<close>

fun is_down :: "session_phase \<Rightarrow> bool" where
  "is_down (EngineDown e) = True"
| "is_down p = False"

definition running_state :: "tunnel_state \<Rightarrow> bool" where
  "running_state s \<longleftrightarrow> s \<in> {Connecting, Connected, Reconnecting}"

definition ctl_inv :: "controller \<Rightarrow> bool" where
  "ctl_inv c \<longleftrightarrow>
     ct_done c = ct_cancel c \<and> (ct_active c \<longleftrightarrow> ct_cancel c \<noteq> None)
     \<and> (ct_active c \<longleftrightarrow> running_state (ct_state c))
     \<and> (\<forall>n. ct_phase c n = EngineUp \<or> is_down (ct_phase c n) \<longleftrightarrow> ct_cancel c = Some n)
     \<and> (\<forall>n. ct_phase c n = SessionOver \<longleftrightarrow> n \<in> ct_closed c)
     \<and> (\<forall>n. ct_phase c n = NotStarted \<longleftrightarrow> n \<ge> ct_sessions c)
     \<and> ct_devices c = {n. ct_phase c n = EngineUp}"

lemma set_state_simps [simp]:
  "ct_active (set_state now s c) = ct_active c" "ct_cancel (set_state now s c) = ct_cancel c"
  "ct_done (set_state now s c) = ct_done c" "ct_state (set_state now s c) = s"
  "ct_phase (set_state now s c) = ct_phase c" "ct_closed (set_state now s c) = ct_closed c"
  "ct_sessions (set_state now s c) = ct_sessions c" "ct_devices (set_state now s c) = ct_devices c"
  "ct_cancelled (set_state now s c) = ct_cancelled c" "ct_last_err (set_state now s c) = ct_last_err c"
  "ct_server (set_state now s c) = ct_server c"
  by (simp_all add: set_state_def)

lemma running_state_simps [simp]:
  "running_state Connecting" "running_state Connected" "running_state Reconnecting"
  "\<not> running_state Disconnected" "\<not> running_state TunnelFailed" "running_state (controller_state s)"
  by (cases s; simp add: running_state_def)+

lemma helper_connect_cases:
  assumes "helper_connect load open_tun now r c = (res, c')"
  obtains (refused) e where "res = Inl e" "c' = c"
  | (started) eng where "res = Inr eng" "\<not> ct_active c" "client_new load (engine_config r) True = Inr eng"
      "c' = set_state now Connecting
         (c\<lparr>ct_active := True, ct_cancel := Some (ct_sessions c), ct_done := Some (ct_sessions c),
            ct_server := cr_server r, ct_last_err := [], ct_sessions := ct_sessions c + 1,
            ct_phase := (ct_phase c)(ct_sessions c := EngineUp),
            ct_devices := insert (ct_sessions c) (ct_devices c)\<rparr>)"
proof (cases "res")
  case (Inl e)
  with assms have "c' = c"
    by (simp add: helper_connect_def Let_def split: if_splits option.splits sum.splits)
  with Inl show ?thesis by (rule refused)
next
  case (Inr eng)
  show ?thesis
  proof (rule started)
    show "res = Inr eng" by (rule Inr)
    show "\<not> ct_active c" "client_new load (engine_config r) True = Inr eng"
      using assms Inr by (simp_all add: helper_connect_def Let_def split: if_splits option.splits sum.splits)
    show "c' = set_state now Connecting
         (c\<lparr>ct_active := True, ct_cancel := Some (ct_sessions c), ct_done := Some (ct_sessions c),
            ct_server := cr_server r, ct_last_err := [], ct_sessions := ct_sessions c + 1,
            ct_phase := (ct_phase c)(ct_sessions c := EngineUp),
            ct_devices := insert (ct_sessions c) (ct_devices c)\<rparr>)"
      using assms Inr by (simp add: helper_connect_def Let_def split: if_splits option.splits sum.splits)
  qed
qed

lemma ctl_inv_connect:
  assumes "ctl_inv c" and "helper_connect load open_tun now r c = (res, c')"
  shows "ctl_inv c'"
  using assms(2)
proof (cases rule: helper_connect_cases)
  case (started eng)
  with assms(1) have "ct_phase c (ct_sessions c) = NotStarted" and "ct_cancel c = None"
    by (auto simp: ctl_inv_def)
  moreover from this(1) assms(1) have "ct_sessions c \<notin> ct_closed c"
    unfolding ctl_inv_def by (metis session_phase.distinct(5))
  ultimately show ?thesis using assms(1) started(4) by (auto simp: ctl_inv_def)
qed (use assms(1) in simp)

lemma ctl_inv_session_end:
  assumes "ctl_inv c" and "ct_phase c n = EngineDown err"
  shows "ctl_inv (session_end now n err c)"
proof -
  from assms have "is_down (ct_phase c n)" by simp
  with assms(1) have c: "ct_cancel c = Some n" unfolding ctl_inv_def by blast
  with assms have n: "n < ct_sessions c" unfolding ctl_inv_def by (metis not_le session_phase.distinct(3))
  have up: "ct_phase c m = EngineUp \<or> is_down (ct_phase c m) \<longleftrightarrow> m = n" for m
    using assms(1) c unfolding ctl_inv_def by auto
  show ?thesis
    using assms c n up
    by (auto simp: ctl_inv_def session_end_def Let_def split: option.splits if_splits)
qed

lemma ctl_inv_step:
  assumes "ctl_inv c" and "ctl_step load open_tun e c = Some c'"
  shows "ctl_inv c'"
proof (cases e)
  case (ConnectCall r now)
  then show ?thesis using assms ctl_inv_connect by (metis ctl_step.simps(1) option.inject prod.collapse)
next
  case DisconnectCall
  with assms show ?thesis by (auto simp: helper_disconnect_def ctl_inv_def split: option.splits)
next
  case (EngineState n s now)
  with assms have up: "ct_phase c n = EngineUp" by (simp split: if_splits)
  with assms(1) have "ct_cancel c = Some n" unfolding ctl_inv_def by blast
  with assms(1) have "ct_active c" unfolding ctl_inv_def by simp
  with assms(2) EngineState up have "c' = set_state now (controller_state s) c"
    by (simp add: on_engine_state_def)
  with assms(1) \<open>ct_active c\<close> show ?thesis by (simp add: ctl_inv_def)
next
  case (EngineEndpoint n server)
  with assms show ?thesis by (auto simp: on_engine_endpoint_def ctl_inv_def split: if_splits)
next
  case (EngineReturns n err)
  with assms have up: "ct_phase c n = EngineUp"
    and c': "c' = c\<lparr>ct_phase := (ct_phase c)(n := EngineDown err), ct_devices := ct_devices c - {n}\<rparr>"
    by (simp_all split: if_splits)
  have "ct_cancel c = Some n" "ct_sessions c > n" "n \<notin> ct_closed c"
    using assms(1) up unfolding ctl_inv_def
    by (metis, metis not_le session_phase.distinct(1), metis session_phase.distinct(9))
  with assms(1) up show ?thesis unfolding c' by (auto simp: ctl_inv_def)
next
  case (SessionEnds n now)
  with assms show ?thesis by (auto intro: ctl_inv_session_end split: session_phase.splits)
qed

lemma ctl_inv_run: "ctl_run load open_tun es c = Some c' \<Longrightarrow> ctl_inv c \<Longrightarrow> ctl_inv c'"
  by (induction es arbitrary: c) (auto split: option.splits dest: ctl_inv_step)

lemma ctl_inv_new: "ctl_inv new_controller"
  by (simp add: ctl_inv_def new_controller_def)

section \<open>Properties\<close>

text \<open>(C32) One tunnel at a time: however connects, disconnects, callbacks and the ends of sessions
  interleave, at most one TUN device is open, none is while the controller reports itself
  disconnected or failed, and it reports one of these exactly when no session is running.\<close>

theorem controller_one_tunnel:
  assumes "ctl_run load open_tun es new_controller = Some c"
  shows "card (ct_devices c) \<le> 1
    \<and> (ct_state c \<in> {Disconnected, TunnelFailed} \<longleftrightarrow> \<not> ct_active c)
    \<and> (if ct_active c then {n. ct_phase c n = EngineUp \<or> is_down (ct_phase c n)} = {the (ct_cancel c)}
       else ct_devices c = {} \<and> ct_closed c = {..<ct_sessions c})"
proof -
  have inv: "ctl_inv c" using ctl_inv_run [OF assms ctl_inv_new] .
  then have dev: "ct_devices c = {n. ct_phase c n = EngineUp}"
    and up: "\<And>n. ct_phase c n = EngineUp \<or> is_down (ct_phase c n) \<longleftrightarrow> ct_cancel c = Some n"
    and act: "ct_active c \<longleftrightarrow> ct_cancel c \<noteq> None" "ct_active c \<longleftrightarrow> running_state (ct_state c)"
    unfolding ctl_inv_def by (blast, blast, blast, blast)
  have "ct_devices c \<subseteq> (case ct_cancel c of None \<Rightarrow> {} | Some n \<Rightarrow> {n})"
    unfolding dev using up by (fastforce split: option.splits)
  then have "card (ct_devices c) \<le> 1"
    by (auto split: option.splits dest: card_mono [rotated])
  moreover have "ct_state c \<in> {Disconnected, TunnelFailed} \<longleftrightarrow> \<not> ct_active c"
    unfolding act(2) running_state_def by (cases "ct_state c") simp_all
  moreover have "ct_closed c = {..<ct_sessions c}" if "\<not> ct_active c"
  proof -
    have "ct_phase c n = SessionOver \<longleftrightarrow> n < ct_sessions c" for n
    proof -
      have "ct_phase c n = NotStarted \<longleftrightarrow> n \<ge> ct_sessions c" using inv unfolding ctl_inv_def by blast
      moreover have "ct_phase c n \<noteq> EngineUp \<and> \<not> is_down (ct_phase c n)" using up [of n] that act(1) by auto
      ultimately show ?thesis by (cases "ct_phase c n") auto
    qed
    moreover have "ct_phase c n = SessionOver \<longleftrightarrow> n \<in> ct_closed c" for n
      using inv unfolding ctl_inv_def by blast
    ultimately show ?thesis by auto
  qed
  moreover have "ct_devices c = {}" if "\<not> ct_active c"
    using up that act(1) unfolding dev by (metis (lifting) Collect_empty_eq option.distinct(1))
  moreover have "{n. ct_phase c n = EngineUp \<or> is_down (ct_phase c n)} = {the (ct_cancel c)}" if "ct_active c"
  proof -
    from that act(1) obtain n where "ct_cancel c = Some n" by blast
    then show ?thesis unfolding up by simp
  qed
  ultimately show ?thesis by simp
qed

definition sample_request :: connect_request where
  "sample_request = \<lparr>cr_server = ''a.io:1'', cr_server_name = [], cr_endpoints = [], cr_preferred = [],
     cr_ca = ''A'', cr_cert = ''C'', cr_key = ''K'', cr_mtu = 0, cr_tun_name = []\<rparr>"

definition load_ok :: "client_config \<Rightarrow> bool \<Rightarrow> string + unit" where
  "load_ok cfg inline = Inr ()"

definition open_ok :: "string \<Rightarrow> int \<Rightarrow> string option" where
  "open_ok nm mtu = None"

lemma sample_engine: "\<exists>eng. client_new load_ok (engine_config sample_request) True = Inr eng"
proof -
  have "split_host_port ''a.io:1'' = Some (''a.io'', ''1'')" by code_simp
  then show ?thesis
    by (simp add: client_new_def engine_config_def sample_request_def normalize_endpoints_def
        normalize_endpoint_def btoi_def load_ok_def Let_def)
qed

lemma sample_session:
  "\<exists>c. ctl_run load_ok open_ok [ConnectCall sample_request 5, EngineState 0 StConnected 6, DisconnectCall]
      new_controller = Some c
    \<and> ct_active c \<and> ct_devices c = {0} \<and> ct_cancelled c = {0} \<and> ct_phase c 0 = EngineUp"
  using sample_engine
  by (auto simp: helper_connect_def sample_request_def open_ok_def new_controller_def Let_def
      set_state_def on_engine_state_def helper_disconnect_def)

theorem controller_one_tunnel_witness:
  "\<exists>c. ctl_run load_ok open_ok [ConnectCall sample_request 5, EngineState 0 StConnected 6, DisconnectCall]
      new_controller = Some c \<and> card (ct_devices c) \<le> 1 \<and> ct_state c \<notin> {Disconnected, TunnelFailed}"
  using sample_session controller_one_tunnel
    [of load_ok open_ok "[ConnectCall sample_request 5, EngineState 0 StConnected 6, DisconnectCall]"]
  by blast

text \<open>\<open>Disconnect\<close> ends what it found: the channel it waits on is that of the running session; when
  the cancelled engine returns, with whatever error, the rest of the session's goroutine can run at
  once, closes that channel and leaves the controller disconnected, never failed, with no device
  open and with the last error it had.\<close>

theorem disconnect_completes:
  assumes "ctl_run load open_tun es new_controller = Some c" and "helper_disconnect c = (Some n, c1)"
    and "ctl_run load open_tun [EngineReturns n err, SessionEnds n now] c1 = Some c2"
  shows "ct_active c \<and> n \<in> ct_closed c2 \<and> ct_state c2 = Disconnected \<and> ct_devices c2 = {}
    \<and> \<not> ct_active c2 \<and> ct_last_err c2 = ct_last_err c \<and> helper_disconnect c2 = (None, c2)"
proof -
  have inv: "ctl_inv c" using ctl_inv_run [OF assms(1) ctl_inv_new] .
  with assms(2) have n: "ct_cancel c = Some n" "ct_active c"
    and c1: "c1 = c\<lparr>ct_cancelled := insert n (ct_cancelled c)\<rparr>"
    by (auto simp: helper_disconnect_def ctl_inv_def split: option.splits)
  from assms(3) have up: "ct_phase c1 n = EngineUp" by (auto split: if_splits)
  with assms(3) have c2: "c2 = session_end now n err
      (c1\<lparr>ct_phase := (ct_phase c1)(n := EngineDown err), ct_devices := ct_devices c1 - {n}\<rparr>)" by simp
  have "ct_devices c \<subseteq> {n}" using inv n unfolding ctl_inv_def by auto
  with n c1 c2 show ?thesis
    by (cases err) (auto simp: session_end_def helper_disconnect_def Let_def)
qed

theorem disconnect_completes_witness:
  "\<exists>c c1 c2. ctl_run load_ok open_ok [ConnectCall sample_request 5, EngineState 0 StConnected 6]
      new_controller = Some c \<and> helper_disconnect c = (Some 0, c1)
    \<and> ctl_run load_ok open_ok [EngineReturns 0 (Some ''closed''), SessionEnds 0 9] c1 = Some c2
    \<and> ct_state c2 = Disconnected"
proof -
  obtain c where c: "ctl_run load_ok open_ok [ConnectCall sample_request 5, EngineState 0 StConnected 6]
      new_controller = Some c" and s: "ct_cancel c = Some 0" "ct_done c = Some 0" "ct_phase c 0 = EngineUp"
    using sample_engine
    by (auto simp: helper_connect_def sample_request_def open_ok_def new_controller_def Let_def
        set_state_def on_engine_state_def)
  then obtain c1 where d: "helper_disconnect c = (Some 0, c1)" "ct_phase c1 0 = EngineUp"
    by (auto simp: helper_disconnect_def)
  then obtain c2 where r: "ctl_run load_ok open_ok [EngineReturns 0 (Some ''closed''), SessionEnds 0 9] c1 = Some c2"
    by simp
  from disconnect_completes [OF c d(1) r] c d r show ?thesis by blast
qed

end
