(* ===== verification/Control.thy ===== *)
theory Control
  imports Helper Profile
begin

text \<open>
  The front-end's side of the control protocol (\<open>src/internal/control/client.go\<close>): credentials are
  checked locally, then one request goes to the helper daemon. The last section follows a connect
  from the profile through the socket and the daemon's controller to the client engine.
\<close>

record credentials =
  cd_server :: string
  cd_server_name :: string
  cd_endpoints :: "paddr list"
  cd_preferred :: string
  cd_ca :: string
  cd_cert :: string
  cd_key :: string
  cd_mtu :: int
  cd_tun_name :: string

record connected_as =
  co_common_name :: string
  co_not_after :: int

datatype control_err =
    NegativeMtu
  | InvalidCredentials profile_err
  | Transport ipc_do_err
  | DaemonSaid string
  | DaemonSilent
  | StatusUndecodable

text \<open>A peer takes a request's bytes; \<open>dial\<close> is the error of the dial, if any.\<close>

type_synonym 's peer = "bytes \<Rightarrow> 's \<Rightarrow> reader \<times> 's"

definition control_do ::
    "string option \<Rightarrow> 's peer \<Rightarrow> ipc_request \<Rightarrow> 's \<Rightarrow> (control_err + ipc_response) \<times> 's" where
  "control_do dial peer rq s =
     (case ipc_do dial peer rq s of
        (Inl e, s1) \<Rightarrow> (Inl (Transport e), s1)
      | (Inr resp, s1) \<Rightarrow>
          (if \<not> rs_ok resp
           then (Inl (if rs_error resp = [] then DaemonSilent else DaemonSaid (rs_error resp)), s1)
           else (Inr resp, s1)))"

definition control_status ::
    "string option \<Rightarrow> 's peer \<Rightarrow> 's \<Rightarrow> (control_err + status_response) \<times> 's" where
  "control_status dial peer s =
     (case control_do dial peer \<lparr>rq_command = cmd_status, rq_payload = None, rq_version = 0\<rparr> s of
        (Inl e, s1) \<Rightarrow> (Inl e, s1)
      | (Inr resp, s1) \<Rightarrow>
          (case Option.bind (rs_payload resp) status_of_json of
             None \<Rightarrow> (Inl StatusUndecodable, s1) | Some st \<Rightarrow> (Inr st, s1)))"

definition control_disconnect :: "string option \<Rightarrow> 's peer \<Rightarrow> 's \<Rightarrow> control_err option \<times> 's" where
  "control_disconnect dial peer s =
     (case control_do dial peer \<lparr>rq_command = cmd_disconnect, rq_payload = None, rq_version = 0\<rparr> s of
        (Inl e, s1) \<Rightarrow> (Some e, s1) | (Inr resp, s1) \<Rightarrow> (None, s1))"

definition cred_endpoints :: "credentials \<Rightarrow> paddr list" where
  "cred_endpoints cd =
     (if cd_endpoints cd = []
      then [\<lparr>pe_server = cd_server cd, pe_server_name = cd_server_name cd, pe_label = []\<rparr>]
      else cd_endpoints cd)"

definition ipc_endpoint :: "paddr \<Rightarrow> ipc_addr" where
  "ipc_endpoint e =
     \<lparr>ia_server = pe_server e, ia_server_name = pe_server_name e, ia_label = pe_label e\<rparr>"

definition connect_payload :: "credentials \<Rightarrow> profile \<Rightarrow> connect_request" where
  "connect_payload cd p =
     \<lparr>cr_server = pf_server p, cr_server_name = pf_server_name p,
      cr_endpoints = map ipc_endpoint (pf_endpoints p), cr_preferred = cd_preferred cd,
      cr_ca = pf_ca p, cr_cert = pf_cert p, cr_key = pf_key p, cr_mtu = cd_mtu cd,
      cr_tun_name = cd_tun_name cd\<rparr>"

definition connect_message :: "credentials \<Rightarrow> profile \<Rightarrow> ipc_request" where
  "connect_message cd p =
     \<lparr>rq_command = cmd_connect, rq_payload = Some (connect_request_json (connect_payload cd p)),
      rq_version = 0\<rparr>"

definition control_connect ::
    "'p x509_lib \<Rightarrow> int \<Rightarrow> string option \<Rightarrow> 's peer \<Rightarrow> credentials \<Rightarrow> 's
     \<Rightarrow> (control_err + connected_as) \<times> 's" where
  "control_connect L now dial peer cd s =
     (if cd_mtu cd < 0 then (Inl NegativeMtu, s)
      else case load_pem_endpoints L now (cd_ca cd) (cd_cert cd) (cd_key cd) (cred_endpoints cd) of
        Inl e \<Rightarrow> (Inl (InvalidCredentials e), s)
      | Inr p \<Rightarrow>
          (case control_do dial peer (connect_message cd p) s of
             (Inl e, s1) \<Rightarrow> (Inl e, s1)
           | (Inr resp, s1) \<Rightarrow> (Inr \<lparr>co_common_name = pf_cn p, co_not_after = pf_not_after p\<rparr>, s1)))"

section \<open>The daemon behind the socket\<close>

text \<open>The controller as the handler of the IPC server. \<open>Disconnect\<close> answers when the session it
  cancelled is over; its effect here is the cancellation.\<close>

definition daemon_handler ::
    "(client_config \<Rightarrow> bool \<Rightarrow> 'e + 't) \<Rightarrow> (string \<Rightarrow> int \<Rightarrow> string option) \<Rightarrow> ('e helper_err \<Rightarrow> string)
     \<Rightarrow> int \<Rightarrow> controller ipc_handler" where
  "daemon_handler load open_tun err_text now =
     \<lparr>h_connect = (\<lambda>r c. case helper_connect load open_tun now r c of
                             (Inl e, c1) \<Rightarrow> (Some (err_text e), c1) | (Inr eng, c1) \<Rightarrow> (None, c1)),
      h_disconnect = (\<lambda>c. (None, snd (helper_disconnect c))),
      h_status = helper_status\<rparr>"

section \<open>A profile reaches the engine\<close>

lemma normalize_dialable:
  "list_all dialable es \<Longrightarrow> es \<noteq> [] \<Longrightarrow>
   normalize_endpoints (map (engine_endpoint \<circ> ipc_endpoint) es) srv nm
     = Inr (map (engine_endpoint \<circ> ipc_endpoint) es)"
proof -
  assume d: "list_all dialable es" "es \<noteq> []"
  have "rtraverse normalize_endpoint (map (engine_endpoint \<circ> ipc_endpoint) es)
      = Inr (map (engine_endpoint \<circ> ipc_endpoint) es)"
    using d(1)
  proof (induction es)
    case (Cons e es)
    have "split_host_port [] = None" by code_simp
    with Cons.prems have "pe_server e \<noteq> []" "pe_server_name e \<noteq> []" by (auto simp: dialable_def)
    then have "normalize_endpoint (engine_endpoint (ipc_endpoint e)) = Inr (engine_endpoint (ipc_endpoint e))"
      by (simp add: normalize_endpoint_def engine_endpoint_def ipc_endpoint_def)
    with Cons show ?case by simp
  qed simp
  with d(2) show ?thesis by (simp add: normalize_endpoints_def)
qed

lemma engine_from_profile:
  assumes "load_pem_endpoints L now ca cert key es = Inr p" and "\<forall>cfg. \<exists>t. load cfg True = Inr t"
    and "ca \<noteq> []" "cert \<noteq> []" "key \<noteq> []"
  shows "\<exists>cfg t r. client_new load (engine_config (connect_payload cd p)) True = Inr (cfg, t, r)
    \<and> r = new_endpoint_ring (map (engine_endpoint \<circ> ipc_endpoint) (pf_endpoints p)) (cd_preferred cd)"
proof -
  from load_pem_endpoints_Inr [OF assms(1)] have v: "validate_endpoints es = Inr (pf_endpoints p)"
    and pem: "pf_ca p = ca" "pf_cert p = cert" "pf_key p = key" by simp_all
  from validate_endpoints_sound [OF v] have "list_all dialable (pf_endpoints p)" "pf_endpoints p \<noteq> []" by simp_all
  note n = normalize_dialable [OF this]
  from assms(2) obtain tls where "\<And>cfg. load cfg True = Inr (tls cfg)" by metis
  with n pem assms(3-5) show ?thesis
    by (simp add: client_new_def engine_config_def connect_payload_def btoi_def Let_def comp_def)
qed

text \<open>What passes the local check is not turned down by the daemon for its form: a connect whose
  profile loads goes through validation, JSON, base64, framing, dispatch and the controller, and an
  idle daemon starts an engine that walks exactly the profile's endpoints, in their order and with
  their names, starting at the preferred one; the only other ways to fail are the socket, the TUN
  device and the TLS library.\<close>

theorem profile_reaches_engine:
  assumes "load_pem_endpoints L now (cd_ca cd) (cd_cert cd) (cd_key cd) (cred_endpoints cd) = Inr p"
    and "cd_ca cd \<noteq> []" "cd_cert cd \<noteq> []" "cd_key cd \<noteq> []" and "0 \<le> cd_mtu cd" "cd_mtu cd < 2 ^ 63"
    and "length (json_marshal (request_json ((connect_message cd p)\<lparr>rq_version := ipc_version\<rparr>)))
      \<le> max_frame_size"
    and "\<not> ct_active c" and "open_tun (cd_tun_name cd) (if cd_mtu cd = 0 then default_mtu else cd_mtu cd) = None"
    and "\<forall>cfg. \<exists>t. load cfg True = Inr t"
  shows "\<exists>c' cfg t r.
    control_connect L now None (daemon_peer T (daemon_handler load open_tun txt clock) True) cd c
      = (Inr \<lparr>co_common_name = pf_cn p, co_not_after = pf_not_after p\<rparr>, c')
    \<and> helper_connect load open_tun clock (connect_payload cd p) c = (Inr (cfg, t, r), c')
    \<and> r = new_endpoint_ring (map (engine_endpoint \<circ> ipc_endpoint) (pf_endpoints p)) (cd_preferred cd)
    \<and> ct_active c' \<and> ct_state c' = Connecting \<and> ct_server c' = pe_server (hd (pf_endpoints p))"
proof -
  let ?H = "daemon_handler load open_tun txt clock"
  let ?rq = "(connect_message cd p)\<lparr>rq_version := ipc_version\<rparr>"
  from engine_from_profile [where load = load and cd = cd, OF assms(1,10,2-4)] obtain cfg t r
    where eng: "client_new load (engine_config (connect_payload cd p)) True = Inr (cfg, t, r)"
    and r: "r = new_endpoint_ring (map (engine_endpoint \<circ> ipc_endpoint) (pf_endpoints p)) (cd_preferred cd)"
    by blast
  from load_pem_endpoints_Inr [OF assms(1)] have v: "validate_endpoints (cred_endpoints cd) = Inr (pf_endpoints p)"
    and pem: "pf_ca p = cd_ca cd" "pf_cert p = cd_cert cd" "pf_key p = cd_key cd"
    and srv: "pf_server p = pe_server (hd (pf_endpoints p))" by simp_all
  have "split_host_port [] = None" by code_simp
  with validate_endpoints_sound [OF v] have "pe_server (hd (pf_endpoints p)) \<noteq> []"
    by (cases "pf_endpoints p") (auto simp: dialable_def)
  then have fields: "cr_server (connect_payload cd p) \<noteq> []" "cr_ca (connect_payload cd p) \<noteq> []"
    "cr_cert (connect_payload cd p) \<noteq> []" "cr_key (connect_payload cd p) \<noteq> []"
    using assms(2-4) pem srv by (simp_all add: connect_payload_def)
  have mtu: "(if cr_mtu (connect_payload cd p) \<le> 0 then default_mtu else cr_mtu (connect_payload cd p))
      = (if cd_mtu cd = 0 then default_mtu else cd_mtu cd)"
    using assms(5) by (simp add: connect_payload_def)
  have tun: "cr_tun_name (connect_payload cd p) = cd_tun_name cd" by (simp add: connect_payload_def)
  obtain c' where c': "helper_connect load open_tun clock (connect_payload cd p) c = (Inr (cfg, t, r), c')"
    unfolding helper_connect_def mtu tun using fields assms(8,9) eng by (simp add: Let_def)
  then have started: "ct_active c' \<and> ct_state c' = Connecting \<and> ct_server c' = pe_server (hd (pf_endpoints p))"
    by (cases rule: helper_connect_cases) (auto simp: connect_payload_def srv)
  have "connect_request_of_json (connect_request_json (connect_payload cd p)) = Some (connect_payload cd p)"
    by (rule connect_request_of_json_json) (use assms(5,6) in \<open>simp add: connect_payload_def int64_range_def\<close>)
  then have "dispatch T ?H ?rq c = (ok_response, c')"
    using c' by (simp add: dispatch_def connect_message_def daemon_handler_def ipc_version_def)
  then have "ipc_do None (daemon_peer T ?H True) (connect_message cd p) c = (Inr ok_response, c')"
  proof (rule ipc_do_dispatch [rotated 2])
    show "pred_option json_wf (rq_payload (connect_message cd p))"
      by (simp add: connect_message_def connect_request_json_wf)
    show "length (json_marshal (response_json ok_response)) \<le> max_frame_size"
      by (simp add: response_json_def ok_response_def raw_member_def opt_member_def json_marshal_def
          json_string_def esc_char_def max_frame_size_def)
  qed (rule assms(7))
  then have "control_connect L now None (daemon_peer T ?H True) cd c
      = (Inr \<lparr>co_common_name = pf_cn p, co_not_after = pf_not_after p\<rparr>, c')"
    using assms(1,5) by (simp add: control_connect_def control_do_def ok_response_def)
  with c' r started show ?thesis by blast
qed

definition sample_credentials :: credentials where
  "sample_credentials = \<lparr>cd_server = ''vpn.io:8443'', cd_server_name = [], cd_endpoints = [], cd_preferred = [],
     cd_ca = ''CA'', cd_cert = ''C'', cd_key = ''K'', cd_mtu = 0, cd_tun_name = []\<rparr>"

theorem profile_reaches_engine_witness:
  "\<exists>c'. control_connect sample_x509 5 None
      (daemon_peer sample_texts (daemon_handler load_ok open_ok (\<lambda>e. ''no'') 7) True) sample_credentials new_controller
    = (Inr \<lparr>co_common_name = ''bob'', co_not_after = 9\<rparr>, c') \<and> ct_state c' = Connecting"
proof -
  define p where "p = \<lparr>pf_server = ''vpn.io:8443'', pf_server_name = ''vpn.io'',
         pf_endpoints = [sample_addr\<lparr>pe_server_name := ''vpn.io''\<rparr>], pf_ca = ''CA'', pf_cert = ''C'',
         pf_key = ''K'', pf_cn = ''bob'', pf_not_after = 9\<rparr>"
  have l: "load_pem_endpoints sample_x509 5 (cd_ca sample_credentials) (cd_cert sample_credentials)
      (cd_key sample_credentials) (cred_endpoints sample_credentials) = Inr p"
    using sample_valid
    by (simp add: load_pem_endpoints_def sample_x509_def cred_endpoints_def sample_credentials_def
        sample_addr_def p_def)
  have j: "length (json_marshal (request_json ((connect_message sample_credentials p)\<lparr>rq_version := ipc_version\<rparr>)))
      \<le> max_frame_size"
    by (simp add: p_def connect_message_def connect_payload_def sample_credentials_def sample_addr_def
        request_json_def raw_member_def opt_member_def ipc_version_def cmd_connect_def connect_request_json_def
        ipc_endpoint_def ipc_addr_json_def jbytes_def b64_char_def b64_alphabet_def
        json_marshal_def jint_def json_string_def esc_char_def max_frame_size_def int_str_def nat_str.simps)
  have "\<not> ct_active new_controller" by (simp add: new_controller_def)
  moreover have "\<forall>cfg. \<exists>t. load_ok cfg True = Inr t" by (simp add: load_ok_def)
  moreover have "open_ok nm m = None" for nm m by (simp add: open_ok_def)
  ultimately show ?thesis
    using profile_reaches_engine [OF l _ _ _ _ _ j, of new_controller open_ok load_ok
        sample_texts "\<lambda>e. ''no''" 7]
    by (simp add: sample_credentials_def p_def) blast
qed

end
