(* ===== verification/Vless.thy ===== *)
theory Vless
  imports Base64 Netaddr Files
begin

text \<open>
  The VLESS/REALITY service of a node (\<open>src/internal/vless/\<close>): the node's identity (\<open>vless.go\<close>), its
  clients (\<open>client.go\<close>), the configuration rendered from both (\<open>config.go\<close>) and the judgement of a
  masquerade target (\<open>dest.go\<close>). Random bytes and the derivation of an X25519 public key are
  arguments. Messages that quote a value are constructors that hold it.
\<close>

section \<open>Keys\<close>

datatype key_err = NotBase64Url | WrongKeySize nat

definition decode_key :: "string \<Rightarrow> key_err + string" where
  "decode_key s =
     (case b64u_decode s of
        None \<Rightarrow> Inl NotBase64Url
      | Some b \<Rightarrow> (if length b \<noteq> 32 then Inl (WrongKeySize (length b)) else Inr b))"

definition clamp :: "bytes \<Rightarrow> bytes" where
  "clamp k = (let k1 = k[0 := k ! 0 AND 248]; k2 = k1[31 := k1 ! 31 AND 127] in k2[31 := k2 ! 31 OR 64])"

text \<open>\<open>derive\<close> is the public key of a private one, as \<open>crypto/ecdh\<close> computes it.\<close>

definition generate_keypair ::
    "string + bytes \<Rightarrow> (bytes \<Rightarrow> string + bytes) \<Rightarrow> string + string \<times> string" where
  "generate_keypair rand derive =
     (case rand of
        Inl e \<Rightarrow> Inl (''vless: generate key: '' @ e)
      | Inr raw \<Rightarrow>
          (case derive (clamp raw) of
             Inl e \<Rightarrow> Inl (''vless: derive key: '' @ e)
           | Inr pub \<Rightarrow> Inr (b64u_encode (bytes_string (clamp raw)), b64u_encode (bytes_string pub))))"

section \<open>The node\<close>

definition default_port :: int where "default_port = 443"
definition default_dest :: string where "default_dest = ''www.apple.com:443''"
definition default_fingerprint :: string where "default_fingerprint = ''chrome''"
definition vless_flow :: string where "vless_flow = ''xtls-rprx-vision''"
definition short_id_bytes :: nat where "short_id_bytes = 8"

record node =
  nd_address :: string
  nd_port :: int
  nd_label :: string
  nd_listen :: string
  nd_private :: string
  nd_public :: string
  nd_dest :: string
  nd_server_names :: "string list"
  nd_fingerprint :: string

record vclient =
  vc_name :: string
  vc_uuid :: string
  vc_short_id :: string
  vc_created :: string

datatype id_err =
    UuidLength
  | UuidMalformed
  | ShortIdEmpty
  | ShortIdOdd
  | ShortIdLong
  | ShortIdNotLowerHex

datatype vless_err =
    AddressRequired
  | AddressEmpty
  | PortOutOfRange int
  | NoPrivateKey
  | NoPublicKey
  | NoServerNames
  | BadDest string
  | BadPrivateKey key_err
  | BadPublicKey key_err
  | KeyGeneration string
  | ClientNameMissing
  | ClientHasNoName
  | ClientBadId string id_err
  | RandomBytes string
  | NodeNotInitialised
  | NodeExists
  | NodeUnparsable
  | VlessFile file_err
  | HasAccess string

definition node_validate :: "node \<Rightarrow> vless_err option" where
  "node_validate n =
     (if trim_space (nd_address n) = [] then Some AddressEmpty
      else if nd_port n \<le> 0 \<or> nd_port n > 65535 then Some (PortOutOfRange (nd_port n))
      else if nd_private n = [] then Some NoPrivateKey
      else if nd_public n = [] then Some NoPublicKey
      else if nd_server_names n = [] then Some NoServerNames
      else if split_host_port (nd_dest n) = None then Some (BadDest (nd_dest n))
      else case decode_key (nd_private n) of
        Inl e \<Rightarrow> Some (BadPrivateKey e)
      | Inr a \<Rightarrow>
          (case decode_key (nd_public n) of Inl e \<Rightarrow> Some (BadPublicKey e) | Inr b \<Rightarrow> None))"

definition host_of :: "string \<Rightarrow> string" where
  "host_of hp = (case split_host_port hp of Some (h, p) \<Rightarrow> h | None \<Rightarrow> hp)"

text \<open>\<open>NewNode\<close>: the random bytes of the key, and the derivation, are arguments.\<close>

definition new_node ::
    "string + bytes \<Rightarrow> (bytes \<Rightarrow> string + bytes) \<Rightarrow> string \<Rightarrow> string \<Rightarrow> string \<Rightarrow> string \<Rightarrow> string \<Rightarrow> string \<Rightarrow> int
     \<Rightarrow> vless_err + node" where
  "new_node rand derive address dest server_name fingerprint label listen port =
     (if trim_space address = [] then Inl AddressRequired
      else
        (let port = (if port = 0 then default_port else port);
             dest = (if dest = [] then default_dest else dest);
             server_name = (if server_name = [] then host_of dest else server_name);
             fingerprint = (if fingerprint = [] then default_fingerprint else fingerprint)
         in case generate_keypair rand derive of
              Inl e \<Rightarrow> Inl (KeyGeneration e)
            | Inr (priv, pub) \<Rightarrow>
                (let n = \<lparr>nd_address = address, nd_port = port, nd_label = label, nd_listen = listen,
                          nd_private = priv, nd_public = pub, nd_dest = dest,
                          nd_server_names = [server_name], nd_fingerprint = fingerprint\<rparr>
                 in case node_validate n of Some e \<Rightarrow> Inl e | None \<Rightarrow> Inr n)))"

definition listen_addr :: "node \<Rightarrow> string" where
  "listen_addr n = (if nd_listen n = [] then ''0.0.0.0'' else nd_listen n)"

definition detect_listen :: "bool \<Rightarrow> string" where
  "detect_listen ipv6_works = (if ipv6_works then ''::'' else ''0.0.0.0'')"

definition node_endpoint :: "node \<Rightarrow> string" where
  "node_endpoint n = join_host_port (nd_address n) (int_str (nd_port n))"

definition node_server_name :: "node \<Rightarrow> string" where
  "node_server_name n = (case nd_server_names n of [] \<Rightarrow> [] | s # ss \<Rightarrow> s)"

definition link_label :: "node \<Rightarrow> string" where
  "link_label n = (if nd_label n \<noteq> [] then nd_label n else nd_address n @ '':'' @ int_str (nd_port n))"

section \<open>Clients\<close>

definition is_hex_char :: "char \<Rightarrow> bool" where
  "is_hex_char c \<longleftrightarrow> is_digit c \<or> (97 \<le> code c \<and> code c \<le> 102) \<or> (65 \<le> code c \<and> code c \<le> 70)"

definition valid_uuid :: "string \<Rightarrow> id_err option" where
  "valid_uuid s =
     (if length s \<noteq> 36 then Some UuidLength
      else if list_all (\<lambda>(i, c). if i \<in> {8, 13, 18, 23} then c = CHR ''-'' else is_hex_char c)
                (List.enumerate 0 s)
      then None else Some UuidMalformed)"

definition valid_short_id :: "string \<Rightarrow> id_err option" where
  "valid_short_id s =
     (if s = [] then Some ShortIdEmpty
      else if length s mod 2 \<noteq> 0 then Some ShortIdOdd
      else if length s > short_id_bytes * 2 then Some ShortIdLong
      else if list_all (\<lambda>c. is_hex_char c \<and> \<not> (65 \<le> code c \<and> code c \<le> 70)) s then None
      else Some ShortIdNotLowerHex)"

definition client_validate :: "vclient \<Rightarrow> vless_err option" where
  "client_validate c =
     (if trim_space (vc_name c) = [] then Some ClientHasNoName
      else case valid_uuid (vc_uuid c) of
        Some e \<Rightarrow> Some (ClientBadId (vc_name c) e)
      | None \<Rightarrow>
          (case valid_short_id (vc_short_id c) of
             Some e \<Rightarrow> Some (ClientBadId (vc_name c) e) | None \<Rightarrow> None))"

definition hex_encode :: "bytes \<Rightarrow> string" where
  "hex_encode b = concat (map (\<lambda>w. [hex_digit (unat w div 16), hex_digit (unat w mod 16)]) b)"

text \<open>The version and variant bits of a random UUID.\<close>

definition uuid_bits :: "bytes \<Rightarrow> bytes" where
  "uuid_bits b = (let b1 = b[6 := (b ! 6 AND 15) OR 64] in b1[8 := (b1 ! 8 AND 63) OR 128])"

definition new_uuid :: "bytes \<Rightarrow> string" where
  "new_uuid b =
     (let s = hex_encode (uuid_bits b)
      in take 8 s @ ''-'' @ take 4 (drop 8 s) @ ''-'' @ take 4 (drop 12 s) @ ''-''
         @ take 4 (drop 16 s) @ ''-'' @ drop 20 s)"

text \<open>\<open>NewClient\<close>: the random bytes of the two identifiers and the date are arguments.\<close>

definition new_vclient ::
    "string + bytes \<Rightarrow> string + bytes \<Rightarrow> string \<Rightarrow> string \<Rightarrow> vless_err + vclient" where
  "new_vclient uuid_rand sid_rand date nm =
     (let nm = trim_space nm in
      if nm = [] then Inl ClientNameMissing
      else case uuid_rand of
        Inl e \<Rightarrow> Inl (RandomBytes e)
      | Inr ub \<Rightarrow>
          (case sid_rand of
             Inl e \<Rightarrow> Inl (RandomBytes e)
           | Inr sb \<Rightarrow>
               (let c = \<lparr>vc_name = nm, vc_uuid = new_uuid ub, vc_short_id = hex_encode sb, vc_created = date\<rparr>
                in case client_validate c of Some e \<Rightarrow> Inl e | None \<Rightarrow> Inr c)))"

section \<open>The configuration\<close>

text \<open>\<open>encoding/json\<close> writes the keys of a map in their order; a slice made with \<open>make\<close> is never
  \<open>null\<close>.\<close>

definition xray_client_json :: "vclient \<Rightarrow> json" where
  "xray_client_json c =
     JObj [(''id'', JStr (vc_uuid c)), (''flow'', JStr vless_flow), (''email'', JStr (vc_name c))]"

definition xray_config_json :: "node \<Rightarrow> vclient list \<Rightarrow> json" where
  "xray_config_json n cs =
     JObj
       [(''inbounds'', JArr [JObj
          [(''listen'', JStr (listen_addr n)), (''port'', jint (nd_port n)), (''protocol'', JStr ''vless''),
           (''settings'', JObj [(''clients'', JArr (map xray_client_json cs)), (''decryption'', JStr ''none'')]),
           (''sniffing'', JObj [(''enabled'', JBool False)]),
           (''streamSettings'', JObj
              [(''network'', JStr ''tcp''),
               (''realitySettings'', JObj
                  [(''dest'', JStr (nd_dest n)), (''privateKey'', JStr (nd_private n)),
                   (''serverNames'', jstrs (nd_server_names n)), (''shortIds'', jstrs (map vc_short_id cs)),
                   (''show'', JBool False), (''xver'', jint 0)]),
               (''security'', JStr ''reality'')]),
           (''tag'', JStr ''vless-reality'')]]),
        (''log'', JObj [(''access'', JStr ''none''), (''loglevel'', JStr ''warning'')]),
        (''outbounds'', JArr [JObj [(''protocol'', JStr ''freedom''), (''tag'', JStr ''direct'')]])]"

definition first_invalid :: "vclient list \<Rightarrow> vless_err option" where
  "first_invalid cs = (case List.map_filter client_validate cs of [] \<Rightarrow> None | e # es \<Rightarrow> Some e)"

definition xray_config :: "node \<Rightarrow> vclient list \<Rightarrow> vless_err + string" where
  "xray_config n cs =
     (case node_validate n of
        Some e \<Rightarrow> Inl e
      | None \<Rightarrow>
          (case first_invalid cs of
             Some e \<Rightarrow> Inl e
           | None \<Rightarrow> Inr (json_marshal_indent (xray_config_json n cs) @ [CHR 0x0A])))"

section \<open>The masquerade target\<close>

definition max_chain_bytes :: nat where "max_chain_bytes = 4096"
definition warn_chain_bytes :: nat where "warn_chain_bytes = 3072"

datatype dest_problem = NoTls13 | ChainTooLarge nat
datatype dest_warning = ChainNearLimit nat | NoHttp2

record dest_report =
  dr_dest :: string
  dr_tls13 :: bool
  dr_alpn :: string
  dr_chain :: nat
  dr_common_name :: string
  dr_problems :: "dest_problem list"
  dr_warnings :: "dest_warning list"

definition dest_ok :: "dest_report \<Rightarrow> bool" where
  "dest_ok r \<longleftrightarrow> dr_problems r = []"

definition dest_classify :: "dest_report \<Rightarrow> dest_report" where
  "dest_classify r =
     (let r1 = (if \<not> dr_tls13 r then r\<lparr>dr_problems := dr_problems r @ [NoTls13]\<rparr> else r);
          r2 = (if dr_chain r1 > max_chain_bytes
                then r1\<lparr>dr_problems := dr_problems r1 @ [ChainTooLarge (dr_chain r1)]\<rparr>
                else if dr_chain r1 > warn_chain_bytes
                then r1\<lparr>dr_warnings := dr_warnings r1 @ [ChainNearLimit (dr_chain r1)]\<rparr> else r1)
      in if dr_alpn r2 \<noteq> ''h2'' then r2\<lparr>dr_warnings := dr_warnings r2 @ [NoHttp2]\<rparr> else r2)"

text \<open>The handshake with the target: its version, protocol and certificates (size and common name).\<close>

record dest_state =
  ds_version :: nat
  ds_alpn :: string
  ds_certs :: "(nat \<times> string) list"

datatype dest_err = DestSyntax string | DestUnreachable string string

definition check_dest ::
    "(string \<Rightarrow> string \<Rightarrow> string + dest_state) \<Rightarrow> string \<Rightarrow> dest_err + dest_report" where
  "check_dest dial dest =
     (case split_host_port dest of
        None \<Rightarrow> Inl (DestSyntax dest)
      | Some (h, p) \<Rightarrow>
          (case dial h (join_host_port h p) of
             Inl e \<Rightarrow> Inl (DestUnreachable dest e)
           | Inr st \<Rightarrow>
               Inr (dest_classify
                 \<lparr>dr_dest = dest, dr_tls13 = (ds_version st \<ge> 0x0304), dr_alpn = ds_alpn st,
                  dr_chain = sum_list (map fst (ds_certs st)),
                  dr_common_name = (case ds_certs st of [] \<Rightarrow> [] | c # cs \<Rightarrow> snd c),
                  dr_problems = [], dr_warnings = []\<rparr>)))"

section \<open>Lemmas\<close>

lemma code_hex_digit: "n < 16 \<Longrightarrow> code (hex_digit n) = (if n < 10 then 48 + n else 87 + n)"
  by (simp add: hex_digit_def)

lemma hex_digit_ok: "n < 16 \<Longrightarrow> is_hex_char (hex_digit n) \<and> \<not> (65 \<le> code (hex_digit n) \<and> code (hex_digit n) \<le> 70)"
  using code_hex_digit [of n] by (auto simp: is_hex_char_def is_digit_def)

lemma unat_byte_div: "unat (w :: 8 word) div 16 < 16"
proof -
  have "unat w < 2 ^ 8" using unsigned_less [of w, where ?'a = nat] by simp
  then show ?thesis by simp
qed

lemma hex_encode_ok: "list_all (\<lambda>c. is_hex_char c \<and> \<not> (65 \<le> code c \<and> code c \<le> 70)) (hex_encode b)"
proof (induction b)
  case (Cons w b)
  have "unat w mod 16 < 16" by simp
  from hex_digit_ok [OF this] hex_digit_ok [OF unat_byte_div [of w]] Cons show ?case
    by (simp add: hex_encode_def del: not_le)
qed (simp add: hex_encode_def)

lemma length_hex_encode [simp]: "length (hex_encode b) = 2 * length b"
  by (induction b) (simp_all add: hex_encode_def)

lemma new_uuid_valid: "length b = 16 \<Longrightarrow> valid_uuid (new_uuid b) = None"
proof -
  assume b: "length b = 16"
  define s where "s = hex_encode (uuid_bits b)"
  have len: "length s = 32" using b by (simp add: s_def uuid_bits_def Let_def)
  have hex: "\<forall>c \<in> set s. is_hex_char c" using hex_encode_ok [of "uuid_bits b"] by (simp add: s_def list_all_iff)
  have u: "new_uuid b = take 8 s @ ''-'' @ take 4 (drop 8 s) @ ''-'' @ take 4 (drop 12 s) @ ''-''
      @ take 4 (drop 16 s) @ ''-'' @ drop 20 s"
    by (simp add: new_uuid_def s_def Let_def)
  have "if i \<in> {8, 13, 18, 23} then new_uuid b ! i = CHR ''-'' else is_hex_char (new_uuid b ! i)"
    if i: "i < 36" for i
    unfolding u using i len hex by (auto simp: nth_append nth_Cons' intro!: hex [rule_format] nth_mem)
  moreover have "length (new_uuid b) = 36" unfolding u using len by simp
  ultimately show ?thesis by (auto simp: valid_uuid_def list_all_iff in_set_enumerate_eq)
qed

lemma new_vclient_ok:
  assumes "length ub = 16" and "length sb = short_id_bytes" and "trim_space nm \<noteq> []"
  shows "new_vclient (Inr ub) (Inr sb) date nm = Inr \<lparr>vc_name = trim_space nm, vc_uuid = new_uuid ub,
      vc_short_id = hex_encode sb, vc_created = date\<rparr>"
proof -
  have "hex_encode sb \<noteq> []" using assms(2) by (auto simp: short_id_bytes_def dest: arg_cong [of _ _ length])
  with assms hex_encode_ok [of sb] new_uuid_valid [OF assms(1)] trim_space_idem [of nm] show ?thesis
    by (simp add: new_vclient_def client_validate_def valid_short_id_def short_id_bytes_def Let_def)
qed

lemma new_vclient_valid: "new_vclient ur sr date nm = Inr c \<Longrightarrow>
    client_validate c = None \<and> vc_name c = trim_space nm"
  by (auto simp: new_vclient_def Let_def split: if_splits sum.splits option.splits)

end
