(* ===== verification/VlessStore.thy ===== *)
theory VlessStore
  imports Vless
begin

text \<open>
  The files of a VLESS node (\<open>src/internal/vless/store.go\<close>): its identity, the list of clients and the
  configuration Xray reads, which is rendered from the two. A store is the contents of the three
  files; the answers of the file system to the lock and to every read and write are arguments, and a
  write either replaces a file or leaves it. \<open>eqf\<close> is \<open>strings.EqualFold\<close>.
\<close>

section \<open>The files\<close>

definition vless_max_bytes :: nat where "vless_max_bytes = 2 ^ 20"

record vdisk =
  vd_node :: disk_file
  vd_clients :: disk_file
  vd_config :: disk_file

record vio =
  vi_lock :: "string option"
  vi_stat :: "string option"
  vi_node :: file_io
  vi_clients :: file_io
  vi_config :: file_io

definition vio_fine :: vio where
  "vio_fine = \<lparr>vi_lock = None, vi_stat = None, vi_node = io_fine, vi_clients = io_fine, vi_config = io_fine\<rparr>"

definition read_capped :: "file_io \<Rightarrow> disk_file \<Rightarrow> file_err + string" where
  "read_capped io f =
     (case f of
        None \<Rightarrow> Inl NotExist
      | Some t \<Rightarrow>
          (case io_read io of
             Some e \<Rightarrow> Inl (ReadFails e)
           | None \<Rightarrow> (if length t > vless_max_bytes then Inl FileTooLarge else Inr t)))"

definition write_text :: "file_io \<Rightarrow> string \<Rightarrow> disk_file \<Rightarrow> vless_err option \<times> disk_file" where
  "write_text io t f =
     (case io_write io of Some e \<Rightarrow> (Some (VlessFile (WriteFailed e)), f) | None \<Rightarrow> (None, Some t))"

definition node_json :: "node \<Rightarrow> json" where
  "node_json n =
     JObj ([(''address'', JStr (nd_address n)), (''port'', jint (nd_port n))]
       @ opt_member (nd_label n \<noteq> []) ''label'' (JStr (nd_label n))
       @ opt_member (nd_listen n \<noteq> []) ''listen'' (JStr (nd_listen n))
       @ [(''privateKey'', JStr (nd_private n)), (''publicKey'', JStr (nd_public n)),
          (''dest'', JStr (nd_dest n)), (''serverNames'', jstrs (nd_server_names n)),
          (''fingerprint'', JStr (nd_fingerprint n))])"

definition zero_node :: node where
  "zero_node = \<lparr>nd_address = [], nd_port = 0, nd_label = [], nd_listen = [], nd_private = [],
     nd_public = [], nd_dest = [], nd_server_names = [], nd_fingerprint = []\<rparr>"

fun node_of_json :: "json \<Rightarrow> node option" where
  "node_of_json (JObj ms) =
     (case (fold_field set_string ''address'' ms [], fold_field set_int ''port'' ms 0,
            fold_field set_string ''label'' ms [], fold_field set_string ''listen'' ms [],
            fold_field set_string ''privateKey'' ms [], fold_field set_string ''publicKey'' ms [],
            fold_field set_string ''dest'' ms [], fold_field set_strings ''serverNames'' ms [],
            fold_field set_string ''fingerprint'' ms []) of
        (Some a, Some p, Some l, Some li, Some pr, Some pu, Some d, Some s, Some f) \<Rightarrow>
          Some \<lparr>nd_address = a, nd_port = p, nd_label = l, nd_listen = li, nd_private = pr,
                nd_public = pu, nd_dest = d, nd_server_names = s, nd_fingerprint = f\<rparr>
      | _ \<Rightarrow> None)"
| "node_of_json JNull = Some zero_node"
| "node_of_json _ = None"

definition vclient_json :: "vclient \<Rightarrow> json" where
  "vclient_json c =
     JObj [(''name'', JStr (vc_name c)), (''uuid'', JStr (vc_uuid c)), (''shortId'', JStr (vc_short_id c)),
           (''created'', JStr (vc_created c))]"

definition vclients_json :: "vclient list \<Rightarrow> json" where
  "vclients_json cs = JObj [(''clients'', JArr (map vclient_json cs))]"

fun vclient_of_json :: "json \<Rightarrow> vclient option" where
  "vclient_of_json (JObj ms) =
     (case (fold_field set_string ''name'' ms [], fold_field set_string ''uuid'' ms [],
            fold_field set_string ''shortId'' ms [], fold_field set_string ''created'' ms []) of
        (Some n, Some u, Some s, Some c) \<Rightarrow>
          Some \<lparr>vc_name = n, vc_uuid = u, vc_short_id = s, vc_created = c\<rparr>
      | _ \<Rightarrow> None)"
| "vclient_of_json JNull = Some \<lparr>vc_name = [], vc_uuid = [], vc_short_id = [], vc_created = []\<rparr>"
| "vclient_of_json _ = None"

fun vclients_of_json :: "json \<Rightarrow> vclient list option" where
  "vclients_of_json (JObj ms) = fold_field (set_list vclient_of_json) ''clients'' ms []"
| "vclients_of_json JNull = Some []"
| "vclients_of_json _ = None"

lemma node_of_json_json: "int64_range (nd_port n) \<Longrightarrow> node_of_json (node_json n) = Some n"
  by (cases n) (auto simp: node_json_def field_simps_json fold_eval jint_def)

lemma node_json_wf: "json_wf (node_json n)"
  by (auto simp: node_json_def opt_member_def)

lemma vclient_of_json_json: "vclient_of_json (vclient_json c) = Some c"
  by (cases c) (simp add: vclient_json_def fold_eval)

lemma vclients_of_json_json: "vclients_of_json (vclients_json cs) = Some cs"
  using opt_all_Some [of "map vclient_json cs" vclient_of_json]
  by (simp add: vclients_json_def fold_eval comp_def vclient_of_json_json opt_all_map_Some [of id, simplified])

lemma vclients_json_wf: "json_wf (vclients_json cs)"
  by (simp add: vclients_json_def vclient_json_def list_all_iff)

interpretation vcl: json_file vclients_json vclients_of_json "\<lambda>x. True"
  by unfold_locales (simp_all add: vclients_of_json_json vclients_json_wf)

definition line :: "json \<Rightarrow> string" where
  "line j = json_marshal_indent j @ [CHR 0x0A]"

section \<open>Loading and saving\<close>

definition load_node :: "vio \<Rightarrow> vdisk \<Rightarrow> vless_err + node" where
  "load_node io d =
     (case read_capped (vi_node io) (vd_node d) of
        Inl e \<Rightarrow> Inl (if e = NotExist then NodeNotInitialised else VlessFile e)
      | Inr t \<Rightarrow>
          (case Option.bind (json_parse t) node_of_json of
             None \<Rightarrow> Inl NodeUnparsable
           | Some n \<Rightarrow> (case node_validate n of Some e \<Rightarrow> Inl e | None \<Rightarrow> Inr n)))"

definition save_node :: "vio \<Rightarrow> node \<Rightarrow> vdisk \<Rightarrow> vless_err option \<times> vdisk" where
  "save_node io n d =
     (case node_validate n of
        Some e \<Rightarrow> (Some e, d)
      | None \<Rightarrow>
          (case vi_stat io of
             Some e \<Rightarrow> (Some (VlessFile (ReadFails e)), d)
           | None \<Rightarrow>
               (if vd_node d \<noteq> None then (Some NodeExists, d)
                else (case write_text (vi_node io) (line (node_json n)) (vd_node d) of
                        (r, f) \<Rightarrow> (r, d\<lparr>vd_node := f\<rparr>)))))"

definition load_clients :: "vio \<Rightarrow> vdisk \<Rightarrow> vless_err + vclient list" where
  "load_clients io d =
     (case read_capped (vi_clients io) (vd_clients d) of
        Inl e \<Rightarrow> (if e = NotExist then Inr [] else Inl (VlessFile e))
      | Inr t \<Rightarrow>
          (if t = [] then Inr []
           else case Option.bind (json_parse t) vclients_of_json of
             None \<Rightarrow> Inl (VlessFile ParseFailed)
           | Some cs \<Rightarrow> (case first_invalid cs of Some e \<Rightarrow> Inl e | None \<Rightarrow> Inr cs)))"

definition write_config :: "vio \<Rightarrow> node \<Rightarrow> vclient list \<Rightarrow> vdisk \<Rightarrow> vless_err option \<times> vdisk" where
  "write_config io n cs d =
     (case xray_config n cs of
        Inl e \<Rightarrow> (Some e, d)
      | Inr t \<Rightarrow> (case write_text (vi_config io) t (vd_config d) of (r, f) \<Rightarrow> (r, d\<lparr>vd_config := f\<rparr>)))"

definition save_clients :: "vio \<Rightarrow> node \<Rightarrow> vclient list \<Rightarrow> vdisk \<Rightarrow> vless_err option \<times> vdisk" where
  "save_clients io n cs d =
     (case xray_config n cs of
        Inl e \<Rightarrow> (Some e, d)
      | Inr t \<Rightarrow>
          (case write_text (vi_clients io) (line (vclients_json cs)) (vd_clients d) of
             (Some e, f) \<Rightarrow> (Some e, d\<lparr>vd_clients := f\<rparr>)
           | (None, f) \<Rightarrow> write_config io n cs (d\<lparr>vd_clients := f\<rparr>)))"

section \<open>Operations\<close>

definition find_client ::
    "(string \<Rightarrow> string \<Rightarrow> bool) \<Rightarrow> vio \<Rightarrow> string \<Rightarrow> vdisk \<Rightarrow> vless_err + vclient option" where
  "find_client eqf io nm d =
     (case load_clients io d of Inl e \<Rightarrow> Inl e | Inr cs \<Rightarrow> Inr (find (\<lambda>c. eqf (vc_name c) nm) cs))"

definition add_client ::
    "(string \<Rightarrow> string \<Rightarrow> bool) \<Rightarrow> vio \<Rightarrow> string + bytes \<Rightarrow> string + bytes \<Rightarrow> string \<Rightarrow> string \<Rightarrow> vdisk
     \<Rightarrow> (vless_err + vclient) \<times> vdisk" where
  "add_client eqf io uuid_rand sid_rand date nm d =
     (case vi_lock io of
        Some e \<Rightarrow> (Inl (VlessFile (LockFailed e)), d)
      | None \<Rightarrow>
          (case load_node io d of
             Inl e \<Rightarrow> (Inl e, d)
           | Inr n \<Rightarrow>
               (case load_clients io d of
                  Inl e \<Rightarrow> (Inl e, d)
                | Inr cs \<Rightarrow>
                    (case find (\<lambda>c. eqf (vc_name c) nm) cs of
                       Some c \<Rightarrow> (Inl (HasAccess (vc_name c)), d)
                     | None \<Rightarrow>
                         (case new_vclient uuid_rand sid_rand date nm of
                            Inl e \<Rightarrow> (Inl e, d)
                          | Inr c \<Rightarrow>
                              (case save_clients io n (cs @ [c]) d of
                                 (Some e, d1) \<Rightarrow> (Inl e, d1) | (None, d1) \<Rightarrow> (Inr c, d1)))))))"

definition remove_client ::
    "(string \<Rightarrow> string \<Rightarrow> bool) \<Rightarrow> vio \<Rightarrow> string \<Rightarrow> vdisk \<Rightarrow> (vless_err + bool) \<times> vdisk" where
  "remove_client eqf io nm d =
     (case vi_lock io of
        Some e \<Rightarrow> (Inl (VlessFile (LockFailed e)), d)
      | None \<Rightarrow>
          (case load_node io d of
             Inl e \<Rightarrow> (Inl e, d)
           | Inr n \<Rightarrow>
               (case load_clients io d of
                  Inl e \<Rightarrow> (Inl e, d)
                | Inr cs \<Rightarrow>
                    (let kept = filter (\<lambda>c. \<not> eqf (vc_name c) nm) cs
                     in if length kept = length cs then (Inr False, d)
                        else (case save_clients io n kept d of
                                (Some e, d1) \<Rightarrow> (Inl e, d1) | (None, d1) \<Rightarrow> (Inr True, d1))))))"

definition render_config :: "vio \<Rightarrow> vdisk \<Rightarrow> vless_err option \<times> vdisk" where
  "render_config io d =
     (case vi_lock io of
        Some e \<Rightarrow> (Some (VlessFile (LockFailed e)), d)
      | None \<Rightarrow>
          (case load_node io d of
             Inl e \<Rightarrow> (Some e, d)
           | Inr n \<Rightarrow>
               (case load_clients io d of Inl e \<Rightarrow> (Some e, d) | Inr cs \<Rightarrow> write_config io n cs d)))"

section \<open>Lemmas\<close>

definition fits_file :: "vclient list \<Rightarrow> bool" where
  "fits_file cs \<longleftrightarrow> length (line (vclients_json cs)) \<le> vless_max_bytes"

text \<open>The three files agree: the node can be read, the list holds \<open>cs\<close>, and the configuration is the one
  rendered from them.\<close>

definition in_sync :: "node \<Rightarrow> vclient list \<Rightarrow> vdisk \<Rightarrow> bool" where
  "in_sync n cs d \<longleftrightarrow>
     load_node vio_fine d = Inr n \<and> vd_clients d = Some (line (vclients_json cs))
     \<and> (\<exists>t. xray_config n cs = Inr t \<and> vd_config d = Some t)"

lemma load_node_any: "load_node vio_fine d = Inr n \<Longrightarrow> load_node io d = Inr m \<Longrightarrow> m = n"
  by (auto simp: load_node_def read_capped_def vio_fine_def io_fine_def split: option.splits if_splits sum.splits)

lemma xray_config_Inr: "xray_config n cs = Inr t \<Longrightarrow> first_invalid cs = None \<and> node_validate n = None"
  by (auto simp: xray_config_def split: option.splits)

lemma load_clients_listed:
  assumes "vd_clients d = Some (line (vclients_json cs))" and "fits_file cs" and "first_invalid cs = None"
  shows "load_clients io d = (if io_read (vi_clients io) = None then Inr cs
    else Inl (VlessFile (ReadFails (the (io_read (vi_clients io))))))"
  using assms vclients_json_wf [of cs]
  by (auto simp: load_clients_def read_capped_def fits_file_def line_def vclients_of_json_json)

lemma save_clients_cases:
  assumes "save_clients io n cs d = (r, d')"
  shows "(r = None \<and> (\<exists>t. xray_config n cs = Inr t \<and>
        d' = d\<lparr>vd_clients := Some (line (vclients_json cs)), vd_config := Some t\<rparr>))
    \<or> (r \<noteq> None \<and> d' = d)
    \<or> (r \<noteq> None \<and> io_write (vi_config io) \<noteq> None \<and> d' = d\<lparr>vd_clients := Some (line (vclients_json cs))\<rparr>)"
  using assms
  by (auto simp: save_clients_def write_config_def write_text_def split: sum.splits option.splits prod.splits)

lemma load_node_frame [simp]:
  "load_node io (d\<lparr>vd_clients := f\<rparr>) = load_node io d" "load_node io (d\<lparr>vd_config := f\<rparr>) = load_node io d"
  by (simp_all add: load_node_def)

text \<open>What an operation should do to the list.\<close>

datatype vop =
    VAdd "string + bytes" "string + bytes" string string
  | VRemove string

fun vop_do :: "(string \<Rightarrow> string \<Rightarrow> bool) \<Rightarrow> vio \<Rightarrow> vop \<Rightarrow> vdisk \<Rightarrow> vless_err option \<times> vdisk" where
  "vop_do eqf io (VAdd ur sr date nm) d =
     (case add_client eqf io ur sr date nm d of (Inl e, d1) \<Rightarrow> (Some e, d1) | (Inr c, d1) \<Rightarrow> (None, d1))"
| "vop_do eqf io (VRemove nm) d =
     (case remove_client eqf io nm d of (Inl e, d1) \<Rightarrow> (Some e, d1) | (Inr b, d1) \<Rightarrow> (None, d1))"

fun vop_abs :: "(string \<Rightarrow> string \<Rightarrow> bool) \<Rightarrow> vop \<Rightarrow> vclient list \<Rightarrow> vclient list \<Rightarrow> bool" where
  "vop_abs eqf (VAdd ur sr date nm) cs cs' \<longleftrightarrow>
     (\<exists>c. cs' = cs @ [c] \<and> new_vclient ur sr date nm = Inr c \<and> \<not> (\<exists>c \<in> set cs. eqf (vc_name c) nm))"
| "vop_abs eqf (VRemove nm) cs cs' \<longleftrightarrow> cs' = filter (\<lambda>c. \<not> eqf (vc_name c) nm) cs"

text \<open>A save from a state in sync.\<close>

lemma in_sync_save:
  assumes "in_sync n cs d" and "save_clients io n cs' d = (r, d')"
  shows "if r = None then in_sync n cs' d'
    else d' = d \<or> (io_write (vi_config io) \<noteq> None \<and> d' = d\<lparr>vd_clients := Some (line (vclients_json cs'))\<rparr>)"
  using save_clients_cases [OF assms(2)] assms(1) by (auto simp: in_sync_def)

lemma add_client_cases:
  assumes "add_client eqf io ur sr date nm d = (res, d')"
  obtains (refused) e where "res = Inl e" "d' = d"
  | (saved) n cs c r where "load_node io d = Inr n" "load_clients io d = Inr cs"
      "find (\<lambda>c. eqf (vc_name c) nm) cs = None" "new_vclient ur sr date nm = Inr c"
      "save_clients io n (cs @ [c]) d = (r, d')" "res = (case r of None \<Rightarrow> Inr c | Some e \<Rightarrow> Inl e)"
  using assms that unfolding add_client_def
  by (simp split: option.splits sum.splits prod.splits) (metis | auto)+

lemma remove_client_cases:
  assumes "remove_client eqf io nm d = (res, d')"
  obtains (refused) e where "res = Inl e" "d' = d"
  | (unknown) n cs where "load_node io d = Inr n" "load_clients io d = Inr cs"
      "filter (\<lambda>c. \<not> eqf (vc_name c) nm) cs = cs" "res = Inr False" "d' = d"
  | (saved) n cs r where "load_node io d = Inr n" "load_clients io d = Inr cs"
      "save_clients io n (filter (\<lambda>c. \<not> eqf (vc_name c) nm) cs) d = (r, d')"
      "res = (case r of None \<Rightarrow> Inr True | Some e \<Rightarrow> Inl e)"
proof -
  have all: "filter P xs = xs" if "length (filter P xs) = length xs" for P and xs :: "vclient list"
    using that by (metis filter_id_conv length_filter_less nat_neq_iff)
  show thesis
  proof (cases "vi_lock io = None \<and> ok (load_node io d) \<and> ok (load_clients io d)")
    case False
    with assms show thesis
      by (auto simp: remove_client_def split: option.splits sum.splits intro: refused)
  next
    case True
    then obtain n cs where l: "vi_lock io = None" "load_node io d = Inr n" "load_clients io d = Inr cs"
      by (cases "load_node io d"; cases "load_clients io d") auto
    let ?kept = "filter (\<lambda>c. \<not> eqf (vc_name c) nm) cs"
    obtain r d1 where sv: "save_clients io n ?kept d = (r, d1)" by fastforce
    show thesis
    proof (cases "length ?kept = length cs")
      case True
      with assms l have "res = Inr False" "d' = d" by (simp_all add: remove_client_def Let_def)
      with l True show thesis by (intro unknown [OF l(2,3)] all)
    next
      case False
      with assms l sv have "res = (case r of None \<Rightarrow> Inr True | Some e \<Rightarrow> Inl e)" "d' = d1"
        by (cases r; simp add: remove_client_def)+
      with l sv show thesis by (intro saved [OF l(2,3)]) auto
    qed
  qed
qed

lemma vop_refines:
  assumes sync: "in_sync n cs d" and fits: "fits_file cs" and op: "vop_do eqf io x d = (r, d')"
  shows "if r = None then \<exists>cs'. vop_abs eqf x cs cs' \<and> in_sync n cs' d'
    else d' = d \<or> (\<exists>cs'. vop_abs eqf x cs cs' \<and> io_write (vi_config io) \<noteq> None
      \<and> d' = d\<lparr>vd_clients := Some (line (vclients_json cs'))\<rparr>)"
proof -
  from sync have ln: "load_node vio_fine d = Inr n" and lc: "load_clients io d = Inr cs1 \<Longrightarrow> cs1 = cs" for cs1
    using load_clients_listed [OF _ fits, of d io]
    by (auto simp: in_sync_def dest: xray_config_Inr split: if_splits)
  show ?thesis
  proof (cases x)
    case (VAdd ur sr date nm)
    obtain res d1 where a: "add_client eqf io ur sr date nm d = (res, d1)" by fastforce
    with op VAdd have res: "r = (case res of Inl e \<Rightarrow> Some e | Inr c \<Rightarrow> None)" "d' = d1"
      by (auto split: sum.splits)
    from a show ?thesis
    proof (cases rule: add_client_cases)
      case (saved m cs1 c r1)
      with ln lc load_node_any have "m = n" "cs1 = cs" by auto
      moreover from saved(6) res(1) have "r = r1" by (cases r1) simp_all
      moreover from calculation(2) saved(3,4) VAdd have "vop_abs eqf x cs (cs @ [c])"
        by (auto simp: find_None_iff)
      ultimately show ?thesis using in_sync_save [OF sync] saved(5) res(2) by metis
    qed (use res in simp)
  next
    case (VRemove nm)
    obtain res d1 where a: "remove_client eqf io nm d = (res, d1)" by fastforce
    with op VRemove have res: "r = (case res of Inl e \<Rightarrow> Some e | Inr c \<Rightarrow> None)" "d' = d1"
      by (auto split: sum.splits)
    from a show ?thesis
    proof (cases rule: remove_client_cases)
      case (unknown m cs1)
      with lc sync res VRemove show ?thesis by auto
    next
      case (saved m cs1 r1)
      with ln lc load_node_any have "m = n" "cs1 = cs" by auto
      moreover from saved(4) res(1) have "r = r1" by (cases r1) simp_all
      ultimately show ?thesis using in_sync_save [OF sync] saved(3) res(2) VRemove vop_abs.simps(2) by metis
    qed (use res in simp)
  qed
qed

lemma first_invalid_None: "first_invalid cs = None \<longleftrightarrow> (\<forall>c \<in> set cs. client_validate c = None)"
  by (induction cs) (auto simp: first_invalid_def List.map_filter_simps split: list.splits option.splits)

lemma load_node_readable:
  "load_node vio_fine d = Inr n \<Longrightarrow> io_read (vi_node io) = None \<Longrightarrow> load_node io d = Inr n"
  by (cases "vd_node d") (simp_all add: load_node_def read_capped_def vio_fine_def io_fine_def)

lemma half_done:
  assumes sync: "in_sync n cs d" and fits: "fits_file cs" "fits_file (filter (\<lambda>c. \<not> eqf (vc_name c) nm) cs)"
    and c: "c \<in> set cs" "eqf (vc_name c) nm"
    and io: "vi_lock io = None" "io_read (vi_node io) = None" "vi_clients io = io_fine"
      "io_write (vi_config io) = Some e"
  shows "\<exists>d1. remove_client eqf io nm d = (Inl (VlessFile (WriteFailed e)), d1)
    \<and> vd_config d1 = vd_config d \<and> vd_config d1 = Some (line (xray_config_json n cs))
    \<and> load_clients vio_fine d1 = Inr (filter (\<lambda>c. \<not> eqf (vc_name c) nm) cs)
    \<and> remove_client eqf vio_fine nm d1 = (Inr False, d1)"
proof -
  let ?kept = "filter (\<lambda>c. \<not> eqf (vc_name c) nm) cs"
  let ?d1 = "d\<lparr>vd_clients := Some (line (vclients_json ?kept))\<rparr>"
  from sync obtain t where t: "load_node vio_fine d = Inr n" "vd_clients d = Some (line (vclients_json cs))"
    "xray_config n cs = Inr t" "vd_config d = Some t" by (auto simp: in_sync_def)
  from xray_config_Inr [OF t(3)] have v: "first_invalid cs = None" "node_validate n = None" by simp_all
  then have vk: "first_invalid ?kept = None" by (simp add: first_invalid_None)
  then have xk: "xray_config n ?kept = Inr (line (xray_config_json n ?kept))"
    using v(2) by (simp add: xray_config_def line_def)
  have lk: "length ?kept \<noteq> length cs" using c by (metis (mono_tags, lifting) filter_id_conv
      length_filter_less nat_neq_iff)
  have lc: "load_clients io d = Inr cs"
    using load_clients_listed [OF t(2) fits(1) v(1), of io] io(3) by (simp add: io_fine_def)
  have "save_clients io n ?kept d = (Some (VlessFile (WriteFailed e)), ?d1)"
    using io(3,4) by (simp add: save_clients_def write_config_def write_text_def xk io_fine_def)
  then have "remove_client eqf io nm d = (Inl (VlessFile (WriteFailed e)), ?d1)"
    using lk lc io(1) load_node_readable [OF t(1) io(2)] by (simp add: remove_client_def Let_def)
  moreover have l1: "load_clients vio_fine ?d1 = Inr ?kept"
    using load_clients_listed [OF _ fits(2) vk, of ?d1 vio_fine] by (simp add: vio_fine_def io_fine_def)
  moreover have "remove_client eqf vio_fine nm ?d1 = (Inr False, ?d1)"
    using l1 t(1) by (simp add: remove_client_def vio_fine_def)
  moreover have "vd_config ?d1 = Some (line (xray_config_json n cs))"
    using t(3,4) v by (simp add: xray_config_def line_def)
  ultimately show ?thesis using t(4) by auto
qed

text \<open>A name that only differs in the blanks around it passes the check for a second credential.\<close>

lemma add_untrimmed_duplicates:
  assumes "in_sync n cs d" and "fits_file cs" and "\<not> (\<exists>c \<in> set cs. eqf (vc_name c) nm)"
    and "b \<in> set cs" and "vc_name b = trim_space nm"
    and "vop_do eqf io (VAdd ur sr date nm) d = (None, d')"
  shows "\<exists>c cs'. in_sync n cs' d' \<and> cs' = cs @ [c] \<and> vc_name c = vc_name b"
proof -
  from vop_refines [OF assms(1,2,6)] obtain c where "in_sync n (cs @ [c]) d'" "new_vclient ur sr date nm = Inr c"
    by auto
  with new_vclient_valid [of ur sr date nm c] assms(5) show ?thesis by auto
qed

section \<open>Properties\<close>

text \<open>(C31) The files of a node follow the list of clients: from files that agree, a successful \<open>Add\<close> or
  \<open>Remove\<close> leaves files that agree on the list with the fresh client appended, or with everyone of
  that name gone; a failed one leaves all files alone, unless it is the configuration that could not
  be written: then the list alone is the new one.\<close>

theorem vless_store_refines:
  assumes "in_sync n cs d" and "fits_file cs" and "vop_do eqf io x d = (r, d')"
  shows "if r = None then \<exists>cs'. vop_abs eqf x cs cs' \<and> in_sync n cs' d'
    else d' = d \<or> (\<exists>cs'. vop_abs eqf x cs cs' \<and> io_write (vi_config io) \<noteq> None
      \<and> d' = d\<lparr>vd_clients := Some (line (vclients_json cs'))\<rparr>)"
  using assms by (rule vop_refines)

definition sample_node :: node where
  "sample_node = \<lparr>nd_address = ''n.io'', nd_port = 443, nd_label = [], nd_listen = [],
     nd_private = ''AAAAAAAAAAAAAAAAAAAAAAAAAAAAAAAAAAAAAAAAAAA'',
     nd_public = ''BAAAAAAAAAAAAAAAAAAAAAAAAAAAAAAAAAAAAAAAAAA'', nd_dest = ''a.io:1'',
     nd_server_names = [''a.io''], nd_fingerprint = ''chrome''\<rparr>"

definition bob :: vclient where
  "bob = \<lparr>vc_name = ''bob'', vc_uuid = new_uuid (replicate 16 0), vc_short_id = hex_encode (replicate 8 0),
     vc_created = ''now''\<rparr>"

definition sample_disk :: "vclient list \<Rightarrow> vdisk" where
  "sample_disk cs = \<lparr>vd_node = Some (line (node_json sample_node)), vd_clients = Some (line (vclients_json cs)),
     vd_config = Some (line (xray_config_json sample_node cs))\<rparr>"

lemma sample_node_valid: "node_validate sample_node = None"
  by code_simp

lemma sample_sync:
  assumes "first_invalid cs = None"
  shows "in_sync sample_node cs (sample_disk cs)"
proof -
  have "length (line (node_json sample_node)) \<le> vless_max_bytes"
    by (simp add: line_def node_json_def opt_member_def jstrs_def sample_node_def json_marshal_indent_def
        json_indent_def jint_def json_string_def esc_char_def int_str_def nat_str.simps vless_max_bytes_def)
  moreover have "node_of_json (node_json sample_node) = Some sample_node"
    by (rule node_of_json_json) (simp add: sample_node_def int64_range_def)
  ultimately have "load_node vio_fine (sample_disk cs) = Inr sample_node"
    using node_json_wf [of sample_node] sample_node_valid
    by (simp add: load_node_def read_capped_def vio_fine_def io_fine_def sample_disk_def line_def)
  then show ?thesis using assms sample_node_valid
    by (simp add: in_sync_def sample_disk_def xray_config_def line_def)
qed

lemma bob_valid: "first_invalid [bob] = None"
  using new_vclient_ok [of "replicate 16 0" "replicate 8 0" "''bob''" "''now''"]
  by (simp add: first_invalid_None bob_def short_id_bytes_def trim_space_def is_space_def
      new_vclient_def Let_def split: option.splits if_splits)

lemma bob_fits: "fits_file [bob]" "fits_file []"
proof -
  have "new_uuid (replicate 16 0) = ''00000000-0000-4000-8000-000000000000''" by code_simp
  moreover have "hex_encode (replicate 8 0) = ''0000000000000000''" by code_simp
  ultimately show "fits_file [bob]"
    by (simp add: fits_file_def line_def vclients_json_def vclient_json_def bob_def json_marshal_indent_def
        json_indent_def json_string_def esc_char_def vless_max_bytes_def)
  show "fits_file []"
    by (simp add: fits_file_def line_def vclients_json_def json_marshal_indent_def
        json_indent_def json_string_def esc_char_def vless_max_bytes_def)
qed

theorem vless_store_refines_witness:
  "\<exists>d'. vop_do equal_fold vio_fine (VRemove ''BOB'') (sample_disk [bob]) = (None, d') \<and> in_sync sample_node [] d'"
proof -
  obtain r d' where op: "vop_do equal_fold vio_fine (VRemove ''BOB'') (sample_disk [bob]) = (r, d')" by fastforce
  have f: "equal_fold (vc_name bob) ''BOB''" by code_simp
  note ref = vless_store_refines [OF sample_sync [OF bob_valid] bob_fits(1) op]
  have "io_write (vi_config vio_fine) = None" by (simp add: vio_fine_def io_fine_def)
  moreover have "r = None"
  proof -
    have "load_clients vio_fine (sample_disk [bob]) = Inr [bob]"
      using load_clients_listed [OF _ bob_fits(1) bob_valid, of "sample_disk [bob]" vio_fine]
      by (simp add: vio_fine_def io_fine_def sample_disk_def)
    moreover have "xray_config sample_node [] = Inr (line (xray_config_json sample_node []))"
      using sample_node_valid first_invalid_None [of "[]"] by (simp add: xray_config_def line_def)
    ultimately show ?thesis using op f sample_sync [OF bob_valid]
      by (auto simp: in_sync_def remove_client_def vio_fine_def io_fine_def save_clients_def write_config_def
          write_text_def split: sum.splits)
  qed
  ultimately show ?thesis using ref op f by auto
qed

text \<open>A revocation that fails half-way stays half-way: when \<open>Remove\<close> cannot write the configuration, the
  list no longer names the person while the configuration Xray runs with is the old one, with their
  credential; and from then on \<open>Remove\<close> reports that there is nothing to remove and repairs nothing,
  although the comment on the order of the two writes promises that the configuration never grants
  what the list does not record.\<close>

theorem revoke_half_done:
  assumes "in_sync n cs d" and "fits_file cs" "fits_file (filter (\<lambda>c. \<not> eqf (vc_name c) nm) cs)"
    and "c \<in> set cs" "eqf (vc_name c) nm"
    and "vi_lock io = None" "io_read (vi_node io) = None" "vi_clients io = io_fine"
      "io_write (vi_config io) = Some e"
  shows "\<exists>d1. remove_client eqf io nm d = (Inl (VlessFile (WriteFailed e)), d1)
    \<and> vd_config d1 = vd_config d \<and> vd_config d1 = Some (line (xray_config_json n cs))
    \<and> load_clients vio_fine d1 = Inr (filter (\<lambda>c. \<not> eqf (vc_name c) nm) cs)
    \<and> remove_client eqf vio_fine nm d1 = (Inr False, d1)"
  using assms by (rule half_done)

theorem revoke_half_done_witness:
  "\<exists>d1. remove_client equal_fold (vio_fine\<lparr>vi_config := \<lparr>io_lock = None, io_read = None, io_write = Some ''full''\<rparr>\<rparr>)
      ''bob'' (sample_disk [bob]) = (Inl (VlessFile (WriteFailed ''full'')), d1)
    \<and> vd_config d1 = Some (line (xray_config_json sample_node [bob]))
    \<and> remove_client equal_fold vio_fine ''bob'' d1 = (Inr False, d1)"
proof -
  have f: "equal_fold (vc_name bob) ''bob''" by (simp add: bob_def)
  show ?thesis
    using revoke_half_done [OF sample_sync [OF bob_valid] bob_fits(1), of equal_fold "''bob''" bob
        "vio_fine\<lparr>vi_config := \<lparr>io_lock = None, io_read = None, io_write = Some ''full''\<rparr>\<rparr>" "''full''"]
      f bob_fits(2) by (auto simp: vio_fine_def io_fine_def)
qed

end
