(* ===== verification/Paths.thy ===== *)
theory Paths
  imports Prelude
begin

text \<open>
  File names, as the packages \<open>path\<close> and \<open>path/filepath\<close> of the standard library read them on Unix:
  the last element of a path, its extension, and the lexical normal form. A normal form with a part
  that is neither empty nor \<open>..\<close> names something below the directory it is joined to.
\<close>

definition slash :: char where "slash = CHR 0x2F"

definition strip_slashes :: "string \<Rightarrow> string" where
  "strip_slashes p = rev (dropWhile (\<lambda>c. c = slash) (rev p))"

definition path_base :: "string \<Rightarrow> string" where
  "path_base p =
     (if p = [] then ''.''
      else (let b = rev (takeWhile (\<lambda>c. c \<noteq> slash) (rev (strip_slashes p)))
            in if b = [] then [slash] else b))"

definition path_ext :: "string \<Rightarrow> string" where
  "path_ext p =
     (let b = rev (takeWhile (\<lambda>c. c \<noteq> slash) (rev p));
          e = takeWhile (\<lambda>c. c \<noteq> CHR ''.'') (rev b)
      in if length e = length b then [] else CHR ''.'' # rev e)"

definition has_prefix :: "string \<Rightarrow> string \<Rightarrow> bool" where
  "has_prefix s p \<longleftrightarrow> take (length p) s = p"

definition has_suffix :: "string \<Rightarrow> string \<Rightarrow> bool" where
  "has_suffix s t \<longleftrightarrow> length t \<le> length s \<and> drop (length s - length t) s = t"

text \<open>\<open>path.Clean\<close>: empty and \<open>.\<close> elements vanish, \<open>..\<close> takes the element before it away.\<close>

fun clean_parts :: "bool \<Rightarrow> string list \<Rightarrow> string list \<Rightarrow> string list" where
  "clean_parts rooted acc [] = rev acc"
| "clean_parts rooted acc (p # ps) =
     (if p = [] \<or> p = ''.'' then clean_parts rooted acc ps
      else if p = ''..'' then
        (case acc of
           [] \<Rightarrow> clean_parts rooted (if rooted then [] else [''..'']) ps
         | q # qs \<Rightarrow> clean_parts rooted (if q = ''..'' then ''..'' # acc else qs) ps)
      else clean_parts rooted (p # acc) ps)"

definition path_clean :: "string \<Rightarrow> string" where
  "path_clean s =
     (if s = [] then ''.''
      else (let rooted = (hd s = slash); body = join [slash] (clean_parts rooted [] (split_char slash s))
            in if rooted then slash # body else if body = [] then ''.'' else body))"

section \<open>Lemmas\<close>

lemma has_suffix_iff: "has_suffix s t \<longleftrightarrow> (\<exists>u. s = u @ t)"
  unfolding has_suffix_def
  by (metis append_eq_conv_conj append_take_drop_id diff_diff_cancel length_append le_add2 add_diff_cancel_right'
      length_drop)

lemma has_prefix_iff: "has_prefix s p \<longleftrightarrow> (\<exists>u. s = p @ u)"
  unfolding has_prefix_def by (metis append_eq_conv_conj append_take_drop_id)

lemma split_char_parts: "p \<in> set (split_char d s) \<Longrightarrow> d \<notin> set p"
proof (induction s arbitrary: p)
  case (Cons c s)
  then show ?case
    by (cases "split_char d s") (auto split: if_splits)
qed simp

lemma split_join: "ps \<noteq> [] \<Longrightarrow> \<forall>p \<in> set ps. d \<notin> set p \<Longrightarrow> split_char d (join [d] ps) = ps"
  by (induction "[d]" ps rule: join.induct) (auto simp: split_char_single split_char_append)

text \<open>Every element of a normal form is proper, but for \<open>..\<close> at the front of a relative one.\<close>

definition proper :: "string \<Rightarrow> bool" where
  "proper p \<longleftrightarrow> p \<noteq> [] \<and> p \<noteq> ''.'' \<and> p \<noteq> ''..'' \<and> slash \<notin> set p"

lemma clean_parts_shape:
  assumes "\<forall>p \<in> set ps. slash \<notin> set p" and "\<forall>x \<in> set xs. proper x"
  shows "\<exists>m ys. clean_parts rooted (xs @ replicate n ''..'') ps = replicate m ''..'' @ ys \<and> (\<forall>y \<in> set ys. proper y)"
  using assms
proof (induction ps arbitrary: xs n)
  case Nil
  then show ?case by (intro exI [of _ n] exI [of _ "rev xs"]) simp
next
  case (Cons p ps)
  note IH = Cons.IH
  have s: "\<forall>p \<in> set ps. slash \<notin> set p" using Cons.prems by simp
  consider "p = [] \<or> p = ''.''" | "proper p" | "p = ''..''" using Cons.prems by (auto simp: proper_def)
  then show ?case
  proof cases
    case 1
    with IH [OF s Cons.prems(2)] show ?thesis by simp
  next
    case 2
    with IH [OF s, of "p # xs" n] Cons.prems show ?thesis by (simp add: proper_def)
  next
    case 3
    show ?thesis
    proof (cases xs)
      case (Cons y ys)
      with IH [OF s, of ys n] Cons.prems(2) 3 show ?thesis by (auto simp: proper_def)
    next
      case Nil
      with IH [OF s, of "[]" "if rooted \<and> n = 0 then 0 else Suc n"] 3 show ?thesis
        by (cases n) (auto simp: replicate_app_Cons_same, blast+)
    qed
  qed
qed

lemma path_clean_shape:
  assumes "s \<noteq> []" and "hd s \<noteq> slash"
  shows "\<exists>m ys. (\<forall>y \<in> set ys. proper y) \<and>
    path_clean s = (if replicate m ''..'' @ ys = [] then ''.'' else join [slash] (replicate m ''..'' @ ys))"
proof -
  have "\<forall>p \<in> set (split_char slash s). slash \<notin> set p" using split_char_parts by blast
  then have "\<exists>m ys. clean_parts False ([] @ replicate 0 ''..'') (split_char slash s) = replicate m ''..'' @ ys
      \<and> (\<forall>y \<in> set ys. proper y)"
    by (rule clean_parts_shape) simp
  then obtain m ys where c: "clean_parts False [] (split_char slash s) = replicate m ''..'' @ ys"
    and ys: "\<forall>y \<in> set ys. proper y" by fastforce
  have "join [slash] ps = [] \<longleftrightarrow> ps = [] \<or> ps = [[]]" for ps
    by (induction "[slash]" ps rule: join.induct) auto
  moreover have "[] \<notin> set (replicate m ''..'' @ ys)" using ys by (auto simp: proper_def)
  ultimately have "join [slash] (replicate m ''..'' @ ys) = [] \<longleftrightarrow> replicate m ''..'' @ ys = []"
    by (metis list.set_intros(1))
  with c ys assms show ?thesis
    by (intro exI [of _ m] exI [of _ ys]) (simp add: path_clean_def Let_def)
qed

text \<open>Names that are their own last element.\<close>

lemma path_base_plain:
  assumes "path_base s = s"
  shows "s = [slash] \<or> slash \<notin> set s"
proof (rule ccontr)
  let ?b = "rev (takeWhile (\<lambda>c. c \<noteq> slash) (rev (strip_slashes s)))"
  assume "\<not> (s = [slash] \<or> slash \<notin> set s)"
  with assms have "s = ?b" and "slash \<in> set s"
    by (auto simp: path_base_def Let_def split: if_splits)
  moreover have "slash \<notin> set ?b" by (auto dest: set_takeWhileD)
  ultimately show False by simp
qed

end
