(* ===== verification/Ca.thy ===== *)
theory Ca
  imports Revoke Paths
begin

text \<open>
  The certificate authority (\<open>src/internal/ca/ca.go\<close>) and its ledger of issued client certificates
  (\<open>ledger.go\<close>). The CA directory is a map from paths below it to the contents of the files; every
  file is replaced whole, by a rename. What the file system answers, the random serials and keys and
  the clock are arguments; signing, parsing and PEM encoding are a record of functions. The deny-list
  \<open>revoked.json\<close> is the store of the theory \<open>Revoke\<close>.
\<close>

type_synonym tree = "string \<Rightarrow> string option"

section \<open>Files\<close>

record ca_io =
  ca_mkdir :: "string option"
  ca_stat :: "string \<Rightarrow> string option"
  ca_read :: "string \<Rightarrow> string option"
  ca_write :: "string \<Rightarrow> string option"
  ca_deny :: "nat \<Rightarrow> file_io"

definition ca_io_fine :: ca_io where
  "ca_io_fine = \<lparr>ca_mkdir = None, ca_stat = (\<lambda>p. None), ca_read = (\<lambda>p. None), ca_write = (\<lambda>p. None),
     ca_deny = (\<lambda>i. io_fine)\<rparr>"

datatype ca_err =
    InvalidName string
  | CaExists
  | CaIo file_err
  | StatFails string
  | MkdirFails string
  | KeyFails string
  | SerialFails string
  | SignFails string
  | ParseFails string
  | EncodeFails string
  | NoPemBlock
  | NotEcdsa
  | LedgerSerial string string
  | DenyFails string file_err

definition write_file_atomic :: "ca_io \<Rightarrow> string \<Rightarrow> string \<Rightarrow> tree \<Rightarrow> ca_err option \<times> tree" where
  "write_file_atomic io p t fs =
     (case ca_write io p of
        Some e \<Rightarrow> (Some (CaIo (WriteFailed e)), fs) | None \<Rightarrow> (None, fs(p \<mapsto> t)))"

definition read_file :: "ca_io \<Rightarrow> string \<Rightarrow> tree \<Rightarrow> ca_err + string" where
  "read_file io p fs =
     (case fs p of
        None \<Rightarrow> Inl (CaIo NotExist)
      | Some t \<Rightarrow> (case ca_read io p of Some e \<Rightarrow> Inl (CaIo (ReadFails e)) | None \<Rightarrow> Inr t))"

section \<open>Certificates\<close>

datatype key_usage = UsageCertSign | UsageCrlSign | UsageDigitalSignature
datatype ext_usage = ServerAuth | ClientAuth

text \<open>A certificate, as a template before it is signed and as what parsing it gives.\<close>

record certificate =
  ct_serial :: int
  ct_cn :: string
  ct_not_before :: int
  ct_not_after :: int
  ct_usage :: "key_usage set"
  ct_ext_usage :: "ext_usage list"
  ct_dns :: "string list"
  ct_ips :: "bytes list"
  ct_is_ca :: bool
  ct_path_len_zero :: bool
  ct_basic :: bool

text \<open>\<open>xl_sign tpl parent subject signer\<close> is the DER text or an error; a private key stands for its
  public one. \<open>xl_parse_key\<close> yields \<open>None\<close> for a key that is not an ECDSA key.\<close>

record 'k ca_lib =
  xl_sign :: "certificate \<Rightarrow> certificate \<Rightarrow> 'k \<Rightarrow> 'k \<Rightarrow> string + string"
  xl_parse :: "string \<Rightarrow> string + certificate"
  xl_pkcs8 :: "'k \<Rightarrow> string + string"
  xl_parse_key :: "string \<Rightarrow> string + 'k option"
  xl_pem :: "string \<Rightarrow> string \<Rightarrow> string"
  xl_unpem :: "string \<Rightarrow> string option"

definition day :: int where "day = 24 * 3600 * 1000000000"
definition ca_validity :: int where "ca_validity = 10 * 365 * day"
definition server_validity :: int where "server_validity = 365 * day"
definition client_validity :: int where "client_validity = 365 * day"

definition base_template :: "int \<Rightarrow> string + int \<Rightarrow> string \<Rightarrow> int \<Rightarrow> ca_err + certificate" where
  "base_template now serial cn validity =
     (case serial of
        Inl e \<Rightarrow> Inl (SerialFails e)
      | Inr s \<Rightarrow> Inr \<lparr>ct_serial = s, ct_cn = cn, ct_not_before = now - 60 * 1000000000,
          ct_not_after = now + validity, ct_usage = {}, ct_ext_usage = [], ct_dns = [], ct_ips = [],
          ct_is_ca = False, ct_path_len_zero = False, ct_basic = True\<rparr>)"

definition write_cert :: "'k ca_lib \<Rightarrow> ca_io \<Rightarrow> string \<Rightarrow> string \<Rightarrow> tree \<Rightarrow> ca_err option \<times> tree" where
  "write_cert L io p der fs = write_file_atomic io p (xl_pem L ''CERTIFICATE'' der) fs"

definition write_key :: "'k ca_lib \<Rightarrow> ca_io \<Rightarrow> string \<Rightarrow> 'k \<Rightarrow> tree \<Rightarrow> ca_err option \<times> tree" where
  "write_key L io p k fs =
     (case xl_pkcs8 L k of
        Inl e \<Rightarrow> (Some (EncodeFails e), fs)
      | Inr der \<Rightarrow> write_file_atomic io p (xl_pem L ''PRIVATE KEY'' der) fs)"

definition parse_cert :: "'k ca_lib \<Rightarrow> string \<Rightarrow> ca_err + certificate" where
  "parse_cert L t =
     (case xl_unpem L t of
        None \<Rightarrow> Inl NoPemBlock
      | Some der \<Rightarrow> (case xl_parse L der of Inl e \<Rightarrow> Inl (ParseFails e) | Inr c \<Rightarrow> Inr c))"

definition read_cert :: "'k ca_lib \<Rightarrow> ca_io \<Rightarrow> string \<Rightarrow> tree \<Rightarrow> ca_err + certificate" where
  "read_cert L io p fs = rbind (read_file io p fs) (parse_cert L)"

definition parse_key :: "'k ca_lib \<Rightarrow> string \<Rightarrow> ca_err + 'k" where
  "parse_key L t =
     (case xl_unpem L t of
        None \<Rightarrow> Inl NoPemBlock
      | Some der \<Rightarrow>
          (case xl_parse_key L der of
             Inl e \<Rightarrow> Inl (ParseFails e) | Inr None \<Rightarrow> Inl NotEcdsa | Inr (Some k) \<Rightarrow> Inr k))"

definition read_key :: "'k ca_lib \<Rightarrow> ca_io \<Rightarrow> string \<Rightarrow> tree \<Rightarrow> ca_err + 'k" where
  "read_key L io p fs = rbind (read_file io p fs) (parse_key L)"

section \<open>The authority\<close>

record 'k authority =
  au_cert :: certificate
  au_key :: 'k

definition ca_template :: "int \<Rightarrow> int \<Rightarrow> string \<Rightarrow> certificate" where
  "ca_template now s cn = \<lparr>ct_serial = s, ct_cn = cn, ct_not_before = now - 60 * 1000000000,
     ct_not_after = now + ca_validity, ct_usage = {UsageCertSign, UsageCrlSign}, ct_ext_usage = [],
     ct_dns = [], ct_ips = [], ct_is_ca = True, ct_path_len_zero = True, ct_basic = True\<rparr>"

text \<open>Nothing of an authority may be there yet: both files are looked for.\<close>

definition assert_no_ca :: "ca_io \<Rightarrow> tree \<Rightarrow> ca_err + unit list" where
  "assert_no_ca io fs =
     rtraverse (\<lambda>p. case ca_stat io p of
         Some e \<Rightarrow> Inl (StatFails e)
       | None \<Rightarrow> (if fs p \<noteq> None then Inl CaExists else Inr ())) [''ca.crt'', ''ca.key'']"

definition ca_create ::
    "'k ca_lib \<Rightarrow> ca_io \<Rightarrow> int \<Rightarrow> string + 'k \<Rightarrow> string + int \<Rightarrow> string \<Rightarrow> tree
     \<Rightarrow> (ca_err + 'k authority) \<times> tree" where
  "ca_create L io now key serial cn fs =
     (case ca_mkdir io of
        Some e \<Rightarrow> (Inl (MkdirFails e), fs)
      | None \<Rightarrow>
     (case assert_no_ca io fs of
        Inl e \<Rightarrow> (Inl e, fs)
      | Inr us \<Rightarrow>
     (case key of
        Inl e \<Rightarrow> (Inl (KeyFails e), fs)
      | Inr k \<Rightarrow>
     (case serial of
        Inl e \<Rightarrow> (Inl (SerialFails e), fs)
      | Inr s \<Rightarrow>
     (let tpl = ca_template now s cn in
      case xl_sign L tpl tpl k k of
        Inl e \<Rightarrow> (Inl (SignFails e), fs)
      | Inr der \<Rightarrow>
     (case xl_parse L der of
        Inl e \<Rightarrow> (Inl (ParseFails e), fs)
      | Inr c \<Rightarrow>
     (case write_key L io ''ca.key'' k fs of
        (Some e, fs1) \<Rightarrow> (Inl e, fs1)
      | (None, fs1) \<Rightarrow>
     (case write_cert L io ''ca.crt'' der fs1 of
        (Some e, fs2) \<Rightarrow> (Inl e, fs2)
      | (None, fs2) \<Rightarrow> (Inr \<lparr>au_cert = c, au_key = k\<rparr>, fs2)))))))))"

definition ca_load :: "'k ca_lib \<Rightarrow> ca_io \<Rightarrow> tree \<Rightarrow> ca_err + 'k authority" where
  "ca_load L io fs =
     rbind (read_cert L io ''ca.crt'' fs) (\<lambda>c.
       rbind (read_key L io ''ca.key'' fs) (\<lambda>k. Inr \<lparr>au_cert = c, au_key = k\<rparr>))"

text \<open>\<open>checkClientName\<close>. \<open>filepath.Join\<close> of a name that passes is the name below the directory; the one
  such name with a slash is the slash itself.\<close>

definition check_client_name :: "string \<Rightarrow> bool" where
  "check_client_name nm \<longleftrightarrow> nm \<noteq> [] \<and> nm \<noteq> ''.'' \<and> nm \<noteq> ''..'' \<and> nm = path_base nm"

definition in_dir :: "string \<Rightarrow> string \<Rightarrow> string \<Rightarrow> string" where
  "in_dir dir nm ext = dir @ slash # dropWhile (\<lambda>c. c = slash) (nm @ ext)"

definition client_cert :: "string \<Rightarrow> string" where "client_cert nm = in_dir ''clients'' nm ''.crt''"
definition client_key :: "string \<Rightarrow> string" where "client_key nm = in_dir ''clients'' nm ''.key''"

definition issue_to ::
    "'k ca_lib \<Rightarrow> ca_io \<Rightarrow> string + 'k \<Rightarrow> 'k authority \<Rightarrow> certificate \<Rightarrow> string \<Rightarrow> string \<Rightarrow> tree
     \<Rightarrow> ca_err option \<times> tree" where
  "issue_to L io key a tpl dir base fs =
     (if \<not> check_client_name base then (Some (InvalidName base), fs)
      else case ca_mkdir io of
        Some e \<Rightarrow> (Some (MkdirFails e), fs)
      | None \<Rightarrow>
     (case key of
        Inl e \<Rightarrow> (Some (KeyFails e), fs)
      | Inr k \<Rightarrow>
     (case xl_sign L tpl (au_cert a) k (au_key a) of
        Inl e \<Rightarrow> (Some (SignFails e), fs)
      | Inr der \<Rightarrow>
     (case write_key L io (in_dir dir base ''.key'') k fs of
        (Some e, fs1) \<Rightarrow> (Some e, fs1)
      | (None, fs1) \<Rightarrow> write_cert L io (in_dir dir base ''.crt'') der fs1))))"

definition issue_server ::
    "'k ca_lib \<Rightarrow> ca_io \<Rightarrow> int \<Rightarrow> string + 'k \<Rightarrow> string + int \<Rightarrow> 'k authority \<Rightarrow> string \<Rightarrow> string list
     \<Rightarrow> bytes list \<Rightarrow> tree \<Rightarrow> ca_err option \<times> tree" where
  "issue_server L io now key serial a cn dns ips fs =
     (case base_template now serial cn server_validity of
        Inl e \<Rightarrow> (Some e, fs)
      | Inr tpl \<Rightarrow>
          issue_to L io key a (tpl\<lparr>ct_usage := {UsageDigitalSignature}, ct_ext_usage := [ServerAuth],
            ct_dns := dns, ct_ips := ips\<rparr>) ''server'' ''server'' fs)"

section \<open>The ledger\<close>

record issued =
  is_name :: string
  is_serial :: string
  is_at :: int

definition ledger_max_bytes :: nat where "ledger_max_bytes = 8 * 2 ^ 20"

definition issued_json :: "time_codec \<Rightarrow> issued \<Rightarrow> json" where
  "issued_json tc e =
     JObj [(''name'', JStr (is_name e)), (''serial'', JStr (is_serial e)),
           (''issuedAt'', JStr (tc_text tc (is_at e)))]"

definition ledger_json :: "time_codec \<Rightarrow> issued list \<Rightarrow> json" where
  "ledger_json tc es = JObj [(''issued'', JArr (map (issued_json tc) es))]"

fun issued_of_json :: "time_codec \<Rightarrow> json \<Rightarrow> issued option" where
  "issued_of_json tc (JObj ms) =
     (case (fold_field set_string ''name'' ms [], fold_field set_string ''serial'' ms [],
            fold_field (set_time tc) ''issuedAt'' ms zero_time) of
        (Some n, Some s, Some t) \<Rightarrow> Some \<lparr>is_name = n, is_serial = s, is_at = t\<rparr>
      | _ \<Rightarrow> None)"
| "issued_of_json tc JNull = Some \<lparr>is_name = [], is_serial = [], is_at = zero_time\<rparr>"
| "issued_of_json tc _ = None"

fun ledger_of_json :: "time_codec \<Rightarrow> json \<Rightarrow> issued list option" where
  "ledger_of_json tc (JObj ms) = fold_field (set_list (issued_of_json tc)) ''issued'' ms []"
| "ledger_of_json tc JNull = Some []"
| "ledger_of_json tc _ = None"

lemma issued_of_json_json: "codec_ok tc \<Longrightarrow> issued_of_json tc (issued_json tc e) = Some e"
  by (cases e) (simp add: issued_json_def fold_eval codec_ok_def)

lemma ledger_of_json_json: "codec_ok tc \<Longrightarrow> ledger_of_json tc (ledger_json tc es) = Some es"
  using opt_all_Some [of "map (issued_json tc) es" "issued_of_json tc"]
  by (simp add: ledger_json_def fold_eval comp_def issued_of_json_json opt_all_map_Some [of id, simplified])

lemma ledger_json_wf: "json_wf (ledger_json tc es)"
  by (simp add: ledger_json_def issued_json_def list_all_iff)

interpretation ldg: json_file "ledger_json tc" "ledger_of_json tc" "\<lambda>x. codec_ok tc" for tc
  by unfold_locales (auto simp: ledger_of_json_json ledger_json_wf)

definition ledger_file :: string where "ledger_file = ''issued.json''"
definition deny_file :: string where "deny_file = ''revoked.json''"

definition path_io :: "ca_io \<Rightarrow> string \<Rightarrow> file_io" where
  "path_io io p = \<lparr>io_lock = None, io_read = ca_read io p, io_write = ca_write io p\<rparr>"

definition load_ledger :: "time_codec \<Rightarrow> ca_io \<Rightarrow> tree \<Rightarrow> file_err + issued list" where
  "load_ledger tc io fs =
     load_or_empty ledger_max_bytes (ledger_of_json tc) [] (path_io io ledger_file) (fs ledger_file)"

definition save_ledger :: "time_codec \<Rightarrow> ca_io \<Rightarrow> issued list \<Rightarrow> tree \<Rightarrow> ca_err option \<times> tree" where
  "save_ledger tc io es fs =
     (case ca_mkdir io of
        Some e \<Rightarrow> (Some (MkdirFails e), fs)
      | None \<Rightarrow>
          (case save_json (ledger_json tc) (path_io io ledger_file) es (fs ledger_file) of
             (Some e, f) \<Rightarrow> (Some (CaIo e), fs(ledger_file := f)) | (None, f) \<Rightarrow> (None, fs(ledger_file := f))))"

definition append_issued ::
    "time_codec \<Rightarrow> ca_io \<Rightarrow> int \<Rightarrow> string \<Rightarrow> int \<Rightarrow> tree \<Rightarrow> ca_err option \<times> tree" where
  "append_issued tc io now nm serial fs =
     (case load_ledger tc io fs of
        Inl e \<Rightarrow> (Some (CaIo e), fs)
      | Inr es \<Rightarrow>
          save_ledger tc io (es @ [\<lparr>is_name = nm, is_serial = serial_hex serial, is_at = now\<rparr>]) fs)"

text \<open>\<open>big.Int.SetString(s, 16)\<close>: an optional sign and hexadecimal digits.\<close>

definition parse_hex :: "string \<Rightarrow> int option" where
  "parse_hex s =
     (let neg = (s \<noteq> [] \<and> hd s = CHR ''-'');
          d = (if s \<noteq> [] \<and> (hd s = CHR ''-'' \<or> hd s = CHR ''+'') then tl s else s)
      in if d = [] then None
         else case opt_all (map hex_val d) of
           None \<Rightarrow> None
         | Some ds \<Rightarrow>
             (let n = int (foldl (\<lambda>a x. 16 * a + x) 0 ds) in Some (if neg then - n else n)))"

definition client_serial :: "'k ca_lib \<Rightarrow> ca_io \<Rightarrow> string \<Rightarrow> tree \<Rightarrow> ca_err + int" where
  "client_serial L io nm fs =
     (if \<not> check_client_name nm then Inl (InvalidName nm)
      else rbind (read_cert L io (client_cert nm) fs) (\<lambda>c. Inr (ct_serial c)))"

fun ledger_scan :: "string \<Rightarrow> issued list \<Rightarrow> string list \<Rightarrow> ca_err + int list" where
  "ledger_scan nm [] seen = Inr []"
| "ledger_scan nm (e # es) seen =
     (if is_name e \<noteq> nm \<or> is_serial e \<in> set seen then ledger_scan nm es seen
      else case parse_hex (is_serial e) of
        None \<Rightarrow> Inl (LedgerSerial nm (is_serial e))
      | Some n \<Rightarrow> rbind (ledger_scan nm es (is_serial e # seen)) (\<lambda>ns. Inr (n # ns)))"

definition client_serials :: "'k ca_lib \<Rightarrow> time_codec \<Rightarrow> ca_io \<Rightarrow> string \<Rightarrow> tree \<Rightarrow> ca_err + int list" where
  "client_serials L tc io nm fs =
     (if \<not> check_client_name nm then Inl (InvalidName nm)
      else case load_ledger tc io fs of
        Inl e \<Rightarrow> Inl (CaIo e)
      | Inr es \<Rightarrow>
          rbind (ledger_scan nm es []) (\<lambda>ns.
            if ns \<noteq> [] then Inr ns else rbind (client_serial L io nm fs) (\<lambda>s. Inr [s])))"

section \<open>Issuing to a client\<close>

fun deny_all ::
    "time_codec \<Rightarrow> (nat \<Rightarrow> file_io) \<Rightarrow> int \<Rightarrow> string \<Rightarrow> nat \<Rightarrow> int list \<Rightarrow> tree \<Rightarrow> ca_err option \<times> tree" where
  "deny_all tc ios now nm i [] fs = (None, fs)"
| "deny_all tc ios now nm i (s # ss) fs =
     (case store_add tc (ios i) now s nm (fs deny_file) of
        (Inl e, f) \<Rightarrow> (Some (DenyFails nm e), fs(deny_file := f))
      | (Inr b, f) \<Rightarrow> deny_all tc ios now nm (Suc i) ss (fs(deny_file := f)))"

definition revoke_superseded ::
    "'k ca_lib \<Rightarrow> time_codec \<Rightarrow> ca_io \<Rightarrow> int \<Rightarrow> string \<Rightarrow> tree \<Rightarrow> ca_err option \<times> tree" where
  "revoke_superseded L tc io now nm fs =
     (case client_serials L tc io nm fs of
        Inl e \<Rightarrow> (if e = CaIo NotExist then (None, fs) else (Some e, fs))
      | Inr prior \<Rightarrow> deny_all tc (ca_deny io) now nm 0 prior fs)"

definition issue_client ::
    "'k ca_lib \<Rightarrow> time_codec \<Rightarrow> ca_io \<Rightarrow> int \<Rightarrow> string + 'k \<Rightarrow> string + int \<Rightarrow> 'k authority \<Rightarrow> string \<Rightarrow> tree
     \<Rightarrow> ca_err option \<times> tree" where
  "issue_client L tc io now key serial a nm fs =
     (if \<not> check_client_name nm then (Some (InvalidName nm), fs)
      else case base_template now serial nm client_validity of
        Inl e \<Rightarrow> (Some e, fs)
      | Inr t \<Rightarrow>
     (let tpl = t\<lparr>ct_usage := {UsageDigitalSignature}, ct_ext_usage := [ClientAuth]\<rparr> in
      case revoke_superseded L tc io now nm fs of
        (Some e, fs1) \<Rightarrow> (Some e, fs1)
      | (None, fs1) \<Rightarrow>
     (case append_issued tc io now nm (ct_serial tpl) fs1 of
        (Some e, fs2) \<Rightarrow> (Some e, fs2)
      | (None, fs2) \<Rightarrow> issue_to L io key a tpl ''clients'' nm fs2)))"

text \<open>The entries of \<open>clients/\<close>, in the order of \<open>os.ReadDir\<close>, each with whether it is a directory.\<close>

definition list_clients :: "file_err + (string \<times> bool) list \<Rightarrow> file_err + string list" where
  "list_clients entries =
     (case entries of
        Inl e \<Rightarrow> (if e = NotExist then Inr [] else Inl e)
      | Inr es \<Rightarrow>
          Inr (map (\<lambda>(n, d). take (length n - 4) n) (filter (\<lambda>(n, d). \<not> d \<and> path_ext n = ''.crt'') es)))"

section \<open>Lemmas\<close>

lemma hex_digit_char: "hex_digit = hex_char"
  by (auto simp: hex_digit_def hex_char_def)

lemma hex_str_val: "\<exists>ds. opt_all (map hex_val (hex_str n)) = Some ds \<and> foldl (\<lambda>a x. 16 * a + x) 0 ds = n
    \<and> hex_str n \<noteq> [] \<and> hd (hex_str n) \<noteq> CHR ''-'' \<and> hd (hex_str n) \<noteq> CHR ''+''"
proof (induction n rule: hex_str.induct)
  case (1 n)
  have d: "hex_char k \<noteq> CHR ''-'' \<and> hex_char k \<noteq> CHR ''+''" if "k < 16" for k
    using that by (auto simp: hex_char_def dest: arg_cong [of _ _ "of_char :: char \<Rightarrow> nat"])
  have app: "opt_all (map hex_val (s @ [hex_char k])) = Some (ds @ [k])"
    if "opt_all (map hex_val s) = Some ds" and "k < 16" for s ds k
    using that by (induction s arbitrary: ds) (auto split: option.splits)
  show ?case
  proof (cases "n < 16")
    case True
    with d [OF True] show ?thesis by (subst (1 2 3 4) hex_str.simps) (simp add: hex_digit_char)
  next
    case False
    with 1 obtain ds where ds: "opt_all (map hex_val (hex_str (n div 16))) = Some ds"
      "foldl (\<lambda>a x. 16 * a + x) 0 ds = n div 16" "hex_str (n div 16) \<noteq> []"
      "hd (hex_str (n div 16)) \<noteq> CHR ''-''" "hd (hex_str (n div 16)) \<noteq> CHR ''+''" by blast
    from app [OF ds(1), of "n mod 16"] False ds show ?thesis
      by (subst (1 2 3 4) hex_str.simps) (simp add: hex_digit_char)
  qed
qed

lemma parse_hex_serial [simp]: "parse_hex (serial_hex s) = Some s"
  using hex_str_val [of "nat s"] hex_str_val [of "nat (- s)"]
  by (auto simp: parse_hex_def serial_hex_def Let_def)

lemma ledger_scan_covers:
  "ledger_scan nm es seen = Inr ns \<Longrightarrow> e \<in> set es \<Longrightarrow> is_name e = nm
    \<Longrightarrow> is_serial e \<in> set seen \<or> (\<exists>n \<in> set ns. parse_hex (is_serial e) = Some n)"
proof (induction es arbitrary: seen ns)
  case (Cons x es)
  show ?case
  proof (cases "is_name x \<noteq> nm \<or> is_serial x \<in> set seen")
    case True
    with Cons show ?thesis by auto
  next
    case False
    with Cons.prems(1) obtain n ms where "parse_hex (is_serial x) = Some n" "ns = n # ms"
      "ledger_scan nm es (is_serial x # seen) = Inr ms"
      by (auto simp: rbind_Inr_iff split: option.splits)
    with Cons.IH [OF this(3)] Cons.prems(2,3) show ?thesis by (cases "e = x") auto
  qed
qed simp

section \<open>Where issuing writes\<close>

lemma check_client_name_cases:
  assumes "check_client_name nm"
  obtains "nm = [slash]" | "slash \<notin> set nm" "nm \<noteq> []"
  using assms path_base_plain [of nm] by (auto simp: check_client_name_def)

lemma in_dir_plain:
  assumes "check_client_name nm" and "ext = CHR ''.'' # e"
  shows "in_dir dir nm ext = dir @ slash # (if nm = [slash] then [] else nm) @ ext"
  using assms by (cases nm rule: check_client_name_cases) (auto simp: in_dir_def slash_def neq_Nil_conv)

lemma client_cert_inject:
  assumes "check_client_name m" and "check_client_name n" and "client_cert m = client_cert n"
  shows "m = n"
proof -
  have "(if m = [slash] then [] else m) = (if n = [slash] then [] else n)"
    using assms(3) by (simp add: client_cert_def in_dir_plain [OF assms(1)] in_dir_plain [OF assms(2)])
  with assms(1,2) show ?thesis by (auto simp: check_client_name_def split: if_splits)
qed

lemma client_paths_distinct [simp]:
  assumes "check_client_name nm"
  shows "client_cert nm \<noteq> ledger_file" "client_cert nm \<noteq> deny_file"
    "client_key nm \<noteq> ledger_file" "client_key nm \<noteq> deny_file"
  by (simp_all add: client_cert_def client_key_def in_dir_plain [OF assms] ledger_file_def deny_file_def)

lemma client_key_not_cert:
  assumes "check_client_name m" and "check_client_name n"
  shows "client_key m \<noteq> client_cert n"
proof
  assume "client_key m = client_cert n"
  then have "last (client_key m) = last (client_cert n)" by simp
  then show False
    by (simp add: client_cert_def client_key_def in_dir_plain [OF assms(1)] in_dir_plain [OF assms(2)])
qed

lemma issue_to_cases:
  assumes "issue_to L io key a tpl dir base fs = (r, fs')"
  shows "\<forall>p. fs' p \<noteq> fs p \<longrightarrow> p = in_dir dir base ''.key'' \<or> r = None \<and> p = in_dir dir base ''.crt''"
  using assms
  by (auto simp: issue_to_def write_key_def write_cert_def write_file_atomic_def
      split: if_splits option.splits sum.splits prod.splits)

lemma append_issued_cases:
  assumes "append_issued tc io now nm s fs = (r, fs')"
  shows "(\<exists>es. r = None \<and> load_ledger tc io fs = Inr es
      \<and> fs' = fs(ledger_file \<mapsto> json_marshal_indent (ledger_json tc
            (es @ [\<lparr>is_name = nm, is_serial = serial_hex s, is_at = now\<rparr>]))))
    \<or> (r \<noteq> None \<and> fs' = fs)"
  using assms
  by (auto simp: append_issued_def save_ledger_def save_json_def split: option.splits sum.splits prod.splits)

lemma deny_all_frame: "deny_all tc ios now nm i ss fs = (r, fs') \<Longrightarrow> p \<noteq> deny_file \<Longrightarrow> fs' p = fs p"
  by (induction tc ios now nm i ss fs arbitrary: r fs' rule: deny_all.induct)
    (auto split: sum.splits prod.splits)

lemma revoke_superseded_frame:
  "revoke_superseded L tc io now nm fs = (r, fs') \<Longrightarrow> p \<noteq> deny_file \<Longrightarrow> fs' p = fs p"
  by (auto simp: revoke_superseded_def deny_all_frame split: sum.splits if_splits)

lemma issue_client_cases:
  assumes "issue_client L tc io now key serial a nm fs = (r, fs')"
  obtains (early) "r \<noteq> None" "fs' = fs"
  | (denied) e where "check_client_name nm" "revoke_superseded L tc io now nm fs = (Some e, fs')" "r \<noteq> None"
  | (unlisted) fs1 where "check_client_name nm" "revoke_superseded L tc io now nm fs = (None, fs1)"
      "r \<noteq> None" "fs' = fs1"
  | (done_with) s fs1 fs2 tpl where "check_client_name nm" "revoke_superseded L tc io now nm fs = (None, fs1)"
      "serial = Inr s" "append_issued tc io now nm s fs1 = (None, fs2)"
      "issue_to L io key a tpl ''clients'' nm fs2 = (r, fs')" "ct_serial tpl = s" "ct_cn tpl = nm"
proof -
  note d = assms [unfolded issue_client_def Let_def]
  show thesis
  proof (cases "check_client_name nm")
    case nm: True
    show thesis
    proof (cases serial)
      case (Inl e)
      with d nm show thesis by (intro early) (auto simp: base_template_def)
    next
      case s: (Inr s)
      obtain r1 fs1 where rs: "revoke_superseded L tc io now nm fs = (r1, fs1)" by fastforce
      show thesis
      proof (cases r1)
        case (Some e)
        with d nm s rs denied show thesis by (auto simp: base_template_def)
      next
        case None
        obtain r2 fs2 where ap: "append_issued tc io now nm s fs1 = (r2, fs2)" by fastforce
        show thesis
        proof (cases r2)
          case (Some e)
          with d nm s rs ap None append_issued_cases [OF ap] unlisted show thesis
            by (auto simp: base_template_def)
        next
          case n2: None
          with d nm s rs ap None done_with show thesis by (force simp: base_template_def)
        qed
      qed
    qed
  qed (use d early in auto)
qed

end
