(* ===== verification/Issuance.thy ===== *)
theory Issuance
  imports Ca
begin

text \<open>
  The life of a certificate authority: any series of calls of \<open>IssueClient\<close>, with whatever failures
  of the file system between them, and what the ledger and the deny-list then say of every
  certificate that was written. Also where issuing may write, and that creating an authority can be
  undone by nothing but removing it.
\<close>

section \<open>Histories\<close>

datatype 'k issue_call = IssueCall ca_io int "string + 'k" "string + int" string

text \<open>The certificates written, in their order: a call that returns no error has written one.\<close>

type_synonym history = "(string \<times> int) list"

fun issue_run ::
    "'k ca_lib \<Rightarrow> time_codec \<Rightarrow> 'k authority \<Rightarrow> 'k issue_call list \<Rightarrow> tree \<Rightarrow> history \<Rightarrow> tree \<times> history" where
  "issue_run L tc a [] fs h = (fs, h)"
| "issue_run L tc a (IssueCall io now key serial nm # cs) fs h =
     (case issue_client L tc io now key serial a nm fs of
        (None, fs1) \<Rightarrow> issue_run L tc a cs fs1 (h @ [(nm, projr serial)])
      | (Some e, fs1) \<Rightarrow> issue_run L tc a cs fs1 h)"

text \<open>The serials that a later certificate of the same name has superseded.\<close>

fun superseded :: "history \<Rightarrow> int set" where
  "superseded [] = {}"
| "superseded ((n, s) # h) = (if n \<in> fst ` set h then {s} else {}) \<union> superseded h"

lemma superseded_snoc [simp]: "superseded (h @ [(n, s)]) = superseded h \<union> {t. (n, t) \<in> set h}"
  by (induction h rule: superseded.induct) (auto intro: rev_image_eqI)

section \<open>The invariant\<close>

definition listed :: "issued list \<Rightarrow> string \<Rightarrow> int \<Rightarrow> bool" where
  "listed es n s \<longleftrightarrow> (\<exists>e \<in> set es. is_name e = n \<and> is_serial e = serial_hex s)"

text \<open>A certificate from the time before the ledger, known from the file of its name alone.\<close>

definition on_disk :: "'k ca_lib \<Rightarrow> tree \<Rightarrow> string \<Rightarrow> int \<Rightarrow> bool" where
  "on_disk L fs n s \<longleftrightarrow> check_client_name n
     \<and> (\<exists>t c. fs (client_cert n) = Some t \<and> parse_cert L t = Inr c \<and> ct_serial c = s)"

definition denied :: "entry list \<Rightarrow> int \<Rightarrow> bool" where
  "denied es s \<longleftrightarrow> serial_hex s \<in> en_serial ` set es"

definition ca_inv :: "'k ca_lib \<Rightarrow> time_codec \<Rightarrow> tree \<Rightarrow> history \<Rightarrow> bool" where
  "ca_inv L tc fs h \<longleftrightarrow>
     (\<exists>es ds. ldg.holds tc [] es (fs ledger_file) \<and> rvk.holds tc [] ds (fs deny_file)
        \<and> (\<forall>(n, s) \<in> set h. listed es n s
              \<or> ((\<forall>e \<in> set es. is_name e \<noteq> n) \<and> on_disk L fs n s) \<or> denied ds s)
        \<and> (\<forall>s \<in> superseded h. denied ds s))"

lemma ca_invI:
  assumes "ldg.holds tc [] es (fs ledger_file)" and "rvk.holds tc [] ds (fs deny_file)"
    and "\<And>n s. (n, s) \<in> set h \<Longrightarrow> listed es n s \<or> ((\<forall>e \<in> set es. is_name e \<noteq> n) \<and> on_disk L fs n s) \<or> denied ds s"
    and "\<And>s. s \<in> superseded h \<Longrightarrow> denied ds s"
  shows "ca_inv L tc fs h"
  unfolding ca_inv_def using assms by blast

lemma store_add_holds:
  assumes "codec_ok tc" and "rvk.holds tc [] ds f" and "store_add tc io now s nm f = (r, f')"
  shows "\<exists>ds'. rvk.holds tc [] ds' f' \<and> set ds \<subseteq> set ds' \<and> (ok r \<longrightarrow> denied ds' s)"
proof (cases "load_revoked_or_empty tc io f")
  case (Inl e)
  with assms show ?thesis by (auto simp: store_add_def split: option.splits)
next
  case (Inr es)
  then have es: "es = ds" using rvk.load_holds [OF assms(2,1)] by (simp add: load_revoked_or_empty_def)
  show ?thesis using store_add_cases [OF assms(3) Inr]
  proof (elim disjE)
    assume "r = Inr True \<and> save_revoked tc io
        (es @ [\<lparr>en_serial = serial_hex s, en_name = nm, en_revoked_at = now\<rparr>]) f = (None, f')"
    then show ?thesis
      using rvk.save_holds [of tc io "es @ [\<lparr>en_serial = serial_hex s, en_name = nm, en_revoked_at = now\<rparr>]" f f' "[]"] es
      by (auto simp: save_revoked_def denied_def)
  next
    assume "r = Inr False \<and> f' = f \<and> (\<exists>e. e \<in> set es \<and> en_serial e = serial_hex s)"
    with assms(2) es show ?thesis by (intro exI [of _ ds]) (auto simp: denied_def intro: rev_image_eqI)
  qed (use assms(2) es in auto)
qed

lemma deny_all_holds:
  assumes "codec_ok tc"
  shows "rvk.holds tc [] ds (fs deny_file) \<Longrightarrow> deny_all tc ios now nm i ss fs = (r, fs')
    \<Longrightarrow> \<exists>ds'. rvk.holds tc [] ds' (fs' deny_file) \<and> set ds \<subseteq> set ds'
        \<and> (r = None \<longrightarrow> (\<forall>s \<in> set ss. denied ds' s))"
proof (induction ss arbitrary: i fs ds)
  case (Cons s ss)
  obtain b f where a: "store_add tc (ios i) now s nm (fs deny_file) = (b, f)" by fastforce
  from store_add_holds [OF assms Cons.prems(1) a]
  obtain d1 where d1: "rvk.holds tc [] d1 f" "set ds \<subseteq> set d1" "ok b \<longrightarrow> denied d1 s" by blast
  show ?case
  proof (cases b)
    case (Inl e)
    with a Cons.prems(2) d1 show ?thesis by auto
  next
    case (Inr x)
    with Cons.prems(2) a have "deny_all tc ios now nm (Suc i) ss (fs(deny_file := f)) = (r, fs')" by simp
    from Cons.IH [OF _ this, of d1] d1(1) obtain d2 where
      "rvk.holds tc [] d2 (fs' deny_file)" "set d1 \<subseteq> set d2" "r = None \<longrightarrow> (\<forall>s \<in> set ss. denied d2 s)"
      by fastforce
    with d1 Inr show ?thesis by (intro exI [of _ d2]) (auto simp: denied_def)
  qed
qed auto

text \<open>What \<open>ClientSerials\<close> answers covers what the history knows of the name.\<close>

lemma client_serials_covers:
  assumes "codec_ok tc" and "ldg.holds tc [] es (fs ledger_file)" and "client_serials L tc io nm fs = Inr ss"
    and "listed es nm s \<or> ((\<forall>e \<in> set es. is_name e \<noteq> nm) \<and> on_disk L fs nm s)"
  shows "s \<in> set ss"
proof -
  from assms(3) obtain es' ns where l: "load_ledger tc io fs = Inr es'" and n: "ledger_scan nm es' [] = Inr ns"
    and ss: "(if ns \<noteq> [] then Inr ns else rbind (client_serial L io nm fs) (\<lambda>s. Inr [s])) = Inr ss"
    by (auto simp: client_serials_def rbind_Inr_iff split: if_splits sum.splits)
  have es: "es' = es" using ldg.load_holds [OF assms(2,1)] l by (simp add: load_ledger_def)
  from assms(4) show ?thesis
  proof
    assume "listed es nm s"
    then obtain e where "e \<in> set es" "is_name e = nm" "is_serial e = serial_hex s" by (auto simp: listed_def)
    with ledger_scan_covers [OF n, of e] es have "s \<in> set ns" by auto
    with ss show ?thesis by (auto split: if_splits)
  next
    assume h: "(\<forall>e \<in> set es. is_name e \<noteq> nm) \<and> on_disk L fs nm s"
    have "ledger_scan nm xs [] = Inr []" if "\<forall>e \<in> set xs. is_name e \<noteq> nm" for xs
      using that by (induction xs) auto
    with h n es have "ns = []" by auto
    with ss h show ?thesis
      by (auto simp: client_serial_def on_disk_def read_cert_def read_file_def rbind_Inr_iff split: option.splits)
  qed
qed

lemma client_serials_known:
  assumes "codec_ok tc" and "ldg.holds tc [] es (fs ledger_file)" and "client_serials L tc io nm fs = Inl (CaIo NotExist)"
    and "listed es nm s \<or> on_disk L fs nm s"
  shows False
proof -
  have scan: "ledger_scan nm xs seen \<noteq> Inl (CaIo NotExist)" for xs seen
    by (induction nm xs seen rule: ledger_scan.induct) (auto simp: rbind_Inl_iff split: option.splits)
  have ldne: "load_ledger tc io fs \<noteq> Inl NotExist"
    by (auto simp: load_ledger_def load_or_empty_def split: sum.splits)
  from assms(3) scan ldne obtain es' where l: "load_ledger tc io fs = Inr es'" and n: "ledger_scan nm es' [] = Inr []"
    and c: "client_serial L io nm fs = Inl (CaIo NotExist)"
    by (auto simp: client_serials_def rbind_Inl_iff split: if_splits sum.splits)
  have es: "es' = es" using ldg.load_holds [OF assms(2,1)] l by (simp add: load_ledger_def)
  from assms(4) show False
  proof
    assume "listed es nm s"
    then obtain e where "e \<in> set es" "is_name e = nm" "is_serial e = serial_hex s" by (auto simp: listed_def)
    with ledger_scan_covers [OF n, of e] es show False by simp
  next
    assume "on_disk L fs nm s"
    with c show False
      by (auto simp: client_serial_def on_disk_def read_cert_def read_file_def parse_cert_def rbind_Inl_iff
          split: option.splits sum.splits if_splits)
  qed
qed


lemma revoke_superseded_holds:
  assumes tc: "codec_ok tc" and "ldg.holds tc [] es (fs ledger_file)" and "rvk.holds tc [] ds (fs deny_file)"
    and "revoke_superseded L tc io now nm fs = (r, fs1)"
  shows "\<exists>ds1. rvk.holds tc [] ds1 (fs1 deny_file) \<and> set ds \<subseteq> set ds1
    \<and> (r = None \<longrightarrow> (\<forall>s. listed es nm s \<or> ((\<forall>e \<in> set es. is_name e \<noteq> nm) \<and> on_disk L fs nm s) \<longrightarrow> denied ds1 s))"
proof (cases "client_serials L tc io nm fs")
  case (Inl e)
  with assms client_serials_known [of tc es fs L io nm] show ?thesis
    by (intro exI [of _ ds]) (auto simp: revoke_superseded_def split: if_splits)
next
  case (Inr prior)
  with assms(4) have "deny_all tc (ca_deny io) now nm 0 prior fs = (r, fs1)" by (simp add: revoke_superseded_def)
  from deny_all_holds [OF tc assms(3) this] client_serials_covers [of tc es fs L io nm prior, OF tc assms(2) Inr] show ?thesis by blast
qed

lemma ca_inv_issue:
  assumes tc: "codec_ok tc" and inv: "ca_inv L tc fs h"
    and "issue_client L tc io now key serial a nm fs = (r, fs')"
  shows "ca_inv L tc fs' (if r = None then h @ [(nm, projr serial)] else h)"
proof -
  from inv obtain es ds where es: "ldg.holds tc [] es (fs ledger_file)" and ds: "rvk.holds tc [] ds (fs deny_file)"
    and known: "\<And>n s. (n, s) \<in> set h \<Longrightarrow> listed es n s
        \<or> ((\<forall>e \<in> set es. is_name e \<noteq> n) \<and> on_disk L fs n s) \<or> denied ds s"
    and sup: "\<And>s. s \<in> superseded h \<Longrightarrow> denied ds s"
    unfolding ca_inv_def by blast
  have mono: "denied ds1 s" if "set ds \<subseteq> set ds1" "denied ds s" for ds1 s
    using that by (auto simp: denied_def)
  have frame: "fs1 p = fs p" if "revoke_superseded L tc io now nm fs = (r1, fs1)" "p \<noteq> deny_file" for r1 fs1 p
    using that by (rule revoke_superseded_frame)
  from assms(3) show ?thesis
  proof (cases rule: issue_client_cases)
    case early
    with inv show ?thesis by auto
  next
    case (denied e)
    from revoke_superseded_holds [OF tc es ds denied(2)] obtain ds1 where
      "rvk.holds tc [] ds1 (fs' deny_file)" "set ds \<subseteq> set ds1" by blast
    moreover have "fs' ledger_file = fs ledger_file"
      using frame [OF denied(2)] by (simp add: ledger_file_def deny_file_def)
    moreover have "\<And>n. check_client_name n \<Longrightarrow> fs' (client_cert n) = fs (client_cert n)"
      using frame [OF denied(2)] by simp
    moreover have "on_disk L fs' n s \<longleftrightarrow> on_disk L fs n s" for n s
      using calculation by (auto simp: on_disk_def)
    ultimately show ?thesis using denied(3) es known sup mono by (auto intro!: ca_invI [of tc es _ ds1]) blast+
  next
    case (unlisted fs1)
    from revoke_superseded_holds [OF tc es ds unlisted(2)] obtain ds1 where
      "rvk.holds tc [] ds1 (fs' deny_file)" "set ds \<subseteq> set ds1" using unlisted(4) by blast
    moreover have "fs' ledger_file = fs ledger_file"
      using frame [OF unlisted(2)] unlisted(4) by (simp add: ledger_file_def deny_file_def)
    moreover have "\<And>n. check_client_name n \<Longrightarrow> fs' (client_cert n) = fs (client_cert n)"
      using frame [OF unlisted(2)] unlisted(4) by simp
    moreover have "on_disk L fs' n s \<longleftrightarrow> on_disk L fs n s" for n s
      using calculation by (auto simp: on_disk_def)
    ultimately show ?thesis using unlisted(3) es known sup mono by (auto intro!: ca_invI [of tc es _ ds1]) blast+
  next
    case (done_with s fs1 fs2 tpl)
    from revoke_superseded_holds [OF tc es ds done_with(2)] obtain ds1 where
      ds1: "rvk.holds tc [] ds1 (fs1 deny_file)" "set ds \<subseteq> set ds1"
      and past: "\<And>s. listed es nm s \<or> ((\<forall>e \<in> set es. is_name e \<noteq> nm) \<and> on_disk L fs nm s) \<Longrightarrow> denied ds1 s"
      by blast
    define es2 where "es2 = es @ [\<lparr>is_name = nm, is_serial = serial_hex s, is_at = now\<rparr>]"
    have "fs1 ledger_file = fs ledger_file" using frame [OF done_with(2)] by (simp add: ledger_file_def deny_file_def)
    then have fs2: "fs2 = fs1(ledger_file \<mapsto> json_marshal_indent (ledger_json tc es2))"
      using append_issued_cases [OF done_with(4)] ldg.load_holds [OF es tc]
      by (auto simp: load_ledger_def es2_def)
    have fs': "fs' p \<noteq> fs2 p \<longrightarrow> p = client_key nm \<or> r = None \<and> p = client_cert nm" for p
      using issue_to_cases [OF done_with(5)] by (auto simp: client_key_def client_cert_def)
    have "ldg.holds tc [] es2 (fs' ledger_file)"
      using fs' [of ledger_file] client_paths_distinct [OF done_with(1)] fs2 by (auto simp: ldg.holds_def)
    moreover have "fs' deny_file = fs1 deny_file"
      using fs' [of deny_file] client_paths_distinct [OF done_with(1)] fs2 by (auto simp: ledger_file_def deny_file_def)
    then have "rvk.holds tc [] ds1 (fs' deny_file)" using ds1 by simp
    moreover have sup1: "denied ds1 t" if "(nm, t) \<in> set h" for t using known [OF that] past mono ds1(2) by blast
    moreover have others: "listed es2 n t \<or> ((\<forall>e \<in> set es2. is_name e \<noteq> n) \<and> on_disk L fs' n t) \<or> denied ds1 t"
      if "(n, t) \<in> set h" for n t
    proof (cases "n = nm")
      case True
      with sup1 that show ?thesis by blast
    next
      case False
      have "fs' (client_cert n) = fs (client_cert n)" if "check_client_name n"
        using fs' [of "client_cert n"] client_key_not_cert [OF done_with(1) that]
          client_cert_inject [OF that done_with(1)] False client_paths_distinct [OF that] fs2
          frame [OF done_with(2), of "client_cert n"] by (auto simp: fun_upd_def)
      then have "on_disk L fs' n t \<longleftrightarrow> on_disk L fs n t"
        by (cases "check_client_name n") (simp_all add: on_disk_def)
      with known [OF that] mono [OF ds1(2)] False show ?thesis by (auto simp: listed_def es2_def)
    qed
    moreover have "listed es2 nm s" by (simp add: listed_def es2_def)
    ultimately show ?thesis using sup mono [OF ds1(2)] done_with(3)
      by (intro ca_invI [of tc es2 fs' ds1]) (auto split: if_splits)
  qed
qed

lemma ca_inv_run:
  "codec_ok tc \<Longrightarrow> ca_inv L tc fs h \<Longrightarrow> issue_run L tc a cs fs h = (fs', h') \<Longrightarrow> ca_inv L tc fs' h'"
proof (induction L tc a cs fs h rule: issue_run.induct)
  case (2 L tc a io now key serial nm cs fs h)
  obtain r fs1 where i: "issue_client L tc io now key serial a nm fs = (r, fs1)" by fastforce
  from ca_inv_issue [OF 2(3,4) i] 2 i show ?case by (cases r) auto
qed auto

section \<open>Properties\<close>

text \<open>A CA directory with no ledger and no deny-list yet, new or from before there were any: \<open>h\<close> are the
  certificates that stand in it, at most one for a name.\<close>

definition ca_start :: "'k ca_lib \<Rightarrow> tree \<Rightarrow> history \<Rightarrow> bool" where
  "ca_start L fs h \<longleftrightarrow> fs ledger_file = None \<and> fs deny_file = None
     \<and> (\<forall>(n, s) \<in> set h. on_disk L fs n s) \<and> distinct (map fst h)"

lemma superseded_distinct: "distinct (map fst h) \<Longrightarrow> superseded h = {}"
  by (induction h rule: superseded.induct) auto

lemma ca_inv_start: "ca_start L fs h \<Longrightarrow> ca_inv L tc fs h"
  by (rule ca_invI [of tc "[]" _ "[]"])
    (auto simp: ca_start_def ldg.holds_def rvk.holds_def superseded_distinct)

lemma ca_inv_reached:
  "codec_ok tc \<Longrightarrow> ca_start L fs0 h0 \<Longrightarrow> issue_run L tc a cs fs0 h0 = (fs, h) \<Longrightarrow> ca_inv L tc fs h"
  using ca_inv_run ca_inv_start by metis

text \<open>No check that reads the deny-list admits a serial it names.\<close>

lemma denied_not_admitted:
  assumes "codec_ok tc" and ds: "rvk.holds tc [] ds f" and s: "denied ds s" and "ck_path c \<noteq> []"
    and "ck_set c = None \<or> ck_mtime c \<noteq> Some mt \<or> sz \<noteq> ck_size c \<or> recently_modified t mt"
  shows "fst (is_revoked t (StatOk mt sz) (load_revoked tc io f) s c) \<noteq> Inr False"
proof -
  have "load_revoked tc io f \<noteq> Inl NotExist"
    using ds s by (auto simp: rvk.holds_def denied_def load_revoked_def load_json_def split: option.splits)
  moreover have "es = ds" if "load_revoked tc io f = Inr es" for es
    using rvk.load_json_holds [OF ds assms(1)] that by (simp add: load_revoked_def)
  ultimately show ?thesis using assms(4,5) s
    by (cases "load_revoked tc io f") (auto simp: is_revoked_def Let_def denied_def)
qed

text \<open>(C26) One name, one live profile: over any series of \<open>IssueClient\<close> calls with whatever failures of the
  file system, starting with or without certificates older than the ledger, a certificate that a
  later one of its name has superseded is turned away by every check of the server that reads the
  deny-list the CA keeps, as revoked or with an error, but never admitted.\<close>

theorem superseded_locked_out:
  assumes "codec_ok tc" and "ca_start L fs0 h0" and "issue_run L tc a cs fs0 h0 = (fs, h)"
    and "s \<in> superseded h" and "ck_path c \<noteq> []"
    and "ck_set c = None \<or> ck_mtime c \<noteq> Some mt \<or> sz \<noteq> ck_size c \<or> recently_modified t mt"
  shows "fst (is_revoked t (StatOk mt sz) (load_revoked tc io (fs deny_file)) s c) \<noteq> Inr False"
proof -
  from ca_inv_reached [OF assms(1-3)] assms(4) obtain ds where
    ds: "rvk.holds tc [] ds (fs deny_file)" and s: "denied ds s"
    unfolding ca_inv_def by blast
  from denied_not_admitted [OF assms(1) ds s assms(5,6)] show ?thesis .
qed

definition sample_cert :: certificate where
  "sample_cert = \<lparr>ct_serial = 9, ct_cn = ''ca'', ct_not_before = 0, ct_not_after = 1, ct_usage = {},
     ct_ext_usage = [], ct_dns = [], ct_ips = [], ct_is_ca = True, ct_path_len_zero = True, ct_basic = True\<rparr>"

definition sample_lib :: "unit ca_lib" where
  "sample_lib = \<lparr>xl_sign = (\<lambda>t p k sk. Inr ''D''), xl_parse = (\<lambda>d. Inr sample_cert),
     xl_pkcs8 = (\<lambda>k. Inr ''K''), xl_parse_key = (\<lambda>d. Inr (Some ())), xl_pem = (\<lambda>ty b. b), xl_unpem = Some\<rparr>"

definition sample_authority :: "unit authority" where
  "sample_authority = \<lparr>au_cert = sample_cert, au_key = ()\<rparr>"

definition bob_entry :: issued where
  "bob_entry = \<lparr>is_name = ''bob'', is_serial = serial_hex 1, is_at = 5\<rparr>"

definition sample_tree :: tree where
  "sample_tree = Map.empty(ledger_file \<mapsto> json_marshal_indent (ledger_json no_codec [bob_entry]),
     client_key ''bob'' \<mapsto> ''K'', client_cert ''bob'' \<mapsto> ''D'')"

lemma bob_name: "check_client_name ''bob''"
  by code_simp

lemmas issue_defs = issue_client_def base_template_def revoke_superseded_def client_serials_def
  client_serial_def read_cert_def read_file_def append_issued_def save_ledger_def save_json_def path_io_def
  issue_to_def write_key_def write_cert_def write_file_atomic_def client_cert_def [symmetric]
  client_key_def [symmetric]

lemma first_issue:
  "issue_client sample_lib no_codec ca_io_fine 5 (Inr ()) (Inr 1) sample_authority ''bob'' Map.empty
    = (None, sample_tree)"
proof -
  have "load_ledger no_codec ca_io_fine Map.empty = Inr []"
    by (simp add: load_ledger_def load_or_empty_def load_json_def)
  with bob_name show ?thesis
    by (simp add: issue_defs ca_io_fine_def sample_lib_def sample_tree_def bob_entry_def)
qed

lemma sample_ledger:
  assumes "fs ledger_file = sample_tree ledger_file"
  shows "load_ledger no_codec ca_io_fine fs = Inr [bob_entry]"
proof -
  have "serial_hex 1 = ''1''" by code_simp
  then have "length (json_marshal_indent (ledger_json no_codec [bob_entry])) \<le> ledger_max_bytes"
    by (simp add: ledger_json_def issued_json_def bob_entry_def json_marshal_indent_def json_indent_def
        json_string_def esc_char_def ledger_max_bytes_def no_codec_texts)
  then show ?thesis
    using ldg.load_saved [OF _ _ _ no_codec_ok, of "path_io ca_io_fine ledger_file" "[bob_entry]" None
        "sample_tree ledger_file"] client_paths_distinct [OF bob_name] assms
    by (simp add: load_ledger_def save_json_def path_io_def ca_io_fine_def sample_tree_def)
qed

lemma second_issue:
  "\<exists>fs. issue_client sample_lib no_codec ca_io_fine 5 (Inr ()) (Inr 2) sample_authority ''bob'' sample_tree
    = (None, fs)"
proof -
  note l = sample_ledger
  have "load_revoked_or_empty no_codec io_fine None = Inr []"
    by (simp add: load_revoked_or_empty_def load_or_empty_def load_json_def)
  then obtain f where f: "store_add no_codec io_fine 5 1 ''bob'' None = (Inr True, f)"
    by (simp add: store_add_def save_revoked_def save_json_def io_fine_def)
  have d: "sample_tree deny_file = None"
    using client_paths_distinct [OF bob_name] by (auto simp: sample_tree_def deny_file_def ledger_file_def)
  have "revoke_superseded sample_lib no_codec ca_io_fine 5 ''bob'' sample_tree = (None, sample_tree(deny_file := f))"
    using l [of sample_tree] bob_name f d
    by (simp add: revoke_superseded_def client_serials_def bob_entry_def ca_io_fine_def)
  moreover have "load_ledger no_codec ca_io_fine (sample_tree(deny_file := f)) = Inr [bob_entry]"
    by (rule l) (simp add: deny_file_def ledger_file_def)
  ultimately show ?thesis using bob_name
    by (simp add: issue_client_def base_template_def append_issued_def save_ledger_def save_json_def path_io_def
        issue_to_def write_key_def write_cert_def write_file_atomic_def ca_io_fine_def sample_lib_def)
qed

lemma sample_run:
  "\<exists>fs. issue_run sample_lib no_codec sample_authority [IssueCall ca_io_fine 5 (Inr ()) (Inr 1) ''bob'',
      IssueCall ca_io_fine 5 (Inr ()) (Inr 2) ''bob''] Map.empty [] = (fs, [(''bob'', 1), (''bob'', 2)])"
  using first_issue second_issue by auto

theorem superseded_locked_out_witness:
  "\<exists>fs. issue_run sample_lib no_codec sample_authority [IssueCall ca_io_fine 5 (Inr ()) (Inr 1) ''bob'',
      IssueCall ca_io_fine 5 (Inr ()) (Inr 2) ''bob''] Map.empty [] = (fs, [(''bob'', 1), (''bob'', 2)])
    \<and> fst (is_revoked 9 (StatOk 3 8) (load_revoked no_codec io_fine (fs deny_file)) 1 (new_checker ''r''))
      \<noteq> Inr False"
proof -
  from sample_run obtain fs where run: "issue_run sample_lib no_codec sample_authority
      [IssueCall ca_io_fine 5 (Inr ()) (Inr 1) ''bob'', IssueCall ca_io_fine 5 (Inr ()) (Inr 2) ''bob'']
      Map.empty [] = (fs, [(''bob'', 1), (''bob'', 2)])" by blast
  have "ca_start sample_lib Map.empty []" by (simp add: ca_start_def)
  from superseded_locked_out [OF no_codec_ok this run, of 1 "new_checker ''r''" 3 8 9 io_fine] run show ?thesis
    by (auto simp: new_checker_def)
qed

text \<open>The set to revoke is complete: after any series of \<open>IssueClient\<close> calls, whatever \<open>ClientSerials\<close>
  answers for a name contains the serial of every certificate ever written for it, apart from those
  the deny-list already names.\<close>

theorem client_serials_complete:
  assumes "codec_ok tc" and "ca_start L fs0 h0" and "issue_run L tc a cs fs0 h0 = (fs, h)"
    and "(nm, s) \<in> set h" and "client_serials L tc io nm fs = Inr ss"
  shows "s \<in> set ss
    \<or> (\<forall>fio ds. load_revoked_or_empty tc fio (fs deny_file) = Inr ds \<longrightarrow> serial_hex s \<in> en_serial ` set ds)"
proof -
  from ca_inv_reached [OF assms(1-3)] assms(4) obtain es ds where
    es: "ldg.holds tc [] es (fs ledger_file)" and ds: "rvk.holds tc [] ds (fs deny_file)"
    and s: "listed es nm s \<or> ((\<forall>e \<in> set es. is_name e \<noteq> nm) \<and> on_disk L fs nm s) \<or> denied ds s"
    unfolding ca_inv_def by blast
  show ?thesis
  proof (cases "denied ds s")
    case True
    then show ?thesis using rvk.load_holds [OF ds assms(1)]
      by (auto simp: load_revoked_or_empty_def denied_def)
  next
    case False
    with s client_serials_covers [of tc es fs L io nm ss s, OF assms(1) es assms(5)] show ?thesis by blast
  qed
qed

theorem client_serials_complete_witness:
  "client_serials sample_lib no_codec ca_io_fine ''bob'' (Map.empty(client_cert ''bob'' \<mapsto> ''D'')) = Inr [9]
   \<and> (9 \<in> set [9 :: int] \<or> (\<forall>fio ds. load_revoked_or_empty no_codec fio None = Inr ds \<longrightarrow> serial_hex 9 \<in> en_serial ` set ds))"
proof -
  let ?fs = "Map.empty(client_cert ''bob'' \<mapsto> ''D'')"
  have n: "?fs ledger_file = None" "?fs deny_file = None" using client_paths_distinct [OF bob_name] by auto
  then have c: "client_serials sample_lib no_codec ca_io_fine ''bob'' ?fs = Inr [9]"
    using bob_name by (simp add: client_serials_def client_serial_def load_ledger_def load_or_empty_def
        load_json_def read_cert_def read_file_def parse_cert_def sample_lib_def ca_io_fine_def sample_cert_def)
  have "ca_start sample_lib ?fs [(''bob'', 9)]"
    using n bob_name by (simp add: ca_start_def on_disk_def parse_cert_def sample_lib_def sample_cert_def)
  from client_serials_complete [OF no_codec_ok this, of sample_authority "[]" ?fs "[(''bob'', 9)]" "''bob''" 9,
      OF _ _ c] c n show ?thesis by simp
qed

text \<open>Issuing stays in its place: \<open>IssueClient\<close> changes nothing outside the ledger, the deny-list and
  the two files of the name, which lie directly in \<open>clients/\<close>; no name reaches the CA's or the
  server's key. A call that fails leaves the certificate of the name as it was.\<close>

theorem issue_confined:
  assumes "issue_client L tc io now key serial a nm fs = (r, fs')"
  shows "fs' = fs \<or> (\<exists>base. slash \<notin> set base
      \<and> client_key nm = ''clients/'' @ base @ ''.key'' \<and> client_cert nm = ''clients/'' @ base @ ''.crt''
      \<and> (\<forall>p. fs' p \<noteq> fs p \<longrightarrow> p = ledger_file \<or> p = deny_file \<or> p = client_key nm
            \<or> r = None \<and> p = client_cert nm))"
proof -
  have base: "\<exists>base. slash \<notin> set base
      \<and> client_key nm = ''clients/'' @ base @ ''.key'' \<and> client_cert nm = ''clients/'' @ base @ ''.crt''"
    if nm: "check_client_name nm"
    unfolding client_key_def client_cert_def in_dir_plain [OF nm refl]
    using nm by (cases rule: check_client_name_cases) (auto simp: slash_def)
  have rs: "p \<noteq> deny_file \<Longrightarrow> fs1 p = fs p" if "revoke_superseded L tc io now nm fs = (r1, fs1)" for r1 fs1 p
    using revoke_superseded_frame [OF that] .
  from assms show ?thesis
  proof (cases rule: issue_client_cases)
    case (done_with s fs1 fs2 tpl)
    have "p = ledger_file \<or> p = deny_file \<or> p = client_key nm \<or> r = None \<and> p = client_cert nm"
      if "fs' p \<noteq> fs p" for p
      using that issue_to_cases [OF done_with(5), THEN spec, of p] append_issued_cases [OF done_with(4)] rs [OF done_with(2), of p]
      by (auto simp: client_key_def client_cert_def split: if_splits)
    with base [OF done_with(1)] show ?thesis by blast
  qed (use base rs in blast)+
qed

theorem issue_confined_witness:
  "client_cert ''bob'' = ''clients/bob.crt'' \<and> dom sample_tree \<subseteq> {ledger_file, deny_file, client_key ''bob'', client_cert ''bob''}"
proof -
  have "client_cert ''bob'' = ''clients/bob.crt''" by code_simp
  moreover have "sample_tree \<noteq> Map.empty" by (simp add: sample_tree_def)
  ultimately show ?thesis using issue_confined [OF first_issue] by auto
qed

lemma ca_create_cases:
  assumes "ca_create L io now key serial cn fs = (r, fs')"
  shows "(\<not> ok r \<and> fs' = fs)
    \<or> (fs ''ca.crt'' = None \<and> fs ''ca.key'' = None \<and> (\<exists>k der c fs1. xl_parse L der = Inr c
        \<and> ((\<exists>e. write_key L io ''ca.key'' k fs = (Some e, fs') \<and> r = Inl e)
          \<or> write_key L io ''ca.key'' k fs = (None, fs1)
            \<and> ((\<exists>e. write_cert L io ''ca.crt'' der fs1 = (Some e, fs') \<and> r = Inl e)
              \<or> write_cert L io ''ca.crt'' der fs1 = (None, fs') \<and> r = Inr \<lparr>au_cert = c, au_key = k\<rparr>))))"
proof -
  let ?sign = "\<lambda>s k. xl_sign L (ca_template now s cn) (ca_template now s cn) k k"
  show ?thesis
  proof (cases "ca_mkdir io = None \<and> ok (assert_no_ca io fs) \<and> ok key \<and> ok serial")
    case False
    then show ?thesis using assms by (auto simp: ca_create_def split: option.splits sum.splits)
  next
    case True
    then obtain k s us where 1: "ca_mkdir io = None" "assert_no_ca io fs = Inr us" "key = Inr k" "serial = Inr s"
      by (cases key; cases serial; cases "assert_no_ca io fs") auto
    then have new: "fs ''ca.crt'' = None" "fs ''ca.key'' = None"
      by (auto simp: assert_no_ca_def rbind_Inr_iff split: option.splits if_splits)
    show ?thesis
    proof (cases "\<exists>der c. ?sign s k = Inr der \<and> xl_parse L der = Inr c")
      case False
      then show ?thesis using assms 1 by (auto simp: ca_create_def Let_def split: sum.splits)
    next
      case True
      then obtain der c where "?sign s k = Inr der" "xl_parse L der = Inr c" by blast
      moreover obtain r1 fs1 where "write_key L io ''ca.key'' k fs = (r1, fs1)" by fastforce
      moreover obtain r2 fs2 where "write_cert L io ''ca.crt'' der fs1 = (r2, fs2)" by fastforce
      ultimately show ?thesis using assms 1 new
        by (cases r1; cases r2; simp add: ca_create_def; blast)
    qed
  qed
qed

lemma write_key_cases:
  "write_key L io p k fs = (r, fs') \<Longrightarrow>
    (r \<noteq> None \<and> fs' = fs) \<or> (r = None \<and> (\<exists>d. xl_pkcs8 L k = Inr d \<and> fs' = fs(p \<mapsto> xl_pem L ''PRIVATE KEY'' d)))"
  by (auto simp: write_key_def write_file_atomic_def split: sum.splits option.splits)

lemma write_cert_cases:
  "write_cert L io p der fs = (r, fs') \<Longrightarrow>
    (r \<noteq> None \<and> fs' = fs) \<or> (r = None \<and> fs' = fs(p \<mapsto> xl_pem L ''CERTIFICATE'' der))"
  by (auto simp: write_cert_def write_file_atomic_def split: option.splits)

definition key_codec :: "'k ca_lib \<Rightarrow> bool" where
  "key_codec L \<longleftrightarrow> (\<forall>ty b. xl_unpem L (xl_pem L ty b) = Some b)
     \<and> (\<forall>k d. xl_pkcs8 L k = Inr d \<longrightarrow> xl_parse_key L d = Inr (Some k))"

text \<open>Creating an authority: \<open>Create\<close> leaves a directory with a certificate or a key of an authority
  as it is, whatever fails; when it succeeds there was neither, and \<open>Load\<close> gives back exactly the
  authority it returned. A crash between the two files leaves a key without a certificate, never the
  opposite.\<close>

theorem create_load:
  assumes "ca_create L io now key serial cn fs = (r, fs')" and "key_codec L"
  shows "((fs ''ca.crt'' \<noteq> None \<or> fs ''ca.key'' \<noteq> None) \<longrightarrow> \<not> ok r \<and> fs' = fs)
    \<and> (\<forall>a. r = Inr a \<longrightarrow> ca_load L ca_io_fine fs' = Inr a)
    \<and> (fs' ''ca.crt'' \<noteq> fs ''ca.crt'' \<longrightarrow> fs' ''ca.key'' \<noteq> None)
    \<and> (\<forall>p. p \<noteq> ''ca.crt'' \<longrightarrow> p \<noteq> ''ca.key'' \<longrightarrow> fs' p = fs p)"
  using ca_create_cases [OF assms(1)]
proof (elim disjE conjE exE)
  fix k der c fs1
  assume parse: "xl_parse L der = Inr c" and k: "write_key L io ''ca.key'' k fs = (None, fs1)"
    and c: "write_cert L io ''ca.crt'' der fs1 = (None, fs')" and r: "r = Inr \<lparr>au_cert = c, au_key = k\<rparr>"
    and new: "fs ''ca.crt'' = None" "fs ''ca.key'' = None"
  from write_key_cases [OF k] obtain d where d: "xl_pkcs8 L k = Inr d"
    and fs1: "fs1 = fs(''ca.key'' \<mapsto> xl_pem L ''PRIVATE KEY'' d)" by auto
  with write_cert_cases [OF c] have fs': "fs' = fs(''ca.key'' \<mapsto> xl_pem L ''PRIVATE KEY'' d,
      ''ca.crt'' \<mapsto> xl_pem L ''CERTIFICATE'' der)" by simp
  have "ca_load L ca_io_fine fs' = r"
    using assms(2) d parse unfolding r fs' key_codec_def
    by (simp add: ca_load_def read_cert_def read_key_def read_file_def parse_cert_def parse_key_def ca_io_fine_def)
  with new fs' r show ?thesis by auto
qed (auto dest!: write_key_cases write_cert_cases)

theorem create_load_witness:
  "\<exists>fs'. ca_create sample_lib ca_io_fine 0 (Inr ()) (Inr 7) ''ca'' Map.empty = (Inr sample_authority, fs')
    \<and> ca_load sample_lib ca_io_fine fs' = Inr sample_authority"
proof -
  obtain fs' where c: "ca_create sample_lib ca_io_fine 0 (Inr ()) (Inr 7) ''ca'' Map.empty = (Inr sample_authority, fs')"
    by (simp add: ca_create_def assert_no_ca_def sample_lib_def ca_io_fine_def Let_def write_key_def write_cert_def
        write_file_atomic_def sample_authority_def)
  have "key_codec sample_lib" by (simp add: key_codec_def sample_lib_def)
  from create_load [OF c this] have "ca_load sample_lib ca_io_fine fs' = Inr sample_authority" by simp
  with c show ?thesis by blast
qed

end
