(* ===== verification/Runes.thy ===== *)
theory Runes
  imports Json
begin

text \<open>
  Runes: the code points of a Go string. A byte that does not start a well-formed UTF-8 sequence counts
  as one rune of its own, as in a conversion to \<open>[]rune\<close>.
\<close>

definition byte_in :: "nat \<Rightarrow> nat \<Rightarrow> char \<Rightarrow> bool" where
  "byte_in lo hi c \<longleftrightarrow> lo \<le> of_char c \<and> of_char c \<le> hi"

abbreviation cont_byte :: "char \<Rightarrow> bool" where
  "cont_byte \<equiv> byte_in 0x80 0xBF"

text \<open>How many bytes the rune at the front of a string has.\<close>

definition rune_len :: "string \<Rightarrow> nat" where
  "rune_len s =
     (case s of
        [] \<Rightarrow> 0
      | a # r \<Rightarrow>
          (case r of
             [] \<Rightarrow> 1
           | b # r2 \<Rightarrow>
               (if byte_in 0xC2 0xDF a \<and> cont_byte b then 2
                else case r2 of
                  [] \<Rightarrow> 1
                | c # r3 \<Rightarrow>
                    (if (byte_in 0xE0 0xE0 a \<and> byte_in 0xA0 0xBF b
                         \<or> (byte_in 0xE1 0xEC a \<or> byte_in 0xEE 0xEF a) \<and> cont_byte b
                         \<or> byte_in 0xED 0xED a \<and> byte_in 0x80 0x9F b) \<and> cont_byte c then 3
                     else case r3 of
                       [] \<Rightarrow> 1
                     | d # r4 \<Rightarrow>
                         (if (byte_in 0xF0 0xF0 a \<and> byte_in 0x90 0xBF b
                              \<or> byte_in 0xF1 0xF3 a \<and> cont_byte b
                              \<or> byte_in 0xF4 0xF4 a \<and> byte_in 0x80 0x8F b) \<and> cont_byte c \<and> cont_byte d
                          then 4 else 1)))))"

lemma rune_len_pos: "rune_len (c # s) \<ge> 1"
  by (auto simp: rune_len_def split: list.splits)

function runes :: "string \<Rightarrow> string list" where
  "runes s = (if s = [] then [] else take (rune_len s) s # runes (drop (rune_len s) s))"
  by auto

termination runes
proof (relation "measure length")
  fix s :: string
  assume "s \<noteq> []"
  then show "(drop (rune_len s) s, s) \<in> measure length"
    using rune_len_pos [of "hd s" "tl s"] by auto
qed simp

declare runes.simps [simp del]

lemma runes_concat: "concat (runes s) = s"
proof (induction s rule: runes.induct)
  case (1 s)
  then show ?case by (subst runes.simps) simp
qed

lemma runes_length: "length (runes s) \<le> length s"
proof (induction s rule: runes.induct)
  case (1 s)
  show ?case
  proof (cases s)
    case (Cons c t)
    with 1 rune_len_pos [of c t] show ?thesis
      by (subst runes.simps) simp
  qed (simp add: runes.simps)
qed

text \<open>A string of ASCII characters has one rune for every byte.\<close>

lemma runes_ascii: "\<forall>c \<in> set s. (of_char c :: nat) < 0x80 \<Longrightarrow> runes s = map (\<lambda>c. [c]) s"
proof (induction s)
  case (Cons c s)
  then have "rune_len (c # s) = 1" by (auto simp: rune_len_def byte_in_def split: list.splits)
  with Cons show ?case by (subst runes.simps) simp
qed (simp add: runes.simps)

end
