(* ===== verification/Backup.thy ===== *)
theory Backup
  imports Ca Base64 Runes
begin

text \<open>
  Backup and restore of a CA directory as one encrypted container (\<open>src/internal/ca/backup.go\<close>).
  PBKDF2, AES-GCM, gzip and tar are a record of functions; the container around them, the checks of
  its header, the names and permissions of what is restored are the model. What the walk of the
  directory lists, the random salt and nonce and the clock are arguments.
\<close>

section \<open>The container\<close>

definition backup_format :: string where "backup_format = ''vpnio-ca-backup''"
definition backup_version :: int where "backup_version = 1"
definition backup_kdf_iterations :: int where "backup_kdf_iterations = 600000"
definition min_passphrase_len :: nat where "min_passphrase_len = 12"
definition backup_max_plaintext :: nat where "backup_max_plaintext = 64 * 2 ^ 20"
definition kdf_name :: string where "kdf_name = ''pbkdf2-hmac-sha256''"
definition cipher_name :: string where "cipher_name = ''aes-256-gcm''"

record backup_header =
  bh_format :: string
  bh_version :: int
  bh_created_at :: int
  bh_cn :: string
  bh_kdf :: string
  bh_iterations :: int
  bh_salt :: string
  bh_cipher :: string
  bh_nonce :: string
  bh_payload :: string

definition header_json :: "time_codec \<Rightarrow> backup_header \<Rightarrow> json" where
  "header_json tc h =
     JObj [(''format'', JStr (bh_format h)), (''version'', jint (bh_version h)),
           (''createdAt'', JStr (tc_text tc (bh_created_at h))), (''caCommonName'', JStr (bh_cn h)),
           (''kdf'', JStr (bh_kdf h)), (''iterations'', jint (bh_iterations h)),
           (''salt'', JStr (bh_salt h)), (''cipher'', JStr (bh_cipher h)), (''nonce'', JStr (bh_nonce h)),
           (''payload'', JStr (bh_payload h))]"

definition zero_header :: backup_header where
  "zero_header = \<lparr>bh_format = [], bh_version = 0, bh_created_at = zero_time, bh_cn = [], bh_kdf = [],
     bh_iterations = 0, bh_salt = [], bh_cipher = [], bh_nonce = [], bh_payload = []\<rparr>"

fun header_of_json :: "time_codec \<Rightarrow> json \<Rightarrow> backup_header option" where
  "header_of_json tc (JObj ms) =
     (case (fold_field set_string ''format'' ms [], fold_field set_int ''version'' ms 0,
            fold_field (set_time tc) ''createdAt'' ms zero_time, fold_field set_string ''caCommonName'' ms [],
            fold_field set_string ''kdf'' ms [], fold_field set_int ''iterations'' ms 0,
            fold_field set_string ''salt'' ms [], fold_field set_string ''cipher'' ms [],
            fold_field set_string ''nonce'' ms [], fold_field set_string ''payload'' ms []) of
        (Some f, Some v, Some t, Some cn, Some k, Some i, Some s, Some c, Some n, Some p) \<Rightarrow>
          Some \<lparr>bh_format = f, bh_version = v, bh_created_at = t, bh_cn = cn, bh_kdf = k,
                bh_iterations = i, bh_salt = s, bh_cipher = c, bh_nonce = n, bh_payload = p\<rparr>
      | _ \<Rightarrow> None)"
| "header_of_json tc JNull = Some zero_header"
| "header_of_json tc _ = None"

lemma header_of_json_json:
  "codec_ok tc \<Longrightarrow> int64_range (bh_version h) \<Longrightarrow> int64_range (bh_iterations h)
    \<Longrightarrow> header_of_json tc (header_json tc h) = Some h"
  by (cases h) (simp add: header_json_def fold_eval jint_def codec_ok_def)

lemma header_json_wf: "json_wf (header_json tc h)"
  by (simp add: header_json_def)

text \<open>The authenticated part: everything but the payload.\<close>

definition header_aad :: "time_codec \<Rightarrow> backup_header \<Rightarrow> string" where
  "header_aad tc h = json_marshal (header_json tc (h\<lparr>bh_payload := []\<rparr>))"

section \<open>The archive\<close>

text \<open>Reading a stream gives what it holds and the error it ends with, if not at its end: \<open>bl_gunzip\<close> the
  bytes, \<open>bl_untar\<close> the entries whose data could be read. A gzip header that cannot be read is an error
  at once.\<close>

record archive_entry =
  ae_name :: string
  ae_mode :: nat
  ae_data :: string
  ae_regular :: bool

record 'a backup_lib =
  bl_kdf :: "string \<Rightarrow> string \<Rightarrow> int \<Rightarrow> string + 'a"
  bl_seal :: "'a \<Rightarrow> string \<Rightarrow> string \<Rightarrow> string \<Rightarrow> string"
  bl_open :: "'a \<Rightarrow> string \<Rightarrow> string \<Rightarrow> string \<Rightarrow> string option"
  bl_nonce_size :: "'a \<Rightarrow> nat"
  bl_tar :: "archive_entry list \<Rightarrow> string"
  bl_untar :: "string \<Rightarrow> string option \<Rightarrow> archive_entry list \<times> string option"
  bl_gzip :: "string \<Rightarrow> string"
  bl_gunzip :: "string \<Rightarrow> string + string \<times> string option"

datatype backup_err =
    WeakPassphrase
  | BackupLoad ca_err
  | KeyMismatch
  | PackFails string
  | RandomFails string
  | DeriveFails string
  | NotABackup
  | WrongFormat string
  | NewerVersion int
  | UnsupportedCipher string string
  | ImplausibleIterations int
  | BadBase64 string
  | NonceLength nat
  | CannotOpen
  | RestoreCa ca_err
  | ArchiveUnreadable string
  | UnsafePath string

text \<open>What the walk of the directory lists, in its order: the path below it, whether it is a regular
  file, its permission bits. A file of a crashed write is left out.\<close>

definition is_temp :: "string \<Rightarrow> bool" where
  "is_temp rel \<longleftrightarrow> (let base = path_base rel in has_prefix base ''.'' \<and> has_suffix base ''.tmp'')"

fun pack_entries ::
    "ca_io \<Rightarrow> (string \<times> bool \<times> nat) list \<Rightarrow> tree \<Rightarrow> backup_err + archive_entry list" where
  "pack_entries io [] fs = Inr []"
| "pack_entries io ((rel, regular, mode) # ws) fs =
     (if \<not> regular \<or> is_temp rel then pack_entries io ws fs
      else case read_file io rel fs of
        Inl e \<Rightarrow> Inl (PackFails rel)
      | Inr t \<Rightarrow>
          rbind (pack_entries io ws fs) (\<lambda>es.
            Inr (\<lparr>ae_name = rel, ae_mode = mode mod 512, ae_data = t, ae_regular = True\<rparr> # es)))"

definition tar_ca_dir ::
    "'a backup_lib \<Rightarrow> ca_io \<Rightarrow> string + (string \<times> bool \<times> nat) list \<Rightarrow> tree \<Rightarrow> backup_err + string" where
  "tar_ca_dir B io walk fs =
     (case walk of
        Inl e \<Rightarrow> Inl (PackFails e)
      | Inr ws \<Rightarrow> rbind (pack_entries io ws fs) (\<lambda>es. Inr (bl_gzip B (bl_tar B es))))"

text \<open>\<open>matches\<close> is the comparison of the key's public part with the certificate's.\<close>

definition backup ::
    "'a backup_lib \<Rightarrow> 'k ca_lib \<Rightarrow> ('k \<Rightarrow> certificate \<Rightarrow> bool) \<Rightarrow> time_codec \<Rightarrow> ca_io \<Rightarrow> int
     \<Rightarrow> string + (string \<times> bool \<times> nat) list \<Rightarrow> string + string \<Rightarrow> string + string \<Rightarrow> string \<Rightarrow> tree
     \<Rightarrow> backup_err + string" where
  "backup B L matches tc io now walk salt nonce passphrase fs =
     (if length (runes passphrase) < min_passphrase_len then Inl WeakPassphrase
      else case ca_load L io fs of
        Inl e \<Rightarrow> Inl (BackupLoad e)
      | Inr c \<Rightarrow>
     (if \<not> matches (au_key c) (au_cert c) then Inl KeyMismatch
      else rbind (tar_ca_dir B io walk fs) (\<lambda>archive.
      case salt of
        Inl e \<Rightarrow> Inl (RandomFails e)
      | Inr s \<Rightarrow>
     (case nonce of
        Inl e \<Rightarrow> Inl (RandomFails e)
      | Inr n \<Rightarrow>
     (let hdr = \<lparr>bh_format = backup_format, bh_version = backup_version, bh_created_at = now,
            bh_cn = ct_cn (au_cert c), bh_kdf = kdf_name, bh_iterations = backup_kdf_iterations,
            bh_salt = b64_encode s, bh_cipher = cipher_name, bh_nonce = b64_encode n, bh_payload = []\<rparr> in
      case bl_kdf B passphrase s (bh_iterations hdr) of
        Inl e \<Rightarrow> Inl (DeriveFails e)
      | Inr aead \<Rightarrow>
          Inr (json_marshal_indent (header_json tc
                 (hdr\<lparr>bh_payload := b64_encode (bl_seal B aead n archive (header_aad tc hdr))\<rparr>)) @ [CHR 0x0A]))))))"

section \<open>Restoring\<close>

text \<open>On Unix a path has no volume name, and is absolute when it starts with a slash.\<close>

definition to_slashes :: "string \<Rightarrow> string" where
  "to_slashes nm = map (\<lambda>c. if c = backslash then slash else c) nm"

definition safe_archive_path :: "string \<Rightarrow> backup_err + string" where
  "safe_archive_path nm =
     (let slashed = to_slashes nm; clean = path_clean slashed in
      if clean = [] \<or> clean = ''.'' \<or> has_prefix slashed [slash] \<or> clean = ''..''
         \<or> has_prefix clean ''../'' \<or> has_prefix clean [slash]
      then Inl (UnsafePath nm) else Inr clean)"

definition restore_perm :: "string \<Rightarrow> nat \<Rightarrow> nat" where
  "restore_perm rel mode =
     (if has_suffix rel ''.key'' then 384 else let p = mode mod 512 in if p = 0 then 384 else p)"

text \<open>The tree and the permissions of its files.\<close>

fun untar_entries ::
    "ca_io \<Rightarrow> archive_entry list \<Rightarrow> string option \<Rightarrow> tree \<Rightarrow> (string \<Rightarrow> nat)
     \<Rightarrow> backup_err option \<times> tree \<times> (string \<Rightarrow> nat)" where
  "untar_entries io [] tail fs pm =
     (case tail of Some e \<Rightarrow> Some (ArchiveUnreadable e) | None \<Rightarrow> None, fs, pm)"
| "untar_entries io (e # es) tail fs pm =
     (if \<not> ae_regular e then untar_entries io es tail fs pm
      else case safe_archive_path (ae_name e) of
        Inl x \<Rightarrow> (Some x, fs, pm)
      | Inr rel \<Rightarrow>
          (case write_file_atomic io rel (take backup_max_plaintext (ae_data e)) fs of
             (Some x, fs1) \<Rightarrow> (Some (RestoreCa x), fs1, pm)
           | (None, fs1) \<Rightarrow>
               untar_entries io es tail fs1 (pm(rel := restore_perm rel (ae_mode e)))))"

definition untar_ca_dir ::
    "'a backup_lib \<Rightarrow> ca_io \<Rightarrow> string \<Rightarrow> tree \<Rightarrow> (string \<Rightarrow> nat)
     \<Rightarrow> backup_err option \<times> tree \<times> (string \<Rightarrow> nat)" where
  "untar_ca_dir B io archive fs pm =
     (case bl_gunzip B archive of
        Inl e \<Rightarrow> (Some (ArchiveUnreadable e), fs, pm)
      | Inr (plain, err) \<Rightarrow>
          (case ca_mkdir io of
             Some e \<Rightarrow> (Some (RestoreCa (MkdirFails e)), fs, pm)
           | None \<Rightarrow>
               (case bl_untar B (take backup_max_plaintext plain)
                       (if length plain \<ge> backup_max_plaintext then None else err) of
                  (es, tail) \<Rightarrow> untar_entries io es tail fs pm)))"

text \<open>The checks of a container, up to the archive in it.\<close>

definition open_backup ::
    "'a backup_lib \<Rightarrow> time_codec \<Rightarrow> string \<Rightarrow> string \<Rightarrow> backup_err + string" where
  "open_backup B tc data passphrase =
     (case Option.bind (json_parse data) (header_of_json tc) of
        None \<Rightarrow> Inl NotABackup
      | Some hdr \<Rightarrow>
     (if bh_format hdr \<noteq> backup_format then Inl (WrongFormat (bh_format hdr))
      else if bh_version hdr > backup_version then Inl (NewerVersion (bh_version hdr))
      else if bh_kdf hdr \<noteq> kdf_name \<or> bh_cipher hdr \<noteq> cipher_name
      then Inl (UnsupportedCipher (bh_kdf hdr) (bh_cipher hdr))
      else if bh_iterations hdr < 100000 \<or> bh_iterations hdr > 10000000
      then Inl (ImplausibleIterations (bh_iterations hdr))
      else case b64_decode (bh_salt hdr) of
        None \<Rightarrow> Inl (BadBase64 ''salt'')
      | Some salt \<Rightarrow>
     (case b64_decode (bh_nonce hdr) of
        None \<Rightarrow> Inl (BadBase64 ''nonce'')
      | Some nonce \<Rightarrow>
     (case b64_decode (bh_payload hdr) of
        None \<Rightarrow> Inl (BadBase64 ''payload'')
      | Some payload \<Rightarrow>
     (case bl_kdf B passphrase salt (bh_iterations hdr) of
        Inl e \<Rightarrow> Inl (DeriveFails e)
      | Inr aead \<Rightarrow>
          (if length nonce \<noteq> bl_nonce_size B aead then Inl (NonceLength (length nonce))
           else case bl_open B aead nonce payload (header_aad tc hdr) of
             None \<Rightarrow> Inl CannotOpen | Some archive \<Rightarrow> Inr archive))))))"

definition restore ::
    "'a backup_lib \<Rightarrow> time_codec \<Rightarrow> ca_io \<Rightarrow> string \<Rightarrow> string \<Rightarrow> tree \<Rightarrow> (string \<Rightarrow> nat)
     \<Rightarrow> backup_err option \<times> tree \<times> (string \<Rightarrow> nat)" where
  "restore B tc io data passphrase fs pm =
     (case open_backup B tc data passphrase of
        Inl e \<Rightarrow> (Some e, fs, pm)
      | Inr archive \<Rightarrow>
          (case assert_no_ca io fs of
             Inl e \<Rightarrow> (Some (RestoreCa e), fs, pm)
           | Inr us \<Rightarrow> untar_ca_dir B io archive fs pm))"

definition backup_info :: "time_codec \<Rightarrow> string \<Rightarrow> backup_err + int \<times> string" where
  "backup_info tc data =
     (case Option.bind (json_parse data) (header_of_json tc) of
        None \<Rightarrow> Inl NotABackup
      | Some hdr \<Rightarrow>
          (if bh_format hdr \<noteq> backup_format then Inl (WrongFormat (bh_format hdr))
           else Inr (bh_created_at hdr, bh_cn hdr)))"

section \<open>Properties\<close>

text \<open>A path that stays below the directory it is joined to.\<close>

definition below :: "string \<Rightarrow> bool" where
  "below p \<longleftrightarrow> (\<exists>ys. ys \<noteq> [] \<and> (\<forall>y \<in> set ys. proper y) \<and> p = join [slash] ys)"

lemma join_up: "join [slash] (''..'' # ps) = ''..'' \<or> has_prefix (join [slash] (''..'' # ps)) ''../''"
  by (cases ps) (simp_all add: has_prefix_def slash_def)

lemma safe_archive_path_below: "safe_archive_path nm = Inr rel \<Longrightarrow> below rel"
proof -
  assume a: "safe_archive_path nm = Inr rel"
  define s where "s = to_slashes nm"
  from a have rel: "rel = path_clean s" "path_clean s \<noteq> ''.''" "path_clean s \<noteq> ''..''"
    "\<not> has_prefix (path_clean s) ''../''" "\<not> has_prefix s [slash]"
    by (auto simp: safe_archive_path_def Let_def s_def split: if_splits)
  from rel(2) have "s \<noteq> []" by (auto simp: path_clean_def)
  moreover from rel(5) have "hd s \<noteq> slash" using \<open>s \<noteq> []\<close> by (cases s) (auto simp: has_prefix_def)
  ultimately obtain m ys where ys: "\<forall>y \<in> set ys. proper y"
    and c: "path_clean s = (if replicate m ''..'' @ ys = [] then ''.'' else join [slash] (replicate m ''..'' @ ys))"
    using path_clean_shape by blast
  show ?thesis
  proof (cases m)
    case 0
    with c ys rel(1,2) show ?thesis by (auto simp: below_def split: if_splits)
  next
    case (Suc k)
    with c join_up [of "replicate k ''..'' @ ys"] rel(3,4) show ?thesis by auto
  qed
qed

lemma untar_entries_confined:
  assumes "untar_entries io es tail fs pm = (r, fs', pm')" and "(fs' p, pm' p) \<noteq> (fs p, pm p)"
  shows "below p \<and> (has_suffix p ''.key'' \<longrightarrow> pm' p = 384)"
  using assms
proof (induction io es tail fs pm rule: untar_entries.induct)
  case (2 io e es tail fs pm)
  show ?case
  proof (cases "ae_regular e")
    case False
    with 2 show ?thesis by simp
  next
    case True
    note reg = this
    show ?thesis
    proof (cases "safe_archive_path (ae_name e)")
      case (Inl x)
      with 2(3,4) reg show ?thesis by simp
    next
      case (Inr rel)
      obtain w fs1 where w: "write_file_atomic io rel (take backup_max_plaintext (ae_data e)) fs = (w, fs1)"
        by fastforce
      show ?thesis
      proof (cases w)
        case (Some x)
        with w have "fs1 = fs" by (auto simp: write_file_atomic_def split: option.splits)
        with 2(3,4) reg Inr w Some show ?thesis by simp
      next
        case None
        let ?pm = "pm(rel := restore_perm rel (ae_mode e))"
        from 2(3) reg Inr w None have step: "untar_entries io es tail fs1 ?pm = (r, fs', pm')" by simp
        show ?thesis
        proof (cases "(fs' p, pm' p) = (fs1 p, ?pm p)")
          case False
          show ?thesis
            by (rule 2(2) [OF _ Inr w [symmetric] None step False]) (simp add: reg)
        next
          case True
          with 2(4) w None have "p = rel"
            by (auto simp: write_file_atomic_def split: option.splits if_splits)
          with True safe_archive_path_below [OF Inr] show ?thesis by (auto simp: restore_perm_def)
        qed
      qed
    qed
  qed
qed auto

text \<open>(C29) A restore stays in its directory: whatever the container holds, whoever made it, and however it
  ends, a restore changes nothing in a directory that has a certificate or a key of an authority, and
  otherwise only files below the directory, none through \<open>..\<close> or an absolute name; every file whose
  name ends in \<open>.key\<close> is readable by its owner alone.\<close>

theorem restore_confined:
  assumes "restore B tc io data passphrase fs pm = (r, fs', pm')" and "(fs' p, pm' p) \<noteq> (fs p, pm p)"
  shows "below p \<and> (has_suffix p ''.key'' \<longrightarrow> pm' p = 384) \<and> fs ''ca.crt'' = None \<and> fs ''ca.key'' = None"
proof -
  from assms obtain archive us where "assert_no_ca io fs = Inr us"
    and u: "untar_ca_dir B io archive fs pm = (r, fs', pm')"
    by (auto simp: restore_def split: sum.splits)
  then have "fs ''ca.crt'' = None" "fs ''ca.key'' = None"
    by (auto simp: assert_no_ca_def rbind_Inr_iff split: option.splits if_splits)
  moreover from u assms(2) obtain es tail where "untar_entries io es tail fs pm = (r, fs', pm')"
    by (auto simp: untar_ca_dir_def split: sum.splits option.splits prod.splits)
  ultimately show ?thesis using untar_entries_confined assms(2) by blast
qed

text \<open>What the archive of a directory holds.\<close>

definition backed_up :: "(string \<times> bool \<times> nat) list \<Rightarrow> string \<Rightarrow> bool" where
  "backed_up ws p \<longleftrightarrow> (\<exists>mode. (p, True, mode) \<in> set ws) \<and> \<not> is_temp p"

lemma pack_entries_Inr:
  "pack_entries io ws fs = Inr es \<Longrightarrow>
    list_all ae_regular es \<and> (\<forall>e \<in> set es. fs (ae_name e) = Some (ae_data e))
    \<and> ae_name ` set es = {p. backed_up ws p}"
proof (induction ws arbitrary: es)
  case Nil
  then show ?case by (auto simp: backed_up_def)
next
  case (Cons w ws)
  obtain rel regular mode where w: "w = (rel, regular, mode)" by (cases w)
  show ?case
  proof (cases "regular \<and> \<not> is_temp rel")
    case False
    with Cons.prems w have "pack_entries io ws fs = Inr es" by auto
    moreover have "backed_up (w # ws) p \<longleftrightarrow> backed_up ws p" for p using False w by (auto simp: backed_up_def)
    ultimately show ?thesis using Cons.IH by simp
  next
    case True
    with Cons.prems w obtain t es1 where "pack_entries io ws fs = Inr es1" "read_file io rel fs = Inr t"
      and es: "es = \<lparr>ae_name = rel, ae_mode = mode mod 512, ae_data = t, ae_regular = True\<rparr> # es1"
      by (auto simp: rbind_Inr_iff split: sum.splits)
    moreover from this(2) have "fs rel = Some t" by (auto simp: read_file_def split: option.splits)
    moreover have "backed_up (w # ws) p \<longleftrightarrow> p = rel \<or> backed_up ws p" for p
      using True w by (auto simp: backed_up_def)
    ultimately show ?thesis using Cons.IH by auto
  qed
qed

lemma untar_entries_all:
  assumes "list_all ae_regular es" and "\<forall>e \<in> set es. safe_archive_path (ae_name e) = Inr (ae_name e)"
    and "\<forall>e \<in> set es. length (ae_data e) \<le> backup_max_plaintext"
    and "\<forall>e \<in> set es. src (ae_name e) = Some (ae_data e)"
  shows "\<exists>fs' pm'. untar_entries ca_io_fine es None fs pm = (None, fs', pm')
    \<and> (\<forall>p. fs' p = (if p \<in> ae_name ` set es then src p else fs p))"
  using assms
proof (induction es arbitrary: fs pm)
  case (Cons e es)
  let ?fs = "fs(ae_name e \<mapsto> ae_data e)" and ?pm = "pm(ae_name e := restore_perm (ae_name e) (ae_mode e))"
  from Cons.IH [of ?fs ?pm] Cons.prems obtain fs' pm' where
    "untar_entries ca_io_fine es None ?fs ?pm = (None, fs', pm')"
    "\<forall>p. fs' p = (if p \<in> ae_name ` set es then src p else ?fs p)"
    by (simp del: fun_upd_apply) blast
  with Cons.prems show ?case by (intro exI [of _ fs'] exI [of _ pm']) (auto simp: write_file_atomic_def ca_io_fine_def)
qed simp

definition backup_lib_ok :: "'a backup_lib \<Rightarrow> bool" where
  "backup_lib_ok B \<longleftrightarrow>
     (\<forall>a n m ad. bl_open B a n (bl_seal B a n m ad) ad = Some m)
     \<and> (\<forall>es. list_all ae_regular es \<longrightarrow> bl_untar B (bl_tar B es) None = (es, None))
     \<and> (\<forall>es. \<forall>e \<in> set es. length (ae_data e) \<le> length (bl_tar B es))
     \<and> (\<forall>t. bl_gunzip B (bl_gzip B t) = Inr (t, None))"

lemma backup_Inr:
  assumes "backup B L matches tc io now walk salt nonce pass fs = Inr data"
  obtains a s n es hdr key ws where "ca_load L io fs = Inr a" "walk = Inr ws" "salt = Inr s" "nonce = Inr n"
    "pack_entries io ws fs = Inr es"
    "hdr = \<lparr>bh_format = backup_format, bh_version = backup_version, bh_created_at = now,
            bh_cn = ct_cn (au_cert a), bh_kdf = kdf_name, bh_iterations = backup_kdf_iterations,
            bh_salt = b64_encode s, bh_cipher = cipher_name, bh_nonce = b64_encode n, bh_payload = []\<rparr>"
    "bl_kdf B pass s backup_kdf_iterations = Inr key"
    "data = json_marshal_indent (header_json tc (hdr\<lparr>bh_payload :=
        b64_encode (bl_seal B key n (bl_gzip B (bl_tar B es)) (header_aad tc hdr))\<rparr>)) @ [CHR 0x0A]"
  using assms
  by (cases salt; cases nonce; cases "bl_kdf B pass (projr salt) backup_kdf_iterations")
    (auto simp: backup_def tar_ca_dir_def rbind_Inr_iff Let_def split: if_splits sum.splits)

lemma open_sealed:
  assumes "backup_lib_ok B" and "codec_ok tc" and "bl_nonce_size B key = length n"
    and "hdr = \<lparr>bh_format = backup_format, bh_version = backup_version, bh_created_at = now,
            bh_cn = cn, bh_kdf = kdf_name, bh_iterations = backup_kdf_iterations,
            bh_salt = b64_encode s, bh_cipher = cipher_name, bh_nonce = b64_encode n, bh_payload = []\<rparr>"
    and "bl_kdf B pass s backup_kdf_iterations = Inr key"
  shows "open_backup B tc (json_marshal_indent (header_json tc (hdr\<lparr>bh_payload :=
      b64_encode (bl_seal B key n m (header_aad tc hdr))\<rparr>)) @ [CHR 0x0A]) pass = Inr m"
proof -
  let ?h = "hdr\<lparr>bh_payload := b64_encode (bl_seal B key n m (header_aad tc hdr))\<rparr>"
  have "header_of_json tc (header_json tc ?h) = Some ?h"
    by (rule header_of_json_json)
      (simp_all add: assms(2,4) backup_version_def backup_kdf_iterations_def int64_range_def)
  moreover have "json_parse (json_marshal_indent (header_json tc ?h) @ [CHR 0x0A]) = Some (header_json tc ?h)"
    using header_json_wf by simp
  moreover have "header_aad tc ?h = header_aad tc hdr" by (simp add: header_aad_def)
  ultimately show ?thesis using assms
    by (simp add: open_backup_def backup_lib_ok_def backup_version_def backup_kdf_iterations_def)
qed

lemma restore_all:
  assumes "backup_lib_ok B" and "codec_ok tc" and "\<And>a. bl_nonce_size B a = length n"
    and "backup B L matches tc io now (Inr ws) (Inr s) (Inr n) pass fs = Inr data"
    and "\<And>p. backed_up ws p \<Longrightarrow> safe_archive_path p = Inr p"
    and "\<And>es. pack_entries io ws fs = Inr es \<Longrightarrow> length (bl_tar B es) \<le> backup_max_plaintext"
    and "backed_up ws ''ca.crt''" and "backed_up ws ''ca.key''"
  shows "\<exists>fs' pm'. restore B tc ca_io_fine data pass Map.empty pm = (None, fs', pm')
    \<and> (\<forall>p. fs' p = (if backed_up ws p then fs p else None))
    \<and> ok (ca_load L io fs) \<and> ca_load L ca_io_fine fs' = ca_load L io fs"
proof -
  obtain a es hdr key where load: "ca_load L io fs = Inr a" and es: "pack_entries io ws fs = Inr es"
    and hdr: "hdr = \<lparr>bh_format = backup_format, bh_version = backup_version, bh_created_at = now,
            bh_cn = ct_cn (au_cert a), bh_kdf = kdf_name, bh_iterations = backup_kdf_iterations,
            bh_salt = b64_encode s, bh_cipher = cipher_name, bh_nonce = b64_encode n, bh_payload = []\<rparr>"
    and key: "bl_kdf B pass s backup_kdf_iterations = Inr key"
    and data: "data = json_marshal_indent (header_json tc (hdr\<lparr>bh_payload :=
        b64_encode (bl_seal B key n (bl_gzip B (bl_tar B es)) (header_aad tc hdr))\<rparr>)) @ [CHR 0x0A]"
    using backup_Inr [OF assms(4)] by (metis sum.inject(2))
  note p = pack_entries_Inr [OF es]
  have "open_backup B tc data pass = Inr (bl_gzip B (bl_tar B es))"
    unfolding data by (rule open_sealed [OF assms(1,2,3) hdr key])
  moreover have "assert_no_ca ca_io_fine Map.empty = Inr [(), ()]"
    by (simp add: assert_no_ca_def ca_io_fine_def)
  moreover have "bl_untar B (take backup_max_plaintext (bl_tar B es)) None = (es, None)"
    using assms(1) assms(6) [OF es] p unfolding backup_lib_ok_def by simp
  moreover have small: "\<forall>e \<in> set es. length (ae_data e) \<le> backup_max_plaintext"
    using assms(1) assms(6) [OF es] unfolding backup_lib_ok_def by (meson order_trans)
  moreover have "\<forall>e \<in> set es. safe_archive_path (ae_name e) = Inr (ae_name e)"
    using p assms(5) by (metis imageI mem_Collect_eq)
  then have "\<exists>fs' pm'. untar_entries ca_io_fine es None Map.empty pm = (None, fs', pm')
      \<and> (\<forall>p. fs' p = (if p \<in> ae_name ` set es then fs p else None))"
    using p small by (intro untar_entries_all) auto
  ultimately obtain fs' pm' where r: "restore B tc ca_io_fine data pass Map.empty pm = (None, fs', pm')"
    and fs': "\<forall>p. fs' p = (if backed_up ws p then fs p else None)"
    using assms(1) p by (auto simp: restore_def untar_ca_dir_def backup_lib_ok_def ca_io_fine_def)
  have "ca_load L ca_io_fine fs' = Inr a"
    using load fs' assms(7,8)
    by (auto simp: ca_load_def read_cert_def read_key_def read_file_def ca_io_fine_def rbind_Inr_iff
        split: option.splits)
  with r fs' load show ?thesis by auto
qed

text \<open>A backup restores the authority: into an empty directory, with the same passphrase, every regular
  file of the directory comes back with its contents under its name, nothing else does, and \<open>Load\<close>
  finds the same certificate and key, provided the archive is within the size a restore reads and the
  names are ones a restore leaves alone.\<close>

theorem backup_restore:
  assumes "backup_lib_ok B" and "codec_ok tc" and "\<And>a. bl_nonce_size B a = length n"
    and "backup B L matches tc io now (Inr ws) (Inr s) (Inr n) pass fs = Inr data"
    and "\<And>p. backed_up ws p \<Longrightarrow> safe_archive_path p = Inr p"
    and "\<And>es. pack_entries io ws fs = Inr es \<Longrightarrow> length (bl_tar B es) \<le> backup_max_plaintext"
    and "backed_up ws ''ca.crt''" and "backed_up ws ''ca.key''"
  shows "\<exists>fs' pm'. restore B tc ca_io_fine data pass Map.empty pm = (None, fs', pm')
    \<and> (\<forall>p. fs' p = (if backed_up ws p then fs p else None))
    \<and> ok (ca_load L io fs) \<and> ca_load L ca_io_fine fs' = ca_load L io fs"
  using assms by (rule restore_all)

text \<open>A library that computes: strings are quoted one after the other, and sealing writes the key, the
  nonce and the additional data next to the text.\<close>

definition quote :: "string \<Rightarrow> string" where
  "quote s = concat (map (\<lambda>c. [CHR ''a'', c]) s) @ ''b''"

fun unquote :: "string \<Rightarrow> string \<times> string" where
  "unquote (a # c # r) = (if a = CHR ''a'' then (case unquote r of (s, q) \<Rightarrow> (c # s, q)) else ([], c # r))"
| "unquote s = ([], [])"

lemma unquote_quote [simp]: "unquote (quote s @ r) = (s, r)"
proof (induction s)
  case Nil
  then show ?case by (cases r) (simp_all add: quote_def)
qed (simp add: quote_def)

fun toy_tar :: "archive_entry list \<Rightarrow> string" where
  "toy_tar [] = []"
| "toy_tar (e # es) = quote (ae_name e) @ quote (replicate (ae_mode e) CHR ''m'') @ quote (ae_data e) @ toy_tar es"

fun toy_untar :: "nat \<Rightarrow> string \<Rightarrow> archive_entry list" where
  "toy_untar 0 s = []"
| "toy_untar (Suc n) s =
     (if s = [] then []
      else (case unquote s of (nm, r) \<Rightarrow> (case unquote r of (m, r1) \<Rightarrow> (case unquote r1 of (d, r2) \<Rightarrow>
        \<lparr>ae_name = nm, ae_mode = length m, ae_data = d, ae_regular = True\<rparr> # toy_untar n r2))))"

lemma toy_untar_tar: "list_all ae_regular es \<Longrightarrow> length es \<le> n \<Longrightarrow> toy_untar n (toy_tar es) = es"
proof (induction es arbitrary: n)
  case (Cons e es)
  then obtain m where n: "n = Suc m" by (cases n) auto
  have "quote s \<noteq> []" for s by (simp add: quote_def)
  with Cons n show ?case by simp
next
  case Nil
  then show ?case by (cases n) auto
qed

lemma toy_tar_length: "length es \<le> length (toy_tar es)" "e \<in> set es \<Longrightarrow> length (ae_data e) \<le> length (toy_tar es)"
proof -
  have q: "length s < length (quote s)" for s by (induction s) (auto simp: quote_def)
  show "length es \<le> length (toy_tar es)"
  proof (induction es)
    case (Cons e es)
    with q [of "ae_data e"] show ?case by simp
  qed simp
  show "e \<in> set es \<Longrightarrow> length (ae_data e) \<le> length (toy_tar es)"
  proof (induction es)
    case (Cons f es)
    with q [of "ae_data f"] show ?case by auto
  qed simp
qed

definition toy_backup_lib :: "string backup_lib" where
  "toy_backup_lib = \<lparr>bl_kdf = (\<lambda>p s i. Inr (quote p @ quote s @ int_str i)),
     bl_seal = (\<lambda>a n m ad. quote a @ quote n @ quote ad @ m),
     bl_open = (\<lambda>a n c ad. case unquote c of (a1, r) \<Rightarrow> case unquote r of (n1, r1) \<Rightarrow> case unquote r1 of (d1, m) \<Rightarrow>
       if a1 = a \<and> n1 = n \<and> d1 = ad then Some m else None),
     bl_nonce_size = (\<lambda>a. 12), bl_tar = toy_tar, bl_untar = (\<lambda>s e. (toy_untar (length s) s, e)),
     bl_gzip = (\<lambda>s. s), bl_gunzip = (\<lambda>s. Inr (s, None))\<rparr>"

lemma toy_backup_lib_ok: "backup_lib_ok toy_backup_lib"
  using toy_tar_length by (auto simp: backup_lib_ok_def toy_backup_lib_def intro!: toy_untar_tar)

definition backup_cert :: certificate where
  "backup_cert = \<lparr>ct_serial = 9, ct_cn = ''ca'', ct_not_before = 0, ct_not_after = 1, ct_usage = {},
     ct_ext_usage = [], ct_dns = [], ct_ips = [], ct_is_ca = True, ct_path_len_zero = True, ct_basic = True\<rparr>"

definition backup_ca_lib :: "unit ca_lib" where
  "backup_ca_lib = \<lparr>xl_sign = (\<lambda>t p k sk. Inr ''D''), xl_parse = (\<lambda>d. Inr backup_cert),
     xl_pkcs8 = (\<lambda>k. Inr ''K''), xl_parse_key = (\<lambda>d. Inr (Some ())), xl_pem = (\<lambda>ty b. b), xl_unpem = Some\<rparr>"

definition sample_dir :: tree where
  "sample_dir = Map.empty(''ca.crt'' \<mapsto> ''D'', ''ca.key'' \<mapsto> ''K'', ''clients/.ca-1.tmp'' \<mapsto> ''x'')"

definition sample_walk :: "(string \<times> bool \<times> nat) list" where
  "sample_walk = [(''ca.crt'', True, 420), (''ca.key'', True, 384), (''clients'', False, 448),
     (''clients/.ca-1.tmp'', True, 384)]"

lemma sample_backed_up: "backed_up sample_walk p \<longleftrightarrow> p = ''ca.crt'' \<or> p = ''ca.key''"
proof -
  have "is_temp ''clients/.ca-1.tmp''" "\<not> is_temp ''ca.crt''" "\<not> is_temp ''ca.key''" by code_simp+
  then show ?thesis by (auto simp: backed_up_def sample_walk_def)
qed

lemma length_quote [simp]: "length (quote s) = 2 * length s + 1"
  by (induction s) (simp_all add: quote_def)

lemma sample_pack:
  "pack_entries ca_io_fine sample_walk sample_dir =
     Inr [\<lparr>ae_name = ''ca.crt'', ae_mode = 420, ae_data = ''D'', ae_regular = True\<rparr>,
          \<lparr>ae_name = ''ca.key'', ae_mode = 384, ae_data = ''K'', ae_regular = True\<rparr>]"
proof -
  have "is_temp ''clients/.ca-1.tmp''" "\<not> is_temp ''ca.crt''" "\<not> is_temp ''ca.key''" by code_simp+
  then show ?thesis by (simp add: sample_walk_def sample_dir_def read_file_def ca_io_fine_def)
qed

lemma sample_backup:
  "\<exists>data. backup toy_backup_lib backup_ca_lib (\<lambda>k c. True) no_codec ca_io_fine 5 (Inr sample_walk)
      (Inr ''salt'') (Inr ''nonce-12-byt'') ''correct horse'' sample_dir = Inr data"
proof -
  have "ca_load backup_ca_lib ca_io_fine sample_dir = Inr \<lparr>au_cert = backup_cert, au_key = ()\<rparr>"
    by (simp add: ca_load_def read_cert_def read_key_def read_file_def parse_cert_def parse_key_def
        backup_ca_lib_def sample_dir_def ca_io_fine_def)
  moreover have "\<not> length (runes ''correct horse'') < min_passphrase_len"
    by (subst runes_ascii) (simp_all add: min_passphrase_len_def)
  ultimately show ?thesis
    using sample_pack by (simp add: backup_def tar_ca_dir_def toy_backup_lib_def Let_def)
qed

lemma sample_hyps:
  "backed_up sample_walk p \<Longrightarrow> safe_archive_path p = Inr p"
  "pack_entries ca_io_fine sample_walk sample_dir = Inr es \<Longrightarrow> length (bl_tar toy_backup_lib es) \<le> backup_max_plaintext"
  "bl_nonce_size toy_backup_lib a = length ''nonce-12-byt''"
  "backed_up sample_walk ''ca.crt''" "backed_up sample_walk ''ca.key''"
proof -
  have "safe_archive_path ''ca.crt'' = Inr ''ca.crt''" "safe_archive_path ''ca.key'' = Inr ''ca.key''"
    by code_simp+
  then show "backed_up sample_walk p \<Longrightarrow> safe_archive_path p = Inr p" by (auto simp: sample_backed_up)
qed (use sample_pack in \<open>auto simp: toy_backup_lib_def backup_max_plaintext_def sample_backed_up\<close>)

theorem backup_restore_witness:
  "\<exists>data fs' pm'. backup toy_backup_lib backup_ca_lib (\<lambda>k c. True) no_codec ca_io_fine 5 (Inr sample_walk)
      (Inr ''salt'') (Inr ''nonce-12-byt'') ''correct horse'' sample_dir = Inr data
    \<and> restore toy_backup_lib no_codec ca_io_fine data ''correct horse'' Map.empty (\<lambda>p. 0) = (None, fs', pm')
    \<and> fs' ''ca.key'' = Some ''K'' \<and> fs' ''clients/.ca-1.tmp'' = None"
proof -
  obtain data where b: "backup toy_backup_lib backup_ca_lib (\<lambda>k c. True) no_codec ca_io_fine 5 (Inr sample_walk)
      (Inr ''salt'') (Inr ''nonce-12-byt'') ''correct horse'' sample_dir = Inr data" using sample_backup ..
  from backup_restore [OF toy_backup_lib_ok no_codec_ok sample_hyps(3) b sample_hyps(1,2,4,5), of "\<lambda>p. 0"] b
  show ?thesis by (auto simp: sample_backed_up sample_dir_def)
qed

theorem restore_confined_witness:
  "\<exists>data fs' pm'. restore toy_backup_lib no_codec ca_io_fine data ''correct horse'' Map.empty (\<lambda>p. 0)
      = (None, fs', pm') \<and> fs' ''ca.key'' = Some ''K'' \<and> below ''ca.key'' \<and> pm' ''ca.key'' = 384"
proof -
  obtain data where b: "backup toy_backup_lib backup_ca_lib (\<lambda>k c. True) no_codec ca_io_fine 5 (Inr sample_walk)
      (Inr ''salt'') (Inr ''nonce-12-byt'') ''correct horse'' sample_dir = Inr data" using sample_backup ..
  from restore_all [OF toy_backup_lib_ok no_codec_ok sample_hyps(3) b sample_hyps(1,2,4,5), of "\<lambda>p. 0"]
  obtain fs' pm' where r: "restore toy_backup_lib no_codec ca_io_fine data ''correct horse'' Map.empty (\<lambda>p. 0)
      = (None, fs', pm')" and k: "fs' ''ca.key'' = Some ''K''" by (auto simp: sample_backed_up sample_dir_def)
  have "has_suffix ''ca.key'' ''.key''" by code_simp
  with restore_confined [OF r, of "''ca.key''"] k r show ?thesis by (intro exI [of _ data]) auto
qed

section \<open>Names with a backslash\<close>

text \<open>On Unix a client may have a backslash in its name: its file is in the backup, but a restore puts it
  under another name, in a directory below, instead of rejecting the entry.\<close>

lemma backslash_moved:
  "check_client_name (''a'' @ [backslash] @ ''b'')
   \<and> safe_archive_path (client_cert (''a'' @ [backslash] @ ''b'')) = Inr ''clients/a/b.crt''
   \<and> client_cert (''a'' @ [backslash] @ ''b'') \<noteq> ''clients/a/b.crt''"
  by code_simp

section \<open>Tampering\<close>

text \<open>Ideal sealing: what was sealed opens only with the same key, nonce and additional data.\<close>

definition sealing_ideal :: "'a backup_lib \<Rightarrow> bool" where
  "sealing_ideal B \<longleftrightarrow> (\<forall>a n m ad a' n' ad' m'.
     bl_open B a' n' (bl_seal B a n m ad) ad' = Some m' \<longrightarrow> a' = a \<and> n' = n \<and> ad' = ad \<and> m' = m)"

lemma fold_field_int: "fold_field set_int nm ms a = Some i \<Longrightarrow> int64_range a \<Longrightarrow> int64_range i"
proof (induction set_int nm ms a rule: fold_field.induct)
  case (2 nm k v ms a)
  then show ?case by (cases v) (auto split: if_splits option.splits dest: parse_int64_range)
qed simp

lemma header_of_json_range:
  "header_of_json tc j = Some h \<Longrightarrow> int64_range (bh_version h) \<and> int64_range (bh_iterations h)"
  by (cases j) (auto simp: zero_header_def int64_range_def split: option.splits
      dest: fold_field_int [unfolded int64_range_def])

lemma header_aad_inject:
  assumes "codec_ok tc" and "header_aad tc g = header_aad tc h"
    and "int64_range (bh_version g)" "int64_range (bh_iterations g)"
    and "int64_range (bh_version h)" "int64_range (bh_iterations h)"
  shows "g\<lparr>bh_payload := []\<rparr> = h\<lparr>bh_payload := []\<rparr>"
proof -
  have "header_json tc (g\<lparr>bh_payload := []\<rparr>) = header_json tc (h\<lparr>bh_payload := []\<rparr>)"
    using arg_cong [OF assms(2), of json_parse] header_json_wf by (simp add: header_aad_def)
  then have "header_of_json tc (header_json tc (g\<lparr>bh_payload := []\<rparr>)) = header_of_json tc (header_json tc (h\<lparr>bh_payload := []\<rparr>))"
    by simp
  then show ?thesis using assms by (simp add: header_of_json_json)
qed

text \<open>An edited header does not open: if sealing is ideal, a container with the payload of a backup
  and a header that differs from the backup's in any field, the iteration count, the salt or the date
  included, is refused with every passphrase.\<close>

theorem tampered_header_refused:
  assumes "sealing_ideal B" and "codec_ok tc"
    and "bh_payload h = b64_encode (bl_seal B key n m (header_aad tc h))"
    and "int64_range (bh_version h)" "int64_range (bh_iterations h)"
    and "Option.bind (json_parse data) (header_of_json tc) = Some g"
    and "bh_payload g = bh_payload h" and "g \<noteq> h"
  shows "\<not> ok (open_backup B tc data pass)"
proof
  assume "ok (open_backup B tc data pass)"
  with assms(6) obtain nonce payload aead archive where "b64_decode (bh_payload g) = Some payload"
    and "bl_open B aead nonce payload (header_aad tc g) = Some archive"
    by (auto simp: open_backup_def split: if_splits option.splits sum.splits)
  with assms(1,3,7) have "header_aad tc g = header_aad tc h" unfolding sealing_ideal_def by simp blast
  moreover from assms(6) have "int64_range (bh_version g) \<and> int64_range (bh_iterations g)"
    by (auto simp: bind_eq_Some_conv dest: header_of_json_range)
  ultimately have "g\<lparr>bh_payload := []\<rparr> = h\<lparr>bh_payload := []\<rparr>" using header_aad_inject assms(2,4,5) by blast
  with assms(7,8) show False by (cases g; cases h) simp
qed

lemma toy_sealing_ideal: "sealing_ideal toy_backup_lib"
  by (auto simp: sealing_ideal_def toy_backup_lib_def split: if_splits)

definition sealed_header :: backup_header where
  "sealed_header =
     (let h = \<lparr>bh_format = backup_format, bh_version = 1, bh_created_at = 5, bh_cn = ''ca'', bh_kdf = kdf_name,
          bh_iterations = 600000, bh_salt = b64_encode ''salt'', bh_cipher = cipher_name,
          bh_nonce = b64_encode ''nonce-12-byt'', bh_payload = []\<rparr>
      in h\<lparr>bh_payload := b64_encode (bl_seal toy_backup_lib ''key'' ''nonce-12-byt'' ''archive''
           (header_aad no_codec h))\<rparr>)"

theorem tampered_header_refused_witness:
  "\<not> ok (open_backup toy_backup_lib no_codec
      (json_marshal (header_json no_codec (sealed_header\<lparr>bh_iterations := 100000\<rparr>))) ''any'')"
proof (rule tampered_header_refused [OF toy_sealing_ideal no_codec_ok])
  show "bh_payload sealed_header = b64_encode (bl_seal toy_backup_lib ''key'' ''nonce-12-byt'' ''archive''
      (header_aad no_codec sealed_header))"
    by (simp add: sealed_header_def header_aad_def Let_def)
  show "int64_range (bh_version sealed_header)" "int64_range (bh_iterations sealed_header)"
    by (simp_all add: sealed_header_def Let_def int64_range_def)
  have "header_of_json no_codec (header_json no_codec (sealed_header\<lparr>bh_iterations := 100000\<rparr>))
      = Some (sealed_header\<lparr>bh_iterations := 100000\<rparr>)"
    by (rule header_of_json_json [OF no_codec_ok]) (simp_all add: sealed_header_def Let_def int64_range_def)
  then show "Option.bind (json_parse (json_marshal (header_json no_codec (sealed_header\<lparr>bh_iterations := 100000\<rparr>))))
      (header_of_json no_codec) = Some (sealed_header\<lparr>bh_iterations := 100000\<rparr>)"
    using header_json_wf by simp
  show "sealed_header\<lparr>bh_iterations := 100000\<rparr> \<noteq> sealed_header" by (simp add: sealed_header_def Let_def)
qed simp

end
