(* ===== verification/Health.thy ===== *)
theory Health
  imports Watchdog Revoke Session
begin

text \<open>
  The server's health report (\<open>src/internal/tunnel/server/health.go\<close>): what it says of the node, the
  HTTP answer that carries it, and what the watchdog reads from that answer. The clock, the text of a
  date and of an error, and \<open>int(math.Floor(d.Hours() / 24))\<close>, a computation in floating point, are
  arguments.
\<close>

definition cert_expiry_warning :: int where
  "cert_expiry_warning = 21 * 24 * 3600 * 1000000000"

record health_report =
  hr_live :: bool
  hr_ready :: bool
  hr_not_ready :: "string list"
  hr_warnings :: "string list"
  hr_listen :: string
  hr_tun :: string
  hr_sessions :: int
  hr_cert_not_after :: int
  hr_days :: int

record leaf =
  lf_not_before :: int
  lf_not_after :: int

text \<open>The certificates of the TLS configuration: each with its parsed leaf, if kept, and its chain.\<close>

definition leaf_cert :: "('d \<Rightarrow> string + leaf) \<Rightarrow> (leaf option \<times> 'd list) list \<Rightarrow> leaf option" where
  "leaf_cert parse certs =
     (case certs of
        [] \<Rightarrow> None
      | (Some l, chain) # cs \<Rightarrow> Some l
      | (None, []) # cs \<Rightarrow> None
      | (None, d # ds) # cs \<Rightarrow> (case parse d of Inl e \<Rightarrow> None | Inr l \<Rightarrow> Some l))"

record health_texts =
  ht_date :: "int \<Rightarrow> string"
  ht_floor_days :: "int \<Rightarrow> int"
  ht_error :: "check_err \<Rightarrow> string"

definition not_ready :: "string \<Rightarrow> health_report \<Rightarrow> health_report" where
  "not_ready reason r = r\<lparr>hr_ready := False, hr_not_ready := hr_not_ready r @ [reason]\<rparr>"

text \<open>The part on the certificate.\<close>

definition health_cert :: "health_texts \<Rightarrow> int \<Rightarrow> leaf \<Rightarrow> health_report \<Rightarrow> health_report" where
  "health_cert T now l r =
     (let remaining = time_sub (lf_not_after l) now; days = ht_floor_days T remaining;
          r1 = r\<lparr>hr_cert_not_after := lf_not_after l, hr_days := days\<rparr>
      in if now > lf_not_after l
         then not_ready (''server certificate expired on '' @ ht_date T (lf_not_after l)
                @ '' '' @ [CHR 0xE2, CHR 0x80, CHR 0x94] @ '' clients cannot verify this node'') r1
         else if now < lf_not_before l
         then not_ready (''server certificate is not valid until '' @ ht_date T (lf_not_before l)
                @ '' (check the clock)'') r1
         else if remaining < cert_expiry_warning
         then r1\<lparr>hr_warnings := hr_warnings r1 @ [''server certificate expires in '' @ int_str days
                @ '' day(s), on '' @ ht_date T (lf_not_after l)
                @ '' '' @ [CHR 0xE2, CHR 0x80, CHR 0x94] @ '' re-issue it'']\<rparr>
         else r1)"

text \<open>Everything but the revocation list; \<open>probe\<close> is its checker with what the file system shows it.\<close>

definition health_local ::
    "health_texts \<Rightarrow> bool \<Rightarrow> string option \<Rightarrow> string \<Rightarrow> registry \<Rightarrow> int \<Rightarrow> leaf option \<Rightarrow> health_report" where
  "health_local T closing addr tun reg now cert =
     (let r0 = \<lparr>hr_live = True, hr_ready = True, hr_not_ready = [], hr_warnings = [], hr_listen = [],
           hr_tun = tun, hr_sessions = int (card (registry_snapshot reg)), hr_cert_not_after = zero_time,
           hr_days = 0\<rparr>;
          r1 = (if closing then not_ready ''the node is shutting down'' (r0\<lparr>hr_live := False\<rparr>) else r0);
          r2 = (case addr of
                  Some a \<Rightarrow> r1\<lparr>hr_listen := a\<rparr>
                | None \<Rightarrow> not_ready ''listener is not bound'' (r1\<lparr>hr_live := False\<rparr>))
      in case cert of Some l \<Rightarrow> health_cert T now l r2 | None \<Rightarrow> r2)"

definition health ::
    "health_texts \<Rightarrow> bool \<Rightarrow> string option \<Rightarrow> string \<Rightarrow> registry \<Rightarrow> int \<Rightarrow> leaf option
     \<Rightarrow> (checker \<times> stat \<times> (file_err + entry list)) option \<Rightarrow> health_report \<times> checker option" where
  "health T closing addr tun reg now cert probe =
     (let r = health_local T closing addr tun reg now cert in
      case probe of
        None \<Rightarrow> (r, None)
      | Some (c, st, content) \<Rightarrow>
          (case is_revoked now st content 0 c of
             (Inl e, c1) \<Rightarrow>
               (not_ready (''revocation list cannot be read ('' @ ht_error T e @ '') ''
                  @ [CHR 0xE2, CHR 0x80, CHR 0x94] @ '' every client is being rejected'') r, Some c1)
           | (Inr b, c1) \<Rightarrow> (r, Some c1)))"

section \<open>The answer\<close>

definition health_json :: "time_codec \<Rightarrow> health_report \<Rightarrow> json" where
  "health_json tc r =
     JObj ([(''live'', JBool (hr_live r)), (''ready'', JBool (hr_ready r))]
       @ opt_member (hr_not_ready r \<noteq> []) ''notReady'' (jstrs (hr_not_ready r))
       @ opt_member (hr_warnings r \<noteq> []) ''warnings'' (jstrs (hr_warnings r))
       @ [(''listen'', JStr (hr_listen r)), (''tun'', JStr (hr_tun r)), (''sessions'', jint (hr_sessions r)),
          (''certNotAfter'', JStr (tc_text tc (hr_cert_not_after r))), (''certExpiresInDays'', jint (hr_days r))])"

definition write_health :: "time_codec \<Rightarrow> bool \<Rightarrow> health_report \<Rightarrow> nat \<times> string" where
  "write_health tc good r = (if good then 200 else 503, json_marshal_indent (health_json tc r) @ [CHR 0x0A])"

definition health_handler :: "time_codec \<Rightarrow> string \<Rightarrow> health_report \<Rightarrow> nat \<times> string" where
  "health_handler tc path r = write_health tc (if path = ''/healthz'' then hr_live r else hr_ready r) r"

text \<open>\<open>startHealth\<close>: nothing when no address is configured, else the outcome of binding it.\<close>

definition start_health :: "string \<Rightarrow> (string \<Rightarrow> string option) \<Rightarrow> string + bool" where
  "start_health listen bind_to =
     (if listen = [] then Inr False
      else case bind_to listen of Some e \<Rightarrow> Inl (''listen '' @ listen @ '': '' @ e) | None \<Rightarrow> Inr True)"

section \<open>Properties\<close>

lemma not_ready_simps [simp]:
  "hr_ready (not_ready t r) = False" "hr_not_ready (not_ready t r) \<noteq> []"
  "hr_live (not_ready t r) = hr_live r"
  by (simp_all add: not_ready_def)

lemma health_cert_ready:
  "hr_ready (health_cert T now l r) \<longleftrightarrow> hr_ready r \<and> lf_not_before l \<le> now \<and> now \<le> lf_not_after l"
  "hr_live (health_cert T now l r) = hr_live r"
  "hr_not_ready (health_cert T now l r) = [] \<longleftrightarrow>
     hr_not_ready r = [] \<and> lf_not_before l \<le> now \<and> now \<le> lf_not_after l"
  by (auto simp: health_cert_def Let_def)

lemma health_local_ready:
  "hr_ready (health_local T closing addr tun reg now cert) \<longleftrightarrow> \<not> closing \<and> addr \<noteq> None
     \<and> (\<forall>l. cert = Some l \<longrightarrow> lf_not_before l \<le> now \<and> now \<le> lf_not_after l)"
  "hr_not_ready (health_local T closing addr tun reg now cert) = [] \<longleftrightarrow> \<not> closing \<and> addr \<noteq> None
     \<and> (\<forall>l. cert = Some l \<longrightarrow> lf_not_before l \<le> now \<and> now \<le> lf_not_after l)"
  "hr_live (health_local T closing addr tun reg now cert) \<longleftrightarrow> \<not> closing \<and> addr \<noteq> None"
  by (auto simp: health_local_def Let_def health_cert_ready split: option.splits)

text \<open>Whether a check can be made does not depend on the serial.\<close>

lemma is_revoked_ok: "ok (fst (is_revoked now st content s c)) = ok (fst (is_revoked now st content t c))"
  by (auto simp: is_revoked_def Let_def split: stat.splits sum.splits)

text \<open>Ready means what it says: the report is ready exactly when the server is not shutting down, its
  listener is bound, its certificate is valid now, and the revocation list can be read, that is, when
  the check that the next handshake makes, of whatever serial, does not end in an error; and it gives
  a reason exactly when it is not ready.\<close>

theorem health_ready:
  assumes "health T closing addr tun reg now cert probe = (r, c')"
  shows "(hr_ready r \<longleftrightarrow> \<not> closing \<and> addr \<noteq> None
      \<and> (\<forall>l. cert = Some l \<longrightarrow> lf_not_before l \<le> now \<and> now \<le> lf_not_after l)
      \<and> (\<forall>c st content. probe = Some (c, st, content) \<longrightarrow> (\<forall>s. ok (fst (is_revoked now st content s c)))))
    \<and> (hr_ready r \<longleftrightarrow> hr_not_ready r = []) \<and> (hr_live r \<longleftrightarrow> \<not> closing \<and> addr \<noteq> None)"
proof (cases probe)
  case None
  with assms show ?thesis by (auto simp: health_def health_local_ready)
next
  case (Some p)
  obtain c st content where p: "p = (c, st, content)" by (cases p)
  obtain b c1 where rv: "is_revoked now st content 0 c = (b, c1)" by fastforce
  have all: "(\<forall>s. ok (fst (is_revoked now st content s c))) \<longleftrightarrow> ok b"
    using rv is_revoked_ok [of now st content _ c 0] by (metis fst_conv)
  show ?thesis
  proof (cases b)
    case (Inl e)
    with assms Some p rv all show ?thesis by (auto simp: health_def health_local_ready)
  next
    case (Inr x)
    with assms Some p rv all show ?thesis by (auto simp: health_def health_local_ready)
  qed
qed

definition sample_texts_health :: health_texts where
  "sample_texts_health = \<lparr>ht_date = (\<lambda>t. ''2030-01-01''), ht_floor_days = (\<lambda>d. d div (24 * 3600 * 1000000000)),
     ht_error = (\<lambda>e. ''parse'')\<rparr>"

theorem health_ready_witness:
  "\<exists>r c'. health sample_texts_health False (Some '':443'') ''tun0'' new_registry 10
      (Some \<lparr>lf_not_before = 0, lf_not_after = 20\<rparr>) (Some (new_checker ''r'', StatOk 1 1, Inl ParseFailed)) = (r, c')
    \<and> \<not> hr_ready r \<and> hr_not_ready r \<noteq> [] \<and> hr_live r"
proof -
  obtain r c' where h: "health sample_texts_health False (Some '':443'') ''tun0'' new_registry 10
      (Some \<lparr>lf_not_before = 0, lf_not_after = 20\<rparr>) (Some (new_checker ''r'', StatOk 1 1, Inl ParseFailed)) = (r, c')"
    by fastforce
  have "\<not> ok (fst (is_revoked 10 (StatOk 1 1) (Inl ParseFailed) 0 (new_checker ''r'')))"
    by (simp add: is_revoked_def new_checker_def Let_def)
  with health_ready [OF h] h show ?thesis by blast
qed

lemma report_of_health:
  "int64_range (hr_sessions r) \<Longrightarrow> int64_range (hr_days r) \<Longrightarrow>
    report_of_json (health_json tc r) = Some \<lparr>rp_live = hr_live r, rp_ready = hr_ready r,
      rp_not_ready = hr_not_ready r, rp_warnings = hr_warnings r, rp_sessions = hr_sessions r,
      rp_cert_days = hr_days r\<rparr>"
  by (auto simp: health_json_def field_simps_json fold_eval jint_def)

lemma health_json_wf: "json_wf (health_json tc r)"
  by (auto simp: health_json_def opt_member_def)

text \<open>(C30) From the server to the operator: whichever path is probed, the watchdog that polls the health
  endpoint reads the very fields of the report out of the answer, 200 or 503, and counts the poll as
  trouble exactly when the node is not ready, with the node's own reasons; provided the answer fits
  into what the watchdog reads.\<close>

theorem health_reaches_watchdog:
  assumes "health_handler tc path r = (code, body)" and "length body \<le> max_body_bytes"
    and "int64_range (hr_sessions r)" and "int64_range (hr_days r)"
    and "hr_ready r \<longleftrightarrow> hr_not_ready r = []"
  shows "poll je url (HttpResponse code status (Inr body)) =
      \<lparr>ob_report = \<lparr>rp_live = hr_live r, rp_ready = hr_ready r, rp_not_ready = hr_not_ready r,
         rp_warnings = hr_warnings r, rp_sessions = hr_sessions r, rp_cert_days = hr_days r\<rparr>, ob_err = None\<rparr>
    \<and> classify (poll je url (HttpResponse code status (Inr body))) =
      (if hr_ready r then None else Some (join nl (hr_not_ready r)))"
proof -
  have "code = 200 \<or> code = 503" and body: "body = json_marshal_indent (health_json tc r) @ [CHR 0x0A]"
    using assms(1) by (auto simp: health_handler_def write_health_def split: if_splits)
  moreover have "json_parse body = Some (health_json tc r)"
    unfolding body using health_json_wf by simp
  ultimately have "poll je url (HttpResponse code status (Inr body)) =
      \<lparr>ob_report = \<lparr>rp_live = hr_live r, rp_ready = hr_ready r, rp_not_ready = hr_not_ready r,
         rp_warnings = hr_warnings r, rp_sessions = hr_sessions r, rp_cert_days = hr_days r\<rparr>, ob_err = None\<rparr>"
    using assms(2-4) report_of_health by (auto simp: poll_def)
  then show ?thesis using assms(5) by (simp add: classify_def)
qed

definition sample_health :: health_report where
  "sample_health = \<lparr>hr_live = False, hr_ready = False, hr_not_ready = [''listener is not bound''],
     hr_warnings = [], hr_listen = [], hr_tun = ''tun0'', hr_sessions = 0, hr_cert_not_after = zero_time,
     hr_days = 0\<rparr>"

theorem health_reaches_watchdog_witness:
  "classify (poll id ''u'' (HttpResponse 503 ''503'' (Inr (snd (health_handler no_codec ''/readyz'' sample_health)))))
    = Some ''listener is not bound''"
proof -
  have h: "health_handler no_codec ''/readyz'' sample_health = (503, snd (health_handler no_codec ''/readyz'' sample_health))"
    by (simp add: health_handler_def write_health_def sample_health_def)
  have "length (snd (health_handler no_codec ''/readyz'' sample_health)) \<le> max_body_bytes"
    by (simp add: health_handler_def write_health_def sample_health_def health_json_def json_marshal_indent_def
        json_indent_def json_string_def esc_char_def max_body_bytes_def no_codec_texts opt_member_def jint_def jstrs_def
        int_str_def)
  from health_reaches_watchdog [OF h this, of id "''u''" "''503''", THEN conjunct2] show ?thesis
    unfolding sample_health_def by (simp add: int64_range_def)
qed

end
