(* ===== verification/VlessLink.thy ===== *)
theory VlessLink
  imports Vless
begin

text \<open>
  The link that hands out VLESS access (\<open>src/internal/vless/link.go\<close>) and the wait for the service to
  take a change over (\<open>apply.go\<close>). The escaping is that of \<open>net/url\<close>; the answers of the service
  manager, the time each took and a cancellation are arguments.
\<close>

section \<open>Escaping\<close>

datatype url_mode = QueryComponent | UserPassword | HostPart | FragmentPart

definition is_alnum :: "char \<Rightarrow> bool" where
  "is_alnum c \<longleftrightarrow> is_digit c \<or> (97 \<le> code c \<and> code c \<le> 122) \<or> (65 \<le> code c \<and> code c \<le> 90)"

definition should_escape :: "url_mode \<Rightarrow> char \<Rightarrow> bool" where
  "should_escape m c =
     (if is_alnum c then False
      else if m = HostPart \<and> c \<in> set (''!$&'' @ [CHR 0x27] @ ''()*+,;=:[]<>'' @ [CHR 0x22]) then False
      else if c \<in> set ''-_.~'' then False
      else if c \<in> set ''$&+,/:;=?@''
      then (case m of
              UserPassword \<Rightarrow> c \<in> set ''@/?:''
            | QueryComponent \<Rightarrow> True
            | FragmentPart \<Rightarrow> False
            | HostPart \<Rightarrow> True)
      else if m = FragmentPart \<and> c \<in> set ''!()*'' then False
      else True)"

definition upper_hex :: "nat \<Rightarrow> char" where
  "upper_hex d = (if d < 10 then char_of (48 + d) else char_of (55 + d))"

definition escape_char :: "url_mode \<Rightarrow> char \<Rightarrow> string" where
  "escape_char m c =
     (if c = CHR '' '' \<and> m = QueryComponent then ''+''
      else if should_escape m c then [CHR ''%'', upper_hex (code c div 16), upper_hex (code c mod 16)]
      else [c])"

definition url_escape :: "url_mode \<Rightarrow> string \<Rightarrow> string" where
  "url_escape m s = concat (map (escape_char m) s)"

text \<open>\<open>url.Values.Encode\<close> of a map with one value for each key: the keys in their order.\<close>

definition values_encode :: "(string \<times> string) list \<Rightarrow> string" where
  "values_encode kvs =
     join ''&'' (map (\<lambda>(k, v). url_escape QueryComponent k @ ''='' @ url_escape QueryComponent v) kvs)"

section \<open>The link\<close>

definition link_params :: "node \<Rightarrow> vclient \<Rightarrow> (string \<times> string) list" where
  "link_params n c =
     [(''encryption'', ''none''), (''flow'', vless_flow), (''fp'', nd_fingerprint n), (''pbk'', nd_public n),
      (''security'', ''reality''), (''sid'', vc_short_id c), (''sni'', node_server_name n), (''type'', ''tcp'')]"

text \<open>A valid node has an address, so neither the host nor the fragment is empty.\<close>

definition vless_link :: "node \<Rightarrow> vclient \<Rightarrow> vless_err + string" where
  "vless_link n c =
     (case node_validate n of
        Some e \<Rightarrow> Inl e
      | None \<Rightarrow>
          (case client_validate c of
             Some e \<Rightarrow> Inl e
           | None \<Rightarrow> Inr (''vless://'' @ url_escape UserPassword (vc_uuid c) @ ''@''
               @ url_escape HostPart (node_endpoint n) @ ''?'' @ values_encode (link_params n c)
               @ ''#'' @ url_escape FragmentPart (link_label n))))"

section \<open>Reading a link\<close>

text \<open>A reader of the kind the client apps have: the link is cut at its delimiters and every part is
  unescaped.\<close>

fun url_unescape :: "url_mode \<Rightarrow> string \<Rightarrow> string" where
  "url_unescape m (p # a # b # r) =
     (if p = CHR ''%'' then
        (case (hex_val a, hex_val b) of
           (Some x, Some y) \<Rightarrow> char_of (x * 16 + y) # url_unescape m r
         | _ \<Rightarrow> p # url_unescape m (a # b # r))
      else (if p = CHR ''+'' \<and> m = QueryComponent then CHR '' '' else p) # url_unescape m (a # b # r))"
| "url_unescape m (p # r) =
     (if p = CHR ''+'' \<and> m = QueryComponent then CHR '' '' else p) # url_unescape m r"
| "url_unescape m [] = []"

definition cut :: "char \<Rightarrow> string \<Rightarrow> string \<times> string" where
  "cut d s = (takeWhile (\<lambda>c. c \<noteq> d) s, tl (dropWhile (\<lambda>c. c \<noteq> d) s))"

definition read_params :: "string \<Rightarrow> (string \<times> string) list" where
  "read_params q = map (\<lambda>p. case cut CHR ''='' p of (k, v) \<Rightarrow>
     (url_unescape QueryComponent k, url_unescape QueryComponent v)) (split_char CHR ''&'' q)"

definition read_link :: "string \<Rightarrow> string \<times> string \<times> (string \<times> string) list \<times> string" where
  "read_link s =
     (case cut CHR ''#'' (drop 8 s) of (r, fragment) \<Rightarrow>
      (case cut CHR ''?'' r of (authority, query) \<Rightarrow>
      (case cut CHR ''@'' authority of (user, host) \<Rightarrow>
         (url_unescape UserPassword user, url_unescape HostPart host, read_params query,
          url_unescape FragmentPart fragment))))"

lemma upper_hex_val [simp]: "d < 16 \<Longrightarrow> hex_val (upper_hex d) = Some d"
  by (simp add: hex_val_def upper_hex_def)

lemma unescape_plain:
  "p \<noteq> CHR ''%'' \<Longrightarrow> url_unescape m (p # r) = (if p = CHR ''+'' \<and> m = QueryComponent then CHR '' '' else p) # url_unescape m r"
  by (cases r rule: list.exhaust; cases "tl r" rule: list.exhaust) auto

lemma unescape_escape_char: "url_unescape m (escape_char m c @ r) = c # url_unescape m r"
proof -
  have pct: "should_escape m (CHR ''%'')" by (cases m) (simp_all add: should_escape_def is_alnum_def is_digit_def)
  have plus: "should_escape QueryComponent (CHR ''+'')" by (simp add: should_escape_def is_alnum_def is_digit_def)
  have div: "code c div 16 < 16" by (rule less_mult_imp_div_less) simp
  have "char_of (code c div 16 * 16 + code c mod 16) = c" by (simp add: mult.commute)
  moreover have "hex_val (upper_hex (code c div 16)) = Some (code c div 16)"
    "hex_val (upper_hex (code c mod 16)) = Some (code c mod 16)" using div by simp_all
  ultimately have e: "url_unescape m (CHR ''%'' # upper_hex (code c div 16) # upper_hex (code c mod 16) # r)
      = c # url_unescape m r" by simp
  show ?thesis
  proof (cases "c = CHR '' '' \<and> m = QueryComponent")
    case True
    then show ?thesis by (simp add: escape_char_def unescape_plain)
  next
    case False
    note ns = this
    show ?thesis
    proof (cases "should_escape m c")
      case True
      with ns e show ?thesis by (simp only: escape_char_def if_False if_True append.simps)
    next
      case False
      with pct plus have "c \<noteq> CHR ''%''" "\<not> (c = CHR ''+'' \<and> m = QueryComponent)" by auto
      moreover have "escape_char m c = [c]" using ns False by (auto simp: escape_char_def)
      ultimately show ?thesis using unescape_plain [of c m r] by simp
    qed
  qed
qed

lemma unescape_escape [simp]: "url_unescape m (url_escape m s) = s"
  by (induction s) (simp_all add: url_escape_def unescape_escape_char)

text \<open>What cannot stand in an escaped part.\<close>

lemma upper_hex_alnum: "d < 16 \<Longrightarrow> is_alnum (upper_hex d)"
  by (auto simp: is_alnum_def is_digit_def upper_hex_def)

lemma escape_char_set:
  "x \<in> set (escape_char m c) \<Longrightarrow> x = CHR ''%'' \<or> is_alnum x \<or> x = CHR ''+'' \<or> \<not> should_escape m x"
proof -
  have "code c div 16 < 16" by (rule less_mult_imp_div_less) simp
  then show "x \<in> set (escape_char m c) \<Longrightarrow> x = CHR ''%'' \<or> is_alnum x \<or> x = CHR ''+'' \<or> \<not> should_escape m x"
    using upper_hex_alnum [of "code c div 16"] upper_hex_alnum [of "code c mod 16"]
    by (auto simp: escape_char_def split: if_splits)
qed

lemma escape_set:
  "x \<in> set (url_escape m s) \<Longrightarrow> x = CHR ''%'' \<or> is_alnum x \<or> x = CHR ''+'' \<or> \<not> should_escape m x"
  using escape_char_set by (auto simp: url_escape_def)

lemma delimiters:
  "should_escape UserPassword CHR ''#''" "should_escape UserPassword CHR ''?''" "should_escape UserPassword CHR ''@''"
  "should_escape HostPart CHR ''#''" "should_escape HostPart CHR ''?''" "should_escape HostPart CHR ''@''"
  "should_escape QueryComponent CHR ''#''" "should_escape QueryComponent CHR ''&''" "should_escape QueryComponent CHR ''=''"
  "\<not> is_alnum CHR ''#''" "\<not> is_alnum CHR ''?''" "\<not> is_alnum CHR ''@''" "\<not> is_alnum CHR ''&''" "\<not> is_alnum CHR ''=''"
  by (simp_all add: should_escape_def is_alnum_def is_digit_def)

lemma escape_clear:
  "CHR ''#'' \<notin> set (url_escape UserPassword s)" "CHR ''?'' \<notin> set (url_escape UserPassword s)"
  "CHR ''@'' \<notin> set (url_escape UserPassword s)" "CHR ''#'' \<notin> set (url_escape HostPart s)"
  "CHR ''?'' \<notin> set (url_escape HostPart s)" "CHR ''#'' \<notin> set (url_escape QueryComponent s)"
  "CHR ''&'' \<notin> set (url_escape QueryComponent s)" "CHR ''='' \<notin> set (url_escape QueryComponent s)"
  by (rule notI, drule escape_set, simp add: delimiters)+

lemma cut_append: "d \<notin> set s \<Longrightarrow> cut d (s @ d # r) = (s, r)"
  by (induction s) (auto simp: cut_def)

lemma read_params_encode: "kvs \<noteq> [] \<Longrightarrow> read_params (values_encode kvs) = kvs"
proof -
  assume "kvs \<noteq> []"
  let ?f = "\<lambda>(k, v). url_escape QueryComponent k @ ''='' @ url_escape QueryComponent v"
  have "CHR ''&'' \<notin> set (?f kv)" for kv using escape_clear by (cases kv) auto
  moreover have "split_char d (join [d] ps) = ps" if "ps \<noteq> []" "\<forall>p \<in> set ps. d \<notin> set p" for d ps
    using that by (induction "[d]" ps rule: join.induct) (auto simp: split_char_single split_char_append)
  ultimately have "split_char CHR ''&'' (values_encode kvs) = map ?f kvs"
    using \<open>kvs \<noteq> []\<close> by (simp add: values_encode_def)
  moreover have "(case cut CHR ''='' (?f kv) of (k, v) \<Rightarrow>
      (url_unescape QueryComponent k, url_unescape QueryComponent v)) = kv" for kv
    using cut_append [OF escape_clear(8), of "fst kv"] by (cases kv) simp
  ultimately show ?thesis by (simp add: read_params_def comp_def)
qed

lemma values_no_hash: "CHR ''#'' \<notin> set (values_encode kvs)"
proof -
  have "CHR ''#'' \<notin> set (join ''&'' ps)" if "\<forall>p \<in> set ps. CHR ''#'' \<notin> set p" for ps
    using that by (induction "''&''" ps rule: join.induct) auto
  then show ?thesis using escape_clear(6) by (simp add: values_encode_def)
qed

text \<open>A link says what it should: whatever label, address, fingerprint and server name a node has, cutting
  its link at the delimiters and unescaping gives back the client's UUID, the node's address, exactly the
  eight parameters a client needs, and the label.\<close>

theorem link_roundtrip:
  assumes "vless_link n c = Inr l"
  shows "read_link l = (vc_uuid c, node_endpoint n, link_params n c, link_label n)"
proof -
  let ?u = "url_escape UserPassword (vc_uuid c)" and ?h = "url_escape HostPart (node_endpoint n)"
  let ?q = "values_encode (link_params n c)" and ?f = "url_escape FragmentPart (link_label n)"
  from assms have l: "l = ''vless://'' @ ?u @ ''@'' @ ?h @ ''?'' @ ?q @ ''#'' @ ?f"
    by (auto simp: vless_link_def split: option.splits)
  have 1: "cut CHR ''#'' ((?u @ ''@'' @ ?h @ ''?'' @ ?q) @ CHR ''#'' # ?f) = (?u @ ''@'' @ ?h @ ''?'' @ ?q, ?f)"
    by (rule cut_append) (simp add: escape_clear values_no_hash)
  have 2: "cut CHR ''?'' ((?u @ ''@'' @ ?h) @ CHR ''?'' # ?q) = (?u @ ''@'' @ ?h, ?q)"
    by (rule cut_append) (simp add: escape_clear)
  have 3: "cut CHR ''@'' (?u @ CHR ''@'' # ?h) = (?u, ?h)" by (rule cut_append) (simp add: escape_clear)
  have "link_params n c \<noteq> []" by (simp add: link_params_def)
  with 1 2 3 show ?thesis by (simp add: read_link_def l read_params_encode)
qed

definition link_node :: node where
  "link_node = \<lparr>nd_address = ''n.io'', nd_port = 443, nd_label = ''a #1?'', nd_listen = [],
     nd_private = ''AAAAAAAAAAAAAAAAAAAAAAAAAAAAAAAAAAAAAAAAAAA'',
     nd_public = ''BAAAAAAAAAAAAAAAAAAAAAAAAAAAAAAAAAAAAAAAAAA'', nd_dest = ''a.io:1'',
     nd_server_names = [''a.io''], nd_fingerprint = ''chrome''\<rparr>"

definition link_client :: vclient where
  "link_client = \<lparr>vc_name = ''bob'', vc_uuid = ''00000000-0000-4000-8000-000000000000'',
     vc_short_id = ''00'', vc_created = ''now''\<rparr>"

theorem link_roundtrip_witness:
  "\<exists>l. vless_link link_node link_client = Inr l \<and> snd (snd (snd (read_link l))) = ''a #1?''"
proof -
  have "node_validate link_node = None" "client_validate link_client = None" by code_simp+
  then obtain l where l: "vless_link link_node link_client = Inr l" by (simp add: vless_link_def)
  from link_roundtrip [OF l] l show ?thesis by (simp add: link_label_def link_node_def)
qed

section \<open>Waiting for the service\<close>

definition default_unit :: string where "default_unit = ''vpn-xray''"
definition apply_timeout :: int where "apply_timeout = 30 * 1000000000"
definition apply_poll :: int where "apply_poll = 500 * 1000000"

datatype wait_result = WaitActive | WaitFailed string | WaitGaveUp string string | WaitMore

text \<open>One poll: the answer, how long it took, and whether the caller's context is cancelled before the
  next one. At time \<open>t\<close> the loop has been running for that long.\<close>

fun wait_loop :: "string \<Rightarrow> int \<Rightarrow> ((string + string) \<times> int \<times> bool) list \<Rightarrow> wait_result" where
  "wait_loop unit t [] = WaitMore"
| "wait_loop unit t ((answer, d, cancelled) # polls) =
     (if answer = Inr ''active'' then WaitActive
      else if answer = Inr ''failed'' then WaitFailed unit
      else
        (let last = (case answer of Inl e \<Rightarrow> e | Inr s \<Rightarrow> s)
         in if cancelled \<or> t + d + apply_poll \<ge> apply_timeout then WaitGaveUp unit last
            else wait_loop unit (t + d + apply_poll) polls))"

definition wait_applied :: "string \<Rightarrow> ((string + string) \<times> int \<times> bool) list \<Rightarrow> wait_result" where
  "wait_applied unit polls = wait_loop (if unit = [] then default_unit else unit) 0 polls"

lemma wait_loop_bounded:
  assumes "\<forall>(a, d, c) \<in> set polls. d \<ge> 0" and "apply_timeout \<le> t + int (length polls) * apply_poll" "polls \<noteq> []"
  shows "wait_loop unit t polls \<noteq> WaitMore"
  using assms
proof (induction unit t polls rule: wait_loop.induct)
  case (2 unit t answer d cancelled polls)
  show ?case
  proof (cases "answer = Inr ''active'' \<or> answer = Inr ''failed'' \<or> cancelled \<or> t + d + apply_poll \<ge> apply_timeout")
    case True
    then show ?thesis by (auto simp: Let_def)
  next
    case False
    with 2(2-) have "apply_timeout \<le> t + d + apply_poll + int (length polls) * apply_poll"
      by (simp add: algebra_simps)
    moreover from this False have "polls \<noteq> []" by auto
    ultimately show ?thesis using 2(1) [OF _ _ refl] 2(2) False by (auto simp: Let_def)
  qed
qed simp

lemma wait_loop_result:
  "wait_loop unit t polls = WaitActive \<Longrightarrow> \<exists>p \<in> set polls. fst p = Inr ''active''"
  "wait_loop unit t polls = WaitFailed u \<Longrightarrow> u = unit \<and> (\<exists>p \<in> set polls. fst p = Inr ''failed'')"
  by (induction unit t polls rule: wait_loop.induct) (auto simp: Let_def split: if_splits)

text \<open>The wait ends: after at most sixty polls the caller has an answer, however long the queries take and
  whatever they say; it is success only when the unit was seen active, and failure at once when systemd
  has given up.\<close>

theorem wait_applied_ends:
  assumes "\<forall>(a, d, c) \<in> set polls. d \<ge> 0" and "length polls \<ge> 60"
  shows "wait_applied unit polls \<noteq> WaitMore
    \<and> (wait_applied unit polls = WaitActive \<longrightarrow> (\<exists>p \<in> set polls. fst p = Inr ''active''))
    \<and> (\<forall>u. wait_applied unit polls = WaitFailed u \<longrightarrow> (\<exists>p \<in> set polls. fst p = Inr ''failed''))"
proof -
  have "apply_timeout \<le> 0 + int (length polls) * apply_poll"
    using assms(2) by (simp add: apply_timeout_def apply_poll_def)
  moreover have "polls \<noteq> []" using assms(2) by auto
  ultimately show ?thesis using wait_loop_bounded [OF assms(1)] wait_loop_result
    unfolding wait_applied_def by blast
qed

theorem wait_applied_ends_witness:
  "wait_applied '''' (replicate 60 (Inr ''activating'', 0, False)) \<noteq> WaitMore"
  using wait_applied_ends [of "replicate 60 (Inr ''activating'', 0, False)" "''''"] by simp

end
