(* ===== verification/ProfileStore.thy ===== *)
theory ProfileStore
  imports Profile Files Base64
begin

text \<open>
  The profile the desktop app keeps between runs (\<open>src/internal/profilestore/store.go\<close>): one JSON file
  that is read whole and replaced by a rename. What the environment says of the path and what the
  file system answers are arguments.
\<close>

definition app_dir :: string where "app_dir = ''vpn.io''"
definition profile_file_name :: string where "profile_file_name = ''profile.json''"
definition max_profile_bytes :: nat where "max_profile_bytes = 256 * 2 ^ 10"

record saved_profile =
  sp_server :: string
  sp_server_name :: string
  sp_endpoints :: "paddr list"
  sp_last_endpoint :: string
  sp_mtu :: int
  sp_tun_name :: string
  sp_ca :: string
  sp_cert :: string
  sp_key :: string
  sp_ca_name :: string
  sp_cert_name :: string
  sp_key_name :: string

definition saved_json :: "saved_profile \<Rightarrow> json" where
  "saved_json p =
     JObj ([(''server'', JStr (sp_server p))]
       @ opt_member (sp_server_name p \<noteq> []) ''serverName'' (JStr (sp_server_name p))
       @ opt_member (sp_endpoints p \<noteq> []) ''endpoints'' (JArr (map paddr_json (sp_endpoints p)))
       @ opt_member (sp_last_endpoint p \<noteq> []) ''lastEndpoint'' (JStr (sp_last_endpoint p))
       @ opt_member (sp_mtu p \<noteq> 0) ''mtu'' (jint (sp_mtu p))
       @ opt_member (sp_tun_name p \<noteq> []) ''tunName'' (JStr (sp_tun_name p))
       @ [(''caCertPem'', jbytes (sp_ca p)), (''certPem'', jbytes (sp_cert p)), (''keyPem'', jbytes (sp_key p))]
       @ opt_member (sp_ca_name p \<noteq> []) ''caName'' (JStr (sp_ca_name p))
       @ opt_member (sp_cert_name p \<noteq> []) ''certName'' (JStr (sp_cert_name p))
       @ opt_member (sp_key_name p \<noteq> []) ''keyName'' (JStr (sp_key_name p)))"

definition zero_saved :: saved_profile where
  "zero_saved = \<lparr>sp_server = [], sp_server_name = [], sp_endpoints = [], sp_last_endpoint = [], sp_mtu = 0,
     sp_tun_name = [], sp_ca = [], sp_cert = [], sp_key = [], sp_ca_name = [], sp_cert_name = [],
     sp_key_name = []\<rparr>"

fun saved_of_json :: "json \<Rightarrow> saved_profile option" where
  "saved_of_json (JObj ms) =
     (case (fold_field set_string ''server'' ms [], fold_field set_string ''serverName'' ms [],
            fold_field (set_list paddr_of_json) ''endpoints'' ms [],
            fold_field set_string ''lastEndpoint'' ms [], fold_field set_int ''mtu'' ms 0,
            fold_field set_string ''tunName'' ms [], fold_field set_bytes ''caCertPem'' ms [],
            fold_field set_bytes ''certPem'' ms [], fold_field set_bytes ''keyPem'' ms [],
            fold_field set_string ''caName'' ms [], fold_field set_string ''certName'' ms [],
            fold_field set_string ''keyName'' ms []) of
        (Some s, Some n, Some es, Some l, Some m, Some t, Some ca, Some c, Some k, Some can, Some cn, Some kn) \<Rightarrow>
          Some \<lparr>sp_server = s, sp_server_name = n, sp_endpoints = es, sp_last_endpoint = l, sp_mtu = m,
                sp_tun_name = t, sp_ca = ca, sp_cert = c, sp_key = k, sp_ca_name = can, sp_cert_name = cn,
                sp_key_name = kn\<rparr>
      | _ \<Rightarrow> None)"
| "saved_of_json JNull = Some zero_saved"
| "saved_of_json _ = None"

definition default_path :: "string \<Rightarrow> string + string \<Rightarrow> string + string" where
  "default_path env config_dir =
     (if env \<noteq> [] then Inr env
      else case config_dir of
        Inl e \<Rightarrow> Inl (''locate config dir: '' @ e)
      | Inr d \<Rightarrow> Inr (d @ ''/'' @ app_dir @ ''/'' @ profile_file_name))"

definition save_profile :: "file_io \<Rightarrow> saved_profile \<Rightarrow> disk_file \<Rightarrow> file_err option \<times> disk_file" where
  "save_profile io p f = save_json saved_json io p f"

definition load_profile :: "file_io \<Rightarrow> disk_file \<Rightarrow> file_err + saved_profile option" where
  "load_profile io f =
     (case f of
        None \<Rightarrow> Inr None
      | Some t \<Rightarrow>
          (case io_read io of
             Some e \<Rightarrow> Inl (ReadFails e)
           | None \<Rightarrow>
               (if length t > max_profile_bytes then Inl FileTooLarge
                else case Option.bind (json_parse t) saved_of_json of
                  None \<Rightarrow> Inl ParseFailed | Some p \<Rightarrow> Inr (Some p))))"

definition clear_profile :: "string option \<Rightarrow> disk_file \<Rightarrow> file_err option \<times> disk_file" where
  "clear_profile remove f =
     (case f of
        None \<Rightarrow> (None, None)
      | Some t \<Rightarrow> (case remove of Some e \<Rightarrow> (Some (WriteFailed e), f) | None \<Rightarrow> (None, None)))"

lemma saved_of_json_json: "int64_range (sp_mtu p) \<Longrightarrow> saved_of_json (saved_json p) = Some p"
proof -
  assume m: "int64_range (sp_mtu p)"
  have e: "opt_all (map (paddr_of_json \<circ> paddr_json) es) = Some es" for es
  proof -
    have "paddr_of_json \<circ> paddr_json = Some"
      by (rule ext) (auto simp: paddr_json_def field_simps_json fold_eval)
    then show ?thesis using opt_all_map_Some [of id es] by simp
  qed
  show ?thesis using m
    by (cases p) (auto simp: saved_json_def field_simps_json fold_eval jint_def e)
qed

lemma saved_json_wf: "json_wf (saved_json p)"
  by (auto simp: saved_json_def opt_member_def paddr_json_def list_all_iff)

interpretation svp: json_file saved_json saved_of_json "\<lambda>p. int64_range (sp_mtu p)"
  by unfold_locales (auto simp: saved_of_json_json saved_json_wf)

lemma load_saved_profile:
  assumes "save_profile io p f = (None, f')" and "io_read io' = None" and "int64_range (sp_mtu p)"
    and "length (json_marshal_indent (saved_json p)) \<le> max_profile_bytes"
  shows "load_profile io' f' = Inr (Some p)"
  using assms saved_json_wf [of p]
  by (auto simp: save_profile_def save_json_def load_profile_def saved_of_json_json split: option.splits)

lemma clear_then_load: "clear_profile None f = (r, f') \<Longrightarrow> r = None \<and> load_profile io f' = Inr None"
  by (auto simp: clear_profile_def load_profile_def split: option.splits)

end
