(* ===== verification/Gui.thy ===== *)
theory Gui
  imports ProfileStore Control
begin

text \<open>
  The desktop app's backend (\<open>src/cmd/vpn-gui/app.go\<close>): the draft of a profile it holds, how it is
  filled, saved, loaded again and turned into a connect. Dialogs, the webview and the tray are the
  toolkit's; what they return is an argument. \<open>gs_store\<close> is the file of the profile store.
\<close>

record connect_form =
  fm_server :: string
  fm_server_name :: string
  fm_mtu :: int
  fm_tun_name :: string

definition empty_form :: connect_form where
  "empty_form = \<lparr>fm_server = [], fm_server_name = [], fm_mtu = 0, fm_tun_name = []\<rparr>"

record app =
  ap_ca :: string
  ap_cert :: string
  ap_key :: string
  ap_ca_name :: string
  ap_cert_name :: string
  ap_key_name :: string
  ap_form :: connect_form
  ap_last_cn :: string
  ap_endpoints :: "paddr list"
  ap_last_endpoint :: string
  ap_has_store :: bool

datatype gui_err =
    UnknownCredential string
  | DialogFails string
  | FileOpen string
  | FileRead string
  | TooLarge string string
  | NotPem string
  | InvalidProfile profile_err
  | FormMtu
  | InvalidForm profile_err
  | EnterServer
  | ChooseCredentials
  | ControlFails control_err

definition max_credential_file_bytes :: nat where
  "max_credential_file_bytes = 64 * 2 ^ 10"

definition blank_app :: app where
  "blank_app = \<lparr>ap_ca = [], ap_cert = [], ap_key = [], ap_ca_name = [], ap_cert_name = [], ap_key_name = [],
     ap_form = empty_form, ap_last_cn = [], ap_endpoints = [], ap_last_endpoint = [], ap_has_store = False\<rparr>"

text \<open>\<open>NewApp\<close>: \<open>path\<close> is what \<open>profilestore.Default\<close> says.\<close>

definition new_app :: "string + string \<Rightarrow> file_io \<Rightarrow> disk_file \<Rightarrow> app" where
  "new_app path io store =
     (case path of
        Inl e \<Rightarrow> blank_app
      | Inr pth \<Rightarrow>
          (case load_profile io store of
             Inl e \<Rightarrow> blank_app\<lparr>ap_has_store := True\<rparr>
           | Inr None \<Rightarrow> blank_app\<lparr>ap_has_store := True\<rparr>
           | Inr (Some p) \<Rightarrow>
               blank_app\<lparr>ap_has_store := True, ap_ca := sp_ca p, ap_cert := sp_cert p, ap_key := sp_key p,
                 ap_ca_name := sp_ca_name p, ap_cert_name := sp_cert_name p, ap_key_name := sp_key_name p,
                 ap_form := \<lparr>fm_server = sp_server p, fm_server_name = sp_server_name p, fm_mtu = sp_mtu p,
                   fm_tun_name = sp_tun_name p\<rparr>,
                 ap_endpoints := sp_endpoints p, ap_last_endpoint := sp_last_endpoint p\<rparr>))"

definition saved_of :: "app \<Rightarrow> saved_profile" where
  "saved_of a =
     \<lparr>sp_server = fm_server (ap_form a), sp_server_name = fm_server_name (ap_form a),
      sp_endpoints = ap_endpoints a, sp_last_endpoint = ap_last_endpoint a, sp_mtu = fm_mtu (ap_form a),
      sp_tun_name = fm_tun_name (ap_form a), sp_ca = ap_ca a, sp_cert = ap_cert a, sp_key = ap_key a,
      sp_ca_name = ap_ca_name a, sp_cert_name = ap_cert_name a, sp_key_name = ap_key_name a\<rparr>"

text \<open>\<open>save\<close>: best effort, of what the draft is at that moment.\<close>

definition save_app :: "file_io \<Rightarrow> app \<Rightarrow> disk_file \<Rightarrow> disk_file" where
  "save_app io a store = (if ap_has_store a then snd (save_profile io (saved_of a) store) else store)"

definition remember_endpoint :: "file_io \<Rightarrow> string \<Rightarrow> app \<Rightarrow> disk_file \<Rightarrow> app \<times> disk_file" where
  "remember_endpoint io server a store =
     (if ap_last_endpoint a = server \<or> ap_endpoints a = [] then (a, store)
      else if \<not> list_ex (\<lambda>e. pe_server e = server) (ap_endpoints a) then (a, store)
      else (let a1 = a\<lparr>ap_last_endpoint := server\<rparr> in (a1, save_app io a1 store)))"

definition gui_status ::
    "file_io \<Rightarrow> control_err + status_response \<Rightarrow> app \<Rightarrow> disk_file \<Rightarrow> app \<times> disk_file" where
  "gui_status io st a store =
     (case st of
        Inl e \<Rightarrow> (a, store)
      | Inr s \<Rightarrow>
          (if st_state s = ''connected'' \<and> st_server s \<noteq> [] then remember_endpoint io (st_server s) a store
           else (a, store)))"

text \<open>\<open>readCappedFile\<close>: what opening and reading the file gives.\<close>

definition read_capped_file :: "string + (string + string) \<Rightarrow> string \<Rightarrow> string \<Rightarrow> gui_err + string" where
  "read_capped_file file base kind =
     (case file of
        Inl e \<Rightarrow> Inl (FileOpen e)
      | Inr (Inl e) \<Rightarrow> Inl (FileRead e)
      | Inr (Inr t) \<Rightarrow> (if length t > max_credential_file_bytes then Inl (TooLarge base kind) else Inr t))"

text \<open>\<open>PickCredential\<close>: the dialog gives the file's base name, an empty path when it was cancelled.\<close>

definition pick_credential ::
    "string \<Rightarrow> string + string \<Rightarrow> string + (string + string) \<Rightarrow> (string \<Rightarrow> bool) \<Rightarrow> app \<Rightarrow> (gui_err + bool) \<times> app" where
  "pick_credential role dialog file is_pem a =
     (if role \<notin> {''ca'', ''cert'', ''key''} then (Inl (UnknownCredential role), a)
      else case dialog of
        Inl e \<Rightarrow> (Inl (DialogFails e), a)
      | Inr base \<Rightarrow>
          (if base = [] then (Inr False, a)
           else case read_capped_file file base ''a certificate or key'' of
             Inl e \<Rightarrow> (Inl e, a)
           | Inr t \<Rightarrow>
               (if \<not> is_pem t then (Inl (NotPem base), a)
                else (Inr True,
                  if role = ''ca'' then a\<lparr>ap_ca := t, ap_ca_name := base\<rparr>
                  else if role = ''cert'' then a\<lparr>ap_cert := t, ap_cert_name := base\<rparr>
                  else a\<lparr>ap_key := t, ap_key_name := base\<rparr>))))"

definition import_bundle_data ::
    "'p x509_lib \<Rightarrow> int \<Rightarrow> file_io \<Rightarrow> string \<Rightarrow> string \<Rightarrow> app \<Rightarrow> disk_file \<Rightarrow> gui_err option \<times> app \<times> disk_file" where
  "import_bundle_data L now io t source a store =
     (case parse_bundle L now t of
        Inl e \<Rightarrow> (Some (InvalidProfile e), a, store)
      | Inr p \<Rightarrow>
          (let a1 = a\<lparr>ap_ca := pf_ca p, ap_cert := pf_cert p, ap_key := pf_key p, ap_ca_name := source,
                 ap_cert_name := source, ap_key_name := source,
                 ap_form := \<lparr>fm_server = pf_server p, fm_server_name = pf_server_name p,
                   fm_mtu = fm_mtu (ap_form a), fm_tun_name = fm_tun_name (ap_form a)\<rparr>,
                 ap_endpoints := pf_endpoints p, ap_last_endpoint := [], ap_last_cn := pf_cn p\<rparr>
           in (None, a1, save_app io a1 store)))"

definition import_profile_bundle ::
    "'p x509_lib \<Rightarrow> int \<Rightarrow> file_io \<Rightarrow> string + string \<Rightarrow> string + (string + string) \<Rightarrow> app \<Rightarrow> disk_file
     \<Rightarrow> gui_err option \<times> app \<times> disk_file" where
  "import_profile_bundle L now io dialog file a store =
     (case dialog of
        Inl e \<Rightarrow> (Some (DialogFails e), a, store)
      | Inr base \<Rightarrow>
          (if base = [] then (None, a, store)
           else case read_capped_file file base ''a profile'' of
             Inl e \<Rightarrow> (Some e, a, store)
           | Inr t \<Rightarrow> import_bundle_data L now io t base a store))"

text \<open>\<open>connect\<close>: \<open>go\<close> is \<open>control.Connect\<close> with these credentials.\<close>

definition gui_connect ::
    "(credentials \<Rightarrow> control_err + connected_as) \<Rightarrow> credentials \<Rightarrow> app \<Rightarrow> (gui_err + connected_as) \<times> app" where
  "gui_connect go cd a =
     (if cd_server cd = [] then (Inl EnterServer, a)
      else if cd_ca cd = [] \<or> cd_cert cd = [] \<or> cd_key cd = [] then (Inl ChooseCredentials, a)
      else case go cd of
        Inl e \<Rightarrow> (Inl (ControlFails e), a)
      | Inr info \<Rightarrow> (Inr info, a\<lparr>ap_last_cn := co_common_name info\<rparr>))"

definition form_creds :: "connect_form \<Rightarrow> app \<Rightarrow> credentials" where
  "form_creds f a =
     \<lparr>cd_server = fm_server f, cd_server_name = fm_server_name f, cd_endpoints = [], cd_preferred = [],
      cd_ca = ap_ca a, cd_cert = ap_cert a, cd_key = ap_key a, cd_mtu = fm_mtu f, cd_tun_name = fm_tun_name f\<rparr>"

definition draft_creds :: "app \<Rightarrow> credentials" where
  "draft_creds a =
     \<lparr>cd_server = fm_server (ap_form a), cd_server_name = fm_server_name (ap_form a),
      cd_endpoints = ap_endpoints a, cd_preferred = ap_last_endpoint a, cd_ca = ap_ca a, cd_cert = ap_cert a,
      cd_key = ap_key a, cd_mtu = fm_mtu (ap_form a), cd_tun_name = fm_tun_name (ap_form a)\<rparr>"

definition connect_with_form ::
    "'p x509_lib \<Rightarrow> int \<Rightarrow> file_io \<Rightarrow> (credentials \<Rightarrow> control_err + connected_as) \<Rightarrow> connect_form \<Rightarrow> app \<Rightarrow> disk_file
     \<Rightarrow> (gui_err + connected_as) \<times> app \<times> disk_file" where
  "connect_with_form L now io go f a store =
     (if fm_mtu f < 0 then (Inl FormMtu, a, store)
      else case load_pem L now (ap_ca a) (ap_cert a) (ap_key a) (fm_server f) (fm_server_name f) of
        Inl e \<Rightarrow> (Inl (InvalidForm e), a, store)
      | Inr p \<Rightarrow>
          (let a1 = a\<lparr>ap_form := f\<rparr>; store1 = save_app io a1 store
           in case gui_connect go (form_creds f a1) a1 of (r, a2) \<Rightarrow> (r, a2, store1)))"

definition reconnect :: "(credentials \<Rightarrow> control_err + connected_as) \<Rightarrow> app \<Rightarrow> (gui_err + connected_as) \<times> app" where
  "reconnect go a = gui_connect go (draft_creds a) a"

record profile_info =
  pi_has_profile :: bool
  pi_form :: connect_form
  pi_common_name :: string
  pi_ca :: "bool \<times> string"
  pi_cert :: "bool \<times> string"
  pi_key :: "bool \<times> string"

definition profile_info_of :: "app \<Rightarrow> profile_info" where
  "profile_info_of a =
     \<lparr>pi_has_profile = (fm_server (ap_form a) \<noteq> [] \<and> ap_ca a \<noteq> [] \<and> ap_cert a \<noteq> [] \<and> ap_key a \<noteq> []),
      pi_form = ap_form a, pi_common_name = ap_last_cn a, pi_ca = (ap_ca a \<noteq> [], ap_ca_name a),
      pi_cert = (ap_cert a \<noteq> [], ap_cert_name a), pi_key = (ap_key a \<noteq> [], ap_key_name a)\<rparr>"

section \<open>What the user does\<close>

datatype 'p gui_event =
    StatusPoll file_io "control_err + status_response"
  | Pick string "string + string" "string + (string + string)"
  | Import int file_io "string + string" "string + (string + string)"
  | ConnectForm int file_io "credentials \<Rightarrow> control_err + connected_as" connect_form
  | Reconnect "credentials \<Rightarrow> control_err + connected_as"

fun gui_step :: "'p x509_lib \<Rightarrow> (string \<Rightarrow> bool) \<Rightarrow> 'p gui_event \<Rightarrow> app \<Rightarrow> disk_file \<Rightarrow> app \<times> disk_file" where
  "gui_step L is_pem (StatusPoll io st) a store = gui_status io st a store"
| "gui_step L is_pem (Pick role dialog file) a store =
     (snd (pick_credential role dialog file is_pem a), store)"
| "gui_step L is_pem (Import now io dialog file) a store =
     snd (import_profile_bundle L now io dialog file a store)"
| "gui_step L is_pem (ConnectForm now io go f) a store = snd (connect_with_form L now io go f a store)"
| "gui_step L is_pem (Reconnect go) a store = (snd (reconnect go a), store)"

fun gui_run :: "'p x509_lib \<Rightarrow> (string \<Rightarrow> bool) \<Rightarrow> 'p gui_event list \<Rightarrow> app \<Rightarrow> disk_file \<Rightarrow> app \<times> disk_file" where
  "gui_run L is_pem [] a store = (a, store)"
| "gui_run L is_pem (e # es) a store = (case gui_step L is_pem e a store of (a1, s1) \<Rightarrow> gui_run L is_pem es a1 s1)"

section \<open>Lemmas\<close>

text \<open>The store holds the draft.\<close>

definition synced :: "app \<Rightarrow> disk_file \<Rightarrow> bool" where
  "synced a store \<longleftrightarrow> ap_has_store a \<and> store = Some (json_marshal_indent (saved_json (saved_of a)))"

definition remembered_known :: "app \<Rightarrow> bool" where
  "remembered_known a \<longleftrightarrow> ap_last_endpoint a = [] \<or> ap_last_endpoint a \<in> pe_server ` set (ap_endpoints a)"

text \<open>An event that does not pick a single credential, and whose save is not turned down.\<close>

fun saving :: "'p gui_event \<Rightarrow> bool" where
  "saving (StatusPoll io st) = (io_write io = None)"
| "saving (Pick role dialog file) = False"
| "saving (Import now io dialog file) = (io_write io = None)"
| "saving (ConnectForm now io go f) = (io_write io = None)"
| "saving (Reconnect go) = True"

lemma save_app_synced: "ap_has_store a \<Longrightarrow> io_write io = None \<Longrightarrow> synced a (save_app io a store)"
  by (simp add: synced_def save_app_def save_profile_def save_json_def)

lemma saved_of_cn [simp]: "saved_of (a\<lparr>ap_last_cn := cn\<rparr>) = saved_of a"
  by (simp add: saved_of_def)

lemma synced_cn [simp]: "synced (a\<lparr>ap_last_cn := cn\<rparr>) store = synced a store"
  by (simp add: synced_def)

lemma gui_connect_draft: "gui_connect go cd a = (r, a') \<Longrightarrow> a' = a \<or> (\<exists>cn. a' = a\<lparr>ap_last_cn := cn\<rparr>)"
  by (auto simp: gui_connect_def split: if_splits sum.splits)

lemma gui_connect_synced: "gui_connect go cd a = (r, a') \<Longrightarrow> synced a store \<Longrightarrow> synced a' store"
  using gui_connect_draft by fastforce

lemma connect_with_form_cases:
  assumes "connect_with_form L now io go f a store = (r, a', store')"
  shows "(\<not> ok r \<and> a' = a \<and> store' = store)
    \<or> (store' = save_app io (a\<lparr>ap_form := f\<rparr>) store
        \<and> gui_connect go (form_creds f (a\<lparr>ap_form := f\<rparr>)) (a\<lparr>ap_form := f\<rparr>) = (r, a'))"
  using assms by (auto simp: connect_with_form_def Let_def split: if_splits sum.splits prod.splits)

lemma gui_step_synced:
  assumes "synced a store" and "saving e" and "gui_step L is_pem e a store = (a', store')"
  shows "synced a' store'"
proof (cases e)
  case (StatusPoll io st)
  have "ap_has_store a" using assms(1) by (simp add: synced_def)
  with StatusPoll assms show ?thesis
    by (auto simp: gui_status_def remember_endpoint_def Let_def intro!: save_app_synced
        split: sum.splits if_splits)
next
  case (Import now io dialog fl)
  have "ap_has_store a" using assms(1) by (simp add: synced_def)
  with Import assms show ?thesis
    by (auto simp: import_profile_bundle_def import_bundle_data_def Let_def intro!: save_app_synced
        split: sum.splits if_splits)
next
  case (ConnectForm now io go f)
  obtain r where c: "connect_with_form L now io go f a store = (r, a', store')"
    using assms(3) ConnectForm by (cases "connect_with_form L now io go f a store") auto
  have "synced (a\<lparr>ap_form := f\<rparr>) (save_app io (a\<lparr>ap_form := f\<rparr>) store)"
    using assms(1,2) ConnectForm by (intro save_app_synced) (simp_all add: synced_def)
  with connect_with_form_cases [OF c] gui_connect_synced assms(1) show ?thesis by blast
next
  case (Reconnect go)
  with assms show ?thesis
    using gui_connect_synced [of go "draft_creds a" a "fst (reconnect go a)" a' store]
    by (auto simp: reconnect_def)
qed (use assms in simp)

lemma gui_run_synced:
  "synced a store \<Longrightarrow> list_all saving es \<Longrightarrow> gui_run L is_pem es a store = (a', store') \<Longrightarrow> synced a' store'"
proof (induction es arbitrary: a store)
  case (Cons e es)
  obtain a1 s1 where "gui_step L is_pem e a store = (a1, s1)" by fastforce
  with Cons gui_step_synced [OF Cons.prems(1) _ this] show ?case by simp
qed simp

lemma new_app_synced:
  assumes "synced a store" and "int64_range (fm_mtu (ap_form a))"
    and "length (json_marshal_indent (saved_json (saved_of a))) \<le> max_profile_bytes" and "io_read io = None"
  shows "new_app (Inr pth) io store = a\<lparr>ap_last_cn := []\<rparr>"
proof -
  have "saved_of_json (saved_json (saved_of a)) = Some (saved_of a)"
    by (rule saved_of_json_json) (use assms(2) in \<open>simp add: saved_of_def\<close>)
  with assms saved_json_wf [of "saved_of a"] have "load_profile io store = Inr (Some (saved_of a))"
    by (simp add: synced_def load_profile_def)
  then show ?thesis using assms(1) by (simp add: new_app_def saved_of_def blank_app_def synced_def)
qed

section \<open>Properties\<close>

text \<open>A restart changes nothing: once the store holds the draft, any series of status polls, imports,
  connects and reconnects whose saves succeed keeps it so, and an app started anew from the file has
  the very draft, credentials, addresses and remembered address included, apart from the name shown
  for display.\<close>

theorem restart_keeps_draft:
  assumes "synced a store" and "list_all saving es" and "gui_run L is_pem es a store = (a', store')"
    and "int64_range (fm_mtu (ap_form a'))"
    and "length (json_marshal_indent (saved_json (saved_of a'))) \<le> max_profile_bytes" and "io_read io = None"
  shows "new_app (Inr pth) io store' = a'\<lparr>ap_last_cn := []\<rparr>
    \<and> draft_creds (new_app (Inr pth) io store') = draft_creds a'"
proof -
  have "new_app (Inr pth) io store' = a'\<lparr>ap_last_cn := []\<rparr>"
    using gui_run_synced [OF assms(1-3)] assms(4-6) by (rule new_app_synced)
  then show ?thesis by (simp add: draft_creds_def)
qed

definition sample_app :: app where
  "sample_app = blank_app\<lparr>ap_has_store := True, ap_ca := ''C'', ap_cert := ''D'', ap_key := ''K'',
     ap_form := \<lparr>fm_server = ''a.io:1'', fm_server_name = [], fm_mtu = 0, fm_tun_name = []\<rparr>,
     ap_endpoints := [\<lparr>pe_server = ''a.io:1'', pe_server_name = ''a.io'', pe_label = []\<rparr>,
       \<lparr>pe_server = ''b.io:1'', pe_server_name = ''b.io'', pe_label = []\<rparr>]\<rparr>"

definition sample_status :: status_response where
  "sample_status = \<lparr>st_state = ''connected'', st_server = ''b.io:1'', st_since = 0, st_last_error = []\<rparr>"

theorem restart_keeps_draft_witness:
  "\<exists>store. gui_run sample_x509 (\<lambda>t. True) [StatusPoll io_fine (Inr sample_status)] sample_app
      (Some (json_marshal_indent (saved_json (saved_of sample_app))))
      = (sample_app\<lparr>ap_last_endpoint := ''b.io:1''\<rparr>, store)
    \<and> cd_preferred (draft_creds (new_app (Inr ''p'') io_fine store)) = ''b.io:1''"
proof -
  let ?s = "Some (json_marshal_indent (saved_json (saved_of sample_app)))"
  obtain store where r: "gui_run sample_x509 (\<lambda>t. True) [StatusPoll io_fine (Inr sample_status)] sample_app ?s
      = (sample_app\<lparr>ap_last_endpoint := ''b.io:1''\<rparr>, store)"
    by (simp add: gui_status_def remember_endpoint_def sample_status_def sample_app_def blank_app_def Let_def)
  have s: "synced sample_app ?s" by (simp add: synced_def sample_app_def blank_app_def)
  have "length (json_marshal_indent (saved_json (saved_of (sample_app\<lparr>ap_last_endpoint := ''b.io:1''\<rparr>)))) \<le> max_profile_bytes"
    by (simp add: saved_json_def saved_of_def sample_app_def blank_app_def opt_member_def paddr_json_def jbytes_def
        b64_char_def b64_alphabet_def json_marshal_indent_def json_indent_def json_string_def esc_char_def
        max_profile_bytes_def empty_form_def)
  from restart_keeps_draft [OF s _ r _ this, of io_fine "''p''"] r show ?thesis
    by (auto simp: io_fine_def draft_creds_def sample_app_def blank_app_def int64_range_def)
qed

lemma remembered_step:
  assumes "remembered_known a" and "gui_step L is_pem e a store = (a', store')"
  shows "remembered_known a'"
proof (cases e)
  case (StatusPoll io st)
  with assms show ?thesis
    by (auto simp: gui_status_def remember_endpoint_def remembered_known_def Let_def list_ex_iff image_iff
        split: sum.splits if_splits) metis+
next
  case (Pick role dialog fl)
  with assms show ?thesis
    by (auto simp: pick_credential_def remembered_known_def split: sum.splits if_splits)
next
  case (Import now io dialog fl)
  with assms show ?thesis
    by (auto simp: import_profile_bundle_def import_bundle_data_def remembered_known_def Let_def
        split: sum.splits if_splits)
next
  case (ConnectForm now io go f)
  obtain r where "connect_with_form L now io go f a store = (r, a', store')"
    using assms(2) ConnectForm by (cases "connect_with_form L now io go f a store") auto
  from connect_with_form_cases [OF this] assms(1) show ?thesis
    by (auto simp: remembered_known_def dest!: gui_connect_draft)
next
  case (Reconnect go)
  obtain r where "gui_connect go (draft_creds a) a = (r, a')"
    using assms(2) Reconnect by (cases "reconnect go a") (auto simp: reconnect_def)
  with assms(1) show ?thesis by (auto simp: remembered_known_def dest!: gui_connect_draft)
qed

text \<open>The remembered address is one of the profile's: whatever the daemon reports, the user picks,
  imports or edits, the address tried first is never one the profile does not list.\<close>

theorem remembered_endpoint_known:
  assumes "remembered_known a" and "gui_run L is_pem es a store = (a', store')"
  shows "cd_preferred (draft_creds a') = [] \<or> cd_preferred (draft_creds a') \<in> pe_server ` set (cd_endpoints (draft_creds a'))"
proof -
  have "remembered_known a'"
    using assms
  proof (induction es arbitrary: a store)
    case (Cons e es)
    obtain a1 s1 where "gui_step L is_pem e a store = (a1, s1)" by fastforce
    with Cons remembered_step [OF Cons.prems(1) this] show ?case by simp
  qed simp
  then show ?thesis by (simp add: remembered_known_def draft_creds_def)
qed

theorem remembered_endpoint_known_witness:
  "\<exists>a store. gui_run sample_x509 (\<lambda>t. True) [StatusPoll io_fine (Inr sample_status)] sample_app None = (a, store)
    \<and> cd_preferred (draft_creds a) \<in> pe_server ` set (cd_endpoints (draft_creds a))"
proof -
  let ?a = "sample_app\<lparr>ap_last_endpoint := ''b.io:1''\<rparr>"
  obtain store where r: "gui_run sample_x509 (\<lambda>t. True) [StatusPoll io_fine (Inr sample_status)] sample_app None
      = (?a, store)"
    by (simp add: gui_status_def remember_endpoint_def sample_status_def sample_app_def blank_app_def Let_def)
  have "remembered_known sample_app" by (simp add: remembered_known_def sample_app_def blank_app_def)
  from remembered_endpoint_known [OF this r] have "cd_preferred (draft_creds ?a) \<in> pe_server ` set (cd_endpoints (draft_creds ?a))"
    by (simp add: draft_creds_def)
  with r show ?thesis by blast
qed

text \<open>An edited address is lost: after an import, a connect with a form that names another server dials
  that server, saves it, and keeps the imported address list; the next reconnect, in the same run or
  after a restart, goes by the list alone and never tries the server the user entered.\<close>

theorem edited_server_ignored:
  assumes "connect_with_form L now io go f a store = (Inr info, a', store')" and "ap_endpoints a \<noteq> []"
    and "fm_server f \<notin> pe_server ` set (ap_endpoints a)"
  shows "map pe_server (cred_endpoints (form_creds f a)) = [fm_server f]
    \<and> cd_server (draft_creds a') = fm_server f
    \<and> fm_server f \<notin> pe_server ` set (cred_endpoints (draft_creds a'))"
proof -
  have g: "gui_connect go (form_creds f (a\<lparr>ap_form := f\<rparr>)) (a\<lparr>ap_form := f\<rparr>) = (Inr info, a')"
    using connect_with_form_cases [OF assms(1)] by auto
  from gui_connect_draft [OF g] have "draft_creds a' = draft_creds (a\<lparr>ap_form := f\<rparr>)"
    by (auto simp: draft_creds_def)
  then show ?thesis using assms(2,3) by (simp add: form_creds_def draft_creds_def cred_endpoints_def)
qed

definition sample_form :: connect_form where
  "sample_form = \<lparr>fm_server = ''vpn.io:8443'', fm_server_name = [], fm_mtu = 0, fm_tun_name = []\<rparr>"

theorem edited_server_ignored_witness:
  "\<exists>a store. connect_with_form sample_x509 5 io_fine (\<lambda>cd. Inr \<lparr>co_common_name = ''bob'', co_not_after = 9\<rparr>)
      sample_form (sample_app\<lparr>ap_ca := ''CA'', ap_cert := ''C'', ap_key := ''K''\<rparr>) None
      = (Inr \<lparr>co_common_name = ''bob'', co_not_after = 9\<rparr>, a, store)
    \<and> map pe_server (cred_endpoints (draft_creds a)) = [''a.io:1'', ''b.io:1'']
    \<and> ''vpn.io:8443'' \<notin> pe_server ` set (cred_endpoints (draft_creds a))"
proof -
  let ?a = "sample_app\<lparr>ap_ca := ''CA'', ap_cert := ''C'', ap_key := ''K''\<rparr>"
  have "\<exists>p. load_pem sample_x509 5 ''CA'' ''C'' ''K'' ''vpn.io:8443'' [] = Inr p"
    using sample_valid by (simp add: load_pem_def load_pem_endpoints_def sample_x509_def sample_addr_def)
  then obtain a store where c: "connect_with_form sample_x509 5 io_fine
      (\<lambda>cd. Inr \<lparr>co_common_name = ''bob'', co_not_after = 9\<rparr>) sample_form ?a None
      = (Inr \<lparr>co_common_name = ''bob'', co_not_after = 9\<rparr>, a, store)"
    and e: "ap_endpoints a = ap_endpoints ?a"
    by (auto simp: connect_with_form_def sample_form_def gui_connect_def form_creds_def Let_def)
  from edited_server_ignored [OF c] c e show ?thesis
    by (auto simp: sample_app_def sample_form_def draft_creds_def cred_endpoints_def)
qed

end
