(* ===== verification/Quote.thy ===== *)
theory Quote
  imports Files
begin

text \<open>
  Text in double quotes as \<open>fmt\<close> writes it, which the programs use in their messages and in the rules of the
  firewall.
\<close>

text \<open>The verb \<open>%q\<close>, for text that is valid UTF-8 and printable beyond ASCII.\<close>

definition quote_char :: "char \<Rightarrow> string" where
  "quote_char c =
     (if c = CHR 0x22 \<or> c = CHR 0x5C then [CHR 0x5C, c]
      else if c = CHR 0x07 then [CHR 0x5C] @ ''a''
      else if c = CHR 0x08 then [CHR 0x5C] @ ''b''
      else if c = CHR 0x0C then [CHR 0x5C] @ ''f''
      else if c = CHR 0x0A then [CHR 0x5C] @ ''n''
      else if c = CHR 0x0D then [CHR 0x5C] @ ''r''
      else if c = CHR 0x09 then [CHR 0x5C] @ ''t''
      else if c = CHR 0x0B then [CHR 0x5C] @ ''v''
      else if of_char c < (32 :: nat) \<or> c = CHR 0x7F
           then [CHR 0x5C] @ ''x'' @ [Files.hex_digit (of_char c div 16), Files.hex_digit (of_char c mod 16)]
      else [c])"

definition go_quote :: "string \<Rightarrow> string" where
  "go_quote s = [CHR 0x22] @ concat (map quote_char s) @ [CHR 0x22]"

end
