(* ===== verification/Bot.thy ===== *)
theory Bot
  imports Issuance Invite Profile VlessStore VlessLink Quote
begin

text \<open>
  The onboarding bot (\<open>src/cmd/vpn-bot/main.go\<close>): what a message makes it do to the invites, to the
  directory of the authority and to the VLESS files, and what it sends to whom. The Telegram library
  has parsed the message: command, arguments and whether the chat is private are fields of it. What
  the environment answers while one message is handled (files, random values, the one reading of the
  clock, systemd, whether a document could be sent) is the record \<open>bot_io\<close>; the wording of errors and dates
  is the record \<open>bot_texts\<close>. Log lines are left out.
\<close>

section \<open>Texts\<close>

definition em_dash :: string where "em_dash = [CHR 0xE2, CHR 0x80, CHR 0x94]"
definition bullet :: string where "bullet = [CHR 0xE2, CHR 0x80, CHR 0xA2]"
definition newline :: string where "newline = [CHR 0x0A]"
definition warning_sign :: string where
  "warning_sign = [CHR 0xE2, CHR 0x9A, CHR 0xA0, CHR 0xEF, CHR 0xB8, CHR 0x8F]"

definition max_token_len :: nat where "max_token_len = 128"
definition max_poll_failures :: nat where "max_poll_failures = 10"
definition poll_backoff :: int where "poll_backoff = 3 * 1000000000"

definition help_text :: string where
  "help_text = ''Send me your one-time invite token and I'' @ [CHR 0x27] @ ''ll send back your vpn.io profile (.vpnio). ''
     @ ''Ask the owner for a token if you don'' @ [CHR 0x27] @ ''t have one.''"

definition invite_usage :: string where
  "invite_usage = ''Usage: /invite <client-name> [profile|vless|both]''"

definition vless_instructions :: string where
  "vless_instructions = ''Your VLESS access. Copy the link below, open Happ (or another VLESS client) ''
     @ ''and add it '' @ em_dash @ '' most clients pick the link up from the clipboard on their ''
     @ [CHR 0x22] @ ''add server'' @ [CHR 0x22] @ '' screen.'' @ newline @ newline
     @ ''Keep it to yourself: this link is the access.''"

definition owner_notified_text :: "int \<Rightarrow> string \<Rightarrow> string" where
  "owner_notified_text owner prefix =
     (if owner \<noteq> 0 then prefix @ '' The owner has been notified.''
      else prefix @ '' Please try again later or contact the owner.'')"

definition grant_text :: "grant \<Rightarrow> string" where
  "grant_text g =
     (if g = grant_vless then ''VLESS link for third-party clients''
      else if g = grant_both then ''app profile + VLESS link''
      else ''app profile'')"

section \<open>Names\<close>

datatype name_err = NameMissing | NameTooLong | NameNotPlain

fun name_err_text :: "name_err \<Rightarrow> string" where
  "name_err_text NameMissing = ''name is required''"
| "name_err_text NameTooLong = ''name too long (max 64 characters)''"
| "name_err_text NameNotPlain = ''name must be plain '' @ em_dash @ '' no path separators''"

definition validate_client_name :: "string \<Rightarrow> name_err option" where
  "validate_client_name nm =
     (if nm = [] then Some NameMissing
      else if length nm > 64 then Some NameTooLong
      else if (\<exists>c \<in> set nm. c = CHR ''/'' \<or> c = CHR 0x5C) \<or> nm = ''.'' \<or> nm = ''..'' then Some NameNotPlain
      else None)"

section \<open>Messages, answers and state\<close>

record tg_user =
  tu_id :: int
  tu_user_name :: string
  tu_first_name :: string

record tg_chat =
  tc_id :: int
  tc_private :: bool

record message =
  ms_from :: tg_user
  ms_chat :: tg_chat
  ms_body :: string
  ms_command :: string
  ms_arguments :: string

definition user_label :: "tg_user \<Rightarrow> string" where
  "user_label u =
     (if tu_user_name u = [] then tu_first_name u else tu_user_name u) @ '' (id '' @ int_str (tu_id u) @ '')''"

text \<open>What the bot sends: a text, a document with its name, contents and caption, a file, and a text with a row of
  buttons. \<open>Secret\<close> is a reply too; it marks the two that carry a credential, the token and the link.\<close>

datatype sent =
    Reply int string
  | Secret int string
  | Document int string string string
  | DocumentFrom int string string
  | Menu int string "(string \<times> string) list"

fun sent_to :: "sent \<Rightarrow> int" where
  "sent_to (Reply c t) = c"
| "sent_to (Secret c t) = c"
| "sent_to (Document c n b t) = c"
| "sent_to (DocumentFrom c p t) = c"
| "sent_to (Menu c t bs) = c"

text \<open>The stores: the invites, the directory of the authority with the deny-list, and the VLESS files.\<close>

record bot_state =
  bs_invites :: disk_file
  bs_tree :: tree
  bs_vless :: vdisk

datatype bundle_err =
    IssueClientFails string ca_err
  | CaCertUnreadable ca_err
  | ClientCertUnreadable ca_err
  | ClientKeyUnreadable ca_err
  | BundleFails profile_err

record bot_texts =
  bt_invite :: "invite_err \<Rightarrow> string"
  bt_bundle :: "bundle_err \<Rightarrow> string"
  bt_vless :: "vless_err \<Rightarrow> string"
  bt_date :: "int \<Rightarrow> string"

text \<open>\<open>env\<close>: the authority and the libraries it uses, the flags of the command, and whether there is a VLESS
  store. \<open>be_eqf\<close> is \<open>strings.EqualFold\<close> as the VLESS store uses it.\<close>

record ('k, 'p) bot_env =
  be_ca :: "'k authority"
  be_ca_lib :: "'k ca_lib"
  be_x509 :: "'p x509_lib"
  be_codec :: time_codec
  be_texts :: bot_texts
  be_eqf :: "string \<Rightarrow> string \<Rightarrow> bool"
  be_ttl :: int
  be_vless :: bool
  be_unit :: string
  be_server :: string
  be_server_name :: string
  be_installers :: string
  be_owner :: int

text \<open>A file as \<open>os.Stat\<close> sees it: its modification time, unless it is a directory or cannot be read.\<close>

record 'k bot_io =
  bi_now :: int
  bi_invites :: file_io
  bi_token :: "string + string"
  bi_ca :: ca_io
  bi_key :: "string + 'k"
  bi_serial :: "string + int"
  bi_deny :: "nat \<Rightarrow> file_io"
  bi_vless :: vio
  bi_uuid :: "string + bytes"
  bi_short_id :: "string + bytes"
  bi_created :: string
  bi_vless_node :: vio
  bi_polls :: "nat \<Rightarrow> (string + string) \<times> int \<times> bool"
  bi_document :: "string option"
  bi_glob :: "string \<Rightarrow> (string \<times> int option) list"

definition vless_enabled :: "('k, 'p) bot_env \<Rightarrow> bool" where
  "vless_enabled e = be_vless e"

text \<open>The wait is over after at most sixty polls (\<open>wait_applied\<close>), so sixty answers of systemd are enough.\<close>

definition confirm_applied :: "('k, 'p) bot_env \<Rightarrow> 'k bot_io \<Rightarrow> wait_result option" where
  "confirm_applied e io =
     (case wait_applied (be_unit e) (map (bi_polls io) [0..<60]) of
        WaitActive \<Rightarrow> None | r \<Rightarrow> Some r)"

text \<open>The errors of the wait.\<close>

fun wait_text :: "wait_result \<Rightarrow> string" where
  "wait_text WaitActive = []"
| "wait_text WaitMore = []"
| "wait_text (WaitFailed u) = ''vless: '' @ u @ '' failed to restart (systemctl status '' @ u @ '')''"
| "wait_text (WaitGaveUp u s) = ''vless: '' @ u @ '' did not come back within 30s (last state: '' @ s @ '')''"

definition redeemable_chat :: "tg_chat option \<Rightarrow> bool" where
  "redeemable_chat chat = (case chat of None \<Rightarrow> False | Some c \<Rightarrow> tc_private c)"

definition notify_owner :: "int \<Rightarrow> string \<Rightarrow> sent list" where
  "notify_owner owner t = (if owner = 0 then [] else [Reply owner (warning_sign @ '' vpn-bot: '' @ t)])"

section \<open>Handing out credentials\<close>

definition issue_bundle ::
    "('k, 'p) bot_env \<Rightarrow> 'k bot_io \<Rightarrow> string \<Rightarrow> tree \<Rightarrow> (bundle_err + string) \<times> tree" where
  "issue_bundle e io nm fs =
     (case issue_client (be_ca_lib e) (be_codec e) (bi_ca io) (bi_now io) (bi_key io) (bi_serial io) (be_ca e) nm fs of
        (Some err, fs1) \<Rightarrow> (Inl (IssueClientFails nm err), fs1)
      | (None, fs1) \<Rightarrow>
     (case read_file (bi_ca io) ''ca.crt'' fs1 of
        Inl err \<Rightarrow> (Inl (CaCertUnreadable err), fs1)
      | Inr ca \<Rightarrow>
     (case read_file (bi_ca io) (client_cert nm) fs1 of
        Inl err \<Rightarrow> (Inl (ClientCertUnreadable err), fs1)
      | Inr cert \<Rightarrow>
     (case read_file (bi_ca io) (client_key nm) fs1 of
        Inl err \<Rightarrow> (Inl (ClientKeyUnreadable err), fs1)
      | Inr key \<Rightarrow>
     (case marshal_bundle (be_x509 e) (bi_now io) ca cert key (be_server e) (be_server_name e) of
        Inl err \<Rightarrow> (Inl (BundleFails err), fs1)
      | Inr b \<Rightarrow> (Inr b, fs1))))))"

definition issue_profile ::
    "('k, 'p) bot_env \<Rightarrow> 'k bot_io \<Rightarrow> message \<Rightarrow> string \<Rightarrow> string \<Rightarrow> bot_state \<Rightarrow> bool \<times> sent list \<times> bot_state" where
  "issue_profile e io m nm who s =
     (let chat = tc_id (ms_chat m); owner = be_owner e in
      case issue_bundle e io nm (bs_tree s) of
        (Inl err, fs) \<Rightarrow>
          (False,
           notify_owner owner (''failed to issue a profile for '' @ go_quote nm @ '' ('' @ who @ ''): '' @ bt_bundle (be_texts e) err)
             @ [Reply chat (owner_notified_text owner (''Sorry '' @ em_dash @ '' couldn'' @ [CHR 0x27] @ ''t create your profile.''))],
           s\<lparr>bs_tree := fs\<rparr>)
      | (Inr b, fs) \<Rightarrow>
          (let doc = Document chat (nm @ ''.vpnio'') b
                 (''Your vpn.io profile. In the app choose '' @ [CHR 0x22] @ ''Import a profile file'' @ [CHR 0x22]
                   @ '' and pick this file.'')
           in case bi_document io of
                Some err \<Rightarrow>
                  (False,
                   [doc] @ notify_owner owner (''issued '' @ go_quote nm @ '' to '' @ who @ '' but couldn'' @ [CHR 0x27]
                        @ ''t deliver the file: '' @ err)
                     @ [Reply chat (''Your profile was created but I couldn'' @ [CHR 0x27] @ ''t send the file ''
                          @ em_dash @ '' please contact the owner.'')],
                   s\<lparr>bs_tree := fs\<rparr>)
              | None \<Rightarrow> (True, [doc], s\<lparr>bs_tree := fs\<rparr>)))"

text \<open>The link goes out before the service is known to be back.\<close>

definition issue_vless ::
    "('k, 'p) bot_env \<Rightarrow> 'k bot_io \<Rightarrow> message \<Rightarrow> string \<Rightarrow> string \<Rightarrow> bot_state \<Rightarrow> bool \<times> sent list \<times> bot_state" where
  "issue_vless e io m nm who s =
     (let chat = tc_id (ms_chat m); owner = be_owner e;
          apology = owner_notified_text owner (''Sorry '' @ em_dash @ '' couldn'' @ [CHR 0x27] @ ''t create your access.'')
      in
      case add_client (be_eqf e) (bi_vless io) (bi_uuid io) (bi_short_id io) (bi_created io) nm (bs_vless s) of
        (Inl err, d) \<Rightarrow>
          (False,
           notify_owner owner (''failed to add VLESS access for '' @ go_quote nm @ '' ('' @ who @ ''): '' @ bt_vless (be_texts e) err)
             @ [Reply chat apology],
           s\<lparr>bs_vless := d\<rparr>)
      | (Inr c, d) \<Rightarrow>
     (case rbind (load_node (bi_vless_node io) d) (\<lambda>n. vless_link n c) of
        Inl err \<Rightarrow>
          (False,
           notify_owner owner (''added VLESS access for '' @ go_quote nm @ '' but couldn'' @ [CHR 0x27]
               @ ''t build the link: '' @ bt_vless (be_texts e) err)
             @ [Reply chat apology],
           s\<lparr>bs_vless := d\<rparr>)
      | Inr l \<Rightarrow>
          (True,
           [Reply chat vless_instructions, Secret chat l]
             @ (case confirm_applied e io of
                  None \<Rightarrow> []
                | Some w \<Rightarrow>
                    notify_owner owner (''added VLESS access for '' @ go_quote nm
                        @ '', but the service did not come back: '' @ wait_text w)
                    @ [Reply chat (''Your access is created. If it doesn'' @ [CHR 0x27]
                         @ ''t connect within a minute, tell the owner '' @ em_dash @ '' they'' @ [CHR 0x27] @ ''ve been notified.'')]),
           s\<lparr>bs_vless := d\<rparr>)))"

section \<open>Installers\<close>

record installer_os =
  io_os_key :: string
  io_os_label :: string
  io_os_pattern :: string
  io_os_hint :: string

definition installer_oses :: "installer_os list" where
  "installer_oses =
     [\<lparr>io_os_key = ''windows'', io_os_label = ''Windows'', io_os_pattern = ''*.exe'',
        io_os_hint = ''Run the installer. If Windows SmartScreen warns: '' @ [CHR 0x22] @ ''More info'' @ [CHR 0x22]
          @ [CHR 0x20, CHR 0xE2, CHR 0x86, CHR 0x92, CHR 0x20] @ [CHR 0x22] @ ''Run anyway'' @ [CHR 0x22]
          @ '', then approve the admin prompt.''\<rparr>,
      \<lparr>io_os_key = ''macos'', io_os_label = ''macOS'', io_os_pattern = ''*.pkg'',
        io_os_hint = ''Right-click the .pkg '' @ [CHR 0xE2, CHR 0x86, CHR 0x92] @ '' Open (it'' @ [CHR 0x27]
          @ ''s unsigned), then follow the installer and enter your admin password.''\<rparr>,
      \<lparr>io_os_key = ''linux'', io_os_label = ''Linux'', io_os_pattern = ''*.deb'',
        io_os_hint = ''Install with: sudo apt install ./<file>.deb '' @ em_dash @ '' then log out and back in once.''\<rparr>]"

text \<open>The newest match; a match that cannot be read or is a directory is passed over (\<open>None\<close>).\<close>

fun newest :: "(string \<times> int option) list \<Rightarrow> (string \<times> int) option \<Rightarrow> (string \<times> int) option" where
  "newest [] best = best"
| "newest ((p, None) # ms) best = newest ms best"
| "newest ((p, Some t) # ms) best =
     newest ms (case best of None \<Rightarrow> Some (p, t) | Some (b, bt) \<Rightarrow> if t > bt then Some (p, t) else Some (b, bt))"

definition find_installer :: "'k bot_io \<Rightarrow> string \<Rightarrow> string option" where
  "find_installer io pat = map_option fst (newest (bi_glob io pat) None)"

definition installer_keyboard :: "'k bot_io \<Rightarrow> (string \<times> string) list option" where
  "installer_keyboard io =
     (let row = map (\<lambda>x. (io_os_label x, ''install:'' @ io_os_key x))
                  (filter (\<lambda>x. find_installer io (io_os_pattern x) \<noteq> None) installer_oses)
      in if row = [] then None else Some row)"

text \<open>A tap on a button: the chat of the message it hangs on, if it is still there, and its data. \<open>bi_document\<close> is
  what came of sending the file.\<close>

definition handle_callback :: "'k bot_io \<Rightarrow> string \<Rightarrow> int option \<Rightarrow> string \<Rightarrow> sent list" where
  "handle_callback io dir chat data =
     (case chat of
        None \<Rightarrow> []
      | Some c \<Rightarrow>
          (if dir = [] \<or> \<not> starts_with data ''install:'' then []
           else case find (\<lambda>x. io_os_key x = drop (length ''install:'') data) installer_oses of
             None \<Rightarrow> []
           | Some x \<Rightarrow>
               (case find_installer io (io_os_pattern x) of
                  None \<Rightarrow> [Reply c (''The '' @ io_os_label x @ '' installer isn'' @ [CHR 0x27]
                             @ ''t available right now '' @ em_dash @ '' ask the owner.'')]
                | Some p \<Rightarrow>
                    [DocumentFrom c p (io_os_hint x)]
                    @ (if bi_document io = None then []
                       else [Reply c (''Couldn'' @ [CHR 0x27] @ ''t send the '' @ io_os_label x @ '' installer ''
                               @ em_dash @ '' please contact the owner.'')]))))"

section \<open>The owner's commands\<close>

definition cut_space :: "string \<Rightarrow> string \<times> string" where
  "cut_space s = (takeWhile (\<lambda>c. c \<noteq> CHR '' '') s, drop 1 (dropWhile (\<lambda>c. c \<noteq> CHR '' '') s))"

definition handle_invite ::
    "('k, 'p) bot_env \<Rightarrow> 'k bot_io \<Rightarrow> message \<Rightarrow> bot_state \<Rightarrow> sent list \<times> bot_state" where
  "handle_invite e io m s =
     (let chat = tc_id (ms_chat m);
          nm = trim_space (fst (cut_space (trim_space (ms_arguments m))));
          grant_raw = snd (cut_space (trim_space (ms_arguments m)))
      in case validate_client_name nm of
           Some err \<Rightarrow> ([Reply chat (''Can'' @ [CHR 0x27] @ ''t use that name ('' @ name_err_text err @ ''). '' @ invite_usage)], s)
         | None \<Rightarrow>
        (case parse_grant grant_raw of
           None \<Rightarrow> ([Reply chat (''invite: unknown grant '' @ go_quote grant_raw
                      @ '' (want profile, vless or both). '' @ invite_usage)], s)
         | Some g \<Rightarrow>
        (if covers_vless g \<and> \<not> vless_enabled e
         then ([Reply chat (''This node has no VLESS service configured, so I can'' @ [CHR 0x27]
                 @ ''t issue that. See docs/VLESS.md.'')], s)
         else case generate_invite (be_codec e) (bi_invites io) (be_ttl e) (bi_now io) (bi_token io) nm g (bs_invites s) of
                (Inl err, f) \<Rightarrow>
                  ([Reply chat (''Couldn'' @ [CHR 0x27] @ ''t generate a token '' @ em_dash @ '' check the logs.'')],
                   s\<lparr>bs_invites := f\<rparr>)
              | (Inr tok, f) \<Rightarrow>
                  ([Secret chat (''Invite token for '' @ go_quote nm @ '' '' @ em_dash @ '' '' @ grant_text g
                      @ '' (single-use):'' @ newline @ newline @ tk_value tok @ newline @ newline
                      @ ''Send it to the person; they message it to me.'')],
                   s\<lparr>bs_invites := f\<rparr>))))"

definition invite_line :: "bot_texts \<Rightarrow> int \<Rightarrow> int \<Rightarrow> token \<Rightarrow> string" where
  "invite_line T ttl now t =
     bullet @ '' '' @ tk_client t @ '' ['' @ token_grants t @ ''] '' @ em_dash @
     (if tk_used t then '' used by '' @ (if tk_used_by t = [] then ''unknown'' else tk_used_by t)
           @ '' on '' @ bt_date T (tk_used_at t)
      else if token_expired (tk_created t) ttl now then '' EXPIRED (issued '' @ bt_date T (tk_created t) @ '')''
      else '' PENDING (issued '' @ bt_date T (tk_created t) @ '')'')
     @ newline"

definition format_invite_list :: "bot_texts \<Rightarrow> token list \<Rightarrow> int \<Rightarrow> int \<Rightarrow> string" where
  "format_invite_list T ts ttl now =
     (if ts = [] then ''No invites have been issued yet.''
      else ''Issued invites ('' @ nat_str (length ts) @ ''):'' @ newline @ concat (map (invite_line T ttl now) ts))"

definition handle_invites_command ::
    "('k, 'p) bot_env \<Rightarrow> 'k bot_io \<Rightarrow> message \<Rightarrow> bot_state \<Rightarrow> sent list" where
  "handle_invites_command e io m s =
     [Reply (tc_id (ms_chat m))
        (case list_invites (be_codec e) (bi_invites io) (bs_invites s) of
           Inl err \<Rightarrow> ''Couldn'' @ [CHR 0x27] @ ''t read the invite list '' @ em_dash @ '' check the logs.''
         | Inr ts \<Rightarrow> format_invite_list (be_texts e) ts (be_ttl e) (bi_now io))]"

definition handle_vless_list ::
    "('k, 'p) bot_env \<Rightarrow> 'k bot_io \<Rightarrow> message \<Rightarrow> bot_state \<Rightarrow> sent list" where
  "handle_vless_list e io m s =
     [Reply (tc_id (ms_chat m))
        (if \<not> vless_enabled e then ''This node has no VLESS service configured. See docs/VLESS.md.''
         else case load_clients (bi_vless io) (bs_vless s) of
           Inl err \<Rightarrow> ''Couldn'' @ [CHR 0x27] @ ''t read the VLESS client list '' @ em_dash @ '' check the logs.''
         | Inr cs \<Rightarrow>
             (if cs = [] then ''Nobody has VLESS access on this node.''
              else ''VLESS access ('' @ nat_str (length cs) @ ''):'' @ newline
                @ concat (map (\<lambda>c. bullet @ '' '' @ vc_name c @ '' (since '' @ take 10 (vc_created c) @ '')'' @ newline) cs)))]"

text \<open>The loop over the serials: how many entries are new, up to the first failure.\<close>

fun revoke_serials ::
    "time_codec \<Rightarrow> (nat \<Rightarrow> file_io) \<Rightarrow> int \<Rightarrow> string \<Rightarrow> nat \<Rightarrow> int list \<Rightarrow> nat \<Rightarrow> disk_file
     \<Rightarrow> (file_err + nat) \<times> disk_file" where
  "revoke_serials tc ios now nm i [] added f = (Inr added, f)"
| "revoke_serials tc ios now nm i (s # ss) added f =
     (case store_add tc (ios i) now s nm f of
        (Inl err, f1) \<Rightarrow> (Inl err, f1)
      | (Inr new, f1) \<Rightarrow> revoke_serials tc ios now nm (Suc i) ss (if new then added + 1 else added) f1)"

text \<open>The two lines that say every certificate of a name is denied.\<close>

definition revoked_line :: "string \<Rightarrow> string" where
  "revoked_line nm = ''App profile: revoked '' @ go_quote nm @ ''. The server cuts it off on its next connection.''"

definition already_line :: "string \<Rightarrow> string" where
  "already_line nm = ''App profile: '' @ go_quote nm @ '' was already revoked.''"

definition revoke_certificates ::
    "('k, 'p) bot_env \<Rightarrow> 'k bot_io \<Rightarrow> string \<Rightarrow> bot_state \<Rightarrow> string \<times> bool \<times> bot_state" where
  "revoke_certificates e io nm s =
     (case client_serials (be_ca_lib e) (be_codec e) (bi_ca io) nm (bs_tree s) of
        Inl err \<Rightarrow> ([], False, s)
      | Inr serials \<Rightarrow>
          (if serials = [] then ([], False, s)
           else case revoke_serials (be_codec e) (bi_deny io) (bi_now io) nm 0 serials 0 (bs_tree s deny_file) of
                  (Inl err, f) \<Rightarrow>
                    (''Couldn'' @ [CHR 0x27] @ ''t revoke the app profile '' @ em_dash @ '' check the logs.'', True,
                     s\<lparr>bs_tree := (bs_tree s)(deny_file := f)\<rparr>)
                | (Inr added, f) \<Rightarrow>
                    (if added = 0 then already_line nm else revoked_line nm,
                     True, s\<lparr>bs_tree := (bs_tree s)(deny_file := f)\<rparr>)))"

definition revoke_vless ::
    "('k, 'p) bot_env \<Rightarrow> 'k bot_io \<Rightarrow> string \<Rightarrow> bot_state \<Rightarrow> string \<times> bool \<times> bot_state" where
  "revoke_vless e io nm s =
     (if \<not> vless_enabled e then ([], False, s)
      else case remove_client (be_eqf e) (bi_vless io) nm (bs_vless s) of
        (Inl err, d) \<Rightarrow>
          (''Couldn'' @ [CHR 0x27] @ ''t revoke the VLESS link '' @ em_dash @ '' check the logs.'', True, s\<lparr>bs_vless := d\<rparr>)
      | (Inr removed, d) \<Rightarrow>
          (if \<not> removed then ([], False, s\<lparr>bs_vless := d\<rparr>)
           else (case confirm_applied e io of
                   Some w \<Rightarrow> ''VLESS: removed '' @ go_quote nm @ '' from the list, but the service did NOT restart (''
                       @ wait_text w @ '') '' @ em_dash @ '' the link may still work. Check: systemctl status '' @ be_unit e
                 | None \<Rightarrow> ''VLESS: revoked '' @ go_quote nm @ ''. The link is dead now.'',
                 True, s\<lparr>bs_vless := d\<rparr>)))"

definition revoked_list_text :: "bot_texts \<Rightarrow> entry list \<Rightarrow> string" where
  "revoked_list_text T es =
     (if es = [] then ''No revoked clients.''
      else ''Revoked clients:'' @ newline
        @ concat (map (\<lambda>x. bullet @ '' '' @ en_name x @ '' ('' @ bt_date T (en_revoked_at x) @ '')'' @ newline) es))"

definition handle_unrevoke ::
    "('k, 'p) bot_env \<Rightarrow> 'k bot_io \<Rightarrow> int \<Rightarrow> string \<Rightarrow> bot_state \<Rightarrow> sent list \<times> bot_state" where
  "handle_unrevoke e io chat nm s =
     (case client_serial (be_ca_lib e) (bi_ca io) nm (bs_tree s) of
        Inl err \<Rightarrow> ([Reply chat (''No issued client named '' @ go_quote nm @ '' (or its certificate is unreadable).'')], s)
      | Inr serial \<Rightarrow>
     (case store_remove_serial (be_codec e) (bi_deny io 0) serial (bs_tree s deny_file) of
        (Inl err, f) \<Rightarrow>
          ([Reply chat (''Couldn'' @ [CHR 0x27] @ ''t un-revoke '' @ em_dash @ '' check the logs.'')],
           s\<lparr>bs_tree := (bs_tree s)(deny_file := f)\<rparr>)
      | (Inr removed, f) \<Rightarrow>
          ([Reply chat
             (if \<not> removed then go_quote nm @ [CHR 0x27] @ ''s current profile was not revoked.''
              else ''Un-revoked '' @ go_quote nm @ ''.'' @
                (if vless_enabled e
                 then newline @ newline @ ''This restores the app profile only. The old VLESS link stays dead on purpose ''
                   @ em_dash @ '' it may be in other hands by now. Issue a fresh one with:'' @ newline
                   @ ''/invite '' @ nm @ '' vless''
                 else []))],
           s\<lparr>bs_tree := (bs_tree s)(deny_file := f)\<rparr>)))"

definition handle_revoke_command ::
    "('k, 'p) bot_env \<Rightarrow> 'k bot_io \<Rightarrow> message \<Rightarrow> bot_state \<Rightarrow> sent list \<times> bot_state" where
  "handle_revoke_command e io m s =
     (let chat = tc_id (ms_chat m); cmd = ms_command m; nm = trim_space (ms_arguments m) in
      if cmd = ''revoked'' then
        ([Reply chat
           (case store_list (be_codec e) (bi_deny io 0) (bs_tree s deny_file) of
              Inl err \<Rightarrow> ''Couldn'' @ [CHR 0x27] @ ''t read the revocation list '' @ em_dash @ '' check the logs.''
            | Inr es \<Rightarrow> revoked_list_text (be_texts e) es)], s)
      else case validate_client_name nm of
        Some err \<Rightarrow> ([Reply chat (''Can'' @ [CHR 0x27] @ ''t use that name ('' @ name_err_text err @ ''). Usage: /'' @ cmd
                       @ '' <client-name>'')], s)
      | None \<Rightarrow>
          (if cmd = ''unrevoke'' then handle_unrevoke e io chat nm s
           else case revoke_certificates e io nm s of
             (cert_msg, cert_found, s1) \<Rightarrow>
          (case revoke_vless e io nm s1 of
             (vless_msg, vless_found, s2) \<Rightarrow>
               (if \<not> cert_found \<and> \<not> vless_found
                then ([Reply chat (''No client named '' @ go_quote nm @ '' has access '' @ em_dash @ '' nothing to revoke.'')], s2)
                else ([Reply chat (join newline (filter (\<lambda>t. t \<noteq> []) [cert_msg, vless_msg]))], s2)))))"

section \<open>A message\<close>

definition owner_in_private :: "('k, 'p) bot_env \<Rightarrow> message \<Rightarrow> bool" where
  "owner_in_private e m \<longleftrightarrow> be_owner e \<noteq> 0 \<and> tu_id (ms_from m) = be_owner e \<and> tc_private (ms_chat m)"

text \<open>What a redeemed token buys: profile, link, and the menu of installers.\<close>

definition serve_grant ::
    "('k, 'p) bot_env \<Rightarrow> 'k bot_io \<Rightarrow> message \<Rightarrow> string \<Rightarrow> grant \<Rightarrow> string \<Rightarrow> bot_state \<Rightarrow> sent list \<times> bot_state" where
  "serve_grant e io m nm g who s =
     (let chat = tc_id (ms_chat m);
          missing = covers_vless g \<and> \<not> vless_enabled e;
          out0 = (if missing then notify_owner (be_owner e) (''the invite for '' @ go_quote nm
                    @ '' asked for VLESS access, but this node has no VLESS service configured'') else [])
      in if missing \<and> \<not> covers_profile g
         then (out0 @ [Reply chat (owner_notified_text (be_owner e) (''Sorry '' @ em_dash @ '' that invite can'' @ [CHR 0x27]
                 @ ''t be completed here.''))], s)
         else
           (case (if covers_profile g then issue_profile e io m nm who s else (True, [], s)) of
              (served, out1, s1) \<Rightarrow>
                (if \<not> served then (out0 @ out1, s1)
                 else
                   (case (if covers_vless g \<and> vless_enabled e then issue_vless e io m nm who s1 else (True, [], s1)) of
                      (served2, out2, s2) \<Rightarrow>
                        (if \<not> served2 then (out0 @ out1 @ out2, s2)
                         else (out0 @ out1 @ out2
                             @ (if covers_profile g \<and> be_installers e \<noteq> []
                                then (case installer_keyboard io of
                                        None \<Rightarrow> []
                                      | Some row \<Rightarrow> [Menu chat ''Now grab the vpn.io app for your system:'' row])
                                else []), s2))))))"

definition handle_token ::
    "('k, 'p) bot_env \<Rightarrow> 'k bot_io \<Rightarrow> message \<Rightarrow> bot_state \<Rightarrow> sent list \<times> bot_state" where
  "handle_token e io m s =
     (let chat = tc_id (ms_chat m); owner = be_owner e; t = trim_space (ms_body m); who = user_label (ms_from m) in
      if \<not> redeemable_chat (Some (ms_chat m)) then ([], s)
      else if length t > max_token_len
      then ([Reply chat (''That doesn'' @ [CHR 0x27] @ ''t look like an invite token. Send the token the owner gave you.'')], s)
      else case redeem_invite (be_codec e) (bi_invites io) (be_ttl e) (bi_now io) t who (bs_invites s) of
        (Inl err, f) \<Rightarrow>
          (if err = InviteNotFound
           then [Reply chat ''That invite is invalid or already used. Ask the owner for a new one.'']
           else notify_owner owner (''couldn'' @ [CHR 0x27] @ ''t redeem an invite token from '' @ who @ '': ''
                  @ bt_invite (be_texts e) err)
                @ [Reply chat (owner_notified_text owner (''Sorry '' @ em_dash @ '' something went wrong on our side.''))],
           s\<lparr>bs_invites := f\<rparr>)
      | (Inr tok, f) \<Rightarrow> serve_grant e io m (tk_client tok) (token_grants tok) who (s\<lparr>bs_invites := f\<rparr>))"

definition handle_message ::
    "('k, 'p) bot_env \<Rightarrow> 'k bot_io \<Rightarrow> message \<Rightarrow> bot_state \<Rightarrow> sent list \<times> bot_state" where
  "handle_message e io m s =
     (let chat = tc_id (ms_chat m); cmd = ms_command m; owns = owner_in_private e m;
          greeting = ([Reply chat help_text], s)
      in if trim_space (ms_body m) = [] then ([], s)
         else if cmd = ''start'' \<or> cmd = ''help'' then greeting
         else if cmd = ''whoami''
         then ([Reply chat (''Your Telegram ID is '' @ int_str (tu_id (ms_from m)) @ ''.'')], s)
         else if cmd = ''invite'' then (if owns then handle_invite e io m s else greeting)
         else if cmd = ''revoke'' \<or> cmd = ''unrevoke'' \<or> cmd = ''revoked''
         then (if owns then handle_revoke_command e io m s else greeting)
         else if cmd = ''vless'' then (if owns then (handle_vless_list e io m s, s) else greeting)
         else if cmd = ''invites'' then (if owns then (handle_invites_command e io m s, s) else greeting)
         else handle_token e io m s)"

section \<open>The command line\<close>

datatype serve_err =
    TelegramTokenMissing
  | ServerMissing
  | InstallersNotDir string
  | WatchNeedsOwner
  | VlessDirFails string vless_err
  | CaLoadFails ca_err
  | TelegramFails string

record serve_flags =
  sf_telegram_token :: string
  sf_server :: string
  sf_server_name :: string
  sf_installers :: string
  sf_owner :: int
  sf_invite_ttl :: int
  sf_vless_dir :: string
  sf_vless_unit :: string
  sf_watch :: string

text \<open>The checks before the bot goes online: the variable \<open>TELEGRAM_TOKEN\<close>, whether the path of the installers is a
  directory, the VLESS files, the directory of the authority and what connecting to Telegram gave.\<close>

definition serve_setup ::
    "'k ca_lib \<Rightarrow> 'p x509_lib \<Rightarrow> time_codec \<Rightarrow> bot_texts \<Rightarrow> (string \<Rightarrow> string \<Rightarrow> bool) \<Rightarrow> serve_flags \<Rightarrow> string \<Rightarrow> bool
     \<Rightarrow> vio \<Rightarrow> vdisk \<Rightarrow> ca_io \<Rightarrow> tree \<Rightarrow> string option \<Rightarrow> serve_err + ('k, 'p) bot_env" where
  "serve_setup L X tc T eqf fl env_token installers_dir vio d cio fs telegram =
     (if (if sf_telegram_token fl = [] then env_token else sf_telegram_token fl) = [] then Inl TelegramTokenMissing
      else if sf_server fl = [] then Inl ServerMissing
      else if sf_installers fl \<noteq> [] \<and> \<not> installers_dir then Inl (InstallersNotDir (sf_installers fl))
      else if sf_watch fl \<noteq> [] \<and> sf_owner fl = 0 then Inl WatchNeedsOwner
      else rbind (if sf_vless_dir fl = [] then Inr ()
                  else case load_node vio d of Inl e \<Rightarrow> Inl (VlessDirFails (sf_vless_dir fl) e) | Inr n \<Rightarrow> Inr ())
        (\<lambda>u. case ca_load L cio fs of
           Inl e \<Rightarrow> Inl (CaLoadFails e)
         | Inr a \<Rightarrow>
             (case telegram of
                Some e \<Rightarrow> Inl (TelegramFails e)
              | None \<Rightarrow>
                  Inr \<lparr>be_ca = a, be_ca_lib = L, be_x509 = X, be_codec = tc, be_texts = T, be_eqf = eqf,
                    be_ttl = sf_invite_ttl fl, be_vless = (sf_vless_dir fl \<noteq> []), be_unit = sf_vless_unit fl,
                    be_server = sf_server fl, be_server_name = sf_server_name fl,
                    be_installers = sf_installers fl, be_owner = sf_owner fl\<rparr>)))"

datatype token_cmd_err = TokenName name_err | TokenGrant string | TokenStore invite_err

definition cmd_token ::
    "time_codec \<Rightarrow> file_io \<Rightarrow> int \<Rightarrow> string + string \<Rightarrow> string \<Rightarrow> string \<Rightarrow> disk_file
     \<Rightarrow> (token_cmd_err + string) \<times> disk_file" where
  "cmd_token tc io now rand nm grant_raw f =
     (case validate_client_name nm of
        Some err \<Rightarrow> (Inl (TokenName err), f)
      | None \<Rightarrow>
     (case parse_grant grant_raw of
        None \<Rightarrow> (Inl (TokenGrant grant_raw), f)
      | Some g \<Rightarrow>
     (case generate_invite tc io default_invite_ttl now rand nm g f of
        (Inl err, f1) \<Rightarrow> (Inl (TokenStore err), f1)
      | (Inr tok, f1) \<Rightarrow>
          (Inr (''Invite token for '' @ go_quote nm @ '':'' @ newline @ newline @ ''  '' @ tk_value tok @ newline @ newline
             @ ''Send it to the person; they message it to the bot to receive their profile.'' @ newline), f1))))"

definition cmd_list :: "time_codec \<Rightarrow> bot_texts \<Rightarrow> file_io \<Rightarrow> int \<Rightarrow> disk_file \<Rightarrow> invite_err + string" where
  "cmd_list tc T io now f =
     (case list_invites tc io f of
        Inl e \<Rightarrow> Inl e | Inr ts \<Rightarrow> Inr (format_invite_list T ts default_invite_ttl now))"

section \<open>The loop\<close>

text \<open>One answer of \<open>GetUpdates\<close> after the other: an error, or a batch of updates with their identifiers. A
  cancelled context ends the loop between any two events.\<close>

datatype 'u poll_event = Forward int 'u | Backoff int | GiveUp nat string

fun forward_batch :: "int \<Rightarrow> (int \<times> 'u) list \<Rightarrow> 'u poll_event list \<times> int" where
  "forward_batch off [] = ([], off)"
| "forward_batch off ((i, u) # us) =
     (if i < off then forward_batch off us
      else case forward_batch (i + 1) us of (es, off') \<Rightarrow> (Forward i u # es, off'))"

fun poll_updates :: "int \<Rightarrow> nat \<Rightarrow> (string + (int \<times> 'u) list) list \<Rightarrow> 'u poll_event list" where
  "poll_updates off failures [] = []"
| "poll_updates off failures (Inl e # rs) =
     (if failures + 1 \<ge> max_poll_failures then [GiveUp (failures + 1) e]
      else Backoff poll_backoff # poll_updates off (failures + 1) rs)"
| "poll_updates off failures (Inr us # rs) =
     (case forward_batch off us of (es, off') \<Rightarrow> es @ poll_updates off' 0 rs)"

text \<open>What the main loop does with an update.\<close>

datatype update =
    CallbackUpdate "int option" string
  | MessageUpdate message
  | OtherUpdate

fun handle_update ::
    "('k, 'p) bot_env \<Rightarrow> 'k bot_io \<Rightarrow> update \<Rightarrow> bot_state \<Rightarrow> sent list \<times> bot_state" where
  "handle_update e io (CallbackUpdate chat data) s = (handle_callback io (be_installers e) chat data, s)"
| "handle_update e io (MessageUpdate m) s = handle_message e io m s"
| "handle_update e io OtherUpdate s = ([], s)"

fun bot_run ::
    "('k, 'p) bot_env \<Rightarrow> ('k bot_io \<times> update) list \<Rightarrow> bot_state \<Rightarrow> sent list \<times> bot_state" where
  "bot_run e [] s = ([], s)"
| "bot_run e ((io, u) # us) s =
     (case handle_update e io u s of (out, s1) \<Rightarrow>
        (case bot_run e us s1 of (outs, s2) \<Rightarrow> (out @ outs, s2)))"

end
