(* ===== verification/Onboarding.thy ===== *)
theory Onboarding
  imports Bot
begin

text \<open>
  What the bot of the theory \<open>Bot\<close> promises: credentials leave it in private chats only and are paid for
  by tokens the owner minted, a name that is minted can be issued, a revocation reaches every certificate of
  a name, and what a person receives is a profile the app imports.
\<close>

section \<open>Lemmas\<close>

lemma path_base_no_slash:
  assumes "slash \<notin> set nm" and "nm \<noteq> []"
  shows "path_base nm = nm"
proof -
  have d: "dropWhile (\<lambda>c. c = slash) (rev nm) = rev nm"
    using assms by (cases nm rule: rev_cases) auto
  have t: "takeWhile (\<lambda>c. c \<noteq> slash) (rev nm) = rev nm"
    using assms(1) by (intro takeWhile_eq_all_conv [THEN iffD2]) auto
  show ?thesis using assms(2) by (simp add: path_base_def strip_slashes_def Let_def d t)
qed

lemma validate_check_name:
  assumes "validate_client_name nm = None"
  shows "check_client_name nm"
proof -
  have "nm \<noteq> []" "nm \<noteq> ''.''" "nm \<noteq> ''..''" "slash \<notin> set nm"
    using assms by (auto simp: validate_client_name_def slash_def split: if_splits)
  then show ?thesis using path_base_no_slash [of nm] unfolding check_client_name_def by metis
qed

text \<open>The texts are long; nothing here looks into them.\<close>

declare append_Cons [simp del] append_Nil [simp del]

fun is_credential :: "sent \<Rightarrow> bool" where
  "is_credential (Document c n b t) = True"
| "is_credential (Secret c t) = True"
| "is_credential x = False"

text \<open>Every credential among what is sent goes to one chat.\<close>

definition credentials_to :: "int \<Rightarrow> sent list \<Rightarrow> bool" where
  "credentials_to c out \<longleftrightarrow> list_all (\<lambda>x. is_credential x \<longrightarrow> sent_to x = c) out"

lemma credentials_to_simps [simp]:
  "credentials_to c []"
  "credentials_to c (x # out) \<longleftrightarrow> (is_credential x \<longrightarrow> sent_to x = c) \<and> credentials_to c out"
  "credentials_to c (out @ out') \<longleftrightarrow> credentials_to c out \<and> credentials_to c out'"
  "credentials_to c (notify_owner owner t)"
  by (auto simp: credentials_to_def notify_owner_def)

lemma credentials_none: "list_ex is_credential (notify_owner owner t) = False"
  by (simp add: notify_owner_def)

lemma issue_profile_frame:
  assumes "issue_profile e io m nm who s = (b, out, s')"
  shows "bs_invites s' = bs_invites s \<and> bs_vless s' = bs_vless s \<and> credentials_to (tc_id (ms_chat m)) out"
proof (cases "issue_bundle e io nm (bs_tree s)")
  case (Pair r fs)
  with assms show ?thesis
    by (cases r; cases "bi_document io") (auto simp: issue_profile_def Let_def)
qed

lemma issue_vless_frame:
  assumes "issue_vless e io m nm who s = (b, out, s')"
  shows "bs_invites s' = bs_invites s \<and> bs_tree s' = bs_tree s \<and> credentials_to (tc_id (ms_chat m)) out"
proof (cases "add_client (be_eqf e) (bi_vless io) (bi_uuid io) (bi_short_id io) (bi_created io) nm (bs_vless s)")
  case (Pair r d)
  show ?thesis
  proof (cases r)
    case (Inl err)
    with Pair assms show ?thesis by (auto simp: issue_vless_def Let_def)
  next
    case (Inr c)
    with Pair assms show ?thesis
      by (cases "rbind (load_node (bi_vless_node io) d) (\<lambda>n. vless_link n c)"; cases "confirm_applied e io")
        (auto simp: issue_vless_def Let_def)
  qed
qed

lemma serve_grant_frame:
  assumes "serve_grant e io m nm g who s = (out, s')"
  shows "bs_invites s' = bs_invites s \<and> credentials_to (tc_id (ms_chat m)) out"
proof -
  obtain b1 out1 s1 where 1: "(if covers_profile g then issue_profile e io m nm who s else (True, [], s)) = (b1, out1, s1)"
    by (metis prod_cases3)
  obtain b2 out2 s2 where 2: "(if covers_vless g \<and> vless_enabled e then issue_vless e io m nm who s1 else (True, [], s1))
      = (b2, out2, s2)" by (metis prod_cases3)
  have "bs_invites s1 = bs_invites s \<and> credentials_to (tc_id (ms_chat m)) out1"
    using 1 by (auto split: if_splits dest: issue_profile_frame)
  moreover have "bs_invites s2 = bs_invites s1 \<and> credentials_to (tc_id (ms_chat m)) out2"
    using 2 by (auto split: if_splits dest: issue_vless_frame)
  ultimately show ?thesis
    using assms unfolding serve_grant_def Let_def 1 prod.case 2
    by (auto split: if_splits option.splits)
qed

text \<open>What a text that is no command comes to.\<close>

lemma handle_token_cases:
  assumes "handle_token e io m s = (out, s')"
  obtains (nothing) "s' = s" "\<not> list_ex is_credential out"
  | (refused) err where
      "redeem_invite (be_codec e) (bi_invites io) (be_ttl e) (bi_now io) (trim_space (ms_body m))
        (user_label (ms_from m)) (bs_invites s) = (Inl err, bs_invites s')"
      "s' = s\<lparr>bs_invites := bs_invites s'\<rparr>" "\<not> list_ex is_credential out" "tc_private (ms_chat m)"
  | (redeemed) tok f where
      "redeem_invite (be_codec e) (bi_invites io) (be_ttl e) (bi_now io) (trim_space (ms_body m))
        (user_label (ms_from m)) (bs_invites s) = (Inr tok, f)"
      "serve_grant e io m (tk_client tok) (token_grants tok) (user_label (ms_from m)) (s\<lparr>bs_invites := f\<rparr>) = (out, s')"
      "tc_private (ms_chat m)"
proof -
  let ?r = "redeem_invite (be_codec e) (bi_invites io) (be_ttl e) (bi_now io) (trim_space (ms_body m))
        (user_label (ms_from m)) (bs_invites s)"
  obtain res f where r: "?r = (res, f)" by fastforce
  consider "\<not> tc_private (ms_chat m)" | "length (trim_space (ms_body m)) > max_token_len"
    | "tc_private (ms_chat m)" "length (trim_space (ms_body m)) \<le> max_token_len" by linarith
  then show thesis
  proof cases
    case 1
    show thesis
      by (rule nothing) (use assms 1 in \<open>auto simp: handle_token_def redeemable_chat_def Let_def\<close>)
  next
    case 2
    show thesis
      by (rule nothing) (use assms 2 in \<open>auto simp: handle_token_def redeemable_chat_def Let_def split: if_splits\<close>)
  next
    case 3
    show thesis
    proof (cases res)
      case (Inl err)
      show thesis
        by (rule refused [of err]) (use assms r 3 Inl in \<open>auto simp: handle_token_def redeemable_chat_def Let_def credentials_none split: if_splits\<close>)
    next
      case (Inr tok)
      show thesis
        by (rule redeemed [of tok f]) (use assms r 3 Inr in \<open>auto simp: handle_token_def redeemable_chat_def Let_def\<close>)
    qed
  qed
qed

lemma revoke_certificates_frame:
  "revoke_certificates e io nm s = (t, found, s') \<Longrightarrow> bs_invites s' = bs_invites s \<and> bs_vless s' = bs_vless s"
  by (auto simp: revoke_certificates_def split: sum.splits prod.splits if_splits)

lemma revoke_vless_frame:
  "revoke_vless e io nm s = (t, found, s') \<Longrightarrow> bs_invites s' = bs_invites s \<and> bs_tree s' = bs_tree s"
  by (auto simp: revoke_vless_def split: sum.splits prod.splits if_splits)

lemma handle_revoke_frame:
  assumes "handle_revoke_command e io m s = (out, s')"
  shows "bs_invites s' = bs_invites s \<and> \<not> list_ex is_credential out"
  using assms
  by (auto simp: handle_revoke_command_def handle_unrevoke_def Let_def split: prod.splits sum.splits option.splits if_splits
      dest!: revoke_certificates_frame revoke_vless_frame)

lemma handle_invite_cases:
  assumes "handle_invite e io m s = (out, s')"
  obtains (refused) "s' = s" "\<not> list_ex is_credential out"
  | (tried) nm g res where "validate_client_name nm = None"
      "generate_invite (be_codec e) (bi_invites io) (be_ttl e) (bi_now io) (bi_token io) nm g (bs_invites s)
        = (res, bs_invites s')" "s' = s\<lparr>bs_invites := bs_invites s'\<rparr>"
      "\<forall>x \<in> set out. sent_to x = tc_id (ms_chat m)"
  using assms that
  by (auto simp: handle_invite_def Let_def split: option.splits if_splits sum.splits prod.splits)

text \<open>Whether a message may mint the value \<open>v\<close>.\<close>

definition mints :: "('k, 'p) bot_env \<Rightarrow> 'k bot_io \<Rightarrow> message \<Rightarrow> string \<Rightarrow> bool" where
  "mints e io m v \<longleftrightarrow> owner_in_private e m \<and> ms_command m = ''invite'' \<and> bi_token io = Inr v"

text \<open>Whether a message with the text \<open>v\<close> was answered with a credential.\<close>

definition buys :: "message \<Rightarrow> sent list \<Rightarrow> string \<Rightarrow> bool" where
  "buys m out v \<longleftrightarrow> trim_space (ms_body m) = v \<and> ms_command m \<noteq> ''invite'' \<and> list_ex is_credential out"

lemma generate_value: "generate_invite tc io ttl now rand nm g f = (Inr t, f') \<Longrightarrow> rand = Inr (tk_value t)"
  by (auto simp: generate_invite_def Let_def split: if_splits sum.splits option.splits prod.splits)

lemma handle_message_cases:
  assumes "handle_message e io m s = (out, s')"
  obtains (quiet) "bs_invites s' = bs_invites s" "\<not> list_ex is_credential out"
      "\<not> tc_private (ms_chat m) \<Longrightarrow> s' = s \<and> (out = [] \<or> out = [Reply (tc_id (ms_chat m)) help_text]
        \<or> out = [Reply (tc_id (ms_chat m)) (''Your Telegram ID is '' @ int_str (tu_id (ms_from m)) @ ''.'')])"
  | (invite) "owner_in_private e m" "ms_command m = ''invite''" "handle_invite e io m s = (out, s')"
  | (other) "ms_command m \<noteq> ''invite''" "handle_token e io m s = (out, s')"
proof -
  have priv: "tc_private (ms_chat m)" if "owner_in_private e m" using that by (simp add: owner_in_private_def)
  show thesis
  proof (cases "owner_in_private e m \<and> ms_command m = ''invite'' \<and> trim_space (ms_body m) \<noteq> []")
    case True
    show thesis by (rule invite) (use True assms in \<open>auto simp: handle_message_def Let_def\<close>)
  next
    case no_invite: False
    show thesis
    proof (cases "owner_in_private e m \<and> ms_command m \<in> {''revoke'', ''unrevoke'', ''revoked''} \<and> trim_space (ms_body m) \<noteq> []")
      case True
      with assms have "handle_revoke_command e io m s = (out, s')" by (auto simp: handle_message_def Let_def)
      with handle_revoke_frame [OF this] priv True show thesis by (intro quiet) auto
    next
      case no_revoke: False
      show thesis
      proof (cases "trim_space (ms_body m) = []
          \<or> ms_command m \<in> {''start'', ''help'', ''whoami'', ''invite'', ''revoke'', ''unrevoke'', ''revoked'', ''vless'', ''invites''}")
        case True
        show thesis
          by (rule quiet) (use assms True no_invite no_revoke priv in
            \<open>auto simp: handle_message_def Let_def handle_vless_list_def handle_invites_command_def split: if_splits\<close>)
      next
        case False
        show thesis by (rule other) (use assms False in \<open>auto simp: handle_message_def Let_def\<close>)
      qed
    qed
  qed
qed

lemma handle_message_live:
  assumes "handle_message e io m s = (out, s')" and "codec_ok (be_codec e)"
  shows "live (be_codec e) v (bs_invites s') + of_bool (buys m out v)
    \<le> live (be_codec e) v (bs_invites s) + of_bool (mints e io m v)"
  using assms(1)
proof (cases rule: handle_message_cases)
  case quiet
  then show ?thesis by (simp add: buys_def)
next
  case invite
  from invite(3) show ?thesis
  proof (cases rule: handle_invite_cases)
    case refused
    then show ?thesis by (simp add: buys_def)
  next
    case (tried nm g res)
    have "bi_token io = Inr (tk_value t)" if "res = Inr t" for t
      using tried(2) that by (auto intro: generate_value)
    with generate_live [OF tried(2) assms(2), of v] invite show ?thesis
      by (cases res) (auto simp: buys_def mints_def split: if_splits)
  qed
next
  case other
  from other(2) show ?thesis
  proof (cases rule: handle_token_cases)
    case nothing
    then show ?thesis by (simp add: buys_def)
  next
    case (refused err)
    from redeem_live [OF refused(1) assms(2), of v] refused(3) show ?thesis by (simp add: buys_def)
  next
    case (redeemed tok f)
    from redeem_live [OF redeemed(1) assms(2), of v] serve_grant_frame [OF redeemed(2)] show ?thesis
      by (auto simp: buys_def)
  qed
qed

text \<open>What a run of the bot sells for a text, and how often it was minted meanwhile.\<close>

fun bought :: "('k, 'p) bot_env \<Rightarrow> string \<Rightarrow> ('k bot_io \<times> update) list \<Rightarrow> bot_state \<Rightarrow> nat" where
  "bought e v [] s = 0"
| "bought e v ((io, u) # us) s =
     (case handle_update e io u s of (out, s1) \<Rightarrow>
        (case u of MessageUpdate m \<Rightarrow> of_bool (buys m out v) | _ \<Rightarrow> 0) + bought e v us s1)"

fun minted :: "('k, 'p) bot_env \<Rightarrow> string \<Rightarrow> ('k bot_io \<times> update) list \<Rightarrow> nat" where
  "minted e v [] = 0"
| "minted e v ((io, u) # us) = (case u of MessageUpdate m \<Rightarrow> of_bool (mints e io m v) | _ \<Rightarrow> 0) + minted e v us"

text \<open>Names the authority accepts, in every token that can be loaded.\<close>

definition names_ok :: "time_codec \<Rightarrow> disk_file \<Rightarrow> bool" where
  "names_ok tc f \<longleftrightarrow> (\<forall>io ts. load_tokens tc io f = Inr ts \<longrightarrow> list_all (\<lambda>t. check_client_name (tk_client t)) ts)"

lemma save_names_ok:
  assumes "save_tokens tc io ts f = (None, f')" and "codec_ok tc" and "list_all (\<lambda>t. check_client_name (tk_client t)) ts"
  shows "names_ok tc f'"
  unfolding names_ok_def load_tokens_def
proof (intro allI impI)
  fix io' us
  assume "load_or_empty max_store_bytes (tokens_of_json tc) [] io' f' = Inr us"
  with inv.load_saved_cases [OF assms(1) [unfolded save_tokens_def] assms(2), of max_store_bytes "[]" io'] assms(3)
  show "list_all (\<lambda>t. check_client_name (tk_client t)) us" by auto
qed

lemma generate_names_ok:
  assumes "generate_invite tc io ttl now rand nm g f = (res, f')" and "codec_ok tc" and "names_ok tc f"
    and "check_client_name nm"
  shows "names_ok tc f'"
proof (cases res)
  case (Inl e)
  with assms(1) have "f' = f"
    by (auto simp: generate_invite_def Let_def split: if_splits sum.splits option.splits prod.splits
        dest: save_tokens_failed)
  with assms(3) show ?thesis by simp
next
  case (Inr tok)
  with assms(1) obtain ts where ts: "load_tokens tc io f = Inr ts" and tok: "tk_client tok = nm"
    and s: "save_tokens tc io (prune_expired ts ttl now @ [tok]) f = (None, f')"
    by (auto simp: generate_invite_def Let_def split: if_splits sum.splits option.splits prod.splits)
  have "list_all (\<lambda>t. check_client_name (tk_client t)) (prune_expired ts ttl now @ [tok])"
    using ts assms(3,4) tok by (auto simp: names_ok_def prune_expired_def list_all_iff)
  with save_names_ok [OF s assms(2)] show ?thesis by simp
qed

lemma redeem_names_ok:
  assumes "redeem_invite tc io ttl now v by f = (res, f')" and "codec_ok tc" and "names_ok tc f"
  shows "names_ok tc f' \<and> (\<forall>tok. res = Inr tok \<longrightarrow> check_client_name (tk_client tok))"
  using assms(1)
proof (cases rule: redeem_cases)
  case (error e)
  with assms(3) show ?thesis by simp
next
  case (redeemed ts r ts')
  from redeem_scan_Some [OF redeemed(2)] obtain i where i: "i < length ts" "r = spend by now (ts ! i)" "ts' = ts[i := r]"
    by blast
  have all: "list_all (\<lambda>t. check_client_name (tk_client t)) ts" using redeemed(1) assms(3) by (auto simp: names_ok_def)
  with i have r: "check_client_name (tk_client r)" by (simp add: spend_def list_all_length)
  with all i have "list_all (\<lambda>t. check_client_name (tk_client t)) ts'"
    by (auto simp: list_all_iff dest: set_update_subset_insert [THEN subsetD])
  with save_names_ok [OF redeemed(3) assms(2)] r redeemed(4) show ?thesis by simp
qed

lemma handle_message_names_ok:
  assumes "handle_message e io m s = (out, s')" and "codec_ok (be_codec e)" and "names_ok (be_codec e) (bs_invites s)"
  shows "names_ok (be_codec e) (bs_invites s')"
  using assms(1)
proof (cases rule: handle_message_cases)
  case quiet
  with assms(3) show ?thesis by simp
next
  case invite
  from invite(3) show ?thesis
  proof (cases rule: handle_invite_cases)
    case refused
    with assms(3) show ?thesis by simp
  next
    case (tried nm g res)
    from generate_names_ok [OF tried(2) assms(2,3) validate_check_name [OF tried(1)]] show ?thesis .
  qed
next
  case other
  from other(2) show ?thesis
  proof (cases rule: handle_token_cases)
    case nothing
    with assms(3) show ?thesis by simp
  next
    case (refused err)
    from redeem_names_ok [OF refused(1) assms(2,3)] show ?thesis by simp
  next
    case (redeemed tok f)
    from redeem_names_ok [OF redeemed(1) assms(2,3)] serve_grant_frame [OF redeemed(2)] show ?thesis by simp
  qed
qed

text \<open>No failure of issuing is about a name the authority accepts.\<close>

lemma issue_client_name:
  assumes "check_client_name nm"
  shows "fst (issue_client L tc io now key serial a nm fs) \<noteq> Some (InvalidName x)"
proof -
  have d: "fst (deny_all tc ios now nm i ss fs1) \<noteq> Some (InvalidName x)" for ios i ss fs1
    by (induction ss arbitrary: i fs1) (auto split: sum.splits prod.splits)
  have l: "ledger_scan nm es seen \<noteq> Inl (InvalidName x)" for es seen
    by (induction es arbitrary: seen) (auto simp: rbind_Inl_iff split: option.splits)
  have "client_serials L tc io nm fs \<noteq> Inl (InvalidName x)"
    using assms l by (auto simp: client_serials_def client_serial_def read_cert_def read_file_def parse_cert_def rbind_Inl_iff
        split: sum.splits option.splits if_splits)
  then have "fst (revoke_superseded L tc io now nm fs) \<noteq> Some (InvalidName x)"
    using d by (auto simp: revoke_superseded_def split: sum.splits)
  then show ?thesis using assms
    by (auto simp: issue_client_def base_template_def append_issued_def save_ledger_def issue_to_def write_key_def
        write_cert_def write_file_atomic_def Let_def split: sum.splits option.splits prod.splits)
qed

section \<open>A sample deployment\<close>

definition sample_bot_lib :: "unit ca_lib" where
  "sample_bot_lib = sample_lib\<lparr>xl_sign := (\<lambda>t p k sk. Inr ''C'')\<rparr>"

definition sample_bot_texts :: bot_texts where
  "sample_bot_texts = \<lparr>bt_invite = (\<lambda>e. ''invite''), bt_bundle = (\<lambda>e. ''bundle''), bt_vless = (\<lambda>e. ''vless''),
     bt_date = (\<lambda>t. ''2025-01-01'')\<rparr>"

definition sample_bot :: "(unit, string) bot_env" where
  "sample_bot = \<lparr>be_ca = sample_authority, be_ca_lib = sample_bot_lib, be_x509 = sample_x509, be_codec = no_codec,
     be_texts = sample_bot_texts, be_eqf = equal_fold, be_ttl = 0, be_vless = False, be_unit = [],
     be_server = ''vpn.io:8443'', be_server_name = [], be_installers = [], be_owner = 7\<rparr>"

definition sample_bot_io :: "unit bot_io" where
  "sample_bot_io = \<lparr>bi_now = 5, bi_invites = io_fine, bi_token = Inr ''k8'', bi_ca = ca_io_fine, bi_key = Inr (),
     bi_serial = Inr 1, bi_deny = (\<lambda>i. io_fine), bi_vless = vio_fine, bi_uuid = Inr [], bi_short_id = Inr [],
     bi_created = [], bi_vless_node = vio_fine, bi_polls = (\<lambda>i. (Inr ''active'', 0, False)), bi_document = None,
     bi_glob = (\<lambda>p. [])\<rparr>"

definition sample_store_text :: string where
  "sample_store_text = json_marshal_indent (tokens_json no_codec [sample_token])"

definition sample_bot_state :: bot_state where
  "sample_bot_state = \<lparr>bs_invites = Some sample_store_text, bs_tree = Map.empty(''ca.crt'' \<mapsto> ''CA''),
     bs_vless = \<lparr>vd_node = None, vd_clients = None, vd_config = None\<rparr>\<rparr>"

definition private_message :: "int \<Rightarrow> string \<Rightarrow> string \<Rightarrow> string \<Rightarrow> message" where
  "private_message sender body cmd args =
     \<lparr>ms_from = \<lparr>tu_id = sender, tu_user_name = ''ann'', tu_first_name = []\<rparr>,
      ms_chat = \<lparr>tc_id = sender, tc_private = True\<rparr>, ms_body = body, ms_command = cmd, ms_arguments = args\<rparr>"

definition redeem_message :: message where "redeem_message = private_message 3 '' k7 '' [] []"

section \<open>Properties\<close>

text \<open>Nothing leaves in a group: outside a private chat the bot never changes a store, whoever writes what,
  and says nothing but the greeting or the identifier of the sender.\<close>

theorem group_chat_harmless:
  assumes "handle_message e io m s = (out, s')" and "\<not> tc_private (ms_chat m)"
  shows "s' = s \<and> (out = [] \<or> out = [Reply (tc_id (ms_chat m)) help_text]
    \<or> out = [Reply (tc_id (ms_chat m)) (''Your Telegram ID is '' @ int_str (tu_id (ms_from m)) @ ''.'')])"
  using assms(1)
proof (cases rule: handle_message_cases)
  case quiet
  then show ?thesis using assms(2) by blast
next
  case invite
  then show ?thesis using assms(2) by (simp add: owner_in_private_def)
next
  case other
  then show ?thesis using assms(2) by (simp add: handle_token_def redeemable_chat_def Let_def)
qed

text \<open>(C23) Every access is paid for: whatever messages the bot gets in whatever order, and whatever fails, a text
  is answered with a profile or a link at most as often as the owner minted it in a private chat,
  counting the unspent tokens there were; a stranger can mint none.\<close>

theorem access_paid_for:
  assumes "codec_ok (be_codec e)"
  shows "bought e v us s \<le> live (be_codec e) v (bs_invites s) + minted e v us"
proof (induction us arbitrary: s)
  case (Cons x us)
  obtain io u where x: "x = (io, u)" by fastforce
  obtain out s1 where h: "handle_update e io u s = (out, s1)" by fastforce
  show ?case
  proof (cases u)
    case (MessageUpdate m)
    with h have "handle_message e io m s = (out, s1)" by simp
    from handle_message_live [OF this assms, of v] Cons.IH [of s1] h MessageUpdate x show ?thesis by simp
  qed (use Cons.IH [of s1] h x in auto)
qed simp

theorem access_paid_for_witness:
  "bought sample_bot ''k7'' [(sample_bot_io, MessageUpdate redeem_message), (sample_bot_io, MessageUpdate redeem_message)]
    sample_bot_state \<le> 1"
proof -
  let ?us = "[(sample_bot_io, MessageUpdate redeem_message), (sample_bot_io, MessageUpdate redeem_message)]"
  have c: "codec_ok (be_codec sample_bot)" using no_codec_ok by (simp add: sample_bot_def)
  have "live (be_codec sample_bot) ''k7'' (bs_invites sample_bot_state) = 1"
    using load_tokens_live [OF sample_store, of "''k7''"]
    by (simp add: sample_bot_def sample_bot_state_def sample_store_text_def available_def sample_token_def)
  moreover have "minted sample_bot ''k7'' ?us = 0"
    by (simp add: mints_def redeem_message_def private_message_def)
  ultimately show ?thesis using access_paid_for [OF c, of "''k7''" ?us sample_bot_state] by presburger
qed

text \<open>(C25) A token is not wasted on its name: whatever comes in, every token the bot or the command line writes names
  a client the authority accepts, so that redeeming it cannot fail for the name.\<close>

theorem minted_names_accepted:
  assumes "codec_ok (be_codec e)" and "names_ok (be_codec e) (bs_invites s)" and "bot_run e us s = (out, s')"
    and "redeem_invite (be_codec e) fio ttl now v by (bs_invites s') = (Inr tok, f)"
  shows "fst (issue_client L tc io t key serial a (tk_client tok) fs) \<noteq> Some (InvalidName x)"
proof -
  have "names_ok (be_codec e) (bs_invites s')"
    using assms(2,3)
  proof (induction us arbitrary: s out)
    case (Cons y us)
    obtain yio u where y: "y = (yio, u)" by fastforce
    obtain out1 s1 where h: "handle_update e yio u s = (out1, s1)" by fastforce
    have "names_ok (be_codec e) (bs_invites s1)"
      using h Cons.prems(1) handle_message_names_ok [OF _ assms(1)] by (cases u) auto
    with Cons h y show ?case by (auto split: prod.splits)
  qed simp
  with redeem_names_ok [OF assms(4,1)] have "check_client_name (tk_client tok)" by simp
  then show ?thesis by (rule issue_client_name)
qed

theorem minted_names_accepted_witness:
  "\<exists>tok f. redeem_invite no_codec io_fine 0 6 ''k7'' ''@ann'' (Some sample_store_text) = (Inr tok, f)
    \<and> fst (issue_client sample_lib no_codec ca_io_fine 6 (Inr ()) (Inr 1) sample_authority (tk_client tok) Map.empty)
        \<noteq> Some (InvalidName ''bob'')"
proof -
  have l: "ts = [sample_token]" if "load_tokens no_codec io (Some sample_store_text) = Inr ts" for io ts
    using that sample_store inv.load_holds [OF _ no_codec_ok, of "[]" "[sample_token]" "Some sample_store_text" max_store_bytes io]
    by (simp add: load_tokens_def sample_store_text_def inv.holds_def)
  have n: "names_ok (be_codec sample_bot) (bs_invites sample_bot_state)"
    using bob_name by (auto simp: names_ok_def sample_bot_def sample_bot_state_def sample_token_def dest!: l)
  obtain tok f where r: "redeem_invite no_codec io_fine 0 6 ''k7'' ''@ann'' (Some sample_store_text) = (Inr tok, f)"
    using sample_store
    by (simp add: redeem_invite_def sample_store_text_def io_fine_def sample_token_def token_expired_def save_tokens_def
        save_json_def Let_def)
  have "fst (issue_client sample_lib no_codec ca_io_fine 6 (Inr ()) (Inr 1) sample_authority (tk_client tok) Map.empty)
      \<noteq> Some (InvalidName ''bob'')"
    by (rule minted_names_accepted [OF _ n, of "[]" "[]" sample_bot_state io_fine 0 6 "''k7''" "''@ann''" tok f])
      (use r no_codec_ok in \<open>simp_all add: sample_bot_def sample_bot_state_def\<close>)
  with r show ?thesis by blast
qed

lemma issue_bundle_imports:
  assumes "issue_bundle e io nm fs = (Inr b, fs')"
  shows "\<exists>ca cert key. fs' ''ca.crt'' = Some ca \<and> fs' (client_cert nm) = Some cert \<and> fs' (client_key nm) = Some key
    \<and> (\<forall>t. parse_bundle (be_x509 e) t b = load_pem_endpoints (be_x509 e) t ca cert key
        [\<lparr>pe_server = be_server e, pe_server_name = be_server_name e, pe_label = []\<rparr>])
    \<and> ok (parse_bundle (be_x509 e) (bi_now io) b)"
proof -
  from assms obtain ca cert key where f: "fs' ''ca.crt'' = Some ca" "fs' (client_cert nm) = Some cert"
      "fs' (client_key nm) = Some key"
    and m: "marshal_bundle_endpoints (be_x509 e) (bi_now io) ca cert key
        [\<lparr>pe_server = be_server e, pe_server_name = be_server_name e, pe_label = []\<rparr>] = Inr b"
    by (auto simp: issue_bundle_def read_file_def marshal_bundle_def split: prod.splits option.splits sum.splits)
  from m have "ok (load_pem_endpoints (be_x509 e) (bi_now io) ca cert key
      [\<lparr>pe_server = be_server e, pe_server_name = be_server_name e, pe_label = []\<rparr>])"
    by (auto simp: marshal_bundle_endpoints_def split: sum.splits)
  with parse_marshalled [OF m] f show ?thesis by simp
qed

lemma issue_profile_document:
  assumes "issue_profile e io m nm who s = (r, out, s')" and "Document c n b t \<in> set out"
  shows "n = nm @ ''.vpnio'' \<and> c = tc_id (ms_chat m) \<and> issue_bundle e io nm (bs_tree s) = (Inr b, bs_tree s')"
proof (cases "issue_bundle e io nm (bs_tree s)")
  case (Pair res fs)
  have "Document c n b t \<notin> set (notify_owner (be_owner e) x)" for x by (simp add: notify_owner_def)
  with Pair assms show ?thesis
    by (cases res; cases "bi_document io") (auto simp: issue_profile_def Let_def)
qed

lemma serve_grant_document:
  assumes "serve_grant e io m nm g who s = (out, s')" and "Document c n b t \<in> set out"
  shows "n = nm @ ''.vpnio'' \<and> c = tc_id (ms_chat m) \<and> issue_bundle e io nm (bs_tree s) = (Inr b, bs_tree s')"
proof -
  obtain b1 out1 s1 where 1: "(if covers_profile g then issue_profile e io m nm who s else (True, [], s)) = (b1, out1, s1)"
    by (metis prod_cases3)
  obtain b2 out2 s2 where 2: "(if covers_vless g \<and> vless_enabled e then issue_vless e io m nm who s1 else (True, [], s1))
      = (b2, out2, s2)" by (metis prod_cases3)
  have no: "Document c n b t \<notin> set (notify_owner (be_owner e) x)" for x by (simp add: notify_owner_def)
  have o2: "Document c n b t \<notin> set out2 \<and> bs_tree s2 = bs_tree s1"
    using 2 no by (auto simp: issue_vless_def Let_def split: if_splits sum.splits prod.splits option.splits)
  then have "Document c n b t \<in> set out1 \<and> bs_tree s' = bs_tree s1"
    using assms no unfolding serve_grant_def Let_def 1 prod.case 2 by (auto split: if_splits option.splits)
  with 1 show ?thesis by (auto split: if_splits dest: issue_profile_document)
qed

text \<open>What a person gets can be imported: a bundle the bot sends carries the certificate and the key that lie in
  the authority's directory for the client it is named after, and importing it at any later time gives what
  loading those files for the server of the bot would give then; at the moment of sending it is valid.\<close>

theorem delivered_profile_imports:
  assumes "handle_message e io m s = (out, s')" and "Document c n b t \<in> set out"
  shows "\<exists>nm ca cert key. n = nm @ ''.vpnio'' \<and> c = tc_id (ms_chat m) \<and> tc_private (ms_chat m)
    \<and> bs_tree s' ''ca.crt'' = Some ca \<and> bs_tree s' (client_cert nm) = Some cert \<and> bs_tree s' (client_key nm) = Some key
    \<and> (\<forall>t. parse_bundle (be_x509 e) t b = load_pem_endpoints (be_x509 e) t ca cert key
        [\<lparr>pe_server = be_server e, pe_server_name = be_server_name e, pe_label = []\<rparr>])
    \<and> ok (parse_bundle (be_x509 e) (bi_now io) b)"
proof -
  have cr: "list_ex is_credential out" using assms(2) by (force simp: list_ex_iff)
  from assms(1) show ?thesis
  proof (cases rule: handle_message_cases)
    case quiet
    with cr show ?thesis by simp
  next
    case invite
    have "Document c n b t \<notin> set out"
      using invite(3) by (auto simp: handle_invite_def Let_def split: option.splits if_splits sum.splits prod.splits)
    with assms(2) show ?thesis by simp
  next
    case other
    from other(2) show ?thesis
    proof (cases rule: handle_token_cases)
      case (redeemed tok f)
      from serve_grant_document [OF redeemed(2) assms(2)] redeemed(3)
        issue_bundle_imports [of e io "tk_client tok" _ b "bs_tree s'"] show ?thesis by blast
    qed (use cr in simp_all)
  qed
qed

lemma bob_paths: "client_cert ''bob'' = ''clients/bob.crt''" "client_key ''bob'' = ''clients/bob.key''"
  by code_simp+

lemma sample_bundle:
  "\<exists>b fs. issue_bundle sample_bot sample_bot_io ''bob'' (Map.empty(''ca.crt'' \<mapsto> ''CA'')) = (Inr b, fs)"
proof -
  have i: "issue_client sample_bot_lib no_codec ca_io_fine 5 (Inr ()) (Inr 1) sample_authority ''bob'' (Map.empty(''ca.crt'' \<mapsto> ''CA''))
    = (None, Map.empty(''ca.crt'' \<mapsto> ''CA'', ledger_file \<mapsto> json_marshal_indent (ledger_json no_codec [bob_entry]),
        ''clients/bob.key'' \<mapsto> ''K'', ''clients/bob.crt'' \<mapsto> ''C''))"
    using bob_name bob_paths
    by (simp add: issue_defs ca_io_fine_def sample_bot_lib_def sample_lib_def bob_entry_def load_ledger_def
        load_or_empty_def load_json_def ledger_file_def append_Nil)
  have l: "load_pem_endpoints sample_x509 5 ''CA'' ''C'' ''K'' [sample_addr]
      = Inr \<lparr>pf_server = ''vpn.io:8443'', pf_server_name = ''vpn.io'',
         pf_endpoints = [sample_addr\<lparr>pe_server_name := ''vpn.io''\<rparr>], pf_ca = ''CA'', pf_cert = ''C'',
         pf_key = ''K'', pf_cn = ''bob'', pf_not_after = 9\<rparr>"
    by (simp add: load_pem_endpoints_def sample_valid sample_x509_def) (simp add: sample_addr_def)
  have e: "be_ca_lib sample_bot = sample_bot_lib" "be_codec sample_bot = no_codec" "bi_ca sample_bot_io = ca_io_fine"
    "bi_now sample_bot_io = 5" "bi_key sample_bot_io = Inr ()" "bi_serial sample_bot_io = Inr 1"
    "be_ca sample_bot = sample_authority" "be_x509 sample_bot = sample_x509" "be_server sample_bot = ''vpn.io:8443''"
    "be_server_name sample_bot = []"
    by (simp_all add: sample_bot_def sample_bot_io_def)
  have r: "read_file ca_io_fine p fs = Inr t" if "fs p = Some t" for p fs t
    using that by (simp add: read_file_def ca_io_fine_def)
  show ?thesis unfolding issue_bundle_def e i
    using l by (simp add: r bob_paths ledger_file_def marshal_bundle_def marshal_bundle_endpoints_def sample_addr_def)
qed

lemma sample_sale:
  "\<exists>out s' b t. handle_message sample_bot sample_bot_io redeem_message sample_bot_state = (out, s')
    \<and> Document 3 ''bob.vpnio'' b t \<in> set out"
proof -
  obtain b fs where b: "issue_bundle sample_bot sample_bot_io ''bob'' (Map.empty(''ca.crt'' \<mapsto> ''CA'')) = (Inr b, fs)"
    using sample_bundle by blast
  have t: "trim_space '' k7 '' = ''k7''" by code_simp
  obtain f where r: "redeem_invite no_codec io_fine 0 5 ''k7'' (user_label (ms_from redeem_message)) (Some sample_store_text)
      = (Inr (sample_token\<lparr>tk_value := [], tk_used := True, tk_used_by := user_label (ms_from redeem_message), tk_used_at := 5\<rparr>), f)"
    using sample_store
    by (simp add: redeem_invite_def sample_store_text_def io_fine_def sample_token_def token_expired_def save_tokens_def
        save_json_def Let_def)
  obtain t where p: "issue_profile sample_bot sample_bot_io redeem_message ''bob'' (user_label (ms_from redeem_message))
      (sample_bot_state\<lparr>bs_invites := f\<rparr>)
      = (True, [Document 3 ''bob.vpnio'' b t], sample_bot_state\<lparr>bs_invites := f, bs_tree := fs\<rparr>)"
    using b by (simp add: issue_profile_def Let_def sample_bot_state_def redeem_message_def private_message_def sample_bot_io_def
        append_Cons append_Nil)
  have m: "ms_body redeem_message = '' k7 ''" "ms_command redeem_message = []" "tc_private (ms_chat redeem_message)"
      "be_codec sample_bot = no_codec" "be_ttl sample_bot = 0" "bi_invites sample_bot_io = io_fine"
      "bi_now sample_bot_io = 5" "bs_invites sample_bot_state = Some sample_store_text"
    by (simp_all add: redeem_message_def private_message_def sample_bot_def sample_bot_io_def sample_bot_state_def)
  have "handle_message sample_bot sample_bot_io redeem_message sample_bot_state
      = handle_token sample_bot sample_bot_io redeem_message sample_bot_state"
    by (simp add: handle_message_def m t Let_def)
  also have "\<dots> = serve_grant sample_bot sample_bot_io redeem_message ''bob'' grant_both
      (user_label (ms_from redeem_message)) (sample_bot_state\<lparr>bs_invites := f\<rparr>)"
    by (simp add: handle_token_def redeemable_chat_def max_token_len_def m t r)
      (simp add: sample_token_def token_grants_def grant_both_def)
  finally have h: "handle_message sample_bot sample_bot_io redeem_message sample_bot_state
      = serve_grant sample_bot sample_bot_io redeem_message ''bob'' grant_both
      (user_label (ms_from redeem_message)) (sample_bot_state\<lparr>bs_invites := f\<rparr>)" .
  have g: "covers_profile grant_both" "\<not> vless_enabled sample_bot" "be_installers sample_bot = []"
    by (simp_all add: covers_profile_def vless_enabled_def sample_bot_def)
  show ?thesis unfolding h serve_grant_def Let_def by (auto simp: g p)
qed

theorem delivered_profile_imports_witness:
  "\<exists>out s' b t. handle_message sample_bot sample_bot_io redeem_message sample_bot_state = (out, s')
    \<and> Document 3 ''bob.vpnio'' b t \<in> set out \<and> ok (parse_bundle sample_x509 5 b)"
proof -
  obtain out s' b t where h: "handle_message sample_bot sample_bot_io redeem_message sample_bot_state = (out, s')"
    and d: "Document 3 ''bob.vpnio'' b t \<in> set out" using sample_sale by blast
  from delivered_profile_imports [OF h d] h d show ?thesis by (auto simp: sample_bot_def sample_bot_io_def)
qed

theorem group_chat_harmless_witness:
  "handle_message sample_bot sample_bot_io (redeem_message\<lparr>ms_chat := \<lparr>tc_id = -9, tc_private = False\<rparr>\<rparr>) sample_bot_state
    = ([], sample_bot_state)"
proof -
  let ?m = "redeem_message\<lparr>ms_chat := \<lparr>tc_id = -9, tc_private = False\<rparr>\<rparr>"
  obtain out s' where h: "handle_message sample_bot sample_bot_io ?m sample_bot_state = (out, s')" by fastforce
  have "trim_space '' k7 '' = ''k7''" by code_simp
  then have "out = []"
    using h by (auto simp: handle_message_def handle_token_def redeemable_chat_def redeem_message_def private_message_def)
  with group_chat_harmless [OF h] h show ?thesis by simp
qed

section \<open>Revocation\<close>

lemma revoke_serials_holds:
  assumes "codec_ok tc"
  shows "rvk.holds tc [] ds f \<Longrightarrow> revoke_serials tc ios now nm i ss added f = (Inr n, f')
    \<Longrightarrow> \<exists>ds'. rvk.holds tc [] ds' f' \<and> set ds \<subseteq> set ds' \<and> (\<forall>s \<in> set ss. denied ds' s)"
proof (induction ss arbitrary: i f ds added)
  case (Cons s ss)
  obtain b f1 where a: "store_add tc (ios i) now s nm f = (b, f1)" by fastforce
  with Cons.prems(2) obtain new where b: "b = Inr new" by (cases b) auto
  from store_add_holds [OF assms Cons.prems(1) a] b
  obtain d1 where d1: "rvk.holds tc [] d1 f1" "set ds \<subseteq> set d1" "denied d1 s" by auto
  from Cons.prems(2) a b have "revoke_serials tc ios now nm (Suc i) ss (if new then added + 1 else added) f1 = (Inr n, f')"
    by simp
  from Cons.IH [OF d1(1) this] obtain d2 where
    "rvk.holds tc [] d2 f'" "set d1 \<subseteq> set d2" "\<forall>s \<in> set ss. denied d2 s" by blast
  with d1 show ?case by (intro exI [of _ d2]) (auto simp: denied_def)
qed auto

text \<open>Every line but the two that report denial starts otherwise.\<close>

lemma starts_with_hd: "starts_with t p \<Longrightarrow> p \<noteq> [] \<Longrightarrow> t \<noteq> [] \<and> hd t = hd p"
  by (cases t; cases p) (auto simp: starts_with_def)

lemma denial_lines: "hd (revoked_line nm) = CHR ''A''" "hd (already_line nm) = CHR ''A''" "revoked_line nm \<noteq> []" "already_line nm \<noteq> []"
  by (simp_all add: revoked_line_def already_line_def append_Cons)

lemma revoke_certificates_cases:
  assumes "revoke_certificates e io nm s = (t, found, s')"
  obtains (none) "t = []" "\<not> found" "s' = s"
  | (failed) "hd t = CHR ''C''" "t \<noteq> []" "found"
  | (denied) ss n f where "client_serials (be_ca_lib e) (be_codec e) (bi_ca io) nm (bs_tree s) = Inr ss"
      "revoke_serials (be_codec e) (bi_deny io) (bi_now io) nm 0 ss 0 (bs_tree s deny_file) = (Inr n, f)"
      "s' = s\<lparr>bs_tree := (bs_tree s)(deny_file := f)\<rparr>" "t = revoked_line nm \<or> t = already_line nm" "found"
  using assms that
  by (auto simp: revoke_certificates_def append_Cons split: sum.splits prod.splits if_splits)

lemma revoke_vless_line:
  "revoke_vless e io nm s = (t, found, s') \<Longrightarrow> t \<noteq> [] \<longrightarrow> hd t \<noteq> CHR ''A''"
  by (auto simp: revoke_vless_def append_Cons split: sum.splits prod.splits if_splits option.splits)

lemma revoke_command:
  assumes "handle_message e io m s = (out, s')" and "owner_in_private e m" and "ms_command m = ''revoke''"
    and "trim_space (ms_body m) \<noteq> []" and "validate_client_name (trim_space (ms_arguments m)) = None"
  obtains t found s1 t' found' where "revoke_certificates e io (trim_space (ms_arguments m)) s = (t, found, s1)"
    "revoke_vless e io (trim_space (ms_arguments m)) s1 = (t', found', s')"
    "out = [Reply (tc_id (ms_chat m))
      (if \<not> found \<and> \<not> found' then ''No client named '' @ go_quote (trim_space (ms_arguments m)) @ '' has access '' @ em_dash @ '' nothing to revoke.''
       else join newline (filter (\<lambda>t. t \<noteq> []) [t, t']))]"
  using assms that
  by (auto simp: handle_message_def handle_revoke_command_def Let_def split: prod.splits if_splits)

text \<open>(C24) A reported revocation is one: after any series of certificates issued in the authority's directory, if the
  bot answers the owner's \<open>/revoke\<close> with the line that says the app profile is revoked, or was already,
  then no check of the server that reads the deny-list admits any certificate ever issued to that name.\<close>

theorem reported_revocation_holds:
  assumes "codec_ok (be_codec e)" and "ca_start L fs0 h0"
    and "issue_run L (be_codec e) a cs fs0 h0 = (bs_tree s, h)" and "be_ca_lib e = L"
    and "handle_message e io m s = ([Reply chat t], s')" and "owner_in_private e m" and "ms_command m = ''revoke''"
    and "trim_space (ms_body m) \<noteq> []" and "validate_client_name nm = None" and "nm = trim_space (ms_arguments m)"
    and "starts_with t (revoked_line nm) \<or> starts_with t (already_line nm)" and "(nm, serial) \<in> set h"
    and "ck_path c \<noteq> []" and "ck_set c = None \<or> ck_mtime c \<noteq> Some mt \<or> sz \<noteq> ck_size c \<or> recently_modified now mt"
  shows "fst (is_revoked now (StatOk mt sz) (load_revoked (be_codec e) fio (bs_tree s' deny_file)) serial c) \<noteq> Inr False"
proof -
  have A: "hd t = CHR ''A''" "t \<noteq> []" using assms(11) starts_with_hd denial_lines by metis+
  obtain x found s1 x' found' where c: "revoke_certificates e io nm s = (x, found, s1)"
    and v: "revoke_vless e io nm s1 = (x', found', s')"
    and t: "t = (if \<not> found \<and> \<not> found' then ''No client named '' @ go_quote nm @ '' has access '' @ em_dash @ '' nothing to revoke.''
       else join newline (filter (\<lambda>t. t \<noteq> []) [x, x']))"
    by (rule revoke_command [OF assms(5-8) assms(9) [unfolded assms(10)], folded assms(10)]) simp
  have tree: "bs_tree s' = bs_tree s1" using revoke_vless_frame [OF v] by simp
  from c show ?thesis
  proof (cases rule: revoke_certificates_cases)
    case none
    with t A revoke_vless_line [OF v] show ?thesis by (auto simp: append_Cons split: if_splits)
  next
    case failed
    with t A have "hd (join newline (filter (\<lambda>t. t \<noteq> []) [x, x'])) = CHR ''A''" by simp
    with failed show ?thesis by (cases "x' = []") (simp_all add: hd_append)
  next
    case (denied ss n f)
    from ca_inv_reached [OF assms(1-3)] assms(12) obtain es ds where
      es: "ldg.holds (be_codec e) [] es (bs_tree s ledger_file)" and ds: "rvk.holds (be_codec e) [] ds (bs_tree s deny_file)"
      and k: "listed es nm serial \<or> ((\<forall>e \<in> set es. is_name e \<noteq> nm) \<and> on_disk L (bs_tree s) nm serial) \<or> denied ds serial"
      unfolding ca_inv_def by blast
    from revoke_serials_holds [OF assms(1) ds denied(2)] obtain ds' where
      ds': "rvk.holds (be_codec e) [] ds' f" "set ds \<subseteq> set ds'" "\<forall>s \<in> set ss. denied ds' s" by blast
    have "denied ds' serial"
      using k ds'(2,3) client_serials_covers [OF assms(1) es denied(1) [unfolded assms(4)], of serial]
      by (auto simp: denied_def)
    from denied_not_admitted [OF assms(1) ds'(1) this assms(13,14)] tree denied(3) show ?thesis by simp
  qed
qed

text \<open>A ledger that cannot be read hides the certificates: on a node without the VLESS service, when the serials
  of a name cannot be determined, \<open>/revoke\<close> denies nothing and tells the owner that the name has no access and
  that there is nothing to revoke, whatever certificates of the name are valid.\<close>

theorem unreadable_ledger_hides_access:
  assumes "client_serials (be_ca_lib e) (be_codec e) (bi_ca io) nm (bs_tree s) = Inl err" and "\<not> vless_enabled e"
    and "owner_in_private e m" and "ms_command m = ''revoke''" and "trim_space (ms_body m) \<noteq> []"
    and "validate_client_name nm = None" and "nm = trim_space (ms_arguments m)"
  shows "handle_message e io m s =
    ([Reply (tc_id (ms_chat m)) (''No client named '' @ go_quote nm @ '' has access '' @ em_dash @ '' nothing to revoke.'')], s)"
  using assms
  by (simp add: handle_message_def handle_revoke_command_def revoke_certificates_def revoke_vless_def Let_def)

definition revoke_message :: message where
  "revoke_message = private_message 7 ''/revoke bob'' ''revoke'' ''bob''"

text \<open>A ledger with one corrupt entry; the certificate of the name is in place.\<close>

definition corrupt_io :: "unit bot_io" where
  "corrupt_io = sample_bot_io\<lparr>bi_ca := ca_io_fine\<lparr>ca_read := (\<lambda>p. if p = ledger_file then Some ''EIO'' else None)\<rparr>\<rparr>"

lemma bob_args: "trim_space ''bob'' = ''bob''" "trim_space ''/revoke bob'' \<noteq> []" "validate_client_name ''bob'' = None"
  by (code_simp, code_simp) (simp add: validate_client_name_def)

theorem unreadable_ledger_hides_access_witness:
  "fst (handle_message sample_bot corrupt_io revoke_message (sample_bot_state\<lparr>bs_tree := sample_tree\<rparr>))
    = [Reply 7 (''No client named '' @ go_quote ''bob'' @ '' has access '' @ em_dash @ '' nothing to revoke.'')]
   \<and> client_serials sample_bot_lib no_codec ca_io_fine ''bob'' sample_tree = Inr [1]"
proof -
  let ?s = "sample_bot_state\<lparr>bs_tree := sample_tree\<rparr>"
  have lf: "sample_tree ledger_file = Some (json_marshal_indent (ledger_json no_codec [bob_entry]))"
    using client_paths_distinct [OF bob_name] by (auto simp: sample_tree_def)
  have "load_ledger no_codec (bi_ca corrupt_io) sample_tree = Inl (ReadFails ''EIO'')"
    by (simp add: load_ledger_def load_or_empty_def load_json_def lf path_io_def corrupt_io_def)
  then have e: "client_serials (be_ca_lib sample_bot) (be_codec sample_bot) (bi_ca corrupt_io) ''bob'' (bs_tree ?s)
      = Inl (CaIo (ReadFails ''EIO''))"
    using bob_name by (simp add: client_serials_def sample_bot_def)
  have f: "owner_in_private sample_bot revoke_message" "ms_command revoke_message = ''revoke''"
      "ms_body revoke_message = ''/revoke bob''" "ms_arguments revoke_message = ''bob''" "tc_id (ms_chat revoke_message) = 7"
      "\<not> vless_enabled sample_bot"
    by (simp_all add: owner_in_private_def revoke_message_def private_message_def sample_bot_def vless_enabled_def)
  have "handle_message sample_bot corrupt_io revoke_message ?s
    = ([Reply (tc_id (ms_chat revoke_message)) (''No client named '' @ go_quote ''bob'' @ '' has access '' @ em_dash @ '' nothing to revoke.'')], ?s)"
    by (rule unreadable_ledger_hides_access [OF e]) (simp_all add: f bob_args)
  moreover have "client_serials sample_bot_lib no_codec ca_io_fine ''bob'' sample_tree = Inr [1]"
    using sample_ledger [of sample_tree] bob_name parse_hex_serial [of 1]
    by (simp add: client_serials_def bob_entry_def)
  ultimately show ?thesis by (simp add: f)
qed

lemma starts_with_refl: "starts_with t t"
  by (simp add: starts_with_def)

theorem reported_revocation_holds_witness:
  "\<exists>t s'. handle_message (sample_bot\<lparr>be_ca_lib := sample_lib\<rparr>) sample_bot_io revoke_message
      (sample_bot_state\<lparr>bs_tree := sample_tree\<rparr>) = ([Reply 7 t], s')
    \<and> fst (is_revoked 9 (StatOk 8 3) (load_revoked no_codec io_fine (bs_tree s' deny_file)) 1 (new_checker ''r'')) \<noteq> Inr False"
proof -
  let ?e = "sample_bot\<lparr>be_ca_lib := sample_lib\<rparr>" and ?s = "sample_bot_state\<lparr>bs_tree := sample_tree\<rparr>"
  have cs: "client_serials sample_lib no_codec ca_io_fine ''bob'' sample_tree = Inr [1]"
    using sample_ledger [of sample_tree] bob_name parse_hex_serial [of 1]
    by (simp add: client_serials_def bob_entry_def)
  have d: "sample_tree deny_file = None"
    using client_paths_distinct [OF bob_name] by (auto simp: sample_tree_def deny_file_def ledger_file_def)
  have "load_revoked_or_empty no_codec io_fine None = Inr []"
    by (simp add: load_revoked_or_empty_def load_or_empty_def load_json_def)
  then obtain f where f: "store_add no_codec io_fine 5 1 ''bob'' None = (Inr True, f)"
    by (simp add: store_add_def save_revoked_def save_json_def io_fine_def)
  have e: "be_ca_lib ?e = sample_lib" "be_codec ?e = no_codec" "bi_ca sample_bot_io = ca_io_fine" "bi_now sample_bot_io = 5"
    "bi_deny sample_bot_io = (\<lambda>i. io_fine)" "\<not> vless_enabled ?e" "owner_in_private ?e revoke_message"
    "ms_command revoke_message = ''revoke''" "ms_body revoke_message = ''/revoke bob''"
    "ms_arguments revoke_message = ''bob''" "tc_id (ms_chat revoke_message) = 7"
    by (simp_all add: sample_bot_def sample_bot_io_def vless_enabled_def owner_in_private_def revoke_message_def
        private_message_def)
  have rc: "revoke_certificates ?e sample_bot_io ''bob'' ?s
      = (revoked_line ''bob'', True, ?s\<lparr>bs_tree := sample_tree(deny_file := f)\<rparr>)"
    unfolding revoke_certificates_def e using cs d f by simp
  have h: "handle_message ?e sample_bot_io revoke_message ?s
      = ([Reply 7 (revoked_line ''bob'')], ?s\<lparr>bs_tree := sample_tree(deny_file := f)\<rparr>)"
    unfolding handle_message_def handle_revoke_command_def Let_def
    by (simp add: e bob_args rc revoke_vless_def denial_lines)
  have run: "issue_run sample_lib (be_codec ?e) sample_authority [IssueCall ca_io_fine 5 (Inr ()) (Inr 1) ''bob''] Map.empty []
      = (bs_tree ?s, [(''bob'', 1)])"
    using first_issue e by simp
  have st: "ca_start sample_lib Map.empty []" by (simp add: ca_start_def)
  have "fst (is_revoked 9 (StatOk 8 3) (load_revoked (be_codec ?e) io_fine ((bs_tree (?s\<lparr>bs_tree := sample_tree(deny_file := f)\<rparr>)) deny_file))
      1 (new_checker ''r'')) \<noteq> Inr False"
    by (rule reported_revocation_holds [OF _ st run e(1) h e(7,8), of "''bob''"])
      (simp_all add: e bob_args no_codec_ok starts_with_refl new_checker_def)
  with h e(2) show ?thesis by metis
qed

section \<open>Polling\<close>

fun forwarded :: "'u poll_event list \<Rightarrow> int list" where
  "forwarded [] = []"
| "forwarded (Forward i u # es) = i # forwarded es"
| "forwarded (x # es) = forwarded es"

lemma forwarded_append: "forwarded (es @ fs) = forwarded es @ forwarded fs"
  by (induction es rule: forwarded.induct) (simp_all add: append_Cons append_Nil)

lemma forward_batch_ids:
  "forward_batch off us = (es, off') \<Longrightarrow>
   sorted_wrt (<) (forwarded es) \<and> off \<le> off' \<and> (\<forall>i \<in> set (forwarded es). off \<le> i \<and> i < off')
     \<and> (\<forall>k e. GiveUp k e \<notin> set es)"
proof (induction off us arbitrary: es off' rule: forward_batch.induct)
  case (2 off i u us)
  show ?case
  proof (cases "i < off")
    case True
    with 2 show ?thesis by simp
  next
    case False
    obtain es1 where "forward_batch (i + 1) us = (es1, off')" "es = Forward i u # es1"
      using False 2(3) by (auto split: prod.splits)
    with 2(2) [OF False, of es1 off'] False show ?thesis by fastforce
  qed
qed simp

lemma poll_updates_ids:
  "sorted_wrt (<) (forwarded (poll_updates off n rs)) \<and> (\<forall>i \<in> set (forwarded (poll_updates off n rs)). off \<le> i)"
proof (induction off n rs rule: poll_updates.induct)
  case (3 off n us rs)
  obtain es off' where b: "forward_batch off us = (es, off')" by fastforce
  from forward_batch_ids [OF b] 3 [OF b [symmetric]] b show ?case
    by (auto simp: forwarded_append sorted_wrt_append) fastforce+
qed auto

lemma poll_updates_give_up:
  "GiveUp k e \<in> set (poll_updates off n rs) \<Longrightarrow> n < max_poll_failures \<Longrightarrow>
   k = max_poll_failures \<and> (\<exists>ps es qs. rs = ps @ map Inl es @ qs
     \<and> (length es = max_poll_failures \<or> ps = [] \<and> n + length es = max_poll_failures))"
proof (induction off n rs rule: poll_updates.induct)
  case (2 off n x rs)
  show ?case
  proof (cases "n + 1 \<ge> max_poll_failures")
    case True
    with 2(2,3) have "k = max_poll_failures" "n + length [x] = max_poll_failures" by auto
    moreover have "Inl x # rs = [] @ map Inl [x] @ rs" by (simp add: append_Cons append_Nil)
    ultimately show ?thesis by blast
  next
    case False
    with 2 obtain ps es qs where r: "k = max_poll_failures" "rs = ps @ map Inl es @ qs"
      "length es = max_poll_failures \<or> ps = [] \<and> Suc n + length es = max_poll_failures" by auto
    from r(3) show ?thesis
    proof
      assume "length es = max_poll_failures"
      with r show ?thesis by (intro conjI exI [of _ "Inl x # ps"] exI [of _ es] exI [of _ qs]) (simp_all add: append_Cons)
    next
      assume "ps = [] \<and> Suc n + length es = max_poll_failures"
      with r show ?thesis
        by (intro conjI exI [of _ "[]"] exI [of _ "x # es"] exI [of _ qs]) (simp_all add: append_Cons append_Nil)
    qed
  qed
next
  case (3 off n us rs)
  obtain es off' where b: "forward_batch off us = (es, off')" by fastforce
  from forward_batch_ids [OF b] 3(2) b have "GiveUp k e \<in> set (poll_updates off' 0 rs)" by auto
  from 3(1) [OF b [symmetric] this] obtain ps fs qs where
    "k = max_poll_failures" "rs = ps @ map Inl fs @ qs" "length fs = max_poll_failures"
    by (auto simp: max_poll_failures_def append_Nil)
  then show ?case
    by (intro conjI exI [of _ "Inr us # ps"] exI [of _ fs] exI [of _ qs]) (simp_all add: append_Cons)
qed simp

text \<open>No update is handled twice: whatever Telegram answers, repeats included, the identifiers of the updates
  that reach the handlers strictly increase; and polling is given up only after ten failures in a row.\<close>

theorem updates_handled_once:
  "sorted_wrt (<) (forwarded (poll_updates off 0 rs))
   \<and> (\<forall>k e. GiveUp k e \<in> set (poll_updates off 0 rs) \<longrightarrow>
        k = 10 \<and> (\<exists>ps es qs. rs = ps @ map Inl es @ qs \<and> length es = 10))"
proof (intro conjI allI impI)
  show "sorted_wrt (<) (forwarded (poll_updates off 0 rs))" using poll_updates_ids by blast
  fix k e
  assume "GiveUp k e \<in> set (poll_updates off 0 rs)"
  from poll_updates_give_up [OF this] show "k = 10" "\<exists>ps es qs. rs = ps @ map Inl es @ qs \<and> length es = 10"
    by (auto simp: max_poll_failures_def)
qed

theorem updates_handled_once_witness:
  "poll_updates 0 0 [Inr [(4, ''a''), (5, ''b'')], Inl ''net'', Inr [(5, ''b''), (6, ''c'')]]
     = [Forward 4 ''a'', Forward 5 ''b'', Backoff poll_backoff, Forward 6 ''c'']
   \<and> sorted_wrt (<) (forwarded (poll_updates 0 0 [Inr [(4, ''a''), (5, ''b'')], Inl ''net'', Inr [(5, ''b''), (6, ''c'')]]))"
  using updates_handled_once [of 0 "[Inr [(4, ''a''), (5, ''b'')], Inl ''net'', Inr [(5, ''b''), (6, ''c'')]]"]
  by (simp add: max_poll_failures_def append_Cons append_Nil)

end
