(* ===== verification/CaTool.thy ===== *)
theory CaTool
  imports Onboarding Backup Netaddr
begin

text \<open>
  The operator's command line (\<open>src/cmd/vpn-ca/main.go\<close>): each command as a function of its flags, the directory
  of the authority, the files outside it, and what the system answers. A result is what is printed, with
  the paths and dates it names; warnings about key permissions go to stderr and are left out.
\<close>

section \<open>Files outside the directory\<close>

text \<open>A file is its text and its permission bits.\<close>

type_synonym out_files = "string \<Rightarrow> (string \<times> nat) option"

record out_io =
  oo_remove :: "string option"
  oo_create :: "string option"
  oo_write :: "string option"
  oo_cleanup :: "string option"
  oo_close :: "string option"

definition out_fine :: out_io where
  "out_fine = \<lparr>oo_remove = None, oo_create = None, oo_write = None, oo_cleanup = None, oo_close = None\<rparr>"

datatype cli_err =
    FlagRequired string
  | NameNotPlainFlag
  | CliCa ca_err
  | CliStore file_err
  | CliProfile profile_err
  | EmptyAddress string
  | CreateFails string string
  | OutWriteFails string string
  | PassUnreadable string
  | NoPassphrase
  | EmptyPassphrase
  | CliBackup backup_err
  | InputUnreadable string
  | RestoredNotCa ca_err
  | CliList file_err

text \<open>\<open>O_CREATE | O_EXCL\<close> with mode 0600; a write that fails takes the file away again, if it can.\<close>

definition write_exclusive :: "out_io \<Rightarrow> string \<Rightarrow> string \<Rightarrow> out_files \<Rightarrow> cli_err option \<times> out_files" where
  "write_exclusive io p data fs =
     (if fs p \<noteq> None then (Some (CreateFails p ''file exists''), fs)
      else case oo_create io of
        Some e \<Rightarrow> (Some (CreateFails p e), fs)
      | None \<Rightarrow>
     (case oo_write io of
        Some e \<Rightarrow> (Some (OutWriteFails p e), if oo_cleanup io = None then fs else fs(p \<mapsto> ([], 384)))
      | None \<Rightarrow>
     (case oo_close io of
        Some e \<Rightarrow> (Some (OutWriteFails p e), fs(p \<mapsto> (data, 384)))
      | None \<Rightarrow> (None, fs(p \<mapsto> (data, 384))))))"

section \<open>Flags\<close>

definition plain_name :: "string \<Rightarrow> cli_err option" where
  "plain_name nm =
     (if nm = [] then Some (FlagRequired ''-name'')
      else if (\<exists>c \<in> set nm. c = CHR ''/'' \<or> c = CHR 0x5C) \<or> nm = ''.'' \<or> nm = ''..'' then Some NameNotPlainFlag
      else None)"

text \<open>\<open>net.IP\<close> of an IPv4 address is the address; the two lists are in the order of the flag.\<close>

fun sort_hosts :: "string list \<Rightarrow> string list \<times> ip list" where
  "sort_hosts [] = ([], [])"
| "sort_hosts (part # parts) =
     (case sort_hosts parts of
        (dns, ips) \<Rightarrow>
          (let h = trim_space part in
           if h = [] then (dns, ips)
           else case parse_ip h of Some a \<Rightarrow> (dns, a # ips) | None \<Rightarrow> (h # dns, ips)))"

definition split_hosts :: "string \<Rightarrow> string list \<times> ip list" where
  "split_hosts s = sort_hosts (split_char CHR '','' s)"

definition cut_equals :: "string \<Rightarrow> string \<times> string" where
  "cut_equals s = (takeWhile (\<lambda>c. c \<noteq> CHR ''='') s, drop 1 (dropWhile (\<lambda>c. c \<noteq> CHR ''='') s))"

fun extra_endpoints :: "string \<Rightarrow> string list \<Rightarrow> cli_err + paddr list" where
  "extra_endpoints sn [] = Inr []"
| "extra_endpoints sn (part # parts) =
     (let p = trim_space part in
      if p = [] then extra_endpoints sn parts
      else
        (let addr = trim_space (fst (cut_equals p)) in
         if addr = [] then Inl (EmptyAddress p)
         else rbind (extra_endpoints sn parts) (\<lambda>es.
           Inr (\<lparr>pe_server = addr, pe_server_name = sn, pe_label = trim_space (snd (cut_equals p))\<rparr> # es))))"

definition parse_extra_endpoints :: "string \<Rightarrow> string \<Rightarrow> cli_err + paddr list" where
  "parse_extra_endpoints raw sn = (if raw = [] then Inr [] else extra_endpoints sn (split_char CHR '','' raw))"

text \<open>What stdin gives is cut after 4096 bytes.\<close>

definition trim_newlines :: "string \<Rightarrow> string" where
  "trim_newlines s = rev (dropWhile (\<lambda>c. c = CHR 0x0A \<or> c = CHR 0x0D) (rev s))"

definition read_passphrase ::
    "string \<Rightarrow> string + string \<Rightarrow> (string \<Rightarrow> string + string) \<Rightarrow> string option \<Rightarrow> cli_err + string" where
  "read_passphrase fl stdin read_text env =
     rbind (if fl = ''-'' then (case stdin of Inl e \<Rightarrow> Inl (PassUnreadable e) | Inr t \<Rightarrow> Inr (take 4096 t))
            else if fl \<noteq> [] then (case read_text fl of Inl e \<Rightarrow> Inl (PassUnreadable e) | Inr t \<Rightarrow> Inr t)
            else (case env of None \<Rightarrow> Inl NoPassphrase | Some t \<Rightarrow> if t = [] then Inl NoPassphrase else Inr t))
       (\<lambda>raw. if trim_newlines raw = [] then Inl EmptyPassphrase else Inr (trim_newlines raw))"

section \<open>Issuing\<close>

definition cmd_init ::
    "'k ca_lib \<Rightarrow> ca_io \<Rightarrow> int \<Rightarrow> string + 'k \<Rightarrow> string + int \<Rightarrow> string \<Rightarrow> tree \<Rightarrow> (cli_err + string \<times> int) \<times> tree" where
  "cmd_init L io now key serial cn fs =
     (case ca_create L io now key serial cn fs of
        (Inl e, fs1) \<Rightarrow> (Inl (CliCa e), fs1)
      | (Inr a, fs1) \<Rightarrow> (Inr (ct_cn (au_cert a), ct_not_after (au_cert a)), fs1))"

text \<open>\<open>ip_wire\<close> is the 16-byte form \<open>net.ParseIP\<close> returns.\<close>

definition cmd_issue_server ::
    "'k ca_lib \<Rightarrow> ca_io \<Rightarrow> int \<Rightarrow> string + 'k \<Rightarrow> string + int \<Rightarrow> (ip \<Rightarrow> bytes) \<Rightarrow> string \<Rightarrow> string \<Rightarrow> tree
     \<Rightarrow> (cli_err + string list \<times> ip list) \<times> tree" where
  "cmd_issue_server L io now key serial ip_wire cn hosts fs =
     (if hosts = [] then (Inl (FlagRequired ''-hosts''), fs)
      else case ca_load L io fs of
        Inl e \<Rightarrow> (Inl (CliCa e), fs)
      | Inr a \<Rightarrow>
     (case split_hosts hosts of
        (dns, ips) \<Rightarrow>
          (case issue_server L io now key serial a cn dns (map ip_wire ips) fs of
             (Some e, fs1) \<Rightarrow> (Inl (CliCa e), fs1)
           | (None, fs1) \<Rightarrow> (Inr (dns, ips), fs1))))"

definition cmd_issue_client ::
    "'k ca_lib \<Rightarrow> time_codec \<Rightarrow> ca_io \<Rightarrow> int \<Rightarrow> string + 'k \<Rightarrow> string + int \<Rightarrow> string \<Rightarrow> tree
     \<Rightarrow> (cli_err + string) \<times> tree" where
  "cmd_issue_client L tc io now key serial nm fs =
     (if nm = [] then (Inl (FlagRequired ''-name''), fs)
      else case ca_load L io fs of
        Inl e \<Rightarrow> (Inl (CliCa e), fs)
      | Inr a \<Rightarrow>
     (case issue_client L tc io now key serial a nm fs of
        (Some e, fs1) \<Rightarrow> (Inl (CliCa e), fs1)
      | (None, fs1) \<Rightarrow> (Inr (''Issued client cert for '' @ go_quote nm @ newline), fs1)))"

text \<open>\<open>vpn-ca list\<close>: the authority, the clients, and the entries of the deny-list.\<close>

definition cmd_ca_list ::
    "'k ca_lib \<Rightarrow> time_codec \<Rightarrow> ca_io \<Rightarrow> file_io \<Rightarrow> file_err + (string \<times> bool) list \<Rightarrow> tree
     \<Rightarrow> cli_err + (string \<times> int) \<times> string list \<times> entry list" where
  "cmd_ca_list L tc io dio dir_entries fs =
     (case ca_load L io fs of
        Inl e \<Rightarrow> Inl (CliCa e)
      | Inr a \<Rightarrow>
     (case list_clients dir_entries of
        Inl e \<Rightarrow> Inl (CliList e)
      | Inr cs \<Rightarrow>
     (case store_list tc dio (fs deny_file) of
        Inl e \<Rightarrow> Inl (CliStore e)
      | Inr es \<Rightarrow> Inr ((ct_cn (au_cert a), ct_not_after (au_cert a)), cs, es))))"

section \<open>Revoking\<close>

text \<open>The loop over the serials is the one of the bot (\<open>revoke_serials\<close>).\<close>

definition cmd_revoke ::
    "'k ca_lib \<Rightarrow> time_codec \<Rightarrow> ca_io \<Rightarrow> (nat \<Rightarrow> file_io) \<Rightarrow> int \<Rightarrow> string \<Rightarrow> tree \<Rightarrow> (cli_err + string) \<times> tree" where
  "cmd_revoke L tc io ios now nm fs =
     (case plain_name nm of
        Some e \<Rightarrow> (Inl e, fs)
      | None \<Rightarrow>
     (case client_serials L tc io nm fs of
        Inl e \<Rightarrow> (Inl (CliCa e), fs)
      | Inr ss \<Rightarrow>
     (case revoke_serials tc ios now nm 0 ss 0 (fs deny_file) of
        (Inl e, f) \<Rightarrow> (Inl (CliStore e), fs(deny_file := f))
      | (Inr added, f) \<Rightarrow>
          (Inr (if added = 0 then go_quote nm @ '' was already revoked ('' @ nat_str (length ss) @ '' certificate(s)).'' @ newline
                else if length ss = 1
                then ''Revoked '' @ go_quote nm @ '' (serial '' @ serial_hex (hd ss)
                  @ ''). The server rejects it on the next connection.'' @ newline
                else ''Revoked '' @ go_quote nm @ '' '' @ em_dash @ '' '' @ nat_str (length ss) @ '' certificate(s), ''
                  @ nat_str added @ '' newly. The server rejects them on the next connection.'' @ newline),
           fs(deny_file := f)))))"

definition cmd_unrevoke ::
    "'k ca_lib \<Rightarrow> time_codec \<Rightarrow> ca_io \<Rightarrow> file_io \<Rightarrow> string \<Rightarrow> tree \<Rightarrow> (cli_err + string) \<times> tree" where
  "cmd_unrevoke L tc io dio nm fs =
     (case plain_name nm of
        Some e \<Rightarrow> (Inl e, fs)
      | None \<Rightarrow>
     (case client_serial L io nm fs of
        Inl e \<Rightarrow> (Inl (CliCa e), fs)
      | Inr serial \<Rightarrow>
     (case store_remove_serial tc dio serial (fs deny_file) of
        (Inl e, f) \<Rightarrow> (Inl (CliStore e), fs(deny_file := f))
      | (Inr removed, f) \<Rightarrow>
          (Inr (if removed then ''Un-revoked '' @ go_quote nm @ '' (serial '' @ serial_hex serial @ '').'' @ newline
                else go_quote nm @ [CHR 0x27] @ ''s current certificate (serial '' @ serial_hex serial
                  @ '') was not revoked.'' @ newline),
           fs(deny_file := f)))))"

section \<open>Profiles\<close>

definition cmd_export_profile ::
    "'p x509_lib \<Rightarrow> ca_io \<Rightarrow> out_io \<Rightarrow> int \<Rightarrow> string \<Rightarrow> string \<Rightarrow> string \<Rightarrow> string \<Rightarrow> string \<Rightarrow> tree \<Rightarrow> out_files
     \<Rightarrow> (cli_err + string \<times> nat) \<times> out_files" where
  "cmd_export_profile X io oio now nm server server_name extra out fs ofs =
     (case plain_name nm of
        Some e \<Rightarrow> (Inl e, ofs)
      | None \<Rightarrow>
     (if server = [] then (Inl (FlagRequired ''-server''), ofs)
      else case read_file io ''ca.crt'' fs of
        Inl e \<Rightarrow> (Inl (CliCa e), ofs)
      | Inr ca \<Rightarrow>
     (case read_file io (client_cert nm) fs of
        Inl e \<Rightarrow> (Inl (CliCa e), ofs)
      | Inr cert \<Rightarrow>
     (case read_file io (client_key nm) fs of
        Inl e \<Rightarrow> (Inl (CliCa e), ofs)
      | Inr key \<Rightarrow>
     (case parse_extra_endpoints extra server_name of
        Inl e \<Rightarrow> (Inl e, ofs)
      | Inr others \<Rightarrow>
     (let es = \<lparr>pe_server = server, pe_server_name = server_name, pe_label = []\<rparr> # others;
          path = (if out = [] then nm @ ''.vpnio'' else out)
      in case marshal_bundle_endpoints X now ca cert key es of
           Inl e \<Rightarrow> (Inl (CliProfile e), ofs)
         | Inr b \<Rightarrow>
             (case write_exclusive oio path b (if oo_remove oio = None then ofs(path := None) else ofs) of
                (Some e, ofs1) \<Rightarrow> (Inl e, ofs1)
              | (None, ofs1) \<Rightarrow> (Inr (path, length es), ofs1))))))))"

section \<open>Backup and restore\<close>

definition cmd_backup ::
    "'a backup_lib \<Rightarrow> 'k ca_lib \<Rightarrow> ('k \<Rightarrow> certificate \<Rightarrow> bool) \<Rightarrow> time_codec \<Rightarrow> ca_io \<Rightarrow> out_io \<Rightarrow> int \<Rightarrow> (int \<Rightarrow> string)
     \<Rightarrow> string + (string \<times> bool \<times> nat) list \<Rightarrow> string + string \<Rightarrow> string + string \<Rightarrow> cli_err + string \<Rightarrow> string \<Rightarrow> tree
     \<Rightarrow> out_files \<Rightarrow> (cli_err + string \<times> nat) \<times> out_files" where
  "cmd_backup B L matches tc io oio now date walk salt nonce pass out fs ofs =
     (case pass of
        Inl e \<Rightarrow> (Inl e, ofs)
      | Inr p \<Rightarrow>
     (case backup B L matches tc io now walk salt nonce p fs of
        Inl e \<Rightarrow> (Inl (CliBackup e), ofs)
      | Inr data \<Rightarrow>
     (let path = (if out = [] then ''ca-backup-'' @ date now @ ''.vpnio-ca'' else out)
      in case write_exclusive oio path data ofs of
           (Some e, ofs1) \<Rightarrow> (Inl e, ofs1)
         | (None, ofs1) \<Rightarrow> (Inr (path, length data), ofs1))))"

text \<open>The first component is what the backup says of itself, printed before the passphrase is asked for.\<close>

definition cmd_restore ::
    "'a backup_lib \<Rightarrow> 'k ca_lib \<Rightarrow> time_codec \<Rightarrow> ca_io \<Rightarrow> string \<Rightarrow> string + string \<Rightarrow> cli_err + string
     \<Rightarrow> file_err + (string \<times> bool) list \<Rightarrow> tree \<Rightarrow> (string \<Rightarrow> nat)
     \<Rightarrow> (int \<times> string) option \<times> (cli_err + (string \<times> int) \<times> nat) \<times> tree \<times> (string \<Rightarrow> nat)" where
  "cmd_restore B L tc io inp data pass dir_entries fs pm =
     (if inp = [] then (None, Inl (FlagRequired ''-in''), fs, pm)
      else case data of
        Inl e \<Rightarrow> (None, Inl (InputUnreadable e), fs, pm)
      | Inr d \<Rightarrow>
     (let info = (case backup_info tc d of Inl e \<Rightarrow> None | Inr i \<Rightarrow> Some i)
      in case pass of
        Inl e \<Rightarrow> (info, Inl e, fs, pm)
      | Inr p \<Rightarrow>
     (case restore B tc io d p fs pm of
        (Some e, fs1, pm1) \<Rightarrow> (info, Inl (CliBackup e), fs1, pm1)
      | (None, fs1, pm1) \<Rightarrow>
     (case ca_load L io fs1 of
        Inl e \<Rightarrow> (info, Inl (RestoredNotCa e), fs1, pm1)
      | Inr a \<Rightarrow>
     (case list_clients dir_entries of
        Inl e \<Rightarrow> (info, Inl (CliList e), fs1, pm1)
      | Inr cs \<Rightarrow> (info, Inr ((ct_cn (au_cert a), ct_not_after (au_cert a)), length cs), fs1, pm1))))))"

section \<open>Lemmas\<close>

lemma client_serials_some: "client_serials L tc io nm fs \<noteq> Inr []"
  by (auto simp: client_serials_def rbind_Inr_iff split: sum.splits)

lemma write_exclusive_frame:
  assumes "write_exclusive oio p data fs = (r, fs')"
  shows "(\<forall>q. q \<noteq> p \<longrightarrow> fs' q = fs q) \<and> (fs' p = fs p \<or> fs p = None \<and> (\<exists>d. fs' p = Some (d, 384)))
    \<and> (r = None \<longrightarrow> fs p = None \<and> fs' = fs(p \<mapsto> (data, 384)))"
proof (cases "fs p")
  case None
  with assms show ?thesis by (auto simp: write_exclusive_def split: if_splits option.splits)
next
  case (Some a)
  with assms show ?thesis by (auto simp: write_exclusive_def)
qed

text \<open>How an address is written in the flag.\<close>

definition show_extra :: "paddr \<Rightarrow> string" where
  "show_extra e = (if pe_label e = [] then pe_server e else pe_server e @ ''='' @ pe_label e)"

definition unspaced :: "string \<Rightarrow> bool" where
  "unspaced s \<longleftrightarrow> s = [] \<or> \<not> is_space (hd s) \<and> \<not> is_space (last s)"

definition writable_extra :: "string \<Rightarrow> paddr \<Rightarrow> bool" where
  "writable_extra sn e \<longleftrightarrow> pe_server e \<noteq> [] \<and> pe_server_name e = sn \<and> unspaced (pe_server e) \<and> unspaced (pe_label e)
     \<and> CHR '','' \<notin> set (pe_server e) \<and> CHR ''='' \<notin> set (pe_server e) \<and> CHR '','' \<notin> set (pe_label e)"

lemma cut_at:
  assumes "c \<notin> set s"
  shows "takeWhile (\<lambda>x. x \<noteq> c) (s @ c # t) = s" "dropWhile (\<lambda>x. x \<noteq> c) (s @ c # t) = c # t"
  using assms by (induction s) auto

lemma cut_none:
  assumes "c \<notin> set s"
  shows "takeWhile (\<lambda>x. x \<noteq> c) s = s" "dropWhile (\<lambda>x. x \<noteq> c) s = []"
  using assms by (induction s) auto

lemma extra_endpoint:
  assumes "writable_extra sn e"
  shows "trim_space (show_extra e) = show_extra e" "show_extra e \<noteq> []" "CHR '','' \<notin> set (show_extra e)"
    "trim_space (fst (cut_equals (show_extra e))) = pe_server e" "trim_space (snd (cut_equals (show_extra e))) = pe_label e"
proof -
  have ne: "CHR ''='' \<notin> set (pe_server e)" using assms by (simp add: writable_extra_def)
  from assms show "trim_space (show_extra e) = show_extra e"
    by (intro trim_space_plain) (auto simp: writable_extra_def show_extra_def unspaced_def)
  from assms show "show_extra e \<noteq> []" "CHR '','' \<notin> set (show_extra e)"
    by (auto simp: writable_extra_def show_extra_def)
  have c: "cut_equals (show_extra e) = (pe_server e, pe_label e)"
    by (cases "pe_label e = []") (simp_all add: cut_equals_def show_extra_def cut_at [OF ne] cut_none [OF ne])
  have "trim_space s = s" if "unspaced s" for s using that by (intro trim_space_plain) (simp add: unspaced_def)
  with c assms show "trim_space (fst (cut_equals (show_extra e))) = pe_server e" "trim_space (snd (cut_equals (show_extra e))) = pe_label e"
    by (simp_all add: writable_extra_def)
qed

lemma extra_endpoints_shown:
  "list_all (writable_extra sn) es \<Longrightarrow> extra_endpoints sn (map show_extra es) = Inr es"
proof (induction es)
  case (Cons e es)
  then have e: "writable_extra sn e" by simp
  from Cons extra_endpoint [OF e] e show ?case by (simp add: Let_def writable_extra_def)
qed simp

section \<open>Properties\<close>

text \<open>The addresses of a flag are read as they are written: every list of addresses without commas, and without
  equals signs in front of the label, comes back from \<open>-also\<close> in its order with its labels and the name given
  for all of them.\<close>

theorem extra_endpoints_roundtrip:
  assumes "list_all (writable_extra sn) es"
  shows "parse_extra_endpoints (join '','' (map show_extra es)) sn = Inr es"
proof (cases "es = []")
  case True
  then show ?thesis by (simp add: parse_extra_endpoints_def)
next
  case False
  have "\<forall>p \<in> set (map show_extra es). CHR '','' \<notin> set p"
    using assms extra_endpoint(3) by (auto simp: list_all_iff)
  with False have "split_char CHR '','' (join '','' (map show_extra es)) = map show_extra es"
    by (intro split_join) auto
  moreover have "join '','' (map show_extra es) \<noteq> []"
    using False assms extra_endpoint(2) by (cases es rule: remdups_adj.cases) auto
  ultimately show ?thesis using extra_endpoints_shown [OF assms] by (simp add: parse_extra_endpoints_def)
qed

theorem extra_endpoints_roundtrip_witness:
  "parse_extra_endpoints (join '','' (map show_extra
      [\<lparr>pe_server = ''b:443'', pe_server_name = ''n'', pe_label = ''x=y z''\<rparr>, \<lparr>pe_server = ''c'', pe_server_name = ''n'', pe_label = []\<rparr>])) ''n''
    = Inr [\<lparr>pe_server = ''b:443'', pe_server_name = ''n'', pe_label = ''x=y z''\<rparr>, \<lparr>pe_server = ''c'', pe_server_name = ''n'', pe_label = []\<rparr>]"
  by (rule extra_endpoints_roundtrip) code_simp

text \<open>\<open>vpn-ca revoke\<close> and the bot's \<open>/revoke\<close> are the same operation on the authority's directory: from the same
  directory, with the same answers of the system, they leave the same files, and the command succeeds exactly
  when the bot reports the certificates of the name as denied.\<close>

theorem cli_bot_revoke_alike:
  assumes "plain_name nm = None" and "revoke_certificates e io nm s = (t, found, s')"
    and "cmd_revoke (be_ca_lib e) (be_codec e) (bi_ca io) (bi_deny io) (bi_now io) nm (bs_tree s) = (r, fs)"
  shows "bs_tree s' = fs \<and> (ok r \<longleftrightarrow> found \<and> (t = revoked_line nm \<or> t = already_line nm))"
proof (cases "client_serials (be_ca_lib e) (be_codec e) (bi_ca io) nm (bs_tree s)")
  case (Inl err)
  with assms show ?thesis by (auto simp: cmd_revoke_def revoke_certificates_def)
next
  case (Inr ss)
  then have ss: "ss \<noteq> []" using client_serials_some by blast
  obtain b f where b: "revoke_serials (be_codec e) (bi_deny io) (bi_now io) nm 0 ss 0 (bs_tree s deny_file) = (b, f)" by fastforce
  show ?thesis
  proof (cases b)
    case (Inl err)
    with assms(2) Inr ss b have t: "found \<and> hd t = CHR ''C''" "s' = s\<lparr>bs_tree := (bs_tree s)(deny_file := f)\<rparr>"
      by (auto simp: revoke_certificates_def append_Cons)
    with denial_lines [of nm] have "t \<noteq> revoked_line nm" "t \<noteq> already_line nm" by auto
    with assms(1,3) \<open>client_serials _ _ _ _ _ = Inr ss\<close> b Inl t show ?thesis by (auto simp: cmd_revoke_def)
  next
    case (Inr n)
    with assms \<open>client_serials _ _ _ _ _ = Inr ss\<close> ss b show ?thesis
      by (auto simp: cmd_revoke_def revoke_certificates_def split: if_splits)
  qed
qed

lemma sample_serials: "client_serials sample_lib no_codec ca_io_fine ''bob'' sample_tree = Inr [1]"
  using sample_ledger [of sample_tree] bob_name parse_hex_serial [of 1]
  by (simp add: client_serials_def bob_entry_def sample_tree_def client_paths_distinct [OF bob_name])

theorem cli_bot_revoke_alike_witness:
  "\<exists>t s' r fs. revoke_certificates (sample_bot\<lparr>be_ca_lib := sample_lib\<rparr>) sample_bot_io ''bob''
      (sample_bot_state\<lparr>bs_tree := sample_tree\<rparr>) = (t, True, s')
    \<and> cmd_revoke sample_lib no_codec ca_io_fine (\<lambda>i. io_fine) 5 ''bob'' sample_tree = (r, fs) \<and> bs_tree s' = fs"
proof -
  let ?e = "sample_bot\<lparr>be_ca_lib := sample_lib\<rparr>" and ?s = "sample_bot_state\<lparr>bs_tree := sample_tree\<rparr>"
  have e: "be_ca_lib ?e = sample_lib" "be_codec ?e = no_codec" "bi_ca sample_bot_io = ca_io_fine" "bi_now sample_bot_io = 5"
    "bi_deny sample_bot_io = (\<lambda>i. io_fine)" by (simp_all add: sample_bot_def sample_bot_io_def)
  obtain t found s' where b: "revoke_certificates ?e sample_bot_io ''bob'' ?s = (t, found, s')" using prod_cases3 by blast
  obtain r fs where c: "cmd_revoke sample_lib no_codec ca_io_fine (\<lambda>i. io_fine) 5 ''bob'' sample_tree = (r, fs)" by fastforce
  have found using b sample_serials by (auto simp: revoke_certificates_def e split: sum.splits prod.splits)
  moreover have "plain_name ''bob'' = None" by code_simp
  ultimately show ?thesis using cli_bot_revoke_alike [OF _ b] b c by (simp add: e)
qed

lemma store_remove_holds:
  assumes "codec_ok tc" and "rvk.holds tc [] ds f" and "store_remove_serial tc io s f = (r, f')"
  shows "\<exists>ds'. rvk.holds tc [] ds' f' \<and> (\<forall>e \<in> set ds. en_serial e \<noteq> serial_hex s \<longrightarrow> e \<in> set ds')"
proof (cases "load_revoked_or_empty tc io f")
  case (Inl e)
  with assms show ?thesis by (auto simp: store_remove_serial_def split: option.splits)
next
  case (Inr es)
  then have es: "es = ds" using rvk.load_holds [OF assms(2,1)] by (simp add: load_revoked_or_empty_def)
  let ?kept = "filter (\<lambda>e. en_serial e \<noteq> serial_hex s) ds"
  from assms(3) Inr es have "f' = f \<or> save_json (revoked_json tc) io ?kept f = (None, f')"
    using rvk.save_failed [of tc io ?kept f]
    by (auto simp: store_remove_serial_def save_revoked_def Let_def split: option.splits if_splits prod.splits)
  then show ?thesis
  proof
    assume "f' = f"
    with assms(2) show ?thesis by blast
  next
    assume "save_json (revoked_json tc) io ?kept f = (None, f')"
    from rvk.save_holds [OF this, of "[]"] show ?thesis by (intro exI [of _ ?kept]) auto
  qed
qed

text \<open>(C28) Undoing a revocation never gives a replaced certificate its access back: after any series of
  certificates issued in the authority's directory, and whatever \<open>vpn-ca unrevoke\<close> answers, no check of the server
  that reads the deny-list admits a superseded certificate, unless its serial is the one of the current
  certificate of the name.\<close>

theorem unrevoke_spares_superseded:
  assumes "codec_ok tc" and "ca_start L fs0 h0" and "issue_run L tc a cs fs0 h0 = (fs, h)"
    and "cmd_unrevoke L tc io dio nm fs = (r, fs')" and "serial \<in> superseded h" and "client_serial L io nm fs \<noteq> Inr serial"
    and "ck_path c \<noteq> []" and "ck_set c = None \<or> ck_mtime c \<noteq> Some mt \<or> sz \<noteq> ck_size c \<or> recently_modified now mt"
  shows "fst (is_revoked now (StatOk mt sz) (load_revoked tc fio (fs' deny_file)) serial c) \<noteq> Inr False"
proof -
  from ca_inv_reached [OF assms(1-3)] assms(5) obtain ds where
    ds: "rvk.holds tc [] ds (fs deny_file)" "denied ds serial" unfolding ca_inv_def by blast
  have "\<exists>ds'. rvk.holds tc [] ds' (fs' deny_file) \<and> denied ds' serial"
  proof (cases "fs' deny_file = fs deny_file")
    case True
    with ds show ?thesis by auto
  next
    case False
    with assms(4) obtain n b where n: "client_serial L io nm fs = Inr n"
      and b: "store_remove_serial tc dio n (fs deny_file) = (b, fs' deny_file)"
      by (auto simp: cmd_unrevoke_def split: option.splits sum.splits prod.splits)
    from n assms(6) have "serial_hex serial \<noteq> serial_hex n" by auto
    with store_remove_holds [OF assms(1) ds(1) b] ds(2) show ?thesis by (fastforce simp: denied_def)
  qed
  with denied_not_admitted [OF assms(1) _ _ assms(7,8)] show ?thesis by blast
qed

theorem unrevoke_spares_superseded_witness:
  "\<exists>fs r fs'. issue_run sample_lib no_codec sample_authority [IssueCall ca_io_fine 5 (Inr ()) (Inr 1) ''bob'',
      IssueCall ca_io_fine 5 (Inr ()) (Inr 2) ''bob''] Map.empty [] = (fs, [(''bob'', 1), (''bob'', 2)])
    \<and> cmd_unrevoke sample_lib no_codec ca_io_fine io_fine ''bob'' fs = (r, fs')
    \<and> fst (is_revoked 9 (StatOk 3 8) (load_revoked no_codec io_fine (fs' deny_file)) 1 (new_checker ''r'')) \<noteq> Inr False"
proof -
  from sample_run obtain fs where run: "issue_run sample_lib no_codec sample_authority
      [IssueCall ca_io_fine 5 (Inr ()) (Inr 1) ''bob'', IssueCall ca_io_fine 5 (Inr ()) (Inr 2) ''bob'']
      Map.empty [] = (fs, [(''bob'', 1), (''bob'', 2)])" by blast
  obtain r fs' where u: "cmd_unrevoke sample_lib no_codec ca_io_fine io_fine ''bob'' fs = (r, fs')" by fastforce
  have "ca_start sample_lib Map.empty []" by (simp add: ca_start_def)
  moreover have "client_serial sample_lib ca_io_fine ''bob'' fs \<noteq> Inr 1"
    by (auto simp: client_serial_def read_cert_def parse_cert_def sample_lib_def sample_cert_def rbind_Inr_iff)
  ultimately show ?thesis
    using unrevoke_spares_superseded [OF no_codec_ok _ run u, of 1 "new_checker ''r''" 3 8 9 io_fine] run u
    by (auto simp: new_checker_def)
qed

lemma export_cases:
  assumes "cmd_export_profile X io oio now nm server sn extra out fs ofs = (r, ofs')"
  obtains (early) e where "r = Inl e" "ofs' = ofs"
  | (written) ca cert key others b w where "read_file io ''ca.crt'' fs = Inr ca" "read_file io (client_cert nm) fs = Inr cert"
      "read_file io (client_key nm) fs = Inr key" "parse_extra_endpoints extra sn = Inr others"
      "marshal_bundle_endpoints X now ca cert key (\<lparr>pe_server = server, pe_server_name = sn, pe_label = []\<rparr> # others) = Inr b"
      "write_exclusive oio (if out = [] then nm @ ''.vpnio'' else out) b
        (if oo_remove oio = None then ofs((if out = [] then nm @ ''.vpnio'' else out) := None) else ofs) = (w, ofs')"
      "r = (case w of Some e \<Rightarrow> Inl e | None \<Rightarrow> Inr (if out = [] then nm @ ''.vpnio'' else out, Suc (length others)))"
  using assms
  unfolding cmd_export_profile_def Let_def
  by (auto simp del: fun_upd_apply split: option.splits if_splits sum.splits prod.splits)

lemma read_file_Inr: "read_file io p fs = Inr t \<Longrightarrow> fs p = Some t"
  by (auto simp: read_file_def split: option.splits)

text \<open>An exported profile is private and complete: \<open>vpn-ca export-profile\<close> changes no file but the profile, which afterwards
  is either the old one, or gone, or a new one with mode 0600, whatever mode was there and whichever step fails;
  and on success importing it gives at any time what loading the credentials of the client gives at that time,
  for the primary address followed by the others of \<open>-also\<close>.\<close>

theorem export_private:
  assumes "cmd_export_profile X io oio now nm server sn extra out fs ofs = (r, ofs')"
    and "path = (if out = [] then nm @ ''.vpnio'' else out)"
  shows "(\<forall>q. q \<noteq> path \<longrightarrow> ofs' q = ofs q) \<and> (ofs' path = ofs path \<or> ofs' path = None \<or> (\<exists>d. ofs' path = Some (d, 384)))
    \<and> (ok r \<longrightarrow> (\<exists>ca cert key others b. fs ''ca.crt'' = Some ca \<and> fs (client_cert nm) = Some cert
        \<and> fs (client_key nm) = Some key \<and> parse_extra_endpoints extra sn = Inr others
        \<and> r = Inr (path, Suc (length others)) \<and> ofs' path = Some (b, 384)
        \<and> (\<forall>t. parse_bundle X t b
             = load_pem_endpoints X t ca cert key (\<lparr>pe_server = server, pe_server_name = sn, pe_label = []\<rparr> # others))))"
  using assms(1)
proof (cases rule: export_cases)
  case (written ca cert key others b w)
  note wr = written(6) [folded assms(2)] and rd = written(1-3) [THEN read_file_Inr]
  from write_exclusive_frame [OF wr] have "\<forall>q. q \<noteq> path \<longrightarrow> ofs' q = ofs q"
    and "ofs' path = ofs path \<or> ofs' path = None \<or> (\<exists>d. ofs' path = Some (d, 384))"
    and "w = None \<Longrightarrow> ofs' path = Some (b, 384)" by (auto split: if_splits)
  with written(4,7) rd parse_marshalled [OF written(5)] show ?thesis
    by (cases w) (auto simp: assms(2) [symmetric])
qed auto

theorem export_private_witness:
  "\<exists>b. cmd_export_profile sample_x509 ca_io_fine out_fine 4 ''bob'' ''vpn.io:8443'' [] [] []
      (Map.empty(''ca.crt'' \<mapsto> ''CA'', client_cert ''bob'' \<mapsto> ''C'', client_key ''bob'' \<mapsto> ''K''))
      (Map.empty(''bob.vpnio'' \<mapsto> (''old'', 420)))
    = (Inr (''bob.vpnio'', 1), Map.empty(''bob.vpnio'' \<mapsto> (b, 384)))
    \<and> parse_bundle sample_x509 5 b = load_pem_endpoints sample_x509 5 ''CA'' ''C'' ''K'' [sample_addr]"
proof -
  let ?fs = "Map.empty(''ca.crt'' \<mapsto> ''CA'', client_cert ''bob'' \<mapsto> ''C'', client_key ''bob'' \<mapsto> ''K'')"
  have p: "?fs ''ca.crt'' = Some ''CA''" "?fs (client_cert ''bob'') = Some ''C''" "?fs (client_key ''bob'') = Some ''K''"
    "plain_name ''bob'' = None" by code_simp+
  obtain b where m: "marshal_bundle_endpoints sample_x509 4 ''CA'' ''C'' ''K'' [sample_addr] = Inr b"
    using sample_valid by (simp add: marshal_bundle_endpoints_def load_pem_endpoints_def sample_x509_def)
  have e: "cmd_export_profile sample_x509 ca_io_fine out_fine 4 ''bob'' ''vpn.io:8443'' [] [] [] ?fs
      (Map.empty(''bob.vpnio'' \<mapsto> (''old'', 420))) = (Inr (''bob.vpnio'', 1), Map.empty(''bob.vpnio'' \<mapsto> (b, 384)))"
    using m by (simp add: cmd_export_profile_def p read_file_def ca_io_fine_def parse_extra_endpoints_def sample_addr_def
        write_exclusive_def out_fine_def Let_def append_Cons append_Nil del: fun_upd_apply)
  from export_private [OF e refl] e show ?thesis
    by (intro exI [of _ b]) (auto simp: p parse_extra_endpoints_def sample_addr_def append_Cons append_Nil fun_upd_same simp del: fun_upd_apply)
qed

lemma backup_info_of:
  assumes "backup B L matches tc io now walk salt nonce pass fs = Inr data" and "codec_ok tc" and "ca_load L io fs = Inr a"
  shows "backup_info tc data = Inr (now, ct_cn (au_cert a))"
  using assms(1)
proof (cases rule: backup_Inr)
  case (1 a' s n es hdr key ws)
  let ?h = "hdr\<lparr>bh_payload := b64_encode (bl_seal B key n (bl_gzip B (bl_tar B es)) (header_aad tc hdr))\<rparr>"
  have "header_of_json tc (header_json tc ?h) = Some ?h"
    by (rule header_of_json_json)
      (simp_all add: assms(2) 1(6) backup_version_def backup_kdf_iterations_def int64_range_def)
  then show ?thesis using 1(1,6,8) assms(3) header_json_wf by (simp add: backup_info_def)
qed



end
