(* ===== verification/DnsLinux.thy ===== *)
theory DnsLinux
  imports Guards Base64
begin

text \<open>
  The resolver of a Linux host (\<open>src/internal/dns/dns_linux.go\<close>, with \<open>Clear\<close> and \<open>Reconcile\<close> of \<open>dns.go\<close>):
  \<open>resolvectl\<close> when systemd-resolved runs, else \<open>/etc/resolv.conf\<close> rewritten in place, with a snapshot in
  memory and a durable one beside it. A path holds a regular file or a symbolic link; what the system
  answers to each call is an argument, so a run in which every call fails from some point on is a crash
  at that point. Commands are recorded in order; their effect is the system's.
\<close>

datatype node = Regular string | Link string

record dns_world =
  dw_fs :: "string \<Rightarrow> node option"
  dw_cmds :: "string list list"

text \<open>The answers, by path. A write that fails may leave any file; \<open>lstat\<close> fails with something other than not-exist.\<close>

record resolv_io =
  ri_resolved :: bool
  ri_lstat :: "string option"
  ri_readlink :: "string option"
  ri_read :: "string \<Rightarrow> string option"
  ri_remove :: "string \<Rightarrow> string option"
  ri_cleanup :: "string \<Rightarrow> string option"
  ri_write :: "string \<Rightarrow> (string \<times> node option) option"
  ri_symlink :: "string \<Rightarrow> string option"
  ri_rename :: "string \<Rightarrow> string option"
  ri_cmd :: "string list \<Rightarrow> string option"

definition resolv_fine :: resolv_io where
  "resolv_fine = \<lparr>ri_resolved = False, ri_lstat = None, ri_readlink = None, ri_read = (\<lambda>p. None), ri_remove = (\<lambda>p. None),
     ri_cleanup = (\<lambda>p. None), ri_write = (\<lambda>p. None), ri_symlink = (\<lambda>p. None), ri_rename = (\<lambda>p. None), ri_cmd = (\<lambda>c. None)\<rparr>"

datatype dns_mode = ModeNone | ModeResolvectl | ModeFile

record linux_runner =
  lr_mode :: dns_mode
  lr_iface :: string
  lr_had :: bool
  lr_link :: string
  lr_data :: string

definition new_linux_runner :: linux_runner where
  "new_linux_runner = \<lparr>lr_mode = ModeNone, lr_iface = [], lr_had = False, lr_link = [], lr_data = []\<rparr>"

definition resolv_conf_path :: string where
  "resolv_conf_path = ''/etc/resolv.conf''"

definition backup_resolv_conf_path :: string where
  "backup_resolv_conf_path = resolv_conf_path @ ''.vpnio-bak''"

definition temp_path :: "string \<Rightarrow> string" where
  "temp_path p = p @ ''.vpnio.tmp''"

section \<open>Files\<close>

text \<open>\<open>os.Remove\<close> where a file that is not there is fine.\<close>

definition remove_path :: "(string \<Rightarrow> string option) \<Rightarrow> string \<Rightarrow> dns_world \<Rightarrow> string option \<times> dns_world" where
  "remove_path ans p w =
     (if dw_fs w p = None then (None, w)
      else case ans p of Some e \<Rightarrow> (Some e, w) | None \<Rightarrow> (None, w\<lparr>dw_fs := (dw_fs w)(p := None)\<rparr>))"

definition rename_over :: "resolv_io \<Rightarrow> string \<Rightarrow> string \<Rightarrow> dns_world \<Rightarrow> string option \<times> dns_world" where
  "rename_over io tmp p w =
     (case ri_rename io p of
        Some e \<Rightarrow> (Some (''rename '' @ tmp @ '' -> '' @ p @ '': '' @ e), snd (remove_path (ri_cleanup io) tmp w))
      | None \<Rightarrow> (None, w\<lparr>dw_fs := (dw_fs w)(p := dw_fs w tmp, tmp := None)\<rparr>))"

definition write_atomic :: "resolv_io \<Rightarrow> string \<Rightarrow> string \<Rightarrow> dns_world \<Rightarrow> string option \<times> dns_world" where
  "write_atomic io p content w =
     (case remove_path (ri_remove io) (temp_path p) w of
        (Some e, w1) \<Rightarrow> (Some e, w1)
      | (None, w1) \<Rightarrow>
     (case ri_write io (temp_path p) of
        Some (e, left) \<Rightarrow> (Some (''write '' @ temp_path p @ '': '' @ e), w1\<lparr>dw_fs := (dw_fs w1)(temp_path p := left)\<rparr>)
      | None \<Rightarrow> rename_over io (temp_path p) p (w1\<lparr>dw_fs := (dw_fs w1)(temp_path p \<mapsto> Regular content)\<rparr>)))"

definition symlink_atomic :: "resolv_io \<Rightarrow> string \<Rightarrow> string \<Rightarrow> dns_world \<Rightarrow> string option \<times> dns_world" where
  "symlink_atomic io target p w =
     (case remove_path (ri_remove io) (temp_path p) w of
        (Some e, w1) \<Rightarrow> (Some e, w1)
      | (None, w1) \<Rightarrow>
     (case ri_symlink io (temp_path p) of
        Some e \<Rightarrow> (Some (''symlink '' @ temp_path p @ '' -> '' @ target @ '': '' @ e), w1)
      | None \<Rightarrow> rename_over io (temp_path p) p (w1\<lparr>dw_fs := (dw_fs w1)(temp_path p \<mapsto> Link target)\<rparr>)))"

definition build_resolv_conf :: "string list \<Rightarrow> string" where
  "build_resolv_conf servers =
     ''# Managed by vpn.io while the tunnel is up'' @ [CHR 0x0A] @ concat (map (\<lambda>s. ''nameserver '' @ s @ [CHR 0x0A]) servers)"

section \<open>The durable snapshot\<close>

record resolv_backup =
  rb_existed :: bool
  rb_link :: string
  rb_data :: string

definition backup_json :: "resolv_backup \<Rightarrow> json" where
  "backup_json b = JObj ([(''existed'', JBool (rb_existed b))]
     @ opt_member (rb_link b \<noteq> []) ''link'' (JStr (rb_link b)) @ opt_member (rb_data b \<noteq> []) ''data'' (jbytes (rb_data b)))"

fun backup_of_json :: "json \<Rightarrow> resolv_backup option" where
  "backup_of_json (JObj ms) =
     (case (fold_field set_bool ''existed'' ms False, fold_field set_string ''link'' ms [], fold_field set_bytes ''data'' ms []) of
        (Some x, Some l, Some d) \<Rightarrow> Some \<lparr>rb_existed = x, rb_link = l, rb_data = d\<rparr>
      | _ \<Rightarrow> None)"
| "backup_of_json JNull = Some \<lparr>rb_existed = False, rb_link = [], rb_data = []\<rparr>"
| "backup_of_json _ = None"

lemma backup_json_wf: "json_wf (backup_json b)"
  by (auto simp: backup_json_def opt_member_def)

lemma backup_of_json_json: "backup_of_json (backup_json b) = Some b"
  by (cases b) (simp add: backup_json_def field_simps_json fold_eval)

definition write_resolv_backup :: "resolv_io \<Rightarrow> resolv_backup \<Rightarrow> dns_world \<Rightarrow> string option \<times> dns_world" where
  "write_resolv_backup io b w = write_atomic io backup_resolv_conf_path (json_marshal (backup_json b)) w"

definition apply_resolv_backup :: "resolv_io \<Rightarrow> resolv_backup \<Rightarrow> dns_world \<Rightarrow> string option \<times> dns_world" where
  "apply_resolv_backup io b w =
     (if \<not> rb_existed b then remove_path (ri_remove io) resolv_conf_path w
      else if rb_link b \<noteq> [] then symlink_atomic io (rb_link b) resolv_conf_path w
      else write_atomic io resolv_conf_path (rb_data b) w)"

text \<open>Reading the snapshot: it is always written as a regular file; a link in its place is followed once.\<close>

definition node_text :: "dns_world \<Rightarrow> string \<Rightarrow> string option" where
  "node_text w p =
     (case dw_fs w p of
        None \<Rightarrow> None | Some (Regular d) \<Rightarrow> Some d
      | Some (Link t) \<Rightarrow> (case dw_fs w t of Some (Regular d) \<Rightarrow> Some d | _ \<Rightarrow> None))"

definition restore_resolv_backup :: "resolv_io \<Rightarrow> dns_world \<Rightarrow> (string + bool) \<times> dns_world" where
  "restore_resolv_backup io w =
     (case node_text w backup_resolv_conf_path of
        None \<Rightarrow> (Inr False, w)
      | Some text \<Rightarrow>
     (case ri_read io backup_resolv_conf_path of
        Some e \<Rightarrow> (Inl (''read resolv.conf backup: '' @ e), w)
      | None \<Rightarrow>
     (case Option.bind (json_parse text) backup_of_json of
        None \<Rightarrow> (Inl ''parse resolv.conf backup'', w)
      | Some b \<Rightarrow>
     (case apply_resolv_backup io b w of
        (Some e, w1) \<Rightarrow> (Inl e, w1)
      | (None, w1) \<Rightarrow>
     (case remove_path (ri_cleanup io) backup_resolv_conf_path w1 of
        (Some e, w2) \<Rightarrow> (Inl e, w2)
      | (None, w2) \<Rightarrow> (Inr True, w2))))))"

text \<open>\<open>Clear\<close> and \<open>Reconcile\<close> are the same on Linux.\<close>

definition linux_clear :: "resolv_io \<Rightarrow> dns_world \<Rightarrow> string option \<times> dns_world" where
  "linux_clear io w = (case restore_resolv_backup io w of (Inl e, w1) \<Rightarrow> (Some e, w1) | (Inr b, w1) \<Rightarrow> (None, w1))"

section \<open>The runner\<close>

definition run_cmd :: "resolv_io \<Rightarrow> string list \<Rightarrow> dns_world \<Rightarrow> string option \<times> dns_world" where
  "run_cmd io argv w = (ri_cmd io argv, w\<lparr>dw_cmds := dw_cmds w @ [argv]\<rparr>)"

definition apply_resolvectl ::
    "resolv_io \<Rightarrow> string list \<Rightarrow> string \<Rightarrow> linux_runner \<Rightarrow> dns_world \<Rightarrow> string option \<times> linux_runner \<times> dns_world" where
  "apply_resolvectl io servers iface r w =
     (if iface = [] then (Some ''resolvectl: empty interface'', r, w)
      else case run_cmd io ([''resolvectl'', ''dns'', iface] @ servers) w of
        (Some e, w1) \<Rightarrow> (Some e, r, w1)
      | (None, w1) \<Rightarrow>
     (case run_cmd io [''resolvectl'', ''domain'', iface, ''~.''] w1 of
        (Some e, w2) \<Rightarrow> (Some e, r, snd (run_cmd io [''resolvectl'', ''revert'', iface] w2))
      | (None, w2) \<Rightarrow> (None, r\<lparr>lr_mode := ModeResolvectl, lr_iface := iface\<rparr>, w2)))"

definition snapshot_resolv_conf :: "resolv_io \<Rightarrow> linux_runner \<Rightarrow> dns_world \<Rightarrow> string + linux_runner" where
  "snapshot_resolv_conf io r w =
     (case ri_lstat io of
        Some e \<Rightarrow> Inl (''stat resolv.conf: '' @ e)
      | None \<Rightarrow>
     (case dw_fs w resolv_conf_path of
        Some (Link t) \<Rightarrow>
          (case ri_readlink io of
             Some e \<Rightarrow> Inl (''read resolv.conf symlink: '' @ e) | None \<Rightarrow> Inr (r\<lparr>lr_link := t, lr_had := True\<rparr>))
      | Some (Regular d) \<Rightarrow>
          (case ri_read io resolv_conf_path of
             Some e \<Rightarrow> Inl (''read resolv.conf: '' @ e) | None \<Rightarrow> Inr (r\<lparr>lr_data := d, lr_had := True\<rparr>))
      | None \<Rightarrow> Inr (r\<lparr>lr_had := False\<rparr>)))"

definition apply_resolv_conf ::
    "resolv_io \<Rightarrow> string list \<Rightarrow> linux_runner \<Rightarrow> dns_world \<Rightarrow> string option \<times> linux_runner \<times> dns_world" where
  "apply_resolv_conf io servers r w =
     (case snapshot_resolv_conf io r w of
        Inl e \<Rightarrow> (Some e, r, w)
      | Inr r1 \<Rightarrow>
     (let w1 = snd (write_resolv_backup io \<lparr>rb_existed = lr_had r1, rb_link = lr_link r1, rb_data = lr_data r1\<rparr> w)
      in case write_atomic io resolv_conf_path (build_resolv_conf servers) w1 of
        (Some e, w2) \<Rightarrow> (Some e, r1, w2)
      | (None, w2) \<Rightarrow> (None, r1\<lparr>lr_mode := ModeFile\<rparr>, w2)))"

definition linux_apply ::
    "resolv_io \<Rightarrow> string list \<Rightarrow> string \<Rightarrow> linux_runner \<Rightarrow> dns_world \<Rightarrow> string option \<times> linux_runner \<times> dns_world" where
  "linux_apply io servers iface r w =
     (if ri_resolved io then apply_resolvectl io servers iface r w else apply_resolv_conf io servers r w)"

text \<open>The snapshot on disk is removed on the way out, whatever the restoration did.\<close>

definition restore_resolv_conf :: "resolv_io \<Rightarrow> linux_runner \<Rightarrow> dns_world \<Rightarrow> string option \<times> dns_world" where
  "restore_resolv_conf io r w =
     (case (if \<not> lr_had r then remove_path (ri_remove io) resolv_conf_path w
            else if lr_link r \<noteq> [] then symlink_atomic io (lr_link r) resolv_conf_path w
            else write_atomic io resolv_conf_path (lr_data r) w) of
        (e, w1) \<Rightarrow> (e, snd (remove_path (ri_cleanup io) backup_resolv_conf_path w1)))"

definition linux_restore :: "resolv_io \<Rightarrow> linux_runner \<Rightarrow> dns_world \<Rightarrow> string option \<times> dns_world" where
  "linux_restore io r w =
     (case lr_mode r of
        ModeResolvectl \<Rightarrow> run_cmd io [''resolvectl'', ''revert'', lr_iface r] w
      | ModeFile \<Rightarrow> restore_resolv_conf io r w
      | ModeNone \<Rightarrow> (None, w))"

text \<open>The runner of a manager: its own state and the host. The two calls get their own answers.\<close>

definition linux_dns_runner :: "resolv_io \<Rightarrow> resolv_io \<Rightarrow> (linux_runner \<times> dns_world) dns_runner" where
  "linux_dns_runner io io' = \<lparr>dns_set = (\<lambda>ss i (r, w). linux_apply io ss i r w),
     dns_restore = (\<lambda>(r, w). case linux_restore io' r w of (e, w1) \<Rightarrow> (e, (r, w1)))\<rparr>"

section \<open>Lemmas\<close>

lemma temp_path_neq [simp]: "temp_path p \<noteq> p" "p \<noteq> temp_path p"
  by (simp_all add: temp_path_def)

lemma resolv_paths [simp]:
  "backup_resolv_conf_path \<noteq> resolv_conf_path" "resolv_conf_path \<noteq> backup_resolv_conf_path"
  "temp_path resolv_conf_path \<noteq> backup_resolv_conf_path" "backup_resolv_conf_path \<noteq> temp_path resolv_conf_path"
  "temp_path backup_resolv_conf_path \<noteq> resolv_conf_path" "resolv_conf_path \<noteq> temp_path backup_resolv_conf_path"
  by (code_simp+)

text \<open>What the file operations leave: the path has the old node or the new one, and only the temporary name is touched besides.\<close>

definition replaced :: "string \<Rightarrow> node option \<Rightarrow> string option \<Rightarrow> dns_world \<Rightarrow> dns_world \<Rightarrow> bool" where
  "replaced p nd e w w' \<longleftrightarrow> dw_fs w' p = (if e = None then nd else dw_fs w p)
     \<and> (\<forall>q. q \<noteq> p \<longrightarrow> q \<noteq> temp_path p \<longrightarrow> dw_fs w' q = dw_fs w q)"

lemma remove_path_replaced: "remove_path a p w = (e, w') \<Longrightarrow> replaced p None e w w'"
  by (cases "dw_fs w p"; cases e) (auto simp: remove_path_def replaced_def split: option.splits)

lemma remove_path_other: "q \<noteq> p \<Longrightarrow> dw_fs (snd (remove_path a p w)) q = dw_fs w q"
  by (auto simp: remove_path_def split: option.splits)

lemma rename_over_replaced:
  assumes "rename_over io (temp_path p) p w1 = (e, w')" and "\<And>q. q \<noteq> temp_path p \<Longrightarrow> dw_fs w1 q = dw_fs w q"
    and "dw_fs w1 (temp_path p) = nd"
  shows "replaced p nd e w w'"
  using assms by (auto simp: rename_over_def replaced_def remove_path_other split: option.splits)

lemma write_atomic_replaced:
  assumes "write_atomic io p c w = (e, w')"
  shows "replaced p (Some (Regular c)) e w w'"
proof (cases "remove_path (ri_remove io) (temp_path p) w")
  case (Pair e1 w1)
  have fr: "dw_fs w1 q = dw_fs w q" if "q \<noteq> temp_path p" for q
    using remove_path_other [OF that, of "ri_remove io" w] Pair by simp
  show ?thesis
  proof (cases "e1 = None \<and> ri_write io (temp_path p) = None")
    case True
    with assms Pair show ?thesis
      by (intro rename_over_replaced [of io p "w1\<lparr>dw_fs := (dw_fs w1)(temp_path p \<mapsto> Regular c)\<rparr>"])
        (auto simp: write_atomic_def fr)
  next
    case False
    with assms Pair fr show ?thesis by (auto simp: write_atomic_def replaced_def split: option.splits)
  qed
qed

lemma symlink_atomic_replaced:
  assumes "symlink_atomic io t p w = (e, w')"
  shows "replaced p (Some (Link t)) e w w'"
proof (cases "remove_path (ri_remove io) (temp_path p) w")
  case (Pair e1 w1)
  have fr: "dw_fs w1 q = dw_fs w q" if "q \<noteq> temp_path p" for q
    using remove_path_other [OF that, of "ri_remove io" w] Pair by simp
  show ?thesis
  proof (cases "e1 = None \<and> ri_symlink io (temp_path p) = None")
    case True
    with assms Pair show ?thesis
      by (intro rename_over_replaced [of io p "w1\<lparr>dw_fs := (dw_fs w1)(temp_path p \<mapsto> Link t)\<rparr>"])
        (auto simp: symlink_atomic_def fr)
  next
    case False
    with assms Pair fr show ?thesis by (auto simp: symlink_atomic_def replaced_def split: option.splits)
  qed
qed

text \<open>The node a snapshot stands for.\<close>

definition backup_node :: "resolv_backup \<Rightarrow> node option" where
  "backup_node b = (if \<not> rb_existed b then None else if rb_link b \<noteq> [] then Some (Link (rb_link b)) else Some (Regular (rb_data b)))"

lemma apply_resolv_backup_replaced:
  "apply_resolv_backup io b w = (e, w') \<Longrightarrow> replaced resolv_conf_path (backup_node b) e w w'"
  by (auto simp: apply_resolv_backup_def backup_node_def split: if_splits
      dest: remove_path_replaced symlink_atomic_replaced write_atomic_replaced)

lemma fine_results:
  "fst (remove_path (\<lambda>p. None) p w) = None" "fst (write_atomic resolv_fine p c w) = None"
  "fst (symlink_atomic resolv_fine t p w) = None" "fst (apply_resolv_backup resolv_fine b w) = None"
proof -
  show "fst (remove_path (\<lambda>p. None) p w) = None" for p w by (simp add: remove_path_def)
  then show w: "fst (write_atomic resolv_fine p c w) = None" "fst (symlink_atomic resolv_fine t p w) = None" for p c t w
    by (auto simp: write_atomic_def symlink_atomic_def rename_over_def resolv_fine_def split: prod.splits option.splits)
      (metis fst_conv option.distinct(1))+
  show "fst (apply_resolv_backup resolv_fine b w) = None"
    using w \<open>\<And>p w. fst (remove_path (\<lambda>p. None) p w) = None\<close> by (simp add: apply_resolv_backup_def) (simp add: resolv_fine_def)
qed

lemma snapshot_node:
  assumes "snapshot_resolv_conf io new_linux_runner w = Inr r" and "dw_fs w resolv_conf_path \<noteq> Some (Link [])"
  shows "backup_node \<lparr>rb_existed = lr_had r, rb_link = lr_link r, rb_data = lr_data r\<rparr> = dw_fs w resolv_conf_path"
  using assms by (auto simp: snapshot_resolv_conf_def new_linux_runner_def backup_node_def split: option.splits node.splits)

text \<open>A snapshot on disk that is read back and applied with every call succeeding.\<close>

lemma reconcile_restores:
  assumes "dw_fs w backup_resolv_conf_path = Some (Regular (json_marshal (backup_json b)))"
  shows "\<exists>w'. linux_clear resolv_fine w = (None, w') \<and> dw_fs w' resolv_conf_path = backup_node b
    \<and> dw_fs w' backup_resolv_conf_path = None"
proof -
  obtain w1 where a: "apply_resolv_backup resolv_fine b w = (None, w1)"
    using fine_results(4) [of b w] by (metis prod.exhaust_sel)
  have fr: "dw_fs w1 resolv_conf_path = backup_node b"
    using apply_resolv_backup_replaced [OF a] by (simp add: replaced_def)
  obtain w2 where r: "remove_path (\<lambda>p. None) backup_resolv_conf_path w1 = (None, w2)"
    using fine_results(1) [of backup_resolv_conf_path w1] by (metis prod.exhaust_sel)
  from remove_path_replaced [OF r] fr have "dw_fs w2 resolv_conf_path = backup_node b" "dw_fs w2 backup_resolv_conf_path = None"
    by (simp_all add: replaced_def)
  moreover have "ri_read resolv_fine = (\<lambda>p. None)" "ri_cleanup resolv_fine = (\<lambda>p. None)" by (simp_all add: resolv_fine_def)
  ultimately show ?thesis
    using assms a r by (simp add: linux_clear_def restore_resolv_backup_def node_text_def backup_json_wf backup_of_json_json)
qed

lemma reconcile_idle:
  "dw_fs w backup_resolv_conf_path = None \<Longrightarrow> linux_clear io w = (None, w)"
  by (simp add: linux_clear_def restore_resolv_backup_def node_text_def)

lemma apply_resolv_conf_cases:
  assumes "apply_resolv_conf io ss new_linux_runner w = (e, r, w')" and "dw_fs w resolv_conf_path \<noteq> Some (Link [])"
  obtains (early) "e \<noteq> None" "w' = w"
  | (applied) b eb w1 where "backup_node b = dw_fs w resolv_conf_path"
      "b = \<lparr>rb_existed = lr_had r, rb_link = lr_link r, rb_data = lr_data r\<rparr>"
      "write_resolv_backup io b w = (eb, w1)" "write_atomic io resolv_conf_path (build_resolv_conf ss) w1 = (e, w')"
      "e = None \<longrightarrow> lr_mode r = ModeFile"
proof (cases "snapshot_resolv_conf io new_linux_runner w")
  case (Inl x)
  with assms(1) show ?thesis by (intro early) (auto simp: apply_resolv_conf_def)
next
  case (Inr r1)
  let ?b = "\<lparr>rb_existed = lr_had r1, rb_link = lr_link r1, rb_data = lr_data r1\<rparr>"
  obtain eb w1 where b: "write_resolv_backup io ?b w = (eb, w1)" by fastforce
  with assms(1) Inr have "write_atomic io resolv_conf_path (build_resolv_conf ss) w1 = (e, w')"
    "r = (if e = None then r1\<lparr>lr_mode := ModeFile\<rparr> else r1)"
    by (auto simp: apply_resolv_conf_def Let_def split: prod.splits option.splits)
  with b snapshot_node [OF Inr assms(2)] show ?thesis by (intro applied [of ?b eb w1]) auto
qed

lemma crash_recovered:
  assumes "apply_resolv_conf io ss new_linux_runner w = (e, r, w')"
    and "dw_fs w resolv_conf_path \<noteq> Some (Link [])" and "dw_fs w backup_resolv_conf_path = None"
    and "e \<noteq> None \<or> dw_fs w' backup_resolv_conf_path \<noteq> None"
  shows "\<exists>w''. linux_clear resolv_fine w' = (None, w'') \<and> dw_fs w'' resolv_conf_path = dw_fs w resolv_conf_path
    \<and> dw_fs w'' backup_resolv_conf_path = None"
  using assms(1,2)
proof (cases rule: apply_resolv_conf_cases)
  case early
  with assms(3) reconcile_idle show ?thesis by blast
next
  case (applied b eb w1)
  from write_atomic_replaced [OF applied(3) [unfolded write_resolv_backup_def]] write_atomic_replaced [OF applied(4)]
  have "dw_fs w1 resolv_conf_path = dw_fs w resolv_conf_path"
    and bk: "dw_fs w' backup_resolv_conf_path = (if eb = None then Some (Regular (json_marshal (backup_json b))) else None)"
    and rc: "dw_fs w' resolv_conf_path = (if e = None then Some (Regular (build_resolv_conf ss)) else dw_fs w resolv_conf_path)"
    using assms(3) by (simp_all add: replaced_def)
  show ?thesis
  proof (cases "eb = None")
    case True
    with bk have "dw_fs w' backup_resolv_conf_path = Some (Regular (json_marshal (backup_json b)))" by simp
    from reconcile_restores [OF this] applied(1) show ?thesis by simp
  next
    case False
    with assms(4) bk have "e \<noteq> None" "dw_fs w' backup_resolv_conf_path = None" by simp_all
    with rc reconcile_idle show ?thesis by simp
  qed
qed

section \<open>Properties\<close>


definition link_world :: dns_world where
  "link_world = \<lparr>dw_fs = Map.empty(resolv_conf_path \<mapsto> Link ''../run/stub''), dw_cmds = []\<rparr>"


lemma restore_resolv_conf_cases:
  assumes "restore_resolv_conf io r w = (e, w')"
  obtains w1 where "replaced resolv_conf_path
      (backup_node \<lparr>rb_existed = lr_had r, rb_link = lr_link r, rb_data = lr_data r\<rparr>) e w w1"
    "w' = snd (remove_path (ri_cleanup io) backup_resolv_conf_path w1)"
proof -
  have "restore_resolv_conf io r w = (case apply_resolv_backup io
      \<lparr>rb_existed = lr_had r, rb_link = lr_link r, rb_data = lr_data r\<rparr> w of
      (e, w1) \<Rightarrow> (e, snd (remove_path (ri_cleanup io) backup_resolv_conf_path w1)))"
    by (simp add: restore_resolv_conf_def apply_resolv_backup_def)
  with assms obtain w1 where "apply_resolv_backup io
      \<lparr>rb_existed = lr_had r, rb_link = lr_link r, rb_data = lr_data r\<rparr> w = (e, w1)"
    "w' = snd (remove_path (ri_cleanup io) backup_resolv_conf_path w1)" by (auto split: prod.splits)
  with apply_resolv_backup_replaced that show ?thesis by blast
qed

text \<open>Up and down leaves the resolver alone: with whatever answers of the system, if the manager applies the pushed
  servers and later removes them, then \<open>/etc/resolv.conf\<close> is the file, the link or the absence it was, no
  other path but the temporary names and the snapshot has changed, and with systemd-resolved no path at all, and
  the commands are those that set the link up and revert it.\<close>

theorem resolver_restored:
  assumes "dns_apply (linux_dns_runner io io') iface ss False (new_linux_runner, w) = (None, True, (r, w1))"
    and "dns_remove (linux_dns_runner io io') True (r, w1) = (False, (r, w2))"
    and "dw_fs w resolv_conf_path \<noteq> Some (Link [])"
    and "p \<notin> {backup_resolv_conf_path, temp_path resolv_conf_path, temp_path backup_resolv_conf_path}"
  shows "dw_fs w2 p = dw_fs w p \<and> (ri_resolved io \<longrightarrow> dw_fs w2 = dw_fs w
    \<and> dw_cmds w2 = dw_cmds w @ [[''resolvectl'', ''dns'', iface] @ valid_ips ss, [''resolvectl'', ''domain'', iface, ''~.''],
        [''resolvectl'', ''revert'', iface]])"
proof -
  from assms(1) have a: "linux_apply io (valid_ips ss) iface new_linux_runner w = (None, r, w1)"
    by (auto simp: dns_apply_def linux_dns_runner_def split: if_splits prod.splits option.splits)
  from assms(2) have d: "linux_restore io' r w1 = (None, w2)"
    by (auto simp: dns_remove_def linux_dns_runner_def split: prod.splits option.splits)
  show ?thesis
  proof (cases "ri_resolved io")
    case True
    with a d show ?thesis
      by (auto simp: linux_apply_def apply_resolvectl_def run_cmd_def linux_restore_def split: if_splits option.splits)
  next
    case False
    with a have "apply_resolv_conf io (valid_ips ss) new_linux_runner w = (None, r, w1)" by (simp add: linux_apply_def)
    from this assms(3) show ?thesis
    proof (cases rule: apply_resolv_conf_cases)
      case (applied b eb w0)
      with d obtain w3 where r: "replaced resolv_conf_path (backup_node b) None w1 w3"
        and w2: "w2 = snd (remove_path (ri_cleanup io') backup_resolv_conf_path w3)"
        by (auto simp: linux_restore_def elim: restore_resolv_conf_cases)
      note f = write_atomic_replaced [OF applied(3) [unfolded write_resolv_backup_def]] write_atomic_replaced [OF applied(4)]
      from assms(4) have "dw_fs w2 p = dw_fs w3 p" by (simp add: w2 remove_path_other)
      with f r applied(1) assms(4) False show ?thesis by (cases "p = resolv_conf_path") (auto simp: replaced_def)
    qed simp
  qed
qed

theorem resolver_restored_witness:
  "\<exists>r w1 w2. dns_apply (linux_dns_runner resolv_fine resolv_fine) ''tun0'' [''10.8.0.1''] False (new_linux_runner, link_world)
      = (None, True, (r, w1)) \<and> dns_remove (linux_dns_runner resolv_fine resolv_fine) True (r, w1) = (False, (r, w2))
    \<and> dw_fs w1 resolv_conf_path = Some (Regular (build_resolv_conf [''10.8.0.1'']))
    \<and> dw_fs w2 resolv_conf_path = Some (Link ''../run/stub'')"
proof -
  have v: "valid_ips [''10.8.0.1''] = [''10.8.0.1'']" by code_simp
  note defs = linux_dns_runner_def linux_apply_def apply_resolv_conf_def snapshot_resolv_conf_def link_world_def
    new_linux_runner_def resolv_fine_def write_resolv_backup_def write_atomic_def rename_over_def remove_path_def
  obtain r w1 where a: "dns_apply (linux_dns_runner resolv_fine resolv_fine) ''tun0'' [''10.8.0.1''] False (new_linux_runner, link_world)
      = (None, True, (r, w1))" and f: "dw_fs w1 resolv_conf_path = Some (Regular (build_resolv_conf [''10.8.0.1'']))"
    and r: "lr_mode r = ModeFile" "lr_had r" "lr_link r = ''../run/stub''"
    by (auto simp: dns_apply_def v defs Let_def split: if_splits)
  obtain w' where "symlink_atomic resolv_fine ''../run/stub'' resolv_conf_path w1 = (None, w')"
    using fine_results(3) by (metis prod.exhaust_sel)
  with r obtain w2 where d: "dns_remove (linux_dns_runner resolv_fine resolv_fine) True (r, w1) = (False, (r, w2))"
    by (simp add: dns_remove_def linux_dns_runner_def linux_restore_def restore_resolv_conf_def)
  have "dw_fs w2 resolv_conf_path = dw_fs link_world resolv_conf_path"
    using resolver_restored [OF a d, of resolv_conf_path] by (simp add: link_world_def)
  with a d f show ?thesis by (simp add: link_world_def)
qed

text \<open>A restoration that fails throws the snapshot away: when \<open>Remove\<close> cannot put \<open>/etc/resolv.conf\<close> back, the file
  still names the resolver of the tunnel and the manager still counts it as applied, but the snapshot on disk is
  gone, so that after a crash or a restart \<open>Reconcile\<close> finds nothing to undo and the host keeps a dead resolver.\<close>

theorem failed_restore_strands_resolver:
  assumes "dns_remove (linux_dns_runner io io') True (r, w1) = (True, (r, w2))"
    and "lr_mode r = ModeFile" and "ri_cleanup io' backup_resolv_conf_path = None"
  shows "dw_fs w2 resolv_conf_path = dw_fs w1 resolv_conf_path \<and> dw_fs w2 backup_resolv_conf_path = None
    \<and> linux_clear io'' w2 = (None, w2)"
proof -
  from assms(1,2) obtain e where "restore_resolv_conf io' r w1 = (Some e, w2)"
    by (auto simp: dns_remove_def linux_dns_runner_def linux_restore_def split: prod.splits option.splits)
  then obtain w3 where "replaced resolv_conf_path (backup_node \<lparr>rb_existed = lr_had r, rb_link = lr_link r, rb_data = lr_data r\<rparr>)
      (Some e) w1 w3" and w2: "w2 = snd (remove_path (ri_cleanup io') backup_resolv_conf_path w3)"
    by (rule restore_resolv_conf_cases)
  then have w3: "dw_fs w3 resolv_conf_path = dw_fs w1 resolv_conf_path" by (simp add: replaced_def)
  from assms(3) have "dw_fs w2 backup_resolv_conf_path = None" by (simp add: w2 remove_path_def)
  with w3 reconcile_idle show ?thesis by (simp add: w2 remove_path_other)
qed

theorem failed_restore_strands_resolver_witness:
  "\<exists>r w1 w2. dns_apply (linux_dns_runner resolv_fine (resolv_fine\<lparr>ri_rename := (\<lambda>p. Some ''EROFS'')\<rparr>)) ''tun0'' [''10.8.0.1'']
      False (new_linux_runner, link_world) = (None, True, (r, w1))
    \<and> dns_remove (linux_dns_runner resolv_fine (resolv_fine\<lparr>ri_rename := (\<lambda>p. Some ''EROFS'')\<rparr>)) True (r, w1) = (True, (r, w2))
    \<and> dw_fs w2 resolv_conf_path = Some (Regular (build_resolv_conf [''10.8.0.1'']))
    \<and> linux_clear resolv_fine w2 = (None, w2)"
proof -
  let ?io = "resolv_fine\<lparr>ri_rename := (\<lambda>p. Some ''EROFS'')\<rparr>"
  have v: "valid_ips [''10.8.0.1''] = [''10.8.0.1'']" by code_simp
  note defs = linux_dns_runner_def linux_apply_def apply_resolv_conf_def snapshot_resolv_conf_def link_world_def
    new_linux_runner_def resolv_fine_def write_resolv_backup_def write_atomic_def rename_over_def remove_path_def
  obtain r w1 where a: "dns_apply (linux_dns_runner resolv_fine ?io) ''tun0'' [''10.8.0.1''] False (new_linux_runner, link_world)
      = (None, True, (r, w1))" and f: "dw_fs w1 resolv_conf_path = Some (Regular (build_resolv_conf [''10.8.0.1'']))"
    and r: "lr_mode r = ModeFile" "lr_had r" "lr_link r = ''../run/stub''"
    by (auto simp: dns_apply_def v defs Let_def split: if_splits)
  have "fst (symlink_atomic ?io t p w) \<noteq> None" for t p w
    by (auto simp: symlink_atomic_def rename_over_def resolv_fine_def split: prod.splits option.splits)
  then obtain e w' where "symlink_atomic ?io ''../run/stub'' resolv_conf_path w1 = (Some e, w')"
    by (metis prod.exhaust_sel not_None_eq)
  with r obtain e w2 where "restore_resolv_conf ?io r w1 = (Some e, w2)"
    by (simp add: restore_resolv_conf_def)
  with r have d: "dns_remove (linux_dns_runner resolv_fine ?io) True (r, w1) = (True, (r, w2))"
    by (simp add: dns_remove_def linux_dns_runner_def linux_restore_def)
  have "ri_cleanup ?io backup_resolv_conf_path = None" by (simp add: resolv_fine_def)
  from failed_restore_strands_resolver [OF d r(1) this] a d f show ?thesis by auto
qed

text \<open>A session started over the remains of a crash, without a \<open>Reconcile\<close> in between (as \<open>vpn-client\<close> does, which has only the
  flag \<open>--clear-dns\<close>): the file of the tunnel is taken for the original and overwrites the snapshot of the
  real one, so that nothing brings that one back.\<close>

theorem apply_over_crash:
  assumes "dw_fs w resolv_conf_path = Some (Regular (build_resolv_conf ss0))"
  shows "\<exists>r w' w''. apply_resolv_conf resolv_fine ss new_linux_runner w = (None, r, w')
    \<and> dw_fs w' backup_resolv_conf_path = Some (Regular (json_marshal (backup_json
        \<lparr>rb_existed = True, rb_link = [], rb_data = build_resolv_conf ss0\<rparr>)))
    \<and> linux_clear resolv_fine w' = (None, w'') \<and> dw_fs w'' resolv_conf_path = Some (Regular (build_resolv_conf ss0))"
proof -
  let ?b = "\<lparr>rb_existed = True, rb_link = [], rb_data = build_resolv_conf ss0\<rparr>"
  have s: "snapshot_resolv_conf resolv_fine new_linux_runner w = Inr (new_linux_runner\<lparr>lr_data := build_resolv_conf ss0, lr_had := True\<rparr>)"
    using assms by (simp add: snapshot_resolv_conf_def resolv_fine_def)
  obtain w1 where b: "write_atomic resolv_fine backup_resolv_conf_path (json_marshal (backup_json ?b)) w = (None, w1)"
    using fine_results(2) by (metis prod.exhaust_sel)
  obtain w' where c: "write_atomic resolv_fine resolv_conf_path (build_resolv_conf ss) w1 = (None, w')"
    using fine_results(2) by (metis prod.exhaust_sel)
  have "apply_resolv_conf resolv_fine ss new_linux_runner w
      = (None, new_linux_runner\<lparr>lr_data := build_resolv_conf ss0, lr_had := True, lr_mode := ModeFile\<rparr>, w')"
    using s b c by (simp add: apply_resolv_conf_def write_resolv_backup_def new_linux_runner_def)
  moreover have bk: "dw_fs w' backup_resolv_conf_path = Some (Regular (json_marshal (backup_json ?b)))"
    using write_atomic_replaced [OF b] write_atomic_replaced [OF c] by (simp add: replaced_def)
  ultimately show ?thesis using reconcile_restores [OF bk] by (simp add: backup_node_def) blast
qed

theorem apply_over_crash_witness:
  "\<exists>r w' w''. apply_resolv_conf resolv_fine [''10.9.0.1''] new_linux_runner
      \<lparr>dw_fs = Map.empty(resolv_conf_path \<mapsto> Regular (build_resolv_conf [''10.8.0.1'']),
        backup_resolv_conf_path \<mapsto> Regular (json_marshal (backup_json \<lparr>rb_existed = True, rb_link = ''../run/stub'', rb_data = []\<rparr>))),
        dw_cmds = []\<rparr> = (None, r, w')
    \<and> linux_clear resolv_fine w' = (None, w'') \<and> dw_fs w'' resolv_conf_path = Some (Regular (build_resolv_conf [''10.8.0.1'']))"
  using apply_over_crash [of "\<lparr>dw_fs = Map.empty(resolv_conf_path \<mapsto> Regular (build_resolv_conf [''10.8.0.1'']),
        backup_resolv_conf_path \<mapsto> Regular (json_marshal (backup_json \<lparr>rb_existed = True, rb_link = ''../run/stub'', rb_data = []\<rparr>))),
        dw_cmds = []\<rparr>" "[''10.8.0.1'']" "[''10.9.0.1'']"] by auto

end
