(* ===== verification/DnsMac.thy ===== *)
theory DnsMac
  imports Guards Json "HOL-Library.AList" "HOL-Library.Multiset" "HOL-Library.List_Lexorder" "HOL-Library.Char_ord"
begin

text \<open>
  The resolver of a macOS host (\<open>src/internal/dns/dns_darwin.go\<close>): every enabled network service gets the tunnel's servers
  through \<open>networksetup\<close>, the lists it had are kept in memory and in a durable marker. \<open>networksetup\<close> is three functions
  of the state of the system; \<open>ns_lawful\<close> states what is relied on. A Go map is an association list with
  distinct keys, and the order in which \<open>range\<close> visits it is an argument. A \<open>nil\<close> slice is \<open>None\<close>.
\<close>

record 's networksetup =
  ns_list :: "'s \<Rightarrow> string + string"
  ns_get :: "string \<Rightarrow> 's \<Rightarrow> string + string"
  ns_set :: "string \<Rightarrow> string list \<Rightarrow> 's \<Rightarrow> string option \<times> 's"

text \<open>What the file system answers for the marker.\<close>

record marker_io =
  mk_mkdir :: "string option"
  mk_write :: "string option"
  mk_rename :: "string option"
  mk_read :: "string option"
  mk_remove :: "string option"

definition marker_fine :: marker_io where
  "marker_fine = \<lparr>mk_mkdir = None, mk_write = None, mk_rename = None, mk_read = None, mk_remove = None\<rparr>"

type_synonym dns_lists = "(string \<times> string list option) list"

type_synonym range_order = "dns_lists \<Rightarrow> dns_lists"

record 's mac_dns =
  md_saved :: "dns_lists option"
  md_marker :: "string option"
  md_sys :: 's

section \<open>What networksetup prints\<close>

definition fields :: "string \<Rightarrow> string list" where
  "fields s = filter (\<lambda>w. w \<noteq> []) (split_char CHR '' '' (map (\<lambda>c. if is_space c then CHR '' '' else c) s))"

text \<open>The first line is a banner; a line that starts with an asterisk is a disabled service.\<close>

definition parse_services :: "string \<Rightarrow> string list" where
  "parse_services out =
     filter (\<lambda>l. l \<noteq> [] \<and> \<not> starts_with l ''*'') (map trim_space (drop 1 (split_char (CHR 0x0A) out)))"

definition list_enabled_services :: "'s networksetup \<Rightarrow> 's \<Rightarrow> string + string list" where
  "list_enabled_services N s = (case ns_list N s of Inl e \<Rightarrow> Inl e | Inr out \<Rightarrow> Inr (parse_services out))"

definition none_set_text :: string where
  "none_set_text = ''There aren'' @ [CHR 0x27] @ ''t any''"

definition parse_dns :: "string \<Rightarrow> string list option" where
  "parse_dns out = (if starts_with (trim_space out) none_set_text then None else Some (fields (trim_space out)))"

definition get_dns :: "'s networksetup \<Rightarrow> string \<Rightarrow> 's \<Rightarrow> string + string list option" where
  "get_dns N svc s = (case ns_get N svc s of Inl e \<Rightarrow> Inl e | Inr out \<Rightarrow> Inr (parse_dns out))"

definition slice :: "string list option \<Rightarrow> string list" where
  "slice v = (case v of None \<Rightarrow> [] | Some xs \<Rightarrow> xs)"

definition restore_args :: "string list \<Rightarrow> string list" where
  "restore_args orig = (if orig = [] then [''empty''] else orig)"

section \<open>The marker\<close>

definition slice_json :: "string list option \<Rightarrow> json" where
  "slice_json v = (case v of None \<Rightarrow> JNull | Some xs \<Rightarrow> jstrs xs)"

text \<open>A map is written with its keys sorted.\<close>

definition marker_json :: "dns_lists \<Rightarrow> json" where
  "marker_json sv = JObj [(''services'', JObj (map (\<lambda>(k, v). (k, slice_json v)) (sort_key fst sv)))]"

fun set_slice :: "json \<Rightarrow> string list option option" where
  "set_slice JNull = Some None"
| "set_slice v = map_option Some (set_strings v [])"

fun set_lists_from :: "members \<Rightarrow> dns_lists \<Rightarrow> dns_lists option" where
  "set_lists_from [] a = Some a"
| "set_lists_from ((k, v) # ms) a =
     (case set_slice v of None \<Rightarrow> None | Some x \<Rightarrow> set_lists_from ms (AList.update k x a))"

fun set_lists :: "json \<Rightarrow> dns_lists \<Rightarrow> dns_lists option" where
  "set_lists (JObj ms) a = set_lists_from ms a"
| "set_lists JNull a = Some []"
| "set_lists _ a = None"

fun marker_of_json :: "json \<Rightarrow> dns_lists option" where
  "marker_of_json (JObj ms) = fold_field set_lists ''services'' ms []"
| "marker_of_json JNull = Some []"
| "marker_of_json _ = None"

definition write_dns_backup :: "marker_io \<Rightarrow> dns_lists \<Rightarrow> string option \<Rightarrow> string option \<times> string option" where
  "write_dns_backup io sv f =
     (case mk_mkdir io of Some e \<Rightarrow> (Some e, f)
      | None \<Rightarrow> (case mk_write io of Some e \<Rightarrow> (Some e, f)
      | None \<Rightarrow> (case mk_rename io of Some e \<Rightarrow> (Some e, f) | None \<Rightarrow> (None, Some (json_marshal (marker_json sv))))))"

definition read_dns_backup :: "marker_io \<Rightarrow> string option \<Rightarrow> string + dns_lists option" where
  "read_dns_backup io f =
     (case f of
        None \<Rightarrow> Inr None
      | Some t \<Rightarrow>
          (case mk_read io of
             Some e \<Rightarrow> Inl (''read dns backup: '' @ e)
           | None \<Rightarrow> (case Option.bind (json_parse t) marker_of_json of
                       None \<Rightarrow> Inl ''parse dns backup'' | Some sv \<Rightarrow> Inr (Some sv))))"

definition remove_dns_backup :: "marker_io \<Rightarrow> string option \<Rightarrow> string option" where
  "remove_dns_backup io f = (if mk_remove io = None then None else f)"

section \<open>The runner\<close>

text \<open>Every service is tried; the first error is the answer.\<close>

fun set_each :: "'s networksetup \<Rightarrow> string \<Rightarrow> (string \<times> string list) list \<Rightarrow> 's \<Rightarrow> string option \<times> 's" where
  "set_each N verb [] s = (None, s)"
| "set_each N verb ((svc, args) # xs) s =
     (case ns_set N svc args s of
        (e, s1) \<Rightarrow> (case set_each N verb xs s1 of
           (e', s2) \<Rightarrow> (case e of None \<Rightarrow> e' | Some m \<Rightarrow> Some (verb @ svc @ '': '' @ m), s2)))"

definition mac_restore :: "'s networksetup \<Rightarrow> marker_io \<Rightarrow> range_order \<Rightarrow> 's mac_dns \<Rightarrow> string option \<times> 's mac_dns" where
  "mac_restore N io ord st =
     (case md_saved st of
        None \<Rightarrow> (None, st)
      | Some sv \<Rightarrow>
          (case set_each N ''restore '' (map (\<lambda>(k, v). (k, restore_args (slice v))) (ord sv)) (md_sys st) of
             (e, s1) \<Rightarrow> (e, st\<lparr>md_saved := None, md_sys := s1,
                md_marker := if e = None then remove_dns_backup io (md_marker st) else md_marker st\<rparr>)))"

fun snapshot_dns :: "'s networksetup \<Rightarrow> 's \<Rightarrow> string list \<Rightarrow> dns_lists \<Rightarrow> string + dns_lists" where
  "snapshot_dns N s [] sv = Inr sv"
| "snapshot_dns N s (svc # svcs) sv =
     (case get_dns N svc s of
        Inl e \<Rightarrow> Inl (''get DNS for '' @ svc @ '': '' @ e)
      | Inr orig \<Rightarrow> snapshot_dns N s svcs (AList.update svc orig sv))"

fun set_all :: "'s networksetup \<Rightarrow> string list \<Rightarrow> string list \<Rightarrow> 's \<Rightarrow> string option \<times> 's" where
  "set_all N servers [] s = (None, s)"
| "set_all N servers (svc # svcs) s =
     (case ns_set N svc servers s of
        (Some e, s1) \<Rightarrow> (Some (''set DNS for '' @ svc @ '': '' @ e), s1)
      | (None, s1) \<Rightarrow> set_all N servers svcs s1)"

definition mac_apply ::
    "'s networksetup \<Rightarrow> marker_io \<Rightarrow> range_order \<Rightarrow> string list \<Rightarrow> 's mac_dns \<Rightarrow> string option \<times> 's mac_dns" where
  "mac_apply N io ord servers st =
     (case list_enabled_services N (md_sys st) of
        Inl e \<Rightarrow> (Some e, st)
      | Inr svcs \<Rightarrow>
     (if svcs = [] then (Some ''no enabled network services found'', st)
      else case snapshot_dns N (md_sys st) svcs [] of
        Inl e \<Rightarrow> (Some e, st)
      | Inr sv \<Rightarrow>
     (let st1 = st\<lparr>md_saved := Some sv, md_marker := snd (write_dns_backup io sv (md_marker st))\<rparr>
      in case set_all N servers svcs (md_sys st1) of
        (Some e, s1) \<Rightarrow> (Some e, snd (mac_restore N io ord (st1\<lparr>md_sys := s1\<rparr>)))
      | (None, s1) \<Rightarrow> (None, st1\<lparr>md_sys := s1\<rparr>))))"

text \<open>\<open>--clear-dns\<close>: every service bk to automatic, whatever it had.\<close>

definition mac_clear :: "'s networksetup \<Rightarrow> marker_io \<Rightarrow> 's mac_dns \<Rightarrow> string option \<times> 's mac_dns" where
  "mac_clear N io st =
     (case list_enabled_services N (md_sys st) of
        Inl e \<Rightarrow> (Some e, st)
      | Inr svcs \<Rightarrow>
          (case set_each N ''clear DNS for '' (map (\<lambda>svc. (svc, [''empty''])) svcs) (md_sys st) of
             (e, s1) \<Rightarrow> (e, st\<lparr>md_sys := s1, md_marker := remove_dns_backup io (md_marker st)\<rparr>)))"

definition mac_reconcile :: "'s networksetup \<Rightarrow> marker_io \<Rightarrow> range_order \<Rightarrow> 's mac_dns \<Rightarrow> string option \<times> 's mac_dns" where
  "mac_reconcile N io ord st =
     (case read_dns_backup io (md_marker st) of
        Inl e \<Rightarrow> (Some e, st)
      | Inr None \<Rightarrow> (None, st)
      | Inr (Some sv) \<Rightarrow>
          (case set_each N ''reconcile DNS for '' (map (\<lambda>(k, v). (k, restore_args (valid_ips (slice v)))) (ord sv)) (md_sys st) of
             (Some e, s1) \<Rightarrow> (Some e, st\<lparr>md_sys := s1\<rparr>)
           | (None, s1) \<Rightarrow> (None, st\<lparr>md_sys := s1, md_marker := remove_dns_backup io (md_marker st)\<rparr>)))"

section \<open>What is relied on\<close>

text \<open>The lists of the services are a function of the state; setting changes the one of the service or fails
  and changes none; \<open>empty\<close> clears it; reading prints it. A service that has no list is one with the empty list.\<close>

definition ns_lawful :: "'s networksetup \<Rightarrow> ('s \<Rightarrow> string \<Rightarrow> string list) \<Rightarrow> bool" where
  "ns_lawful N dns \<longleftrightarrow>
     (\<forall>svc args s s'. args \<noteq> [] \<longrightarrow> ns_set N svc args s = (None, s') \<longrightarrow> dns s' = (dns s)(svc := if args = [''empty''] then [] else args))
     \<and> (\<forall>svc args s e s'. ns_set N svc args s = (Some e, s') \<longrightarrow> dns s' = dns s)
     \<and> (\<forall>svc s out. ns_get N svc s = Inr out \<longrightarrow> slice (parse_dns out) = dns s svc)"

definition is_order :: "range_order \<Rightarrow> bool" where
  "is_order ord \<longleftrightarrow> (\<forall>sv. mset (ord sv) = mset sv)"

section \<open>Lemmas\<close>

lemma set_lists_from_json:
  "distinct (map fst xs) \<Longrightarrow> \<exists>a'. set_lists_from (map (\<lambda>(k, v). (k, slice_json v)) xs) a = Some a'
    \<and> map_of a' = map_of a ++ map_of xs \<and> (distinct (map fst a) \<longrightarrow> distinct (map fst a'))"
proof (induction xs arbitrary: a)
  case (Cons x xs)
  obtain k v where x: "x = (k, v)" by fastforce
  have v: "set_slice (slice_json v) = Some v" by (cases v) (simp_all add: slice_json_def jstrs_def comp_def)
  from Cons obtain a' where a': "set_lists_from (map (\<lambda>(k, v). (k, slice_json v)) xs) (AList.update k v a) = Some a'"
    "map_of a' = map_of (AList.update k v a) ++ map_of xs"
    "distinct (map fst (AList.update k v a)) \<longrightarrow> distinct (map fst a')" by (auto simp: x)
  have "map_of xs k = None" using Cons.prems by (simp add: x map_of_eq_None_iff)
  then have "map_of a' j = (map_of a ++ map_of (x # xs)) j" for j
    by (cases "j = k") (auto simp: a'(2) x update_conv' map_add_def split: option.splits)
  then have "map_of a' = map_of a ++ map_of (x # xs)" by blast
  moreover have "set_lists_from (map (\<lambda>(k, v). (k, slice_json v)) (x # xs)) a = Some a'" by (simp add: x v a'(1))
  ultimately show ?case using a'(3) distinct_update [of a k v] by blast
qed simp

lemma marker_roundtrip:
  assumes "distinct (map fst sv)"
  shows "\<exists>sv'. Option.bind (json_parse (json_marshal (marker_json sv))) marker_of_json = Some sv'
    \<and> set sv' = set sv \<and> distinct (map fst sv')"
proof -
  let ?xs = "sort_key fst sv"
  have "mset (map fst ?xs) = mset (map fst sv)" by simp
  with assms have d: "distinct (map fst ?xs)" by (metis mset_eq_imp_distinct_iff)
  from set_lists_from_json [OF d, of "[]"] obtain sv' where
    sv': "set_lists_from (map (\<lambda>(k, v). (k, slice_json v)) ?xs) [] = Some sv'" "map_of sv' = map_of ?xs" "distinct (map fst sv')"
    by auto
  from sv'(2,3) d have "set sv' = set ?xs" by (simp add: map_of_inject_set)
  moreover have "json_wf (marker_json sv)"
    by (auto simp: marker_json_def list_all_iff slice_json_def split: option.splits)
  ultimately show ?thesis using sv' by (simp add: marker_json_def fold_eval)
qed

lemma lawful_set:
  assumes "ns_lawful N dns" and "args \<noteq> []" and "ns_set N svc args s = (e, s')"
  shows "dns s' = (if e = None then (dns s)(svc := if args = [''empty''] then [] else args) else dns s)"
  using assms unfolding ns_lawful_def by (cases e) auto

lemma set_each_effect:
  assumes "ns_lawful N dns"
  shows "set_each N verb xs s = (e, s') \<Longrightarrow> distinct (map fst xs) \<Longrightarrow> (\<And>k v. (k, v) \<in> set xs \<Longrightarrow> v \<noteq> [])
    \<Longrightarrow> (\<forall>k. k \<notin> fst ` set xs \<longrightarrow> dns s' k = dns s k)
      \<and> (e = None \<longrightarrow> (\<forall>(k, v) \<in> set xs. dns s' k = (if v = [''empty''] then [] else v)))"
proof (induction xs arbitrary: s e)
  case (Cons x xs)
  obtain k v where x: "x = (k, v)" by fastforce
  obtain e1 s1 where s1: "ns_set N k v s = (e1, s1)" by fastforce
  obtain e2 where e2: "set_each N verb xs s1 = (e2, s')" "e = None \<longleftrightarrow> e1 = None \<and> e2 = None"
    using Cons.prems(1) by (auto simp: x s1 split: prod.splits option.splits)
  have v: "v \<noteq> []" using Cons.prems(3) [of k v] by (simp add: x)
  have "(\<forall>k. k \<notin> fst ` set xs \<longrightarrow> dns s' k = dns s1 k)
      \<and> (e2 = None \<longrightarrow> (\<forall>(k, v) \<in> set xs. dns s' k = (if v = [''empty''] then [] else v)))"
    using Cons.prems(2,3) by (intro Cons.IH [OF e2(1)]) auto
  with lawful_set [OF assms v s1] e2(2) Cons.prems(2) show ?case by (auto simp: x)
qed simp

lemma set_all_frame:
  assumes "ns_lawful N dns" and "servers \<noteq> []"
  shows "set_all N servers svcs s = (e, s') \<Longrightarrow> k \<notin> set svcs \<Longrightarrow> dns s' k = dns s k"
proof (induction svcs arbitrary: s)
  case (Cons svc svcs)
  obtain e1 s1 where s1: "ns_set N svc servers s = (e1, s1)" by fastforce
  with Cons lawful_set [OF assms s1] show ?case by (auto split: option.splits)
qed simp

lemma snapshot_dns_Inr:
  "snapshot_dns N s svcs sv = Inr sv' \<Longrightarrow> ns_lawful N dns \<Longrightarrow> distinct (map fst sv) \<Longrightarrow> (\<And>k v. (k, v) \<in> set sv \<Longrightarrow> slice v = dns s k)
    \<Longrightarrow> distinct (map fst sv') \<and> fst ` set sv' = fst ` set sv \<union> set svcs \<and> (\<forall>(k, v) \<in> set sv'. slice v = dns s k)"
proof (induction N s svcs sv rule: snapshot_dns.induct)
  case (2 N s svc svcs sv)
  then obtain orig where g: "get_dns N svc s = Inr orig" "snapshot_dns N s svcs (AList.update svc orig sv) = Inr sv'"
    by (auto split: sum.splits)
  from g(1) 2(3) have o: "slice orig = dns s svc" by (auto simp: get_dns_def ns_lawful_def split: sum.splits)
  have "distinct (map fst (AList.update svc orig sv))" using 2(4) by (rule distinct_update)
  moreover have "slice v = dns s k" if "(k, v) \<in> set (AList.update svc orig sv)" for k v
  proof -
    have "map_of (AList.update svc orig sv) k = Some v" using that calculation by simp
    with o 2(4,5) show ?thesis by (auto simp: update_conv' split: if_splits dest: map_of_SomeD)
  qed
  moreover have "fst ` set (AList.update svc orig sv) = insert svc (fst ` set sv)"
    using dom_update [of svc orig sv] by (simp add: dom_map_of_conv_image_fst)
  ultimately show ?case using 2(1) [OF g(1,2) 2(3)] by auto
qed auto

text \<open>A list a service is given back: the one it had, or, where a marker was read, that list without the entries that are not
  valid addresses (those with a zone among them).\<close>

definition list_kept :: "string list \<Rightarrow> string list \<Rightarrow> bool" where
  "list_kept v w \<longleftrightarrow> w = v \<or> w = valid_ips v"

lemma list_kept_refl [simp]: "list_kept v v"
  by (simp add: list_kept_def)

lemma list_kept_valid: "valid_ips v = v \<Longrightarrow> list_kept v w \<longleftrightarrow> w = v"
  by (auto simp: list_kept_def)

text \<open>What a crash may leave: lists that are kept and no marker, or a marker that lists every service that may have changed.\<close>

definition recoverable :: "('s \<Rightarrow> string \<Rightarrow> string list) \<Rightarrow> 's \<Rightarrow> 's mac_dns \<Rightarrow> bool" where
  "recoverable dns s0 st \<longleftrightarrow>
     (md_marker st = None \<and> (\<forall>k. list_kept (dns s0 k) (dns (md_sys st) k)))
     \<or> (\<exists>sv. md_marker st = Some (json_marshal (marker_json sv)) \<and> distinct (map fst sv)
          \<and> (\<forall>(k, v) \<in> set sv. slice v = dns s0 k) \<and> (\<forall>k. k \<notin> fst ` set sv \<longrightarrow> dns (md_sys st) k = dns s0 k))"

lemma restore_args_kept:
  "restore_args xs \<noteq> []" "list_kept xs (if restore_args xs = [''empty''] then [] else restore_args xs)"
  "list_kept xs (if restore_args (valid_ips xs) = [''empty''] then [] else restore_args (valid_ips xs))"
proof -
  have "parse_ip (trim_space ''empty'') = None" by code_simp
  then have e: "valid_ips [''empty''] = []" by (simp add: valid_ips_def)
  have "parse_ip ''empty'' = None" by code_simp
  then have "''empty'' \<notin> set (valid_ips xs)" by (auto simp: valid_ips_def)
  then have "valid_ips xs \<noteq> [''empty'']" by auto
  with e show "restore_args xs \<noteq> []" "list_kept xs (if restore_args xs = [''empty''] then [] else restore_args xs)"
    "list_kept xs (if restore_args (valid_ips xs) = [''empty''] then [] else restore_args (valid_ips xs))"
    by (auto simp: restore_args_def list_kept_def)
qed

text \<open>Setting every recorded service bk, in whatever order.\<close>

lemma put_back:
  assumes "ns_lawful N dns" and "mset ys = mset sv" and "distinct (map fst sv)" and "\<forall>(k, v) \<in> set sv. slice v = dns s0 k"
    and "\<And>v. v \<in> snd ` set sv \<Longrightarrow> f v = restore_args (slice v) \<or> f v = restore_args (valid_ips (slice v))"
    and "set_each N verb (map (\<lambda>(k, v). (k, f v)) ys) s = (e, s')"
  shows "(\<forall>k. k \<notin> fst ` set sv \<longrightarrow> dns s' k = dns s k) \<and> (e = None \<longrightarrow> (\<forall>k \<in> fst ` set sv. list_kept (dns s0 k) (dns s' k)))"
proof -
  have ys: "set ys = set sv" using assms(2) by (metis set_mset_mset)
  have "mset (map fst ys) = mset (map fst sv)" using assms(2) by simp
  with assms(3) have "distinct (map fst ys)" by (metis mset_eq_imp_distinct_iff)
  then have d: "distinct (map fst (map (\<lambda>(k, v). (k, f v)) ys))" by (simp add: comp_def case_prod_beta)
  have f: "f v = restore_args (dns s0 k) \<or> f v = restore_args (valid_ips (dns s0 k))" if "(k, v) \<in> set sv" for k v
  proof -
    from that have "v \<in> snd ` set sv" by force
    from assms(5) [OF this] have "f v = restore_args (slice v) \<or> f v = restore_args (valid_ips (slice v))" .
    moreover from assms(4) that have "slice v = dns s0 k" by blast
    ultimately show ?thesis by simp
  qed
  have n: "v \<noteq> []" if "(k, v) \<in> set (map (\<lambda>(k, v). (k, f v)) ys)" for k v
  proof -
    from that obtain w where "(k, w) \<in> set sv" "v = f w" by (auto simp: ys)
    with f [of k w] restore_args_kept(1) show ?thesis by metis
  qed
  from set_each_effect [OF assms(1,6) d n]
  have e: "(\<forall>k. k \<notin> fst ` set (map (\<lambda>(k, v). (k, f v)) ys) \<longrightarrow> dns s' k = dns s k)
      \<and> (e = None \<longrightarrow> (\<forall>(k, v) \<in> set (map (\<lambda>(k, v). (k, f v)) ys). dns s' k = (if v = [''empty''] then [] else v)))" .
  have im: "fst ` set (map (\<lambda>(k, v). (k, f v)) ys) = fst ` set sv" by (force simp: ys)
  have "list_kept (dns s0 k) (dns s' k)" if "e = None" "(k, v) \<in> set sv" for k v
  proof -
    from that ys have "(k, f v) \<in> set (map (\<lambda>(k, v). (k, f v)) ys)" by force
    with e that(1) have "dns s' k = (if f v = [''empty''] then [] else f v)" by blast
    with f [OF that(2)] restore_args_kept(2,3) [of "dns s0 k"] show ?thesis
      by (elim disjE) (simp_all only:)
  qed
  with e im show ?thesis by auto
qed

lemma reconcile_step:
  assumes "ns_lawful N dns" and "is_order ord" and "recoverable dns s0 st" and "mac_reconcile N io ord st = (e, st')"
  shows "recoverable dns s0 st' \<and> (e = None \<longrightarrow> (\<forall>k. list_kept (dns s0 k) (dns (md_sys st') k))
    \<and> (mk_remove io = None \<longrightarrow> md_marker st' = None))"
  using assms(3) unfolding recoverable_def [of dns s0 st]
proof (elim disjE exE conjE)
  assume "md_marker st = None" and "\<forall>k. list_kept (dns s0 k) (dns (md_sys st) k)"
  with assms(4) show ?thesis by (auto simp: mac_reconcile_def read_dns_backup_def recoverable_def)
next
  fix sv
  assume m: "md_marker st = Some (json_marshal (marker_json sv))" and d: "distinct (map fst sv)"
    and v: "\<forall>(k, v) \<in> set sv. slice v = dns s0 k" and fr: "\<forall>k. k \<notin> fst ` set sv \<longrightarrow> dns (md_sys st) k = dns s0 k"
  from marker_roundtrip [OF d] obtain sv' where
    sv': "Option.bind (json_parse (json_marshal (marker_json sv))) marker_of_json = Some sv'" "set sv' = set sv" "distinct (map fst sv')" by blast
  show ?thesis
  proof (cases "mk_read io")
    case (Some x)
    with assms(4) m have "st' = st" "e = Some (''read dns backup: '' @ x)" by (auto simp: mac_reconcile_def read_dns_backup_def)
    with assms(3) show ?thesis by simp
  next
    case None
    let ?f = "\<lambda>v. restore_args (valid_ips (slice v))"
    obtain e1 s1 where s1: "set_each N ''reconcile DNS for '' (map (\<lambda>(k, v). (k, ?f v)) (ord sv')) (md_sys st) = (e1, s1)"
      by fastforce
    from put_back [OF assms(1) _ sv'(3) _ _ s1] assms(2) v sv'(2)
    have bk: "(\<forall>k. k \<notin> fst ` set sv \<longrightarrow> dns s1 k = dns (md_sys st) k) \<and> (e1 = None \<longrightarrow> (\<forall>k \<in> fst ` set sv. list_kept (dns s0 k) (dns s1 k)))"
      by (simp add: is_order_def)
    have e: "e = e1" "st' = st\<lparr>md_sys := s1, md_marker := if e1 = None then remove_dns_backup io (md_marker st) else md_marker st\<rparr>"
      using assms(4) m None sv'(1) s1 by (auto simp: mac_reconcile_def read_dns_backup_def split: option.splits)
    have all: "list_kept (dns s0 k) (dns s1 k)" if "e1 = None" for k
      using bk fr that by (cases "k \<in> fst ` set sv") auto
    have "recoverable dns s0 st'"
    proof (cases "md_marker st' = None")
      case True
      with e m all show ?thesis by (auto simp: recoverable_def split: if_splits)
    next
      case False
      with e m have "md_marker st' = Some (json_marshal (marker_json sv))"
        by (auto simp: remove_dns_backup_def split: if_splits)
      with d v bk fr e show ?thesis unfolding recoverable_def by (intro disjI2 exI [of _ sv]) auto
    qed
    with e all show ?thesis by (auto simp: remove_dns_backup_def)
  qed
qed

lemma apply_recoverable:
  assumes "ns_lawful N dns" and "is_order ord" and "servers \<noteq> []"
    and "md_marker st = None \<or> e = None" and "mk_mkdir io = None" "mk_write io = None" "mk_rename io = None"
    and "mac_apply N io ord servers st = (e, st')"
  shows "recoverable dns (md_sys st) st'"
proof (cases "\<exists>svcs sv. list_enabled_services N (md_sys st) = Inr svcs \<and> svcs \<noteq> [] \<and> snapshot_dns N (md_sys st) svcs [] = Inr sv")
  case False
  with assms(8) have "st' = st" "e \<noteq> None" by (auto simp: mac_apply_def split: sum.splits if_splits)
  with assms(4) show ?thesis by (simp add: recoverable_def)
next
  case True
  then obtain svcs sv where sv: "list_enabled_services N (md_sys st) = Inr svcs" "svcs \<noteq> []"
    "snapshot_dns N (md_sys st) svcs [] = Inr sv" by blast
  from snapshot_dns_Inr [OF sv(3) assms(1)] have d: "distinct (map fst sv)" "fst ` set sv = set svcs"
    "\<forall>(k, v) \<in> set sv. slice v = dns (md_sys st) k" by auto
  obtain e1 s1 where s1: "set_all N servers svcs (md_sys st) = (e1, s1)" by fastforce
  have fr: "dns s1 k = dns (md_sys st) k" if "k \<notin> fst ` set sv" for k
    using set_all_frame [OF assms(1,3) s1] that d(2) by simp
  let ?st1 = "st\<lparr>md_saved := Some sv, md_marker := Some (json_marshal (marker_json sv)), md_sys := s1\<rparr>"
  have w: "snd (write_dns_backup io sv (md_marker st)) = Some (json_marshal (marker_json sv))"
    by (simp add: write_dns_backup_def assms(5-7))
  show ?thesis
  proof (cases e1)
    case None
    with assms(8) sv s1 w have "st' = ?st1" by (simp add: mac_apply_def Let_def)
    with d fr show ?thesis unfolding recoverable_def by (intro disjI2 exI [of _ sv]) auto
  next
    case (Some x)
    obtain e2 s2 where s2: "set_each N ''restore '' (map (\<lambda>(k, v). (k, restore_args (slice v))) (ord sv)) s1 = (e2, s2)" by fastforce
    have st': "st' = ?st1\<lparr>md_saved := None, md_sys := s2,
        md_marker := if e2 = None then remove_dns_backup io (md_marker ?st1) else md_marker ?st1\<rparr>"
      using assms(8) sv s1 w Some s2 by (simp add: mac_apply_def Let_def mac_restore_def)
    from put_back [OF assms(1) _ d(1,3) _ s2] assms(2)
    have bk: "(\<forall>k. k \<notin> fst ` set sv \<longrightarrow> dns s2 k = dns s1 k) \<and> (e2 = None \<longrightarrow> (\<forall>k \<in> fst ` set sv. list_kept (dns (md_sys st) k) (dns s2 k)))"
      by (simp add: is_order_def)
    show ?thesis
    proof (cases "md_marker st' = None")
      case True
      have "list_kept (dns (md_sys st) k) (dns s2 k)" for k
        using True st' bk fr by (cases "k \<in> fst ` set sv") (auto split: if_splits)
      with True st' show ?thesis by (auto simp: recoverable_def)
    next
      case False
      with st' have "md_marker st' = Some (json_marshal (marker_json sv))" by (auto simp: remove_dns_backup_def split: if_splits)
      with d bk fr st' show ?thesis unfolding recoverable_def by (intro disjI2 exI [of _ sv]) auto
    qed
  qed
qed

text \<open>The starts of the helper: each reconciles, whatever comes of it.\<close>

fun mac_starts :: "'s networksetup \<Rightarrow> (marker_io \<times> range_order) list \<Rightarrow> 's mac_dns \<Rightarrow> 's mac_dns" where
  "mac_starts N [] st = st"
| "mac_starts N ((io, ord) # tries) st = mac_starts N tries (snd (mac_reconcile N io ord st))"

lemma mac_starts_recoverable:
  assumes "ns_lawful N dns"
  shows "recoverable dns s0 st \<Longrightarrow> list_all (\<lambda>(io, ord). is_order ord) tries \<Longrightarrow> recoverable dns s0 (mac_starts N tries st)"
proof (induction tries arbitrary: st)
  case (Cons t tries)
  obtain io ord where t: "t = (io, ord)" by fastforce
  obtain e st' where r: "mac_reconcile N io ord st = (e, st')" by fastforce
  from Cons.prems(2) have "is_order ord" by (simp add: t)
  from reconcile_step [OF assms(1) this Cons.prems(1) r] Cons show ?case by (simp add: t r)
qed simp

section \<open>Properties\<close>

text \<open>(C20) macOS keeps the resolvers it had: on a lawful \<open>networksetup\<close> and without a marker of an earlier crash, after
  \<open>Apply\<close> has ended in any way with its marker written (a crash is a run in which every call fails from some point
  on), and after any number of starts of the helper whose recovery fails halfway, the first one that succeeds leaves every
  service with the list it had before, or with that list without the entries that are no valid IP address (the
  recovery filters what it reads, so a resolver written with a zone is lost), and no marker if that can be removed.\<close>

theorem mac_crash_recovery:
  assumes "ns_lawful N dns" and "is_order ord" and "servers \<noteq> []"
    and "md_marker st = None" and "mk_mkdir io = None" "mk_write io = None" "mk_rename io = None"
    and "mac_apply N io ord servers st = (e, st1)" and "list_all (\<lambda>(io, ord). is_order ord) tries" and "is_order ord'"
    and "mac_reconcile N io' ord' (mac_starts N tries (st1\<lparr>md_saved := None\<rparr>)) = (None, st2)"
  shows "(\<forall>k. dns (md_sys st2) k = dns (md_sys st) k \<or> dns (md_sys st2) k = valid_ips (dns (md_sys st) k))
    \<and> (mk_remove io' = None \<longrightarrow> md_marker st2 = None)"
proof -
  have "recoverable dns (md_sys st) st1"
    using apply_recoverable [OF assms(1-3) _ assms(5-8)] assms(4) by blast
  then have "recoverable dns (md_sys st) (st1\<lparr>md_saved := None\<rparr>)" by (simp add: recoverable_def)
  from mac_starts_recoverable [OF assms(1) this assms(9)]
  have "recoverable dns (md_sys st) (mac_starts N tries (st1\<lparr>md_saved := None\<rparr>))" .
  from reconcile_step [OF assms(1,10) this assms(11)] show ?thesis by (simp add: list_kept_def)
qed

text \<open>A tool that computes: the state is the lists; it refuses to print a list that could not be read back.\<close>

definition toy_tool :: "(string \<Rightarrow> string list) networksetup" where
  "toy_tool = \<lparr>ns_list = (\<lambda>s. Inr (''banner'' @ [CHR 0x0A] @ ''Wi-Fi'' @ [CHR 0x0A] @ ''*Bridge'' @ [CHR 0x0A] @ ''LAN'' @ [CHR 0x0A])),
     ns_get = (\<lambda>svc s. let out = (if s svc = [] then none_set_text else join [CHR 0x0A] (s svc))
       in if slice (parse_dns out) = s svc then Inr out else Inl ''unprintable''),
     ns_set = (\<lambda>svc args s. (None, s(svc := if args = [''empty''] then [] else args)))\<rparr>"

definition toy_lists :: "string \<Rightarrow> string list" where
  "toy_lists = (\<lambda>k. [])(''Wi-Fi'' := [''1.1.1.1'', ''9.9.9.9''])"

lemma toy_lawful: "ns_lawful toy_tool (\<lambda>s. s)"
  by (auto simp: ns_lawful_def toy_tool_def Let_def split: if_splits)

lemma toy_valid: "valid_ips (toy_lists k) = toy_lists k"
proof -
  have "valid_ips [''1.1.1.1'', ''9.9.9.9''] = [''1.1.1.1'', ''9.9.9.9'']" by code_simp
  then show ?thesis by (simp add: toy_lists_def valid_ips_def)
qed

definition toy_mac :: "(string \<Rightarrow> string list) mac_dns" where
  "toy_mac = \<lparr>md_saved = None, md_marker = None, md_sys = toy_lists\<rparr>"

definition toy_record :: dns_lists where
  "toy_record = [(''Wi-Fi'', Some [''1.1.1.1'', ''9.9.9.9'']), (''LAN'', None)]"

lemma toy_set_each: "fst (set_each toy_tool verb xs s) = None"
  by (induction toy_tool verb xs s rule: set_each.induct) (auto simp: toy_tool_def split: prod.splits)

lemma toy_services: "list_enabled_services toy_tool s = Inr [''Wi-Fi'', ''LAN'']"
proof -
  have p: "parse_services (''banner'' @ [CHR 0x0A] @ ''Wi-Fi'' @ [CHR 0x0A] @ ''*Bridge'' @ [CHR 0x0A] @ ''LAN'' @ [CHR 0x0A]) = [''Wi-Fi'', ''LAN'']"
    by code_simp
  show ?thesis unfolding list_enabled_services_def by (simp only: toy_tool_def networksetup.simps p sum.case)
qed

lemma toy_reconcile:
  assumes "md_marker st = Some (json_marshal (marker_json sv))" and "distinct (map fst sv)"
  shows "\<exists>st'. mac_reconcile toy_tool marker_fine ord st = (None, st')"
proof -
  from marker_roundtrip [OF assms(2)] obtain sv' where
    sv: "Option.bind (json_parse (json_marshal (marker_json sv))) marker_of_json = Some sv'" by blast
  obtain s1 where "set_each toy_tool ''reconcile DNS for ''
      (map (\<lambda>(k, v). (k, restore_args (valid_ips (slice v)))) (ord sv')) (md_sys st) = (None, s1)"
    using toy_set_each by (metis prod.exhaust_sel)
  then show ?thesis by (simp add: mac_reconcile_def read_dns_backup_def assms(1) sv marker_fine_def)
qed

lemma toy_apply:
  "mac_apply toy_tool marker_fine id [''10.8.0.1''] toy_mac = (None, \<lparr>md_saved = Some toy_record,
     md_marker = Some (json_marshal (marker_json toy_record)),
     md_sys = (\<lambda>k. [])(''Wi-Fi'' := [''10.8.0.1''], ''LAN'' := [''10.8.0.1''])\<rparr>)"
proof -
  have d: "parse_dns (join [CHR 0x0A] [''1.1.1.1'', ''9.9.9.9'']) = Some [''1.1.1.1'', ''9.9.9.9'']" "parse_dns none_set_text = None"
    by code_simp+
  have g: "get_dns toy_tool ''Wi-Fi'' toy_lists = Inr (Some [''1.1.1.1'', ''9.9.9.9''])" "get_dns toy_tool ''LAN'' toy_lists = Inr None"
    using d by (simp_all add: get_dns_def toy_tool_def toy_lists_def Let_def slice_def)
  have s: "snapshot_dns toy_tool toy_lists [''Wi-Fi'', ''LAN''] [] = Inr toy_record"
    by (simp add: g toy_record_def)
  have a: "set_all toy_tool [''10.8.0.1''] [''Wi-Fi'', ''LAN''] toy_lists
      = (None, (\<lambda>k. [])(''Wi-Fi'' := [''10.8.0.1''], ''LAN'' := [''10.8.0.1'']))"
    by (simp add: toy_tool_def toy_lists_def)
  show ?thesis
    using a by (simp add: mac_apply_def toy_services toy_mac_def s write_dns_backup_def marker_fine_def Let_def
        del: snapshot_dns.simps set_all.simps fun_upd_apply)
qed

theorem mac_crash_recovery_witness:
  "\<exists>st1 st2. mac_apply toy_tool marker_fine id [''10.8.0.1''] toy_mac = (None, st1)
    \<and> md_sys st1 ''LAN'' = [''10.8.0.1'']
    \<and> mac_reconcile toy_tool marker_fine rev (mac_starts toy_tool [(marker_fine\<lparr>mk_read := Some ''EIO''\<rparr>, id)] (st1\<lparr>md_saved := None\<rparr>)) = (None, st2)
    \<and> md_sys st2 = toy_lists \<and> md_marker st2 = None"
proof -
  obtain st1 where a: "mac_apply toy_tool marker_fine id [''10.8.0.1''] toy_mac = (None, st1)"
    and m: "md_marker st1 = Some (json_marshal (marker_json toy_record))" and l: "md_sys st1 ''LAN'' = [''10.8.0.1'']"
    using toy_apply by simp
  let ?st = "mac_starts toy_tool [(marker_fine\<lparr>mk_read := Some ''EIO''\<rparr>, id)] (st1\<lparr>md_saved := None\<rparr>)"
  have st: "?st = st1\<lparr>md_saved := None\<rparr>" by (simp add: mac_reconcile_def read_dns_backup_def m)
  have "md_marker ?st = Some (json_marshal (marker_json toy_record))" "distinct (map fst toy_record)"
    unfolding st by (simp add: m) (simp add: toy_record_def)
  from toy_reconcile [OF this] obtain st2 where r: "mac_reconcile toy_tool marker_fine rev ?st = (None, st2)" by blast
  have "(\<forall>k. md_sys st2 k = md_sys toy_mac k \<or> md_sys st2 k = valid_ips (md_sys toy_mac k))
      \<and> (mk_remove marker_fine = None \<longrightarrow> md_marker st2 = None)"
    by (rule mac_crash_recovery [OF toy_lawful _ _ _ _ _ _ a _ _ r])
      (simp_all add: toy_mac_def marker_fine_def is_order_def)
  then have "md_sys st2 = md_sys toy_mac \<and> (mk_remove marker_fine = None \<longrightarrow> md_marker st2 = None)"
    by (auto simp: toy_mac_def toy_valid)
  with a l r show ?thesis by (auto simp: toy_mac_def marker_fine_def)
qed

text \<open>A second session forgets the original: when a restoration has failed, or the process died, some services still have the
  servers of the tunnel and the marker knows the lists they had, which a recovery now would bring back; but if \<open>Apply\<close>
  runs first (the helper reconciles only when it starts, \<open>vpn-client\<close> never), the marker is overwritten with
  the lists of that moment, and every later recovery goes back to those.\<close>

theorem second_session_forgets_original:
  assumes "ns_lawful N dns" and "is_order ord" "is_order ord'" "is_order ord''" and "servers \<noteq> []"
    and "mk_mkdir io = None" "mk_write io = None" "mk_rename io = None"
    and "\<And>k. valid_ips (dns s0 k) = dns s0 k" and "\<And>k. valid_ips (dns (md_sys st1) k) = dns (md_sys st1) k"
    and "recoverable dns s0 st1" and "mac_reconcile N io' ord' st1 = (None, sta)"
    and "mac_apply N io ord servers st1 = (None, st2)" and "mac_reconcile N io'' ord'' (st2\<lparr>md_saved := None\<rparr>) = (None, stb)"
  shows "dns (md_sys sta) = dns s0 \<and> dns (md_sys stb) = dns (md_sys st1)"
proof -
  have "recoverable dns (md_sys st1) st2"
    by (rule apply_recoverable [OF assms(1,2,5) _ assms(6-8,13)]) simp
  then have "recoverable dns (md_sys st1) (st2\<lparr>md_saved := None\<rparr>)" by (simp add: recoverable_def)
  from reconcile_step [OF assms(1,4) this assms(14)] reconcile_step [OF assms(1,3,11,12)] show ?thesis
    by (simp add: list_kept_valid assms(9,10) fun_eq_iff)
qed

theorem second_session_forgets_original_witness:
  "\<exists>st1 sta st2 stb. mac_apply toy_tool marker_fine id [''10.8.0.1''] toy_mac = (None, st1)
    \<and> mac_reconcile toy_tool marker_fine id st1 = (None, sta) \<and> md_sys sta = toy_lists
    \<and> mac_apply toy_tool marker_fine id [''10.9.0.1''] st1 = (None, st2)
    \<and> mac_reconcile toy_tool marker_fine id (st2\<lparr>md_saved := None\<rparr>) = (None, stb) \<and> md_sys stb ''LAN'' = [''10.8.0.1'']"
proof -
  let ?t = "(\<lambda>k. [])(''Wi-Fi'' := [''10.8.0.1''], ''LAN'' := [''10.8.0.1''])"
  obtain st1 where a: "mac_apply toy_tool marker_fine id [''10.8.0.1''] toy_mac = (None, st1)"
    and m: "md_marker st1 = Some (json_marshal (marker_json toy_record))" and l: "md_sys st1 = ?t"
    using toy_apply by simp
  have dis: "distinct (map fst toy_record)" by (simp add: toy_record_def)
  from toy_reconcile [OF m dis] obtain sta where ra: "mac_reconcile toy_tool marker_fine id st1 = (None, sta)" by blast
  have "parse_dns (join [CHR 0x0A] [''10.8.0.1'']) = Some [''10.8.0.1'']" by code_simp
  then have g: "get_dns toy_tool ''Wi-Fi'' ?t = Inr (Some [''10.8.0.1''])" "get_dns toy_tool ''LAN'' ?t = Inr (Some [''10.8.0.1''])"
    by (simp_all add: get_dns_def toy_tool_def Let_def slice_def)
  let ?sv = "[(''Wi-Fi'', Some [''10.8.0.1'']), (''LAN'', Some [''10.8.0.1''])]"
  have s: "snapshot_dns toy_tool ?t [''Wi-Fi'', ''LAN''] [] = Inr ?sv" by (simp add: g del: fun_upd_apply)
  have "\<exists>s1. set_all toy_tool [''10.9.0.1''] [''Wi-Fi'', ''LAN''] ?t = (None, s1)" by (simp add: toy_tool_def)
  then obtain st2 where ap: "mac_apply toy_tool marker_fine id [''10.9.0.1''] st1 = (None, st2)"
    and m2: "md_marker (st2\<lparr>md_saved := None\<rparr>) = Some (json_marshal (marker_json ?sv))"
    using s by (auto simp: mac_apply_def toy_services l write_dns_backup_def marker_fine_def Let_def
        simp del: snapshot_dns.simps set_all.simps fun_upd_apply)
  from toy_reconcile [OF m2] obtain stb where rb: "mac_reconcile toy_tool marker_fine id (st2\<lparr>md_saved := None\<rparr>) = (None, stb)" by force
  have rec: "recoverable (\<lambda>s. s) toy_lists st1"
    using apply_recoverable [OF toy_lawful _ _ _ _ _ _ a] by (simp add: toy_mac_def toy_valid marker_fine_def is_order_def)
  have "valid_ips [''10.8.0.1''] = [''10.8.0.1'']" by code_simp
  then have v: "valid_ips (md_sys st1 k) = md_sys st1 k" for k by (simp add: l valid_ips_def)
  have "md_sys sta = toy_lists \<and> md_sys stb = md_sys st1"
    by (rule second_session_forgets_original [OF toy_lawful _ _ _ _ _ _ _ _ _ rec ra ap rb])
      (simp_all add: is_order_def marker_fine_def toy_valid v)
  with a ra ap rb l show ?thesis by auto
qed

end
