(* ===== verification/FirewallMac.thy ===== *)
theory FirewallMac
  imports DnsMac
begin

text \<open>
  Leak protection on macOS (\<open>src/internal/firewall/firewall_darwin.go\<close>): IPv6 is turned off on every enabled network
  service and put back from the modes that were found. \<open>networksetup\<close> is again three functions of the state of
  the system; \<open>v6_lawful\<close> states what is relied on.
\<close>

record 's v6_tool =
  vt_list :: "'s \<Rightarrow> string + string"
  vt_info :: "string \<Rightarrow> 's \<Rightarrow> string + string"
  vt_set :: "string \<Rightarrow> string \<Rightarrow> 's \<Rightarrow> string option \<times> 's"

type_synonym modes = "(string \<times> string) list"

record 's mac_fw =
  mf_saved :: "modes option"
  mf_sys :: 's

section \<open>What networksetup prints\<close>

definition v6_services :: "'s v6_tool \<Rightarrow> 's \<Rightarrow> string + string list" where
  "v6_services T s = (case vt_list T s of Inl e \<Rightarrow> Inl e | Inr out \<Rightarrow> Inr (parse_services out))"

text \<open>The mode stands on the line that starts with \<open>IPv6:\<close>, colon included.\<close>

fun find_v6_mode :: "string list \<Rightarrow> string + string" where
  "find_v6_mode [] = Inl ''no IPv6 line in networksetup -getinfo output''"
| "find_v6_mode (l # ls) =
     (if starts_with (trim_space l) ''IPv6:''
      then (if trim_space (drop 5 (trim_space l)) = [] then Inl ''empty IPv6 mode in networksetup -getinfo output''
            else Inr (trim_space (drop 5 (trim_space l))))
      else find_v6_mode ls)"

definition parse_v6_mode :: "string \<Rightarrow> string + string" where
  "parse_v6_mode out = find_v6_mode (split_char (CHR 0x0A) out)"

definition get_v6_mode :: "'s v6_tool \<Rightarrow> string \<Rightarrow> 's \<Rightarrow> string + string" where
  "get_v6_mode T svc s =
     (case vt_info T svc s of
        Inl e \<Rightarrow> Inl e
      | Inr out \<Rightarrow> (case parse_v6_mode out of Inl e \<Rightarrow> Inl (e @ '' for '' @ svc) | Inr m \<Rightarrow> Inr m))"

definition v6_restore_flag :: "string \<Rightarrow> string" where
  "v6_restore_flag mode = (if mode = ''Link-local'' then ''-setv6LinkLocal'' else ''-setv6automatic'')"

section \<open>The runner\<close>

text \<open>Every service is tried; those that fail stay recorded, and the first error is the answer.\<close>

fun restore_modes :: "'s v6_tool \<Rightarrow> modes \<Rightarrow> modes \<Rightarrow> 's \<Rightarrow> string option \<times> modes \<times> 's" where
  "restore_modes T [] failed s = (None, failed, s)"
| "restore_modes T ((svc, mode) # xs) failed s =
     (case vt_set T svc (v6_restore_flag mode) s of
        (None, s1) \<Rightarrow> restore_modes T xs failed s1
      | (Some e, s1) \<Rightarrow>
          (case restore_modes T xs (AList.update svc mode failed) s1 of
             (e', f, s2) \<Rightarrow> (Some (''restore IPv6 for '' @ svc @ '': '' @ e), f, s2)))"

definition mac_fw_restore :: "'s v6_tool \<Rightarrow> (modes \<Rightarrow> modes) \<Rightarrow> 's mac_fw \<Rightarrow> string option \<times> 's mac_fw" where
  "mac_fw_restore T ord st =
     (case mf_saved st of
        None \<Rightarrow> (None, st)
      | Some sv \<Rightarrow>
          (case restore_modes T (ord sv) [] (mf_sys st) of
             (e, failed, s1) \<Rightarrow> (e, st\<lparr>mf_saved := if failed = [] then None else Some failed, mf_sys := s1\<rparr>)))"

definition restore_on_error :: "'s v6_tool \<Rightarrow> (modes \<Rightarrow> modes) \<Rightarrow> string \<Rightarrow> 's mac_fw \<Rightarrow> string option \<times> 's mac_fw" where
  "restore_on_error T ord err st =
     (case mac_fw_restore T ord st of
        (Some e, st1) \<Rightarrow> (Some (err @ '' (partial restore also failed: '' @ e @ '')''), st1)
      | (None, st1) \<Rightarrow> (Some err, st1))"

text \<open>A service is recorded only once it has been changed.\<close>

fun disable_each :: "'s v6_tool \<Rightarrow> (modes \<Rightarrow> modes) \<Rightarrow> string list \<Rightarrow> modes \<Rightarrow> 's \<Rightarrow> string option \<times> 's mac_fw" where
  "disable_each T ord [] sv s = (None, \<lparr>mf_saved = Some sv, mf_sys = s\<rparr>)"
| "disable_each T ord (svc # svcs) sv s =
     (case get_v6_mode T svc s of
        Inl e \<Rightarrow> restore_on_error T ord (''get IPv6 mode for '' @ svc @ '': '' @ e) \<lparr>mf_saved = Some sv, mf_sys = s\<rparr>
      | Inr mode \<Rightarrow>
     (if mode = ''Off'' then disable_each T ord svcs sv s
      else case vt_set T svc ''-setv6off'' s of
        (Some e, s1) \<Rightarrow> restore_on_error T ord (''disable IPv6 for '' @ svc @ '': '' @ e) \<lparr>mf_saved = Some sv, mf_sys = s1\<rparr>
      | (None, s1) \<Rightarrow> disable_each T ord svcs (AList.update svc mode sv) s1))"

definition mac_fw_enable :: "'s v6_tool \<Rightarrow> (modes \<Rightarrow> modes) \<Rightarrow> 's mac_fw \<Rightarrow> string option \<times> 's mac_fw" where
  "mac_fw_enable T ord st =
     (case v6_services T (mf_sys st) of
        Inl e \<Rightarrow> (Some e, st)
      | Inr svcs \<Rightarrow> (if svcs = [] then (None, st) else disable_each T ord svcs [] (mf_sys st)))"

fun automatic_each :: "'s v6_tool \<Rightarrow> string list \<Rightarrow> 's \<Rightarrow> string option \<times> 's" where
  "automatic_each T [] s = (None, s)"
| "automatic_each T (svc # svcs) s =
     (case vt_set T svc ''-setv6automatic'' s of
        (e, s1) \<Rightarrow> (case automatic_each T svcs s1 of
           (e', s2) \<Rightarrow> (case e of None \<Rightarrow> e' | Some m \<Rightarrow> Some (''reset IPv6 for '' @ svc @ '': '' @ m), s2)))"

definition mac_fw_clear :: "'s v6_tool \<Rightarrow> 's \<Rightarrow> string option \<times> 's" where
  "mac_fw_clear T s = (case v6_services T s of Inl e \<Rightarrow> (Some e, s) | Inr svcs \<Rightarrow> automatic_each T svcs s)"

text \<open>The runner of a firewall manager; the configuration is ignored. The order of \<open>range\<close> is that of the call.\<close>

definition mac_fw_runner :: "'s v6_tool \<Rightarrow> (modes \<Rightarrow> modes) \<Rightarrow> 's mac_fw fw_runner" where
  "mac_fw_runner T ord = \<lparr>fw_enable = (\<lambda>cfg. mac_fw_enable T ord), fw_restore = mac_fw_restore T ord\<rparr>"

section \<open>What is relied on\<close>

definition v6_lawful :: "'s v6_tool \<Rightarrow> ('s \<Rightarrow> string \<Rightarrow> string) \<Rightarrow> bool" where
  "v6_lawful T mode \<longleftrightarrow>
     (\<forall>svc s s'. vt_set T svc ''-setv6off'' s = (None, s') \<longrightarrow> mode s' = (mode s)(svc := ''Off''))
     \<and> (\<forall>svc s s'. vt_set T svc ''-setv6automatic'' s = (None, s') \<longrightarrow> mode s' = (mode s)(svc := ''Automatic''))
     \<and> (\<forall>svc s s'. vt_set T svc ''-setv6LinkLocal'' s = (None, s') \<longrightarrow> mode s' = (mode s)(svc := ''Link-local''))
     \<and> (\<forall>svc fl s e s'. vt_set T svc fl s = (Some e, s') \<longrightarrow> mode s' = mode s)
     \<and> (\<forall>svc s out m. vt_info T svc s = Inr out \<longrightarrow> parse_v6_mode out = Inr m \<longrightarrow> m = mode s svc)"

text \<open>What a service that was changed ends with.\<close>

definition v6_restored :: "string \<Rightarrow> string" where
  "v6_restored m = (if m = ''Link-local'' then ''Link-local'' else ''Automatic'')"

section \<open>Lemmas\<close>

lemma v6_lawfulD:
  assumes "v6_lawful T mode"
  shows "vt_set T svc ''-setv6off'' s = (None, s') \<Longrightarrow> mode s' = (mode s)(svc := ''Off'')"
    and "vt_set T svc ''-setv6automatic'' s = (None, s') \<Longrightarrow> mode s' = (mode s)(svc := ''Automatic'')"
    and "vt_set T svc ''-setv6LinkLocal'' s = (None, s') \<Longrightarrow> mode s' = (mode s)(svc := ''Link-local'')"
    and "vt_set T svc fl s = (Some e, s') \<Longrightarrow> mode s' = mode s"
    and "vt_info T svc s = Inr out \<Longrightarrow> parse_v6_mode out = Inr m \<Longrightarrow> m = mode s svc"
  using assms unfolding v6_lawful_def by blast+

lemma set_restore_flag:
  assumes "v6_lawful T mode" and "vt_set T svc (v6_restore_flag m) s = (None, s')"
  shows "mode s' = (mode s)(svc := v6_restored m)"
proof (cases "m = ''Link-local''")
  case True
  then have f: "v6_restore_flag m = ''-setv6LinkLocal''" "v6_restored m = ''Link-local''"
    by (simp_all add: v6_restore_flag_def v6_restored_def)
  show ?thesis using assms(2) unfolding f by (rule v6_lawfulD(3) [OF assms(1)])
next
  case False
  then have f: "v6_restore_flag m = ''-setv6automatic''" "v6_restored m = ''Automatic''"
    by (simp_all add: v6_restore_flag_def v6_restored_def)
  show ?thesis using assms(2) unfolding f by (rule v6_lawfulD(2) [OF assms(1)])
qed

text \<open>What is recorded is off and was something else; what is not is as it was, or as a restoration leaves it.\<close>

definition v6_fits :: "string option \<Rightarrow> string \<Rightarrow> string \<Rightarrow> bool" where
  "v6_fits r m0 m \<longleftrightarrow> (case r of
      Some m' \<Rightarrow> m = ''Off'' \<and> m0 = m' \<and> m' \<noteq> ''Off''
    | None \<Rightarrow> m = m0 \<or> m0 \<noteq> ''Off'' \<and> m = v6_restored m0)"

definition v6_inv :: "('s \<Rightarrow> string \<Rightarrow> string) \<Rightarrow> 's \<Rightarrow> modes \<Rightarrow> 's \<Rightarrow> bool" where
  "v6_inv mode s0 sv s \<longleftrightarrow> distinct (map fst sv) \<and> (\<forall>k. v6_fits (map_of sv k) (mode s0 k) (mode s k))"

lemma v6_inv_mset: "mset ys = mset sv \<Longrightarrow> v6_inv mode s0 sv s \<Longrightarrow> v6_inv mode s0 ys s"
proof -
  assume h: "mset ys = mset sv" "v6_inv mode s0 sv s"
  from h(1) have "mset (map fst ys) = mset (map fst sv)" by simp
  with h(2) have d: "distinct (map fst ys)" by (metis mset_eq_imp_distinct_iff v6_inv_def)
  from h(1) have "set ys = set sv" by (metis set_mset_mset)
  with d h(2) have "map_of ys = map_of sv" by (simp add: map_of_inject_set v6_inv_def)
  with d h(2) show ?thesis by (simp add: v6_inv_def)
qed

lemma v6_inv_off:
  assumes "v6_inv mode s0 sv s" and "mode s k \<noteq> ''Off''" and "mode s' = (mode s)(k := ''Off'')" and "mode s k = mode s0 k"
  shows "v6_inv mode s0 (AList.update k (mode s k) sv) s'"
  unfolding v6_inv_def
proof (intro conjI allI)
  show "distinct (map fst (AList.update k (mode s k) sv))" using assms(1) by (simp add: v6_inv_def distinct_update)
  fix j
  have "v6_fits (map_of sv j) (mode s0 j) (mode s j)" using assms(1) by (simp add: v6_inv_def)
  with assms(2-4) show "v6_fits (map_of (AList.update k (mode s k) sv) j) (mode s0 j) (mode s' j)"
    by (cases "j = k") (simp_all add: update_conv' v6_fits_def)
qed

text \<open>One pass over the recorded services: what is not restored is what is recorded afterwards.\<close>

lemma restore_modes_inv:
  assumes "v6_lawful T mode"
  shows "restore_modes T xs failed s = (e, f, s') \<Longrightarrow> v6_inv mode s0 (xs @ failed) s \<Longrightarrow> v6_inv mode s0 f s' \<and> (e = None \<longrightarrow> f = failed)"
proof (induction xs arbitrary: failed s e)
  case (Cons x xs)
  obtain k m where x: "x = (k, m)" by fastforce
  obtain e1 s1 where s1: "vt_set T k (v6_restore_flag m) s = (e1, s1)" by fastforce
  have inv: "v6_inv mode s0 ((k, m) # xs @ failed) s" using Cons.prems(2) by (simp add: x)
  then have k0: "k \<notin> fst ` set (xs @ failed)" by (simp add: v6_inv_def image_Un)
  then have k: "map_of (xs @ failed) k = None" by (simp only: map_of_eq_None_iff not_False_eq_True)
  from k0 have k2: "k \<notin> fst ` set failed" by (simp add: image_Un)
  show ?case
  proof (cases e1)
    case None
    then have m: "mode s1 = (mode s)(k := v6_restored m)" using set_restore_flag [OF assms] s1 by blast
    have "v6_inv mode s0 (xs @ failed) s1"
      unfolding v6_inv_def
    proof (intro conjI allI)
      show "distinct (map fst (xs @ failed))" using inv by (simp add: v6_inv_def)
      fix j
      from inv have j: "v6_fits (map_of ((k, m) # xs @ failed) j) (mode s0 j) (mode s j)" unfolding v6_inv_def by blast
      show "v6_fits (map_of (xs @ failed) j) (mode s0 j) (mode s1 j)"
      proof (cases "j = k")
        case True
        with j have "mode s0 k = m" "m \<noteq> ''Off''" by (simp_all add: v6_fits_def)
        with True k m show ?thesis by (simp only: v6_fits_def option.case fun_upd_same simp_thms)
      next
        case False
        then have "map_of ((k, m) # xs @ failed) j = map_of (xs @ failed) j" "mode s1 j = mode s j" using m by simp_all
        with j show ?thesis by simp
      qed
    qed
    with Cons.IH [of failed s1 e] Cons.prems(1) s1 None show ?thesis by (simp add: x)
  next
    case (Some er)
    then have m: "mode s1 = mode s" using v6_lawfulD(4) [OF assms] s1 by blast
    have "AList.update k m failed = failed @ [(k, m)]" using k2 by (induction failed) auto
    moreover have "v6_inv mode s0 (xs @ failed @ [(k, m)]) s"
      by (rule v6_inv_mset [OF _ inv]) simp
    ultimately have "v6_inv mode s0 (xs @ AList.update k m failed) s1" using m by (simp add: v6_inv_def)
    with Cons.IH [of "AList.update k m failed" s1] Cons.prems(1) s1 Some show ?thesis by (auto simp: x split: prod.splits)
  qed
qed simp

definition recorded :: "'s mac_fw \<Rightarrow> modes" where
  "recorded st = (case mf_saved st of None \<Rightarrow> [] | Some sv \<Rightarrow> sv)"

definition any_order :: "(modes \<Rightarrow> modes) \<Rightarrow> bool" where
  "any_order ord \<longleftrightarrow> (\<forall>sv. mset (ord sv) = mset sv)"

lemma mac_fw_restore_inv:
  assumes "v6_lawful T mode" and "any_order ord" and "v6_inv mode s0 (recorded st) (mf_sys st)" and "mac_fw_restore T ord st = (e, st')"
  shows "v6_inv mode s0 (recorded st') (mf_sys st') \<and> (e = None \<longrightarrow> recorded st' = [])"
proof (cases "mf_saved st")
  case None
  with assms(3,4) show ?thesis by (auto simp: mac_fw_restore_def recorded_def)
next
  case (Some sv)
  obtain e' f s' where r: "restore_modes T (ord sv) [] (mf_sys st) = (e', f, s')" using prod_cases3 by blast
  have "v6_inv mode s0 (ord sv @ []) (mf_sys st)"
    using assms(2,3) Some by - (rule v6_inv_mset [of _ sv], simp_all add: any_order_def recorded_def)
  from restore_modes_inv [OF assms(1) r this] have inv: "v6_inv mode s0 f s' \<and> (e' = None \<longrightarrow> f = [])" .
  from assms(4) Some r have st': "st' = st\<lparr>mf_saved := if f = [] then None else Some f, mf_sys := s'\<rparr>" and e: "e = e'"
    by (simp_all add: mac_fw_restore_def del: not_None_eq)
  have "recorded st' = f" "mf_sys st' = s'" by (simp_all add: st' recorded_def)
  with inv e show ?thesis by simp
qed

lemma disable_each_inv:
  assumes "v6_lawful T mode" and "any_order ord"
  shows "disable_each T ord svcs sv s = (e, st') \<Longrightarrow> v6_inv mode s0 sv s \<Longrightarrow> (\<And>k. map_of sv k = None \<Longrightarrow> mode s k = mode s0 k)
    \<Longrightarrow> v6_inv mode s0 (recorded st') (mf_sys st')
      \<and> (e = None \<longrightarrow> (\<forall>k. mode s k = ''Off'' \<or> k \<in> set svcs \<longrightarrow> mode (mf_sys st') k = ''Off''))"
proof (induction svcs arbitrary: sv s)
  case Nil
  then show ?case by (auto simp: recorded_def)
next
  case (Cons svc svcs)
  have fail: ?case if "restore_on_error T ord err \<lparr>mf_saved = Some sv, mf_sys = s1\<rparr> = (e, st')" and m: "mode s1 = mode s" for err s1
  proof -
    obtain e2 st2 where r2: "mac_fw_restore T ord \<lparr>mf_saved = Some sv, mf_sys = s1\<rparr> = (e2, st2)" by fastforce
    with that(1) have r: "mac_fw_restore T ord \<lparr>mf_saved = Some sv, mf_sys = s1\<rparr> = (e2, st')" "e \<noteq> None"
      by (cases e2; auto simp: restore_on_error_def)+
    have "v6_inv mode s0 (recorded \<lparr>mf_saved = Some sv, mf_sys = s1\<rparr>) (mf_sys \<lparr>mf_saved = Some sv, mf_sys = s1\<rparr>)"
      using Cons.prems(2) m by (simp add: recorded_def v6_inv_def)
    from mac_fw_restore_inv [OF assms this r(1)] r(2) show ?thesis by (cases e) simp_all
  qed
  show ?case
  proof (cases "get_v6_mode T svc s")
    case (Inl er)
    with Cons.prems(1) show ?thesis by (intro fail [OF _ refl]) simp
  next
    case (Inr m)
    then have m: "m = mode s svc"
      using v6_lawfulD(5) [OF assms(1)] by (auto simp: get_v6_mode_def split: sum.splits)
    show ?thesis
    proof (cases "m = ''Off''")
      case True
      with Cons.prems(1) Inr have d: "disable_each T ord svcs sv s = (e, st')" by simp
      from Cons.IH [OF d Cons.prems(2,3)] True m show ?thesis by auto
    next
      case False
      obtain e1 s1 where s1: "vt_set T svc ''-setv6off'' s = (e1, s1)" by fastforce
      show ?thesis
      proof (cases e1)
        case (Some er)
        with s1 v6_lawfulD(4) [OF assms(1)] have "mode s1 = mode s" by blast
        moreover from Cons.prems(1) Inr False s1 Some
        have "restore_on_error T ord (''disable IPv6 for '' @ svc @ '': '' @ er) \<lparr>mf_saved = Some sv, mf_sys = s1\<rparr> = (e, st')"
          by simp
        ultimately show ?thesis by (intro fail)
      next
        case None
        with s1 v6_lawfulD(1) [OF assms(1)] have off: "mode s1 = (mode s)(svc := ''Off'')" by blast
        have "mode s svc = mode s0 svc"
        proof (cases "map_of sv svc")
          case (Some x)
          have "v6_fits (map_of sv svc) (mode s0 svc) (mode s svc)" using Cons.prems(2) by (simp add: v6_inv_def)
          with Some m False show ?thesis by (simp add: v6_fits_def)
        qed (rule Cons.prems(3))
        with v6_inv_off [OF Cons.prems(2) _ off] m False have inv: "v6_inv mode s0 (AList.update svc m sv) s1" by simp
        have fr: "mode s1 k = mode s0 k" if "map_of (AList.update svc m sv) k = None" for k
          using that Cons.prems(3) off by (auto simp: update_conv' split: if_splits)
        from Cons.prems(1) Inr False s1 None have d: "disable_each T ord svcs (AList.update svc m sv) s1 = (e, st')" by simp
        from Cons.IH [OF d inv fr] off show ?thesis by auto
      qed
    qed
  qed
qed

section \<open>Properties\<close>

text \<open>The manager's \<open>Remove\<close>, tried any number of times, each time with its own order of \<open>range\<close>.\<close>

fun fw_removes :: "'s v6_tool \<Rightarrow> (modes \<Rightarrow> modes) list \<Rightarrow> applied \<Rightarrow> 's mac_fw \<Rightarrow> applied \<times> 's mac_fw" where
  "fw_removes T [] a st = (a, st)"
| "fw_removes T (ord # ords) a st =
     (case firewall_remove (mac_fw_runner T ord) a st of (a1, st1) \<Rightarrow> fw_removes T ords a1 st1)"

lemma fw_removes_inv:
  assumes "v6_lawful T mode"
  shows "fw_removes T ords a st = (a', st') \<Longrightarrow> list_all any_order ords \<Longrightarrow> v6_inv mode s0 (recorded st) (mf_sys st)
    \<Longrightarrow> (\<not> a \<longrightarrow> recorded st = []) \<Longrightarrow> v6_inv mode s0 (recorded st') (mf_sys st') \<and> (\<not> a' \<longrightarrow> recorded st' = [])"
proof (induction ords arbitrary: a st)
  case (Cons ord ords)
  obtain a1 st1 where r: "firewall_remove (mac_fw_runner T ord) a st = (a1, st1)" by fastforce
  obtain e2 st2 where m: "mac_fw_restore T ord st = (e2, st2)" by fastforce
  from Cons.prems(2) have "any_order ord" by simp
  from mac_fw_restore_inv [OF assms this Cons.prems(3) m] r m Cons.prems(3,4)
  have "v6_inv mode s0 (recorded st1) (mf_sys st1) \<and> (\<not> a1 \<longrightarrow> recorded st1 = [])"
    by (cases a; cases e2) (auto simp: firewall_remove_def mac_fw_runner_def)
  with Cons.IH [of a1 st1] Cons.prems(1,2) r show ?case by simp
qed simp

text \<open>(C21) IPv6 goes off and comes back: once the manager has enabled the leak protection, IPv6 is off on every enabled service;
  and after any number of attempts to remove it, of which only the last succeeds for all services, every service
  has the mode it had, or \<open>Automatic\<close> where that was a mode that cannot be set again, and none that had IPv6 on
  is left with it off.\<close>

theorem v6_off_and_back:
  assumes "v6_lawful T mode" and "any_order ord" and "v6_services T s0 = Inr svcs" and "svcs \<noteq> []"
    and "firewall_enable (mac_fw_runner T ord) cfg False \<lparr>mf_saved = None, mf_sys = s0\<rparr> = (None, True, st1)"
    and "list_all any_order ords" and "fw_removes T ords True st1 = (False, st2)"
  shows "(\<forall>k \<in> set svcs. mode (mf_sys st1) k = ''Off'')
    \<and> (mode (mf_sys st2) k = mode s0 k \<or> mode s0 k \<noteq> ''Off'' \<and> mode (mf_sys st2) k = v6_restored (mode s0 k))"
proof -
  from assms(3-5) have d: "disable_each T ord svcs [] s0 = (None, st1)"
    by (auto simp: firewall_enable_def mac_fw_runner_def mac_fw_enable_def split: prod.splits option.splits)
  have "v6_inv mode s0 [] s0" by (simp add: v6_inv_def v6_fits_def)
  from disable_each_inv [OF assms(1,2) d this] have off: "v6_inv mode s0 (recorded st1) (mf_sys st1)"
    "\<forall>k \<in> set svcs. mode (mf_sys st1) k = ''Off''" by auto
  from fw_removes_inv [OF assms(1,7,6) off(1)] have "v6_inv mode s0 (recorded st2) (mf_sys st2)" "recorded st2 = []" by auto
  then have "v6_fits None (mode s0 k) (mode (mf_sys st2) k)" by (simp add: v6_inv_def)
  with off(2) show ?thesis by (simp add: v6_fits_def)
qed

text \<open>A tool that computes; its state also says how many calls still fail.\<close>

definition toy_v6 :: "(nat \<times> (string \<Rightarrow> string)) v6_tool" where
  "toy_v6 = \<lparr>vt_list = (\<lambda>s. Inr (''banner'' @ [CHR 0x0A] @ ''Wi-Fi'' @ [CHR 0x0A] @ ''LAN'')),
     vt_info = (\<lambda>svc s. if parse_v6_mode (''IPv6: '' @ snd s svc) = Inr (snd s svc) then Inr (''IPv6: '' @ snd s svc) else Inl ''unprintable''),
     vt_set = (\<lambda>svc fl s. if fst s = 1 then (Some ''exit status 4'', (0, snd s))
       else if fl = ''-setv6off'' then (None, (fst s - 1, (snd s)(svc := ''Off'')))
       else if fl = ''-setv6LinkLocal'' then (None, (fst s - 1, (snd s)(svc := ''Link-local'')))
       else (None, (fst s - 1, (snd s)(svc := ''Automatic''))))\<rparr>"

lemma toy_v6_lawful: "v6_lawful toy_v6 snd"
  unfolding v6_lawful_def toy_v6_def
  by (auto split: if_splits)

definition toy_modes :: "string \<Rightarrow> string" where
  "toy_modes = (\<lambda>k. ''Off'')(''Wi-Fi'' := ''Link-local'', ''LAN'' := ''Manual'')"

theorem v6_off_and_back_witness:
  "\<exists>st1 st2. firewall_enable (mac_fw_runner toy_v6 id) \<lparr>fw_server = V4 0, fw_tun = [], fw_allow_lan = True\<rparr> False
      \<lparr>mf_saved = None, mf_sys = (4, toy_modes)\<rparr> = (None, True, st1)
    \<and> fst (fw_removes toy_v6 [rev] True st1) \<and> fw_removes toy_v6 [rev, id] True st1 = (False, st2)
    \<and> snd (mf_sys st1) ''Wi-Fi'' = ''Off'' \<and> snd (mf_sys st2) ''Wi-Fi'' = ''Link-local'' \<and> snd (mf_sys st2) ''LAN'' = ''Automatic''"
proof -
  have p: "parse_services (''banner'' @ [CHR 0x0A] @ ''Wi-Fi'' @ [CHR 0x0A] @ ''LAN'') = [''Wi-Fi'', ''LAN'']" by code_simp
  have l: "v6_services toy_v6 s = Inr [''Wi-Fi'', ''LAN'']" for s
    unfolding v6_services_def by (simp only: toy_v6_def v6_tool.simps p sum.case)
  have m: "parse_v6_mode (''IPv6: '' @ ''Link-local'') = Inr ''Link-local''" "parse_v6_mode (''IPv6: '' @ ''Manual'') = Inr ''Manual''"
    by code_simp+
  have a: "AList.update ''LAN'' ''Manual'' (AList.update ''Wi-Fi'' ''Link-local'' []) = [(''Wi-Fi'', ''Link-local''), (''LAN'', ''Manual'')]"
    by simp
  have "disable_each toy_v6 id [''Wi-Fi'', ''LAN''] [] (4, toy_modes)
      = (None, \<lparr>mf_saved = Some [(''Wi-Fi'', ''Link-local''), (''LAN'', ''Manual'')], mf_sys = (2, (\<lambda>k. ''Off''))\<rparr>)"
    using m by (simp add: get_v6_mode_def toy_v6_def toy_modes_def fun_eq_iff)
  then have e: "firewall_enable (mac_fw_runner toy_v6 id) \<lparr>fw_server = V4 0, fw_tun = [], fw_allow_lan = True\<rparr> False
      \<lparr>mf_saved = None, mf_sys = (4, toy_modes)\<rparr>
      = (None, True, \<lparr>mf_saved = Some [(''Wi-Fi'', ''Link-local''), (''LAN'', ''Manual'')], mf_sys = (2, (\<lambda>k. ''Off''))\<rparr>)"
    (is "_ = (None, True, ?st1)") by (simp add: firewall_enable_def mac_fw_runner_def mac_fw_enable_def l)
  have f: "fst (fw_removes toy_v6 [rev] True ?st1)"
    by (simp add: firewall_remove_def mac_fw_runner_def mac_fw_restore_def toy_v6_def v6_restore_flag_def)
  obtain st2 where r: "fw_removes toy_v6 [rev, id] True ?st1 = (False, st2)"
    by (simp add: firewall_remove_def mac_fw_runner_def mac_fw_restore_def toy_v6_def v6_restore_flag_def)
  have o: "any_order id" "list_all any_order [rev, id]" by (simp_all add: any_order_def)
  have "snd (mf_sys st2) ''Wi-Fi'' = ''Link-local''"
    using v6_off_and_back [OF toy_v6_lawful o(1) l _ e o(2) r, of "''Wi-Fi''"] by (auto simp: toy_modes_def v6_restored_def)
  moreover have "snd (mf_sys st2) ''LAN'' = ''Automatic''"
    using r by (auto simp: firewall_remove_def mac_fw_runner_def mac_fw_restore_def toy_v6_def v6_restore_flag_def)
  ultimately show ?thesis using e f r by (intro exI [of _ ?st1] exI [of _ st2]) simp
qed

end
