(* ===== verification/HostRoutes.thy ===== *)
theory HostRoutes
  imports Route DnsMac
begin

text \<open>
  The runners of the route manager on the three systems (\<open>src/internal/route/route_linux.go\<close>, \<open>route_darwin.go\<close>,
  \<open>route_windows.go\<close>): the command lines they build and what they read out of the tools' output. Running a
  command (\<open>execx\<close>) is a function of the system, to an error or the output. The text of an IPv6 address is
  a function \<open>v6\<close>; every route that is installed is an IPv4 one. Output is taken to have lines a scanner accepts.
\<close>

type_synonym 's exec = "string list \<Rightarrow> 's \<Rightarrow> (string + string) \<times> 's"

type_synonym v6_text = "128 word \<Rightarrow> string \<Rightarrow> string"

fun ip_text :: "v6_text \<Rightarrow> ip \<Rightarrow> string" where
  "ip_text v6 (V4 a) = ipv4_str a"
| "ip_text v6 (V6 a z) = v6 a z"

definition prefix_text :: "v6_text \<Rightarrow> prefix \<Rightarrow> string" where
  "prefix_text v6 p = ip_text v6 (pfx_addr p) @ ''/'' @ nat_str (pfx_bits p)"

definition exec_err :: "'s exec \<Rightarrow> string list \<Rightarrow> 's \<Rightarrow> string option \<times> 's" where
  "exec_err ex argv s = (case ex argv s of (Inl e, s1) \<Rightarrow> (Some e, s1) | (Inr out, s1) \<Rightarrow> (None, s1))"

section \<open>Linux\<close>

fun after_via :: "string list \<Rightarrow> string option" where
  "after_via (f # g # r) = (if f = ''via'' then Some g else after_via (g # r))"
| "after_via _ = None"

fun via_gateway :: "string list \<Rightarrow> string + ip" where
  "via_gateway [] = Inl ''no via clause in default route output''"
| "via_gateway (l # ls) =
     (case after_via (fields l) of
        None \<Rightarrow> via_gateway ls
      | Some g \<Rightarrow> (case parse_addr g of None \<Rightarrow> Inl (''parse gateway '' @ g) | Some a \<Rightarrow> Inr a))"

definition linux_gateway :: "string \<Rightarrow> string + ip" where
  "linux_gateway out = via_gateway (split_char (CHR 0x0A) out)"

definition linux_argv :: "v6_text \<Rightarrow> string \<Rightarrow> prefix \<Rightarrow> ip \<Rightarrow> string \<Rightarrow> string list" where
  "linux_argv v6 verb p gw iface =
     [''ip'', ''-4'', ''route'', verb, prefix_text v6 p, ''via'', ip_text v6 gw] @ (if iface \<noteq> [] then [''dev'', iface] else [])"

definition linux_route_runner :: "v6_text \<Rightarrow> 's exec \<Rightarrow> 's runner" where
  "linux_route_runner v6 ex =
     \<lparr>default_gateway = (\<lambda>s. case ex [''ip'', ''-4'', ''route'', ''show'', ''default''] s of
          (Inl e, s1) \<Rightarrow> (Inl e, s1) | (Inr out, s1) \<Rightarrow> (linux_gateway out, s1)),
      add_route = (\<lambda>p gw i. exec_err ex (linux_argv v6 ''add'' p gw i)),
      del_route = (\<lambda>p gw i. exec_err ex (linux_argv v6 ''del'' p gw i))\<rparr>"

section \<open>macOS\<close>

text \<open>The row whose destination is literally \<open>default\<close> and whose gateway is an address.\<close>

fun default_row :: "string list \<Rightarrow> string + ip" where
  "default_row [] = Inl ''no default route with an IP gateway in netstat output''"
| "default_row (l # ls) =
     (case fields l of
        d # g # r \<Rightarrow>
          (if d \<noteq> ''default'' then default_row ls
           else case parse_addr g of None \<Rightarrow> default_row ls | Some a \<Rightarrow> Inr a)
      | _ \<Rightarrow> default_row ls)"

definition parse_default_gateway :: "string \<Rightarrow> string + ip" where
  "parse_default_gateway out = default_row (split_char (CHR 0x0A) out)"

definition route_args :: "v6_text \<Rightarrow> string \<Rightarrow> prefix \<Rightarrow> ip \<Rightarrow> string list" where
  "route_args v6 verb p gw =
     (if pfx_bits p = ip_bitlen (pfx_addr p)
      then [''/sbin/route'', ''-n'', verb, ''-host'', ip_text v6 (pfx_addr p), ip_text v6 gw]
      else [''/sbin/route'', ''-n'', verb, ''-net'', prefix_text v6 p, ip_text v6 gw])"

definition mac_route_runner :: "v6_text \<Rightarrow> 's exec \<Rightarrow> 's runner" where
  "mac_route_runner v6 ex =
     \<lparr>default_gateway = (\<lambda>s. case ex [''/usr/sbin/netstat'', ''-rnf'', ''inet''] s of
          (Inl e, s1) \<Rightarrow> (Inl e, s1) | (Inr out, s1) \<Rightarrow> (parse_default_gateway out, s1)),
      add_route = (\<lambda>p gw i. exec_err ex (route_args v6 ''add'' p gw)),
      del_route = (\<lambda>p gw i. exec_err ex (route_args v6 ''delete'' p gw))\<rparr>"

section \<open>Windows\<close>

text \<open>\<open>fmt.Sscanf\<close> with \<open>%d\<close>: an optional sign and the digits in front.\<close>

definition scan_int :: "string \<Rightarrow> int option" where
  "scan_int s =
     (let sg = (if s \<noteq> [] \<and> (hd s = CHR ''-'' \<or> hd s = CHR ''+'') then take 1 s else []);
          ds = takeWhile is_digit (drop (length sg) s);
          n = int (digits_val ds);
          i = (if sg = ''-'' then - n else n)
      in if ds = [] \<or> \<not> int64_range i then None else Some i)"

definition max_int :: int where
  "max_int = 2 ^ 63 - 1"

fun best_row :: "string list \<Rightarrow> ip option \<Rightarrow> int \<Rightarrow> ip option" where
  "best_row [] best metric = best"
| "best_row (l # ls) best metric =
     (case fields l of
        d # m # g # i # k # r \<Rightarrow>
          (if d \<noteq> ''0.0.0.0'' \<or> m \<noteq> ''0.0.0.0'' then best_row ls best metric
           else case parse_addr g of
             None \<Rightarrow> best_row ls best metric
           | Some a \<Rightarrow>
          (case scan_int k of
             None \<Rightarrow> best_row ls best metric
           | Some n \<Rightarrow> (if n < metric then best_row ls (Some a) n else best_row ls best metric)))
      | _ \<Rightarrow> best_row ls best metric)"

definition windows_gateway :: "string \<Rightarrow> string + ip" where
  "windows_gateway out =
     (case best_row (split_char (CHR 0x0A) out) None max_int of
        None \<Rightarrow> Inl ''no default route found in `route print` output'' | Some a \<Rightarrow> Inr a)"

text \<open>The loop over the bits of the mask, byte by byte.\<close>

definition mask_bytes :: "nat \<Rightarrow> bytes" where
  "mask_bytes bits = fold (\<lambda>i m. m[i div 8 := m ! (i div 8) OR push_bit (7 - i mod 8) 1]) [0..<bits] [0, 0, 0, 0]"

definition prefix_to_net_mask :: "prefix \<Rightarrow> string + string \<times> string" where
  "prefix_to_net_mask p =
     (case pfx_addr p of
        V6 a z \<Rightarrow> Inl ''route: not an IPv4 prefix''
      | V4 a \<Rightarrow>
          (let m = mask_bytes (pfx_bits p); o4 = map2 (AND) (ipv4_octets a) m
           in Inr (ipv4_str (ipv4_of_octets (o4 ! 0) (o4 ! 1) (o4 ! 2) (o4 ! 3)),
                   ipv4_str (ipv4_of_octets (m ! 0) (m ! 1) (m ! 2) (m ! 3)))))"

text \<open>\<open>index\<close> is \<open>net.InterfaceByName\<close>.\<close>

definition windows_add_route ::
    "v6_text \<Rightarrow> (string \<Rightarrow> string + int) \<Rightarrow> 's exec \<Rightarrow> prefix \<Rightarrow> ip \<Rightarrow> string \<Rightarrow> 's \<Rightarrow> string option \<times> 's" where
  "windows_add_route v6 index ex p gw iface s =
     (case prefix_to_net_mask p of
        Inl e \<Rightarrow> (Some e, s)
      | Inr (dst, m) \<Rightarrow>
     (let argv = [''route'', ''ADD'', dst, ''MASK'', m, ip_text v6 gw]
      in if iface = [] then exec_err ex argv s
         else case index iface of
           Inl e \<Rightarrow> (Some (''route: resolve interface '' @ iface @ '': '' @ e), s)
         | Inr i \<Rightarrow> exec_err ex (argv @ [''IF'', int_str i]) s))"

definition windows_del_route :: "v6_text \<Rightarrow> 's exec \<Rightarrow> prefix \<Rightarrow> ip \<Rightarrow> 's \<Rightarrow> string option \<times> 's" where
  "windows_del_route v6 ex p gw s =
     (case prefix_to_net_mask p of
        Inl e \<Rightarrow> (Some e, s) | Inr (dst, m) \<Rightarrow> exec_err ex [''route'', ''DELETE'', dst, ip_text v6 gw] s)"

definition windows_route_runner :: "v6_text \<Rightarrow> (string \<Rightarrow> string + int) \<Rightarrow> 's exec \<Rightarrow> 's runner" where
  "windows_route_runner v6 index ex =
     \<lparr>default_gateway = (\<lambda>s. case ex [''route'', ''print'', ''0.0.0.0''] s of
          (Inl e, s1) \<Rightarrow> (Inl e, s1) | (Inr out, s1) \<Rightarrow> (windows_gateway out, s1)),
      add_route = (\<lambda>p gw i. windows_add_route v6 index ex p gw i),
      del_route = (\<lambda>p gw i. windows_del_route v6 ex p gw)\<rparr>"

section \<open>Lemmas\<close>

lemma mask_bytes_upto: "list_all (\<lambda>n. mask_bytes n = ipv4_octets (ipv4_mask n)) [0..<33]"
  by code_simp

lemma ipv4_octets_and: "map2 (AND) (ipv4_octets a) (ipv4_octets b) = ipv4_octets (a AND b)"
  by (simp add: ipv4_octets_def) (auto intro!: bit_word_eqI simp: bit_simps)

text \<open>A row of \<open>route print\<close> that is a default route: its gateway and metric.\<close>

definition print_row :: "string \<Rightarrow> (ip \<times> int) option" where
  "print_row l =
     (case fields l of
        d # m # g # i # k # r \<Rightarrow>
          (if d \<noteq> ''0.0.0.0'' \<or> m \<noteq> ''0.0.0.0'' then None
           else case (parse_addr g, scan_int k) of (Some a, Some n) \<Rightarrow> Some (a, n) | _ \<Rightarrow> None)
      | _ \<Rightarrow> None)"

lemma best_row_Cons:
  "best_row (l # ls) best metric =
     (case print_row l of
        Some (a, n) \<Rightarrow> (if n < metric then best_row ls (Some a) n else best_row ls best metric)
      | None \<Rightarrow> best_row ls best metric)"
  by (auto simp: print_row_def split: list.splits option.splits)

lemma best_row_minimal:
  "best_row ls best metric = r \<Longrightarrow>
     (r = best \<and> (\<forall>l \<in> set ls. \<forall>a n. print_row l = Some (a, n) \<longrightarrow> metric \<le> n))
     \<or> (\<exists>l \<in> set ls. \<exists>a n. r = Some a \<and> n < metric \<and> print_row l = Some (a, n)
          \<and> (\<forall>l' \<in> set ls. \<forall>a' n'. print_row l' = Some (a', n') \<longrightarrow> n \<le> n'))"
proof (induction ls arbitrary: best metric)
  case (Cons l ls)
  show ?case
  proof (cases "\<exists>a n. print_row l = Some (a, n) \<and> n < metric")
    case True
    then obtain a n where l: "print_row l = Some (a, n)" "n < metric" by blast
    with Cons.prems have "best_row ls (Some a) n = r" by (simp add: best_row_Cons del: best_row.simps)
    from Cons.IH [OF this] show ?thesis
    proof (elim disjE)
      assume h: "r = Some a \<and> (\<forall>l \<in> set ls. \<forall>a n'. print_row l = Some (a, n') \<longrightarrow> n \<le> n')"
      with l show ?thesis by (intro disjI2 bexI [of _ l] exI [of _ a] exI [of _ n]) auto
    next
      assume "\<exists>k \<in> set ls. \<exists>b m. r = Some b \<and> m < n \<and> print_row k = Some (b, m)
          \<and> (\<forall>l' \<in> set ls. \<forall>a' n'. print_row l' = Some (a', n') \<longrightarrow> m \<le> n')"
      then obtain k b m where k: "k \<in> set ls" "r = Some b" "m < n" "print_row k = Some (b, m)"
        "\<forall>l' \<in> set ls. \<forall>a' n'. print_row l' = Some (a', n') \<longrightarrow> m \<le> n'" by blast
      with l show ?thesis by (intro disjI2 bexI [of _ k] exI [of _ b] exI [of _ m]) auto
    qed
  next
    case False
    with Cons.prems have "best_row ls best metric = r"
      by (auto simp: best_row_Cons simp del: best_row.simps split: option.splits)
    from Cons.IH [OF this] show ?thesis
    proof (elim disjE)
      assume "\<exists>k \<in> set ls. \<exists>b m. r = Some b \<and> m < metric \<and> print_row k = Some (b, m)
          \<and> (\<forall>l' \<in> set ls. \<forall>a' n'. print_row l' = Some (a', n') \<longrightarrow> m \<le> n')"
      then obtain k b m where k: "k \<in> set ls" "r = Some b" "m < metric" "print_row k = Some (b, m)"
        "\<forall>l' \<in> set ls. \<forall>a' n'. print_row l' = Some (a', n') \<longrightarrow> m \<le> n'" by blast
      with False show ?thesis by (intro disjI2 bexI [of _ k] exI [of _ b] exI [of _ m]) force+
    qed (use False in force)
  qed
qed simp

section \<open>Properties\<close>

text \<open>The mask of a Windows route is the prefix: for every IPv4 prefix the loop over the bits gives the netmask of that length, and
  the destination is the address under that mask; both are written so that they read back as those addresses.\<close>

theorem windows_mask_is_prefix:
  assumes "pfx_addr p = V4 a" and "pfx_bits p \<le> 32"
  shows "\<exists>dst m. prefix_to_net_mask p = Inr (dst, m) \<and> parse_addr dst = Some (V4 (a AND ipv4_mask (pfx_bits p)))
    \<and> parse_addr m = Some (V4 (ipv4_mask (pfx_bits p)))"
proof -
  have "mask_bytes (pfx_bits p) = ipv4_octets (ipv4_mask (pfx_bits p))"
    using mask_bytes_upto assms(2) by (simp only: list_all_iff set_upt atLeastLessThan_iff) simp
  then have "prefix_to_net_mask p = Inr (ipv4_str (a AND ipv4_mask (pfx_bits p)), ipv4_str (ipv4_mask (pfx_bits p)))"
    by (simp add: prefix_to_net_mask_def assms(1) Let_def ipv4_octets_and ipv4_octets_nth [simplified])
  then show ?thesis by simp
qed

theorem windows_mask_is_prefix_witness:
  "prefix_to_net_mask \<lparr>pfx_addr = V4 0x0A080005, pfx_bits = 20\<rparr> = Inr (''10.8.0.0'', ''255.255.240.0'')
    \<and> parse_addr ''255.255.240.0'' = Some (V4 (ipv4_mask 20))"
proof -
  have c: "prefix_to_net_mask \<lparr>pfx_addr = V4 0x0A080005, pfx_bits = 20\<rparr> = Inr (''10.8.0.0'', ''255.255.240.0'')" by code_simp
  with windows_mask_is_prefix [of "\<lparr>pfx_addr = V4 0x0A080005, pfx_bits = 20\<rparr>" "0x0A080005"] show ?thesis by auto
qed

text \<open>The routes a tunnel installs do not confuse the search for the gateway on macOS: only rows whose destination is
  literally \<open>default\<close> count, so every other row can be taken away.\<close>

definition literal_default :: "string \<Rightarrow> bool" where
  "literal_default l \<longleftrightarrow> take 1 (fields l) = [''default'']"

theorem split_routes_ignored:
  "parse_default_gateway out = default_row (filter literal_default (split_char (CHR 0x0A) out))"
proof -
  have "default_row ls = default_row (filter literal_default ls)" for ls
    by (induction ls) (auto simp: literal_default_def split: list.splits option.splits)
  then show ?thesis by (simp add: parse_default_gateway_def)
qed

text \<open>On Windows the gateway is the one of a default route of least metric, and there is none exactly when no row is a default route
  with a metric below the largest integer.\<close>

theorem windows_gateway_least:
  "case windows_gateway out of
     Inr a \<Rightarrow> (\<exists>l \<in> set (split_char (CHR 0x0A) out). \<exists>n. print_row l = Some (a, n)
        \<and> (\<forall>l' \<in> set (split_char (CHR 0x0A) out). \<forall>a' n'. print_row l' = Some (a', n') \<longrightarrow> n \<le> n'))
   | Inl e \<Rightarrow> (\<forall>l \<in> set (split_char (CHR 0x0A) out). \<forall>a n. print_row l = Some (a, n) \<longrightarrow> max_int \<le> n)"
proof (cases "best_row (split_char (CHR 0x0A) out) None max_int")
  case None
  with best_row_minimal [OF None] show ?thesis by (auto simp: windows_gateway_def)
next
  case (Some a)
  with best_row_minimal [OF Some] show ?thesis by (simp add: windows_gateway_def) blast
qed

lemma windows_gateway_example:
  "windows_gateway (''  0.0.0.0   0.0.0.0   192.168.1.1   192.168.1.34   25'' @ [CHR 0x0D, CHR 0x0A]
     @ ''  0.0.0.0   0.0.0.0   10.0.0.1   10.0.0.7   5'' @ [CHR 0x0D, CHR 0x0A]) = Inr (V4 0x0A000001)"
  by code_simp

end
