(* ===== verification/RouteTools.thy ===== *)
theory RouteTools
  imports HostRoutes Client
begin

text \<open>
  The three route runners of \<open>HostRoutes\<close> on the tools they call: \<open>ip\<close>, \<open>/sbin/route\<close> and the \<open>route\<close>
  of Windows. What the documentation of a tool promises is a law on the calls of a command; from it follow the laws the
  route manager relies on. The routing table of a system is the set of its rows in the text the tool uses. The two
  properties of the manager that rest on them are at the end.
\<close>

section \<open>Linux\<close>

definition ip_cmd :: "string \<Rightarrow> string \<Rightarrow> string \<Rightarrow> string \<Rightarrow> string list" where
  "ip_cmd verb p g d = [''ip'', ''-4'', ''route'', verb, p, ''via'', g] @ (if d \<noteq> [] then [''dev'', d] else [])"

text \<open>
  \<open>ip route add\<close> and \<open>del\<close> on the routes of the main table without a metric, as pairs of prefix and gateway: showing
  the default changes nothing; an add is refused when the prefix has a route (\<open>EEXIST\<close>); a delete takes out routes of the prefix
  through the gateway only. \<open>stuck\<close> are the routes a delete may be refused for, those of another device than
  asked for among them.
\<close>

definition ip_law :: "'s exec \<Rightarrow> ('s \<Rightarrow> (string \<times> string) set) \<Rightarrow> (string \<times> string) set \<Rightarrow> bool" where
  "ip_law ex tab stuck \<longleftrightarrow>
     (\<forall>s x s'. ex [''ip'', ''-4'', ''route'', ''show'', ''default''] s = (x, s') \<longrightarrow> tab s' = tab s)
     \<and> (\<forall>p g d s y s'. ex (ip_cmd ''add'' p g d) s = (Inr y, s') \<longrightarrow>
          (\<forall>r \<in> tab s. fst r \<noteq> p) \<and> tab s' = insert (p, g) (tab s))
     \<and> (\<forall>p g d s e s'. ex (ip_cmd ''add'' p g d) s = (Inl e, s') \<longrightarrow> tab s' = tab s)
     \<and> (\<forall>p g d s x s'. ex (ip_cmd ''del'' p g d) s = (x, s') \<longrightarrow>
          tab s' \<subseteq> tab s \<and> tab s - tab s' \<subseteq> {(p, g)}
          \<and> ((p, g) \<in> tab s' \<longrightarrow> (\<exists>e. x = Inl e) \<and> (p, g) \<in> stuck))"

definition ip_view ::
    "v6_text \<Rightarrow> ('s \<Rightarrow> (string \<times> string) set) \<Rightarrow> (string \<times> string) set \<Rightarrow> ('s, string \<times> string, string) view" where
  "ip_view v6 tab stuck =
     \<lparr>v_tab = tab, v_row = (\<lambda>k. (prefix_text v6 (k_prefix k), ip_text v6 (k_gw k))),
      v_hit = (=), v_stuck = stuck, v_dst = fst\<rparr>"

lemma linux_argv_cmd: "linux_argv v6 verb p gw i = ip_cmd verb (prefix_text v6 p) (ip_text v6 gw) i"
  by (simp add: linux_argv_def ip_cmd_def)

lemma exec_err_cases:
  assumes "exec_err ex argv s = (r, s')"
  obtains (ok) out where "ex argv s = (Inr out, s')" "r = None" | (err) e where "ex argv s = (Inl e, s')" "r = Some e"
  using assms by (auto simp: exec_err_def split: prod.splits sum.splits)

theorem linux_runner_laws:
  assumes "ip_law ex tab stuck"
  shows "lawful (ip_view v6 tab stuck) (linux_route_runner v6 ex)"
    and "exclusive (ip_view v6 tab stuck) (linux_route_runner v6 ex)"
proof -
  let ?V = "ip_view v6 tab stuck" and ?R = "linux_route_runner v6 ex"
  have ok: "(\<forall>r \<in> tab s. fst r \<noteq> p) \<and> tab s' = insert (p, g) (tab s)"
    if "ex (ip_cmd ''add'' p g d) s = (Inr y, s')" for p g d s y s'
    using that assms unfolding ip_law_def by (elim conjE) metis
  have err: "tab s' = tab s" if "ex (ip_cmd ''add'' p g d) s = (Inl e, s')" for p g d s e s'
    using that assms unfolding ip_law_def by (elim conjE) metis
  have gone: "tab s' \<subseteq> tab s \<and> tab s - tab s' \<subseteq> {(p, g)} \<and> ((p, g) \<in> tab s' \<longrightarrow> (\<exists>e. x = Inl e) \<and> (p, g) \<in> stuck)"
    if "ex (ip_cmd ''del'' p g d) s = (x, s')" for p g d s x s'
    using that assms unfolding ip_law_def by (elim conjE) metis
  have gate: "tab s' = tab s" if "default_gateway ?R s = (x, s')" for s x s'
    using that assms unfolding ip_law_def
    by (auto simp: linux_route_runner_def split: prod.splits sum.splits)
  have add: "(\<forall>r \<in> tab s. fst r \<noteq> prefix_text v6 p) \<and> tab s' = insert (prefix_text v6 p, ip_text v6 gw) (tab s)"
    if "add_route ?R p gw i s = (None, s')" for p gw i s s'
    using that by (auto simp: linux_route_runner_def linux_argv_cmd elim!: exec_err_cases dest!: ok)
  have add_err: "tab s' = tab s" if "add_route ?R p gw i s = (Some e, s')" for p gw i s e s'
    using that by (auto simp: linux_route_runner_def linux_argv_cmd elim!: exec_err_cases dest!: err)
  have del: "tab s' \<subseteq> tab s \<and> tab s - tab s' \<subseteq> {(prefix_text v6 p, ip_text v6 gw)}
      \<and> ((prefix_text v6 p, ip_text v6 gw) \<in> tab s' \<longrightarrow> x \<noteq> None \<and> (prefix_text v6 p, ip_text v6 gw) \<in> stuck)"
    if "del_route ?R p gw i s = (x, s')" for p gw i s x s'
    using that by (auto simp: linux_route_runner_def linux_argv_cmd elim!: exec_err_cases dest!: gone)
  show "lawful ?V ?R"
    unfolding lawful_def
  proof (intro conjI allI impI)
    fix p gw i s s' assume "add_route ?R p gw i s = (None, s')"
    from add [OF this] show "v_row ?V (the_key p gw i) \<notin> v_tab ?V s"
      and "v_tab ?V s' = insert (v_row ?V (the_key p gw i)) (v_tab ?V s)" by (auto simp: ip_view_def)
  next
    fix p gw i s e s' assume "add_route ?R p gw i s = (Some e, s')"
    from add_err [OF this] show "v_tab ?V s' = v_tab ?V s" by (simp add: ip_view_def)
  next
    fix s x s' assume "default_gateway ?R s = (x, s')"
    from gate [OF this] show "v_tab ?V s' = v_tab ?V s" by (simp add: ip_view_def)
  next
    fix p gw i s x s' assume "del_route ?R p gw i s = (x, s')"
    note d = del [OF this]
    from d show "v_tab ?V s' \<subseteq> v_tab ?V s" by (simp add: ip_view_def)
    from d show "\<forall>r \<in> v_tab ?V s - v_tab ?V s'. v_hit ?V (v_row ?V (the_key p gw i)) r"
      by (auto simp: ip_view_def)
    assume "v_row ?V (the_key p gw i) \<in> v_tab ?V s'"
    with d show "x \<noteq> None" and "v_row ?V (the_key p gw i) \<in> v_stuck ?V" by (auto simp: ip_view_def)
  qed
  show "exclusive ?V ?R"
    unfolding exclusive_def using add by (simp add: ip_view_def)
qed

section \<open>macOS\<close>

definition mac_dest :: "v6_text \<Rightarrow> prefix \<Rightarrow> string \<times> string" where
  "mac_dest v6 p =
     (if pfx_bits p = ip_bitlen (pfx_addr p) then (''-host'', ip_text v6 (pfx_addr p)) else (''-net'', prefix_text v6 p))"

text \<open>
  \<open>/sbin/route\<close>: \<open>canon\<close> is the destination it makes of a host or a network, with the host part masked off. An
  add is refused for a destination that has a route; a delete goes by the destination.
\<close>

definition mac_route_law ::
    "'s exec \<Rightarrow> ('s \<Rightarrow> ('d \<times> string) set) \<Rightarrow> (string \<times> string \<Rightarrow> 'd) \<Rightarrow> ('d \<times> string) set \<Rightarrow> bool" where
  "mac_route_law ex tab canon stuck \<longleftrightarrow>
     (\<forall>s x s'. ex [''/usr/sbin/netstat'', ''-rnf'', ''inet''] s = (x, s') \<longrightarrow> tab s' = tab s)
     \<and> (\<forall>f t g s y s'. ex [''/sbin/route'', ''-n'', ''add'', f, t, g] s = (Inr y, s') \<longrightarrow>
          (\<forall>r \<in> tab s. fst r \<noteq> canon (f, t)) \<and> tab s' = insert (canon (f, t), g) (tab s))
     \<and> (\<forall>f t g s e s'. ex [''/sbin/route'', ''-n'', ''add'', f, t, g] s = (Inl e, s') \<longrightarrow> tab s' = tab s)
     \<and> (\<forall>f t g s x s'. ex [''/sbin/route'', ''-n'', ''delete'', f, t, g] s = (x, s') \<longrightarrow>
          tab s' \<subseteq> tab s \<and> (\<forall>r \<in> tab s - tab s'. fst r = canon (f, t))
          \<and> ((canon (f, t), g) \<in> tab s' \<longrightarrow> (\<exists>e. x = Inl e) \<and> (canon (f, t), g) \<in> stuck))"

definition mac_view ::
    "v6_text \<Rightarrow> ('s \<Rightarrow> ('d \<times> string) set) \<Rightarrow> (string \<times> string \<Rightarrow> 'd) \<Rightarrow> ('d \<times> string) set \<Rightarrow> ('s, 'd \<times> string, 'd) view" where
  "mac_view v6 tab canon stuck =
     \<lparr>v_tab = tab, v_row = (\<lambda>k. (canon (mac_dest v6 (k_prefix k)), ip_text v6 (k_gw k))),
      v_hit = (\<lambda>r r'. fst r' = fst r), v_stuck = stuck, v_dst = fst\<rparr>"

lemma route_args_dest:
  "route_args v6 verb p gw = [''/sbin/route'', ''-n'', verb, fst (mac_dest v6 p), snd (mac_dest v6 p), ip_text v6 gw]"
  by (simp add: route_args_def mac_dest_def)

theorem mac_runner_laws:
  assumes "mac_route_law ex tab canon stuck"
  shows "lawful (mac_view v6 tab canon stuck) (mac_route_runner v6 ex)"
    and "exclusive (mac_view v6 tab canon stuck) (mac_route_runner v6 ex)"
proof -
  let ?V = "mac_view v6 tab canon stuck" and ?R = "mac_route_runner v6 ex"
  have ok: "(\<forall>r \<in> tab s. fst r \<noteq> canon (f, t)) \<and> tab s' = insert (canon (f, t), g) (tab s)"
    if "ex [''/sbin/route'', ''-n'', ''add'', f, t, g] s = (Inr y, s')" for f t g s y s'
    using that assms unfolding mac_route_law_def by (elim conjE) metis
  have err: "tab s' = tab s" if "ex [''/sbin/route'', ''-n'', ''add'', f, t, g] s = (Inl e, s')" for f t g s e s'
    using that assms unfolding mac_route_law_def by (elim conjE) metis
  have gone: "tab s' \<subseteq> tab s \<and> (\<forall>r \<in> tab s - tab s'. fst r = canon (f, t))
      \<and> ((canon (f, t), g) \<in> tab s' \<longrightarrow> (\<exists>e. x = Inl e) \<and> (canon (f, t), g) \<in> stuck)"
    if "ex [''/sbin/route'', ''-n'', ''delete'', f, t, g] s = (x, s')" for f t g s x s'
    using that assms unfolding mac_route_law_def by (elim conjE) metis
  have gate: "tab s' = tab s" if "default_gateway ?R s = (x, s')" for s x s'
    using that assms unfolding mac_route_law_def
    by (auto simp: mac_route_runner_def split: prod.splits sum.splits)
  let ?d = "\<lambda>p. canon (mac_dest v6 p)"
  have add: "(\<forall>r \<in> tab s. fst r \<noteq> ?d p) \<and> tab s' = insert (?d p, ip_text v6 gw) (tab s)"
    if "add_route ?R p gw i s = (None, s')" for p gw i s s'
    using that by (auto simp: mac_route_runner_def route_args_dest elim!: exec_err_cases dest!: ok)
  have add_err: "tab s' = tab s" if "add_route ?R p gw i s = (Some e, s')" for p gw i s e s'
    using that by (auto simp: mac_route_runner_def route_args_dest elim!: exec_err_cases dest!: err)
  have del: "tab s' \<subseteq> tab s \<and> (\<forall>r \<in> tab s - tab s'. fst r = ?d p)
      \<and> ((?d p, ip_text v6 gw) \<in> tab s' \<longrightarrow> x \<noteq> None \<and> (?d p, ip_text v6 gw) \<in> stuck)"
    if d: "del_route ?R p gw i s = (x, s')" for p gw i s x s'
  proof -
    from d have "exec_err ex [''/sbin/route'', ''-n'', ''delete'', fst (mac_dest v6 p), snd (mac_dest v6 p), ip_text v6 gw] s
        = (x, s')" by (simp add: mac_route_runner_def route_args_dest)
    then show ?thesis by (cases rule: exec_err_cases) (drule gone, simp)+
  qed
  show "lawful ?V ?R"
    unfolding lawful_def
  proof (intro conjI allI impI)
    fix p gw i s s' assume "add_route ?R p gw i s = (None, s')"
    from add [OF this] show "v_row ?V (the_key p gw i) \<notin> v_tab ?V s"
      and "v_tab ?V s' = insert (v_row ?V (the_key p gw i)) (v_tab ?V s)" by (auto simp: mac_view_def)
  next
    fix p gw i s e s' assume "add_route ?R p gw i s = (Some e, s')"
    from add_err [OF this] show "v_tab ?V s' = v_tab ?V s" by (simp add: mac_view_def)
  next
    fix s x s' assume "default_gateway ?R s = (x, s')"
    from gate [OF this] show "v_tab ?V s' = v_tab ?V s" by (simp add: mac_view_def)
  next
    fix p gw i s x s' assume "del_route ?R p gw i s = (x, s')"
    note d = del [OF this]
    from d show "v_tab ?V s' \<subseteq> v_tab ?V s" by (simp add: mac_view_def)
    from d show "\<forall>r \<in> v_tab ?V s - v_tab ?V s'. v_hit ?V (v_row ?V (the_key p gw i)) r"
      by (auto simp: mac_view_def)
    assume "v_row ?V (the_key p gw i) \<in> v_tab ?V s'"
    with d show "x \<noteq> None" and "v_row ?V (the_key p gw i) \<in> v_stuck ?V" by (auto simp: mac_view_def)
  qed
  show "exclusive ?V ?R"
    unfolding exclusive_def using add by (simp add: mac_view_def)
qed

section \<open>Windows\<close>

text \<open>
  \<open>route ADD\<close> and \<open>route DELETE\<close> on rows of destination, mask, gateway and interface. Without \<open>IF\<close> the interface
  is the one Windows picks for the gateway, \<open>oif\<close>. An add is refused for a row that is there; another route to the same
  destination is not in its way. A delete goes by destination and gateway, whatever the mask and the interface.
\<close>

type_synonym win_row = "string \<times> string \<times> string \<times> string"

definition win_hit :: "win_row \<Rightarrow> win_row \<Rightarrow> bool" where
  "win_hit r r' \<longleftrightarrow> fst r' = fst r \<and> fst (snd (snd r')) = fst (snd (snd r))"

definition win_route_law ::
    "'s exec \<Rightarrow> ('s \<Rightarrow> win_row set) \<Rightarrow> (string \<Rightarrow> string) \<Rightarrow> win_row set \<Rightarrow> bool" where
  "win_route_law ex tab oif stuck \<longleftrightarrow>
     (\<forall>s x s'. ex [''route'', ''print'', ''0.0.0.0''] s = (x, s') \<longrightarrow> tab s' = tab s)
     \<and> (\<forall>d m g s y s'. ex [''route'', ''ADD'', d, ''MASK'', m, g] s = (Inr y, s') \<longrightarrow>
          (d, m, g, oif g) \<notin> tab s \<and> tab s' = insert (d, m, g, oif g) (tab s))
     \<and> (\<forall>d m g i s y s'. ex [''route'', ''ADD'', d, ''MASK'', m, g, ''IF'', i] s = (Inr y, s') \<longrightarrow>
          (d, m, g, i) \<notin> tab s \<and> tab s' = insert (d, m, g, i) (tab s))
     \<and> (\<forall>argv s e s'. take 2 argv = [''route'', ''ADD''] \<longrightarrow> ex argv s = (Inl e, s') \<longrightarrow> tab s' = tab s)
     \<and> (\<forall>d g s x s'. ex [''route'', ''DELETE'', d, g] s = (x, s') \<longrightarrow>
          tab s' \<subseteq> tab s \<and> (\<forall>r \<in> tab s - tab s'. fst r = d \<and> fst (snd (snd r)) = g)
          \<and> (\<forall>m i. (d, m, g, i) \<in> tab s' \<longrightarrow> (\<exists>e. x = Inl e) \<and> (d, m, g, i) \<in> stuck))"

definition win_row_of :: "v6_text \<Rightarrow> (string \<Rightarrow> string + int) \<Rightarrow> (string \<Rightarrow> string) \<Rightarrow> installed_key \<Rightarrow> win_row" where
  "win_row_of v6 index oif k =
     (case prefix_to_net_mask (k_prefix k) of
        Inl e \<Rightarrow> ([], [], [], [])
      | Inr (d, m) \<Rightarrow> (d, m, ip_text v6 (k_gw k),
          if k_iface k = [] then oif (ip_text v6 (k_gw k)) else case index (k_iface k) of Inl e \<Rightarrow> [] | Inr i \<Rightarrow> int_str i))"

text \<open>The empty row stands for the prefixes that the runner refuses without a call; a delete of it does nothing.\<close>

definition win_view ::
    "v6_text \<Rightarrow> (string \<Rightarrow> string + int) \<Rightarrow> ('s \<Rightarrow> win_row set) \<Rightarrow> (string \<Rightarrow> string) \<Rightarrow> win_row set \<Rightarrow>
     ('s, win_row, string) view" where
  "win_view v6 index tab oif stuck =
     \<lparr>v_tab = tab, v_row = win_row_of v6 index oif, v_hit = win_hit,
      v_stuck = insert ([], [], [], []) stuck, v_dst = fst\<rparr>"

theorem windows_runner_lawful:
  assumes "win_route_law ex tab oif stuck"
  shows "lawful (win_view v6 index tab oif stuck) (windows_route_runner v6 index ex)"
proof -
  let ?V = "win_view v6 index tab oif stuck" and ?R = "windows_route_runner v6 index ex"
  have add: "win_row_of v6 index oif (the_key p gw i) \<notin> tab s
      \<and> tab s' = insert (win_row_of v6 index oif (the_key p gw i)) (tab s)"
    if "add_route ?R p gw i s = (None, s')" for p gw i s s'
  proof -
    from that obtain d m where dm: "prefix_to_net_mask p = Inr (d, m)"
      by (auto simp: windows_route_runner_def windows_add_route_def split: sum.splits)
    let ?g = "ip_text v6 gw"
    show ?thesis
    proof (cases "i = []")
      case True
      with that dm obtain out where "ex [''route'', ''ADD'', d, ''MASK'', m, ?g] s = (Inr out, s')"
        by (auto simp: windows_route_runner_def windows_add_route_def elim!: exec_err_cases)
      with assms dm True show ?thesis unfolding win_route_law_def by (simp add: win_row_of_def)
    next
      case False
      with that dm obtain out n where "index i = Inr n"
        and "ex [''route'', ''ADD'', d, ''MASK'', m, ?g, ''IF'', int_str n] s = (Inr out, s')"
        by (auto simp: windows_route_runner_def windows_add_route_def split: sum.splits elim!: exec_err_cases)
      with assms dm False show ?thesis unfolding win_route_law_def by (simp add: win_row_of_def)
    qed
  qed
  have fail: "tab s' = tab s" if "ex (''route'' # ''ADD'' # rest) s = (Inl e, s')" for rest s e s'
    using that assms unfolding win_route_law_def by (metis take_Suc_Cons numeral_2_eq_2 take0)
  have add_err: "tab s' = tab s" if "add_route ?R p gw i s = (Some e, s')" for p gw i s e s'
    using that
    by (auto simp: windows_route_runner_def windows_add_route_def Let_def split: sum.splits if_splits
        elim!: exec_err_cases dest!: fail)
  have del: "tab s' \<subseteq> tab s \<and> (\<forall>r \<in> tab s - tab s'. win_hit (win_row_of v6 index oif (the_key p gw i)) r)
      \<and> (win_row_of v6 index oif (the_key p gw i) \<in> tab s' \<longrightarrow>
           x \<noteq> None \<and> win_row_of v6 index oif (the_key p gw i) \<in> insert ([], [], [], []) stuck)"
    if d: "del_route ?R p gw i s = (x, s')" for p gw i s x s'
  proof (cases "prefix_to_net_mask p")
    case (Inl e)
    with d show ?thesis
      by (auto simp: windows_route_runner_def windows_del_route_def win_row_of_def)
  next
    case (Inr dm)
    then obtain dst m where dm: "prefix_to_net_mask p = Inr (dst, m)" by (cases dm) auto
    with d have e: "exec_err ex [''route'', ''DELETE'', dst, ip_text v6 gw] s = (x, s')"
      by (simp add: windows_route_runner_def windows_del_route_def)
    obtain y where y: "ex [''route'', ''DELETE'', dst, ip_text v6 gw] s = (y, s')" "(\<exists>e. y = Inl e) \<longleftrightarrow> x \<noteq> None"
      using e by (auto elim!: exec_err_cases)
    with assms have "tab s' \<subseteq> tab s" "\<forall>r \<in> tab s - tab s'. fst r = dst \<and> fst (snd (snd r)) = ip_text v6 gw"
      "\<And>m i. (dst, m, ip_text v6 gw, i) \<in> tab s' \<Longrightarrow> (\<exists>e. y = Inl e) \<and> (dst, m, ip_text v6 gw, i) \<in> stuck"
      unfolding win_route_law_def by blast+
    with y(2) dm show ?thesis by (auto simp: win_row_of_def win_hit_def)
  qed
  have gate: "tab s' = tab s" if "default_gateway ?R s = (x, s')" for s x s'
    using that assms unfolding win_route_law_def
    by (auto simp: windows_route_runner_def split: prod.splits sum.splits)
  show ?thesis
    unfolding lawful_def using add add_err del gate by (simp add: win_view_def)
qed

section \<open>Tools that obey their laws\<close>

text \<open>A machine with the \<open>ip\<close> command: the routes it keeps and its default gateway.\<close>

type_synonym ip_machine = "(string \<times> string) list \<times> string"

definition ip_sim :: "ip_machine exec" where
  "ip_sim argv s =
     (case argv of
        a # b # c # verb # p # v # g # rest \<Rightarrow>
          (if verb = ''add''
           then if p \<in> fst ` set (fst s) then (Inl ''RTNETLINK answers: File exists'', s)
                else (Inr [], ((p, g) # fst s, snd s))
           else if (p, g) \<in> set (fst s) then (Inr [], (removeAll (p, g) (fst s), snd s))
           else (Inl ''RTNETLINK answers: No such process'', s))
      | _ \<Rightarrow> (Inr (''default via '' @ snd s @ '' dev eth0''), s))"

lemma ip_sim_law: "ip_law ip_sim (\<lambda>s. set (fst s)) {}"
  by (auto simp: ip_law_def ip_sim_def ip_cmd_def split: if_splits)

text \<open>A machine with \<open>/sbin/route\<close>, whose destinations are what it is given; a delete goes by the destination.\<close>

definition mac_sim :: "ip_machine exec" where
  "mac_sim argv s =
     (case argv of
        [c, n, verb, f, t, g] \<Rightarrow>
          (if verb = ''add''
           then if t \<in> fst ` set (fst s) then (Inl ''File exists'', s) else (Inr [], ((t, g) # fst s, snd s))
           else if t \<in> fst ` set (fst s) then (Inr [], (filter (\<lambda>r. fst r \<noteq> t) (fst s), snd s))
           else (Inl ''not in table'', s))
      | _ \<Rightarrow> (Inr (''default '' @ snd s @ '' UGScg en0''), s))"

lemma mac_sim_law: "mac_route_law mac_sim (\<lambda>s. set (fst s)) snd {}"
  by (auto simp: mac_route_law_def mac_sim_def split: if_splits) force+

text \<open>A Windows machine whose \<open>route\<close> goes by destination and gateway in a delete.\<close>

type_synonym win_machine = "win_row list \<times> string"

definition win_sim :: "(string \<Rightarrow> string) \<Rightarrow> win_machine exec" where
  "win_sim oif argv s =
     (let add = (\<lambda>r. if r \<in> set (fst s) then (Inl ''The route addition failed: The object already exists.'', s)
                     else (Inr [], (r # fst s, snd s)))
      in case argv of
           [c, verb, d, mk, m, g] \<Rightarrow> add (d, m, g, oif g)
         | [c, verb, d, mk, m, g, fl, i] \<Rightarrow> add (d, m, g, i)
         | [c, verb, d, g] \<Rightarrow>
             (if \<exists>r \<in> set (fst s). fst r = d \<and> fst (snd (snd r)) = g
              then (Inr [], (filter (\<lambda>r. \<not> (fst r = d \<and> fst (snd (snd r)) = g)) (fst s), snd s))
              else (Inl ''The route deletion failed: Element not found.'', s))
         | [c, verb, d] \<Rightarrow> (Inr (''0.0.0.0 0.0.0.0 '' @ snd s @ '' 192.168.1.34 25''), s)
         | _ \<Rightarrow> (Inl ''usage'', s))"

lemma win_sim_law: "win_route_law (win_sim oif) (\<lambda>s. set (fst s)) oif {}"
  by (auto simp: win_route_law_def win_sim_def Let_def split: if_splits list.splits)

definition no_v6 :: v6_text where
  "no_v6 a z = []"

definition sim_index :: "string \<Rightarrow> string + int" where
  "sim_index name = (if name = ''tun0'' then Inr 7 else Inl ''no such network interface'')"

definition sim_windows :: "win_machine runner" where
  "sim_windows = windows_route_runner no_v6 sim_index (win_sim (\<lambda>g. ''3''))"

definition sim_win_view :: "(win_machine, win_row, string) view" where
  "sim_win_view = win_view no_v6 sim_index (\<lambda>s. set (fst s)) (\<lambda>g. ''3'') {}"

lemma sim_windows_lawful: "lawful sim_win_view sim_windows"
  unfolding sim_win_view_def sim_windows_def by (rule windows_runner_lawful [OF win_sim_law])

definition tun_manager :: manager where
  "tun_manager = new_manager ''tun0'' (Some (V4 0x0A080001)) (Some (V4 0x01020304))"

section \<open>Properties\<close>

text \<open>(C7) Installing the routes of a session is all or nothing, as far as the system can undo: on every system whose route
  calls are lawful, which the runners of Linux, macOS and Windows are when their tools do what is documented, either the
  installation succeeds, with a record for the pin-hole and for every pushed IPv4 route in the order of installation, each of
  whose rows was not in the table before, and the table is the old one and these rows; or there is an error, nothing is
  recorded, what is left of it in the table are rows it asked for whose delete the system may refuse, and an old row is
  missing only when the delete of a row it added takes that along (on Windows, one to the same destination and
  gateway).\<close>

theorem install_all_or_nothing:
  assumes "lawful V R" and "route_install R cidrs (new_manager i tun srv) s = (res, m, s')"
  shows "case res of
      None \<Rightarrow> (\<exists>a g gw. srv = Some a \<and> tun = Some g \<and> fst (default_gateway R s) = Inr gw
          \<and> m_installed m = the_key (pinhole_of a) gw [] # keys_via g i (pushed_prefixes cidrs))
        \<and> distinct (map (v_row V) (m_installed m))
        \<and> v_row V ` set (m_installed m) \<inter> v_tab V s = {}
        \<and> v_tab V s' = v_tab V s \<union> v_row V ` set (m_installed m)
    | Some e \<Rightarrow> m_installed m = []
        \<and> v_tab V s' - v_tab V s \<subseteq> v_stuck V \<inter> v_row V ` set (wanted_routes R s i tun srv cidrs)
        \<and> (\<forall>r \<in> v_tab V s - v_tab V s'. \<exists>k \<in> set (wanted_routes R s i tun srv cidrs).
              v_row V k \<notin> v_tab V s \<and> v_hit V (v_row V k) r)"
  using install_on_lawful [OF assms] by (auto simp: route_undone_def in_place_def wanted_routes_def)

theorem install_all_or_nothing_witness:
  "\<exists>m s'. route_install sim_windows [''10.0.0.0/8'', ''oops''] tun_manager
      ([(''10.0.0.0'', ''255.0.0.0'', ''192.168.1.7'', ''3'')], ''192.168.1.1'') = (Some (ParsePush ''oops''), m, s')
    \<and> set (fst s') = {(''10.0.0.0'', ''255.0.0.0'', ''192.168.1.7'', ''3'')}"
proof -
  let ?s = "([(''10.0.0.0'', ''255.0.0.0'', ''192.168.1.7'', ''3'')], ''192.168.1.1'') :: win_machine"
  let ?r = "route_install sim_windows [''10.0.0.0/8'', ''oops''] tun_manager ?s"
  have res: "fst ?r = Some (ParsePush ''oops'')" by code_simp
  let ?row = "win_row_of no_v6 sim_index (\<lambda>g. ''3'')"
  let ?K = "wanted_routes sim_windows ?s ''tun0'' (Some (V4 0x0A080001)) (Some (V4 0x01020304)) [''10.0.0.0/8'', ''oops'']"
  have "map ?row ?K
    = [(''1.2.3.4'', ''255.255.255.255'', ''192.168.1.1'', ''3''), (''10.0.0.0'', ''255.0.0.0'', ''10.8.0.1'', ''7'')]"
    by code_simp
  from arg_cong [OF this, of set] have w: "?row ` set ?K
    = {(''1.2.3.4'', ''255.255.255.255'', ''192.168.1.1'', ''3''), (''10.0.0.0'', ''255.0.0.0'', ''10.8.0.1'', ''7'')}"
    by simp
  obtain m s' where r: "?r = (Some (ParsePush ''oops''), m, s')" using res by (cases ?r) auto
  from install_all_or_nothing [OF sim_windows_lawful r [unfolded tun_manager_def]]
  have new: "set (fst s') - set (fst ?s) \<subseteq> {([], [], [], [])} \<inter> ?row ` set ?K"
    and old: "\<forall>x \<in> set (fst ?s) - set (fst s'). \<exists>y \<in> ?row ` set ?K. win_hit y x"
    by (auto simp: sim_win_view_def win_view_def)
  have "set (fst s') = {(''10.0.0.0'', ''255.0.0.0'', ''192.168.1.7'', ''3'')}"
    using new old unfolding w by (auto simp: win_hit_def)
  with r show ?thesis by blast
qed

text \<open>The delete of Windows goes by destination and gateway: the rollback of an installation takes a route along that was there
  before it, with another mask.\<close>

theorem windows_rollback_takes_along:
  "fst (route_install sim_windows [''10.0.0.0/8'', ''oops''] tun_manager
      ([(''10.0.0.0'', ''255.255.0.0'', ''10.8.0.1'', ''3'')], ''192.168.1.1'')) = Some (ParsePush ''oops'')
   \<and> fst (snd (snd (route_install sim_windows [''10.0.0.0/8'', ''oops''] tun_manager
      ([(''10.0.0.0'', ''255.255.0.0'', ''10.8.0.1'', ''3'')], ''192.168.1.1'')))) = []"
  by code_simp

text \<open>(C11) A client leaves the routing table as it found it, on a system with one route per destination: with runners of
  routes that are lawful and exclusive, as those of Linux and macOS are when \<open>ip\<close> and \<open>/sbin/route\<close> do what is documented, and
  with firewall, resolver and device configuration that leave the routes alone, after any sequence of attempts, to any
  endpoints, failing at any step, with the server moving and the gateway changing in between, the teardown of \<open>Run\<close> leaves every
  row of the start in the table, and besides them only rows whose delete the system may refuse.\<close>

theorem run_restores_routes:
  assumes "list_all (\<lambda>x. neutral V (fst x)) ats" and "neutral V E"
    and "foldl (attempt_step cfg) (fresh_client, s0) ats = (c, s)"
  shows "v_tab V s0 \<subseteq> v_tab V (snd (run_teardown E c s))
    \<and> v_tab V (snd (run_teardown E c s)) \<subseteq> v_tab V s0 \<union> v_stuck V"
  using teardown_gives_back [OF assms(2) attempts_ok [OF assms(1,3)]] by (simp add: given_back_def)

text \<open>A session on the machine with \<open>ip\<close>: the server is reached, assigns an address and pushes the default route.\<close>

definition tool_conn :: conn where
  "tool_conn = \<lparr>cn_remote = Some (V4 0x01020304),
     cn_reader = \<lparr>rd_data = the (packet_bytes (FrameControl, marshal_control (new_assign_ip sample_assign))),
                  rd_end = EOF\<rparr>,
     cn_hello = None, cn_session = (\<lambda>t. Some (plain_error ''EOF''))\<rparr>"

definition tool_env :: "ip_machine env" where
  "tool_env =
     \<lparr>os_routes = linux_route_runner no_v6 ip_sim,
      os_fw = \<lparr>fw_enable = (\<lambda>cfg s. (None, s)), fw_restore = (\<lambda>s. (None, s))\<rparr>,
      os_dns = \<lparr>dns_set = (\<lambda>ss i s. (None, s)), dns_restore = (\<lambda>s. (None, s))\<rparr>,
      os_configure = (\<lambda>a m g mtu s. (None, s)),
      os_lookup = (\<lambda>h. None),
      os_dial = (\<lambda>a p n. Inr tool_conn),
      os_read_error = (\<lambda>e. plain_error ''read''),
      dev_name = ''tun0'', dev_mtu = 1380\<rparr>"

lemma neutral_tool_env: "neutral (ip_view no_v6 (\<lambda>s. set (fst s)) {}) tool_env"
  unfolding neutral_def using linux_runner_laws [OF ip_sim_law, of no_v6]
  by (simp add: tool_env_def ip_view_def)

lemma tool_first_frame:
  "fst (first_frame e (cn_reader tool_conn)) = Inr sample_assign"
proof -
  let ?m = "new_assign_ip sample_assign"
  have wf: "assign_ip_wf sample_assign"
    by (simp add: assign_ip_wf_def sample_assign_def int64_range_def)
  have "length (marshal_control ?m) < max_frame_size"
    by (simp add: marshal_control_def json_marshal_def control_json_def new_assign_ip_def
        assign_ip_json_def sample_assign_def opt_member_def jstrs_def jint_def int_str_def
        nat_str.simps json_string_def esc_char_def ctrl_assign_ip_def max_frame_size_def)
  then obtain bs where bs: "packet_bytes (FrameControl, marshal_control ?m) = Some bs"
    by (auto simp: packet_bytes_def frame_bytes_def)
  have "read_packet (cn_reader tool_conn) = (Inr (FrameControl, marshal_control ?m), \<lparr>rd_data = [], rd_end = EOF\<rparr>)"
    using read_packet_packet_bytes [OF bs, of "[]" EOF]
    by (simp only: tool_conn_def conn.select_convs bs option.sel append_Nil2)
  moreover have "decode_control (marshal_control ?m) = Inr ?m" by (rule decode_marshal_control) (rule control_wf_new)
  moreover have "parse_assign_ip ?m = Inr sample_assign" by (rule parse_new_assign_ip [OF wf])
  moreover have "cm_type ?m = ctrl_assign_ip" by (simp add: new_assign_ip_def)
  moreover have "ctrl_assign_ip \<noteq> ctrl_error" by code_simp
  moreover have "peer_compatible (ai_proto sample_assign)" by code_simp
  ultimately show ?thesis unfolding first_frame_def by simp
qed

lemma tool_up:
  "attempt_step test_config (fresh_client, s) (tool_env, \<lparr>ep_server = ''1.2.3.4:1'', ep_server_name = ''x'', ep_label = []\<rparr>)
    = snd (bring_up tool_env test_config sample_assign (Some (V4 0x01020304))
        (fresh_client\<lparr>pinnedServerIP := Some (V4 0x01020304)\<rparr>) s)"
proof -
  have r: "resolve_server (os_lookup tool_env) ''1.2.3.4:1'' = Inr (V4 0x01020304, ''1'')"
  proof -
    have "resolve_server (\<lambda>h. None) ''1.2.3.4:1'' = Inr (V4 0x01020304, ''1'')" by code_simp
    then show ?thesis by (simp add: tool_env_def)
  qed
  obtain r1 where f: "first_frame (os_read_error tool_env) (cn_reader tool_conn) = (Inr sample_assign, r1)"
    using tool_first_frame by (metis prod.collapse)
  have p: "prepare_path tool_env (V4 0x01020304) fresh_client s = (fresh_client\<lparr>pinnedServerIP := Some (V4 0x01020304)\<rparr>, s)"
    by (simp add: prepare_path_def fresh_client_def)
  have d: "os_dial tool_env = (\<lambda>a p n. Inr tool_conn)" "cn_hello tool_conn = None" "cn_remote tool_conn = Some (V4 0x01020304)"
    by (simp_all add: tool_env_def tool_conn_def)
  show ?thesis
    by (simp add: attempt_step_def connect_once_def r f p d split: prod.splits option.splits)
qed


lemma tool_routes:
  "set (fst (snd (snd (bring_up tool_env test_config sample_assign (Some (V4 0x01020304))
      (fresh_client\<lparr>pinnedServerIP := Some (V4 0x01020304)\<rparr>) ([(''10.0.0.0/8'', ''192.168.1.7'')], ''192.168.1.1''))))) =
    {(''10.0.0.0/8'', ''192.168.1.7''), (''1.2.3.4/32'', ''192.168.1.1''), (''0.0.0.0/1'', ''10.8.0.1''), (''128.0.0.0/1'', ''10.8.0.1'')}"
proof -
  let ?s = "([(''10.0.0.0/8'', ''192.168.1.7'')], ''192.168.1.1'') :: ip_machine"
  let ?r = "route_install (linux_route_runner no_v6 ip_sim) [''0.0.0.0/0''] tun_manager ?s"
  have "fst ?r = None \<and> snd (snd ?r) = ([(''128.0.0.0/1'', ''10.8.0.1''), (''0.0.0.0/1'', ''10.8.0.1''),
      (''1.2.3.4/32'', ''192.168.1.1''), (''10.0.0.0/8'', ''192.168.1.7'')], ''192.168.1.1'')"
    by code_simp
  then obtain m where r: "?r = (None, m, ([(''128.0.0.0/1'', ''10.8.0.1''), (''0.0.0.0/1'', ''10.8.0.1''),
      (''1.2.3.4/32'', ''192.168.1.1''), (''10.0.0.0/8'', ''192.168.1.7'')], ''192.168.1.1''))"
    by (cases ?r) auto
  have e: "os_configure tool_env = (\<lambda>a m g mtu s. (None, s))" "os_routes tool_env = linux_route_runner no_v6 ip_sim"
    "os_fw tool_env = \<lparr>fw_enable = (\<lambda>cfg s. (None, s)), fw_restore = (\<lambda>s. (None, s))\<rparr>" "dev_name tool_env = ''tun0''"
    by (simp_all add: tool_env_def)
  have a: "ai_routes sample_assign = [''0.0.0.0/0'']" "parse_addr (ai_gateway sample_assign) = Some (V4 0x0A080001)"
    "ai_dns sample_assign = []" "is_full_tunnel [''0.0.0.0/0'']" "ip_unmap (V4 0x01020304) = V4 0x01020304"
    by code_simp+
  show ?thesis
    by (simp add: bring_up_def ensure_configured_def ensure_leak_protection_def ensure_routes_def ensure_dns_def
        firewall_enable_def fresh_client_def e a r [unfolded tun_manager_def])
      (auto simp: insert_commute)
qed

theorem run_restores_routes_witness:
  "\<exists>c s. foldl (attempt_step test_config) (fresh_client, ([(''10.0.0.0/8'', ''192.168.1.7'')], ''192.168.1.1''))
      [(tool_env, \<lparr>ep_server = ''1.2.3.4:1'', ep_server_name = ''x'', ep_label = []\<rparr>)] = (c, s)
    \<and> set (fst s) = {(''10.0.0.0/8'', ''192.168.1.7''), (''1.2.3.4/32'', ''192.168.1.1''), (''0.0.0.0/1'', ''10.8.0.1''), (''128.0.0.0/1'', ''10.8.0.1'')}
    \<and> set (fst (snd (run_teardown tool_env c s))) = {(''10.0.0.0/8'', ''192.168.1.7'')}"
proof -
  let ?s = "([(''10.0.0.0/8'', ''192.168.1.7'')], ''192.168.1.1'') :: ip_machine"
  let ?ats = "[(tool_env, \<lparr>ep_server = ''1.2.3.4:1'', ep_server_name = ''x'', ep_label = []\<rparr>)]"
  have up: "set (fst (snd (foldl (attempt_step test_config) (fresh_client, ?s) ?ats))) =
      {(''10.0.0.0/8'', ''192.168.1.7''), (''1.2.3.4/32'', ''192.168.1.1''), (''0.0.0.0/1'', ''10.8.0.1''), (''128.0.0.0/1'', ''10.8.0.1'')}"
    by (simp only: foldl.simps tool_up) (rule tool_routes)
  obtain c s where f: "foldl (attempt_step test_config) (fresh_client, ?s) ?ats = (c, s)" by (metis surj_pair)
  have "list_all (\<lambda>x. neutral (ip_view no_v6 (\<lambda>s. set (fst s)) {}) (fst x)) ?ats"
    by (simp add: neutral_tool_env)
  from run_restores_routes [OF this neutral_tool_env f] up f show ?thesis
    by (auto simp: ip_view_def)
qed

end
