(* ===== verification/HostFirewall.thy ===== *)
theory HostFirewall
  imports Guards HostRoutes Quote
begin

text \<open>
  The runners of the firewall manager on Linux (\<open>src/internal/firewall/firewall_linux.go\<close>, through \<open>nft\<close>) and Windows
  (\<open>firewall_windows.go\<close>, through \<open>netsh\<close>), and of the DNS manager on Windows (\<open>src/internal/dns/dns_windows.go\<close>). What the tools
  do is stated by \<open>nft_lawful\<close> and \<open>netsh_lawful\<close>.
\<close>

section \<open>Linux\<close>

definition table_name :: string where
  "table_name = ''vpnio_leakguard''"

definition lan_prefixes :: "string list" where
  "lan_prefixes = [''10.0.0.0/8'', ''172.16.0.0/12'', ''192.168.0.0/16'', ''169.254.0.0/16'', ''224.0.0.0/4'', ''255.255.255.255/32'']"

definition add_rule :: "string \<Rightarrow> string" where
  "add_rule r = ''add rule inet '' @ table_name @ '' output '' @ r @ [CHR 0x0A]"

text \<open>\<open>None\<close> is the invalid address.\<close>

definition build_kill_switch_ruleset :: "v6_text \<Rightarrow> ip option \<Rightarrow> string \<Rightarrow> bool \<Rightarrow> string" where
  "build_kill_switch_ruleset v6 server tun allow_lan =
     ''add table inet '' @ table_name @ [CHR 0x0A]
     @ ''add chain inet '' @ table_name @ '' output { type filter hook output priority 0 ; policy drop ; }'' @ [CHR 0x0A]
     @ add_rule (''oifname '' @ go_quote ''lo'' @ '' accept'')
     @ (if tun \<noteq> [] then add_rule (''oifname '' @ go_quote tun @ '' accept'') else [])
     @ (case server of
          None \<Rightarrow> []
        | Some a \<Rightarrow> add_rule ((if ip_is4 a then ''ip'' else ''ip6'') @ '' daddr '' @ ip_text v6 a @ '' accept''))
     @ add_rule ''udp sport 68 udp dport 67 accept''
     @ (if allow_lan then add_rule (''ip daddr { '' @ join '', '' lan_prefixes @ '' } accept'') else [])"

text \<open>A command line and what it is fed on standard input.\<close>

type_synonym 's exec_in = "string list \<Rightarrow> string option \<Rightarrow> 's \<Rightarrow> string option \<times> 's"

definition nft_delete :: "string list" where
  "nft_delete = [''nft'', ''delete'', ''table'', ''inet'', table_name]"

definition run_nft_file :: "'s exec_in \<Rightarrow> string \<Rightarrow> string \<Rightarrow> 's \<Rightarrow> string option \<times> 's" where
  "run_nft_file ex ruleset label s =
     (case ex [''nft'', ''-f'', ''-''] (Some ruleset) s of
        (Some e, s1) \<Rightarrow> (Some (''nft -f - ('' @ label @ ''): '' @ e), s1) | (None, s1) \<Rightarrow> (None, s1))"

definition nft_enable :: "v6_text \<Rightarrow> 's exec_in \<Rightarrow> fw_config \<Rightarrow> 's \<Rightarrow> string option \<times> 's" where
  "nft_enable v6 ex cfg s =
     run_nft_file ex (build_kill_switch_ruleset v6 (Some (fw_server cfg)) (fw_tun cfg) (fw_allow_lan cfg))
       ''load kill-switch ruleset'' (snd (ex nft_delete None s))"

definition nft_restore :: "'s exec_in \<Rightarrow> 's \<Rightarrow> string option \<times> 's" where
  "nft_restore ex s = ex nft_delete None s"

definition nft_clear :: "'s exec_in \<Rightarrow> 's \<Rightarrow> string option \<times> 's" where
  "nft_clear ex s = ex nft_delete None s"

definition nft_runner :: "v6_text \<Rightarrow> 's exec_in \<Rightarrow> 's fw_runner" where
  "nft_runner v6 ex = \<lparr>fw_enable = nft_enable v6 ex, fw_restore = nft_restore ex\<rparr>"

section \<open>Windows\<close>

definition rule_name :: string where
  "rule_name = ''vpnio-leakguard-ipv6''"

definition global_unicast_v6_range :: string where
  "global_unicast_v6_range = ''2000::-3fff:ffff:ffff:ffff:ffff:ffff:ffff:ffff''"

definition netsh_delete :: "string list" where
  "netsh_delete = [''netsh'', ''advfirewall'', ''firewall'', ''delete'', ''rule'', ''name='' @ rule_name]"

definition netsh_add :: "string list" where
  "netsh_add = [''netsh'', ''advfirewall'', ''firewall'', ''add'', ''rule'', ''name='' @ rule_name, ''dir=out'', ''action=block'',
     ''remoteip='' @ global_unicast_v6_range, ''profile=any'']"

definition netsh_enable :: "'s exec_in \<Rightarrow> 's \<Rightarrow> string option \<times> 's" where
  "netsh_enable ex s = ex netsh_add None (snd (ex netsh_delete None s))"

definition netsh_restore :: "'s exec_in \<Rightarrow> 's \<Rightarrow> string option \<times> 's" where
  "netsh_restore ex s = ex netsh_delete None s"

definition netsh_clear :: "'s exec_in \<Rightarrow> 's \<Rightarrow> string option \<times> 's" where
  "netsh_clear ex s = ex netsh_delete None s"

text \<open>The DNS runner keeps the name of the interface it set, if any.\<close>

definition dns_set_argv :: "string \<Rightarrow> string \<Rightarrow> string list" where
  "dns_set_argv iface primary =
     [''netsh'', ''interface'', ''ipv4'', ''set'', ''dnsservers'', ''name='' @ iface, ''static'', primary, ''primary'']"

definition dns_add_argv :: "string \<Rightarrow> string \<Rightarrow> nat \<Rightarrow> string list" where
  "dns_add_argv iface server i =
     [''netsh'', ''interface'', ''ipv4'', ''add'', ''dnsservers'', ''name='' @ iface, server, ''index='' @ nat_str i]"

definition dns_dhcp_argv :: "string \<Rightarrow> string list" where
  "dns_dhcp_argv iface = [''netsh'', ''interface'', ''ipv4'', ''set'', ''dnsservers'', ''name='' @ iface, ''dhcp'']"

definition windows_dns_restore :: "'s exec_in \<Rightarrow> string \<times> 's \<Rightarrow> string option \<times> string \<times> 's" where
  "windows_dns_restore ex st =
     (case st of (iface, s) \<Rightarrow>
        if iface = [] then (None, [], s)
        else case ex (dns_dhcp_argv iface) None s of (e, s1) \<Rightarrow> (e, [], s1))"

fun add_servers :: "'s exec_in \<Rightarrow> string \<Rightarrow> nat \<Rightarrow> string list \<Rightarrow> 's \<Rightarrow> string option \<times> string \<times> 's" where
  "add_servers ex iface i [] s = (None, iface, s)"
| "add_servers ex iface i (srv # srvs) s =
     (case ex (dns_add_argv iface srv i) None s of
        (None, s1) \<Rightarrow> add_servers ex iface (Suc i) srvs s1
      | (Some e, s1) \<Rightarrow> (Some e, snd (windows_dns_restore ex (iface, s1))))"

definition windows_dns_apply :: "'s exec_in \<Rightarrow> string list \<Rightarrow> string \<Rightarrow> string \<times> 's \<Rightarrow> string option \<times> string \<times> 's" where
  "windows_dns_apply ex servers iface st =
     (case st of (saved, s) \<Rightarrow>
        if iface = [] then (Some ''dns(windows): empty interface name'', saved, s)
        else if servers = [] then (None, saved, s)
        else case ex (dns_set_argv iface (hd servers)) None s of
          (Some e, s1) \<Rightarrow> (Some e, iface, s1)
        | (None, s1) \<Rightarrow> add_servers ex iface 2 (tl servers) s1)"

definition windows_dns_runner :: "'s exec_in \<Rightarrow> (string \<times> 's) dns_runner" where
  "windows_dns_runner ex = \<lparr>dns_set = windows_dns_apply ex, dns_restore = windows_dns_restore ex\<rparr>"

section \<open>What is relied on\<close>

text \<open>The table of the kill-switch, if loaded: a batch is loaded whole or not at all, and only where there is no
  table; a delete fails exactly where there is none to delete, or leaves it.\<close>

definition nft_lawful :: "'s exec_in \<Rightarrow> ('s \<Rightarrow> string option) \<Rightarrow> bool" where
  "nft_lawful ex tbl \<longleftrightarrow>
     (\<forall>s s'. ex nft_delete None s = (None, s') \<longrightarrow> tbl s' = None)
     \<and> (\<forall>s e s'. ex nft_delete None s = (Some e, s') \<longrightarrow> tbl s' = tbl s)
     \<and> (\<forall>r s s'. ex [''nft'', ''-f'', ''-''] (Some r) s = (None, s') \<longrightarrow> tbl s = None \<and> tbl s' = Some r)
     \<and> (\<forall>r s e s'. ex [''nft'', ''-f'', ''-''] (Some r) s = (Some e, s') \<longrightarrow> tbl s' = tbl s)"

text \<open>The number of rules with the name: adding adds one, deleting takes all.\<close>

definition netsh_lawful :: "'s exec_in \<Rightarrow> ('s \<Rightarrow> nat) \<Rightarrow> bool" where
  "netsh_lawful ex rules \<longleftrightarrow>
     (\<forall>s s'. ex netsh_delete None s = (None, s') \<longrightarrow> rules s' = 0)
     \<and> (\<forall>s e s'. ex netsh_delete None s = (Some e, s') \<longrightarrow> rules s' = rules s)
     \<and> (\<forall>s s'. ex netsh_add None s = (None, s') \<longrightarrow> rules s' = Suc (rules s))
     \<and> (\<forall>s e s'. ex netsh_add None s = (Some e, s') \<longrightarrow> rules s' = rules s)"

section \<open>Properties\<close>

text \<open>The kill-switch that is up is the one of this session: when the manager has enabled it, exactly the rules for its server, interface
  and policy are loaded, with nothing of an earlier or crashed run; a removal that succeeds leaves no table; and one
  that fails leaves it up.\<close>

theorem kill_switch_replaced:
  assumes "nft_lawful ex tbl"
    and "firewall_enable (nft_runner v6 ex) cfg False s = (None, a, s1)" and "firewall_remove (nft_runner v6 ex) a s1 = (a', s2)"
  shows "a \<and> tbl s1 = Some (build_kill_switch_ruleset v6 (Some (fw_server cfg)) (fw_tun cfg) (fw_allow_lan cfg))
    \<and> tbl s2 = (if a' then tbl s1 else None)"
proof -
  let ?r = "build_kill_switch_ruleset v6 (Some (fw_server cfg)) (fw_tun cfg) (fw_allow_lan cfg)"
  from assms(2) have a: "a" and n: "nft_enable v6 ex cfg s = (None, s1)"
    by (auto simp: firewall_enable_def nft_runner_def split: prod.splits option.splits)
  then have "ex [''nft'', ''-f'', ''-''] (Some ?r) (snd (ex nft_delete None s)) = (None, s1)"
    by (auto simp: nft_enable_def run_nft_file_def split: prod.splits option.splits)
  with assms(1) have t: "tbl s1 = Some ?r" unfolding nft_lawful_def by blast
  obtain e s3 where d: "ex nft_delete None s1 = (e, s3)" by fastforce
  with assms(1,3) a have "tbl s2 = (if a' then tbl s1 else None)"
    unfolding nft_lawful_def by (cases e) (auto simp: firewall_remove_def nft_runner_def nft_restore_def)
  with a t show ?thesis by simp
qed

definition toy_nft :: "string option exec_in" where
  "toy_nft argv inp s =
     (if argv = nft_delete then (if s = None then (Some ''No such file or directory'', s) else (None, None))
      else case inp of None \<Rightarrow> (Some ''usage'', s) | Some r \<Rightarrow> (if s = None then (None, Some r) else (Some ''File exists'', s)))"

lemma toy_nft_lawful: "nft_lawful toy_nft (\<lambda>s. s)"
  by (auto simp: nft_lawful_def toy_nft_def nft_delete_def split: if_splits)

theorem kill_switch_replaced_witness:
  "\<exists>s1. firewall_enable (nft_runner (\<lambda>a z. []) toy_nft) \<lparr>fw_server = V4 0xC0000201, fw_tun = ''tun0'', fw_allow_lan = False\<rparr> False
      (Some ''crashed'') = (None, True, s1)
    \<and> firewall_remove (nft_runner (\<lambda>a z. []) toy_nft) True s1 = (False, None)
    \<and> s1 = Some (build_kill_switch_ruleset (\<lambda>a z. []) (Some (V4 0xC0000201)) ''tun0'' False)"
proof -
  let ?c = "\<lparr>fw_server = V4 0xC0000201, fw_tun = ''tun0'', fw_allow_lan = False\<rparr>"
  obtain s1 where e: "firewall_enable (nft_runner (\<lambda>a z. []) toy_nft) ?c False (Some ''crashed'') = (None, True, s1)"
    by (simp add: firewall_enable_def nft_runner_def nft_enable_def run_nft_file_def toy_nft_def nft_delete_def)
  obtain a' s2 where r: "firewall_remove (nft_runner (\<lambda>a z. []) toy_nft) True s1 = (a', s2)" by fastforce
  from kill_switch_replaced [OF toy_nft_lawful e r] r have s1: "s1 = Some (build_kill_switch_ruleset (\<lambda>a z. []) (Some (V4 0xC0000201)) ''tun0'' False)"
    and "s2 = (if a' then s1 else None)" by simp_all
  moreover from r s1 have "\<not> a'"
    by (auto simp: firewall_remove_def nft_runner_def nft_restore_def toy_nft_def)
  ultimately show ?thesis using e r by simp
qed

text \<open>However often a Windows client enables and crashes, or clears, there is at most one rule, as long as the deletes of
  rules that are there succeed.\<close>

datatype win_fw_op = WinEnable | WinRestore | WinClear

fun win_fw_run :: "'s exec_in \<Rightarrow> win_fw_op list \<Rightarrow> 's \<Rightarrow> 's" where
  "win_fw_run ex [] s = s"
| "win_fw_run ex (op # ops) s =
     win_fw_run ex ops (snd (case op of WinEnable \<Rightarrow> netsh_enable ex s | WinRestore \<Rightarrow> netsh_restore ex s | WinClear \<Rightarrow> netsh_clear ex s))"

theorem windows_one_rule:
  assumes "netsh_lawful ex rules" and "\<And>s e s'. ex netsh_delete None s = (Some e, s') \<Longrightarrow> rules s = 0" and "rules s \<le> 1"
  shows "rules (win_fw_run ex ops s) \<le> 1"
  using assms(3)
proof (induction ops arbitrary: s)
  case (Cons op ops)
  obtain e s1 where d: "ex netsh_delete None s = (e, s1)" by fastforce
  have z: "rules s1 = 0"
    using assms(1) assms(2) [of s _ s1] d unfolding netsh_lawful_def by (cases e) auto
  obtain e2 s2 where a: "ex netsh_add None s1 = (e2, s2)" by fastforce
  with assms(1) z have "rules s2 \<le> 1" unfolding netsh_lawful_def by (cases e2) (auto dest: spec)
  with z d a Cons.IH show ?case by (cases op) (simp_all add: netsh_enable_def netsh_restore_def netsh_clear_def)
qed simp

end
