(* ===== verification/VlessTool.thy ===== *)
theory VlessTool
  imports VlessLink VlessStore Paths
begin

text \<open>
  The operator's command line for a VLESS node (\<open>src/cmd/vpn-vless/main.go\<close>) and the report on a masquerade target it
  prints (\<open>DestReport.String\<close> of \<open>src/internal/vless/dest.go\<close>). A command is a function of its parsed flags, the files of
  the node and what the system answers; it returns what it prints on stdout, its error and the files.
\<close>

section \<open>The report on a target\<close>

definition em_dash :: string where
  "em_dash = [CHR 0xE2, CHR 0x80, CHR 0x94]"

definition or_none :: "string \<Rightarrow> string" where
  "or_none s = (if s = [] then ''(none)'' else s)"

fun problem_text :: "dest_problem \<Rightarrow> string" where
  "problem_text NoTls13 = ''does not negotiate TLS 1.3 '' @ em_dash @ '' REALITY cannot hide behind it''"
| "problem_text (ChainTooLarge k) =
     ''certificate chain is '' @ nat_str k
     @ '' bytes; REALITY relays the target's handshake and one this large does not fit '' @ em_dash
     @ '' clients connect and pass no traffic''"

fun warning_text :: "dest_warning \<Rightarrow> string" where
  "warning_text (ChainNearLimit k) =
     ''certificate chain is '' @ nat_str k @ '' bytes, close to the '' @ nat_str max_chain_bytes
     @ ''-byte limit; it may break if the target rotates to a larger chain''"
| "warning_text NoHttp2 =
     ''does not negotiate HTTP/2 '' @ em_dash @ '' an ordinary browser visit would, so this stands out''"

definition report_lines :: "dest_report \<Rightarrow> string list" where
  "report_lines r =
     [dr_dest r,
      ''  certificate  '' @ dr_common_name r,
      ''  TLS 1.3      '' @ (if dr_tls13 r then ''true'' else ''false''),
      ''  ALPN         '' @ or_none (dr_alpn r),
      ''  chain size   '' @ nat_str (dr_chain r) @ '' bytes'']
     @ map (\<lambda>p. ''  PROBLEM      '' @ problem_text p) (dr_problems r)
     @ map (\<lambda>w. ''  warning      '' @ warning_text w) (dr_warnings r)
     @ (if dest_ok r \<and> dr_warnings r = [] then [''  usable as a masquerade target''] else [])"

definition report_text :: "dest_report \<Rightarrow> string" where
  "report_text r = concat (map (\<lambda>l. l @ [CHR 0x0A]) (report_lines r))"

section \<open>Commands\<close>

definition vless_default_dir :: string where "vless_default_dir = ''/etc/vpn-xray''"

definition store_dir :: "string \<Rightarrow> string" where
  "store_dir dir = (if dir = [] then vless_default_dir else dir)"

definition config_path :: "string \<Rightarrow> string" where
  "config_path dir = path_clean (store_dir dir @ ''/config.json'')"

record init_flags =
  if_address :: string
  if_port :: int
  if_dest :: string
  if_sni :: string
  if_fp :: string
  if_label :: string
  if_listen :: string

datatype vt_err =
    InitNeedsAddress
  | CheckingDest dest_err
  | DestFails dest_err
  | TargetUnusable string
  | NotUsable
  | Usage string
  | Vless vless_err
  | NoAccess string
  | SlicePanic string

text \<open>What goes to stdout: the report, the five facts about a fresh node (directory, endpoint, bind address,
  target with its SNI, public key), a link, one row for each client.\<close>

datatype vt_out =
    OutReport string
  | OutInitialised string string string string string string
  | OutLink string
  | OutNothingToRemove string
  | OutRevoked string
  | OutNobody
  | OutRow string string string
  | OutRebuilt string

type_synonym vt_result = "vt_out list \<times> vt_err option \<times> vdisk"

definition cmd_init ::
    "(string \<Rightarrow> string \<Rightarrow> string + dest_state) \<Rightarrow> bool \<Rightarrow> string + bytes \<Rightarrow> (bytes \<Rightarrow> string + bytes) \<Rightarrow> vio
     \<Rightarrow> string \<Rightarrow> init_flags \<Rightarrow> vdisk \<Rightarrow> vt_result" where
  "cmd_init dial ipv6_works rand derive io dir fl d =
     (if if_address fl = [] then ([], Some InitNeedsAddress, d)
      else case check_dest dial (if_dest fl) of
        Inl e \<Rightarrow> ([], Some (CheckingDest e), d)
      | Inr r \<Rightarrow>
          (if \<not> dest_ok r then ([OutReport (report_text r)], Some (TargetUnusable (if_dest fl)), d)
           else
             (let bind = (if if_listen fl = [] then detect_listen ipv6_works else if_listen fl)
              in case new_node rand derive (if_address fl) (if_dest fl) (if_sni fl) (if_fp fl) (if_label fl) bind
                        (if_port fl) of
                   Inl e \<Rightarrow> ([OutReport (report_text r)], Some (Vless e), d)
                 | Inr n \<Rightarrow>
                     (case save_node io n d of
                        (Some e, d1) \<Rightarrow> ([OutReport (report_text r)], Some (Vless e), d1)
                      | (None, d1) \<Rightarrow>
                          (case write_config io n [] d1 of
                             (Some e, d2) \<Rightarrow> ([OutReport (report_text r)], Some (Vless e), d2)
                           | (None, d2) \<Rightarrow>
                               ([OutReport (report_text r),
                                 OutInitialised (store_dir dir) (node_endpoint n) (listen_addr n) (nd_dest n)
                                   (node_server_name n) (nd_public n)], None, d2))))))"

definition cmd_check_dest ::
    "(string \<Rightarrow> string \<Rightarrow> string + dest_state) \<Rightarrow> string list \<Rightarrow> vt_out list \<times> vt_err option" where
  "cmd_check_dest dial args =
     (case args of
        [dest] \<Rightarrow>
          (case check_dest dial dest of
             Inl e \<Rightarrow> ([], Some (DestFails e))
           | Inr r \<Rightarrow> ([OutReport (report_text r)], if dest_ok r then None else Some NotUsable))
      | _ \<Rightarrow> ([], Some (Usage ''check-dest HOST:PORT'')))"

text \<open>The node is read again for the link: \<open>io'\<close> is what the file system answers then.\<close>

definition print_link :: "vio \<Rightarrow> vclient \<Rightarrow> vdisk \<Rightarrow> vt_result" where
  "print_link io' c d =
     (case load_node io' d of
        Inl e \<Rightarrow> ([], Some (Vless e), d)
      | Inr n \<Rightarrow>
          (case vless_link n c of
             Inl e \<Rightarrow> ([], Some (Vless e), d)
           | Inr l \<Rightarrow> ([OutLink l], None, d)))"

definition cmd_add ::
    "(string \<Rightarrow> string \<Rightarrow> bool) \<Rightarrow> vio \<Rightarrow> vio \<Rightarrow> string + bytes \<Rightarrow> string + bytes \<Rightarrow> string \<Rightarrow> string list
     \<Rightarrow> vdisk \<Rightarrow> vt_result" where
  "cmd_add eqf io io' uuid_rand sid_rand date args d =
     (case args of
        [nm] \<Rightarrow>
          (case add_client eqf io uuid_rand sid_rand date nm d of
             (Inl e, d1) \<Rightarrow> ([], Some (Vless e), d1)
           | (Inr c, d1) \<Rightarrow> print_link io' c d1)
      | _ \<Rightarrow> ([], Some (Usage ''add NAME''), d))"

definition cmd_remove ::
    "(string \<Rightarrow> string \<Rightarrow> bool) \<Rightarrow> vio \<Rightarrow> string list \<Rightarrow> vdisk \<Rightarrow> vt_result" where
  "cmd_remove eqf io args d =
     (case args of
        [nm] \<Rightarrow>
          (case remove_client eqf io nm d of
             (Inl e, d1) \<Rightarrow> ([], Some (Vless e), d1)
           | (Inr removed, d1) \<Rightarrow> ([if removed then OutRevoked nm else OutNothingToRemove nm], None, d1))
      | _ \<Rightarrow> ([], Some (Usage ''remove NAME''), d))"

text \<open>\<open>c.UUID[:8]\<close> panics on a shorter string; rows before it are in the buffer of the tabwriter and are lost.\<close>

definition list_row :: "vclient \<Rightarrow> vt_err + vt_out" where
  "list_row c =
     (if length (vc_uuid c) < 8 then Inl (SlicePanic (vc_uuid c))
      else Inr (OutRow (vc_name c) (vc_created c) (take 8 (vc_uuid c))))"

fun list_rows :: "vclient list \<Rightarrow> vt_err + vt_out list" where
  "list_rows [] = Inr []"
| "list_rows (c # cs) =
     (case list_row c of
        Inl e \<Rightarrow> Inl e
      | Inr r \<Rightarrow> (case list_rows cs of Inl e \<Rightarrow> Inl e | Inr rs \<Rightarrow> Inr (r # rs)))"

definition cmd_list :: "vio \<Rightarrow> vdisk \<Rightarrow> vt_result" where
  "cmd_list io d =
     (case load_clients io d of
        Inl e \<Rightarrow> ([], Some (Vless e), d)
      | Inr cs \<Rightarrow>
          (if cs = [] then ([OutNobody], None, d)
           else case list_rows cs of Inl e \<Rightarrow> ([], Some e, d) | Inr rs \<Rightarrow> (rs, None, d)))"

definition cmd_link ::
    "(string \<Rightarrow> string \<Rightarrow> bool) \<Rightarrow> vio \<Rightarrow> vio \<Rightarrow> string list \<Rightarrow> vdisk \<Rightarrow> vt_result" where
  "cmd_link eqf io io' args d =
     (case args of
        [nm] \<Rightarrow>
          (case find_client eqf io nm d of
             Inl e \<Rightarrow> ([], Some (Vless e), d)
           | Inr None \<Rightarrow> ([], Some (NoAccess nm), d)
           | Inr (Some c) \<Rightarrow> print_link io' c d)
      | _ \<Rightarrow> ([], Some (Usage ''link NAME''), d))"

definition cmd_render :: "vio \<Rightarrow> string \<Rightarrow> vdisk \<Rightarrow> vt_result" where
  "cmd_render io dir d =
     (case render_config io d of
        (Some e, d1) \<Rightarrow> ([], Some (Vless e), d1)
      | (None, d1) \<Rightarrow> ([OutRebuilt (config_path dir)], None, d1))"

text \<open>The exit status, and whether \<open>main\<close> adds the hint to run \<open>init\<close> first.\<close>

definition exit_of :: "vt_err option \<Rightarrow> int \<times> bool" where
  "exit_of r = (case r of None \<Rightarrow> (0, False) | Some (SlicePanic s) \<Rightarrow> (2, False)
     | Some e \<Rightarrow> (1, e = Vless NodeNotInitialised))"

section \<open>Lemmas\<close>

lemma save_node_cases:
  assumes "save_node io n d = (r, d')"
  shows "(r = None \<and> vd_node d = None \<and> d' = d\<lparr>vd_node := Some (line (node_json n))\<rparr>) \<or> (r \<noteq> None \<and> d' = d)"
  using assms by (auto simp: save_node_def write_text_def split: option.splits if_splits prod.splits)

lemma write_config_cases:
  assumes "write_config io n cs d = (r, d')"
  shows "(r = None \<and> (\<exists>t. xray_config n cs = Inr t \<and> d' = d\<lparr>vd_config := Some t\<rparr>)) \<or> (r \<noteq> None \<and> d' = d)"
  using assms by (auto simp: write_config_def write_text_def split: option.splits sum.splits prod.splits)

lemma new_node_valid: "new_node rand derive a dst sni fp l li p = Inr n \<Longrightarrow> node_validate n = None"
  by (auto simp: new_node_def Let_def split: if_splits sum.splits option.splits)

lemma node_validate_port: "node_validate n = None \<Longrightarrow> int64_range (nd_port n)"
  by (auto simp: node_validate_def int64_range_def split: if_splits)

lemma cmd_init_cases:
  assumes "cmd_init dial v6 rand derive io dir fl d = (outs, r, d')"
  obtains (refused) "r \<noteq> None" "d' = d"
  | (half) n rep where "r \<noteq> None" "check_dest dial (if_dest fl) = Inr rep" "dest_ok rep" "vd_node d = None"
      "d' = d\<lparr>vd_node := Some (line (node_json n))\<rparr>"
  | (made) n rep t where "r = None" "check_dest dial (if_dest fl) = Inr rep" "dest_ok rep" "vd_node d = None"
      "node_validate n = None" "xray_config n [] = Inr t"
      "d' = d\<lparr>vd_node := Some (line (node_json n)), vd_config := Some t\<rparr>"
      "new_node rand derive (if_address fl) (if_dest fl) (if_sni fl) (if_fp fl) (if_label fl)
        (if if_listen fl = [] then detect_listen v6 else if_listen fl) (if_port fl) = Inr n"
proof (cases "\<exists>rep n d1. if_address fl \<noteq> [] \<and> check_dest dial (if_dest fl) = Inr rep \<and> dest_ok rep
    \<and> new_node rand derive (if_address fl) (if_dest fl) (if_sni fl) (if_fp fl) (if_label fl)
        (if if_listen fl = [] then detect_listen v6 else if_listen fl) (if_port fl) = Inr n
    \<and> save_node io n d = (None, d1)")
  case False
  have "r \<noteq> None \<and> d' = d"
    using assms False save_node_cases
    by (fastforce simp: cmd_init_def Let_def split: if_splits sum.splits prod.splits option.splits)
  then show thesis using refused by blast
next
  case True
  then obtain rep n d1 where h: "if_address fl \<noteq> []" "check_dest dial (if_dest fl) = Inr rep" "dest_ok rep"
      "new_node rand derive (if_address fl) (if_dest fl) (if_sni fl) (if_fp fl) (if_label fl)
        (if if_listen fl = [] then detect_listen v6 else if_listen fl) (if_port fl) = Inr n"
      "save_node io n d = (None, d1)" by blast
  obtain r2 d2 where w: "write_config io n [] d1 = (r2, d2)" by fastforce
  from save_node_cases [OF h(5)] have d1: "vd_node d = None" "d1 = d\<lparr>vd_node := Some (line (node_json n))\<rparr>"
    by simp_all
  from assms h w have r: "r = map_option Vless r2" "d' = d2"
    by (auto simp: cmd_init_def Let_def split: option.splits)
  from write_config_cases [OF w] show thesis
  proof
    assume "r2 = None \<and> (\<exists>t. xray_config n [] = Inr t \<and> d2 = d1\<lparr>vd_config := Some t\<rparr>)"
    then show thesis using made [OF _ h(2,3) d1(1) new_node_valid [OF h(4)] _ _ h(4)] r d1(2) by auto
  next
    assume "r2 \<noteq> None \<and> d2 = d1"
    then show thesis using half [OF _ h(2,3) d1(1)] r d1(2) by auto
  qed
qed

lemma load_node_saved:
  assumes "vd_node d = Some (line (node_json n))" and "node_validate n = None"
    and "length (line (node_json n)) \<le> vless_max_bytes" and "io_read (vi_node io) = None"
  shows "load_node io d = Inr n"
  using assms node_json_wf [of n] node_of_json_json [OF node_validate_port [OF assms(2)]]
  by (simp add: load_node_def read_capped_def line_def)

lemma link_of_valid:
  "node_validate n = None \<Longrightarrow> client_validate c = None \<Longrightarrow> \<exists>l. vless_link n c = Inr l"
  by (simp add: vless_link_def)

lemma valid_uuid_length: "valid_uuid u = None \<Longrightarrow> length u = 36"
  by (simp add: valid_uuid_def split: if_splits)

lemma client_uuid_length: "client_validate c = None \<Longrightarrow> length (vc_uuid c) = 36"
  by (auto simp: client_validate_def split: if_splits option.splits intro: valid_uuid_length)

lemma list_rows_valid:
  "\<forall>c \<in> set cs. client_validate c = None
    \<Longrightarrow> list_rows cs = Inr (map (\<lambda>c. OutRow (vc_name c) (vc_created c) (take 8 (vc_uuid c))) cs)"
  by (induction cs) (simp_all add: list_row_def client_uuid_length)

lemma load_clients_valid: "load_clients io d = Inr cs \<Longrightarrow> c \<in> set cs \<Longrightarrow> client_validate c = None"
  by (auto simp: load_clients_def first_invalid_None split: sum.splits if_splits option.splits)

lemma xray_config_valid:
  assumes "node_validate n = None" and "\<forall>x \<in> set cs. client_validate x = None"
  shows "xray_config n cs = Inr (line (xray_config_json n cs))"
proof -
  from assms(2) have "first_invalid cs = None" by (simp add: first_invalid_None)
  with assms(1) show ?thesis by (simp add: xray_config_def line_def)
qed

section \<open>Properties\<close>

definition sample_flags :: init_flags where
  "sample_flags = \<lparr>if_address = ''n.io'', if_port = 0, if_dest = ''a.io:1'', if_sni = [], if_fp = [], if_label = [],
     if_listen = ''::''\<rparr>"

definition good_dial :: "string \<Rightarrow> string \<Rightarrow> string + dest_state" where
  "good_dial h a = Inr \<lparr>ds_version = 772, ds_alpn = ''h2'', ds_certs = [(1000, h)]\<rparr>"

text \<open>Random bytes that are zero, and a derivation that can be told from the identity.\<close>

definition zero_raw :: bytes where
  "zero_raw = replicate 32 0"

definition sample_derive :: "bytes \<Rightarrow> string + bytes" where
  "sample_derive k = Inr (map (\<lambda>b. b + 4) k)"

definition empty_vdisk :: vdisk where
  "empty_vdisk = \<lparr>vd_node = None, vd_clients = None, vd_config = None\<rparr>"

definition sample_init :: "vdisk \<Rightarrow> vt_result" where
  "sample_init = cmd_init good_dial True (Inr zero_raw) sample_derive vio_fine [] sample_flags"

definition init_node :: node where
  "init_node = sample_node\<lparr>nd_listen := ''::'',
     nd_private := ''AAAAAAAAAAAAAAAAAAAAAAAAAAAAAAAAAAAAAAAAAEA'',
     nd_public := ''BAQEBAQEBAQEBAQEBAQEBAQEBAQEBAQEBAQEBAQEBEQ''\<rparr>"

lemma sample_report: "check_dest good_dial ''a.io:1'' = Inr \<lparr>dr_dest = ''a.io:1'', dr_tls13 = True, dr_alpn = ''h2'',
    dr_chain = 1000, dr_common_name = ''a.io'', dr_problems = [], dr_warnings = []\<rparr>"
  by code_simp

lemma init_node_new: "new_node (Inr zero_raw) sample_derive ''n.io'' ''a.io:1'' [] [] [] ''::'' 0 = Inr init_node"
  by code_simp

lemma init_node_valid: "node_validate init_node = None"
  using init_node_new by (rule new_node_valid)

lemma sample_init_ok:
  assumes "vd_node d = None"
  shows "\<exists>outs. sample_init d = (outs, None,
      d\<lparr>vd_node := Some (line (node_json init_node)), vd_config := Some (line (xray_config_json init_node []))\<rparr>)"
proof -
  let ?d1 = "d\<lparr>vd_node := Some (line (node_json init_node))\<rparr>"
  have "save_node vio_fine init_node d = (None, ?d1)"
    using assms init_node_valid by (simp add: save_node_def write_text_def vio_fine_def io_fine_def)
  moreover have "write_config vio_fine init_node [] ?d1
      = (None, ?d1\<lparr>vd_config := Some (line (xray_config_json init_node []))\<rparr>)"
    using xray_config_valid [OF init_node_valid, of "[]"]
    by (simp add: write_config_def write_text_def vio_fine_def io_fine_def)
  ultimately show ?thesis using sample_report init_node_new
    by (simp add: sample_init_def cmd_init_def sample_flags_def dest_ok_def Let_def)
qed

text \<open>\<open>init\<close> is guarded: it succeeds only when the node has no keys yet and the masquerade target was reached
  and found usable; and with keys on the disk, or a target that cannot be reached or used, it fails and
  leaves every file alone. In no case does it touch the list of clients.\<close>

theorem init_guarded:
  assumes "cmd_init dial v6 rand derive io dir fl d = (outs, r, d')"
  shows "vd_clients d' = vd_clients d
    \<and> (if vd_node d = None \<and> (\<exists>rep. check_dest dial (if_dest fl) = Inr rep \<and> dest_ok rep)
       then r = None \<or> vd_config d' = vd_config d else r \<noteq> None \<and> d' = d)"
  using assms by (cases rule: cmd_init_cases) auto

theorem init_guarded_witness:
  "\<exists>outs r. sample_init (sample_disk [bob]) = (outs, r, sample_disk [bob]) \<and> r \<noteq> None"
proof -
  obtain outs r d' where e: "sample_init (sample_disk [bob]) = (outs, r, d')" by (metis prod_cases3)
  from init_guarded [OF e [unfolded sample_init_def]] e show ?thesis by (simp add: sample_disk_def)
qed

text \<open>What Xray takes from its configuration file: the private key of the node, the UUIDs it admits and the short
  ids, from the first inbound.\<close>

fun jfield :: "string \<Rightarrow> json \<Rightarrow> json option" where
  "jfield k (JObj ms) = map_of ms k"
| "jfield k _ = None"

fun jpath :: "string list \<Rightarrow> json \<Rightarrow> json option" where
  "jpath [] j = Some j"
| "jpath (k # ks) j = Option.bind (jfield k j) (jpath ks)"

fun jitems :: "json option \<Rightarrow> json list" where
  "jitems (Some (JArr xs)) = xs"
| "jitems _ = []"

definition xray_access :: "string \<Rightarrow> (json option \<times> json option list \<times> json list) option" where
  "xray_access t =
     Option.bind (json_parse t) (\<lambda>j.
       case jitems (jfield ''inbounds'' j) of
         [] \<Rightarrow> None
       | i # is \<Rightarrow> Some (jpath [''streamSettings'', ''realitySettings'', ''privateKey''] i,
           map (jfield ''id'') (jitems (jpath [''settings'', ''clients''] i)),
           jitems (jpath [''streamSettings'', ''realitySettings'', ''shortIds''] i)))"

lemma xray_config_json_wf: "json_wf (xray_config_json n cs)"
  by (auto simp: xray_config_json_def xray_client_json_def list_all_iff)

lemma xray_access_line:
  "xray_access (line (xray_config_json n cs))
    = Some (Some (JStr (nd_private n)), map (\<lambda>c. Some (JStr (vc_uuid c))) cs, map (\<lambda>c. JStr (vc_short_id c)) cs)"
  using xray_config_json_wf [of n cs]
  by (simp add: xray_access_def line_def) (simp add: xray_config_json_def xray_client_json_def jstrs_def comp_def)

lemma new_node_fields:
  assumes "new_node (Inr raw) derive a dst sni fp l li p = Inr n"
  shows "\<exists>pub. derive (clamp raw) = Inr pub
    \<and> n = \<lparr>nd_address = a, nd_port = (if p = 0 then 443 else p), nd_label = l, nd_listen = li,
           nd_private = b64u_encode (bytes_string (clamp raw)), nd_public = b64u_encode (bytes_string pub),
           nd_dest = (if dst = [] then ''www.apple.com:443'' else dst),
           nd_server_names = [if sni = [] then host_of (if dst = [] then ''www.apple.com:443'' else dst) else sni],
           nd_fingerprint = (if fp = [] then ''chrome'' else fp)\<rparr>"
  using assms
  by (auto simp: new_node_def generate_keypair_def default_port_def default_dest_def default_fingerprint_def Let_def
      split: if_splits sum.splits option.splits)

text \<open>(C35) The documented start of a node works: after \<open>init\<close> in an empty directory and \<open>add NAME\<close>, with a system that
  does not fail and random bytes of the right length, \<open>add\<close> prints exactly one link, recorded for a client of that
  name. Reading the link as an app does gives the UUID made of the random bytes; the address of the flags, with port
  443 unless they say otherwise; the public key derived from the clamped random key; the short id, and the name and
  fingerprint of the flags or their defaults. Reading the file as Xray does gives the private key itself, and that UUID and
  that short id and no other.\<close>

theorem first_access_works:
  assumes "cmd_init dial v6 (Inr raw) derive io dir fl empty_vdisk = (outs, None, d1)"
    and "length (the (vd_node d1)) \<le> vless_max_bytes"
    and "length ub = 16" "length sb = short_id_bytes" "trim_space nm \<noteq> []"
  shows "\<exists>pub l d2. cmd_add eqf vio_fine vio_fine (Inr ub) (Inr sb) date [nm] d1 = ([OutLink l], None, d2)
    \<and> derive (clamp raw) = Inr pub
    \<and> vd_node d2 = vd_node d1
    \<and> load_clients vio_fine d1 = Inr []
    \<and> vd_clients d2 = Some (line (vclients_json [\<lparr>vc_name = trim_space nm, vc_uuid = new_uuid ub,
        vc_short_id = hex_encode sb, vc_created = date\<rparr>]))
    \<and> (let port = int_str (if if_port fl = 0 then 443 else if_port fl);
           dest = (if if_dest fl = [] then ''www.apple.com:443'' else if_dest fl)
       in read_link l =
         (new_uuid ub, join_host_port (if_address fl) port,
          [(''encryption'', ''none''), (''flow'', ''xtls-rprx-vision''), (''fp'', if if_fp fl = [] then ''chrome'' else if_fp fl),
           (''pbk'', b64u_encode (bytes_string pub)), (''security'', ''reality''), (''sid'', hex_encode sb),
           (''sni'', if if_sni fl = [] then host_of dest else if_sni fl), (''type'', ''tcp'')],
          if if_label fl \<noteq> [] then if_label fl else if_address fl @ '':'' @ port))
    \<and> xray_access (the (vd_config d2))
        = Some (Some (JStr (b64u_encode (bytes_string (clamp raw)))), [Some (JStr (new_uuid ub))], [JStr (hex_encode sb)])"
  using assms(1)
proof (cases rule: cmd_init_cases)
  case (made n rep t)
  let ?c = "\<lparr>vc_name = trim_space nm, vc_uuid = new_uuid ub, vc_short_id = hex_encode sb, vc_created = date\<rparr>"
  let ?d2 = "d1\<lparr>vd_clients := Some (line (vclients_json [?c])), vd_config := Some (line (xray_config_json n [?c]))\<rparr>"
  have ln: "load_node vio_fine d1 = Inr n"
    using load_node_saved [OF _ made(5), of d1] assms(2) made(7) by (simp add: vio_fine_def io_fine_def)
  have c: "new_vclient (Inr ub) (Inr sb) date nm = Inr ?c" by (rule new_vclient_ok [OF assms(3-5)])
  then have v: "client_validate ?c = None" by (blast dest: new_vclient_valid)
  then have x: "xray_config n [?c] = Inr (line (xray_config_json n [?c]))"
    using xray_config_valid [OF made(5)] by simp
  have lc: "load_clients vio_fine d1 = Inr []"
    using made(7) by (simp add: load_clients_def read_capped_def empty_vdisk_def)
  then have a: "add_client eqf vio_fine (Inr ub) (Inr sb) date nm d1 = (Inr ?c, ?d2)"
    using ln c x by (simp add: add_client_def save_clients_def write_config_def write_text_def vio_fine_def io_fine_def)
  from link_of_valid [OF made(5) v] obtain l where l: "vless_link n ?c = Inr l" by blast
  have add: "cmd_add eqf vio_fine vio_fine (Inr ub) (Inr sb) date [nm] d1 = ([OutLink l], None, ?d2)"
    using a l ln by (simp add: cmd_add_def print_link_def)
  have "read_link l = (vc_uuid ?c, node_endpoint n, link_params n ?c, link_label n)"
    using l by (rule link_roundtrip)
  moreover obtain pub where pub: "derive (clamp raw) = Inr pub" and n:
    "n = \<lparr>nd_address = if_address fl, nd_port = (if if_port fl = 0 then 443 else if_port fl), nd_label = if_label fl,
       nd_listen = (if if_listen fl = [] then detect_listen v6 else if_listen fl),
       nd_private = b64u_encode (bytes_string (clamp raw)), nd_public = b64u_encode (bytes_string pub),
       nd_dest = (if if_dest fl = [] then ''www.apple.com:443'' else if_dest fl),
       nd_server_names = [if if_sni fl = [] then host_of (if if_dest fl = [] then ''www.apple.com:443'' else if_dest fl) else if_sni fl],
       nd_fingerprint = (if if_fp fl = [] then ''chrome'' else if_fp fl)\<rparr>"
    using new_node_fields [OF made(8)] by blast
  ultimately show ?thesis
    using add lc
    by (intro exI [of _ pub] exI [of _ l] exI [of _ ?d2])
      (simp add: Let_def xray_access_line node_endpoint_def link_params_def link_label_def node_server_name_def vless_flow_def)
qed simp_all

lemma init_node_fits: "length (line (node_json init_node)) \<le> vless_max_bytes"
  by (simp add: line_def node_json_def opt_member_def jstrs_def sample_node_def init_node_def json_marshal_indent_def
      json_indent_def jint_def json_string_def esc_char_def int_str_def nat_str.simps vless_max_bytes_def)

theorem first_access_works_witness:
  "\<exists>outs l d1 d2. sample_init empty_vdisk = (outs, None, d1)
    \<and> cmd_add equal_fold vio_fine vio_fine (Inr (replicate 16 0)) (Inr (replicate 8 0)) ''now'' [''bob ''] d1
        = ([OutLink l], None, d2)"
proof -
  from sample_init_ok [of empty_vdisk] obtain outs d1 where e: "sample_init empty_vdisk = (outs, None, d1)"
    and d1: "vd_node d1 = Some (line (node_json init_node))" by (auto simp: empty_vdisk_def)
  have "trim_space ''bob '' \<noteq> []" by code_simp
  from first_access_works [OF e [unfolded sample_init_def] _ _ _ this, of "replicate 16 0" "replicate 8 0"
      equal_fold "''now''"] e d1 init_node_fits show ?thesis
    by (auto simp: short_id_bytes_def)
qed

text \<open>(C38) Re-keying locks everybody out until \<open>render\<close>. The comment on \<open>SaveNode\<close> says how to change the keys: remove
  \<open>node.json\<close>, run \<open>init\<close>, reissue every link. The list of clients survives, so \<open>link\<close> prints a link for every one of
  them; but \<open>init\<close> has written a configuration without clients, and Xray refuses all these links. \<open>render\<close>
  repairs it.\<close>

theorem rekey_needs_render:
  assumes "cmd_init dial v6 rand derive io dir fl d = (outs, None, d1)" and "length (the (vd_node d1)) \<le> vless_max_bytes"
    and "load_clients vio_fine d = Inr cs" and "find (\<lambda>c. eqf (vc_name c) nm) cs = Some c"
  shows "\<exists>n l. cmd_link eqf vio_fine vio_fine [nm] d1 = ([OutLink l], None, d1) \<and> vless_link n c = Inr l
    \<and> vd_config d1 = Some (line (xray_config_json n []))
    \<and> cmd_render vio_fine dir d1
        = ([OutRebuilt (config_path dir)], None, d1\<lparr>vd_config := Some (line (xray_config_json n cs))\<rparr>)"
  using assms(1)
proof (cases rule: cmd_init_cases)
  case (made n rep t)
  have ln: "load_node vio_fine d1 = Inr n"
    using load_node_saved [OF _ made(5), of d1] assms(2) made(7) by (simp add: vio_fine_def io_fine_def)
  have lc: "load_clients vio_fine d1 = Inr cs" using assms(3) made(7) by (simp add: load_clients_def)
  have v: "client_validate x = None" if "x \<in> set cs" for x using load_clients_valid [OF assms(3) that] .
  have "c \<in> set cs" using assms(4) by (auto simp: find_Some_iff)
  with link_of_valid [OF made(5) v] obtain l where l: "vless_link n c = Inr l" by blast
  have x: "xray_config n cs = Inr (line (xray_config_json n cs))" if "\<forall>x \<in> set cs. client_validate x = None" for cs
    using that by (rule xray_config_valid [OF made(5)])
  have "render_config vio_fine d1 = (None, d1\<lparr>vd_config := Some (line (xray_config_json n cs))\<rparr>)"
    using ln lc x [of cs] v
    by (simp add: render_config_def write_config_def write_text_def vio_fine_def io_fine_def)
  moreover have "cmd_link eqf vio_fine vio_fine [nm] d1 = ([OutLink l], None, d1)"
    using lc assms(4) ln l by (simp add: cmd_link_def find_client_def print_link_def)
  moreover have "vd_config d1 = Some (line (xray_config_json n []))" using made(6,7) x [of "[]"] by simp
  ultimately show ?thesis using l by (auto simp: cmd_render_def)
qed simp_all

theorem rekey_needs_render_witness:
  "\<exists>outs l d1. sample_init ((sample_disk [bob])\<lparr>vd_node := None\<rparr>) = (outs, None, d1)
    \<and> cmd_link equal_fold vio_fine vio_fine [''bob''] d1 = ([OutLink l], None, d1)"
proof -
  let ?d = "(sample_disk [bob])\<lparr>vd_node := None\<rparr>"
  from sample_init_ok [of ?d] obtain outs d1 where e: "sample_init ?d = (outs, None, d1)"
    and d1: "vd_node d1 = Some (line (node_json init_node))" by auto
  have lc: "load_clients vio_fine ?d = Inr [bob]"
    using load_clients_listed [OF _ bob_fits(1) bob_valid, of ?d vio_fine]
    by (simp add: vio_fine_def io_fine_def sample_disk_def)
  have f: "find (\<lambda>c. equal_fold (vc_name c) ''bob'') [bob] = Some bob" by (simp add: bob_def)
  from rekey_needs_render [where eqf = equal_fold and nm = "''bob''", OF e [unfolded sample_init_def] _ lc f] e d1 init_node_fits show ?thesis by auto
qed

text \<open>\<open>list\<close> never panics and never shows a credential: whatever the files hold and the system answers, either an
  error of the store is returned, or one row for each client with the first eight characters of their
  UUID; the files stay.\<close>

theorem list_safe:
  "case cmd_list io d of (outs, r, d') \<Rightarrow> d' = d \<and> (case load_clients io d of
      Inl e \<Rightarrow> outs = [] \<and> r = Some (Vless e)
    | Inr cs \<Rightarrow> r = None \<and> outs = (if cs = [] then [OutNobody]
        else map (\<lambda>c. OutRow (vc_name c) (vc_created c) (take 8 (vc_uuid c))) cs))"
proof (cases "load_clients io d")
  case (Inr cs)
  have "list_rows cs = Inr (map (\<lambda>c. OutRow (vc_name c) (vc_created c) (take 8 (vc_uuid c))) cs)"
    using load_clients_valid [OF Inr] by (intro list_rows_valid) blast
  with Inr show ?thesis by (simp add: cmd_list_def)
qed (simp add: cmd_list_def)

end
