(* ===== verification/Listener.thy ===== *)
theory Listener
  imports Ipc Paths
begin

text \<open>
  Who gets to the two ends of the control connection (\<open>src/internal/ipc/\<close>): the unix listener with its check of
  the socket directory (\<open>listen_unix.go\<close>), the credentials of a peer (\<open>peercred_linux.go\<close>, \<open>peercred_darwin.go\<close>),
  the client's check of the daemon (\<open>dial_unix.go\<close>, \<open>dial_windows.go\<close>), and the check of the caller on
  Windows (\<open>authz_windows.go\<close>) with the identity of the thread it runs on.
\<close>

section \<open>The directory of the socket\<close>

text \<open>\<open>os.FileMode\<close>: nine permission bits, the sticky bit and the type bit of a socket.\<close>

type_synonym file_mode = "32 word"

unbundle bit_operations_syntax

definition mode_sticky :: file_mode where "mode_sticky = 0x100000"
definition mode_socket :: file_mode where "mode_socket = 0x1000000"

definition has_bits :: "file_mode \<Rightarrow> file_mode \<Rightarrow> bool" where
  "has_bits m b \<longleftrightarrow> m AND b \<noteq> 0"

datatype listen_err =
    StatDir string string
  | ForeignOwner string nat
  | WorldWritable string
  | GroupWritable string nat
  | NotASocket string
  | RemoveStale string
  | ListenFails string string
  | ChmodSocket string

definition root_only_group :: "nat \<Rightarrow> bool" where
  "root_only_group g \<longleftrightarrow> g = 0 \<or> g = 1"

definition check_socket_dir_attrs :: "nat \<Rightarrow> string \<Rightarrow> nat \<Rightarrow> nat \<Rightarrow> file_mode \<Rightarrow> listen_err option" where
  "check_socket_dir_attrs euid dir uid gid m =
     (if uid \<noteq> 0 \<and> uid \<noteq> euid then Some (ForeignOwner dir uid)
      else if has_bits m mode_sticky then None
      else if has_bits m 2 then Some (WorldWritable dir)
      else if has_bits m 16 \<and> (uid \<noteq> 0 \<or> \<not> root_only_group gid) then Some (GroupWritable dir gid)
      else None)"

definition path_dir :: "string \<Rightarrow> string" where
  "path_dir p = path_clean (rev (dropWhile (\<lambda>c. c \<noteq> slash) (rev p)))"

section \<open>The unix listener\<close>

text \<open>What is at a path, by its mode; and what the system answers to the calls of \<open>Listen\<close>.\<close>

type_synonym path_nodes = "string \<Rightarrow> file_mode option"

record sock_sys =
  sy_euid :: nat
  sy_stat :: "string \<Rightarrow> string + nat \<times> nat \<times> file_mode"
  sy_lstat_fails :: bool
  sy_remove :: "string option"
  sy_listen :: "string option"
  sy_chmod :: "string option"

text \<open>The bits \<open>os.Chmod\<close> passes on: permissions, setuid, setgid, sticky. Closing a unix listener unlinks its
  path.\<close>

definition chmod_bits :: file_mode where "chmod_bits = 0xD001FF"

definition listen_unix ::
    "sock_sys \<Rightarrow> string \<Rightarrow> file_mode \<Rightarrow> path_nodes \<Rightarrow> listen_err option \<times> path_nodes" where
  "listen_unix sys path m ns =
     (case sy_stat sys (path_dir path) of
        Inl e \<Rightarrow> (Some (StatDir (path_dir path) e), ns)
      | Inr (uid, gid, dm) \<Rightarrow>
     (case check_socket_dir_attrs (sy_euid sys) (path_dir path) uid gid dm of
        Some e \<Rightarrow> (Some e, ns)
      | None \<Rightarrow>
     (let found = (if sy_lstat_fails sys then None else ns path) in
      if \<not> pred_option (\<lambda>fm. has_bits fm mode_socket) found then (Some (NotASocket path), ns)
      else if found \<noteq> None \<and> sy_remove sys \<noteq> None then (Some (RemoveStale (the (sy_remove sys))), ns)
      else
        (let ns1 = (if found \<noteq> None then ns(path := None) else ns) in
         case sy_listen sys of
           Some e \<Rightarrow> (Some (ListenFails path e), ns1)
         | None \<Rightarrow>
             (if ns1 path \<noteq> None then (Some (ListenFails path ''address already in use''), ns1)
              else case sy_chmod sys of
                Some e \<Rightarrow> (Some (ChmodSocket e), ns1)
              | None \<Rightarrow> (None, ns1(path \<mapsto> mode_socket OR (m AND chmod_bits))))))))"

text \<open>\<open>peerCred\<close>: the socket, the control call and the option can fail; macOS gives a list of groups.\<close>

definition peer_cred_linux :: "string option \<Rightarrow> string option \<Rightarrow> string + nat \<times> nat \<Rightarrow> string + nat \<times> nat" where
  "peer_cred_linux raw control sockopt =
     (case raw of Some e \<Rightarrow> Inl (''ipc: syscall conn: '' @ e)
      | None \<Rightarrow> (case control of Some e \<Rightarrow> Inl (''ipc: control: '' @ e)
      | None \<Rightarrow> (case sockopt of Inl e \<Rightarrow> Inl (''ipc: getsockopt SO_PEERCRED: '' @ e)
      | Inr cred \<Rightarrow> Inr cred)))"

definition peer_cred_darwin ::
    "string option \<Rightarrow> string option \<Rightarrow> string + nat \<times> nat list \<Rightarrow> string + nat \<times> nat" where
  "peer_cred_darwin raw control sockopt =
     (case raw of Some e \<Rightarrow> Inl (''ipc: syscall conn: '' @ e)
      | None \<Rightarrow> (case control of Some e \<Rightarrow> Inl (''ipc: control: '' @ e)
      | None \<Rightarrow> (case sockopt of Inl e \<Rightarrow> Inl (''ipc: getsockopt LOCAL_PEERCRED: '' @ e)
      | Inr (uid, []) \<Rightarrow> Inl ''ipc: LOCAL_PEERCRED returned no groups (Ngroups=0)''
      | Inr (uid, g # gs) \<Rightarrow> Inr (uid, g))))"

text \<open>\<open>Accept\<close>: the loop over what the kernel delivers. The result holds the connections that were closed, and
  the error or the connection with which it returned; \<open>None\<close> while it waits.\<close>

datatype 'c delivery = AcceptFails string | Peer 'c "string + nat \<times> nat"

fun accept_unix :: "policy \<Rightarrow> 'c delivery list \<Rightarrow> 'c list \<times> (string + 'c) option \<times> 'c delivery list" where
  "accept_unix pol [] = ([], None, [])"
| "accept_unix pol (AcceptFails e # ds) = ([], Some (Inl e), ds)"
| "accept_unix pol (Peer c cred # ds) =
     (if (case cred of Inl e \<Rightarrow> False | Inr (uid, gid) \<Rightarrow> policy_allow pol uid gid)
      then ([], Some (Inr c), ds)
      else (case accept_unix pol ds of (closed, r) \<Rightarrow> (c # closed, r)))"

section \<open>The client's end\<close>

datatype dial_err =
    DaemonDown string string
  | DaemonUnverified string string
  | Impersonation string nat
  | PipeRefused string string

definition socket_owner_allowed :: "nat \<Rightarrow> nat \<Rightarrow> bool" where
  "socket_owner_allowed owner self \<longleftrightarrow> owner = 0 \<or> owner = self"

text \<open>The connection is returned, or closed and an error returned.\<close>

definition dial_unix ::
    "string \<Rightarrow> nat \<Rightarrow> string + 'c \<Rightarrow> string + nat \<times> nat \<Rightarrow> (dial_err + 'c) \<times> 'c list" where
  "dial_unix path self dialled cred =
     (case dialled of
        Inl e \<Rightarrow> (Inl (DaemonDown path e), [])
      | Inr c \<Rightarrow>
          (case cred of
             Inl e \<Rightarrow> (Inl (DaemonUnverified path e), [c])
           | Inr (uid, gid) \<Rightarrow>
               (if \<not> socket_owner_allowed uid self then (Inl (Impersonation path uid), [c]) else (Inr c, []))))"

text \<open>Windows: security identifiers are strings.\<close>

definition trusted_pipe_owners :: "string + string \<Rightarrow> string + string \<Rightarrow> string + string list" where
  "trusted_pipe_owners system admins =
     (case system of Inl e \<Rightarrow> Inl (''resolve well-known SID: '' @ e)
      | Inr s \<Rightarrow> (case admins of Inl e \<Rightarrow> Inl (''resolve well-known SID: '' @ e) | Inr a \<Rightarrow> Inr [s, a]))"

definition verify_pipe_server ::
    "bool \<Rightarrow> string + string \<Rightarrow> string + string list \<Rightarrow> string option" where
  "verify_pipe_server has_fd owner trusted =
     (if \<not> has_fd then Some ''cannot inspect pipe handle''
      else case owner of
        Inl e \<Rightarrow> Some e
      | Inr sid \<Rightarrow>
          (case trusted of
             Inl e \<Rightarrow> Some e
           | Inr sids \<Rightarrow>
               (if list_ex (\<lambda>t. t = sid) sids then None
                else Some (''pipe is owned by '' @ sid @ '', not LocalSystem or Administrators''))))"

definition dial_pipe ::
    "string \<Rightarrow> string + 'c \<Rightarrow> bool \<Rightarrow> string + string \<Rightarrow> string + string list \<Rightarrow> (dial_err + 'c) \<times> 'c list" where
  "dial_pipe path dialled has_fd owner trusted =
     (case dialled of
        Inl e \<Rightarrow> (Inl (DaemonDown path e), [])
      | Inr c \<Rightarrow>
          (case verify_pipe_server has_fd owner trusted of
             Some e \<Rightarrow> (Inl (PipeRefused path e), [c]) | None \<Rightarrow> (Inr c, [])))"

section \<open>The caller on Windows\<close>

text \<open>A thread of the operating system: whether the goroutine is pinned to it, and whose identity it has, if not
  the process's.\<close>

record os_thread =
  th_locked :: bool
  th_as :: "string option"

record win_sys =
  ws_has_fd :: bool
  ws_system :: "string + string"
  ws_session :: nat
  ws_session_token :: "string option"
  ws_session_user :: "string + string"
  ws_copy :: "string \<Rightarrow> string + string"
  ws_client :: string
  ws_impersonate :: "string option"
  ws_open_token :: "string option"
  ws_token_user :: "string option"
  ws_revert :: "string option"

definition no_console_session :: nat where "no_console_session = 0xFFFFFFFF"

definition active_console_user :: "win_sys \<Rightarrow> string + string" where
  "active_console_user W =
     (if ws_session W = no_console_session then Inl ''no active console session''
      else case ws_session_token W of
        Some e \<Rightarrow> Inl (''query console-session user token: '' @ e)
      | None \<Rightarrow>
          (case ws_session_user W of
             Inl e \<Rightarrow> Inl (''read console-session user SID: '' @ e) | Inr sid \<Rightarrow> ws_copy W sid))"

definition allowed_control_sids :: "win_sys \<Rightarrow> string + string list" where
  "allowed_control_sids W =
     (case ws_system W of
        Inl e \<Rightarrow> Inl (''resolve LocalSystem SID: '' @ e)
      | Inr s \<Rightarrow> Inr (s # (case active_console_user W of Inl e \<Rightarrow> [] | Inr u \<Rightarrow> [u])))"

text \<open>The deferred function: the error of \<open>RevertToSelf\<close> is dropped.\<close>

definition revert_and_unlock :: "win_sys \<Rightarrow> os_thread \<Rightarrow> os_thread" where
  "revert_and_unlock W th =
     (let th1 = (if ws_revert W = None then th\<lparr>th_as := None\<rparr> else th) in th1\<lparr>th_locked := False\<rparr>)"

definition pipe_client_matches ::
    "win_sys \<Rightarrow> string list \<Rightarrow> os_thread \<Rightarrow> (string + bool \<times> string) \<times> os_thread" where
  "pipe_client_matches W allowed th =
     (let th1 = th\<lparr>th_locked := True\<rparr> in
      case ws_impersonate W of
        Some e \<Rightarrow> (Inl (''ImpersonateNamedPipeClient: '' @ e), revert_and_unlock W th1)
      | None \<Rightarrow>
          (let th2 = th1\<lparr>th_as := Some (ws_client W)\<rparr> in
           case ws_open_token W of
             Some e \<Rightarrow> (Inl (''open impersonation token: '' @ e), revert_and_unlock W th2)
           | None \<Rightarrow>
               (case ws_token_user W of
                  Some e \<Rightarrow> (Inl (''read client user SID: '' @ e), revert_and_unlock W th2)
                | None \<Rightarrow>
                    (Inr (list_ex (\<lambda>a. a = ws_client W) allowed, ws_client W), revert_and_unlock W th2))))"

definition authorize_peer :: "win_sys \<Rightarrow> os_thread \<Rightarrow> string option \<times> os_thread" where
  "authorize_peer W th =
     (if \<not> ws_has_fd W then (Some ''cannot inspect pipe handle'', th)
      else case allowed_control_sids W of
        Inl e \<Rightarrow> (Some e, th)
      | Inr allowed \<Rightarrow>
          (case pipe_client_matches W allowed th of
             (Inl e, th1) \<Rightarrow> (Some e, th1)
           | (Inr (True, who), th1) \<Rightarrow> (None, th1)
           | (Inr (False, who), th1) \<Rightarrow>
               (Some (''caller '' @ who @ '' is not authorized to control the tunnel''), th1)))"

text \<open>A connection on Windows: the request is read first, then the caller is looked at.\<close>

definition win_handle ::
    "ipc_texts \<Rightarrow> 's ipc_handler \<Rightarrow> win_sys \<Rightarrow> reader \<Rightarrow> 's \<Rightarrow> os_thread \<Rightarrow> bytes \<times> 's \<times> os_thread" where
  "win_handle T H W r s th =
     (case fst (read_request r) of
        Inl e \<Rightarrow> ([], s, th)
      | Inr rq \<Rightarrow>
          (case authorize_peer W th of
             (a, th1) \<Rightarrow> (case ipc_handle T H (a = None) r s of (out, s1) \<Rightarrow> (out, s1, th1))))"

section \<open>What a directory allows\<close>

text \<open>Who can take an entry away that is not theirs, in a directory with these attributes: its owner, and, unless
  it is sticky, whom its permission bits let write to it. \<open>G\<close> are the groups of the user.\<close>

definition may_swap :: "nat \<Rightarrow> nat \<Rightarrow> file_mode \<Rightarrow> nat \<Rightarrow> (nat \<Rightarrow> bool) \<Rightarrow> bool" where
  "may_swap uid gid m u G \<longleftrightarrow>
     u = uid \<or> (\<not> has_bits m mode_sticky \<and> (if G gid then has_bits m 16 else has_bits m 2))"

definition unprivileged :: "nat \<Rightarrow> nat \<Rightarrow> (nat \<Rightarrow> bool) \<Rightarrow> bool" where
  "unprivileged euid u G \<longleftrightarrow> u \<noteq> 0 \<and> u \<noteq> euid \<and> \<not> G 0 \<and> \<not> G 1"

definition unswappable :: "nat \<Rightarrow> nat \<Rightarrow> nat \<Rightarrow> file_mode \<Rightarrow> bool" where
  "unswappable euid uid gid m \<longleftrightarrow> (\<forall>u G. unprivileged euid u G \<longrightarrow> \<not> may_swap uid gid m u G)"

lemma check_sound:
  "check_socket_dir_attrs euid dir uid gid m = None \<Longrightarrow> unswappable euid uid gid m"
  by (auto simp: check_socket_dir_attrs_def unswappable_def may_swap_def unprivileged_def root_only_group_def
      split: if_splits)

lemma fresh_user: "\<exists>u. u \<noteq> 0 \<and> u \<noteq> (a :: nat) \<and> u \<noteq> b"
  by (rule exI [of _ "a + b + 1"]) simp

lemma check_complete:
  assumes "check_socket_dir_attrs euid dir uid gid m = Some e" and "e \<noteq> GroupWritable dir gid \<or> \<not> root_only_group gid"
  shows "\<not> unswappable euid uid gid m"
proof -
  obtain u where u: "u \<noteq> 0" "u \<noteq> euid" "u \<noteq> uid" using fresh_user [of euid uid] by blast
  have foreign: "unprivileged euid uid (\<lambda>g. False) \<and> may_swap uid gid m uid (\<lambda>g. False)"
    if "uid \<noteq> 0" "uid \<noteq> euid" using that by (simp add: unprivileged_def may_swap_def)
  have world: "unprivileged euid u (\<lambda>g. False) \<and> may_swap uid gid m u (\<lambda>g. False)"
    if "\<not> has_bits m mode_sticky" "has_bits m 2" using that u by (simp add: unprivileged_def may_swap_def)
  have group: "unprivileged euid u (\<lambda>g. g = gid) \<and> may_swap uid gid m u (\<lambda>g. g = gid)"
    if "\<not> has_bits m mode_sticky" "has_bits m 16" "\<not> root_only_group gid"
    using that u by (auto simp: unprivileged_def may_swap_def root_only_group_def)
  have "(uid \<noteq> 0 \<and> uid \<noteq> euid) \<or> (\<not> has_bits m mode_sticky \<and> has_bits m 2)
      \<or> (\<not> has_bits m mode_sticky \<and> has_bits m 16 \<and> \<not> root_only_group gid)"
    using assms by (auto simp: check_socket_dir_attrs_def split: if_splits)
  then show ?thesis using foreign world group unfolding unswappable_def by blast
qed

section \<open>Lemmas\<close>

lemma listen_cases:
  assumes "listen_unix sys path m ns = (r, ns')"
  obtains (refused) "r \<noteq> None" "ns' = ns"
  | (removed) "r \<noteq> None" "ns' = ns(path := None)" "pred_option (\<lambda>fm. has_bits fm mode_socket) (ns path)"
  | (bound) uid gid dm where "r = None" "sy_stat sys (path_dir path) = Inr (uid, gid, dm)"
      "unswappable (sy_euid sys) uid gid dm" "pred_option (\<lambda>fm. has_bits fm mode_socket) (ns path)"
      "ns' = ns(path \<mapsto> mode_socket OR (m AND chmod_bits))"
proof (cases "sy_stat sys (path_dir path)")
  case (Inl e)
  with assms have "r \<noteq> None \<and> ns' = ns" by (auto simp: listen_unix_def)
  with refused show thesis by blast
next
  case (Inr attrs)
  obtain uid gid dm where "attrs = (uid, gid, dm)" by (metis prod_cases3)
  with Inr have st: "sy_stat sys (path_dir path) = Inr (uid, gid, dm)" by simp
  let ?ck = "check_socket_dir_attrs (sy_euid sys) (path_dir path) uid gid dm"
  let ?found = "if sy_lstat_fails sys then None else ns path"
  show thesis
  proof (cases "?ck = None \<and> pred_option (\<lambda>fm. has_bits fm mode_socket) ?found
      \<and> \<not> (?found \<noteq> None \<and> sy_remove sys \<noteq> None)")
    case False
    have "r \<noteq> None \<and> ns' = ns"
    proof (cases ?ck)
      case (Some e)
      with assms st have "(r, ns') = (Some e, ns)" by (simp add: listen_unix_def)
      then show ?thesis by simp
    next
      case None
      with False assms st show ?thesis by (auto simp: listen_unix_def Let_def split: if_splits)
    qed
    with refused show thesis by blast
  next
    case True
    then have ck: "?ck = None" and sock: "pred_option (\<lambda>fm. has_bits fm mode_socket) ?found"
      "\<not> (?found \<noteq> None \<and> sy_remove sys \<noteq> None)" by blast+
    let ?ns1 = "if ?found \<noteq> None then ns(path := None) else ns"
    have p: "pred_option (\<lambda>fm. has_bits fm mode_socket) (ns path)" if "ns path = None \<or> \<not> sy_lstat_fails sys"
      using that sock by (auto split: if_splits)
    show thesis
    proof (cases "sy_listen sys = None \<and> ?ns1 path = None \<and> sy_chmod sys = None")
      case True
      with assms st ck sock have "r = None" "ns' = ?ns1(path \<mapsto> mode_socket OR (m AND chmod_bits))"
        by (auto simp: listen_unix_def Let_def split: if_splits)
      with True p bound [OF _ st check_sound [OF ck]] show thesis by (auto split: if_splits)
    next
      case False
      with assms st ck sock have "r \<noteq> None \<and> ns' = ?ns1"
        by (auto simp: listen_unix_def Let_def split: if_splits option.splits)
      with p refused removed show thesis by (auto split: if_splits)
    qed
  qed
qed

fun conn_of :: "'c delivery \<Rightarrow> 'c list" where
  "conn_of (AcceptFails e) = []"
| "conn_of (Peer c cred) = [c]"

fun turned_away :: "policy \<Rightarrow> 'c delivery \<Rightarrow> bool" where
  "turned_away pol (AcceptFails e) = False"
| "turned_away pol (Peer c (Inl e)) = True"
| "turned_away pol (Peer c (Inr cred)) = (\<not> policy_allow pol (fst cred) (snd cred))"

lemma accept_unix_spec:
  "accept_unix pol ds =
    (concat (map conn_of (takeWhile (turned_away pol) ds)),
     case dropWhile (turned_away pol) ds of
       [] \<Rightarrow> (None, []) | AcceptFails e # rest \<Rightarrow> (Some (Inl e), rest) | Peer c cred # rest \<Rightarrow> (Some (Inr c), rest))"
proof (induction pol ds rule: accept_unix.induct)
  case (3 pol c cred ds)
  then show ?case by (cases cred) auto
qed simp_all

lemma revert_unlocks [simp]:
  "revert_and_unlock W th = \<lparr>th_locked = False, th_as = (if ws_revert W = None then None else th_as th)\<rparr>"
  by (cases th) (simp add: revert_and_unlock_def Let_def)

lemma authorize_peer_cases:
  assumes "authorize_peer W th = (r, th')"
  shows "(r = None \<longrightarrow> ws_impersonate W = None \<and> (ws_system W = Inr (ws_client W) \<or> active_console_user W = Inr (ws_client W)))
    \<and> (th' = th \<or> th' = revert_and_unlock W (th\<lparr>th_locked := True\<rparr>)
       \<or> (ws_impersonate W = None \<and> th' = revert_and_unlock W (th\<lparr>th_locked := True, th_as := Some (ws_client W)\<rparr>)))"
  using assms
  by (auto simp: authorize_peer_def pipe_client_matches_def allowed_control_sids_def Let_def list_ex_iff
      split: if_splits sum.splits option.splits prod.splits bool.splits)

section \<open>Properties\<close>

text \<open>The check of the socket directory is exact: it lets a directory pass just when no unprivileged user,
  that is one who is neither root nor the daemon's user and in neither of root's groups, owns it or can take away
  what others put there; the one directory it refuses beyond that is the daemon user's own with group-write
  for one of root's groups.\<close>

theorem socket_dir_exact:
  "unswappable euid uid gid m \<longleftrightarrow>
    check_socket_dir_attrs euid dir uid gid m = None
    \<or> (check_socket_dir_attrs euid dir uid gid m = Some (GroupWritable dir gid) \<and> uid \<noteq> 0 \<and> root_only_group gid)"
proof -
  have own: "unswappable euid uid gid m"
    if g: "check_socket_dir_attrs euid dir uid gid m = Some (GroupWritable dir gid)" "root_only_group gid"
    using g by (auto simp: check_socket_dir_attrs_def unswappable_def may_swap_def unprivileged_def root_only_group_def
        split: if_splits)
  have "uid \<noteq> 0" if "check_socket_dir_attrs euid dir uid gid m = Some (GroupWritable dir gid)" "root_only_group gid"
    using that by (auto simp: check_socket_dir_attrs_def split: if_splits)
  with own check_sound check_complete show ?thesis by (metis not_None_eq)
qed

text \<open>\<open>Listen\<close> destroys nothing but sockets and binds only where nobody can interfere: whatever the system
  answers, no other path changes; what was at the path and was not a socket is still there; and when it
  succeeds the directory passed the check and the path is a socket with the permissions asked for.\<close>

theorem listen_safe:
  assumes "listen_unix sys path m ns = (r, ns')"
  shows "(\<forall>q. q = path \<or> ns' q = ns q) \<and> (ns' path = ns path \<or> pred_option (\<lambda>fm. has_bits fm mode_socket) (ns path))
    \<and> (r \<noteq> None \<or> (\<exists>uid gid dm. sy_stat sys (path_dir path) = Inr (uid, gid, dm) \<and> unswappable (sy_euid sys) uid gid dm
          \<and> ns' path = Some (mode_socket OR (m AND chmod_bits))))"
  using assms by (cases rule: listen_cases) auto

definition sample_sock :: sock_sys where
  "sample_sock = \<lparr>sy_euid = 0, sy_stat = (\<lambda>d. Inr (0, 1, 0x1FD)), sy_lstat_fails = False, sy_remove = None,
     sy_listen = None, sy_chmod = None\<rparr>"

theorem listen_safe_witness:
  "\<exists>ns'. listen_unix sample_sock ''/var/run/v.sock'' 0x1B0 [''/var/run/v.sock'' \<mapsto> 0x10001ED, ''/a'' \<mapsto> 0] = (None, ns')
    \<and> ns' ''/a'' = Some 0"
proof -
  let ?ns = "[''/var/run/v.sock'' \<mapsto> 0x10001ED, ''/a'' \<mapsto> 0] :: path_nodes"
  obtain r ns' where e: "listen_unix sample_sock ''/var/run/v.sock'' 0x1B0 ?ns = (r, ns')" by fastforce
  have "has_bits 0x10001ED mode_socket" by (simp add: has_bits_def mode_socket_def)
  moreover have "check_socket_dir_attrs 0 d 0 1 0x1FD = None" for d
    by (simp add: check_socket_dir_attrs_def has_bits_def mode_sticky_def root_only_group_def)
  ultimately have "r = None" using e by (auto simp: listen_unix_def sample_sock_def Let_def)
  moreover have "ns' ''/a'' = Some 0" using conjunct1 [OF listen_safe [OF e]] by (elim allE [of _ "''/a''"]) simp
  ultimately show ?thesis using e by blast
qed

text \<open>The accept loop is the policy: of the connections the kernel delivers, those before the first whose
  credentials can be read and are allowed, or the first error, are closed, and that one is returned.\<close>

theorem accept_first_allowed:
  "accept_unix pol ds =
    (concat (map conn_of (takeWhile (turned_away pol) ds)),
     case dropWhile (turned_away pol) ds of
       [] \<Rightarrow> (None, []) | AcceptFails e # rest \<Rightarrow> (Some (Inl e), rest) | Peer c cred # rest \<Rightarrow> (Some (Inr c), rest))"
  by (rule accept_unix_spec)

text \<open>(C16) On Windows nobody but the console user and the system drives the tunnel: if a connection changes the
  daemon's state, the caller was impersonated and is LocalSystem or the user of the active console session,
  whatever fails on the way; and when \<open>RevertToSelf\<close> works, the thread is left as it was found.\<close>

theorem win_gate:
  assumes "win_handle T H W r s th = (out, s', th')" and "th = \<lparr>th_locked = False, th_as = None\<rparr>"
  shows "(s' = s \<or> ws_impersonate W = None \<and> (ws_system W = Inr (ws_client W) \<or> active_console_user W = Inr (ws_client W)))
    \<and> (ws_revert W \<noteq> None \<or> th' = th)"
proof (cases "fst (read_request r)")
  case (Inl e)
  with assms show ?thesis by (simp add: win_handle_def)
next
  case (Inr rq)
  obtain a th1 where a: "authorize_peer W th = (a, th1)" by fastforce
  from assms(1) Inr a have h: "ipc_handle T H (a = None) r s = (out, s')" "th' = th1"
    by (auto simp: win_handle_def split: prod.splits)
  have "s' = s" if "a \<noteq> None" using h(1) that Inr by (simp add: ipc_handle_def)
  then show ?thesis using authorize_peer_cases [OF a] assms(2) h(2) by auto
qed

definition sample_win :: win_sys where
  "sample_win = \<lparr>ws_has_fd = True, ws_system = Inr ''S-1-5-18'', ws_session = 1, ws_session_token = None,
     ws_session_user = Inr ''S-1-5-21-1'', ws_copy = Inr, ws_client = ''S-1-5-21-2'', ws_impersonate = None,
     ws_open_token = None, ws_token_user = None, ws_revert = None\<rparr>"

theorem win_gate_witness:
  "\<exists>out. win_handle sample_texts sample_handler sample_win \<lparr>rd_data = [0, 2, 123, 125], rd_end = EOF\<rparr> 3
      \<lparr>th_locked = False, th_as = None\<rparr> = (out, 3, \<lparr>th_locked = False, th_as = None\<rparr>)"
proof -
  obtain out s' th' where e: "win_handle sample_texts sample_handler sample_win \<lparr>rd_data = [0, 2, 123, 125], rd_end = EOF\<rparr> 3
      \<lparr>th_locked = False, th_as = None\<rparr> = (out, s', th')" by (metis prod_cases3)
  from win_gate [OF e refl] e show ?thesis by (auto simp: sample_win_def active_console_user_def no_console_session_def)
qed

text \<open>But the error of \<open>RevertToSelf\<close> is dropped and the goroutine unpinned: when it fails, the thread goes
  back to the scheduler with the caller's identity, also when the caller was turned away, and whatever
  goroutine runs on it next, another user's request among them, has that identity and not the system's,
  which is what the comment on the function says must not happen.\<close>

theorem revert_failure_leaks:
  assumes "ws_has_fd W" "ws_system W = Inr s" "ws_impersonate W = None" "ws_revert W = Some e"
  shows "\<exists>r. authorize_peer W \<lparr>th_locked = False, th_as = None\<rparr> = (r, \<lparr>th_locked = False, th_as = Some (ws_client W)\<rparr>)"
  using assms
  by (simp add: authorize_peer_def allowed_control_sids_def pipe_client_matches_def Let_def
      split: option.splits bool.splits)

theorem revert_failure_leaks_witness:
  "\<exists>r. authorize_peer (sample_win\<lparr>ws_revert := Some ''denied''\<rparr>) \<lparr>th_locked = False, th_as = None\<rparr>
    = (r, \<lparr>th_locked = False, th_as = Some ''S-1-5-21-2''\<rparr>) \<and> r \<noteq> None"
proof -
  let ?W = "sample_win\<lparr>ws_revert := Some ''denied''\<rparr>"
  have "fst (authorize_peer ?W \<lparr>th_locked = False, th_as = None\<rparr>) \<noteq> None"
    by (simp add: sample_win_def authorize_peer_def allowed_control_sids_def pipe_client_matches_def
        active_console_user_def no_console_session_def Let_def)
  then show ?thesis using revert_failure_leaks [of ?W "''S-1-5-18''" "''denied''"] by (auto simp: sample_win_def)
qed

end
