(* ===== verification/Polling.thy ===== *)
theory Polling
  imports Prelude
begin

text \<open>
  The shape of the loops that wait for something outside the program: ask, look at the clock, sleep, ask again.
  An attempt is its answer with the time at which the clock is read after it; \<open>decide\<close> ends the loop with a
  result, \<open>late\<close> ends it with the result of a timeout. The file lock and the installation of the Windows service
  are instances, and have their bounds from here.
\<close>

fun poll_loop :: "('a \<Rightarrow> 'r option) \<Rightarrow> (int \<Rightarrow> bool) \<Rightarrow> ('a \<Rightarrow> 'r) \<Rightarrow> ('a \<times> int) list \<Rightarrow> 'r option" where
  "poll_loop decide late timeout [] = None"
| "poll_loop decide late timeout ((a, now) # polls) =
     (case decide a of
        Some r \<Rightarrow> Some r
      | None \<Rightarrow> if late now then Some (timeout a) else poll_loop decide late timeout polls)"

text \<open>Time passes: the \<open>i\<close>-th reading of the clock is at least \<open>i\<close> intervals after the start.\<close>

definition paced :: "int \<Rightarrow> int \<Rightarrow> ('a \<times> int) list \<Rightarrow> bool" where
  "paced start interval polls \<longleftrightarrow> (\<forall>i < length polls. snd (polls ! i) \<ge> start + int i * interval)"

lemma paced_Cons: "paced start interval ((a, now) # polls) \<Longrightarrow> now \<ge> start \<and> paced (start + interval) interval polls"
proof
  assume p: "paced start interval ((a, now) # polls)"
  then show "now \<ge> start" unfolding paced_def by (auto dest: spec [of _ 0])
  show "paced (start + interval) interval polls" unfolding paced_def
  proof (intro allI impI)
    fix i assume "i < length polls"
    with p have "snd (((a, now) # polls) ! Suc i) \<ge> start + int (Suc i) * interval"
      unfolding paced_def by (simp only: length_Cons Suc_less_eq)
    then show "snd (polls ! i) \<ge> start + interval + int i * interval" by (simp add: algebra_simps)
  qed
qed

lemma poll_loop_ends:
  assumes "paced start interval polls" and "length polls > n"
    and "\<And>t. t \<ge> start + int n * interval \<Longrightarrow> late t" and "interval \<ge> 0"
  shows "poll_loop decide late timeout polls \<noteq> None"
  using assms
proof (induction decide late timeout polls arbitrary: start n rule: poll_loop.induct)
  case (2 decide late timeout a now polls)
  from paced_Cons [OF 2(2)] have now: "now \<ge> start" and rest: "paced (start + interval) interval polls" by simp_all
  show ?case
  proof (cases "decide a = None \<and> \<not> late now")
    case True
    have "n \<noteq> 0"
    proof
      assume "n = 0"
      then have "late now" using 2(4) [of now] now by simp
      with True show False by simp
    qed
    then obtain m where m: "n = Suc m" by (cases n) auto
    have "late t" if "t \<ge> start + interval + int m * interval" for t
      using 2(4) [of t] that m by (simp add: algebra_simps)
    then show ?thesis using 2(1) [OF _ _ rest, of m] 2(3,5) True m by simp
  next
    case False
    then show ?thesis by (cases "decide a") auto
  qed
qed simp

text \<open>What the loop ends with: a decision on an answer it got, or the timeout.\<close>

lemma poll_loop_result:
  "poll_loop decide late timeout polls = Some r \<Longrightarrow>
    (\<exists>p \<in> set polls. decide (fst p) = Some r) \<or> (\<exists>p \<in> set polls. late (snd p) \<and> decide (fst p) = None \<and> r = timeout (fst p))"
  by (induction decide late timeout polls rule: poll_loop.induct) (auto split: option.splits if_splits)

end
