(* ===== verification/FileLock.thy ===== *)
theory FileLock
  imports Polling
begin

text \<open>
  The lock between processes (\<open>src/internal/filelock/\<close>) and what the stores do under it. The loop of \<open>Acquire\<close> is a
  function of what each attempt finds and of the clock; the processes that share a file, each with its cycle of
  lock, load, save and unlock, are a step relation. That a store's operation is one step everywhere else in
  this development rests on the property below.
\<close>

section \<open>Taking the lock\<close>

definition acquire_timeout :: int where "acquire_timeout = 5 * 1000000000"
definition poll_interval :: int where "poll_interval = 25 * 1000000"

datatype lock_err =
    LockDir string
  | LockOpen string
  | LockCall string
  | StillHeld

text \<open>\<open>tryLock\<close>: \<open>flock\<close> succeeded, the lock is somebody else's, or the call failed.\<close>

datatype flock = FlockOk | FlockBusy | FlockError string

fun try_lock :: "flock \<Rightarrow> string + bool" where
  "try_lock FlockOk = Inr True"
| "try_lock FlockBusy = Inr False"
| "try_lock (FlockError e) = Inl e"

text \<open>The loop: each attempt with the time at which \<open>time.Now\<close> is then read. \<open>None\<close> while it is still polling; the
  file stays open only with the lock.\<close>

definition lock_attempt :: "flock \<Rightarrow> lock_err option option" where
  "lock_attempt a =
     (case try_lock a of Inl e \<Rightarrow> Some (Some (LockCall e)) | Inr locked \<Rightarrow> (if locked then Some None else None))"

definition acquire_loop :: "int \<Rightarrow> (flock \<times> int) list \<Rightarrow> lock_err option option" where
  "acquire_loop deadline polls = poll_loop lock_attempt (\<lambda>now. now > deadline) (\<lambda>a. Some StillHeld) polls"

definition acquire_lock ::
    "string option \<Rightarrow> string option \<Rightarrow> int \<Rightarrow> (flock \<times> int) list \<Rightarrow> lock_err option option" where
  "acquire_lock mkdir_err open_err start polls =
     (case mkdir_err of
        Some e \<Rightarrow> Some (Some (LockDir e))
      | None \<Rightarrow>
          (case open_err of
             Some e \<Rightarrow> Some (Some (LockOpen e))
           | None \<Rightarrow> acquire_loop (start + acquire_timeout) polls))"

text \<open>\<open>Unlock\<close> of a lock that holds its file, or has given it up: the error, and what it holds afterwards.\<close>

definition unlock :: "bool \<Rightarrow> string option \<Rightarrow> string option \<Rightarrow> string option \<times> bool" where
  "unlock held unlock_err close_err =
     (if \<not> held then (None, False)
      else (case unlock_err of Some e \<Rightarrow> (Some e, False) | None \<Rightarrow> (close_err, False)))"

section \<open>Processes that share a file\<close>

text \<open>Where a process is; \<open>Loaded v\<close> holds what it read. \<open>upd p\<close> is the change process \<open>p\<close> makes to the contents.\<close>

datatype 'a cycle =
    Outside
  | Trying
  | Holding
  | Loaded 'a
  | Written bool
  | Over

record 'a shared =
  sh_holder :: "nat option"
  sh_file :: 'a
  sh_at :: "nat \<Rightarrow> 'a cycle"
  sh_saves :: "nat list"

definition shared_start :: "'a \<Rightarrow> 'a shared" where
  "shared_start v = \<lparr>sh_holder = None, sh_file = v, sh_at = (\<lambda>p. Outside), sh_saves = []\<rparr>"

definition move :: "nat \<Rightarrow> 'a cycle \<Rightarrow> 'a shared \<Rightarrow> 'a shared" where
  "move p c s = s\<lparr>sh_at := (sh_at s)(p := c)\<rparr>"

fun in_section :: "'a cycle \<Rightarrow> bool" where
  "in_section Holding = True"
| "in_section (Loaded v) = True"
| "in_section (Written b) = True"
| "in_section c = False"

text \<open>\<open>flock\<close> is granted only when nobody has it; the operating system takes it back when its holder unlocks,
  closes the file or dies. A save replaces the file by a rename, or fails and leaves it.\<close>

inductive cycle_step :: "(nat \<Rightarrow> 'a \<Rightarrow> 'a) \<Rightarrow> 'a shared \<Rightarrow> 'a shared \<Rightarrow> bool" for upd where
  enter: "sh_at s p = Outside \<Longrightarrow> cycle_step upd s (move p Trying s)"
| granted: "sh_at s p = Trying \<Longrightarrow> sh_holder s = None \<Longrightarrow>
    cycle_step upd s (move p Holding (s\<lparr>sh_holder := Some p\<rparr>))"
| busy: "sh_at s p = Trying \<Longrightarrow> sh_holder s = Some q \<Longrightarrow> cycle_step upd s s"
| gives_up: "sh_at s p = Trying \<Longrightarrow> cycle_step upd s (move p Over s)"
| loads: "sh_at s p = Holding \<Longrightarrow> cycle_step upd s (move p (Loaded (sh_file s)) s)"
| refuses: "sh_at s p = Holding \<or> sh_at s p = Loaded v \<Longrightarrow> cycle_step upd s (move p (Written False) s)"
| saves: "sh_at s p = Loaded v \<Longrightarrow>
    cycle_step upd s (move p (Written True) (s\<lparr>sh_file := upd p v, sh_saves := sh_saves s @ [p]\<rparr>))"
| leaves: "in_section (sh_at s p) \<Longrightarrow> cycle_step upd s (move p Over (s\<lparr>sh_holder := None\<rparr>))"
| dies: "cycle_step upd s (move p Over (if sh_holder s = Some p then s\<lparr>sh_holder := None\<rparr> else s))"

definition cycle_inv :: "(nat \<Rightarrow> 'a \<Rightarrow> 'a) \<Rightarrow> 'a \<Rightarrow> 'a shared \<Rightarrow> bool" where
  "cycle_inv upd v0 s \<longleftrightarrow>
     (\<forall>p. in_section (sh_at s p) \<longleftrightarrow> sh_holder s = Some p)
     \<and> (\<forall>p v. sh_at s p = Loaded v \<longrightarrow> v = sh_file s)
     \<and> sh_file s = foldl (\<lambda>v p. upd p v) v0 (sh_saves s)
     \<and> distinct (sh_saves s)
     \<and> (\<forall>p \<in> set (sh_saves s). sh_at s p = Written True \<or> sh_at s p = Over)
     \<and> (\<forall>p. sh_at s p = Written True \<longrightarrow> p \<in> set (sh_saves s))"

lemma move_simps [simp]:
  "sh_at (move p c s) q = (if q = p then c else sh_at s q)" "sh_holder (move p c s) = sh_holder s"
  "sh_file (move p c s) = sh_file s" "sh_saves (move p c s) = sh_saves s"
  by (simp_all add: move_def)

lemma cycle_inv_start: "cycle_inv upd v (shared_start v)"
  by (simp add: cycle_inv_def shared_start_def)

lemma cycle_invD:
  assumes "cycle_inv upd v0 s"
  shows "\<And>p. in_section (sh_at s p) \<longleftrightarrow> sh_holder s = Some p" "\<And>p v. sh_at s p = Loaded v \<Longrightarrow> v = sh_file s"
    "sh_file s = foldl (\<lambda>v p. upd p v) v0 (sh_saves s)" "distinct (sh_saves s)"
    "\<And>p. p \<in> set (sh_saves s) \<Longrightarrow> sh_at s p = Written True \<or> sh_at s p = Over"
    "\<And>p. sh_at s p = Written True \<Longrightarrow> p \<in> set (sh_saves s)"
  using assms unfolding cycle_inv_def by blast+

lemma cycle_inv_step:
  assumes inv: "cycle_inv upd v0 s" and step: "cycle_step upd s s'"
  shows "cycle_inv upd v0 s'"
  using step
proof cases
  case (saves p v)
  note d = cycle_invD [OF inv]
  from saves(2) have h: "sh_holder s = Some p" using d(1) [of p] by simp
  have "p \<notin> set (sh_saves s)" using d(5) [of p] saves(2) by auto
  moreover have "\<not> (\<exists>w. sh_at s q = Loaded w)" if "q \<noteq> p" for q using d(1) [of q] h that by auto
  ultimately show ?thesis using inv h d(2) [OF saves(2)] unfolding saves(1) cycle_inv_def by auto
next
  case (dies p)
  note d = cycle_invD [OF inv]
  show ?thesis using inv d(1) [of p] unfolding dies cycle_inv_def by auto
next
  case (leaves p)
  note d = cycle_invD [OF inv]
  have "sh_holder s = Some p" using d(1) [of p] leaves(2) by simp
  then show ?thesis using inv unfolding leaves(1) cycle_inv_def by auto
next
  case (enter p)
  then show ?thesis using inv cycle_invD(1) [OF inv, of p] unfolding enter(1) cycle_inv_def by auto
next
  case (gives_up p)
  then show ?thesis using inv cycle_invD(1) [OF inv, of p] unfolding gives_up(1) cycle_inv_def by auto
qed (use inv in \<open>auto simp: cycle_inv_def\<close>)

lemma cycle_inv_reach:
  assumes "(cycle_step upd)\<^sup>*\<^sup>* (shared_start v) s"
  shows "cycle_inv upd v s"
  using assms by (induction rule: rtranclp_induct) (auto intro: cycle_inv_start cycle_inv_step)

lemma lock_attempt_got: "lock_attempt a = Some None \<longleftrightarrow> a = FlockOk"
  by (cases a) (simp_all add: lock_attempt_def)

section \<open>Properties\<close>

text \<open>(C14) No update is lost. Whatever cycles run at once on one file, however their steps interleave, whichever give
  up, fail or die at any point, the file is at every moment what the completed saves make of its first contents,
  applied one after the other, each exactly once, in the order of the saves; no two are in the section between
  lock and unlock; and a save that succeeded is among them.\<close>

theorem no_update_lost:
  assumes "(cycle_step upd)\<^sup>*\<^sup>* (shared_start v) s"
  shows "sh_file s = foldl (\<lambda>v p. upd p v) v (sh_saves s) \<and> distinct (sh_saves s)
    \<and> (\<forall>p. sh_at s p \<noteq> Written True \<or> p \<in> set (sh_saves s))
    \<and> (\<forall>p q. \<not> in_section (sh_at s p) \<or> \<not> in_section (sh_at s q) \<or> p = q)"
  using cycle_invD [OF cycle_inv_reach [OF assms]] by (metis option.inject)

text \<open>Two processes that overlap: the second waits for the first.\<close>

theorem no_update_lost_witness:
  "\<exists>s :: nat list shared. sh_file s = [0, 1] \<and> sh_file s = foldl (\<lambda>v p. v @ [p]) [] (sh_saves s) \<and> sh_at s 0 = Over
    \<and> sh_at s 1 = Written True"
proof -
  define u where "u = (\<lambda>p v. v @ [p :: nat])"
  define s0 where "s0 = (shared_start [] :: nat list shared)"
  define s1 where "s1 = move 0 Trying s0"
  define s2 where "s2 = move 1 Trying s1"
  define s3 where "s3 = move 0 Holding (s2\<lparr>sh_holder := Some 0\<rparr>)"
  define s4 where "s4 = move 0 (Loaded (sh_file s3)) s3"
  define s5 where "s5 = move 0 (Written True) (s4\<lparr>sh_file := u 0 [], sh_saves := sh_saves s4 @ [0]\<rparr>)"
  define s6 where "s6 = move 0 Over (s5\<lparr>sh_holder := None\<rparr>)"
  define s7 where "s7 = move 1 Holding (s6\<lparr>sh_holder := Some 1\<rparr>)"
  define s8 where "s8 = move 1 (Loaded (sh_file s7)) s7"
  define s9 where "s9 = move 1 (Written True) (s8\<lparr>sh_file := u 1 [0], sh_saves := sh_saves s8 @ [1]\<rparr>)"
  note defs = s1_def s2_def s3_def s4_def s5_def s6_def s7_def s8_def s9_def s0_def shared_start_def u_def
  have e1: "cycle_step u s0 s1" unfolding s1_def by (rule enter) (simp add: defs)
  have e2: "cycle_step u s1 s2" unfolding s2_def by (rule enter) (simp add: defs)
  have e3: "cycle_step u s2 s3" unfolding s3_def by (rule granted) (simp_all add: defs)
  have e4: "cycle_step u s3 s4" unfolding s4_def by (rule loads) (simp add: defs)
  have e5: "cycle_step u s4 s5" unfolding s5_def by (rule saves) (simp add: defs)
  have e6: "cycle_step u s5 s6" unfolding s6_def by (rule leaves) (simp add: defs)
  have e7: "cycle_step u s6 s7" unfolding s7_def by (rule granted) (simp_all add: defs)
  have e8: "cycle_step u s7 s8" unfolding s8_def by (rule loads) (simp add: defs)
  have e9: "cycle_step u s8 s9" unfolding s9_def by (rule saves) (simp add: defs)
  note c = converse_rtranclp_into_rtranclp [of "cycle_step u"]
  have "(cycle_step u)\<^sup>*\<^sup>* s0 s9"
    by (rule c, rule e1, rule c, rule e2, rule c, rule e3, rule c, rule e4, rule c, rule e5, rule c, rule e6, rule c,
      rule e7, rule c, rule e8, rule c, rule e9, rule rtranclp.rtrancl_refl)
  then have "(cycle_step u)\<^sup>*\<^sup>* (shared_start []) s9" unfolding s0_def .
  from no_update_lost [OF this] have "sh_file s9 = foldl (\<lambda>v p. u p v) [] (sh_saves s9)" by simp
  moreover have "sh_file s9 = [0, 1] \<and> sh_at s9 0 = Over \<and> sh_at s9 1 = Written True" by (simp add: defs)
  ultimately show ?thesis unfolding u_def by blast
qed

text \<open>\<open>Acquire\<close> gives up in time: when every attempt takes at least the interval between two, an answer is there
  after at most 202 attempts, whoever holds the lock; and it is the lock only if an attempt got it.\<close>

theorem acquire_ends:
  assumes "paced start poll_interval polls" and "length polls \<ge> 202"
  shows "\<exists>r. acquire_lock None None start polls = Some r \<and> (r \<noteq> None \<or> (\<exists>p \<in> set polls. fst p = FlockOk))"
proof -
  have "acquire_loop (start + acquire_timeout) polls \<noteq> None" unfolding acquire_loop_def
    by (rule poll_loop_ends [OF assms(1), of 201])
      (use assms(2) in \<open>simp_all add: acquire_timeout_def poll_interval_def\<close>)
  then obtain r where r: "acquire_loop (start + acquire_timeout) polls = Some r" by blast
  then have "r = None \<Longrightarrow> \<exists>p \<in> set polls. fst p = FlockOk"
    unfolding acquire_loop_def by (force simp: lock_attempt_got dest!: poll_loop_result)
  with r show ?thesis by (auto simp: acquire_lock_def)
qed

theorem acquire_ends_witness:
  "acquire_lock None None 0 (map (\<lambda>i. (FlockBusy, int i * poll_interval)) [0..<202]) \<noteq> None"
  using acquire_ends [of 0 "map (\<lambda>i. (FlockBusy, int i * poll_interval)) [0..<202]"] by (auto simp: paced_def)

end
