(* ===== verification/Tun.thy ===== *)
theory Tun
  imports Netaddr
begin

text \<open>
  The TUN device (\<open>src/internal/tun/\<close>): opening it, reading packets out of the batches the driver delivers, writing
  (\<open>device.go\<close>), the netmask as a prefix length (\<open>netmask.go\<close>), and the commands that give it its address on the
  three platforms (\<open>tun.go\<close>, \<open>config_linux.go\<close>, \<open>config_darwin.go\<close>, \<open>config_windows.go\<close>). The driver (the library
  of WireGuard) and the commands are functions of what they answer.
\<close>

unbundle bit_operations_syntax

section \<open>The netmask\<close>

datatype netmask_err =
    MaskInvalid string
  | MaskNotIPv4 string
  | MaskNotCanonical string
  | MaskNotContiguous string

text \<open>\<open>net.IPMask.Size\<close>: the ones at the front of a byte, and what is left of it after them.\<close>

fun count_ones :: "nat \<Rightarrow> byte \<Rightarrow> nat \<times> byte" where
  "count_ones 0 v = (0, v)"
| "count_ones (Suc k) v =
     (if v AND 0x80 \<noteq> 0 then (case count_ones k (push_bit 1 v) of (n, r) \<Rightarrow> (n + 1, r)) else (0, v))"

fun simple_mask_length :: "bytes \<Rightarrow> nat option" where
  "simple_mask_length [] = Some 0"
| "simple_mask_length (v # vs) =
     (if v = 0xFF then map_option (\<lambda>n. n + 8) (simple_mask_length vs)
      else (case count_ones 8 v of (n, r) \<Rightarrow>
              if r \<noteq> 0 \<or> list_ex (\<lambda>b. b \<noteq> 0) vs then None else Some n))"

definition leading_zeros32 :: "32 word \<Rightarrow> nat" where
  "leading_zeros32 u = length (takeWhile (\<lambda>i. \<not> bit u i) (rev [0..<32]))"

definition trailing_zeros32 :: "32 word \<Rightarrow> nat" where
  "trailing_zeros32 u = length (takeWhile (\<lambda>i. \<not> bit u i) [0..<32])"

definition netmask_to_prefix_len :: "string \<Rightarrow> netmask_err + nat" where
  "netmask_to_prefix_len m =
     (case parse_ip m of
        None \<Rightarrow> Inl (MaskInvalid m)
      | Some a \<Rightarrow>
     (case ip_to4 a of
        None \<Rightarrow> Inl (MaskNotIPv4 m)
      | Some u \<Rightarrow>
     (case simple_mask_length (ipv4_octets u) of
        None \<Rightarrow> Inl (MaskNotCanonical m)
      | Some ones \<Rightarrow>
          (if leading_zeros32 (NOT u) + trailing_zeros32 u \<noteq> 32 then Inl (MaskNotContiguous m)
           else Inr ones))))"

section \<open>Giving the device its address\<close>

datatype tun_err =
    BadNetmask netmask_err
  | CommandFailed string string
  | NoPeerAddress
  | CreateFailed string string
  | NameFailed string
  | MtuFailed string

type_synonym run_tool = "string list \<Rightarrow> string option"

text \<open>The commands that were run, and the error.\<close>

fun run_all :: "run_tool \<Rightarrow> (string \<times> string list) list \<Rightarrow> tun_err option \<times> string list list" where
  "run_all run [] = (None, [])"
| "run_all run ((what, argv) # cs) =
     (case run argv of
        Some e \<Rightarrow> (Some (CommandFailed what e), [argv])
      | None \<Rightarrow> (case run_all run cs of (e, argvs) \<Rightarrow> (e, argv # argvs)))"

definition configure_linux ::
    "run_tool \<Rightarrow> string \<Rightarrow> string \<Rightarrow> string \<Rightarrow> int \<Rightarrow> tun_err option \<times> string list list" where
  "configure_linux run nm addr netmask mtu =
     (case netmask_to_prefix_len netmask of
        Inl e \<Rightarrow> (Some (BadNetmask e), [])
      | Inr n \<Rightarrow>
          run_all run
            [(''assign'', [''ip'', ''addr'', ''add'', addr @ ''/'' @ nat_str n, ''dev'', nm]),
             (''set mtu'', [''ip'', ''link'', ''set'', ''dev'', nm, ''mtu'', int_str mtu]),
             (''bring up'', [''ip'', ''link'', ''set'', ''dev'', nm, ''up''])])"

definition configure_darwin ::
    "run_tool \<Rightarrow> string \<Rightarrow> string \<Rightarrow> string \<Rightarrow> string \<Rightarrow> int \<Rightarrow> tun_err option \<times> string list list" where
  "configure_darwin run nm addr netmask gateway mtu =
     (if gateway = [] then (Some NoPeerAddress, [])
      else run_all run
        [([], [''ifconfig'', nm, ''inet'', addr, gateway, ''netmask'', netmask, ''mtu'', int_str mtu, ''up''])])"

definition configure_windows ::
    "run_tool \<Rightarrow> string \<Rightarrow> string \<Rightarrow> string \<Rightarrow> int \<Rightarrow> tun_err option \<times> string list list" where
  "configure_windows run nm addr netmask mtu =
     run_all run
       [(''set address'', [''netsh'', ''interface'', ''ipv4'', ''set'', ''address'', ''name='' @ nm, ''source=static'',
          ''address='' @ addr, ''mask='' @ netmask]),
        (''set mtu'', [''netsh'', ''interface'', ''ipv4'', ''set'', ''subinterface'', nm, ''mtu='' @ int_str mtu,
          ''store=active''])]"

text \<open>\<open>Configure\<close>: a device that configures itself is asked, else the commands of the platform run.\<close>

definition tun_configure ::
    "(string \<Rightarrow> string \<Rightarrow> string \<Rightarrow> 'r) option
     \<Rightarrow> (string \<Rightarrow> string \<Rightarrow> string \<Rightarrow> string \<Rightarrow> int \<Rightarrow> 'r) \<Rightarrow> string \<Rightarrow> string \<Rightarrow> string \<Rightarrow> string \<Rightarrow> int \<Rightarrow> 'r" where
  "tun_configure self platform nm addr netmask gateway mtu =
     (case self of Some f \<Rightarrow> f addr netmask gateway | None \<Rightarrow> platform nm addr netmask gateway mtu)"

section \<open>The device\<close>

definition tun_rw_offset :: nat where "tun_rw_offset = 16"

text \<open>The buffers hold what the driver last put there; \<open>td_sizes\<close> are the lengths of its packets, of which
  \<open>td_count\<close> are valid and \<open>td_next\<close> have been handed out.\<close>

record tun_device =
  td_name :: string
  td_mtu :: nat
  td_bufs :: "bytes list"
  td_sizes :: "nat list"
  td_count :: nat
  td_next :: nat

record driver =
  dv_create :: "string option"
  dv_name :: "string + string"
  dv_mtu :: "string + nat"
  dv_batch :: int

text \<open>Opening: the error or the device, and whether the driver's device is open afterwards.\<close>

definition open_device :: "string \<Rightarrow> driver \<Rightarrow> string \<Rightarrow> (tun_err + tun_device) \<times> bool" where
  "open_device default_name D nm =
     (let nm = (if nm = [] then default_name else nm) in
      case dv_create D of
        Some e \<Rightarrow> (Inl (CreateFailed nm e), False)
      | None \<Rightarrow>
     (case dv_name D of
        Inl e \<Rightarrow> (Inl (NameFailed e), False)
      | Inr actual \<Rightarrow>
     (case dv_mtu D of
        Inl e \<Rightarrow> (Inl (MtuFailed e), False)
      | Inr mtu \<Rightarrow>
          (let batch = (if dv_batch D < 1 then 1 else nat (dv_batch D)); len = tun_rw_offset + mtu + 64
           in (Inr \<lparr>td_name = actual, td_mtu = mtu, td_bufs = replicate batch (replicate len 0),
                    td_sizes = replicate batch 0, td_count = 0, td_next = 0\<rparr>, True)))))"

text \<open>What one call of the driver's \<open>Read\<close> does: it fails, or fills the buffers and the sizes and says how many
  packets there are.\<close>

datatype inner_read =
    InnerFails bool string
  | Filled nat "bytes list" "nat list"

datatype read_err =
    TooManySegments
  | TunRead string
  | TunEof
  | SizePanic nat

definition hand_out :: "nat \<Rightarrow> tun_device \<Rightarrow> (read_err + bytes) \<times> tun_device" where
  "hand_out plen d =
     (let i = td_next d; k = td_sizes d ! i; buf = td_bufs d ! i; d1 = d\<lparr>td_next := i + 1\<rparr>
      in if tun_rw_offset + k > length buf then (Inl (SizePanic k), d1)
         else (Inr (take plen (take k (drop tun_rw_offset buf))), d1))"

text \<open>\<open>Read\<close> into a buffer of \<open>plen\<close> bytes; \<open>None\<close> while the driver has not answered.\<close>

fun dev_read ::
    "nat \<Rightarrow> inner_read list \<Rightarrow> tun_device \<Rightarrow> ((read_err + bytes) option \<times> tun_device) \<times> inner_read list" where
  "dev_read plen [] d =
     (if td_next d < td_count d then (case hand_out plen d of (r, d1) \<Rightarrow> ((Some r, d1), []))
      else ((None, d), []))"
| "dev_read plen (x # xs) d =
     (if td_next d < td_count d then (case hand_out plen d of (r, d1) \<Rightarrow> ((Some r, d1), x # xs))
      else
        (case x of
           InnerFails many e \<Rightarrow> ((Some (Inl (if many then TooManySegments else TunRead e)), d), xs)
         | Filled n bufs sizes \<Rightarrow>
             (if n = 0 then ((Some (Inl TunEof), d\<lparr>td_bufs := bufs, td_sizes := sizes\<rparr>), xs)
              else dev_read plen xs
                     (d\<lparr>td_bufs := bufs, td_sizes := sizes,
                        td_count := (if n > length bufs then length bufs else n), td_next := 0\<rparr>))))"

text \<open>\<open>Write\<close>: the result, and what the driver was given behind the headroom.\<close>

definition dev_write :: "(bytes \<Rightarrow> string option) \<Rightarrow> tun_device \<Rightarrow> bytes \<Rightarrow> (string + nat) \<times> bytes option" where
  "dev_write inner d p =
     (if length p > td_mtu d then (Inr (length p), None)
      else (case inner p of Some e \<Rightarrow> (Inl (''tun: write: '' @ e), Some p) | None \<Rightarrow> (Inr (length p), Some p)))"

section \<open>Masks\<close>

lemma count_ones_masks:
  "list_all (\<lambda>k. case count_ones 8 (word_of_nat k) of (n, r) \<Rightarrow>
      r \<noteq> 0 \<or> (n \<le> 8 \<and> (word_of_nat k :: byte) = NOT (mask (8 - n)))) [0..<256]"
  by code_simp

lemma count_ones_mask:
  assumes "count_ones 8 v = (n, 0)"
  shows "n \<le> 8 \<and> v = NOT (mask (8 - n))"
proof -
  have "unat v < 256" using unsigned_less [of v, where ?'a = nat] by simp
  then have "unat v \<in> set [0..<256]" by simp
  with count_ones_masks have "case count_ones 8 (word_of_nat (unat v)) of (n, r) \<Rightarrow>
      r \<noteq> 0 \<or> (n \<le> 8 \<and> (word_of_nat (unat v) :: byte) = NOT (mask (8 - n)))"
    unfolding list_all_iff by (rule bspec)
  with assms show ?thesis by simp
qed

lemma mask_upto:
  "list_all (\<lambda>n. simple_mask_length (ipv4_octets (ipv4_mask n)) = Some n
      \<and> leading_zeros32 (NOT (ipv4_mask n)) + trailing_zeros32 (ipv4_mask n) = 32) [0..<33]"
  by code_simp

lemma octets_masks:
  "list_all (\<lambda>n. ipv4_of_octets (NOT (mask (8 - n))) 0 0 0 = ipv4_mask n
      \<and> ipv4_of_octets 255 (NOT (mask (8 - n))) 0 0 = ipv4_mask (n + 8)
      \<and> ipv4_of_octets 255 255 (NOT (mask (8 - n))) 0 = ipv4_mask (n + 16)
      \<and> ipv4_of_octets 255 255 255 (NOT (mask (8 - n))) = ipv4_mask (n + 24)) [0..<9]"
  by code_simp

lemma octets_mask:
  assumes "n \<le> 8"
  shows "ipv4_of_octets (NOT (mask (8 - n))) 0 0 0 = ipv4_mask n"
    "ipv4_of_octets 255 (NOT (mask (8 - n))) 0 0 = ipv4_mask (n + 8)"
    "ipv4_of_octets 255 255 (NOT (mask (8 - n))) 0 = ipv4_mask (n + 16)"
    "ipv4_of_octets 255 255 255 (NOT (mask (8 - n))) = ipv4_mask (n + 24)"
proof -
  have "n \<in> set [0..<9]" using assms by simp
  note c = bspec [OF octets_masks [unfolded list_all_iff] this]
  from c show
    "ipv4_of_octets (NOT (mask (8 - n))) 0 0 0 = ipv4_mask n"
    "ipv4_of_octets 255 (NOT (mask (8 - n))) 0 0 = ipv4_mask (n + 8)"
    "ipv4_of_octets 255 255 (NOT (mask (8 - n))) 0 = ipv4_mask (n + 16)"
    "ipv4_of_octets 255 255 255 (NOT (mask (8 - n))) = ipv4_mask (n + 24)" by blast+
qed

lemma simple_mask_Cons:
  assumes "simple_mask_length (v # vs) = Some n"
  obtains (ff) k where "v = 255" "simple_mask_length vs = Some k" "n = k + 8"
  | (last) "n \<le> 8" "v = NOT (mask (8 - n))" "list_all (\<lambda>b. b = 0) vs"
proof (cases "v = 0xFF")
  case True
  with assms ff show thesis by auto
next
  case False
  obtain k r where c: "count_ones 8 v = (k, r)" by fastforce
  with assms False have "r = 0" "k = n" "list_all (\<lambda>b. b = 0) vs"
    by (auto simp: list_ex_iff list_all_iff split: if_splits)
  with count_ones_mask [of v k] c last show thesis by simp
qed

lemma simple_mask_is_mask:
  assumes "simple_mask_length [a, b, c, d] = Some n"
  shows "n \<le> 32 \<and> ipv4_of_octets a b c d = ipv4_mask n"
  using assms
proof (cases rule: simple_mask_Cons)
  case (ff k)
  note a = ff
  from a(2) show ?thesis
  proof (cases rule: simple_mask_Cons)
    case (ff k)
    note b = ff
    from b(2) show ?thesis
    proof (cases rule: simple_mask_Cons)
      case (ff k)
      note c = ff
      from c(2) show ?thesis
      proof (cases rule: simple_mask_Cons)
        case (ff k)
        with a b c show ?thesis by (simp add: ipv4_of_octets_def ipv4_mask_def)
      qed (use a b c octets_mask(4) in \<open>simp add: add.commute\<close>)
    qed (use a b octets_mask(3) in \<open>simp add: add.commute\<close>)
  qed (use a octets_mask(2) in \<open>simp add: add.commute\<close>)
qed (use octets_mask(1) in simp)

lemma netmask_prefix:
  "netmask_to_prefix_len m = Inr n \<longleftrightarrow>
    n \<le> 32 \<and> (\<exists>a. parse_ip m = Some a \<and> ip_to4 a = Some (ipv4_mask n))"
proof
  assume "netmask_to_prefix_len m = Inr n"
  then obtain a u where a: "parse_ip m = Some a" "ip_to4 a = Some u" "simple_mask_length (ipv4_octets u) = Some n"
    by (auto simp: netmask_to_prefix_len_def split: option.splits if_splits)
  from a(3) simple_mask_is_mask have "n \<le> 32 \<and> u = ipv4_mask n"
    unfolding ipv4_octets_def by (metis ipv4_of_octets_octets)
  with a show "n \<le> 32 \<and> (\<exists>a. parse_ip m = Some a \<and> ip_to4 a = Some (ipv4_mask n))" by blast
next
  assume n: "n \<le> 32 \<and> (\<exists>a. parse_ip m = Some a \<and> ip_to4 a = Some (ipv4_mask n))"
  then have "n \<in> set [0..<33]" by simp
  with n bspec [OF mask_upto [unfolded list_all_iff] this] show "netmask_to_prefix_len m = Inr n"
    by (auto simp: netmask_to_prefix_len_def)
qed

section \<open>Packets\<close>

text \<open>The packets still to be handed out, and those of a batch.\<close>

definition packet :: "bytes \<Rightarrow> nat \<Rightarrow> bytes" where
  "packet buf k = take k (drop tun_rw_offset buf)"

definition pending :: "tun_device \<Rightarrow> bytes list" where
  "pending d = drop (td_next d) (take (td_count d) (map2 packet (td_bufs d) (td_sizes d)))"

definition batch_fits :: "bytes list \<Rightarrow> nat list \<Rightarrow> bool" where
  "batch_fits bufs sizes \<longleftrightarrow> bufs \<noteq> [] \<and> length sizes = length bufs
     \<and> list_all2 (\<lambda>b k. tun_rw_offset + k \<le> length b) bufs sizes"

definition dev_ok :: "tun_device \<Rightarrow> bool" where
  "dev_ok d \<longleftrightarrow> batch_fits (td_bufs d) (td_sizes d) \<and> td_count d \<le> length (td_bufs d)"

lemma hand_out_pending:
  assumes "dev_ok d" and "td_next d < td_count d"
  shows "\<exists>p. pending d = p # pending (d\<lparr>td_next := td_next d + 1\<rparr>)
    \<and> hand_out plen d = (Inr (take plen p), d\<lparr>td_next := td_next d + 1\<rparr>)"
proof -
  let ?i = "td_next d" and ?ps = "map2 packet (td_bufs d) (td_sizes d)"
  from assms have l: "length (td_sizes d) = length (td_bufs d)" "?i < length (td_bufs d)"
    by (simp_all add: dev_ok_def batch_fits_def)
  from assms(1) l(2) have fit: "tun_rw_offset + td_sizes d ! ?i \<le> length (td_bufs d ! ?i)"
    unfolding dev_ok_def batch_fits_def by (blast dest: list_all2_nthD)
  from assms(2) l have "pending d = ?ps ! ?i # pending (d\<lparr>td_next := ?i + 1\<rparr>)"
    unfolding pending_def by (subst Cons_nth_drop_Suc [symmetric]) simp_all
  moreover have "?ps ! ?i = packet (td_bufs d ! ?i) (td_sizes d ! ?i)" using l by simp
  ultimately show ?thesis using fit by (simp add: hand_out_def packet_def Let_def)
qed

text \<open>Reading on until the driver has no answer or the buffer is empty and it failed: what the calls return.\<close>

fun dev_reads :: "nat \<Rightarrow> nat \<Rightarrow> inner_read list \<Rightarrow> tun_device \<Rightarrow> (read_err + bytes) list" where
  "dev_reads 0 plen xs d = []"
| "dev_reads (Suc k) plen xs d =
     (case dev_read plen xs d of
        ((None, d1), xs1) \<Rightarrow> []
      | ((Some r, d1), xs1) \<Rightarrow> r # dev_reads k plen xs1 d1)"

fun batch_packets :: "inner_read \<Rightarrow> bytes list" where
  "batch_packets (InnerFails m e) = []"
| "batch_packets (Filled n bufs sizes) = take n (map2 packet bufs sizes)"

fun good_batch :: "inner_read \<Rightarrow> bool" where
  "good_batch (InnerFails m e) = False"
| "good_batch (Filled n bufs sizes) = (n > 0 \<and> batch_fits bufs sizes)"

lemma dev_read_good:
  assumes "dev_ok d" and "list_all good_batch xs"
  shows "case pending d @ concat (map batch_packets xs) of
      [] \<Rightarrow> dev_read plen xs d = ((None, d), [])
    | p # ps \<Rightarrow> \<exists>d1 xs1. dev_read plen xs d = ((Some (Inr (take plen p)), d1), xs1)
        \<and> dev_ok d1 \<and> list_all good_batch xs1 \<and> pending d1 @ concat (map batch_packets xs1) = ps"
  using assms
proof (induction plen xs d rule: dev_read.induct)
  case (1 plen d)
  show ?case
  proof (cases "td_next d < td_count d")
    case True
    from hand_out_pending [OF 1(1) True, of plen] 1(1) True show ?thesis
      by (auto simp: dev_ok_def)
  next
    case False
    then have "pending d = []" by (simp add: pending_def)
    with False show ?thesis by simp
  qed
next
  case (2 plen x xs d)
  show ?case
  proof (cases "td_next d < td_count d")
    case True
    from hand_out_pending [OF 2(2) True, of plen] 2(2,3) True show ?thesis
      by (auto simp: dev_ok_def)
  next
    case False
    then have p: "pending d = []" by (simp add: pending_def)
    from 2(3) obtain n bufs sizes where x: "x = Filled n bufs sizes" "n > 0" "batch_fits bufs sizes"
      by (cases x) auto
    let ?d1 = "d\<lparr>td_bufs := bufs, td_sizes := sizes, td_count := (if n > length bufs then length bufs else n), td_next := 0\<rparr>"
    have "dev_ok ?d1" using x(3) by (simp add: dev_ok_def)
    moreover have "pending ?d1 = batch_packets x"
      using x(3) by (auto simp: pending_def x(1) batch_fits_def)
    moreover have "dev_read plen (x # xs) d = dev_read plen xs ?d1" using False x by simp
    moreover have "n \<noteq> 0" using x(2) by simp
    moreover have "batch_packets x \<noteq> []" using x by (cases bufs; cases sizes) (auto simp: batch_fits_def)
    ultimately show ?thesis using 2(1) [OF False x(1)] 2(3) p
      by (cases "batch_packets x") simp_all
  qed
qed

lemma dev_reads_good:
  assumes "dev_ok d" and "list_all good_batch xs"
  shows "dev_reads k plen xs d
    = map (\<lambda>p. Inr (take plen p)) (take k (pending d @ concat (map batch_packets xs)))"
  using assms
proof (induction k arbitrary: d xs)
  case (Suc k)
  from dev_read_good [OF Suc.prems, of plen] Suc.IH show ?case
    by (cases "pending d @ concat (map batch_packets xs)") fastforce+
qed simp

section \<open>Properties\<close>

text \<open>The netmask is read exactly: a text is accepted with the length \<open>n\<close> just when it is an address, IPv4 or
  mapped, of the form \<open>n\<close> ones followed by zeros; so the two tests for contiguous bits never disagree.\<close>

theorem netmask_exact:
  "netmask_to_prefix_len m = Inr n \<longleftrightarrow>
    n \<le> 32 \<and> (\<exists>a. parse_ip m = Some a \<and> ip_to4 a = Some (ipv4_mask n))"
  by (rule netmask_prefix)

text \<open>(C36) The reader of the device refines a queue: over any batches the driver delivers, however the calls of
  \<open>Read\<close> fall, they return the packets of the batches one by one, in order, none lost, repeated or mixed with an
  earlier batch, each cut only to the caller's buffer; no call panics.\<close>

theorem reads_in_order:
  assumes "dev_ok d" and "list_all good_batch xs"
  shows "dev_reads k plen xs d = map (\<lambda>p. Inr (take plen p)) (take k (pending d @ concat (map batch_packets xs)))"
  using assms by (rule dev_reads_good)

definition sample_device :: tun_device where
  "sample_device = \<lparr>td_name = ''utun4'', td_mtu = 4, td_bufs = replicate 2 (replicate 84 0), td_sizes = [0, 0],
     td_count = 0, td_next = 0\<rparr>"

definition sample_buf :: "bytes \<Rightarrow> bytes" where
  "sample_buf p = replicate 16 0 @ p @ replicate (68 - length p) 0"

theorem reads_in_order_witness:
  "dev_reads 3 100 [Filled 2 [sample_buf [1, 2], sample_buf [3]] [2, 1], Filled 1 [sample_buf [4], sample_buf [3]] [1, 1]]
      sample_device = [Inr [1, 2], Inr [3], Inr [4]]"
proof -
  let ?xs = "[Filled 2 [sample_buf [1, 2], sample_buf [3]] [2, 1], Filled 1 [sample_buf [4], sample_buf [3]] [1, 1]]"
  have "dev_ok sample_device" by (simp add: dev_ok_def batch_fits_def sample_device_def tun_rw_offset_def eval_nat_numeral)
  moreover have "list_all good_batch ?xs" by (simp add: batch_fits_def sample_buf_def tun_rw_offset_def)
  ultimately have "dev_reads 3 100 ?xs sample_device
      = map (\<lambda>p. Inr (take 100 p)) (take 3 (pending sample_device @ concat (map batch_packets ?xs)))"
    by (rule reads_in_order)
  then show ?thesis
    by (simp add: pending_def sample_device_def packet_def sample_buf_def tun_rw_offset_def eval_nat_numeral)
qed

text \<open>A device that was opened can be read at once, and a device that could not be is not left open.\<close>

lemma open_device_ready:
  assumes "open_device dn D nm = (r, is_open)"
  shows "is_open = ok r \<and> (case r of Inl e \<Rightarrow> True | Inr d \<Rightarrow> dev_ok d \<and> pending d = []
    \<and> list_all (\<lambda>b. length b = tun_rw_offset + td_mtu d + 64) (td_bufs d))"
proof -
  let ?b = "if dv_batch D < 1 then 1 else nat (dv_batch D)"
  have b: "?b \<noteq> 0" by simp
  show ?thesis
    using assms b
    by (auto simp: open_device_def Let_def dev_ok_def batch_fits_def pending_def list_all2_conv_all_nth list_all_iff
        split: option.splits sum.splits)
qed

end
