(* ===== verification/Tls.thy ===== *)
theory Tls
  imports Revoke Helper
begin

text \<open>
  The TLS configurations of the two ends (\<open>src/internal/tunnel/server/tls.go\<close>, \<open>src/internal/tunnel/client/tls.go\<close>) with
  the checks they hang into \<open>crypto/tls\<close>, and the warning about the mode of a private key (\<open>src/internal/keyperm/\<close>).
  Reading files, the pool of a CA text and the key pair are arguments; a verified chain is a list of
  certificates, of which the code looks at the serial number, the name and the extended key usages. \<open>crypto/tls\<close>
  documents that \<open>VerifyConnection\<close> runs in every handshake and \<open>VerifyPeerCertificate\<close> only in full ones.
\<close>

unbundle bit_operations_syntax

section \<open>The mode of a key file\<close>

datatype key_stat = KeyMissing | KeyUnreadable string | KeyMode "32 word"

datatype key_warning =
    CannotCheck string string
  | ReadableBy string "32 word" bool

text \<open>\<open>True\<close> stands for every user on the machine, \<open>False\<close> for the group.\<close>

definition key_check :: "bool \<Rightarrow> string \<Rightarrow> key_stat \<Rightarrow> key_warning option" where
  "key_check windows path st =
     (if windows then None
      else case st of
        KeyMissing \<Rightarrow> None
      | KeyUnreadable e \<Rightarrow> Some (CannotCheck path e)
      | KeyMode m \<Rightarrow>
          (let perm = m AND 0x1FF in
           if perm AND 0x3F = 0 then None else Some (ReadableBy path perm (perm AND 7 \<noteq> 0))))"

section \<open>The server\<close>

datatype key_usage = ClientAuth | ServerAuth | OtherUsage nat

record leaf =
  lf_serial :: int
  lf_cn :: string
  lf_usages :: "key_usage list"

datatype verify_err =
    NoVerifiedChain
  | RevocationCheck check_err
  | CertRevoked string string
  | LacksUsage string key_usage

text \<open>One handshake: the clock and what the file system shows of the deny-list at that time.\<close>

definition verify_connection ::
    "int \<Rightarrow> stat \<Rightarrow> (file_err + entry list) \<Rightarrow> leaf list list \<Rightarrow> checker \<Rightarrow> verify_err option \<times> checker" where
  "verify_connection now st content vcs c =
     (case vcs of
        [] \<Rightarrow> (Some NoVerifiedChain, c)
      | [] # css \<Rightarrow> (Some NoVerifiedChain, c)
      | (l # ls) # css \<Rightarrow>
          (case is_revoked now st content (lf_serial l) c of
             (Inl e, c1) \<Rightarrow> (Some (RevocationCheck e), c1)
           | (Inr True, c1) \<Rightarrow> (Some (CertRevoked (lf_cn l) (serial_hex (lf_serial l))), c1)
           | (Inr False, c1) \<Rightarrow>
               (if list_ex (\<lambda>u. u = ClientAuth) (lf_usages l) then None else Some (LacksUsage (lf_cn l) ClientAuth), c1)))"

definition verify_peer :: "leaf list list \<Rightarrow> verify_err option" where
  "verify_peer vcs =
     (case vcs of
        [] \<Rightarrow> Some NoVerifiedChain
      | [] # css \<Rightarrow> Some NoVerifiedChain
      | (l # ls) # css \<Rightarrow>
          (if list_ex (\<lambda>u. u = ServerAuth) (lf_usages l) then None else Some (LacksUsage (lf_cn l) ServerAuth)))"

text \<open>The fields of a configuration that the code sets; \<open>tls_require\<close> is \<open>RequireAndVerifyClientCert\<close>.\<close>

definition version_tls13 :: nat where "version_tls13 = 0x0304"

record ('p, 'k) tls_config =
  tls_pair :: 'k
  tls_cas :: 'p
  tls_require :: bool
  tls_server_name :: string
  tls_min :: nat
  tls_max :: nat

datatype tls_err =
    CaUnreadable string string
  | CertUnreadable string string
  | KeyUnreadableFile string string
  | CaEmpty
  | BadKeyPair string

text \<open>The files of the server: the key pair is read by the library. The warning goes to the log.\<close>

definition server_tls ::
    "(string \<Rightarrow> string + string) \<Rightarrow> (string \<Rightarrow> 'p option) \<Rightarrow> (string \<Rightarrow> string \<Rightarrow> string + 'k)
     \<Rightarrow> string \<Rightarrow> string \<Rightarrow> string \<Rightarrow> tls_err + ('p, 'k) tls_config" where
  "server_tls read mkpool load_pair ca cert key =
     (case read ca of
        Inl e \<Rightarrow> Inl (CaUnreadable ca e)
      | Inr pem \<Rightarrow>
     (case mkpool pem of
        None \<Rightarrow> Inl CaEmpty
      | Some p \<Rightarrow>
     (case load_pair cert key of
        Inl e \<Rightarrow> Inl (BadKeyPair e)
      | Inr k \<Rightarrow> Inr \<lparr>tls_pair = k, tls_cas = p, tls_require = True, tls_server_name = [],
                     tls_min = version_tls13, tls_max = version_tls13\<rparr>)))"

section \<open>The client\<close>

definition client_tls_pem ::
    "(string \<Rightarrow> 'p option) \<Rightarrow> (string \<Rightarrow> string \<Rightarrow> string + 'k) \<Rightarrow> string \<Rightarrow> string \<Rightarrow> string \<Rightarrow> string
     \<Rightarrow> tls_err + ('p, 'k) tls_config" where
  "client_tls_pem mkpool pair ca cert key sn =
     (case mkpool ca of
        None \<Rightarrow> Inl CaEmpty
      | Some p \<Rightarrow>
     (case pair cert key of
        Inl e \<Rightarrow> Inl (BadKeyPair e)
      | Inr k \<Rightarrow> Inr \<lparr>tls_pair = k, tls_cas = p, tls_require = False, tls_server_name = sn,
                     tls_min = version_tls13, tls_max = version_tls13\<rparr>))"

definition client_tls_files ::
    "(string \<Rightarrow> string + string) \<Rightarrow> (string \<Rightarrow> 'p option) \<Rightarrow> (string \<Rightarrow> string \<Rightarrow> string + 'k)
     \<Rightarrow> string \<Rightarrow> string \<Rightarrow> string \<Rightarrow> string \<Rightarrow> tls_err + ('p, 'k) tls_config" where
  "client_tls_files read mkpool pair ca cert key sn =
     (case read ca of
        Inl e \<Rightarrow> Inl (CaUnreadable ca e)
      | Inr ca_pem \<Rightarrow>
     (case read cert of
        Inl e \<Rightarrow> Inl (CertUnreadable cert e)
      | Inr cert_pem \<Rightarrow>
     (case read key of
        Inl e \<Rightarrow> Inl (KeyUnreadableFile key e)
      | Inr key_pem \<Rightarrow> client_tls_pem mkpool pair ca_pem cert_pem key_pem sn)))"

text \<open>What \<open>client.New\<close> builds its configuration with: from memory, or from the files.\<close>

definition client_tls ::
    "(string \<Rightarrow> string + string) \<Rightarrow> (string \<Rightarrow> 'p option) \<Rightarrow> (string \<Rightarrow> string \<Rightarrow> string + 'k)
     \<Rightarrow> client_config \<Rightarrow> bool \<Rightarrow> tls_err + ('p, 'k) tls_config" where
  "client_tls read mkpool pair cfg inline =
     (if inline then client_tls_pem mkpool pair (cc_ca_pem cfg) (cc_cert_pem cfg) (cc_key_pem cfg) (cc_server_name cfg)
      else client_tls_files read mkpool pair (cc_ca_file cfg) (cc_cert_file cfg) (cc_key_file cfg) (cc_server_name cfg))"

section \<open>Handshakes\<close>

record attempt =
  at_now :: int
  at_stat :: stat
  at_list :: "file_err + entry list"
  at_resumed :: bool
  at_chains :: "leaf list list"

text \<open>A series of handshakes with the server over the one checker its connections share: which are let in.\<close>

fun server_handshakes :: "attempt list \<Rightarrow> checker \<Rightarrow> verify_err option list" where
  "server_handshakes [] c = []"
| "server_handshakes (a # hs) c =
     (case verify_connection (at_now a) (at_stat a) (at_list a) (at_chains a) c of
        (r, c1) \<Rightarrow> r # server_handshakes hs c1)"

definition client_handshake :: "attempt \<Rightarrow> verify_err option" where
  "client_handshake a = (if at_resumed a then None else verify_peer (at_chains a))"

section \<open>Lemmas\<close>

lemma verify_connection_None:
  assumes "verify_connection now st content vcs c = (None, c')"
  shows "\<exists>l ls css. vcs = (l # ls) # css \<and> ClientAuth \<in> set (lf_usages l)
    \<and> is_revoked now st content (lf_serial l) c = (Inr False, c')"
  using assms
  by (auto simp: verify_connection_def list_ex_iff split: list.splits prod.splits sum.splits bool.splits if_splits)

text \<open>Every handshake leaves the checker where a check leaves it, or as it was.\<close>

lemma verify_connection_checker:
  assumes "verify_connection now st content vcs c = (r, c')"
  shows "c' = c \<or> (\<exists>s x. is_revoked now st content s c = (x, c'))"
  using assms
  by (auto simp: verify_connection_def split: list.splits prod.splits sum.splits bool.splits if_splits)

lemma is_revoked_enforced:
  assumes "enforced c s" and "\<And>es. content = Inr es \<Longrightarrow> serial_hex s \<in> en_serial ` set es"
    and "is_revoked now st content s' c = (x, c')"
  shows "enforced c' s"
proof -
  obtain y where "is_revoked now st content s c = (y, c')"
    using assms(3) unfolding is_revoked_def Let_def by (auto split: stat.splits sum.splits if_splits)
  from is_revoked_keeps [OF assms(1,2) this] show ?thesis by blast
qed

lemma handshakes_enforced:
  assumes "enforced c s" and "\<forall>a \<in> set hs. \<forall>es. at_list a = Inr es \<longrightarrow> serial_hex s \<in> en_serial ` set es"
    and "i < length hs" and "server_handshakes hs c ! i = None" and "at_chains (hs ! i) = (l # ls) # css"
  shows "lf_serial l \<noteq> s \<and> ClientAuth \<in> set (lf_usages l)"
  using assms
proof (induction hs c arbitrary: i rule: server_handshakes.induct)
  case (2 a hs c)
  obtain r c1 where v: "verify_connection (at_now a) (at_stat a) (at_list a) (at_chains a) c = (r, c1)" by fastforce
  have listed: "\<And>es. at_list a = Inr es \<Longrightarrow> serial_hex s \<in> en_serial ` set es" using 2(3) by simp
  show ?case
  proof (cases i)
    case 0
    with 2(5) v have "r = None" by simp
    with v verify_connection_None obtain l' ls' css' where w: "at_chains a = (l' # ls') # css'" "ClientAuth \<in> set (lf_usages l')"
      "is_revoked (at_now a) (at_stat a) (at_list a) (lf_serial l') c = (Inr False, c1)" by blast
    have "lf_serial l \<noteq> s"
    proof
      assume "lf_serial l = s"
      with 0 2(6) w have "is_revoked (at_now a) (at_stat a) (at_list a) s c = (Inr False, c1)" by simp
      from is_revoked_keeps [OF 2(2) listed this] show False by simp
    qed
    with 0 2(6) w show ?thesis by simp
  next
    case (Suc j)
    have "enforced c1 s"
      using verify_connection_checker [OF v] 2(2) is_revoked_enforced [OF 2(2) listed] by blast
    with 2(1) [OF v [symmetric], of j] 2(3-) Suc v show ?thesis by simp
  qed
qed simp

lemma client_tls_fields:
  assumes "client_tls read mkpool pair cfg inline = Inr t"
  shows "tls_min t = version_tls13 \<and> tls_max t = version_tls13 \<and> tls_server_name t = cc_server_name cfg"
  using assms
  by (auto simp: client_tls_def client_tls_pem_def client_tls_files_def split: if_splits sum.splits option.splits)

text \<open>The warning about a key file: there is none exactly when neither the group nor anybody else has a right to it.\<close>

lemma key_check_exact:
  "key_check False path (KeyMode m) = None \<longleftrightarrow> (\<forall>i < 6. \<not> bit m i)"
proof -
  have "(m AND 0x1FF) AND 0x3F = m AND mask 6"
    by (simp add: and.assoc mask_eq_exp_minus_1)
  moreover have "m AND mask 6 = 0 \<longleftrightarrow> (\<forall>i < 6. \<not> bit m i)"
  proof
    assume z: "m AND mask 6 = 0"
    show "\<forall>i < 6. \<not> bit m i"
    proof (intro allI impI)
      fix i :: nat assume "i < 6"
      moreover have "\<not> bit (m AND mask 6) i" using z by simp
      ultimately show "\<not> bit m i" by (simp add: bit_simps)
    qed
  qed (auto simp: bit_eq_iff bit_simps)
  ultimately show ?thesis by (simp add: key_check_def Let_def)
qed

section \<open>Properties\<close>

text \<open>(C15) A revoked client is not let in again, by a full handshake or a resumed one: once the checker has the serial
  in its set, no handshake of any series admits a leaf with that serial, whatever happens to the file and the
  clock meanwhile, as long as every version of the list that can be read has it; what cannot be read
  refuses the client.\<close>

theorem revoked_never_admitted:
  assumes "enforced c s" and "\<forall>a \<in> set hs. \<forall>es. at_list a = Inr es \<longrightarrow> serial_hex s \<in> en_serial ` set es"
    and "i < length hs" and "server_handshakes hs c ! i = None" and "at_chains (hs ! i) = (l # ls) # css"
  shows "lf_serial l \<noteq> s \<and> ClientAuth \<in> set (lf_usages l)"
  using assms by (rule handshakes_enforced)

definition good_leaf :: "int \<Rightarrow> leaf" where
  "good_leaf s = \<lparr>lf_serial = s, lf_cn = ''bob'', lf_usages = [ServerAuth, ClientAuth]\<rparr>"

theorem revoked_never_admitted_witness:
  "server_handshakes
      [\<lparr>at_now = 0, at_stat = StatError ''io'', at_list = Inl NotExist, at_resumed = True, at_chains = [[good_leaf 7]]\<rparr>,
       \<lparr>at_now = 9, at_stat = StatNotExist, at_list = Inl NotExist, at_resumed = True, at_chains = [[good_leaf 7]]\<rparr>]
      \<lparr>ck_path = ''revoked.json'', ck_mtime = Some 1, ck_size = 3, ck_set = Some {serial_hex 255}\<rparr> ! 1 = None
    \<and> lf_serial (good_leaf 7) \<noteq> 255"
proof -
  let ?hs = "[\<lparr>at_now = 0, at_stat = StatError ''io'', at_list = Inl NotExist, at_resumed = True, at_chains = [[good_leaf 7]]\<rparr>,
       \<lparr>at_now = 9, at_stat = StatNotExist, at_list = Inl NotExist, at_resumed = True, at_chains = [[good_leaf 7]]\<rparr>]"
  let ?c = "\<lparr>ck_path = ''revoked.json'', ck_mtime = Some 1, ck_size = 3, ck_set = Some {serial_hex 255}\<rparr>"
  have "serial_hex 7 \<noteq> serial_hex 255" by code_simp
  then have n: "server_handshakes ?hs ?c ! 1 = None"
    by (simp add: verify_connection_def is_revoked_def good_leaf_def Let_def)
  moreover have "enforced ?c 255" by (simp add: enforced_def)
  ultimately show ?thesis using revoked_never_admitted [of ?c 255 ?hs 1 "good_leaf 7" "[]" "[]"] by simp
qed

text \<open>The engine of a client is pinned: however the credentials were given, the configuration \<open>client.New\<close> comes
  out with admits TLS 1.3 only and verifies the host name of the very endpoint the engine starts with, and the
  engine keeps no credential text.\<close>

theorem client_pinned:
  assumes "client_new (client_tls read mkpool pair) cfg dev = Inr (cfg', t, r)"
  shows "tls_min t = version_tls13 \<and> tls_max t = version_tls13 \<and> tls_server_name t = cc_server_name cfg'
    \<and> cc_ca_pem cfg' = [] \<and> cc_cert_pem cfg' = [] \<and> cc_key_pem cfg' = []"
proof -
  from assms obtain cfg2 inline where t: "client_tls read mkpool pair cfg2 inline = Inr t"
    and c: "cfg' = cfg2\<lparr>cc_ca_pem := [], cc_cert_pem := [], cc_key_pem := []\<rparr>"
    by (auto simp: client_new_def Let_def split: if_splits sum.splits)
  from client_tls_fields [OF t] c show ?thesis by simp
qed

theorem client_pinned_witness:
  "\<exists>cfg' t r. client_new (client_tls (\<lambda>p. Inl ''no file'') (\<lambda>pem. Some pem) (\<lambda>c k. Inr k)) (engine_config sample_request) True
      = Inr (cfg', t, r) \<and> tls_server_name t = ''a.io'' \<and> tls_min t = version_tls13 \<and> cc_key_pem cfg' = []"
proof -
  let ?l = "client_tls (\<lambda>p. Inl ''no file'') (\<lambda>pem. Some pem) (\<lambda>c k. Inr k)"
  have s: "split_host_port ''a.io:1'' = Some (''a.io'', ''1'')" by code_simp
  obtain cfg' t r where e: "client_new ?l (engine_config sample_request) True = Inr (cfg', t, r)"
    and n: "cc_server_name cfg' = ''a.io''"
    using s by (simp add: client_new_def engine_config_def sample_request_def normalize_endpoints_def
        normalize_endpoint_def btoi_def client_tls_def client_tls_pem_def Let_def)
  from client_pinned [OF e] e n show ?thesis by auto
qed

end
