(* ===== verification/Service.thy ===== *)
theory Service
  imports Polling
begin

text \<open>
  The helper as a Windows service (\<open>src/cmd/vpn-helper/service_windows.go\<close>). \<open>Execute\<close> runs the daemon in a
  goroutine and answers the Service Control Manager (SCM): its steps, those of the daemon and the requests that
  come in are a step relation. Installing and removing the service are functions of what the SCM answers; their
  three waits are instances of the polling loop.
\<close>

section \<open>Execute\<close>

datatype svc_report =
    StartPending
  | SvcRunning
  | StopPending nat
  | CurrentStatus

datatype svc_log =
    LogStarted
  | LogFailedToStart string
  | LogDaemonFailed string
  | LogDaemonExited
  | LogStopping
  | LogShutdown string

datatype svc_request = Interrogate | Stop | Shutdown | OtherRequest nat

datatype svc_phase = Launching | Serving | Stopping | Returned bool nat

datatype daemon_run = DaemonUp | DaemonDone "string option"

text \<open>\<open>sv_elog\<close>: whether the event log could be opened; \<open>sv_ready\<close>: the channel \<open>ready\<close> is closed; the error of the
  daemon waits in the channel \<open>done\<close> until it is received.\<close>

record svc_state =
  sv_phase :: svc_phase
  sv_daemon :: daemon_run
  sv_ready :: bool
  sv_cancelled :: bool
  sv_reports :: "svc_report list"
  sv_elog :: bool
  sv_log :: "svc_log list"

definition svc_start :: "bool \<Rightarrow> svc_state" where
  "svc_start elog =
     \<lparr>sv_phase = Launching, sv_daemon = DaemonUp, sv_ready = False, sv_cancelled = False,
      sv_reports = [StartPending], sv_elog = elog, sv_log = []\<rparr>"

definition report :: "svc_report \<Rightarrow> svc_state \<Rightarrow> svc_state" where
  "report r s = s\<lparr>sv_reports := sv_reports s @ [r]\<rparr>"

definition log_event :: "svc_log \<Rightarrow> svc_state \<Rightarrow> svc_state" where
  "log_event l s = (if sv_elog s then s\<lparr>sv_log := sv_log s @ [l]\<rparr> else s)"

definition log_error :: "(string \<Rightarrow> svc_log) \<Rightarrow> string option \<Rightarrow> svc_state \<Rightarrow> svc_state" where
  "log_error f e s = (case e of None \<Rightarrow> s | Some msg \<Rightarrow> log_event (f msg) s)"

definition exit_code :: "string option \<Rightarrow> svc_phase" where
  "exit_code e = (if e = None then Returned False 0 else Returned True 1)"

text \<open>The end of the daemon before it was ready, while it served, and after a stop.\<close>

definition launch_failed :: "string option \<Rightarrow> svc_state \<Rightarrow> svc_state" where
  "launch_failed e s = (log_error LogFailedToStart e (report (StopPending 0) s))\<lparr>sv_phase := exit_code e\<rparr>"

definition daemon_ended :: "string option \<Rightarrow> svc_state \<Rightarrow> svc_state" where
  "daemon_ended e s =
     (let s1 = report (StopPending 0) s
      in (case e of None \<Rightarrow> log_event LogDaemonExited s1 | Some msg \<Rightarrow> log_event (LogDaemonFailed msg) s1)
           \<lparr>sv_phase := exit_code e\<rparr>)"

definition stopped :: "string option \<Rightarrow> svc_state \<Rightarrow> svc_state" where
  "stopped e s = (log_error LogShutdown e s)\<lparr>sv_phase := Returned False 0\<rparr>"

definition on_request :: "svc_request \<Rightarrow> svc_state \<Rightarrow> svc_state" where
  "on_request r s =
     (case r of
        Interrogate \<Rightarrow> report CurrentStatus s
      | OtherRequest n \<Rightarrow> s
      | _ \<Rightarrow> (log_event LogStopping (report (StopPending 30000) s))\<lparr>sv_cancelled := True, sv_phase := Stopping\<rparr>)"

inductive svc_step :: "svc_state \<Rightarrow> svc_state \<Rightarrow> bool" where
  ready: "sv_daemon s = DaemonUp \<Longrightarrow> svc_step s (s\<lparr>sv_ready := True\<rparr>)"
| ends: "sv_daemon s = DaemonUp \<Longrightarrow> svc_step s (s\<lparr>sv_daemon := DaemonDone e\<rparr>)"
| launched: "sv_phase s = Launching \<Longrightarrow> sv_ready s \<Longrightarrow>
    svc_step s ((log_event LogStarted (report SvcRunning s))\<lparr>sv_phase := Serving\<rparr>)"
| doomed: "sv_phase s = Launching \<Longrightarrow> sv_daemon s = DaemonDone e \<Longrightarrow> svc_step s (launch_failed e s)"
| died: "sv_phase s = Serving \<Longrightarrow> sv_daemon s = DaemonDone e \<Longrightarrow> svc_step s (daemon_ended e s)"
| request: "sv_phase s = Serving \<Longrightarrow> svc_step s (on_request r s)"
| down: "sv_phase s = Stopping \<Longrightarrow> sv_daemon s = DaemonDone e \<Longrightarrow> svc_step s (stopped e s)"

section \<open>Installing and removing\<close>

definition service_stop_timeout :: int where "service_stop_timeout = 15 * 1000000000"
definition service_gone_timeout :: int where "service_gone_timeout = 20 * 1000000000"
definition service_poll :: int where "service_poll = 300 * 1000000"

datatype svc_err =
    LocateExe string
  | ResolveExe string
  | OpenManager string
  | NotInstalled string
  | QueryFails string
  | StopTimeout
  | DeleteFails string
  | StillPending
  | CreateFails string

datatype svc_status = SvcStopped | SvcBusy

datatype 'e scm_call = ScmOk | MarkedForDelete 'e | ScmFails 'e

definition stop_decide :: "string + svc_status \<Rightarrow> svc_err option option" where
  "stop_decide a =
     (case a of Inl e \<Rightarrow> Some (Some (QueryFails e)) | Inr st \<Rightarrow> (if st = SvcStopped then Some None else None))"

text \<open>\<open>control\<close> is what \<open>Control(Stop)\<close> returns, \<open>polls\<close> start with its status and go on with the queries.\<close>

definition stop_and_wait ::
    "string option \<Rightarrow> int \<Rightarrow> ((string + svc_status) \<times> int) list \<Rightarrow> svc_err option option" where
  "stop_and_wait control start polls =
     (if control \<noteq> None then Some None
      else poll_loop stop_decide (\<lambda>now. now > start + service_stop_timeout) (\<lambda>a. Some StopTimeout) polls)"

text \<open>An attempt is whether \<open>OpenService\<close> still finds the service.\<close>

definition wait_service_gone :: "int \<Rightarrow> (bool \<times> int) list \<Rightarrow> svc_err option option" where
  "wait_service_gone start polls =
     poll_loop (\<lambda>found. if found then None else Some None) (\<lambda>now. now > start + service_gone_timeout)
       (\<lambda>a. Some StillPending) polls"

fun create_error :: "string scm_call \<Rightarrow> svc_err option" where
  "create_error ScmOk = None"
| "create_error (MarkedForDelete e) = Some (CreateFails e)"
| "create_error (ScmFails e) = Some (CreateFails e)"

fun create_decide :: "string scm_call \<Rightarrow> svc_err option option" where
  "create_decide ScmOk = Some None"
| "create_decide (MarkedForDelete e) = None"
| "create_decide (ScmFails e) = Some (Some (CreateFails e))"

definition create_with_retry :: "int \<Rightarrow> (string scm_call \<times> int) list \<Rightarrow> svc_err option option" where
  "create_with_retry start polls =
     poll_loop create_decide (\<lambda>now. now \<ge> start + service_gone_timeout) create_error polls"

fun delete_error :: "string scm_call \<Rightarrow> svc_err option" where
  "delete_error (ScmFails e) = Some (DeleteFails e)"
| "delete_error x = None"

text \<open>One removal: the stop with its queries, the deletion, the wait until the SCM has dropped the service, and
  what the clock says when each wait starts.\<close>

record removal =
  rm_control :: "string option"
  rm_stop_start :: int
  rm_stop :: "((string + svc_status) \<times> int) list"
  rm_delete :: "string scm_call"
  rm_gone_start :: int
  rm_gone :: "(bool \<times> int) list"

definition remove_found :: "removal \<Rightarrow> svc_err option option" where
  "remove_found R =
     (case stop_and_wait (rm_control R) (rm_stop_start R) (rm_stop R) of
        None \<Rightarrow> None
      | Some (Some e) \<Rightarrow> Some (Some e)
      | Some None \<Rightarrow>
          (case delete_error (rm_delete R) of
             Some e \<Rightarrow> Some (Some e)
           | None \<Rightarrow> wait_service_gone (rm_gone_start R) (rm_gone R)))"

definition delete_service_if_present :: "bool \<Rightarrow> removal \<Rightarrow> svc_err option option" where
  "delete_service_if_present found R = (if \<not> found then Some None else remove_found R)"

definition remove_service :: "string option \<Rightarrow> string option \<Rightarrow> removal \<Rightarrow> svc_err option option" where
  "remove_service manager opened R =
     (case manager of
        Some e \<Rightarrow> Some (Some (OpenManager e))
      | None \<Rightarrow> (case opened of Some e \<Rightarrow> Some (Some (NotInstalled e)) | None \<Rightarrow> remove_found R))"

definition install_service ::
    "string option \<Rightarrow> string option \<Rightarrow> string option \<Rightarrow> bool \<Rightarrow> removal \<Rightarrow> int \<Rightarrow> (string scm_call \<times> int) list
     \<Rightarrow> svc_err option option" where
  "install_service exe abs_err manager found R start creates =
     (case exe of
        Some e \<Rightarrow> Some (Some (LocateExe e))
      | None \<Rightarrow> (case abs_err of
        Some e \<Rightarrow> Some (Some (ResolveExe e))
      | None \<Rightarrow> (case manager of
        Some e \<Rightarrow> Some (Some (OpenManager e))
      | None \<Rightarrow> (case delete_service_if_present found R of
        None \<Rightarrow> None
      | Some (Some e) \<Rightarrow> Some (Some e)
      | Some None \<Rightarrow> create_with_retry start creates))))"

section \<open>Lemmas\<close>

lemma service_state_simps [simp]:
  "sv_phase (report r s) = sv_phase s" "sv_daemon (report r s) = sv_daemon s" "sv_ready (report r s) = sv_ready s"
  "sv_cancelled (report r s) = sv_cancelled s" "sv_reports (report r s) = sv_reports s @ [r]"
  "sv_phase (log_event l s) = sv_phase s" "sv_daemon (log_event l s) = sv_daemon s" "sv_ready (log_event l s) = sv_ready s"
  "sv_cancelled (log_event l s) = sv_cancelled s" "sv_reports (log_event l s) = sv_reports s"
  "sv_phase (log_error f e s) = sv_phase s" "sv_daemon (log_error f e s) = sv_daemon s" "sv_ready (log_error f e s) = sv_ready s"
  "sv_cancelled (log_error f e s) = sv_cancelled s" "sv_reports (log_error f e s) = sv_reports s"
  by (simp_all add: report_def log_event_def log_error_def split: option.splits)

text \<open>What has been reported, in terms of the phase: \<open>k\<close> interrogations were answered while the service ran.\<close>

definition reports_shape :: "bool \<Rightarrow> nat \<Rightarrow> nat option \<Rightarrow> svc_report list" where
  "reports_shape up k w =
     StartPending # (if up then SvcRunning # replicate k CurrentStatus else [])
       @ (case w of None \<Rightarrow> [] | Some h \<Rightarrow> [StopPending h])"

fun phase_ok :: "svc_phase \<Rightarrow> svc_state \<Rightarrow> bool" where
  "phase_ok Launching s = (sv_reports s = reports_shape False 0 None \<and> \<not> sv_cancelled s)"
| "phase_ok Serving s = ((\<exists>k. sv_reports s = reports_shape True k None) \<and> sv_ready s \<and> \<not> sv_cancelled s)"
| "phase_ok Stopping s = ((\<exists>k. sv_reports s = reports_shape True k (Some 30000)) \<and> sv_ready s \<and> sv_cancelled s)"
| "phase_ok (Returned b c) s =
     ((\<exists>e. sv_daemon s = DaemonDone e \<and> Returned b c = (if sv_cancelled s then Returned False 0 else exit_code e))
      \<and> (\<exists>up k. sv_reports s = reports_shape up k (Some (if sv_cancelled s then 30000 else 0)) \<and> (\<not> up \<or> sv_ready s)
           \<and> (\<not> sv_cancelled s \<or> up)))"

lemma shape_more:
  "reports_shape False 0 None @ [SvcRunning] = reports_shape True 0 None"
  "reports_shape True k None @ [CurrentStatus] = reports_shape True (Suc k) None"
  "reports_shape up k None @ [StopPending w] = reports_shape up k (Some w)"
  by (simp_all add: reports_shape_def replicate_append_same)

lemma phase_ok_step:
  assumes "phase_ok (sv_phase s) s" and "svc_step s s'"
  shows "phase_ok (sv_phase s') s'"
  using assms(2)
proof cases
  case ready
  with assms(1) show ?thesis by (cases "sv_phase s") auto
next
  case (ends e)
  with assms(1) show ?thesis by (cases "sv_phase s") auto
next
  case launched
  with assms(1) show ?thesis by (auto simp: shape_more intro: exI [of _ 0])
next
  case (doomed e)
  with assms(1) show ?thesis
    by (cases e) (auto simp: launch_failed_def exit_code_def shape_more intro: exI [of _ False])
next
  case (died e)
  with assms(1) obtain k where "sv_reports s = reports_shape True k None" by auto
  with died assms(1) show ?thesis
    by (cases e) (auto simp: daemon_ended_def exit_code_def Let_def shape_more intro!: exI [of _ True] exI [of _ k])
next
  case (request r)
  with assms(1) obtain k where "sv_reports s = reports_shape True k None" by auto
  with request assms(1) show ?thesis by (cases r) (auto simp: on_request_def shape_more)
next
  case (down e)
  with assms(1) show ?thesis by (auto simp: stopped_def)
qed

lemma phase_ok_reach: "svc_step\<^sup>*\<^sup>* (svc_start elog) s \<Longrightarrow> phase_ok (sv_phase s) s"
proof (induction rule: rtranclp_induct)
  case base
  then show ?case by (simp add: svc_start_def reports_shape_def)
next
  case (step s t)
  then show ?case by (blast intro: phase_ok_step)
qed

section \<open>Properties\<close>

text \<open>(C18) The service tells the SCM the truth: under any interleaving of the daemon, its end and the requests, it
  reports that it starts, then, only when the control endpoint accepts, that it runs, answers interrogations, and
  once that it stops; it returns only when the daemon has torn everything down, and with an error code just
  when the daemon failed without having been asked to stop.\<close>

theorem service_truthful:
  assumes "svc_step\<^sup>*\<^sup>* (svc_start elog) s"
  shows "(\<exists>up k w. sv_reports s = reports_shape up k w \<and> (\<not> up \<or> sv_ready s)
      \<and> (w = None \<longleftrightarrow> sv_phase s = Launching \<or> sv_phase s = Serving))
    \<and> (case sv_phase s of Returned b c \<Rightarrow> \<exists>e. sv_daemon s = DaemonDone e \<and> c = (if b then 1 else 0)
          \<and> (b \<longleftrightarrow> e \<noteq> None \<and> \<not> sv_cancelled s) | _ \<Rightarrow> True)"
  using phase_ok_reach [OF assms]
proof (cases "sv_phase s")
  case (Returned b c)
  with phase_ok_reach [OF assms] obtain e where e: "sv_daemon s = DaemonDone e"
    "Returned b c = (if sv_cancelled s then Returned False 0 else exit_code e)" by auto
  from Returned phase_ok_reach [OF assms] have "\<exists>up k w. sv_reports s = reports_shape up k w \<and> (\<not> up \<or> sv_ready s)
      \<and> (w = None \<longleftrightarrow> sv_phase s = Launching \<or> sv_phase s = Serving)" by fastforce
  with e Returned show ?thesis by (auto simp: exit_code_def split: if_splits)
qed (fastforce)+

theorem service_truthful_witness:
  "\<exists>s. svc_step\<^sup>*\<^sup>* (svc_start True) s \<and> sv_phase s = Returned False 0 \<and> sv_cancelled s
    \<and> sv_reports s = [StartPending, SvcRunning, StopPending 30000]
    \<and> (\<exists>e. sv_daemon s = DaemonDone e)"
proof -
  define s0 where "s0 = svc_start True"
  define s1 where "s1 = s0\<lparr>sv_ready := True\<rparr>"
  define s2 where "s2 = (log_event LogStarted (report SvcRunning s1))\<lparr>sv_phase := Serving\<rparr>"
  define s3 where "s3 = on_request Stop s2"
  define s4 where "s4 = s3\<lparr>sv_daemon := DaemonDone (Some ''closed'')\<rparr>"
  define s5 where "s5 = stopped (Some ''closed'') s4"
  note defs = s0_def s1_def s2_def s3_def s4_def s5_def svc_start_def on_request_def stopped_def
  have e1: "svc_step s0 s1" unfolding s1_def by (rule ready) (simp add: defs)
  have e2: "svc_step s1 s2" unfolding s2_def by (rule launched) (simp_all add: defs)
  have e3: "svc_step s2 s3" unfolding s3_def by (rule request) (simp add: defs)
  have e4: "svc_step s3 s4" unfolding s4_def by (rule ends) (simp add: defs)
  have e5: "svc_step s4 s5" unfolding s5_def by (rule down) (simp_all add: defs)
  note c = converse_rtranclp_into_rtranclp [of svc_step]
  have "svc_step\<^sup>*\<^sup>* s0 s5"
    by (rule c, rule e1, rule c, rule e2, rule c, rule e3, rule c, rule e4, rule c, rule e5, rule rtranclp.rtrancl_refl)
  then have r: "svc_step\<^sup>*\<^sup>* (svc_start True) s5" unfolding s0_def .
  have p: "sv_phase s5 = Returned False 0" "sv_cancelled s5" "sv_reports s5 = [StartPending, SvcRunning, StopPending 30000]"
    by (simp_all add: defs)
  from service_truthful [OF r] p(1) have "\<exists>e. sv_daemon s5 = DaemonDone e" by auto
  with r p show ?thesis by blast
qed

text \<open>(C37) Installing ends: whatever the SCM answers, with attempts that take at least the time slept between them,
  the stop, the wait for the old service to go and the retries of the creation come to an answer after at
  most 52, 68 and 68 attempts; and success means that the last creation was accepted and the old service was
  gone before.\<close>

theorem install_ends:
  assumes "paced (rm_stop_start R) service_poll (rm_stop R)" "length (rm_stop R) \<ge> 52"
    and "paced (rm_gone_start R) service_poll (rm_gone R)" "length (rm_gone R) \<ge> 68"
    and "paced start service_poll creates" "length creates \<ge> 68"
  shows "\<exists>r. install_service exe ab manager found R start creates = Some r
    \<and> (r \<noteq> None \<or> ((\<exists>p \<in> set creates. fst p = ScmOk) \<and> (\<not> found \<or> (\<exists>p \<in> set (rm_gone R). \<not> fst p))))"
proof -
  have stop: "poll_loop stop_decide (\<lambda>now. now > rm_stop_start R + service_stop_timeout) (\<lambda>a. Some StopTimeout) (rm_stop R) \<noteq> None"
    by (rule poll_loop_ends [OF assms(1), of 51])
      (use assms(2) in \<open>simp_all add: service_stop_timeout_def service_poll_def\<close>)
  have gone: "wait_service_gone (rm_gone_start R) (rm_gone R) \<noteq> None" unfolding wait_service_gone_def
    by (rule poll_loop_ends [OF assms(3), of 67])
      (use assms(4) in \<open>simp_all add: service_gone_timeout_def service_poll_def\<close>)
  have create: "create_with_retry start creates \<noteq> None" unfolding create_with_retry_def
    by (rule poll_loop_ends [OF assms(5), of 67])
      (use assms(6) in \<open>simp_all add: service_gone_timeout_def service_poll_def\<close>)
  have g: "\<exists>p \<in> set (rm_gone R). \<not> fst p" if "wait_service_gone (rm_gone_start R) (rm_gone R) = Some None"
    using poll_loop_result [OF that [unfolded wait_service_gone_def]] by (force split: if_splits)
  have ok: "create_decide x = Some None \<longleftrightarrow> x = ScmOk" "create_error x = None \<longleftrightarrow> x = ScmOk" for x by (cases x; simp)+
  have c: "\<exists>p \<in> set creates. fst p = ScmOk" if "create_with_retry start creates = Some None"
    using poll_loop_result [OF that [unfolded create_with_retry_def]] ok by (metis (no_types))
  have s: "stop_and_wait (rm_control R) (rm_stop_start R) (rm_stop R) \<noteq> None"
    using stop by (simp add: stop_and_wait_def)
  then have rf: "remove_found R \<noteq> None" using gone by (auto simp: remove_found_def split: option.splits)
  moreover have rg: "\<exists>p \<in> set (rm_gone R). \<not> fst p" if "remove_found R = Some None"
    using that g by (auto simp: remove_found_def split: option.splits)
  moreover obtain x where "create_with_retry start creates = Some x" using create by blast
  ultimately show ?thesis using c
    by (cases x) (auto simp: install_service_def delete_service_if_present_def split: option.splits)
qed

definition sample_removal :: removal where
  "sample_removal = \<lparr>rm_control = None, rm_stop_start = 0, rm_stop = map (\<lambda>i. (Inr SvcStopped, int i * service_poll)) [0..<52],
     rm_delete = ScmOk, rm_gone_start = 0, rm_gone = map (\<lambda>i. (i < 3, int i * service_poll)) [0..<68]\<rparr>"

theorem install_ends_witness:
  "install_service None None None True sample_removal 0 (map (\<lambda>i. (MarkedForDelete ''1072'', int i * service_poll)) [0..<68])
    \<noteq> None"
proof -
  let ?cs = "map (\<lambda>i. (MarkedForDelete ''1072'', int i * service_poll)) [0..<68]"
  have "paced 0 service_poll (rm_stop sample_removal)" "paced 0 service_poll (rm_gone sample_removal)"
      "paced 0 service_poll ?cs" by (simp_all add: paced_def sample_removal_def)
  then show ?thesis using install_ends [where R = sample_removal and creates = ?cs and start = 0 and found = True and exe = None
      and ab = None and manager = None] by (auto simp: sample_removal_def)
qed

end
