(* ===== verification/Daemon.thy ===== *)
theory Daemon
  imports Listener Control DnsLinux
begin

text \<open>
  The helper daemon as a program (\<open>src/cmd/vpn-helper/main.go\<close>): the flags it reads, and \<open>runDaemon\<close>, which puts
  together what the other theories model: the resolver is healed, the control socket is opened, connections are
  served by the controller, and in the end the tunnel is torn down and the socket removed. The daemon is that of
  Unix; on Windows \<open>Service\<close> runs it.
\<close>

section \<open>Flags\<close>

datatype flag_err =
    BadSocketMode string
  | BadId string string
  | WindowsOnly string

definition is_octal :: "char \<Rightarrow> bool" where
  "is_octal c \<longleftrightarrow> 48 \<le> code c \<and> code c \<le> 55"

definition octal_of_str :: "string \<Rightarrow> nat option" where
  "octal_of_str s =
     (if s = [] \<or> \<not> list_all is_octal s then None else Some (foldl (\<lambda>a c. 8 * a + digit_val c) 0 s))"

text \<open>\<open>ParseUint\<close> with 32 bits: digits of the base and a value that fits.\<close>

definition fits32 :: "nat option \<Rightarrow> nat option" where
  "fits32 v = (case v of None \<Rightarrow> None | Some n \<Rightarrow> (if n < 2 ^ 32 then Some n else None))"

definition parse_mode :: "string \<Rightarrow> flag_err + file_mode" where
  "parse_mode s =
     (case fits32 (octal_of_str (trim_space s)) of None \<Rightarrow> Inl (BadSocketMode s) | Some n \<Rightarrow> Inr (word_of_nat n))"

fun parse_id_parts :: "string list \<Rightarrow> string + nat list" where
  "parse_id_parts [] = Inr []"
| "parse_id_parts (p # ps) =
     (let p = trim_space p in
      if p = [] then parse_id_parts ps
      else case fits32 (nat_of_str p) of
        None \<Rightarrow> Inl p
      | Some n \<Rightarrow> (case parse_id_parts ps of Inl e \<Rightarrow> Inl e | Inr ns \<Rightarrow> Inr (n # ns)))"

definition parse_ids :: "string \<Rightarrow> string + nat list" where
  "parse_ids s = (let s = trim_space s in if s = [] then Inr [] else parse_id_parts (split_char CHR '','' s))"

record helper_flags =
  hf_socket :: string
  hf_mode :: string
  hf_allow_uid :: string
  hf_allow_gid :: string
  hf_log_level :: string
  hf_install :: bool
  hf_uninstall :: bool

definition helper_control_path :: string where
  "helper_control_path = ''/var/run/vpn-io-helper.sock''"

text \<open>What \<open>main\<close> does: on Unix the service flags are errors.\<close>

datatype helper_action =
    RemoveService
  | InstallService "string list"
  | RunDaemon string file_mode policy

definition helper_main :: "string \<Rightarrow> helper_flags \<Rightarrow> flag_err + helper_action" where
  "helper_main default_path f =
     (if hf_uninstall f then Inr RemoveService
      else if hf_install f then
        Inr (InstallService ([''-log-level'', hf_log_level f]
          @ (if hf_socket f \<noteq> default_path then [''-socket'', hf_socket f] else [])))
      else case parse_mode (hf_mode f) of
        Inl e \<Rightarrow> Inl e
      | Inr m \<Rightarrow>
     (case parse_ids (hf_allow_uid f) of
        Inl e \<Rightarrow> Inl (BadId ''-allow-uid'' e)
      | Inr uids \<Rightarrow>
     (case parse_ids (hf_allow_gid f) of
        Inl e \<Rightarrow> Inl (BadId ''-allow-gid'' e)
      | Inr gids \<Rightarrow> Inr (RunDaemon (hf_socket f) m \<lparr>allow_uid = uids, allow_gid = gids\<rparr>))))"

definition unix_service :: "helper_action \<Rightarrow> flag_err option" where
  "unix_service a =
     (case a of RemoveService \<Rightarrow> Some (WindowsOnly ''-uninstall'') | InstallService args \<Rightarrow> Some (WindowsOnly ''-install'')
      | RunDaemon p m pol \<Rightarrow> None)"

section \<open>Serving\<close>

text \<open>What happens while the daemon serves: a connection comes, with what the client will send and its credentials, or an error of
  \<open>Accept\<close>, with whether the context is cancelled by then or while the loop waits; or the session of the controller does
  something, to the host (it routes, filters, rewrites the resolver) and to the controller (its callbacks). Connections are
  handled in goroutines, each under the mutex of the controller; they are listed in the order in which they get it. \<open>'h\<close> is the
  host, \<open>'s\<close> the controller.\<close>

datatype ('h, 's) arrival =
    Arrives reader "string + nat \<times> nat"
  | Fails bool bool
  | Works "'h \<Rightarrow> 's \<Rightarrow> 'h \<times> 's"

fun admitted :: "policy \<Rightarrow> ('h, 's) arrival \<Rightarrow> bool" where
  "admitted pol (Arrives r (Inr cred)) = policy_allow pol (fst cred) (snd cred)"
| "admitted pol (Arrives r (Inl e)) = False"
| "admitted pol (Fails c w) = True"
| "admitted pol (Works f) = True"

fun serve_conns ::
    "policy \<Rightarrow> ipc_texts \<Rightarrow> 's ipc_handler \<Rightarrow> ('h, 's) arrival list \<Rightarrow> nat \<Rightarrow> int \<Rightarrow> 'h \<Rightarrow> 's \<Rightarrow> serve_exit \<times> 'h \<times> 's" where
  "serve_conns pol T H [] fails delay h s = (Serving, h, s)"
| "serve_conns pol T H (Arrives r cred # xs) fails delay h s =
     (if admitted pol (Arrives r cred :: ('h, 's) arrival)
      then serve_conns pol T H xs 0 0 h (snd (ipc_handle T H True r s))
      else serve_conns pol T H xs fails delay h s)"
| "serve_conns pol T H (Fails c w # xs) fails delay h s =
     (if c then (ServeClean, h, s)
      else if fails + 1 \<ge> max_accept_failures then (ServeGaveUp (fails + 1), h, s)
      else if w then (ServeClean, h, s)
      else serve_conns pol T H xs (fails + 1) (next_accept_delay delay) h s)"
| "serve_conns pol T H (Works f # xs) fails delay h s =
     (case f h s of (h1, s1) \<Rightarrow> serve_conns pol T H xs fails delay h1 s1)"

section \<open>The daemon\<close>

record ('h, 's) daemon =
  dm_host :: 'h
  dm_nodes :: path_nodes
  dm_ctl :: 's

datatype daemon_err =
    ListenErr listen_err
  | AcceptFailed nat

text \<open>What the daemon does in sight: \<open>Ready\<close> is the call of \<open>ready\<close>, with the host as it is at that moment.\<close>

datatype 'h daemon_event =
    Reconciled "string option"
  | Ready 'h
  | TornDown "string option"

text \<open>The error with which it returns, if it returns, the events, and the state. A clean end has closed the
  listener, which unlinks the socket; \<open>rm\<close> is the error of the final \<open>os.Remove\<close>, which is ignored; \<open>wind\<close> is what
  the session does to the host while \<open>Disconnect\<close> waits for it.\<close>

definition run_daemon ::
    "('h \<Rightarrow> string option \<times> 'h) \<Rightarrow> sock_sys \<Rightarrow> string \<Rightarrow> file_mode \<Rightarrow> policy \<Rightarrow> ipc_texts \<Rightarrow> 's ipc_handler
     \<Rightarrow> ('s \<Rightarrow> 'h \<Rightarrow> 'h) \<Rightarrow> string option \<Rightarrow> ('h, 's) arrival list \<Rightarrow> ('h, 's) daemon
     \<Rightarrow> daemon_err option option \<times> 'h daemon_event list \<times> ('h, 's) daemon" where
  "run_daemon reconcile sys path m pol T H wind rm xs d =
     (case reconcile (dm_host d) of
        (e, h) \<Rightarrow>
     (case listen_unix sys path m (dm_nodes d) of
        (Some err, ns) \<Rightarrow> (Some (Some (ListenErr err)), [Reconciled e], d\<lparr>dm_host := h, dm_nodes := ns\<rparr>)
      | (None, ns) \<Rightarrow>
     (case serve_conns pol T H xs 0 0 h (dm_ctl d) of
        (Serving, h1, s) \<Rightarrow> (None, [Reconciled e, Ready h], \<lparr>dm_host = h1, dm_nodes = ns, dm_ctl = s\<rparr>)
      | (x, h1, s) \<Rightarrow>
          (case h_disconnect H s of
             (de, s1) \<Rightarrow>
               (Some (case x of ServeGaveUp n \<Rightarrow> Some (AcceptFailed n) | _ \<Rightarrow> None), [Reconciled e, Ready h, TornDown de],
                \<lparr>dm_host = wind s h1, dm_nodes = (if x = ServeClean \<or> rm = None then ns(path := None) else ns), dm_ctl = s1\<rparr>)))))"

section \<open>Lemmas\<close>

lemma split_join_char: "ps \<noteq> [] \<Longrightarrow> \<forall>p \<in> set ps. d \<notin> set p \<Longrightarrow> split_char d (join [d] ps) = ps"
  by (induction "[d]" ps rule: join.induct) (auto simp: split_char_single split_char_append)

lemma digit_clear: "is_digit c \<Longrightarrow> \<not> is_space c \<and> c \<noteq> CHR '',''"
  by (auto simp: is_digit_def is_space_def)

lemma trim_clear: "\<forall>c \<in> set s. \<not> is_space c \<Longrightarrow> trim_space s = s"
  by (intro trim_space_plain) auto

lemma nat_str_clear: "c \<in> set (nat_str n) \<Longrightarrow> \<not> is_space c \<and> c \<noteq> CHR '',''"
  using nat_str_digits [of n] digit_clear by (auto simp: list_all_iff)

lemma join_clear: "\<forall>p \<in> set ps. \<forall>c \<in> set p. \<not> is_space c \<Longrightarrow> c \<in> set (join '','' ps) \<Longrightarrow> \<not> is_space c"
  by (induction "'',''" ps rule: join.induct) (auto simp: is_space_def)

lemma nat_str_parsed: "n < 2 ^ 32 \<Longrightarrow> fits32 (nat_of_str (nat_str n)) = Some n"
  using nat_str_digits [of n] by (simp add: fits32_def nat_of_str_def)

lemma parse_id_parts_nats: "list_all (\<lambda>n. n < 2 ^ 32) ns \<Longrightarrow> parse_id_parts (map nat_str ns) = Inr ns"
proof (induction ns)
  case (Cons n ns)
  have "trim_space (nat_str n) = nat_str n"
    using nat_str_clear by (intro trim_clear) blast
  with Cons nat_str_parsed [of n] show ?case by (simp add: Let_def)
qed simp

lemma parse_id_parts_bounded: "parse_id_parts ps = Inr ns \<Longrightarrow> list_all (\<lambda>n. n < 2 ^ 32) ns"
  by (induction ps arbitrary: ns)
    (auto simp: Let_def fits32_def split: if_splits option.splits sum.splits)

lemma serve_conns_filter:
  "serve_conns pol T H xs f d h s = serve_conns pol T H (filter (admitted pol) xs) f d h s"
  by (induction pol T H xs f d h s rule: serve_conns.induct) (auto split: prod.splits)

lemma parse_ids_nats:
  assumes "list_all (\<lambda>n. n < 2 ^ 32) ns"
  shows "parse_ids (join '','' (map nat_str ns)) = Inr ns"
proof (cases "ns = []")
  case False
  let ?s = "join '','' (map nat_str ns)"
  have "\<forall>c \<in> set ?s. \<not> is_space c" using join_clear [of "map nat_str ns"] nat_str_clear by auto
  then have "trim_space ?s = ?s" by (rule trim_clear)
  moreover have "?s \<noteq> []" using False by (cases ns; cases "tl ns") auto
  moreover have "split_char CHR '','' ?s = map nat_str ns"
    using split_join_char [of "map nat_str ns" "CHR '',''"] False nat_str_clear by auto
  ultimately show ?thesis using parse_id_parts_nats [OF assms] by (simp add: parse_ids_def Let_def)
qed (simp add: parse_ids_def trim_space_def)

lemma parse_ids_bounded: "parse_ids s = Inr ns \<Longrightarrow> list_all (\<lambda>n. n < 2 ^ 32) ns"
  by (auto simp: parse_ids_def Let_def split: if_splits dest: parse_id_parts_bounded)

text \<open>Either the daemon cannot listen and ends on the host the recovery left, or that host is the one it is ready on.\<close>

lemma run_daemon_cases:
  assumes "run_daemon rc sys path m pol T H wind rm xs d = (x, evs, d')"
  obtains (unbound) e where "evs = [Reconciled (fst (rc (dm_host d)))]" "dm_host d' = snd (rc (dm_host d))"
      "x = Some (Some (ListenErr e))"
    | (bound) rest where "evs = [Reconciled (fst (rc (dm_host d))), Ready (snd (rc (dm_host d)))] @ rest"
      "rest = [] \<and> x = None \<or> (\<exists>de s. rest = [TornDown de] \<and> x \<noteq> None \<and> (de, dm_ctl d') = h_disconnect H s)"
  using assms
  by (auto simp: run_daemon_def Let_def split: prod.splits option.splits serve_exit.splits) (metis+)

section \<open>Properties\<close>

text \<open>The allow-lists are read exactly: a list of ids written with commas is read back as that list just when
  every id fits into 32 bits; one that does not is an error, never another user's id.\<close>

theorem allow_list_exact:
  "parse_ids (join '','' (map nat_str ns)) = Inr ns \<longleftrightarrow> list_all (\<lambda>n. n < 2 ^ 32) ns"
  using parse_ids_nats parse_ids_bounded by blast

text \<open>Nobody the policy does not name has any effect on the daemon: with the connections it does not admit taken
  out of everything that arrives, the daemon does the same, has the same state and ends the same way.\<close>

theorem strangers_have_no_effect:
  "run_daemon rc sys path m pol T H wind rm xs d
    = run_daemon rc sys path m pol T H wind rm (filter (admitted pol) xs) d"
  unfolding run_daemon_def by (subst serve_conns_filter) (rule refl)

text \<open>(C17) A crash of the helper heals at its next start: when a session had rewritten \<open>resolv.conf\<close> and the process
  died, in the midst of it or later, with the snapshot on disk (or the rewrite had failed) and no snapshot of an earlier
  crash there before, and the file calls of the recovery succeed, then the next run of the daemon has the resolver as it was, and
  no snapshot, when it becomes ready to serve, or when it ends because it cannot listen. This is before anything that
  connects or any session can change it again. And when a run that was ready has returned, the session
  its controller had is cancelled.\<close>

theorem next_start_heals:
  assumes "apply_resolv_conf io ss new_linux_runner w = (e, r, w')"
    and "dw_fs w resolv_conf_path \<noteq> Some (Link [])" and "dw_fs w backup_resolv_conf_path = None"
    and "e \<noteq> None \<or> dw_fs w' backup_resolv_conf_path \<noteq> None"
    and "dm_host d = w'"
    and "run_daemon (linux_clear resolv_fine) sys path m pol T (daemon_handler load open_tun et now) wind rm xs d = (x, evs, d')"
  shows "\<exists>h. dw_fs h resolv_conf_path = dw_fs w resolv_conf_path \<and> dw_fs h backup_resolv_conf_path = None
    \<and> (evs = [Reconciled None] \<and> dm_host d' = h \<and> (\<exists>err. x = Some (Some (ListenErr err)))
      \<or> (\<exists>rest. evs = [Reconciled None, Ready h] @ rest
          \<and> (x = None \<or> (\<forall>n. ct_cancel (dm_ctl d') = Some n \<longrightarrow> n \<in> ct_cancelled (dm_ctl d')))))"
proof -
  from crash_recovered [OF assms(1-4)] obtain w'' where w: "linux_clear resolv_fine w' = (None, w'')"
    "dw_fs w'' resolv_conf_path = dw_fs w resolv_conf_path" "dw_fs w'' backup_resolv_conf_path = None" by blast
  from assms(6) show ?thesis
  proof (cases rule: run_daemon_cases)
    case (unbound err)
    show ?thesis
      by (rule exI [of _ w'']) (use unbound w assms(5) in simp)
  next
    case (bound rest)
    have "n \<in> ct_cancelled (dm_ctl d')" if "x \<noteq> None" "ct_cancel (dm_ctl d') = Some n" for n
    proof -
      from bound(2) that(1) obtain de s where "(de, dm_ctl d') = h_disconnect (daemon_handler load open_tun et now) s" by blast
      then have "dm_ctl d' = snd (helper_disconnect s)" unfolding daemon_handler_def by (simp only: ipc_handler.select_convs) (metis snd_conv)
      with that(2) show ?thesis by (auto simp: helper_disconnect_def split: option.splits)
    qed
    then have ended: "x = None \<or> (\<forall>n. ct_cancel (dm_ctl d') = Some n \<longrightarrow> n \<in> ct_cancelled (dm_ctl d'))" by blast
    show ?thesis
      by (rule exI [of _ w'']) (use bound(1) w assms(5) ended in simp)
  qed
qed

text \<open>The witness: once ready, the next session rewrites the file again.\<close>

definition second_rewrite :: "(dns_world, controller) arrival" where
  "second_rewrite = Works (\<lambda>h s. (snd (snd (apply_resolv_conf resolv_fine [''10.8.0.2''] new_linux_runner h)), s))"

theorem next_start_heals_witness:
  "\<exists>w' evs d' h. run_daemon (linux_clear resolv_fine) sample_sock ''/run/v.sock'' 0x1B0 \<lparr>allow_uid = [], allow_gid = []\<rparr>
      sample_texts (daemon_handler load_ok open_ok (\<lambda>e. ''failed'') 5) (\<lambda>s h. h) None [second_rewrite]
      \<lparr>dm_host = w', dm_nodes = Map.empty, dm_ctl = new_controller\<rparr> = (None, evs, d')
    \<and> dw_fs w' resolv_conf_path = Some (Regular (build_resolv_conf [''10.8.0.1'']))
    \<and> evs = [Reconciled None, Ready h] \<and> dw_fs h resolv_conf_path = Some (Link ''../run/stub'')"
proof -
  obtain e r w' where a: "apply_resolv_conf resolv_fine [''10.8.0.1''] new_linux_runner link_world = (e, r, w')"
    using prod_cases3 by blast
  have f: "e = None" "dw_fs w' resolv_conf_path = Some (Regular (build_resolv_conf [''10.8.0.1'']))"
    "dw_fs w' backup_resolv_conf_path \<noteq> None"
    using a by (auto simp: apply_resolv_conf_def snapshot_resolv_conf_def link_world_def new_linux_runner_def resolv_fine_def
        write_resolv_backup_def write_atomic_def rename_over_def remove_path_def Let_def split: if_splits)
  let ?d = "\<lparr>dm_host = w', dm_nodes = Map.empty, dm_ctl = new_controller\<rparr>"
  let ?run = "run_daemon (linux_clear resolv_fine) sample_sock ''/run/v.sock'' 0x1B0 \<lparr>allow_uid = [], allow_gid = []\<rparr>
      sample_texts (daemon_handler load_ok open_ok (\<lambda>e. ''failed'') 5) (\<lambda>s h. h) None [second_rewrite] ?d"
  obtain x evs d' where run: "?run = (x, evs, d')" by (metis prod_cases3)
  have "check_socket_dir_attrs 0 p 0 1 0x1FD = None" for p
    by (simp add: check_socket_dir_attrs_def has_bits_def mode_sticky_def root_only_group_def)
  then have "fst (listen_unix sample_sock ''/run/v.sock'' 0x1B0 Map.empty) = None"
    by (simp add: listen_unix_def sample_sock_def Let_def)
  with run have e: "x = None" "\<exists>y z. evs = [y, z]"
    by (auto simp: run_daemon_def second_rewrite_def split: prod.splits option.splits)
  from next_start_heals [OF a _ _ _ _ run] f obtain h where
    h: "dw_fs h resolv_conf_path = dw_fs link_world resolv_conf_path"
    and evs: "evs = [Reconciled None] \<or> (\<exists>rest. evs = [Reconciled None, Ready h] @ rest)"
    by (auto simp: link_world_def)
  from e evs have "evs = [Reconciled None, Ready h]" by auto
  moreover have "dw_fs h resolv_conf_path = Some (Link ''../run/stub'')" using h by (simp add: link_world_def)
  ultimately show ?thesis using e(1) run f(2) by blast
qed

end
