(* ===== verification/Programs.thy ===== *)
theory Programs
  imports Control Tls Server Tun
begin

text \<open>
  The command-line programs around the packages: \<open>vpn-ctl\<close> (\<open>src/cmd/vpn-ctl/main.go\<close>), the front-end without a
  window, \<open>vpn-client\<close> (\<open>src/cmd/vpn-client/main.go\<close>) and \<open>vpn-server\<close> (\<open>src/cmd/vpn-server/main.go\<close>), each as a function of its
  parsed flags and of what the parts it starts answer. An outcome is the exit status with what is printed.
\<close>

section \<open>vpn-ctl\<close>

record ctl_flags =
  cf_ca :: string
  cf_cert :: string
  cf_key :: string
  cf_server :: string
  cf_server_name :: string
  cf_mtu :: int
  cf_tun_name :: string

datatype ctl_err =
    FlagsRequired
  | MtuNegative
  | CtlCredentials profile_err
  | CtlTransport ipc_do_err
  | ConnectRejected string
  | DisconnectFailed string
  | StatusFailed string
  | StatusGarbled

text \<open>A usage error exits with 2, any other with 1.\<close>

fun ctl_exit :: "ctl_err option \<Rightarrow> int" where
  "ctl_exit None = 0"
| "ctl_exit (Some FlagsRequired) = 2"
| "ctl_exit (Some MtuNegative) = 2"
| "ctl_exit (Some e) = 1"

definition ctl_payload :: "ctl_flags \<Rightarrow> profile \<Rightarrow> connect_request" where
  "ctl_payload f p =
     \<lparr>cr_server = pf_server p, cr_server_name = pf_server_name p, cr_endpoints = [], cr_preferred = [],
      cr_ca = pf_ca p, cr_cert = pf_cert p, cr_key = pf_key p, cr_mtu = cf_mtu f, cr_tun_name = cf_tun_name f\<rparr>"

definition ctl_files :: "ctl_flags \<Rightarrow> profile_files" where
  "ctl_files f =
     \<lparr>ff_ca = cf_ca f, ff_cert = cf_cert f, ff_key = cf_key f, ff_server = cf_server f,
      ff_server_name = cf_server_name f\<rparr>"

definition ctl_connect ::
    "(string \<Rightarrow> string + string) \<Rightarrow> 'p x509_lib \<Rightarrow> int \<Rightarrow> string option \<Rightarrow> 's peer \<Rightarrow> ctl_flags \<Rightarrow> 's
     \<Rightarrow> (ctl_err + connected_as) \<times> 's" where
  "ctl_connect read L now dial peer f s =
     (if cf_ca f = [] \<or> cf_cert f = [] \<or> cf_key f = [] \<or> cf_server f = [] then (Inl FlagsRequired, s)
      else if cf_mtu f < 0 then (Inl MtuNegative, s)
      else case load_files read L now (ctl_files f) of
        Inl e \<Rightarrow> (Inl (CtlCredentials e), s)
      | Inr p \<Rightarrow>
          (case ipc_do dial peer \<lparr>rq_command = cmd_connect,
                  rq_payload = Some (connect_request_json (ctl_payload f p)), rq_version = 0\<rparr> s of
             (Inl e, s1) \<Rightarrow> (Inl (CtlTransport e), s1)
           | (Inr resp, s1) \<Rightarrow>
               (if \<not> rs_ok resp then (Inl (ConnectRejected (rs_error resp)), s1)
                else (Inr \<lparr>co_common_name = pf_cn p, co_not_after = pf_not_after p\<rparr>, s1))))"

definition ctl_disconnect :: "string option \<Rightarrow> 's peer \<Rightarrow> 's \<Rightarrow> ctl_err option \<times> 's" where
  "ctl_disconnect dial peer s =
     (case ipc_do dial peer \<lparr>rq_command = cmd_disconnect, rq_payload = None, rq_version = 0\<rparr> s of
        (Inl e, s1) \<Rightarrow> (Some (CtlTransport e), s1)
      | (Inr resp, s1) \<Rightarrow> (if \<not> rs_ok resp then Some (DisconnectFailed (rs_error resp)) else None, s1))"

text \<open>The lines of a status; \<open>fmt\<close> is \<open>Format(time.RFC3339)\<close> of a Unix time.\<close>

definition status_lines :: "(int \<Rightarrow> string) \<Rightarrow> status_response \<Rightarrow> string list" where
  "status_lines fmt st =
     [''state:  '' @ st_state st]
     @ (if st_server st \<noteq> [] then [''server: '' @ st_server st] else [])
     @ (if st_since st \<noteq> 0 then [''since:  '' @ fmt (st_since st)] else [])
     @ (if st_last_error st \<noteq> [] then [''error:  '' @ st_last_error st] else [])"

definition ctl_status ::
    "(int \<Rightarrow> string) \<Rightarrow> string option \<Rightarrow> 's peer \<Rightarrow> 's \<Rightarrow> (ctl_err + string list) \<times> 's" where
  "ctl_status fmt dial peer s =
     (case ipc_do dial peer \<lparr>rq_command = cmd_status, rq_payload = None, rq_version = 0\<rparr> s of
        (Inl e, s1) \<Rightarrow> (Inl (CtlTransport e), s1)
      | (Inr resp, s1) \<Rightarrow>
          (if \<not> rs_ok resp then (Inl (StatusFailed (rs_error resp)), s1)
           else case Option.bind (rs_payload resp) status_of_json of
             None \<Rightarrow> (Inl StatusGarbled, s1)
           | Some st \<Rightarrow> (Inr (status_lines fmt st), s1)))"

section \<open>vpn-client\<close>

record client_flags =
  lf_server :: string
  lf_ca :: string
  lf_cert :: string
  lf_key :: string
  lf_server_name :: string
  lf_mtu :: int
  lf_tun_name :: string
  lf_keepalive :: int
  lf_reconnect_min :: int
  lf_reconnect_max :: int
  lf_clear_fw :: bool
  lf_clear_dns :: bool
  lf_allow_leak :: bool

definition client_flags_config :: "client_flags \<Rightarrow> client_config" where
  "client_flags_config f =
     \<lparr>cc_server = lf_server f, cc_server_name = lf_server_name f, cc_endpoints = [], cc_preferred = [],
      cc_ca_file = lf_ca f, cc_cert_file = lf_cert f, cc_key_file = lf_key f, cc_ca_pem = [], cc_cert_pem = [],
      cc_key_pem = [], cc_keepalive = lf_keepalive f, cc_reconnect_min = lf_reconnect_min f,
      cc_reconnect_max = lf_reconnect_max f, cc_handshake_timeout = 0, cc_allow_insecure_leak = lf_allow_leak f\<rparr>"

datatype 'e client_outcome =
    ClearedFirewall "string option"
  | ClearedDns "string option"
  | ClientFlagsRequired
  | ClientTun string
  | ClientInit "'e client_new_err"
  | ClientRan "string option"

text \<open>The parts: clearing the firewall and the resolver, opening the device, running the engine.\<close>

definition client_main ::
    "('s \<Rightarrow> string option \<times> 's) \<Rightarrow> ('s \<Rightarrow> string option \<times> 's) \<Rightarrow> (string \<Rightarrow> int \<Rightarrow> string option)
     \<Rightarrow> (client_config \<Rightarrow> bool \<Rightarrow> 'e + 't) \<Rightarrow> (client_config \<times> 't \<times> ring \<Rightarrow> 's \<Rightarrow> string option \<times> 's)
     \<Rightarrow> client_flags \<Rightarrow> 's \<Rightarrow> 'e client_outcome \<times> 's" where
  "client_main clear_fw clear_dns open_tun load run f s =
     (if lf_clear_fw f then (case clear_fw s of (e, s1) \<Rightarrow> (ClearedFirewall e, s1))
      else if lf_clear_dns f then (case clear_dns s of (e, s1) \<Rightarrow> (ClearedDns e, s1))
      else if lf_server f = [] \<or> lf_cert f = [] \<or> lf_key f = [] then (ClientFlagsRequired, s)
      else case open_tun (lf_tun_name f) (lf_mtu f) of
        Some e \<Rightarrow> (ClientTun e, s)
      | None \<Rightarrow>
          (case client_new load (client_flags_config f) True of
             Inl e \<Rightarrow> (ClientInit e, s)
           | Inr eng \<Rightarrow> (case run eng s of (e, s1) \<Rightarrow> (ClientRan e, s1))))"

text \<open>A clearing that fails is a warning.\<close>

fun client_exit :: "'e client_outcome \<Rightarrow> int" where
  "client_exit (ClearedFirewall e) = 0"
| "client_exit (ClearedDns e) = 0"
| "client_exit ClientFlagsRequired = 2"
| "client_exit (ClientTun e) = 1"
| "client_exit (ClientInit e) = 1"
| "client_exit (ClientRan e) = (if e = None then 0 else 1)"

section \<open>vpn-server\<close>

definition split_csv :: "string \<Rightarrow> string list" where
  "split_csv s = filter (\<lambda>p. p \<noteq> []) (map trim_space (split_char CHR '','' s))"

definition forwarding_off :: "bool \<Rightarrow> string + string \<Rightarrow> bool" where
  "forwarding_off linux file \<longleftrightarrow> linux \<and> (case file of Inl e \<Rightarrow> False | Inr t \<Rightarrow> trim_space t = ''0'')"

datatype 'e server_outcome =
    ServerTun string
  | ServerConfigure string
  | ServerInit "'e server_err"
  | ServerRan "string option"

text \<open>The outcome, and whether the device was closed before the exit.\<close>

definition server_main ::
    "(string \<Rightarrow> int \<Rightarrow> string option) \<Rightarrow> (string \<Rightarrow> string \<Rightarrow> string \<Rightarrow> string option) \<Rightarrow> (server_config \<Rightarrow> 'e + 't)
     \<Rightarrow> (server_config \<times> server \<Rightarrow> string option) \<Rightarrow> server_config \<Rightarrow> string \<Rightarrow> string \<Rightarrow> string
     \<Rightarrow> 'e server_outcome \<times> bool" where
  "server_main open_tun configure load run cfg tun_name routes dns =
     (let cfg = cfg\<lparr>sc_push_routes := split_csv routes, sc_push_dns := split_csv dns\<rparr> in
      case open_tun tun_name (sc_mtu cfg) of
        Some e \<Rightarrow> (ServerTun e, False)
      | None \<Rightarrow>
     (case configure (sc_gateway cfg) (sc_netmask cfg) (sc_gateway cfg) of
        Some e \<Rightarrow> (ServerConfigure e, True)
      | None \<Rightarrow>
     (case server_new load cfg True of
        Inl e \<Rightarrow> (ServerInit e, True)
      | Inr srv \<Rightarrow> (ServerRan (run srv), False))))"

section \<open>Lemmas\<close>

text \<open>What is pushed to the clients has no empty and no padded entry, and an empty flag pushes nothing.\<close>

lemma split_csv_parts:
  assumes "p \<in> set (split_csv s)"
  shows "p \<noteq> [] \<and> trim_space p = p"
  using assms by (auto simp: split_csv_def trim_space_idem)

lemma split_csv_empty: "split_csv [] = []"
  by code_simp

text \<open>A server that ran had its device open and configured, and a device is closed exactly when a later step failed.\<close>

lemma server_main_device:
  assumes "server_main open_tun configure load run cfg tun_name routes dns = (out, shut)"
  shows "(\<exists>r. out = ServerRan r) \<longrightarrow> configure (sc_gateway cfg) (sc_netmask cfg) (sc_gateway cfg) = None"
    and "shut \<longleftrightarrow> open_tun tun_name (sc_mtu cfg) = None \<and> \<not> (\<exists>r. out = ServerRan r)"
  using assms by (auto simp: server_main_def Let_def split: option.splits sum.splits)

text \<open>Two engines that agree but for the list they were given.\<close>

definition up_to_endpoints :: "client_config \<times> 't \<times> ring \<Rightarrow> client_config \<times> 't \<times> ring" where
  "up_to_endpoints eng = (case eng of (cfg, t, r) \<Rightarrow> (cfg\<lparr>cc_endpoints := []\<rparr>, t, r))"

lemma client_new_endpoints:
  assumes "normalize_endpoints xs (cc_server cfg) (cc_server_name cfg)
      = normalize_endpoints (cc_endpoints cfg) (cc_server cfg) (cc_server_name cfg)"
    and "\<And>c inline. load (c\<lparr>cc_endpoints := xs\<rparr>) inline = load c inline"
  shows "map_sum id up_to_endpoints (client_new load (cfg\<lparr>cc_endpoints := xs\<rparr>) dev)
      = map_sum id up_to_endpoints (client_new load cfg dev)"
proof -
  have swap: "cfg\<lparr>cc_endpoints := xs, cc_server := a, cc_server_name := b, cc_reconnect_min := c, cc_reconnect_max := d,
        cc_handshake_timeout := e\<rparr>
      = cfg\<lparr>cc_server := a, cc_server_name := b, cc_reconnect_min := c, cc_reconnect_max := d,
        cc_handshake_timeout := e\<rparr>\<lparr>cc_endpoints := xs\<rparr>" for a b c d e
    by simp
  have ld: "load (cfg\<lparr>cc_endpoints := xs, cc_server := a, cc_server_name := b, cc_reconnect_min := c,
        cc_reconnect_max := d, cc_handshake_timeout := e\<rparr>) i
      = load (cfg\<lparr>cc_server := a, cc_server_name := b, cc_reconnect_min := c, cc_reconnect_max := d,
        cc_handshake_timeout := e\<rparr>) i" for a b c d e i
    unfolding swap by (rule assms(2))
  show ?thesis
  proof (cases "normalize_endpoints (cc_endpoints cfg) (cc_server cfg) (cc_server_name cfg)")
    case (Inl e)
    with assms(1) show ?thesis by (simp add: client_new_def)
  next
    case (Inr es)
    then show ?thesis
      unfolding client_new_def Let_def
      by (simp add: assms(1) ld up_to_endpoints_def if_distrib [of "map_sum id up_to_endpoints"]
          sum.case_distrib [of "map_sum id up_to_endpoints"] split del: if_split cong: if_cong sum.case_cong)
  qed
qed

lemma client_tls_endpoints: "client_tls read mk pair (c\<lparr>cc_endpoints := xs\<rparr>) inline = client_tls read mk pair c inline"
  by (simp add: client_tls_def)

lemma one_endpoint_profile:
  assumes "load_pem L now ca cert key server name = Inr p"
  shows "\<exists>e. pf_endpoints p = [e] \<and> dialable e \<and> pf_server p = pe_server e \<and> pf_server_name p = pe_server_name e
    \<and> pe_label e = []"
proof -
  note l = load_pem_endpoints_Inr [OF assms [unfolded load_pem_def]]
  from l have v: "validate_endpoints [\<lparr>pe_server = server, pe_server_name = name, pe_label = []\<rparr>] = Inr (pf_endpoints p)"
    by simp
  from validate_endpoints_sound [OF v] obtain e where "pf_endpoints p = [e]" "dialable e" "pe_label e = []"
    by (cases "pf_endpoints p") auto
  with l show ?thesis by simp
qed

lemma engine_config_ctl:
  assumes "cd_preferred cd = []"
  shows "engine_config (ctl_payload f p) = (engine_config (connect_payload cd p))\<lparr>cc_endpoints := []\<rparr>"
  using assms by (simp add: engine_config_def ctl_payload_def connect_payload_def)

lemma same_ring:
  assumes "load_pem L now ca cert key server name = Inr p"
  shows "normalize_endpoints [] (pf_server p) (pf_server_name p)
    = normalize_endpoints (cc_endpoints (engine_config (connect_payload cd p))) (pf_server p) (pf_server_name p)"
proof -
  obtain e where "pf_endpoints p = [e]" "dialable e" "pf_server p = pe_server e" "pf_server_name p = pe_server_name e"
    "pe_label e = []"
    using one_endpoint_profile [OF assms] by blast
  moreover have "pe_server e \<noteq> []"
  proof -
    have "split_host_port [] = None" by code_simp
    with \<open>dialable e\<close> show ?thesis by (auto simp: dialable_def)
  qed
  ultimately show ?thesis
    by (simp add: normalize_endpoints_def engine_config_def connect_payload_def ipc_endpoint_def engine_endpoint_def)
qed

text \<open>The two front-ends agree. For credentials with one server, the daemon asked by \<open>vpn-ctl\<close> and the daemon asked by
  the desktop application refuse for the same reason, or start engines with the same configuration, credentials and
  ring of endpoints, that is, they differ at most in the list the engine was given and no longer reads; and the
  controller is in the same state after either.\<close>

theorem front_ends_alike:
  assumes "load_pem L t ca cert key server name = Inr p"
    and "cd_preferred cd = []" "cd_mtu cd = cf_mtu f" "cd_tun_name cd = cf_tun_name f"
    and "helper_connect (client_tls read mk pair) open_tun now (ctl_payload f p) c = (r1, c1)"
    and "helper_connect (client_tls read mk pair) open_tun now (connect_payload cd p) c = (r2, c2)"
  shows "c1 = c2 \<and> map_sum id up_to_endpoints r1 = map_sum id up_to_endpoints r2"
proof -
  let ?a = "client_new (client_tls read mk pair) (engine_config (ctl_payload f p)) True"
  let ?b = "client_new (client_tls read mk pair) (engine_config (connect_payload cd p)) True"
  have "map_sum id up_to_endpoints ?a = map_sum id up_to_endpoints ?b"
    unfolding engine_config_ctl [OF assms(2)]
    by (rule client_new_endpoints)
       (use same_ring [OF assms(1)] in \<open>simp_all add: client_tls_endpoints engine_config_def connect_payload_def\<close>)
  moreover have "cr_server (ctl_payload f p) = cr_server (connect_payload cd p)" "cr_ca (ctl_payload f p) = cr_ca (connect_payload cd p)"
    "cr_cert (ctl_payload f p) = cr_cert (connect_payload cd p)" "cr_key (ctl_payload f p) = cr_key (connect_payload cd p)"
    "cr_mtu (ctl_payload f p) = cr_mtu (connect_payload cd p)" "cr_tun_name (ctl_payload f p) = cr_tun_name (connect_payload cd p)"
    using assms(3,4) by (simp_all add: ctl_payload_def connect_payload_def)
  ultimately show ?thesis
    using assms(5,6) unfolding helper_connect_def
    by (cases ?a; cases ?b) (auto simp: Let_def split: if_splits option.splits)
qed

text \<open>One controller that is free, and both requests for it.\<close>

definition sample_ctl :: ctl_flags where
  "sample_ctl =
     \<lparr>cf_ca = ''ca.crt'', cf_cert = ''bob.crt'', cf_key = ''bob.key'', cf_server = ''vpn.io:8443'',
      cf_server_name = ''vpn.io'', cf_mtu = 1380, cf_tun_name = []\<rparr>"

theorem front_ends_alike_witness:
  "\<exists>p r1 r2 c'. load_pem sample_x509 5 ''CA'' ''C'' ''K'' ''vpn.io:8443'' ''vpn.io'' = Inr p
    \<and> helper_connect (client_tls (\<lambda>f. Inl ''missing'') Some (\<lambda>c k. Inr (c, k))) open_ok 7 (ctl_payload sample_ctl p)
        new_controller = (r1, c')
    \<and> helper_connect (client_tls (\<lambda>f. Inl ''missing'') Some (\<lambda>c k. Inr (c, k))) open_ok 7
        (connect_payload (sample_credentials\<lparr>cd_preferred := [], cd_mtu := 1380, cd_tun_name := []\<rparr>) p) new_controller
        = (r2, c')
    \<and> map_sum id up_to_endpoints r1 = map_sum id up_to_endpoints r2 \<and> ct_state c' = Connecting"
proof -
  let ?T = "client_tls (\<lambda>f. Inl ''missing'') Some (\<lambda>c k. Inr (c, k))"
  let ?cd = "sample_credentials\<lparr>cd_preferred := [], cd_mtu := 1380, cd_tun_name := []\<rparr>"
  define p where "p = \<lparr>pf_server = ''vpn.io:8443'', pf_server_name = ''vpn.io'',
         pf_endpoints = [sample_addr\<lparr>pe_server_name := ''vpn.io''\<rparr>], pf_ca = ''CA'', pf_cert = ''C'',
         pf_key = ''K'', pf_cn = ''bob'', pf_not_after = 9\<rparr>"
  have v: "validate_endpoints [\<lparr>pe_server = ''vpn.io:8443'', pe_server_name = ''vpn.io'', pe_label = []\<rparr>] = Inr (pf_endpoints p)"
    by (simp add: p_def sample_addr_def) code_simp
  then have l: "load_pem sample_x509 5 ''CA'' ''C'' ''K'' ''vpn.io:8443'' ''vpn.io'' = Inr p"
    by (simp add: load_pem_def load_pem_endpoints_def sample_x509_def p_def sample_addr_def)
  obtain r1 c1 where r1: "helper_connect ?T open_ok 7 (ctl_payload sample_ctl p) new_controller = (r1, c1)" by force
  obtain r2 c2 where r2: "helper_connect ?T open_ok 7 (connect_payload ?cd p) new_controller = (r2, c2)" by force
  have same: "c1 = c2 \<and> map_sum id up_to_endpoints r1 = map_sum id up_to_endpoints r2"
    by (rule front_ends_alike [OF l _ _ _ r1 r2]) (simp_all add: sample_ctl_def)
  have "\<forall>cfg. \<exists>t. ?T cfg True = Inr t" by (simp add: client_tls_def client_tls_pem_def)
  from engine_from_profile [where load = ?T and cd = ?cd, OF l [unfolded load_pem_def] this]
  have "client_new ?T (engine_config (connect_payload ?cd p)) True \<noteq> Inl e" for e
    by auto
  then have "ct_state c2 = Connecting"
    using r2 by (auto simp: helper_connect_def connect_payload_def p_def new_controller_def open_ok_def Let_def
        set_state_def split: sum.splits)
  with l r1 r2 same show ?thesis by blast
qed

end
