(* ===== verification/ServerRun.thy ===== *)
theory ServerRun
  imports Server
begin

text \<open>
  The life of the server as a whole (\<open>Run\<close>, \<open>acceptLoop\<close> and \<open>shutdown\<close> of \<open>src/internal/tunnel/server/server.go\<close>). Next to the
  goroutines of the connections, which are those of \<open>Server\<close>, there are \<open>Run\<close> itself with the accept loop, the
  reader of the TUN device and the goroutine that waits for the context. An event is one step of one of them;
  \<open>Run\<close> returns when the wait group is empty.
\<close>

section \<open>State and events\<close>

datatype accept_error = ListenerClosed | OtherError string

datatype run_err = ListenFails string | AcceptLoop string

datatype run_place =
    Unbound
  | Accepting
  | Closing accept_error
  | Awaiting accept_error
  | Returned "run_err option"

text \<open>\<open>rn_accepted\<close>: the connections the accept loop has started a goroutine for; \<open>rn_shut\<close>: \<open>closeOne\<close> has been used. The
  context of the connections is cancelled when \<open>stopping\<close> holds of the server.\<close>

record running =
  rn_srv :: server
  rn_place :: run_place
  rn_accepted :: "nat list"
  rn_open :: bool
  rn_device :: bool
  rn_reader :: bool
  rn_watcher :: bool
  rn_shut :: bool

definition run_start :: "server \<Rightarrow> running" where
  "run_start s =
     \<lparr>rn_srv = s, rn_place = Unbound, rn_accepted = [], rn_open = False, rn_device = True, rn_reader = False,
      rn_watcher = False, rn_shut = False\<rparr>"

definition shutdown_once :: "running \<Rightarrow> running" where
  "shutdown_once r =
     (if rn_shut r then r
      else r\<lparr>rn_shut := True, rn_open := False, rn_device := False,
             rn_srv := (rn_srv r)\<lparr>stopping := True,
                         closed := closed (rn_srv r) \<union> registry_snapshot (registry (rn_srv r))\<rparr>\<rparr>)"

text \<open>\<open>Listens e\<close>: the outcome of \<open>tls.Listen\<close>; \<open>AcceptReturns\<close>: \<open>Accept\<close> fails, with the text of the error unless the
  listener is closed.\<close>

datatype run_event =
    Listens "string option"
  | ContextCancelled
  | WatcherFires
  | Conn move
  | ReaderEnds
  | AcceptReturns string
  | MainShutdown
  | RunReturns

fun may_move :: "running \<Rightarrow> move \<Rightarrow> bool" where
  "may_move r Shutdown = False"
| "may_move r (Accept c h) = (rn_place r = Accepting \<and> rn_open r)"
| "may_move r m = True"

fun newly_accepted :: "move \<Rightarrow> nat list" where
  "newly_accepted (Accept c h) = [c]"
| "newly_accepted m = []"

fun run_move :: "running \<Rightarrow> run_event \<Rightarrow> running option" where
  "run_move r (Listens e) =
     (if rn_place r \<noteq> Unbound then None
      else Some (case e of
          Some msg \<Rightarrow> r\<lparr>rn_place := Returned (Some (ListenFails msg))\<rparr>
        | None \<Rightarrow> r\<lparr>rn_place := Accepting, rn_open := True, rn_reader := True, rn_watcher := True\<rparr>))"
| "run_move r ContextCancelled = Some (r\<lparr>rn_srv := (rn_srv r)\<lparr>stopping := True\<rparr>\<rparr>)"
| "run_move r WatcherFires =
     (if rn_watcher r \<and> stopping (rn_srv r) then Some ((shutdown_once r)\<lparr>rn_watcher := False\<rparr>) else None)"
| "run_move r (Conn m) =
     (if may_move r m
      then map_option (\<lambda>s. r\<lparr>rn_srv := s, rn_accepted := rn_accepted r @ newly_accepted m\<rparr>) (srv_move (rn_srv r) m)
      else None)"
| "run_move r ReaderEnds = (if rn_reader r then Some (r\<lparr>rn_reader := False\<rparr>) else None)"
| "run_move r (AcceptReturns msg) =
     (if rn_place r = Accepting
      then Some (r\<lparr>rn_place := Closing (if rn_open r then OtherError msg else ListenerClosed)\<rparr>) else None)"
| "run_move r MainShutdown =
     (case rn_place r of Closing e \<Rightarrow> Some ((shutdown_once r)\<lparr>rn_place := Awaiting e\<rparr>) | _ \<Rightarrow> None)"
| "run_move r RunReturns =
     (case rn_place r of
        Awaiting e \<Rightarrow>
          (if list_all (\<lambda>c. phases (rn_srv r) c = Gone) (rn_accepted r) \<and> \<not> rn_reader r \<and> \<not> rn_watcher r
           then Some (r\<lparr>rn_place := Returned (case e of ListenerClosed \<Rightarrow> None | OtherError msg \<Rightarrow> Some (AcceptLoop msg))\<rparr>)
           else None)
      | _ \<Rightarrow> None)"

fun run_events :: "running \<Rightarrow> run_event list \<Rightarrow> running option" where
  "run_events r [] = Some r"
| "run_events r (e # es) = (case run_move r e of None \<Rightarrow> None | Some t \<Rightarrow> run_events t es)"

section \<open>The invariant\<close>

fun place_ok :: "run_place \<Rightarrow> running \<Rightarrow> bool" where
  "place_ok Unbound r \<longleftrightarrow> \<not> rn_shut r \<and> \<not> rn_open r \<and> rn_device r \<and> \<not> rn_reader r \<and> \<not> rn_watcher r \<and> rn_accepted r = []"
| "place_ok Accepting r \<longleftrightarrow> (rn_watcher r \<or> rn_shut r) \<and> (rn_open r \<longleftrightarrow> \<not> rn_shut r)"
| "place_ok (Closing e) r \<longleftrightarrow> rn_watcher r \<or> rn_shut r"
| "place_ok (Awaiting e) r \<longleftrightarrow> rn_shut r"
| "place_ok (Returned (Some (ListenFails msg))) r \<longleftrightarrow>
     \<not> rn_shut r \<and> \<not> rn_open r \<and> rn_device r \<and> \<not> rn_reader r \<and> \<not> rn_watcher r \<and> rn_accepted r = []"
| "place_ok (Returned x) r \<longleftrightarrow>
     rn_shut r \<and> \<not> rn_reader r \<and> \<not> rn_watcher r \<and> list_all (\<lambda>c. phases (rn_srv r) c = Gone) (rn_accepted r)"

definition run_inv :: "running \<Rightarrow> bool" where
  "run_inv r \<longleftrightarrow>
     srv_inv (rn_srv r) \<and> place_ok (rn_place r) r
     \<and> distinct (rn_accepted r) \<and> (\<forall>c. phases (rn_srv r) c \<noteq> Idle \<longleftrightarrow> c \<in> set (rn_accepted r))
     \<and> (rn_shut r \<longrightarrow> \<not> rn_open r \<and> \<not> rn_device r \<and> stopping (rn_srv r))"

text \<open>A move is one of one connection, which comes closer to its end and is idle only when it is accepted.\<close>

fun mover :: "move \<Rightarrow> nat option" where
  "mover (Accept c h) = Some c"
| "mover (Handshake c hs) = Some c"
| "mover (LookUp c) = Some c"
| "mover (PreviousDone c) = Some c"
| "mover (KickTimeout c) = Some c"
| "mover (AllocateIp c) = Some c"
| "mover (AddSession c) = Some c"
| "mover (SendAssign c b) = Some c"
| "mover (EndSession c) = Some c"
| "mover (RemoveSession c) = Some c"
| "mover (ReleaseIp c) = Some c"
| "mover (CloseDone c) = Some c"
| "mover (Leave c) = Some c"
| "mover (PenaltyTimer h) = None"
| "mover Shutdown = None"

lemma srv_move_mover:
  assumes "srv_move s m = Some t" and "mover m = Some c"
  shows "\<exists>p. phases t = (phases s)(c := p) \<and> rank p < rank (phases s c) \<and> p \<noteq> Idle
    \<and> (phases s c = Idle \<longleftrightarrow> newly_accepted m = [c]) \<and> (phases s c \<noteq> Idle \<longleftrightarrow> newly_accepted m = [])
    \<and> stopping t = stopping s"
  using assms
  by (cases m; cases "phases s c")
    (auto simp: Let_def simp del: lim_step.simps split: handshake.splits option.splits sum.splits prod.splits if_splits)

lemma srv_move_other:
  assumes "srv_move s m = Some t" and "mover m = None" and "m \<noteq> Shutdown"
  shows "phases t = phases s \<and> newly_accepted m = [] \<and> stopping t = stopping s"
  using assms by (cases m) auto

lemma shutdown_once_simps [simp]:
  "phases (rn_srv (shutdown_once r)) = phases (rn_srv r)" "rn_place (shutdown_once r) = rn_place r"
  "rn_accepted (shutdown_once r) = rn_accepted r" "rn_reader (shutdown_once r) = rn_reader r"
  "rn_watcher (shutdown_once r) = rn_watcher r" "rn_shut (shutdown_once r)"
  by (simp_all add: shutdown_once_def)

lemma srv_inv_flags [simp]: "srv_inv (s\<lparr>stopping := b, closed := x\<rparr>) = srv_inv s" "srv_inv (s\<lparr>stopping := b\<rparr>) = srv_inv s"
  by (simp_all add: srv_inv_def)

lemma shutdown_once_inv:
  assumes "srv_inv (rn_srv r)" and "rn_shut r \<longrightarrow> \<not> rn_open r \<and> \<not> rn_device r \<and> stopping (rn_srv r)"
  shows "srv_inv (rn_srv (shutdown_once r)) \<and> \<not> rn_open (shutdown_once r) \<and> \<not> rn_device (shutdown_once r)
    \<and> stopping (rn_srv (shutdown_once r))"
  using assms by (simp add: shutdown_once_def)


lemma run_start_inv:
  assumes "server_new load_tls cfg dev = Inr (cfg', s)"
  shows "run_inv (run_start s)"
  using server_new_inv [OF assms] server_new_Inr [OF assms]
  by (auto simp: run_inv_def run_start_def)

lemma conn_move_inv:
  assumes "run_inv r" and "may_move r m" and "srv_move (rn_srv r) m = Some s"
  shows "run_inv (r\<lparr>rn_srv := s, rn_accepted := rn_accepted r @ newly_accepted m\<rparr>)"
proof (cases "mover m")
  case None
  from assms(2) have "m \<noteq> Shutdown" by (cases m) auto
  from srv_move_other [OF assms(3) None this] have *: "phases s = phases (rn_srv r)" "newly_accepted m = []"
    "stopping s = stopping (rn_srv r)" by simp_all
  moreover have "srv_inv s" using assms(1,3) by (auto simp: run_inv_def intro: keeps srv_move_step)
  moreover have "place_ok (rn_place r) (r\<lparr>rn_srv := s\<rparr>) = place_ok (rn_place r) r"
    by (cases "(rn_place r, r)" rule: place_ok.cases) (simp_all add: *)
  ultimately show ?thesis using assms(1) by (simp add: run_inv_def)
next
  case (Some c)
  from srv_move_mover [OF assms(3) this] obtain p where p: "phases s = (phases (rn_srv r))(c := p)"
    "rank p < rank (phases (rn_srv r) c)" "p \<noteq> Idle" "phases (rn_srv r) c = Idle \<longleftrightarrow> newly_accepted m = [c]"
    "phases (rn_srv r) c \<noteq> Idle \<longleftrightarrow> newly_accepted m = []" "stopping s = stopping (rn_srv r)" by blast
  let ?r = "r\<lparr>rn_srv := s, rn_accepted := rn_accepted r @ newly_accepted m\<rparr>"
  have acc: "newly_accepted m = [c] \<Longrightarrow> rn_place r = Accepting"
    using assms(2) by (cases m) auto
  have live: "phases (rn_srv r) c \<noteq> Gone" using p(2) by auto
  have "srv_inv s" using assms(1,3) by (auto simp: run_inv_def intro: keeps srv_move_step)
  moreover have "place_ok (rn_place r) ?r"
  proof (cases "newly_accepted m = [c]")
    case True
    with acc assms(1) show ?thesis by (simp add: run_inv_def)
  next
    case False
    with p(4,5) have "c \<in> set (rn_accepted r)" "newly_accepted m = []" using assms(1) by (auto simp: run_inv_def)
    with assms(1) live show ?thesis
      by (cases "(rn_place r, r)" rule: place_ok.cases) (auto simp: run_inv_def list_all_iff)
  qed
  moreover have "distinct (rn_accepted ?r) \<and> (\<forall>d. phases s d \<noteq> Idle \<longleftrightarrow> d \<in> set (rn_accepted ?r))"
    using assms(1) p by (cases "phases (rn_srv r) c = Idle") (auto simp: run_inv_def)
  ultimately show ?thesis using assms(1) p(6) by (simp add: run_inv_def)
qed

lemma run_move_inv:
  assumes "run_inv r" and "run_move r e = Some t"
  shows "run_inv t"
proof (cases e)
  case (Conn m)
  with assms conn_move_inv [OF assms(1)] show ?thesis by (auto split: if_splits)
next
  case (Listens x)
  with assms show ?thesis by (auto simp: run_inv_def split: if_splits option.splits)
next
  case ContextCancelled
  moreover have "place_ok (rn_place r) (r\<lparr>rn_srv := (rn_srv r)\<lparr>stopping := True\<rparr>\<rparr>) = place_ok (rn_place r) r"
    by (cases "(rn_place r, r)" rule: place_ok.cases) simp_all
  ultimately show ?thesis using assms by (auto simp: run_inv_def)
next
  case WatcherFires
  with assms shutdown_once_inv [of r] show ?thesis
    by (cases "(rn_place r, r)" rule: place_ok.cases) (auto simp: run_inv_def split: if_splits)
next
  case ReaderEnds
  with assms show ?thesis
    by (cases "(rn_place r, r)" rule: place_ok.cases) (auto simp: run_inv_def split: if_splits)
next
  case (AcceptReturns x)
  with assms show ?thesis by (auto simp: run_inv_def split: if_splits)
next
  case MainShutdown
  with assms shutdown_once_inv [of r] show ?thesis by (auto simp: run_inv_def split: run_place.splits)
next
  case RunReturns
  with assms show ?thesis
    by (auto simp: run_inv_def split: run_place.splits if_splits accept_error.splits)
qed

lemma run_events_inv: "run_events r es = Some t \<Longrightarrow> run_inv r \<Longrightarrow> run_inv t"
  by (induction es arbitrary: r) (auto split: option.splits dest: run_move_inv)

lemma run_events_append:
  "run_events r (xs @ ys) = (case run_events r xs of None \<Rightarrow> None | Some t \<Rightarrow> run_events t ys)"
  by (induction xs arbitrary: r) (auto split: option.splits)


section \<open>Shutting down\<close>

text \<open>What happens by itself once the context is cancelled: everything but a new connection, a timer, an error of the
  device, and the end of a session whose connection is still open, which is the client's to bring about. A deadline
  ends handshakes and waits, and a closed session ends its reader.\<close>

fun forced_move :: "server \<Rightarrow> move \<Rightarrow> bool" where
  "forced_move s (Accept c h) = False"
| "forced_move s (PenaltyTimer h) = False"
| "forced_move s Shutdown = False"
| "forced_move s (EndSession c) = (\<exists>k t. phases s c = Running k t \<and> t \<in> closed s)"
| "forced_move s m = True"

fun forced :: "running \<Rightarrow> run_event \<Rightarrow> bool" where
  "forced r (Listens e) = False"
| "forced r ContextCancelled = False"
| "forced r (Conn m) = forced_move (rn_srv r) m"
| "forced r ReaderEnds = (\<not> rn_device r)"
| "forced r (AcceptReturns msg) = (\<not> rn_open r)"
| "forced r e = True"

fun forced_events :: "running \<Rightarrow> run_event list \<Rightarrow> bool" where
  "forced_events r [] = True"
| "forced_events r (e # es) = (forced r e \<and> (case run_move r e of None \<Rightarrow> False | Some t \<Rightarrow> forced_events t es))"

text \<open>How many of these there can be.\<close>

fun place_rank :: "run_place \<Rightarrow> nat" where
  "place_rank Unbound = 4"
| "place_rank Accepting = 3"
| "place_rank (Closing e) = 2"
| "place_rank (Awaiting e) = 1"
| "place_rank (Returned x) = 0"

definition work :: "running \<Rightarrow> nat" where
  "work r = place_rank (rn_place r) + (if rn_watcher r then 1 else 0) + (if rn_reader r then 1 else 0)
     + (\<Sum>c \<in> set (rn_accepted r). rank (phases (rn_srv r) c))"

definition late :: "running \<Rightarrow> bool" where
  "late r \<longleftrightarrow> (\<exists>c k t. phases (rn_srv r) c = Running k t \<and> t \<notin> closed (rn_srv r))"

lemma sum_fun_upd_less:
  fixes f :: "'a \<Rightarrow> nat"
  assumes "finite A" "c \<in> A" "x < f c"
  shows "(\<Sum>a \<in> A. (f(c := x)) a) < (\<Sum>a \<in> A. f a)"
  using assms by (intro sum_strict_mono_ex1) auto

lemma forced_conn_work:
  assumes "run_inv r" and "forced_move (rn_srv r) m" and "srv_move (rn_srv r) m = Some s"
  shows "newly_accepted m = [] \<and>
    (\<Sum>c \<in> set (rn_accepted r). rank (phases s c)) < (\<Sum>c \<in> set (rn_accepted r). rank (phases (rn_srv r) c))"
proof -
  from assms(2) obtain c where c: "mover m = Some c" and new: "newly_accepted m = []" by (cases m) auto
  from srv_move_mover [OF assms(3) c] new obtain p where p: "phases s = (phases (rn_srv r))(c := p)"
    "rank p < rank (phases (rn_srv r) c)" "phases (rn_srv r) c \<noteq> Idle" by auto
  then have "c \<in> set (rn_accepted r)" using assms(1) by (simp add: run_inv_def)
  moreover have "rank (phases s d) = ((rank \<circ> phases (rn_srv r))(c := rank p)) d" for d by (simp add: p(1))
  ultimately show ?thesis
    using new p(2) sum_fun_upd_less [of "set (rn_accepted r)" c "rank p" "rank \<circ> phases (rn_srv r)"] by simp
qed

lemma forced_work:
  assumes "run_inv r" and "forced r e" and "run_move r e = Some t"
  shows "work t < work r"
proof (cases e)
  case (Conn m)
  with assms(3) obtain s where "srv_move (rn_srv r) m = Some s"
    "t = r\<lparr>rn_srv := s, rn_accepted := rn_accepted r @ newly_accepted m\<rparr>" by (auto split: if_splits)
  with forced_conn_work [OF assms(1)] Conn assms(2) show ?thesis by (simp add: work_def)
qed (use assms in \<open>auto simp: work_def split: if_splits run_place.splits\<close>)

lemma forced_events_work:
  assumes "run_inv r" and "forced_events r es"
  shows "\<exists>t. run_events r es = Some t \<and> work t + length es \<le> work r \<and> run_inv t"
  using assms
proof (induction es arbitrary: r)
  case (Cons e es)
  then obtain u where u: "run_move r e = Some u" "forced r e" "forced_events u es" by (auto split: option.splits)
  from run_move_inv [OF Cons.prems(1) u(1)] Cons.IH [OF _ u(3)]
  obtain t where "run_events u es = Some t" "work t + length es \<le> work u" "run_inv t" by blast
  with u(1) forced_work [OF Cons.prems(1) u(2,1)] show ?case by auto
qed simp

text \<open>An accepted connection always has such a step, unless it waits for its client.\<close>

lemma forced_connection:
  assumes "phases (rn_srv r) c \<noteq> Idle" "phases (rn_srv r) c \<noteq> Gone" and "\<not> late r"
  shows "\<exists>m t. forced_move (rn_srv r) m \<and> run_move r (Conn m) = Some t"
proof (cases "phases (rn_srv r) c")
  case (Handshaking k)
  then show ?thesis by (intro exI [of _ "Handshake c HsFails"]) simp
next
  case (Admitting k cn)
  then show ?thesis by (intro exI [of _ "LookUp c"]) simp
next
  case (Waiting k cn prev)
  then show ?thesis by (intro exI [of _ "KickTimeout c"]) simp
next
  case (Allocating k cn)
  then show ?thesis by (intro exI [of _ "AllocateIp c"]) simp
next
  case (Adding k cn a)
  then show ?thesis by (intro exI [of _ "AddSession c"]) (simp add: Let_def)
next
  case (Assigning k t)
  then show ?thesis by (intro exI [of _ "SendAssign c False"]) simp
next
  case (Running k t)
  with assms(3) have "t \<in> closed (rn_srv r)" by (auto simp: late_def)
  with Running show ?thesis by (intro exI [of _ "EndSession c"]) simp
next
  case (Removing k t)
  then show ?thesis by (intro exI [of _ "RemoveSession c"]) simp
next
  case (Releasing k t)
  then show ?thesis by (intro exI [of _ "ReleaseIp c"]) simp
next
  case (Finishing k t)
  then show ?thesis by (intro exI [of _ "CloseDone c"]) simp
next
  case (Leaving k hs)
  then show ?thesis by (intro exI [of _ "Leave c"]) simp
qed (use assms in simp_all)

lemma forced_possible:
  assumes "run_inv r" and "stopping (rn_srv r)" and "rn_place r \<noteq> Unbound" and "\<not> late r"
  shows "(\<exists>e t. forced r e \<and> run_move r e = Some t) \<or> (\<exists>x. rn_place r = Returned x)"
proof (cases "rn_watcher r")
  case True
  with assms(2) have "forced r WatcherFires \<and> run_move r WatcherFires = Some ((shutdown_once r)\<lparr>rn_watcher := False\<rparr>)"
    by simp
  then show ?thesis by blast
next
  case idle: False
  note inv = assms(1) [unfolded run_inv_def]
  show ?thesis
  proof (cases "rn_place r")
    case Unbound
    with assms(3) show ?thesis by simp
  next
    case Accepting
    with inv idle have "forced r (AcceptReturns []) \<and> run_move r (AcceptReturns []) \<noteq> None" by simp
    then show ?thesis by blast
  next
    case (Closing e)
    then have "forced r MainShutdown \<and> run_move r MainShutdown \<noteq> None" by simp
    then show ?thesis by blast
  next
    case (Awaiting e)
    show ?thesis
    proof (cases "rn_reader r")
      case True
      with Awaiting inv have "forced r ReaderEnds \<and> run_move r ReaderEnds \<noteq> None" by simp
      then show ?thesis by blast
    next
      case False
      show ?thesis
      proof (cases "list_all (\<lambda>c. phases (rn_srv r) c = Gone) (rn_accepted r)")
        case True
        with False idle Awaiting have "forced r RunReturns \<and> run_move r RunReturns \<noteq> None" by simp
        then show ?thesis by blast
      next
        case False
        with inv obtain c where "phases (rn_srv r) c \<noteq> Idle" "phases (rn_srv r) c \<noteq> Gone" by (auto simp: list_all_iff)
        from forced_connection [OF this assms(4)] obtain m t where "forced r (Conn m) \<and> run_move r (Conn m) = Some t"
          by auto
        then show ?thesis by blast
      qed
    qed
  next
    case (Returned x)
    then show ?thesis by blast
  qed
qed


lemma run_move_keeps:
  assumes "run_move r e = Some t"
  shows "(stopping (rn_srv r) \<longrightarrow> stopping (rn_srv t)) \<and> (rn_place r \<noteq> Unbound \<longrightarrow> rn_place t \<noteq> Unbound)
    \<and> (rn_shut r \<longrightarrow> rn_shut t)"
proof (cases e)
  case (Conn m)
  with assms obtain s where s: "srv_move (rn_srv r) m = Some s" "may_move r m"
    "t = r\<lparr>rn_srv := s, rn_accepted := rn_accepted r @ newly_accepted m\<rparr>" by (auto split: if_splits)
  from s(2) have "m \<noteq> Shutdown" by auto
  then have "stopping s = stopping (rn_srv r)"
    using srv_move_mover [OF s(1)] srv_move_other [OF s(1)] by (cases "mover m") auto
  with s(3) show ?thesis by simp
qed (use assms in \<open>auto simp: shutdown_once_def split: if_splits option.splits run_place.splits\<close>)

lemma run_events_keeps:
  "run_events r es = Some t \<Longrightarrow>
    (stopping (rn_srv r) \<longrightarrow> stopping (rn_srv t)) \<and> (rn_place r \<noteq> Unbound \<longrightarrow> rn_place t \<noteq> Unbound)"
  by (induction es arbitrary: r) (auto split: option.splits dest: run_move_keeps)

text \<open>A session that was registered too late stays open: nobody closes it but the connection that would replace it.\<close>

definition looks_for :: "string \<Rightarrow> running \<Rightarrow> run_event \<Rightarrow> bool" where
  "looks_for cn r e \<longleftrightarrow> (\<exists>d k. e = Conn (LookUp d) \<and> phases (rn_srv r) d = Admitting k cn)"

text \<open>A run in which a connection admitted under the name looks for the session it would replace.\<close>

fun rival_comes :: "string \<Rightarrow> running \<Rightarrow> run_event list \<Rightarrow> bool" where
  "rival_comes cn r [] = False"
| "rival_comes cn r (e # es) =
     (looks_for cn r e \<or> (case run_move r e of None \<Rightarrow> False | Some t \<Rightarrow> rival_comes cn t es))"

lemma late_step:
  assumes "run_inv r" and "run_move r e = Some u" and "rn_shut r" and "\<not> looks_for (s_cn t) r e" and "e \<noteq> Conn (EndSession c)"
    and "phases (rn_srv r) c = Running k t" and "t \<notin> closed (rn_srv r)"
  shows "rn_shut u \<and> phases (rn_srv u) c = Running k t \<and> t \<notin> closed (rn_srv u)"
proof (cases e)
  case (Conn m)
  with assms(2) obtain s where s: "srv_move (rn_srv r) m = Some s" "may_move r m"
    "u = r\<lparr>rn_srv := s, rn_accepted := rn_accepted r @ newly_accepted m\<rparr>" by (auto split: if_splits)
  have "own_session (phases (rn_srv r) c) = Some t" using assms(6) by simp
  then have own: "own_session (phases (rn_srv r) d) = Some t \<Longrightarrow> d = c" for d
    using assms(1) srv_invD(7) unfolding run_inv_def by metis
  have "phases s c = Running k t"
  proof (cases "mover m = Some c")
    case True
    with s(1) assms(4,5,6) Conn show ?thesis by (cases m) auto
  next
    case False
    then show ?thesis
      using srv_move_mover [OF s(1)] srv_move_other [OF s(1)] s(2) assms(6) by (cases "mover m"; cases m) auto
  qed
  moreover have "t \<notin> closed s"
  proof (cases "\<exists>d. m = LookUp d")
    case True
    then obtain d where d: "m = LookUp d" by blast
    with s(1) obtain j cn where ph: "phases (rn_srv r) d = Admitting j cn" by (auto split: phase.splits)
    with assms(4) Conn d have cn: "cn \<noteq> s_cn t" by (auto simp: looks_for_def)
    have "reg_inv (registry (rn_srv r))" using assms(1) srv_invD(2) unfolding run_inv_def by blast
    then have "registry_by_cn (registry (rn_srv r)) cn \<noteq> Some t"
      using cn by (auto simp: registry_by_cn_def dest: reg_cnD)
    with s(1) d ph assms(7) show ?thesis by (auto split: option.splits)
  next
    case False
    then show ?thesis
    using s(1,2) assms(4,5,7) Conn own
    by (cases m) (auto simp: Let_def simp del: lim_step.simps
        split: phase.splits handshake.splits option.splits sum.splits prod.splits if_splits)
  qed
  ultimately show ?thesis using s(3) assms(3) by simp
qed (use assms in \<open>auto simp: shutdown_once_def split: if_splits option.splits run_place.splits\<close>)

lemma late_stays:
  "run_events r es = Some u \<Longrightarrow> run_inv r \<Longrightarrow> rn_shut r \<Longrightarrow> \<not> rival_comes (s_cn t) r es \<Longrightarrow> Conn (EndSession c) \<notin> set es \<Longrightarrow>
   phases (rn_srv r) c = Running k t \<Longrightarrow> t \<notin> closed (rn_srv r) \<Longrightarrow>
   run_inv u \<and> rn_shut u \<and> phases (rn_srv u) c = Running k t \<and> t \<notin> closed (rn_srv u)"
proof (induction es arbitrary: r)
  case (Cons e es)
  from Cons.prems(1) obtain v where v: "run_move r e = Some v" "run_events v es = Some u" by (auto split: option.splits)
  have "rn_shut v \<and> phases (rn_srv v) c = Running k t \<and> t \<notin> closed (rn_srv v)"
    by (rule late_step [OF Cons.prems(2) v(1) Cons.prems(3)]) (use Cons.prems in auto)
  with Cons.IH [OF v(2) run_move_inv [OF Cons.prems(2) v(1)]] Cons.prems(4,5) show ?case by (simp add: v(1))
qed simp

section \<open>Properties\<close>

text \<open>The events of the witnesses: alice is admitted, and the context is cancelled while she is.\<close>

definition admission :: "run_event list" where
  "admission = map Conn [Accept 0 ''h'', Handshake 0 (HsCommonName ''alice''), LookUp 0, AllocateIp 0]"

lemmas run_eval = run_start_def shutdown_once_def admission_def sample_eval registry_snapshot_def

text \<open>\<open>Run\<close> leaves nothing behind: when it returns, in whatever order goroutines, errors and the cancellation came,
  either it could not listen, and the device is still open, or every connection has left, pool, registry and
  limiter hold nothing of them, reader and watcher have ended, and listener and device are closed; and it returns
  no error just when the listener had been closed under the accept loop.\<close>

theorem run_returns_clean:
  assumes "server_new load_tls cfg dev = Inr (cfg', s0)" and "run_events (run_start s0) es = Some r"
    and "rn_place r = Returned x"
  shows "if \<exists>msg. x = Some (ListenFails msg) then rn_device r \<and> rn_accepted r = []
    else byClient (pool (rn_srv r)) = Map.empty \<and> byCN (registry (rn_srv r)) = Map.empty
      \<and> byIPv4 (registry (rn_srv r)) = Map.empty \<and> in_flight (limits (rn_srv r)) = timers (limits (rn_srv r))
      \<and> \<not> rn_reader r \<and> \<not> rn_watcher r \<and> \<not> rn_open r \<and> \<not> rn_device r \<and> stopping (rn_srv r)"
proof -
  have inv: "run_inv r" by (rule run_events_inv [OF assms(2) run_start_inv [OF assms(1)]])
  show ?thesis
  proof (cases "\<exists>msg. x = Some (ListenFails msg)")
    case True
    with inv assms(3) show ?thesis by (auto simp: run_inv_def)
  next
    case False
    then have ok: "rn_shut r \<and> \<not> rn_reader r \<and> \<not> rn_watcher r \<and> list_all (\<lambda>c. phases (rn_srv r) c = Gone) (rn_accepted r)"
      using inv assms(3) by (cases "(rn_place r, r)" rule: place_ok.cases) (auto simp: run_inv_def)
    with inv have "\<forall>c. phases (rn_srv r) c = Idle \<or> phases (rn_srv r) c = Gone" "srv_inv (rn_srv r)"
      by (auto simp: run_inv_def list_all_iff)
    from nothing_left [OF this(2,1)] ok inv False show ?thesis by (simp add: run_inv_def)
  qed
qed

theorem run_returns_clean_witness:
  "\<exists>r. run_events (run_start sample_server) ([Listens None] @ admission @ [Conn (AddSession 0), Conn (SendAssign 0 True),
      ContextCancelled, WatcherFires, Conn (EndSession 0), Conn (RemoveSession 0), Conn (ReleaseIp 0), Conn (CloseDone 0),
      Conn (Leave 0), ReaderEnds, AcceptReturns [], MainShutdown, RunReturns]) = Some r
    \<and> rn_place r = Returned None \<and> byClient (pool (rn_srv r)) = Map.empty \<and> \<not> rn_device r"
proof -
  let ?es = "[Listens None] @ admission @ [Conn (AddSession 0), Conn (SendAssign 0 True),
      ContextCancelled, WatcherFires, Conn (EndSession 0), Conn (RemoveSession 0), Conn (ReleaseIp 0), Conn (CloseDone 0),
      Conn (Leave 0), ReaderEnds, AcceptReturns [], MainShutdown, RunReturns]"
  obtain r where r: "run_events (run_start sample_server) ?es = Some r" "rn_place r = Returned None"
    by (simp add: run_eval)
  from run_returns_clean [OF sample_server_new r] r show ?thesis by simp
qed

text \<open>(C6) Shutting down ends, unless a session came too late: once the context is cancelled, the steps that happen
  by themselves, in whatever order they do, are at most as many as there is work left, and while \<open>Run\<close> has not
  returned there is always another one, as long as no connection runs a session that nobody has closed.\<close>

theorem shutdown_ends:
  assumes "server_new load_tls cfg dev = Inr (cfg', s0)" and "run_events (run_start s0) es = Some r"
    and "stopping (rn_srv r)" and "rn_place r \<noteq> Unbound" and "forced_events r fs"
  shows "\<exists>t. run_events r fs = Some t \<and> length fs + work t \<le> work r
    \<and> ((\<exists>e. forced t e \<and> run_move t e \<noteq> None) \<or> (\<exists>x. rn_place t = Returned x) \<or> late t)"
proof -
  have "run_inv r" by (rule run_events_inv [OF assms(2) run_start_inv [OF assms(1)]])
  from forced_events_work [OF this assms(5)] obtain t where t: "run_events r fs = Some t"
    "work t + length fs \<le> work r" "run_inv t" by blast
  from run_events_keeps [OF t(1)] assms(3,4) have "stopping (rn_srv t)" "rn_place t \<noteq> Unbound" by simp_all
  from forced_possible [OF t(3) this] t(1,2) show ?thesis by (auto simp: add.commute)
qed

theorem shutdown_ends_witness:
  "\<exists>r t. run_events (run_start sample_server) ([Listens None] @ admission @ [ContextCancelled]) = Some r
    \<and> run_events r [WatcherFires, AcceptReturns [], MainShutdown, ReaderEnds] = Some t \<and> 4 + work t \<le> work r
    \<and> ((\<exists>e. forced t e \<and> run_move t e \<noteq> None) \<or> (\<exists>x. rn_place t = Returned x) \<or> late t)"
proof -
  let ?fs = "[WatcherFires, AcceptReturns [], MainShutdown, ReaderEnds]"
  obtain r where r: "run_events (run_start sample_server) ([Listens None] @ admission @ [ContextCancelled]) = Some r"
    and "stopping (rn_srv r)" "rn_place r \<noteq> Unbound" "forced_events r ?fs"
    by (simp add: run_eval)
  from shutdown_ends [OF sample_server_new this] obtain t where t: "run_events r ?fs = Some t"
    "length ?fs + work t \<le> work r"
    "(\<exists>e. forced t e \<and> run_move t e \<noteq> None) \<or> (\<exists>x. rn_place t = Returned x) \<or> late t" by blast
  from t(2) have "4 + work t \<le> work r" by simp
  with r t(1,3) show ?thesis by blast
qed

text \<open>(C39) But a session can come too late: \<open>shutdown\<close> closes the sessions it finds registered, and a connection that
  had finished its handshake and registers its session afterwards is not closed by it. Only a connection of the same name that
  was accepted before and is still to be admitted would close it; without one, whatever the other connections do, it runs
  on, with the device closed, and \<open>Run\<close> does not return before the client ends it, by hanging up or by a packet the
  device refuses.\<close>

theorem late_session_hangs:
  assumes "server_new load_tls cfg dev = Inr (cfg', s0)" and "run_events (run_start s0) es = Some r"
    and "rn_shut r" and "phases (rn_srv r) c = Running k t" and "t \<notin> closed (rn_srv r)"
    and "run_events r fs = Some u" and "\<not> rival_comes (s_cn t) r fs" and "Conn (EndSession c) \<notin> set fs"
  shows "phases (rn_srv u) c = Running k t \<and> t \<notin> closed (rn_srv u) \<and> rn_place u \<noteq> Returned x"
proof -
  have "run_inv r" by (rule run_events_inv [OF assms(2) run_start_inv [OF assms(1)]])
  from late_stays [OF assms(6) this assms(3,7,8,4,5)]
  have u: "run_inv u" "rn_shut u" "phases (rn_srv u) c = Running k t" "t \<notin> closed (rn_srv u)" by simp_all
  have "phases (rn_srv u) c \<noteq> Idle" using u(3) by simp
  then have c: "c \<in> set (rn_accepted u)" using u(1) by (simp add: run_inv_def)
  have "rn_place u \<noteq> Returned x"
  proof
    assume "rn_place u = Returned x"
    with u(1) have "place_ok (Returned x) u" by (simp add: run_inv_def)
    with u(2) have "list_all (\<lambda>c. phases (rn_srv u) c = Gone) (rn_accepted u)"
      by (cases "(Returned x, u)" rule: place_ok.cases) auto
    with c u(3) show False by (simp add: list_all_iff)
  qed
  with u show ?thesis by simp
qed

theorem late_session_hangs_witness:
  "\<exists>r u t. run_events (run_start sample_server) ([Listens None] @ admission
      @ [ContextCancelled, WatcherFires, Conn (AddSession 0), Conn (SendAssign 0 True)]) = Some r
    \<and> run_events r [AcceptReturns [], MainShutdown, ReaderEnds] = Some u
    \<and> phases (rn_srv u) 0 = Running 0 t \<and> t \<notin> closed (rn_srv u) \<and> rn_place u \<noteq> Returned None"
proof -
  let ?es = "[Listens None] @ admission @ [ContextCancelled, WatcherFires, Conn (AddSession 0), Conn (SendAssign 0 True)]"
  let ?t = "\<lparr>s_id = 0, s_cn = ''alice'', s_ip = 0x0A080002\<rparr>"
  obtain r u where r: "run_events (run_start sample_server) ?es = Some r" "rn_shut r"
    "phases (rn_srv r) 0 = Running 0 ?t" "?t \<notin> closed (rn_srv r)"
    and u: "run_events r [AcceptReturns [], MainShutdown, ReaderEnds] = Some u"
    by (simp add: run_eval)
  have "\<not> rival_comes (s_cn ?t) r [AcceptReturns [], MainShutdown, ReaderEnds]"
    by (simp add: looks_for_def split: option.splits)
  from late_session_hangs [OF sample_server_new r u this, of None] r(1) u show ?thesis by auto
qed

end
