(* ===== verification/Tray.thy ===== *)
theory Tray
  imports Gui
begin

text \<open>
  The menu-bar presence of the desktop application (\<open>src/cmd/vpn-gui/tray.go\<close>): what the tray shows of the daemon, what its
  menu does, and which way a close or a quit takes. Drawing is the toolkit's; the state is what it was last told to
  show. The application behind it is that of \<open>Gui\<close>.
\<close>

datatype tray_icon = IconDisconnected | IconConnected | IconWorking | IconFailed

definition tray_icon_for :: "string \<Rightarrow> tray_icon" where
  "tray_icon_for state =
     (if state = ''connected'' then IconConnected
      else if state = ''connecting'' \<or> state = ''reconnecting'' then IconWorking
      else if state = ''failed'' then IconFailed
      else IconDisconnected)"

definition ellipsis :: string where "ellipsis = [CHR 0xE2, CHR 0x80, CHR 0xA6]"
definition dash :: string where "dash = [CHR 0xE2, CHR 0x80, CHR 0x94]"

definition tray_status_label :: "status_response \<Rightarrow> string" where
  "tray_status_label st =
     (if st_state st = ''connected'' then
        (if st_server st \<noteq> [] then ''Connected '' @ dash @ '' '' @ st_server st else ''Connected'')
      else if st_state st = ''connecting'' then ''Connecting'' @ ellipsis
      else if st_state st = ''reconnecting'' then ''Reconnecting'' @ ellipsis
      else if st_state st = ''failed'' then ''Connection failed''
      else ''Not connected'')"

text \<open>\<open>ty_alive\<close>: the process has not been told to go; \<open>ty_nudges\<close>: the \<open>daemon-changed\<close> and \<open>open-settings\<close> events the window got;
  \<open>ty_dialogs\<close>: the error dialogs, with their titles.\<close>

record 'e tray =
  ty_app :: app
  ty_store :: disk_file
  ty_quitting :: bool
  ty_state :: string
  ty_icon :: tray_icon
  ty_label :: string
  ty_can_connect :: bool
  ty_can_disconnect :: bool
  ty_window :: bool
  ty_alive :: bool
  ty_nudges :: "string list"
  ty_dialogs :: "(string \<times> 'e) list"

definition on_ready :: "app \<Rightarrow> disk_file \<Rightarrow> 'e tray" where
  "on_ready a store =
     \<lparr>ty_app = a, ty_store = store, ty_quitting = False, ty_state = [], ty_icon = IconDisconnected,
      ty_label = ''Not connected'', ty_can_connect = True, ty_can_disconnect = True, ty_window = True, ty_alive = True,
      ty_nudges = [], ty_dialogs = []\<rparr>"

definition refresh :: "file_io \<Rightarrow> control_err + status_response \<Rightarrow> 'e tray \<Rightarrow> 'e tray" where
  "refresh io st t =
     (case gui_status io st (ty_app t) (ty_store t) of
        (a, store) \<Rightarrow>
          (let state = (case st of Inl e \<Rightarrow> ''disconnected'' | Inr s \<Rightarrow> st_state s);
               label = (case st of Inl e \<Rightarrow> ''Background helper not running'' | Inr s \<Rightarrow> tray_status_label s);
               active = (state = ''connecting'' \<or> state = ''connected'' \<or> state = ''reconnecting'')
           in t\<lparr>ty_app := a, ty_store := store, ty_state := state,
                ty_icon := (if state \<noteq> ty_state t then tray_icon_for state else ty_icon t), ty_label := label,
                ty_can_disconnect := active,
                ty_can_connect := (\<not> active \<and> pi_has_profile (profile_info_of a)),
                ty_nudges := ty_nudges t @ [''daemon-changed'']\<rparr>))"

definition set_window :: "bool \<Rightarrow> 'e tray \<Rightarrow> 'e tray" where
  "set_window vis t = t\<lparr>ty_window := vis\<rparr>"

definition show_settings :: "'e tray \<Rightarrow> 'e tray" where
  "show_settings t = (set_window True t)\<lparr>ty_nudges := ty_nudges t @ [''open-settings'']\<rparr>"

definition cancel_close :: "bool \<Rightarrow> bool \<Rightarrow> bool" where
  "cancel_close quitting quit_on_window_close \<longleftrightarrow> \<not> quitting \<and> \<not> quit_on_window_close"

text \<open>\<open>q\<close> is \<open>quitOnWindowClose\<close> of the platform. The toolkit asks before every quit and every close, and goes when the
  answer is not to cancel.\<close>

definition on_before_close :: "bool \<Rightarrow> 'e tray \<Rightarrow> bool \<times> 'e tray" where
  "on_before_close q t =
     (if \<not> cancel_close (ty_quitting t) q then (False, t\<lparr>ty_quitting := True\<rparr>) else (True, set_window False t))"

definition toolkit_quit :: "bool \<Rightarrow> 'e tray \<Rightarrow> 'e tray" where
  "toolkit_quit q t = (case on_before_close q t of (cancel, t1) \<Rightarrow> if cancel then t1 else t1\<lparr>ty_alive := False\<rparr>)"

definition request_quit :: "bool \<Rightarrow> 'e tray \<Rightarrow> 'e tray" where
  "request_quit q t = (if ty_quitting t then t else toolkit_quit q (t\<lparr>ty_quitting := True\<rparr>))"

definition report_tray_error :: "string \<Rightarrow> 'e option \<Rightarrow> 'e tray \<Rightarrow> 'e tray" where
  "report_tray_error title e t = (case e of None \<Rightarrow> t | Some x \<Rightarrow> t\<lparr>ty_dialogs := ty_dialogs t @ [(title, x)]\<rparr>)"

text \<open>The error a click reports is one of the application or one of the control socket.\<close>

definition click_connect :: "(credentials \<Rightarrow> control_err + connected_as) \<Rightarrow> gui_err tray \<Rightarrow> gui_err tray" where
  "click_connect go t =
     (if pi_has_profile (profile_info_of (ty_app t)) then
        (case reconnect go (ty_app t) of
           (r, a) \<Rightarrow> report_tray_error ''Connect failed'' (case r of Inl e \<Rightarrow> Some e | Inr x \<Rightarrow> None) (t\<lparr>ty_app := a\<rparr>))
      else set_window True t)"

definition click_disconnect :: "control_err option \<Rightarrow> gui_err tray \<Rightarrow> gui_err tray" where
  "click_disconnect r t = report_tray_error ''Disconnect failed'' (map_option ControlFails r) t"

datatype tray_event =
    Tick file_io "control_err + status_response"
  | ClickConnect "credentials \<Rightarrow> control_err + connected_as"
  | ClickDisconnect "control_err option"
  | ClickOpen
  | ClickSettings
  | ClickQuit
  | CloseButton

fun tray_step :: "bool \<Rightarrow> tray_event \<Rightarrow> gui_err tray \<Rightarrow> gui_err tray" where
  "tray_step q (Tick io st) t = refresh io st t"
| "tray_step q (ClickConnect go) t = click_connect go t"
| "tray_step q (ClickDisconnect r) t = click_disconnect r t"
| "tray_step q ClickOpen t = set_window True t"
| "tray_step q ClickSettings t = show_settings t"
| "tray_step q ClickQuit t = request_quit q t"
| "tray_step q CloseButton t = toolkit_quit q t"

text \<open>Nothing happens after the end of the process.\<close>

definition tray_run :: "bool \<Rightarrow> tray_event list \<Rightarrow> gui_err tray \<Rightarrow> gui_err tray" where
  "tray_run q es t = foldl (\<lambda>t e. if ty_alive t then tray_step q e t else t) t es"

section \<open>Lemmas\<close>

lemma tray_run_simps [simp]:
  "tray_run q [] t = t"
  "tray_run q (e # es) t = tray_run q es (if ty_alive t then tray_step q e t else t)"
  "tray_run q (es @ fs) t = tray_run q fs (tray_run q es t)"
  by (simp_all add: tray_run_def)

text \<open>What is shown belongs to the state last read, and a quit under way is the end of the process.\<close>

definition tray_ok :: "gui_err tray \<Rightarrow> bool" where
  "tray_ok t \<longleftrightarrow> ty_icon t = tray_icon_for (ty_state t) \<and> (ty_quitting t \<longleftrightarrow> \<not> ty_alive t)
     \<and> (ty_state t = [] \<or> \<not> (ty_can_connect t \<and> ty_can_disconnect t))"

lemma refresh_ok: "tray_ok t \<Longrightarrow> tray_ok (refresh io st t)"
  by (auto simp: tray_ok_def refresh_def Let_def split: prod.splits)

lemma quit_ok: "tray_ok t \<Longrightarrow> tray_ok (toolkit_quit q t)" "tray_ok t \<Longrightarrow> tray_ok (request_quit q t)"
  by (auto simp: tray_ok_def request_quit_def toolkit_quit_def on_before_close_def set_window_def cancel_close_def)

lemma click_ok: "tray_ok t \<Longrightarrow> tray_ok (click_connect go t)" "tray_ok t \<Longrightarrow> tray_ok (click_disconnect r t)"
  by (auto simp: tray_ok_def click_connect_def click_disconnect_def report_tray_error_def set_window_def
      split: prod.splits option.splits)

lemma tray_run_ok: "tray_ok t \<Longrightarrow> tray_ok (tray_run q es t)"
proof (induction es arbitrary: t)
  case (Cons e es)
  have "tray_ok (tray_step q e t)"
    using Cons.prems refresh_ok quit_ok click_ok
    by (cases e) (auto simp: tray_ok_def set_window_def show_settings_def)
  with Cons show ?case by simp
qed simp

lemma on_ready_ok: "tray_ok (on_ready a store)"
  by (simp add: tray_ok_def on_ready_def tray_icon_for_def)

section \<open>Properties\<close>

text \<open>The tray can always be left and never goes by accident: after any use of tray and window, while the process
  runs, Quit ends it on every platform; the close button ends it just where the platform says so, and hides the
  window elsewhere; and the icon is that of the state last read, with Connect and Disconnect never both offered.\<close>

theorem tray_quits:
  assumes "t = tray_run q es (on_ready a store)" and "ty_alive t"
  shows "\<not> ty_alive (tray_step q ClickQuit t) \<and> (ty_alive (tray_step q CloseButton t) \<longleftrightarrow> \<not> q)
    \<and> (q \<or> \<not> ty_window (tray_step q CloseButton t)) \<and> ty_icon t = tray_icon_for (ty_state t)
    \<and> (ty_state t = [] \<or> \<not> (ty_can_connect t \<and> ty_can_disconnect t))"
proof -
  have "tray_ok t" unfolding assms(1) by (rule tray_run_ok [OF on_ready_ok])
  with assms(2) show ?thesis
    by (auto simp: tray_ok_def request_quit_def toolkit_quit_def on_before_close_def cancel_close_def set_window_def)
qed

theorem tray_quits_witness:
  "\<exists>t. t = tray_run False [ClickDisconnect None, CloseButton, ClickOpen] (on_ready blank_app None)
    \<and> \<not> ty_alive (tray_step False ClickQuit t)"
proof -
  let ?t = "tray_run False [ClickDisconnect None, CloseButton, ClickOpen] (on_ready blank_app None)"
  have "ty_alive ?t"
    by (simp add: on_ready_def click_disconnect_def report_tray_error_def toolkit_quit_def on_before_close_def
        cancel_close_def set_window_def)
  from tray_quits [OF refl this] show ?thesis by blast
qed

end
