(* ===== verification/Execx.thy ===== *)
theory Execx
  imports Prelude
begin

text \<open>
  External commands with a timeout (\<open>src/internal/execx/execx.go\<close>), through which every tool of the host is started. What
  \<open>os/exec\<close> does of a started process is its documented behaviour: the process is killed when the context expires,
  and \<open>CombinedOutput\<close> returns when the process has ended and every holder of its output has closed it, a child that
  outlives it included, since \<open>WaitDelay\<close> is not set. Times count from the start, in nanoseconds.
\<close>

definition default_timeout :: int where "default_timeout = 5 * 1000000000"

text \<open>\<open>pr_exit\<close>: when it exits by itself, if ever, and \<open>pr_status\<close> with what error; \<open>pr_pipes e\<close>: when the last holder of the output
  closes it, if ever, for a process that ended at \<open>e\<close>; \<open>pr_output\<close>: what has been written by then.\<close>

record process =
  pr_exit :: "int option"
  pr_status :: "string option"
  pr_pipes :: "int \<Rightarrow> int option"
  pr_output :: "int \<Rightarrow> string"

datatype spawned = StartFails string | Started process

datatype exec_err =
    TimedOut string int
  | CommandFails string "string list" string string

text \<open>\<open>None\<close>: it does not return; otherwise when it does, with error and output.\<close>

definition ended_at :: "int \<Rightarrow> process \<Rightarrow> int" where
  "ended_at timeout p = (case pr_exit p of None \<Rightarrow> timeout | Some t \<Rightarrow> (if t < timeout then t else timeout))"

definition combined_output :: "int \<Rightarrow> spawned \<Rightarrow> (int \<times> string option \<times> string) option" where
  "combined_output timeout x =
     (case x of
        StartFails e \<Rightarrow> Some (0, Some e, [])
      | Started p \<Rightarrow>
          (let e = ended_at timeout p in
           case pr_pipes p e of
             None \<Rightarrow> None
           | Some c \<Rightarrow>
               Some (if c < e then e else c, if e < timeout then pr_status p else Some ''signal: killed'',
                     pr_output p c)))"

definition exec_run ::
    "(string \<Rightarrow> string list \<Rightarrow> string option \<Rightarrow> spawned) \<Rightarrow> int \<Rightarrow> string option \<Rightarrow> string \<Rightarrow> string list
     \<Rightarrow> (int \<times> exec_err option \<times> string) option" where
  "exec_run spawn timeout stdin name args =
     (case combined_output timeout (spawn name args stdin) of
        None \<Rightarrow> None
      | Some (t, err, out) \<Rightarrow>
          Some (t,
            if t \<ge> timeout then Some (TimedOut name timeout)
            else (case err of None \<Rightarrow> None | Some e \<Rightarrow> Some (CommandFails name args e (trim_space out))),
            out))"

definition run_command ::
    "(string \<Rightarrow> string list \<Rightarrow> string option \<Rightarrow> spawned) \<Rightarrow> string \<Rightarrow> string list \<Rightarrow> (int \<times> exec_err option) option" where
  "run_command spawn name args = map_option (\<lambda>(t, e, out). (t, e)) (exec_run spawn default_timeout None name args)"

definition output_command ::
    "(string \<Rightarrow> string list \<Rightarrow> string option \<Rightarrow> spawned) \<Rightarrow> string \<Rightarrow> string list
     \<Rightarrow> (int \<times> exec_err option \<times> string) option" where
  "output_command spawn name args = exec_run spawn default_timeout None name args"

definition run_stdin ::
    "(string \<Rightarrow> string list \<Rightarrow> string option \<Rightarrow> spawned) \<Rightarrow> string option \<Rightarrow> string \<Rightarrow> string list
     \<Rightarrow> (int \<times> exec_err option) option" where
  "run_stdin spawn stdin name args = map_option (\<lambda>(t, e, out). (t, e)) (exec_run spawn default_timeout stdin name args)"

section \<open>Properties\<close>

text \<open>A command whose output nobody else holds cannot pin its caller: the call returns by the timeout, reports a timeout
  exactly when the process had not ended before, and succeeds exactly when it had ended in time without an error.\<close>

theorem exec_bounded:
  assumes "spawn name args stdin = Started p" and "\<And>e. pr_pipes p e = Some e" and "0 < timeout"
  shows "\<exists>t err out. exec_run spawn timeout stdin name args = Some (t, err, out) \<and> t \<le> timeout
    \<and> (err = Some (TimedOut name timeout) \<longleftrightarrow> \<not> (\<exists>x. pr_exit p = Some x \<and> x < timeout))
    \<and> (err = None \<longleftrightarrow> (\<exists>x. pr_exit p = Some x \<and> x < timeout) \<and> pr_status p = None)"
  using assms
  by (cases "pr_exit p")
    (auto simp: exec_run_def combined_output_def ended_at_def Let_def split: option.splits)

text \<open>But the timeout does not bound a call whose output a surviving child holds: a tool that left one in the background,
  whether it exited at once or was killed, is waited for as long as the child lives, and a success that came
  long before the timeout is reported as one.\<close>

theorem exec_held_by_child:
  assumes "spawn name args stdin = Started p" and "pr_exit p = Some x" "x < timeout" "pr_status p = None"
  shows "pr_pipes p x = None \<Longrightarrow> exec_run spawn timeout stdin name args = None"
    and "pr_pipes p x = Some c \<Longrightarrow> timeout \<le> c \<Longrightarrow>
      exec_run spawn timeout stdin name args = Some (c, Some (TimedOut name timeout), pr_output p c)"
  using assms by (simp_all add: exec_run_def combined_output_def ended_at_def Let_def)

end
