(* ===== verification/Spec2Isabelle.thy ===== *)
theory Spec2Isabelle
  imports Prelude Framing Json Protocol Netaddr Ipalloc Limiter Session Datapath Server
    Endpoints Reconnect Route Guards Client Pumps Files Revoke Invite Profile Watchdog Base64 Ipc Helper Control
    Vless VlessStore Paths Ca Issuance Runes Backup Health VlessLink ProfileStore Gui Bot Onboarding CaTool Quote
    DnsLinux DnsMac FirewallMac HostRoutes RouteTools HostFirewall VlessTool Listener
    Polling FileLock Tun Tls Service Daemon Programs ServerRun Tray Execx
begin

text \<open>
  A verification library for vpn.io: a VPN over TLS with client certificates (a server, a privileged client
  daemon, front-ends), its certificate authority, an onboarding bot and an optional VLESS node.

  \<^bold>\<open>Parts and theories.\<close> The paths below are under \<open>src/\<close>; a definition has the name of the Go function it
  translates, in the spelling of Isabelle, or is named after it in the comment before it.

  Shared. \<open>Prelude\<close>: bytes, strings, results, decimal numbers. \<open>Json\<close>: \<open>encoding/json\<close> as the sources use it,
  writer, parser and the round trip. \<open>Files\<close>: small JSON files that are replaced by a rename; the locale
  \<open>json_file\<close> is what the stores rely on, interpreted for every store. \<open>Base64\<close>, \<open>Paths\<close>, \<open>Runes\<close>: the rest of the standard
  library the sources use.

  The tunnel. \<open>Framing\<close> (\<open>internal/frame\<close>) and \<open>Protocol\<close> (\<open>internal/tunnel/protocol.go\<close>): frames, packets and control messages on a
  byte stream. \<open>Ipalloc\<close>, \<open>Limiter\<close>, \<open>Session\<close>: the address pool, the connection limiter and the session registry.
  \<open>Datapath\<close>: header parser, TUN router, session reader and writer. \<open>Server\<close> (\<open>internal/tunnel/server/server.go\<close>): every accepted
  connection as a program that interleaves with the others over pool, limiter and registry; \<open>ServerRun\<close>: the accept loop, the other
  goroutines of \<open>Run\<close> and the shutdown around them; \<open>Health\<close>: its report. \<open>Endpoints\<close>, \<open>Reconnect\<close>, \<open>Client\<close>, \<open>Pumps\<close> (\<open>internal/tunnel/client\<close>): the ring of endpoints, the reconnect loop, the goroutines of a session
  and one connection attempt with its steps on the host: \<open>Route\<close>, \<open>Guards\<close> (\<open>internal/route\<close>, \<open>internal/firewall\<close>, \<open>internal/dns\<close>). \<open>Watchdog\<close>: the alerts on a node.
  \<open>Tls\<close> (\<open>tls.go\<close> of server and client, \<open>internal/keyperm\<close>): what either side requires of the other, and \<open>Revoke\<close> at work in a handshake.
  \<open>Tun\<close> (\<open>internal/tun\<close>): the device between the packets and the driver.

  The host, per system. \<open>HostRoutes\<close>: the three route runners; \<open>RouteTools\<close>: what they keep of the laws \<open>Route\<close> relies on, from what
  the tools promise (\<open>ip_law\<close>, \<open>mac_route_law\<close>, \<open>win_route_law\<close>), and with it the properties of \<open>Route\<close> and \<open>Client\<close> on the routing table. \<open>DnsLinux\<close>, \<open>DnsMac\<close>: the resolver with its snapshots, and what a later
  start makes of those a crash left. \<open>FirewallMac\<close>, \<open>HostFirewall\<close>: IPv6 off and back on, the \<open>nft\<close> table, the \<open>netsh\<close> rules and the
  resolver on Windows. They are the runners \<open>Route\<close> and \<open>Guards\<close> are abstract in. \<open>Execx\<close> (\<open>internal/execx\<close>): the timeout every
  command runs under.

  The client machine. \<open>Profile\<close>: credentials and \<open>.vpnio\<close> bundles. \<open>Ipc\<close>, \<open>Helper\<close>, \<open>Control\<close>: the local socket, the daemon's
  controller and the front-end's side of it. \<open>Listener\<close>: the socket or pipe itself, who may open it and whom a client trusts behind it.
  \<open>Daemon\<close> (\<open>cmd/vpn-helper/main.go\<close>): flags, and the run of the daemon as the composition of \<open>DnsLinux\<close>, \<open>Listener\<close>, \<open>Ipc\<close> and \<open>Helper\<close>, with what a session does to the host meanwhile; \<open>Service\<close>
  (\<open>service_windows.go\<close>): the same under the service manager, and its installation. \<open>ProfileStore\<close>, \<open>Gui\<close>: what the desktop application
  keeps; \<open>Tray\<close>: what its menu shows and does. \<open>Programs\<close>: \<open>vpn-ctl\<close>, \<open>vpn-client\<close> and \<open>vpn-server\<close> as functions of their flags.

  The operator. \<open>Revoke\<close>: the deny-list and the checker of the server. \<open>Ca\<close>, \<open>Issuance\<close>, \<open>Backup\<close> (\<open>internal/ca\<close>): the authority, the
  history of its certificates, its backup. \<open>Invite\<close>: one-time tokens. \<open>Vless\<close>, \<open>VlessStore\<close>, \<open>VlessLink\<close> (\<open>internal/vless\<close>): the second
  service. \<open>Bot\<close>, \<open>Onboarding\<close> (\<open>cmd/vpn-bot\<close>): the bot over invites, authority, deny-list and VLESS files. \<open>CaTool\<close>, \<open>VlessTool\<close>
  (\<open>cmd/vpn-ca\<close>, \<open>cmd/vpn-vless\<close>): every command of the operator's programs. \<open>Polling\<close>, \<open>FileLock\<close> (\<open>internal/filelock\<close>): the loops that poll until
  a deadline, and the lock under which several processes load, change and save one file. \<open>Quote\<close>: the verb \<open>%q\<close>.

  \<^bold>\<open>How code is rendered.\<close> A struct is a record, a method a function of the state that returns the new state, a
  pair of value and error a sum with the error on the left. What runs under one mutex or file lock is one
  step, for files with \<open>FileLock.no_update_lost\<close> as the reason; where goroutines or processes interleave (\<open>Server\<close>, \<open>ServerRun\<close>, \<open>Pumps\<close>, \<open>Helper\<close>,
  \<open>FileLock\<close>, \<open>Service\<close>) the steps are those between the locks, and the statements quantify over all sequences of steps. What the operating system, the network, the clock, random numbers
  and the cryptographic libraries answer is an argument, so a statement holds for every such answer; where a
  library must keep a law (a time that is written can be read, an authenticated cipher) the law is a named
  hypothesis (\<open>codec_ok\<close>, \<open>backup_lib_ok\<close>, \<open>sealing_ideal\<close>, for the route runners \<open>lawful\<close> and \<open>exclusive\<close>, and for the tools of the host \<open>ip_law\<close>,
  \<open>mac_route_law\<close>, \<open>win_route_law\<close>, \<open>ns_lawful\<close>, \<open>v6_lawful\<close>, \<open>nft_lawful\<close>, \<open>netsh_lawful\<close>, for the order in which Go walks a map \<open>is_order\<close>, for a clock that passes the time slept \<open>paced\<close>) and has an
  instance. Bytes and the header fields are words,
  durations that may overflow (\<open>backoff\<close>) wrap at 64 bits; other Go integers are \<open>int\<close>, with \<open>int64_range\<close> where JSON
  reads them.

  \<^bold>\<open>Groups of lemmas.\<close> Invariants (\<open>pool_inv\<close>, \<open>owns\<close>, \<open>srv_inv\<close>, \<open>ctl_inv\<close>, \<open>ca_inv\<close>, \<open>lim_inv\<close>, \<open>wire_inv\<close>, \<open>recoverable\<close>, \<open>v6_inv\<close>, \<open>cycle_inv\<close>, \<open>phase_ok\<close>, \<open>dev_ok\<close>, \<open>run_inv\<close>) with their preservation by every operation;
  the cases an operation can end in, as \<open>obtains\<close> rules (\<open>redeem_cases\<close>, \<open>issue_client_cases\<close>, \<open>handle_message_cases\<close>); round trips of
  every JSON form (\<open>token_of_json_json\<close> and its kind); frames, that is what an operation leaves alone; and the
  properties, at the end of each theory with a witness each.

  \<^bold>\<open>Bounds and fuel.\<close> The JSON parser runs on fuel of the length of its input, and \<open>json_parse_iff\<close> shows no other fuel would
  give more; the reader of a frame, the loops over streams, files and updates are recursions on the input; the
  wait for the VLESS unit is given sixty polls, which \<open>wait_applied_ends\<close> shows to be enough. The
  loops that poll until a deadline are recursions on the answers they get and have the value \<open>None\<close> while these do not
  suffice; \<open>acquire_ends\<close> and \<open>install_ends\<close> show that 202 attempts at a lock, and 52, 68 and 68 questions to the service manager, always do.

  \<^bold>\<open>The routing table.\<close> A route runner is seen through a \<open>view\<close>: the rows a system keeps, the row of a request, the rows a delete may
  take along, and those whose delete may be refused. The manager drops its records of routes it could not delete, so such rows stay;
  the properties say so. On Linux the view is the main table without metrics; which interface Windows picks for a gateway is taken to
  be a function of the gateway.

  \<^bold>\<open>Simplifications.\<close> \<open>TrimSpace\<close>, \<open>ToLower\<close> and the shell's \<open>EqualFold\<close> are those of ASCII (the VLESS store takes \<open>EqualFold\<close> as an
  argument); text is taken to be valid UTF-8 where JSON would replace invalid bytes; one reading of the clock
  per call; log lines are left out.

  \<^bold>\<open>Not modelled.\<close> What an external command answers is an argument of the runners. Flag parsing and signals of the programs; the window, the drawing and the dialogs of the desktop application, of which
  \<open>Gui\<close> and \<open>Tray\<close> take the answers; log and audit records; the descriptor of the Windows pipe; what is cryptography, network or driver:
  \<open>crypto/tls\<close>, \<open>crypto/x509\<close>, wireguard's TUN, \<open>net/http\<close>, the Telegram library, the Windows API.
\<close>

end
